(* ===== verification/Dsh_Prelude.thy ===== *)
theory Dsh_Prelude
  imports Main
begin

text \<open>
  What every component of the development shares: results of code that can throw, folds of
  such code over a list, JavaScript array operations (\<open>indexOf\<close>, \<open>findLast\<close>, \<open>splice\<close>,
  \<open>slice\<close>), and the interface of an event-sourced projection, which the surface, the session
  trace, the inbox and the goal all have.
\<close>

section \<open>Results\<close>

text \<open>
  A function that may throw returns \<open>'e + 'a\<close>: \<open>Inl\<close> is the thrown error, \<open>Inr\<close> the value
  returned.
\<close>

fun bind_res :: "'e + 'a \<Rightarrow> ('a \<Rightarrow> 'e + 'b) \<Rightarrow> 'e + 'b" where
  "bind_res (Inl e) k = Inl e"
| "bind_res (Inr a) k = k a"

fun guard_res :: "bool \<Rightarrow> 'e \<Rightarrow> 'e + unit" where
  "guard_res b e = (if b then Inr () else Inl e)"

fun is_ok :: "'e + 'a \<Rightarrow> bool" where
  "is_ok (Inl e) = False"
| "is_ok (Inr a) = True"

lemma bind_res_Inr_iff:
  "bind_res r k = Inr b \<longleftrightarrow> (\<exists>a. r = Inr a \<and> k a = Inr b)"
  by (cases r) auto

lemma bind_res_Inl_iff:
  "bind_res r k = Inl e \<longleftrightarrow> r = Inl e \<or> (\<exists>a. r = Inr a \<and> k a = Inl e)"
  by (cases r) auto

lemma bind_res_assoc: "bind_res (bind_res r f) g = bind_res r (\<lambda>a. bind_res (f a) g)"
  by (cases r) auto

lemma bind_res_Inr_right [simp]: "bind_res r Inr = r"
  by (cases r) auto

lemma guard_res_Inr_iff [simp]: "guard_res b e = Inr u \<longleftrightarrow> b"
  by auto

lemma guard_res_bool [simp]: "guard_res True e = Inr ()" "guard_res False e = Inl e"
  by simp_all

lemma is_ok_iff: "is_ok r \<longleftrightarrow> (\<exists>a. r = Inr a)"
  by (cases r) auto

declare guard_res.simps [simp del]

section \<open>Folding a step that may throw\<close>

text \<open>A loop that applies a throwing step to each element in order and stops at the first throw.\<close>

fun fold_res :: "('s \<Rightarrow> 'x \<Rightarrow> 'e + 's) \<Rightarrow> 's \<Rightarrow> 'x list \<Rightarrow> 'e + 's" where
  "fold_res f s [] = Inr s"
| "fold_res f s (x # xs) = bind_res (f s x) (\<lambda>s'. fold_res f s' xs)"

lemma fold_res_append:
  "fold_res f s (xs @ ys) = bind_res (fold_res f s xs) (\<lambda>s'. fold_res f s' ys)"
  by (induction xs arbitrary: s) (simp_all add: bind_res_assoc)

lemma fold_res_snoc:
  "fold_res f s (xs @ [x]) = bind_res (fold_res f s xs) (\<lambda>s'. f s' x)"
  by (simp add: fold_res_append)

lemma fold_res_prefix:
  "fold_res f s (xs @ ys) = Inr t \<Longrightarrow> \<exists>u. fold_res f s xs = Inr u \<and> fold_res f u ys = Inr t"
  by (simp add: fold_res_append bind_res_Inr_iff)

lemma fold_res_inv:
  assumes "fold_res f s xs = Inr t" and "P s"
    and "\<And>s x s'. x \<in> set xs \<Longrightarrow> P s \<Longrightarrow> f s x = Inr s' \<Longrightarrow> P s'"
  shows "P t"
  using assms
proof (induction xs arbitrary: s)
  case Nil
  then show ?case by simp
next
  case (Cons x xs)
  from Cons.prems(1) obtain s' where s': "f s x = Inr s'" and t: "fold_res f s' xs = Inr t"
    by (auto simp: bind_res_Inr_iff)
  have "P s'" using Cons.prems(3) [of x s s'] Cons.prems(2) s' by simp
  moreover have "\<And>u y u'. y \<in> set xs \<Longrightarrow> P u \<Longrightarrow> f u y = Inr u' \<Longrightarrow> P u'"
    using Cons.prems(3) by (meson list.set_intros(2))
  ultimately show ?case using Cons.IH [OF t] by blast
qed

section \<open>Numbers in template strings\<close>

fun nat_string :: "nat \<Rightarrow> string" where
  "nat_string n =
     (if n < 10 then [char_of (48 + n)] else nat_string (n div 10) @ [char_of (48 + n mod 10)])"

declare nat_string.simps [simp del]

section \<open>Array operations\<close>

text \<open>\<open>Array.prototype.indexOf\<close> and \<open>findIndex\<close>; the \<open>-1\<close> of a miss is \<open>None\<close>.\<close>

fun find_index :: "('a \<Rightarrow> bool) \<Rightarrow> 'a list \<Rightarrow> nat option" where
  "find_index P [] = None"
| "find_index P (x # xs) = (if P x then Some 0 else map_option Suc (find_index P xs))"

definition index_of :: "'a \<Rightarrow> 'a list \<Rightarrow> nat option" where
  "index_of a xs = find_index (\<lambda>x. x = a) xs"

text \<open>\<open>Array.prototype.findLast\<close>.\<close>

fun find_last :: "('a \<Rightarrow> bool) \<Rightarrow> 'a list \<Rightarrow> 'a option" where
  "find_last P [] = None"
| "find_last P (x # xs) =
     (case find_last P xs of Some y \<Rightarrow> Some y | None \<Rightarrow> if P x then Some x else None)"

text \<open>\<open>xs[i]\<close>: out of range it is \<open>undefined\<close>.\<close>

definition elem_at :: "'a list \<Rightarrow> nat \<Rightarrow> 'a option" where
  "elem_at xs i = (if i < length xs then Some (xs ! i) else None)"

text \<open>
  \<open>xs.splice(start, count, ...ins)\<close> with coordinates already in range, as the list that results,
  and the list of removed elements.
\<close>

definition splice :: "'a list \<Rightarrow> nat \<Rightarrow> nat \<Rightarrow> 'a list \<Rightarrow> 'a list" where
  "splice xs start n ins = take start xs @ ins @ drop (start + n) xs"

definition spliced_out :: "'a list \<Rightarrow> nat \<Rightarrow> nat \<Rightarrow> 'a list" where
  "spliced_out xs start n = take n (drop start xs)"

lemma find_index_Some:
  "find_index P xs = Some i \<Longrightarrow> i < length xs \<and> P (xs ! i) \<and> (\<forall>j<i. \<not> P (xs ! j))"
proof (induction xs arbitrary: i)
  case Nil
  then show ?case by simp
next
  case (Cons x xs)
  show ?case
  proof (cases "P x")
    case True
    with Cons.prems show ?thesis by simp
  next
    case False
    with Cons.prems obtain k where k: "find_index P xs = Some k" and i: "i = Suc k"
      by auto
    from Cons.IH [OF k] False show ?thesis
      unfolding i by (auto simp: less_Suc_eq_0_disj)
  qed
qed

lemma find_index_None: "find_index P xs = None \<longleftrightarrow> (\<forall>x \<in> set xs. \<not> P x)"
  by (induction xs) auto

lemma index_of_Some: "index_of a xs = Some i \<Longrightarrow> i < length xs \<and> xs ! i = a"
  unfolding index_of_def by (auto dest: find_index_Some)

lemma index_of_None [simp]: "index_of a xs = None \<longleftrightarrow> a \<notin> set xs"
  unfolding index_of_def by (auto simp: find_index_None)

lemma index_of_nth:
  "distinct xs \<Longrightarrow> i < length xs \<Longrightarrow> index_of (xs ! i) xs = Some i"
proof -
  assume d: "distinct xs" and i: "i < length xs"
  then obtain j where j: "index_of (xs ! i) xs = Some j"
    by (metis index_of_None not_None_eq nth_mem)
  then have "j < length xs" and "xs ! j = xs ! i" using index_of_Some by fastforce+
  with d i have "j = i" by (simp add: nth_eq_iff_index_eq)
  with j show ?thesis by simp
qed

lemma find_last_append:
  "find_last P (xs @ ys) = (case find_last P ys of None \<Rightarrow> find_last P xs | Some y \<Rightarrow> Some y)"
  by (induction xs) (auto split: option.splits)

lemma find_last_snoc [simp]: "find_last P (xs @ [x]) = (if P x then Some x else find_last P xs)"
  by (simp add: find_last_append)

lemma find_last_Some: "find_last P xs = Some x \<Longrightarrow> x \<in> set xs \<and> P x"
  by (induction xs) (auto split: option.splits if_splits)

lemma find_last_None: "find_last P xs = None \<longleftrightarrow> (\<forall>x \<in> set xs. \<not> P x)"
  by (induction xs) (auto split: option.splits)

lemma elem_at_Some: "elem_at xs i = Some x \<longleftrightarrow> i < length xs \<and> xs ! i = x"
  by (auto simp: elem_at_def)

lemma elem_at_append1 [simp]: "i < length xs \<Longrightarrow> elem_at (xs @ ys) i = elem_at xs i"
  by (simp add: elem_at_def nth_append)

lemma splice_split:
  "start + n \<le> length xs \<Longrightarrow>
   xs = take start xs @ spliced_out xs start n @ drop (start + n) xs"
  unfolding spliced_out_def
  by (metis append_take_drop_id drop_drop add.commute)

lemma length_splice:
  "start + n \<le> length xs \<Longrightarrow> length (splice xs start n ins) = length xs + length ins - n"
  by (simp add: splice_def)

lemma length_spliced_out [simp]:
  "start + n \<le> length xs \<Longrightarrow> length (spliced_out xs start n) = n"
  by (simp add: spliced_out_def)

lemma set_splice_subset: "set (splice xs start n ins) \<subseteq> set xs \<union> set ins"
  unfolding splice_def using set_take_subset set_drop_subset by fastforce

lemma splice_0_append [simp]: "splice xs (length xs) 0 ins = xs @ ins"
  by (simp add: splice_def)

lemma splice_0_prepend [simp]: "splice xs 0 0 ins = ins @ xs"
  by (simp add: splice_def)

lemma spliced_out_0 [simp]: "spliced_out xs start 0 = []"
  by (simp add: spliced_out_def)

lemma spliced_out_all [simp]: "spliced_out xs 0 (length xs) = xs"
  by (simp add: spliced_out_def)

lemma splice_all [simp]: "splice xs 0 (length xs) ins = ins"
  by (simp add: splice_def)

section \<open>The interface of an event-sourced projection\<close>

text \<open>
  A projection starts from \<open>init\<close> and consumes one log entry at a time with \<open>apply\<close>, which may
  reject the entry. Its provider promises an invariant of every state it can reach. What clients
  use: the state after a log is the same however the log was cut into batches (a replay at load
  time and an incremental observation agree), a rejected log stays rejected, and the invariant.
\<close>

locale projection =
  fixes init :: 's
    and apply_event :: "'s \<Rightarrow> 'ev \<Rightarrow> 'e + 's"
    and inv :: "'s \<Rightarrow> bool"
  assumes inv_init: "inv init"
    and inv_apply: "inv s \<Longrightarrow> apply_event s e = Inr s' \<Longrightarrow> inv s'"
begin

definition replay :: "'ev list \<Rightarrow> 'e + 's" where
  "replay evs = fold_res apply_event init evs"

lemma replay_Nil: "replay [] = Inr init"
  by (simp add: replay_def)

lemma replay_append:
  "replay (xs @ ys) = bind_res (replay xs) (\<lambda>s. fold_res apply_event s ys)"
  by (simp add: replay_def fold_res_append)

lemma replay_snoc: "replay (xs @ [x]) = bind_res (replay xs) (\<lambda>s. apply_event s x)"
  by (simp add: replay_def fold_res_snoc)

lemma fold_inv: "fold_res apply_event s evs = Inr t \<Longrightarrow> inv s \<Longrightarrow> inv t"
  by (rule fold_res_inv [where P = inv and f = apply_event]) (auto intro: inv_apply)

lemma replay_inv: "replay evs = Inr s \<Longrightarrow> inv s"
  using fold_inv inv_init unfolding replay_def by blast

lemma replay_prefix: "replay (xs @ ys) = Inr s \<Longrightarrow> \<exists>u. replay xs = Inr u \<and> inv u"
  using fold_res_prefix replay_inv unfolding replay_def by metis

lemma incremental_agrees:
  "replay xs = Inr s \<Longrightarrow> fold_res apply_event s ys = replay (xs @ ys)"
  by (simp add: replay_append)

end

end
