(* ===== verification/Json_Value.thy ===== *)
theory Json_Value
  imports Dsh_Prelude
begin

text \<open>
  The JSON value domain of durable session data (\<open>JsonValue\<close> of
  packages/core/session/src/json.ts) and the structural equality over it that the surface uses
  to compare a tool result with its rewrite.

  A JavaScript number of this domain is finite and not negative zero. An integral one is
  \<open>JInt\<close>; any other is \<open>JFrac\<close> with its bit pattern, because the code modelled here only asks of
  a non-integral number whether it is one and whether two are the same. An object is the list of
  its own enumerable properties in property order, so \<open>json_wf\<close> says that no key occurs twice.
\<close>

datatype jsnum = JInt int | JFrac nat

datatype json =
    JNull
  | JBool bool
  | JNum jsnum
  | JStr string
  | JArr "json list"
  | JObj "(string \<times> json) list"

text \<open>\<open>Number.MAX_SAFE_INTEGER\<close> and \<open>Number.isSafeInteger\<close>.\<close>

definition max_safe_integer :: int where
  "max_safe_integer = 9007199254740991"

fun is_safe_integer :: "jsnum \<Rightarrow> bool" where
  "is_safe_integer (JInt i) = (\<bar>i\<bar> \<le> max_safe_integer)"
| "is_safe_integer (JFrac _) = False"

text \<open>A property read on a value that may not be a record: \<open>None\<close> is \<open>undefined\<close>.\<close>

fun jget :: "string \<Rightarrow> json \<Rightarrow> json option" where
  "jget k (JObj kvs) = map_of kvs k"
| "jget k _ = None"

fun is_record :: "json \<Rightarrow> bool" where
  "is_record (JObj _) = True"
| "is_record _ = False"

fun jkeys :: "json \<Rightarrow> string list" where
  "jkeys (JObj kvs) = map fst kvs"
| "jkeys _ = []"

text \<open>Writing a property: in place when it exists, else at the end (\<open>{...o, k: v}\<close>).\<close>

fun jset :: "string \<Rightarrow> json \<Rightarrow> (string \<times> json) list \<Rightarrow> (string \<times> json) list" where
  "jset k v [] = [(k, v)]"
| "jset k v ((k', w) # kvs) = (if k' = k then (k, v) # kvs else (k', w) # jset k v kvs)"

lemma keys_jset: "map fst (jset k v kvs) = (if k \<in> set (map fst kvs) then map fst kvs else map fst kvs @ [k])"
  by (induction k v kvs rule: jset.induct) auto

lemma map_of_jset: "map_of (jset k v kvs) = (map_of kvs)(k \<mapsto> v)"
  by (induction k v kvs rule: jset.induct) auto

lemma distinct_jset [simp]: "distinct (map fst (jset k v kvs)) \<longleftrightarrow> distinct (map fst kvs)"
  by (auto simp: keys_jset)

text \<open>\<open>isDeepEqualJson\<close> of surface.ts: arrays position by position, objects whatever the key order.\<close>

lemma size_zip_left [termination_simp]:
  "(x, y) \<in> set (zip xs ys) \<Longrightarrow> size (x :: json) < Suc (size_list size xs)"
  by (drule set_zip_leftD) (simp add: less_Suc_eq_le size_list_estimation')

fun isDeepEqualJson :: "json \<Rightarrow> json \<Rightarrow> bool" where
  "isDeepEqualJson (JArr xs) (JArr ys) =
     (length xs = length ys \<and> list_all (\<lambda>(x, y). isDeepEqualJson x y) (zip xs ys))"
| "isDeepEqualJson (JObj as) (JObj bs) =
     (length as = length bs \<and>
      list_all (\<lambda>(k, v). case map_of bs k of None \<Rightarrow> False | Some w \<Rightarrow> isDeepEqualJson v w) as)"
| "isDeepEqualJson a b = (a = b)"

fun json_wf :: "json \<Rightarrow> bool" where
  "json_wf (JArr xs) = list_all json_wf xs"
| "json_wf (JObj kvs) = (distinct (map fst kvs) \<and> list_all (\<lambda>(k, v). json_wf v) kvs)"
| "json_wf _ = True"

lemma isDeepEqualJson_refl: "json_wf a \<Longrightarrow> isDeepEqualJson a a"
proof (induction a)
  case (JArr xs)
  then show ?case by (auto simp: list_all_iff zip_same_conv_map)
next
  case (JObj kvs)
  have "isDeepEqualJson v v" if "(k, v) \<in> set kvs" for k v
  proof -
    have "v \<in> Basic_BNFs.snds (k, v)" by simp
    moreover have "json_wf v" using JObj.prems that by (auto simp: list_all_iff)
    ultimately show ?thesis using JObj.IH that by blast
  qed
  moreover have "map_of kvs k = Some v" if "(k, v) \<in> set kvs" for k v
    using JObj.prems that by (simp add: map_of_is_SomeI)
  ultimately show ?case by (auto simp: list_all_iff)
qed simp_all

lemma isDeepEqualJson_sym:
  "isDeepEqualJson a b \<Longrightarrow> json_wf a \<Longrightarrow> json_wf b \<Longrightarrow> isDeepEqualJson b a"
proof (induction a b rule: isDeepEqualJson.induct)
  case (1 xs ys)
  have "isDeepEqualJson y x" if "(y, x) \<in> set (zip ys xs)" for x y
  proof -
    from that have z: "(x, y) \<in> set (zip xs ys)" by (auto simp: in_set_zip)
    then have "x \<in> set xs" and "y \<in> set ys" by (auto dest: set_zip_leftD set_zip_rightD)
    with 1 z show ?thesis by (auto simp: list_all_iff)
  qed
  with 1 show ?case by (auto simp: list_all_iff)
next
  case (2 as bs)
  have len: "length as = length bs" using "2.prems" by simp
  have da: "distinct (map fst as)" and db: "distinct (map fst bs)" using "2.prems" by simp_all
  have step: "\<exists>w. map_of bs k = Some w \<and> isDeepEqualJson v w" if "(k, v) \<in> set as" for k v
    using "2.prems"(1) that by (auto simp: list_all_iff split: option.splits)
  have "set (map fst as) \<subseteq> set (map fst bs)"
  proof
    fix k assume "k \<in> set (map fst as)"
    then obtain v where "(k, v) \<in> set as" by auto
    from step [OF this] obtain w where "(k, w) \<in> set bs" by (auto dest: map_of_SomeD)
    then show "k \<in> set (map fst bs)" by force
  qed
  moreover have "card (set (map fst as)) = card (set (map fst bs))"
    using da db len by (metis distinct_card length_map)
  ultimately have keys: "set (map fst as) = set (map fst bs)" by (simp add: card_subset_eq)
  have "\<exists>v. map_of as k = Some v \<and> isDeepEqualJson w v" if kw: "(k, w) \<in> set bs" for k w
  proof -
    from kw have "k \<in> set (map fst bs)" by force
    then have "k \<in> set (map fst as)" using keys by simp
    then obtain v where v: "(k, v) \<in> set as" by auto
    with da have mv: "map_of as k = Some v" by simp
    from step [OF v] kw db obtain "map_of bs k = Some w" and eq: "isDeepEqualJson v w" by fastforce
    moreover have "json_wf v" and "json_wf w" using "2.prems" v kw by (auto simp: list_all_iff)
    ultimately have "isDeepEqualJson w v" using "2.IH" v by blast
    with mv show ?thesis by blast
  qed
  with len show ?case by (fastforce simp: list_all_iff split: option.splits)
qed auto

end
