(* ===== verification/Session_Types.thy ===== *)
theory Session_Types
  imports Complex_Main Json_Value
begin

text \<open>
  The durable vocabulary of a session: content blocks, messages and their sources
  (packages/llm/llm/src/types.ts and message.ts), the event payloads of \<open>SessionEventMap\<close>
  (packages/core/session/src/types.ts, with the entries the agent, goal, llm-retry and
  compaction packages merge into it), and the event envelope \<open>SessionEvent\<close>.

  Merge-extensible unions have a last constructor for a variant no modelled package declares. The
  surface metadata of an event stays raw JSON, as the surface validates it at run time.
\<close>

section \<open>Messages\<close>

record llm_failure =
  lf_message :: string
  lf_code :: string
  lf_status :: "int option"
  lf_providerRetryAfterMs :: "rat option"
  lf_requestId :: "string option"

datatype content_block =
    TextBlock string
  | ReasoningBlock string
  | ImageBlock json
  | ToolCallBlock string string string  \<comment> \<open>id, name, arguments\<close>
  | ToolResultBlock string "content_block list" "bool option"  \<comment> \<open>toolCallId, content, isError\<close>
  | OtherBlock string "(string \<times> json) list"  \<comment> \<open>type, remaining properties\<close>

fun block_type :: "content_block \<Rightarrow> string" where
  "block_type (TextBlock _) = ''text''"
| "block_type (ReasoningBlock _) = ''reasoning''"
| "block_type (ImageBlock _) = ''image''"
| "block_type (ToolCallBlock _ _ _) = ''tool-call''"
| "block_type (ToolResultBlock _ _ _) = ''tool-result''"
| "block_type (OtherBlock t _) = t"

text \<open>
  \<open>GoalSource\<close> carries raw numbers: the goal fold checks at run time that they are positive safe
  integers.
\<close>

datatype message_source =
    UserSource
  | PluginSource string "(string \<times> json) list"  \<comment> \<open>plugin, its \<open>ContextFormed\<close> properties\<close>
  | ModelSource string string "json option"  \<comment> \<open>provider, model, replayState\<close>
  | ToolSource string  \<comment> \<open>callId\<close>
  | GoalSource string jsnum jsnum  \<comment> \<open>goalId, revision, round\<close>
  | OtherSource string "(string \<times> json) list"

datatype role = SystemRole | UserRole | AssistantRole

record message =
  m_id :: string
  m_role :: role
  m_content :: "content_block list"
  m_source :: message_source

record token_usage =
  tu_inputTokens :: nat
  tu_outputTokens :: nat
  tu_cacheReadTokens :: "nat option"
  tu_cacheWriteTokens :: "nat option"
  tu_reasoningTokens :: "nat option"

datatype finish_reason =
    FinishStop
  | FinishToolCalls
  | FinishMaxTokens
  | FinishAborted llm_failure
  | FinishError llm_failure
  | FinishOther string

record replay_envelope =
  re_response :: json
  re_blocks :: "json list option"

datatype stream_chunk =
    BlockStart nat string  \<comment> \<open>index, blockType\<close>
  | TextDelta nat string
  | ReasoningDelta nat string
  | ToolCallDelta nat string "string option" string  \<comment> \<open>index, id, name, argumentsDelta\<close>
  | BlockEnd nat content_block
  | UsageChunk token_usage
  | FinishChunk finish_reason "replay_envelope option"

section \<open>Request state\<close>

record call_config =
  cc_provider :: string
  cc_model :: string
  cc_reasoningEffort :: "string option"
  cc_temperature :: "rat option"
  cc_maxTokens :: "nat option"
  cc_stop :: "string list option"

text \<open>\<open>LlmCallConfigAdapterDefaults\<close>: a field is \<open>true\<close> or absent.\<close>

record adapter_defaults =
  ad_reasoningEffort :: bool
  ad_maxTokens :: bool

record tool_schema =
  ts_name :: string
  ts_description :: string
  ts_parameters :: json

record epoch_header =
  eh_config :: call_config
  eh_adapterDefaults :: "adapter_defaults option"
  eh_system :: "string option"
  eh_tools :: "tool_schema list option"

record request_context =
  rc_provider :: string
  rc_model :: string
  rc_contextWindow :: "nat option"

datatype request_header_reason = InitialHeader | ResumeHeader | ChangeHeader

section \<open>Events\<close>

datatype cancel_cause =
    CancelUser
  | CancelParent
  | CancelHook string
  | CancelDisposed
  | CancelLegacy

datatype turn_end_reason =
    Completed
  | Aborted cancel_cause
  | Blocked
  | TurnError llm_failure
  | MaxTokens
  | Interrupted
  | OtherReason string

datatype todo_status = TodoPending | TodoInProgress | TodoCompleted

record tool_result_data =
  tr_turn :: nat
  tr_step :: nat
  tr_message :: message
  tr_error :: "(string \<times> string) option"  \<comment> \<open>name, code\<close>
  tr_meta :: "json option"

datatype inbox_target = NextTurn | NextStep

text \<open>The payload of \<open>agent/inbox/spliced\<close> (packages/core/agent/src/types.ts).\<close>

record inbox_splice =
  is_target :: inbox_target
  is_start :: nat
  is_removedCount :: "nat option"
  is_inserted :: "message list"
  is_canceled :: bool  \<comment> \<open>\<open>outcome: 'canceled'\<close> is present\<close>

text \<open>
  The payload of \<open>compaction/summary\<close> (packages/compaction/compaction/src/types.ts);
  \<open>llmStreamCall\<close> is \<open>true\<close> or absent.
\<close>

record compaction_summary =
  cs_compactionId :: string
  cs_sourceCommandId :: "string option"
  cs_summary :: "content_block list"
  cs_rangeStart :: nat
  cs_rangeEnd :: nat
  cs_shadowedSeqs :: "nat list"
  cs_shadowedTokenCount :: nat
  cs_provider :: string
  cs_model :: string
  cs_maxTokens :: "nat option"
  cs_usage :: "token_usage option"
  cs_rawOutput :: "content_block list option"
  cs_llmStreamCall :: bool

text \<open>The payloads of \<open>llm/retry\<close> and \<open>llm/retry-started\<close> (packages/llm/llm-retry/src/types.ts).\<close>

record llm_retry_data =
  rd_retryId :: string
  rd_turn :: nat
  rd_step :: nat
  rd_provider :: string
  rd_maxRetries :: "nat option"  \<comment> \<open>present exactly in mode \<open>normal\<close>\<close>
  rd_policyKey :: string
  rd_retry :: nat
  rd_delayMs :: rat
  rd_failure :: llm_failure

datatype event_data =
    TurnStart nat
  | TurnEnd nat turn_end_reason
  | StepStart nat nat
  | StepEnd nat nat
  | UserMessage message
  | AssistantChunk nat nat stream_chunk
  | AssistantMessage nat nat message "token_usage option" bool
  | ToolCall nat nat string string string  \<comment> \<open>turn, step, callId, name, arguments\<close>
  | ToolResult tool_result_data
  | TodoWrite "(string \<times> todo_status) list"
  | RequestHeader epoch_header request_header_reason
  | RequestContext request_context
  | EndSeed
  | InboxSpliced inbox_splice
  | GoalChange json
  | LlmRetry llm_retry_data
  | LlmRetryStarted string nat nat nat  \<comment> \<open>retryId, turn, step, retry\<close>
  | CompactionStart string "string option" "nat option"  \<comment> \<open>compactionId, sourceCommandId, turn\<close>
  | CompactionSummary compaction_summary
  | CompactionEnd string "string option" "nat option" "string option"  \<comment> \<open>as the start, and error\<close>
  | CompactionPrune nat nat "nat list" nat  \<comment> \<open>shadowedRange, shadowedSeqs, shadowedTokenCount\<close>
  | OtherEvent string json

fun event_type :: "event_data \<Rightarrow> string" where
  "event_type (TurnStart _) = ''turn/start''"
| "event_type (TurnEnd _ _) = ''turn/end''"
| "event_type (StepStart _ _) = ''step/start''"
| "event_type (StepEnd _ _) = ''step/end''"
| "event_type (UserMessage _) = ''user/message''"
| "event_type (AssistantChunk _ _ _) = ''assistant/chunk''"
| "event_type (AssistantMessage _ _ _ _ _) = ''assistant/message''"
| "event_type (ToolCall _ _ _ _ _) = ''tool/call''"
| "event_type (ToolResult _) = ''tool/result''"
| "event_type (TodoWrite _) = ''todo/write''"
| "event_type (RequestHeader _ _) = ''request/header''"
| "event_type (RequestContext _) = ''request/context''"
| "event_type EndSeed = ''session/end-seed''"
| "event_type (InboxSpliced _) = ''agent/inbox/spliced''"
| "event_type (GoalChange _) = ''goal/change''"
| "event_type (LlmRetry _) = ''llm/retry''"
| "event_type (LlmRetryStarted _ _ _ _) = ''llm/retry-started''"
| "event_type (CompactionStart _ _ _) = ''compaction/start''"
| "event_type (CompactionSummary _) = ''compaction/summary''"
| "event_type (CompactionEnd _ _ _ _) = ''compaction/end''"
| "event_type (CompactionPrune _ _ _ _) = ''compaction/prune''"
| "event_type (OtherEvent t _) = t"

text \<open>An \<open>OtherEvent\<close> carries a type name no modelled package declares.\<close>

definition declared_types :: "string list" where
  "declared_types =
     [''turn/start'', ''turn/end'', ''step/start'', ''step/end'', ''user/message'',
      ''assistant/chunk'', ''assistant/message'', ''tool/call'', ''tool/result'', ''todo/write'',
      ''request/header'', ''request/context'', ''session/end-seed'', ''agent/inbox/spliced'',
      ''goal/change'', ''llm/retry'', ''llm/retry-started'', ''compaction/start'',
      ''compaction/summary'', ''compaction/end'', ''compaction/prune'']"

fun data_wf :: "event_data \<Rightarrow> bool" where
  "data_wf (OtherEvent t _) = (t \<notin> set declared_types)"
| "data_wf _ = True"

record session_event =
  ev_seq :: nat
  ev_time :: nat
  ev_data :: event_data
  ev_surfaceOp :: "json option"
  ev_sourceEventSeqs :: "json option"
  ev_ignorable :: bool

section \<open>The JSON a tool result is stored as\<close>

text \<open>
  The surface compares two tool results through their JSON, so the payload's encoding is spelled
  out: one property per field, an absent optional field absent.
\<close>

fun opt_field :: "string \<Rightarrow> ('a \<Rightarrow> json) \<Rightarrow> 'a option \<Rightarrow> (string \<times> json) list" where
  "opt_field k f None = []"
| "opt_field k f (Some a) = [(k, f a)]"

fun block_json :: "content_block \<Rightarrow> json" where
  "block_json (TextBlock t) = JObj [(''type'', JStr ''text''), (''text'', JStr t)]"
| "block_json (ReasoningBlock t) = JObj [(''type'', JStr ''reasoning''), (''text'', JStr t)]"
| "block_json (ImageBlock a) = JObj [(''type'', JStr ''image''), (''attachment'', a)]"
| "block_json (ToolCallBlock i n a) =
     JObj [(''type'', JStr ''tool-call''), (''id'', JStr i), (''name'', JStr n), (''arguments'', JStr a)]"
| "block_json (ToolResultBlock i c e) =
     JObj ([(''type'', JStr ''tool-result''), (''toolCallId'', JStr i), (''content'', JArr (map block_json c))]
           @ opt_field ''isError'' JBool e)"
| "block_json (OtherBlock t kvs) = JObj ((''type'', JStr t) # kvs)"

fun source_json :: "message_source \<Rightarrow> json" where
  "source_json UserSource = JObj [(''kind'', JStr ''user'')]"
| "source_json (PluginSource p kvs) =
     JObj ([(''kind'', JStr ''plugin''), (''plugin'', JStr p)] @ kvs)"
| "source_json (ModelSource p m r) =
     JObj ([(''kind'', JStr ''model''), (''provider'', JStr p), (''model'', JStr m)]
           @ opt_field ''replayState'' id r)"
| "source_json (ToolSource c) = JObj [(''kind'', JStr ''tool''), (''callId'', JStr c)]"
| "source_json (GoalSource g r n) =
     JObj [(''kind'', JStr ''goal''), (''goalId'', JStr g), (''revision'', JNum r), (''round'', JNum n)]"
| "source_json (OtherSource k kvs) = JObj ((''kind'', JStr k) # kvs)"

fun role_json :: "role \<Rightarrow> json" where
  "role_json SystemRole = JStr ''system''"
| "role_json UserRole = JStr ''user''"
| "role_json AssistantRole = JStr ''assistant''"

text \<open>The message with its content array given, so that the surface can blank it.\<close>

definition message_json_with :: "json list \<Rightarrow> message \<Rightarrow> json" where
  "message_json_with content m =
     JObj [(''id'', JStr (m_id m)), (''role'', role_json (m_role m)),
           (''content'', JArr content), (''source'', source_json (m_source m))]"

definition tool_result_json_with :: "json list \<Rightarrow> tool_result_data \<Rightarrow> json" where
  "tool_result_json_with content d =
     JObj ([(''turn'', JNum (JInt (int (tr_turn d)))), (''step'', JNum (JInt (int (tr_step d)))),
            (''message'', message_json_with content (tr_message d))]
           @ opt_field ''error'' (\<lambda>(n, c). JObj [(''name'', JStr n), (''code'', JStr c)]) (tr_error d)
           @ opt_field ''meta'' id (tr_meta d))"

end
