(* ===== verification/Surface.thy ===== *)
theory Surface
  imports Session_Types "HOL-Library.Multiset"
begin

text \<open>
  The surface of a session (packages/core/session/src/surface.ts): the ordered view of the
  message-producing events of the log. An event appends itself to the surface or replaces a
  contiguous range of it. \<open>planSurfaceEvent\<close> validates one event against the current surface,
  \<open>applySurfacePlan\<close> commits the transition, \<open>foldSurface\<close> replays a whole log, and the
  \<open>SurfaceManager\<close> operations maintain the same state incrementally, with a plan prepared by
  \<open>validateNext\<close> and consumed when the event is found in the log.

  The second half proves the invariant of the fold, that no surface event is lost (it is on the
  surface or was shadowed by exactly one replacement), that a replacement cites everything it
  shadows, and that the manager shows the surface of the full replay.
\<close>

section \<open>Event classification\<close>

definition surface_event_types :: "string list" where
  "surface_event_types = [''user/message'', ''assistant/message'', ''tool/result'']"

definition isSurfaceEligibleType :: "string \<Rightarrow> bool" where
  "isSurfaceEligibleType t = (t \<in> set surface_event_types)"

definition isSurfaceEvent :: "session_event \<Rightarrow> bool" where
  "isSurfaceEvent ev =
     (if \<not> isSurfaceEligibleType (event_type (ev_data ev)) then False else ev_surfaceOp ev \<noteq> None)"

definition isAppendSurfaceEvent :: "session_event \<Rightarrow> bool" where
  "isAppendSurfaceEvent ev = (isSurfaceEvent ev \<and> ev_surfaceOp ev = Some (JStr ''append''))"

definition isReplacementSurfaceEvent :: "session_event \<Rightarrow> bool" where
  "isReplacementSurfaceEvent ev = (isSurfaceEvent ev \<and> ev_surfaceOp ev \<noteq> Some (JStr ''append''))"

fun deriveEventMessage :: "event_data \<Rightarrow> message option" where
  "deriveEventMessage (UserMessage m) = Some m"
| "deriveEventMessage (AssistantMessage _ _ m _ _) = (if m_content m = [] then None else Some m)"
| "deriveEventMessage (ToolResult d) = Some (tr_message d)"
| "deriveEventMessage _ = None"

section \<open>Fold state and transitions\<close>

record surface_state =
  sf_nodes :: "nat list"
  sf_replaceGeneration :: nat

record surface_replacement =
  sr_seq :: nat
  sr_start :: nat
  sr_end :: nat
  sr_shadowedSeqs :: "nat list"

datatype surface_op = OpAppend | OpReplace nat nat

datatype surface_plan =
    PlanAppend nat
  | PlanReplace surface_replacement nat nat  \<comment> \<open>replacement, startIdx, endIdx\<close>

datatype surface_error =
    NotEligibleOp string
  | NotEligibleSources string
  | MissingMarker string
  | InvalidOp string
  | InvalidReplaceOp string
  | SourcesNotArray nat
  | SourcesEmpty
  | SourcesNotDense string
  | SourcesDuplicate
  | SourcesNotEarlier nat nat
  | MissingShadowed "nat list"
  | StartNotFound nat
  | EndNotFound nat
  | StartAfterEnd nat nat nat nat
  | RewriteNotSingle
  | RewriteNotResult
  | RewriteNotContentOnly
  | NotContiguous nat nat

definition createFoldState :: surface_state where
  "createFoldState = \<lparr>sf_nodes = [], sf_replaceGeneration = 0\<rparr>"

fun isEventSeq :: "json \<Rightarrow> bool" where
  "isEventSeq (JNum (JInt i)) = (is_safe_integer (JInt i) \<and> 0 \<le> i)"
| "isEventSeq _ = False"

text \<open>The number a validated sequence stands for.\<close>

fun seq_of :: "json \<Rightarrow> nat" where
  "seq_of (JNum (JInt i)) = nat i"
| "seq_of _ = 0"

definition isReplaceOp :: "json \<Rightarrow> bool" where
  "isReplaceOp op =
     (length (jkeys op) = 3
      \<and> jget ''op'' op \<noteq> None \<and> jget ''start'' op \<noteq> None \<and> jget ''end'' op \<noteq> None
      \<and> jget ''op'' op = Some (JStr ''replace'')
      \<and> isEventSeq (the (jget ''start'' op))
      \<and> isEventSeq (the (jget ''end'' op)))"

definition surfaceOpOf :: "session_event \<Rightarrow> surface_error + surface_op option" where
  "surfaceOpOf ev =
     (let t = event_type (ev_data ev) in
      if \<not> isSurfaceEligibleType t then
        (if ev_surfaceOp ev \<noteq> None then Inl (NotEligibleOp t)
         else if ev_sourceEventSeqs ev \<noteq> None then Inl (NotEligibleSources t)
         else Inr None)
      else case ev_surfaceOp ev of
        None \<Rightarrow> Inl (MissingMarker t)
      | Some op \<Rightarrow>
          if op = JStr ''append'' then Inr (Some OpAppend)
          else if \<not> is_record op then Inl (InvalidOp t)
          else if \<not> isReplaceOp op then Inl (InvalidReplaceOp t)
          else Inr (Some (OpReplace (seq_of (the (jget ''start'' op))) (seq_of (the (jget ''end'' op))))))"

text \<open>
  The set of cited sequences, or the first violation the code reports: a non-sequence stops the
  loop; duplicates are reported after it, then the first source that is not earlier.
\<close>

definition citedSources :: "session_event \<Rightarrow> surface_error + nat list" where
  "citedSources ev =
     (case ev_sourceEventSeqs ev of
        None \<Rightarrow> Inr []
      | Some (JArr raw) \<Rightarrow>
          if raw = [] \<and> event_type (ev_data ev) \<noteq> ''assistant/message'' then Inl SourcesEmpty
          else if \<not> list_all isEventSeq raw then Inl (SourcesNotDense (event_type (ev_data ev)))
          else if \<not> distinct (map seq_of raw) then Inl SourcesDuplicate
          else (case find (\<lambda>s. ev_seq ev \<le> s) (map seq_of raw) of
                  Some s \<Rightarrow> Inl (SourcesNotEarlier s (ev_seq ev))
                | None \<Rightarrow> Inr (map seq_of raw))
      | Some _ \<Rightarrow> Inl (SourcesNotArray (ev_seq ev)))"

definition assertProvenance :: "session_event \<Rightarrow> nat list \<Rightarrow> surface_error + unit" where
  "assertProvenance ev shadowed =
     bind_res (citedSources ev) (\<lambda>sources.
       let missing = filter (\<lambda>s. s \<notin> set sources) shadowed in
       guard_res (missing = []) (MissingShadowed missing))"

text \<open>\<open>startIdx\<close>, \<open>endIdx\<close> and \<open>shadowedSeqs\<close>.\<close>

definition replacementRange ::
    "surface_state \<Rightarrow> nat \<Rightarrow> nat \<Rightarrow> surface_error + nat \<times> nat \<times> nat list" where
  "replacementRange st start end =
     (case index_of start (sf_nodes st) of
        None \<Rightarrow> Inl (StartNotFound start)
      | Some startIdx \<Rightarrow>
          (case index_of end (sf_nodes st) of
             None \<Rightarrow> Inl (EndNotFound end)
           | Some endIdx \<Rightarrow>
               if startIdx > endIdx then Inl (StartAfterEnd start startIdx end endIdx)
               else Inr (startIdx, endIdx, spliced_out (sf_nodes st) startIdx (endIdx - startIdx + 1))))"

text \<open>\<open>{ ...block, content: null }\<close> for a block that may be \<open>undefined\<close>.\<close>

definition blank_block :: "content_block option \<Rightarrow> json" where
  "blank_block b =
     (case b of None \<Rightarrow> JObj [(''content'', JNull)]
      | Some c \<Rightarrow> (case block_json c of JObj kvs \<Rightarrow> JObj (jset ''content'' JNull kvs) | j \<Rightarrow> j))"

definition blanked_result :: "tool_result_data \<Rightarrow> json" where
  "blanked_result d = tool_result_json_with [blank_block (elem_at (m_content (tr_message d)) 0)] d"

definition assertToolResultRewrite ::
    "session_event \<Rightarrow> nat list \<Rightarrow> session_event list \<Rightarrow> nat \<Rightarrow> surface_error + unit" where
  "assertToolResultRewrite ev shadowed events baseSeq =
     (case ev_data ev of
        ToolResult d \<Rightarrow>
          (case shadowed of
             [originalSeq] \<Rightarrow>
               (case (if originalSeq < baseSeq then None else elem_at events (originalSeq - baseSeq)) of
                  Some original \<Rightarrow>
                    (case ev_data original of
                       ToolResult od \<Rightarrow>
                         guard_res (isDeepEqualJson (blanked_result od) (blanked_result d)) RewriteNotContentOnly
                     | _ \<Rightarrow> Inl RewriteNotResult)
                | None \<Rightarrow> Inl RewriteNotResult)
           | _ \<Rightarrow> Inl RewriteNotSingle)
      | _ \<Rightarrow> Inr ())"

definition planSurfaceEvent ::
    "surface_state \<Rightarrow> session_event \<Rightarrow> nat \<Rightarrow> session_event list \<Rightarrow> nat
     \<Rightarrow> surface_error + surface_plan option" where
  "planSurfaceEvent st ev expectedSeq events baseSeq =
     (if ev_seq ev \<noteq> expectedSeq then Inl (NotContiguous (ev_seq ev) expectedSeq)
      else bind_res (surfaceOpOf ev) (\<lambda>op.
        case op of
          None \<Rightarrow> Inr None
        | Some OpAppend \<Rightarrow> bind_res (assertProvenance ev []) (\<lambda>_. Inr (Some (PlanAppend (ev_seq ev))))
        | Some (OpReplace start end) \<Rightarrow>
            bind_res (replacementRange st start end) (\<lambda>(startIdx, endIdx, shadowed).
            bind_res (assertProvenance ev shadowed) (\<lambda>_.
            bind_res (assertToolResultRewrite ev shadowed events baseSeq) (\<lambda>_.
              Inr (Some (PlanReplace
                \<lparr>sr_seq = ev_seq ev, sr_start = start, sr_end = end, sr_shadowedSeqs = shadowed\<rparr>
                startIdx endIdx)))))))"

fun applySurfacePlan :: "surface_state \<Rightarrow> surface_plan option \<Rightarrow> surface_state \<times> surface_replacement option" where
  "applySurfacePlan st (Some (PlanAppend seq)) = (st\<lparr>sf_nodes := sf_nodes st @ [seq]\<rparr>, None)"
| "applySurfacePlan st (Some (PlanReplace r startIdx endIdx)) =
     (st\<lparr>sf_nodes := splice (sf_nodes st) startIdx (endIdx - startIdx + 1) [sr_seq r],
         sf_replaceGeneration := sf_replaceGeneration st + 1\<rparr>, Some r)"
| "applySurfacePlan st None = (st, None)"

definition applySurfaceEvent ::
    "surface_state \<Rightarrow> session_event \<Rightarrow> nat \<Rightarrow> session_event list \<Rightarrow> nat
     \<Rightarrow> surface_error + surface_state \<times> surface_replacement option" where
  "applySurfaceEvent st ev expectedSeq events baseSeq =
     bind_res (planSurfaceEvent st ev expectedSeq events baseSeq) (\<lambda>plan. Inr (applySurfacePlan st plan))"

text \<open>The loop of \<open>foldSurface\<close> over the entries of the log, with its two accumulators.\<close>

definition fold_entry ::
    "session_event list \<Rightarrow> surface_state \<times> surface_replacement list \<Rightarrow> nat \<times> session_event
     \<Rightarrow> surface_error + surface_state \<times> surface_replacement list" where
  "fold_entry events acc entry =
     bind_res (applySurfaceEvent (fst acc) (snd entry) (fst entry) events 0) (\<lambda>(st, r).
       Inr (st, snd acc @ (case r of None \<Rightarrow> [] | Some x \<Rightarrow> [x])))"

definition foldSurface ::
    "session_event list \<Rightarrow> surface_error + surface_state \<times> surface_replacement list" where
  "foldSurface events = fold_res (fold_entry events) (createFoldState, []) (enumerate 0 events)"

section \<open>The incremental manager\<close>

text \<open>
  The manager shares the session's log array and its base sequence, so both are arguments of its
  operations. The code recognises the event it planned by object identity; the plan depends on the
  event's value only, so the model compares values.
\<close>

record surface_manager =
  sm_state :: surface_state
  sm_lastProcessedSeq :: int
  sm_pendingPlan :: "(session_event \<times> nat \<times> surface_plan option) option"

definition newSurfaceManager :: "nat \<Rightarrow> surface_manager" where
  "newSurfaceManager baseSeq =
     \<lparr>sm_state = createFoldState, sm_lastProcessedSeq = int baseSeq - 1, sm_pendingPlan = None\<rparr>"

definition process_one ::
    "session_event list \<Rightarrow> nat \<Rightarrow> surface_manager \<Rightarrow> nat \<Rightarrow> surface_error + surface_manager" where
  "process_one events baseSeq m index =
     (let seq = baseSeq + index; event = events ! index; pending = sm_pendingPlan m;
          finish = (\<lambda>st. m\<lparr>sm_state := st,
                          sm_pendingPlan := (case pending of
                             None \<Rightarrow> None
                           | Some (_, expectedSeq, _) \<Rightarrow> if expectedSeq \<le> seq then None else pending),
                          sm_lastProcessedSeq := int seq\<rparr>)
      in case pending of
           Some (pe, expectedSeq, plan) \<Rightarrow>
             if pe = event \<and> expectedSeq = seq
             then Inr (finish (fst (applySurfacePlan (sm_state m) plan)))
             else bind_res (applySurfaceEvent (sm_state m) event seq events baseSeq) (\<lambda>(st, _). Inr (finish st))
         | None \<Rightarrow> bind_res (applySurfaceEvent (sm_state m) event seq events baseSeq) (\<lambda>(st, _). Inr (finish st)))"

definition processDelta :: "session_event list \<Rightarrow> nat \<Rightarrow> surface_manager \<Rightarrow> surface_error + surface_manager" where
  "processDelta events baseSeq m =
     fold_res (process_one events baseSeq) m [nat (sm_lastProcessedSeq m + 1) - baseSeq ..< length events]"

text \<open>The guard every reader and \<open>validateNext\<close> share: fold what was appended since.\<close>

definition syncSurface :: "session_event list \<Rightarrow> nat \<Rightarrow> surface_manager \<Rightarrow> surface_error + surface_manager" where
  "syncSurface events baseSeq m =
     (if sm_lastProcessedSeq m < int baseSeq + int (length events) - 1 then processDelta events baseSeq m else Inr m)"

definition validateNext ::
    "session_event list \<Rightarrow> nat \<Rightarrow> surface_manager \<Rightarrow> session_event \<Rightarrow> surface_error + surface_manager" where
  "validateNext events baseSeq m ev =
     bind_res (syncSurface events baseSeq m) (\<lambda>m'.
     bind_res (planSurfaceEvent (sm_state m') ev (baseSeq + length events) events baseSeq) (\<lambda>plan.
       Inr (m'\<lparr>sm_pendingPlan := Some (ev, baseSeq + length events, plan)\<rparr>)))"

section \<open>What a planned transition guarantees\<close>

lemma isSurfaceEvent_iff:
  "isSurfaceEvent ev \<longleftrightarrow> isSurfaceEligibleType (event_type (ev_data ev)) \<and> ev_surfaceOp ev \<noteq> None"
  by (auto simp: isSurfaceEvent_def)

lemma surfaceOpOf_None: "surfaceOpOf ev = Inr None \<Longrightarrow> \<not> isSurfaceEvent ev"
  by (auto simp: surfaceOpOf_def isSurfaceEvent_iff Let_def split: option.splits if_splits)

lemma surfaceOpOf_Some: "surfaceOpOf ev = Inr (Some op) \<Longrightarrow> isSurfaceEvent ev"
  by (auto simp: surfaceOpOf_def isSurfaceEvent_iff Let_def split: option.splits if_splits)

lemma surfaceOpOf_append: "surfaceOpOf ev = Inr (Some OpAppend) \<Longrightarrow> isAppendSurfaceEvent ev"
  by (frule surfaceOpOf_Some)
    (auto simp: surfaceOpOf_def isAppendSurfaceEvent_def Let_def split: option.splits if_splits)

lemma citedSources_earlier: "citedSources ev = Inr ss \<Longrightarrow> s \<in> set ss \<Longrightarrow> s < ev_seq ev"
  by (auto simp: citedSources_def find_None_iff not_le split: option.splits json.splits if_splits)

lemma citedSources_distinct: "citedSources ev = Inr ss \<Longrightarrow> distinct ss"
  by (auto simp: citedSources_def split: option.splits json.splits if_splits)

lemma assertProvenance_Inr:
  "assertProvenance ev shadowed = Inr u \<Longrightarrow>
   \<exists>ss. citedSources ev = Inr ss \<and> set shadowed \<subseteq> set ss"
  by (auto simp: assertProvenance_def Let_def bind_res_Inr_iff filter_empty_conv)

lemma replacementRange_Inr:
  assumes "replacementRange st start end = Inr (si, ei, sh)"
  shows "si \<le> ei \<and> ei < length (sf_nodes st) \<and> sf_nodes st ! si = start \<and> sf_nodes st ! ei = end
         \<and> sh = spliced_out (sf_nodes st) si (ei - si + 1)"
  using assms by (auto simp: replacementRange_def dest!: index_of_Some split: option.splits if_splits)

lemma set_spliced_out_subset: "set (spliced_out xs i n) \<subseteq> set xs"
  unfolding spliced_out_def by (meson order_trans set_drop_subset set_take_subset)

lemma spliced_out_ends:
  assumes "si \<le> ei" "ei < length xs"
  shows "spliced_out xs si (ei - si + 1) \<noteq> []"
    and "hd (spliced_out xs si (ei - si + 1)) = xs ! si"
    and "last (spliced_out xs si (ei - si + 1)) = xs ! ei"
proof -
  let ?sh = "spliced_out xs si (ei - si + 1)"
  have len: "length ?sh = ei - si + 1" using assms by simp
  then show ne: "?sh \<noteq> []" by auto
  show "hd ?sh = xs ! si" using ne assms len
    by (metis (no_types, lifting) add.right_neutral hd_conv_nth less_add_one nth_drop nth_take
        spliced_out_def zero_less_Suc Suc_eq_plus1 le_less_trans less_imp_le)
  have "last ?sh = ?sh ! (ei - si)" using ne len by (simp add: last_conv_nth)
  also have "\<dots> = xs ! ei" using assms by (simp add: spliced_out_def)
  finally show "last ?sh = xs ! ei" .
qed

text \<open>A successful plan, by kind.\<close>

lemma plan_seq: "planSurfaceEvent st ev n evs b = Inr p \<Longrightarrow> ev_seq ev = n"
  by (auto simp: planSurfaceEvent_def split: if_splits)

lemma plan_None:
  assumes "planSurfaceEvent st ev n evs b = Inr None"
  shows "\<not> isSurfaceEvent ev"
proof -
  from assms plan_seq [OF assms] obtain op where op: "surfaceOpOf ev = Inr op"
    by (auto simp: planSurfaceEvent_def bind_res_Inr_iff)
  show ?thesis
  proof (cases op)
    case None
    with op show ?thesis by (simp add: surfaceOpOf_None)
  next
    case (Some o')
    with assms plan_seq [OF assms] op show ?thesis
      by (cases o') (auto simp: planSurfaceEvent_def bind_res_Inr_iff)
  qed
qed

lemma plan_op:
  assumes "planSurfaceEvent st ev n evs b = Inr (Some p)"
  obtains (append) "surfaceOpOf ev = Inr (Some OpAppend)" "p = PlanAppend n"
  | (replace) start end' si ei sh where "surfaceOpOf ev = Inr (Some (OpReplace start end'))"
      "replacementRange st start end' = Inr (si, ei, sh)"
      "assertProvenance ev sh = Inr ()" "assertToolResultRewrite ev sh evs b = Inr ()"
      "p = PlanReplace \<lparr>sr_seq = n, sr_start = start, sr_end = end', sr_shadowedSeqs = sh\<rparr> si ei"
proof -
  from assms have n: "ev_seq ev = n" by (rule plan_seq)
  with assms obtain op where op: "surfaceOpOf ev = Inr op"
    by (auto simp: planSurfaceEvent_def bind_res_Inr_iff)
  show thesis
  proof (cases op)
    case None
    with assms n op show ?thesis by (simp add: planSurfaceEvent_def)
  next
    case (Some o')
    show ?thesis
    proof (cases o')
      case OpAppend
      with assms n op Some show ?thesis
        by (auto simp: planSurfaceEvent_def bind_res_Inr_iff intro: append)
    next
      case (OpReplace start end')
      with assms n op Some show ?thesis
        by (fastforce simp: planSurfaceEvent_def bind_res_Inr_iff intro: replace)
    qed
  qed
qed

lemma plan_append:
  assumes "planSurfaceEvent st ev n evs b = Inr (Some (PlanAppend s))"
  shows "s = n \<and> isAppendSurfaceEvent ev \<and> isSurfaceEvent ev"
  using assms by (cases rule: plan_op) (auto dest: surfaceOpOf_append surfaceOpOf_Some)

lemma plan_replace:
  assumes "planSurfaceEvent st ev n evs b = Inr (Some (PlanReplace r si ei))"
  shows "sr_seq r = n \<and> isSurfaceEvent ev \<and> si \<le> ei \<and> ei < length (sf_nodes st)
     \<and> sr_start r = sf_nodes st ! si \<and> sr_end r = sf_nodes st ! ei
     \<and> sr_shadowedSeqs r = spliced_out (sf_nodes st) si (ei - si + 1)
     \<and> (\<exists>ss. citedSources ev = Inr ss \<and> set (sr_shadowedSeqs r) \<subseteq> set ss)
     \<and> assertToolResultRewrite ev (sr_shadowedSeqs r) evs b = Inr ()"
proof -
  from assms show ?thesis
  proof (cases rule: plan_op)
    case append
    then show ?thesis by simp
  next
    case (replace start end' si ei sh)
    then show ?thesis
      using replacementRange_Inr [OF replace(2)] assertProvenance_Inr [OF replace(3)]
        surfaceOpOf_Some [OF replace(1)] by auto
  qed
qed

lemma planSurfaceEvent_cong:
  assumes "\<forall>n \<in> set (sf_nodes st). elem_at evs n = elem_at evs' n"
  shows "planSurfaceEvent st ev e evs 0 = planSurfaceEvent st ev e evs' 0"
proof -
  have "assertToolResultRewrite ev sh evs 0 = assertToolResultRewrite ev sh evs' 0"
    if "replacementRange st start end' = Inr (si, ei, sh)" for start end' si ei sh
  proof -
    from replacementRange_Inr [OF that] have "set sh \<subseteq> set (sf_nodes st)"
      by (simp add: set_spliced_out_subset)
    then have "\<forall>n \<in> set sh. elem_at evs n = elem_at evs' n" using assms by blast
    then show ?thesis
      by (auto simp: assertToolResultRewrite_def split: event_data.splits list.splits)
  qed
  then have rng: "bind_res (replacementRange st start end') (\<lambda>(si, ei, sh).
      bind_res (assertProvenance ev sh) (\<lambda>_. bind_res (assertToolResultRewrite ev sh evs 0) (\<lambda>_. k si ei sh)))
    = bind_res (replacementRange st start end') (\<lambda>(si, ei, sh).
      bind_res (assertProvenance ev sh) (\<lambda>_. bind_res (assertToolResultRewrite ev sh evs' 0) (\<lambda>_. k si ei sh)))"
    for start end' and k :: "nat \<Rightarrow> nat \<Rightarrow> nat list \<Rightarrow> surface_error + surface_plan option"
    by (cases "replacementRange st start end'") auto
  show ?thesis
  proof (cases "surfaceOpOf ev")
    case (Inl e')
    then show ?thesis by (simp add: planSurfaceEvent_def)
  next
    case (Inr op)
    then show ?thesis
    proof (cases op)
      case (Some o')
      with Inr show ?thesis
        by (cases o') (simp_all add: planSurfaceEvent_def rng)
    qed (simp add: planSurfaceEvent_def)
  qed
qed

section \<open>Accepting one event: the surface as a projection of the log\<close>

text \<open>
  The state the proofs follow: the log accepted so far, the fold state and the replacements
  observed. Accepting an event validates it against the log before it, applies it and appends it,
  which is what a live append and every step of \<open>foldSurface\<close> do.
\<close>

type_synonym accepted = "session_event list \<times> surface_state \<times> surface_replacement list"

fun surface_accept :: "accepted \<Rightarrow> session_event \<Rightarrow> surface_error + accepted" where
  "surface_accept (evs, st, reps) ev =
     bind_res (applySurfaceEvent st ev (length evs) evs 0) (\<lambda>(st', r).
       Inr (evs @ [ev], st', reps @ (case r of None \<Rightarrow> [] | Some x \<Rightarrow> [x])))"

definition accepted_init :: accepted where
  "accepted_init = ([], createFoldState, [])"

definition surface_seqs :: "session_event list \<Rightarrow> nat list" where
  "surface_seqs evs = filter (\<lambda>i. isSurfaceEvent (evs ! i)) [0..<length evs]"

definition rewrite_ok :: "session_event list \<Rightarrow> session_event \<Rightarrow> nat list \<Rightarrow> bool" where
  "rewrite_ok evs ev shadowed \<longleftrightarrow>
     (\<forall>d. ev_data ev = ToolResult d \<longrightarrow>
        (\<exists>q od. shadowed = [q] \<and> q < length evs \<and> ev_data (evs ! q) = ToolResult od
               \<and> isDeepEqualJson (blanked_result od) (blanked_result d)))"

definition replacement_ok :: "session_event list \<Rightarrow> surface_replacement \<Rightarrow> bool" where
  "replacement_ok evs r \<longleftrightarrow>
     sr_seq r < length evs \<and> sr_shadowedSeqs r \<noteq> []
     \<and> hd (sr_shadowedSeqs r) = sr_start r \<and> last (sr_shadowedSeqs r) = sr_end r
     \<and> (\<exists>ss. citedSources (evs ! sr_seq r) = Inr ss \<and> set (sr_shadowedSeqs r) \<subseteq> set ss)
     \<and> (\<forall>s \<in> set (sr_shadowedSeqs r). s < sr_seq r)
     \<and> rewrite_ok evs (evs ! sr_seq r) (sr_shadowedSeqs r)"

fun surface_inv :: "accepted \<Rightarrow> bool" where
  "surface_inv (evs, st, reps) \<longleftrightarrow>
     (\<forall>i < length evs. ev_seq (evs ! i) = i)
     \<and> mset (sf_nodes st) + mset (concat (map sr_shadowedSeqs reps)) = mset (surface_seqs evs)
     \<and> sf_replaceGeneration st = length reps
     \<and> (\<forall>r \<in> set reps. replacement_ok evs r)"

lemma surface_seqs_snoc:
  "surface_seqs (evs @ [ev]) = surface_seqs evs @ (if isSurfaceEvent ev then [length evs] else [])"
proof -
  have "filter (\<lambda>i. isSurfaceEvent ((evs @ [ev]) ! i)) [0..<length evs] = surface_seqs evs"
    unfolding surface_seqs_def by (rule filter_cong) (auto simp: nth_append)
  then show ?thesis by (simp add: surface_seqs_def)
qed

lemma distinct_surface_seqs [simp]: "distinct (surface_seqs evs)"
  by (simp add: surface_seqs_def)

lemma rewrite_ok_snoc:
  assumes "rewrite_ok evs e sh"
  shows "rewrite_ok (evs @ [ev]) e sh"
  unfolding rewrite_ok_def
proof (intro allI impI)
  fix d
  assume "ev_data e = ToolResult d"
  with assms obtain q od where "sh = [q]" "q < length evs" "ev_data (evs ! q) = ToolResult od"
    "isDeepEqualJson (blanked_result od) (blanked_result d)"
    unfolding rewrite_ok_def by blast
  then show "\<exists>q od. sh = [q] \<and> q < length (evs @ [ev]) \<and> ev_data ((evs @ [ev]) ! q) = ToolResult od
      \<and> isDeepEqualJson (blanked_result od) (blanked_result d)"
    by (intro exI [of _ q] exI [of _ od]) (simp add: nth_append)
qed

lemma rewrite_checked:
  assumes "assertToolResultRewrite ev sh evs 0 = Inr ()"
  shows "rewrite_ok evs ev sh"
  using assms
  by (auto simp: assertToolResultRewrite_def rewrite_ok_def elem_at_def
      split: list.splits option.splits event_data.splits if_splits)

lemma replacement_ok_snoc: "replacement_ok evs r \<Longrightarrow> replacement_ok (evs @ [ev]) r"
  by (auto simp: replacement_ok_def nth_append intro: rewrite_ok_snoc)

lemma seqs_snoc:
  "(\<forall>i < length evs. ev_seq (evs ! i) = i) \<Longrightarrow> ev_seq ev = length evs \<Longrightarrow>
   \<forall>i < length (evs @ [ev]). ev_seq ((evs @ [ev]) ! i) = i"
  by (auto simp: nth_append less_Suc_eq)

lemma mset_splice:
  assumes "i + n \<le> length xs"
  shows "mset (splice xs i n ins) + mset (spliced_out xs i n) = mset xs + mset ins"
proof -
  have "mset xs = mset (take i xs) + mset (spliced_out xs i n) + mset (drop (i + n) xs)"
    by (subst splice_split [OF assms]) simp
  then show ?thesis by (simp add: splice_def)
qed

lemma mset_exchange:
  fixes n s m x c q :: "'a multiset"
  assumes "n + s = m + x" and "m + c = q"
  shows "n + (c + s) = q + x"
proof -
  have "n + (c + s) = (n + s) + c" by (simp only: union_ac)
  also have "\<dots> = (m + c) + x" unfolding assms(1) by (simp only: union_ac)
  finally show ?thesis by (simp only: assms(2))
qed

lemma surface_inv_init: "surface_inv accepted_init"
  by (simp add: accepted_init_def createFoldState_def surface_seqs_def)

lemma surface_inv_accept:
  assumes inv: "surface_inv a" and acc: "surface_accept a ev = Inr a'"
  shows "surface_inv a'"
proof -
  obtain evs st reps where a: "a = (evs, st, reps)" by (cases a)
  from acc a obtain p where p: "planSurfaceEvent st ev (length evs) evs 0 = Inr p"
    and a': "a' = (evs @ [ev], fst (applySurfacePlan st p),
                   reps @ (case snd (applySurfacePlan st p) of None \<Rightarrow> [] | Some x \<Rightarrow> [x]))"
    by (auto simp: applySurfaceEvent_def bind_res_Inr_iff split_beta)
  have seqs: "\<forall>i < length (evs @ [ev]). ev_seq ((evs @ [ev]) ! i) = i"
    using inv a plan_seq [OF p] by (intro seqs_snoc) simp_all
  have reps: "\<forall>r \<in> set reps. replacement_ok (evs @ [ev]) r"
    using inv a replacement_ok_snoc by auto
  note base = seqs reps inv [unfolded a]
  show ?thesis
  proof (cases p)
    case None
    with p have "\<not> isSurfaceEvent ev" by (simp add: plan_None)
    with None base show ?thesis by (simp add: a' surface_seqs_snoc)
  next
    case (Some q)
    show ?thesis
    proof (cases q)
      case (PlanAppend s)
      with p Some have "s = length evs" and "isSurfaceEvent ev" by (auto dest: plan_append)
      with Some PlanAppend base show ?thesis by (simp add: a' surface_seqs_snoc)
    next
      case (PlanReplace r si ei)
      with p Some have "planSurfaceEvent st ev (length evs) evs 0 = Inr (Some (PlanReplace r si ei))"
        by simp
      note R = plan_replace [OF this]
      let ?sh = "sr_shadowedSeqs r"
      let ?nodes = "splice (sf_nodes st) si (ei - si + 1) [sr_seq r]"
      from R have sq: "sr_seq r = length evs" and surf: "isSurfaceEvent ev"
        and si: "si \<le> ei" and ei: "ei < length (sf_nodes st)"
        and ends: "sr_start r = sf_nodes st ! si" "sr_end r = sf_nodes st ! ei"
        and sh: "?sh = spliced_out (sf_nodes st) si (ei - si + 1)"
        and cited: "\<exists>ss. citedSources ev = Inr ss \<and> set ?sh \<subseteq> set ss"
        and rw: "assertToolResultRewrite ev ?sh evs 0 = Inr ()"
        by blast+
      have rw': "rewrite_ok (evs @ [ev]) ev ?sh" by (rule rewrite_ok_snoc [OF rewrite_checked [OF rw]])
      have ms: "mset ?nodes + mset ?sh = mset (sf_nodes st) + {#length evs#}"
        unfolding sh using mset_splice [of si "ei - si + 1" "sf_nodes st" "[sr_seq r]"] si ei sq
        by simp
      from cited obtain ss where ss: "citedSources ev = Inr ss" "set ?sh \<subseteq> set ss" by blast
      then have "\<forall>s \<in> set ?sh. s < sr_seq r"
        using citedSources_earlier [OF ss(1)] plan_seq [OF p] sq by auto
      with cited have ok: "replacement_ok (evs @ [ev]) r"
        using spliced_out_ends [OF si ei] unfolding replacement_ok_def
        using rw' by (simp add: sq ends sh)
      have "mset (sf_nodes st) + mset (concat (map sr_shadowedSeqs reps)) = mset (surface_seqs evs)"
        using inv a by simp
      from mset_exchange [OF ms this]
      have "mset ?nodes + mset (concat (map sr_shadowedSeqs (reps @ [r])))
          = mset (surface_seqs (evs @ [ev]))"
        by (simp add: surface_seqs_snoc surf)
      with sq ok base Some PlanReplace show ?thesis by (simp add: a')
    qed
  qed
qed

interpretation surf: projection accepted_init surface_accept surface_inv
  by unfold_locales (auto intro: surface_inv_init surface_inv_accept simp del: surface_inv.simps surface_accept.simps)

text \<open>What the invariant says of the nodes.\<close>

lemma surface_inv_nodes:
  assumes "surface_inv (evs, st, reps)"
  shows "distinct (sf_nodes st)"
    and "n \<in> set (sf_nodes st) \<Longrightarrow> n < length evs \<and> isSurfaceEvent (evs ! n)"
proof -
  from assms have m: "mset (sf_nodes st) + mset (concat (map sr_shadowedSeqs reps)) = mset (surface_seqs evs)"
    by simp
  then have "mset (sf_nodes st @ concat (map sr_shadowedSeqs reps)) = mset (surface_seqs evs)" by simp
  then have "distinct (sf_nodes st @ concat (map sr_shadowedSeqs reps))"
    using mset_eq_imp_distinct_iff distinct_surface_seqs by blast
  then show "distinct (sf_nodes st)" by simp
  from m have "set (sf_nodes st) \<subseteq> set (surface_seqs evs)"
    by (metis Un_upper1 set_append set_mset_mset mset_append)
  then show "n \<in> set (sf_nodes st) \<Longrightarrow> n < length evs \<and> isSurfaceEvent (evs ! n)"
    by (auto simp: surface_seqs_def)
qed

section \<open>\<open>foldSurface\<close> is the accepting fold\<close>

lemma fold_entries_accept:
  assumes "\<forall>n \<in> set (sf_nodes st). n < length pre" and "surface_inv (pre, st, reps)"
  shows "fold_res (fold_entry (pre @ evs)) (st, reps) (enumerate (length pre) evs)
         = bind_res (fold_res surface_accept (pre, st, reps) evs) (\<lambda>(_, st', reps'). Inr (st', reps'))"
  using assms
proof (induction evs arbitrary: pre st reps)
  case Nil
  then show ?case by simp
next
  case (Cons ev evs)
  have cong: "applySurfaceEvent st ev (length pre) (pre @ ev # evs) 0 = applySurfaceEvent st ev (length pre) pre 0"
    unfolding applySurfaceEvent_def
    by (subst planSurfaceEvent_cong [of _ _ pre]) (use Cons.prems(1) in auto)
  show ?case
  proof (cases "surface_accept (pre, st, reps) ev")
    case (Inl e)
    then have "applySurfaceEvent st ev (length pre) pre 0 = Inl e"
      by (auto simp: bind_res_Inl_iff)
    then show ?thesis by (simp add: fold_entry_def cong)
  next
    case (Inr a)
    then obtain st' r where ap: "applySurfaceEvent st ev (length pre) pre 0 = Inr (st', r)"
      and a: "a = (pre @ [ev], st', reps @ (case r of None \<Rightarrow> [] | Some x \<Rightarrow> [x]))"
      by (auto simp: bind_res_Inr_iff)
    have inv: "surface_inv a" using Inr Cons.prems(2) surface_inv_accept by blast
    have "\<forall>n \<in> set (sf_nodes st'). n < length (pre @ [ev])"
      using surface_inv_nodes(2) inv a by blast
    from Cons.IH [OF this inv [unfolded a]] show ?thesis
      using ap a by (simp add: fold_entry_def cong)
  qed
qed

lemma foldSurface_accept:
  "foldSurface evs = bind_res (surf.replay evs) (\<lambda>(_, st, reps). Inr (st, reps))"
proof -
  have inv: "surface_inv ([], createFoldState, [])"
    using surface_inv_init by (simp only: accepted_init_def)
  have r: "surf.replay evs = fold_res surface_accept ([], createFoldState, []) evs"
    unfolding surf.replay_def by (simp only: accepted_init_def)
  have "\<forall>n \<in> set (sf_nodes createFoldState). n < length ([] :: session_event list)"
    by (simp add: createFoldState_def)
  from fold_entries_accept [OF this inv, of evs] r show ?thesis
    unfolding foldSurface_def by simp
qed

lemma accept_log: "surface_accept (evs, st, reps) ev = Inr (evs', st', reps') \<Longrightarrow> evs' = evs @ [ev]"
  by (auto simp: bind_res_Inr_iff)

lemma replay_log: "surf.replay evs = Inr (evs', st, reps) \<Longrightarrow> evs' = evs"
proof (induction evs arbitrary: evs' st reps rule: rev_induct)
  case Nil
  then have "accepted_init = (evs', st, reps)" by (simp add: surf.replay_Nil)
  then show ?case by (simp add: accepted_init_def)
next
  case (snoc ev evs)
  then obtain evs0 st0 reps0 where "surf.replay evs = Inr (evs0, st0, reps0)"
    and "surface_accept (evs0, st0, reps0) ev = Inr (evs', st, reps)"
    by (auto simp: surf.replay_snoc bind_res_Inr_iff simp del: surface_accept.simps)
  with snoc.IH accept_log show ?case by blast
qed

lemma foldSurface_Inr: "foldSurface evs = Inr (st, reps) \<longleftrightarrow> surf.replay evs = Inr (evs, st, reps)"
  using replay_log by (fastforce simp: foldSurface_accept bind_res_Inr_iff)

lemma foldSurface_inv: "foldSurface evs = Inr (st, reps) \<Longrightarrow> surface_inv (evs, st, reps)"
  using foldSurface_Inr surf.replay_inv by blast

lemma foldSurface_snoc:
  assumes "foldSurface evs = Inr (st, reps)"
  shows "foldSurface (evs @ [ev]) = bind_res (applySurfaceEvent st ev (length evs) evs 0) (\<lambda>(st', r).
     Inr (st', reps @ (case r of None \<Rightarrow> [] | Some x \<Rightarrow> [x])))"
proof -
  from assms have "surf.replay evs = Inr (evs, st, reps)" by (simp only: foldSurface_Inr)
  then have "foldSurface (evs @ [ev])
      = bind_res (surface_accept (evs, st, reps) ev) (\<lambda>(_, st, reps). Inr (st, reps))"
    by (simp only: foldSurface_accept surf.replay_snoc bind_res.simps)
  then show ?thesis by (simp add: bind_res_assoc case_prod_unfold)
qed

section \<open>The manager follows the fold\<close>

text \<open>
  \<open>manager_at events k m\<close>: the manager has processed the first \<open>k\<close> events of the log, and a
  pending plan is the plan of its event at the boundary it was made for.
\<close>

definition pending_ok :: "session_event list \<Rightarrow> nat \<Rightarrow> session_event \<times> nat \<times> surface_plan option \<Rightarrow> bool" where
  "pending_ok events k p \<longleftrightarrow>
     (case p of (pe, expected, plan) \<Rightarrow>
        k \<le> expected \<and> expected \<le> length events
        \<and> (\<exists>st reps. foldSurface (take expected events) = Inr (st, reps)
              \<and> planSurfaceEvent st pe expected (take expected events) 0 = Inr plan))"

definition manager_at :: "session_event list \<Rightarrow> nat \<Rightarrow> surface_manager \<Rightarrow> bool" where
  "manager_at events k m \<longleftrightarrow>
     k \<le> length events \<and> sm_lastProcessedSeq m = int k - 1
     \<and> (\<exists>reps. foldSurface (take k events) = Inr (sm_state m, reps))
     \<and> (\<forall>p. sm_pendingPlan m = Some p \<longrightarrow> pending_ok events k p)"

lemma manager_at_new: "manager_at events 0 (newSurfaceManager 0)"
  by (simp add: manager_at_def newSurfaceManager_def foldSurface_def)

lemma pending_ok_append: "pending_ok events k p \<Longrightarrow> pending_ok (events @ xs) k p"
  by (auto simp: pending_ok_def)

lemma manager_at_append: "manager_at events k m \<Longrightarrow> manager_at (events @ xs) k m"
  by (auto simp: manager_at_def intro: pending_ok_append)

lemma foldSurface_take:
  assumes "foldSurface events = Inr (st, reps)"
  shows "\<exists>st' reps'. foldSurface (take k events) = Inr (st', reps')"
proof -
  from assms have "surf.replay (take k events @ drop k events) = Inr (events, st, reps)"
    by (simp add: foldSurface_Inr)
  then obtain u where u: "surf.replay (take k events) = Inr u"
    using surf.replay_prefix by blast
  then obtain evs' st' reps' where "surf.replay (take k events) = Inr (evs', st', reps')"
    by (cases u) auto
  then show ?thesis using foldSurface_Inr replay_log by blast
qed

lemma foldSurface_nodes_bound:
  "foldSurface evs = Inr (st, reps) \<Longrightarrow> n \<in> set (sf_nodes st) \<Longrightarrow> n < length evs"
  using foldSurface_inv surface_inv_nodes(2) by blast

lemma plan_take:
  assumes "foldSurface (take k events) = Inr (st, reps)"
  shows "planSurfaceEvent st ev e events 0 = planSurfaceEvent st ev e (take k events) 0"
  using foldSurface_nodes_bound [OF assms]
  by (intro planSurfaceEvent_cong) (auto simp: elem_at_def)

lemma fold_step:
  assumes all: "foldSurface events = Inr (st, reps)" and k: "k < length events"
    and now: "foldSurface (take k events) = Inr (st', reps')"
  shows "\<exists>plan reps''. planSurfaceEvent st' (events ! k) k (take k events) 0 = Inr plan
           \<and> foldSurface (take (Suc k) events) = Inr (fst (applySurfacePlan st' plan), reps'')"
proof -
  obtain st'' reps'' where "foldSurface (take (Suc k) events) = Inr (st'', reps'')"
    using foldSurface_take [OF all] by blast
  then show ?thesis
    using foldSurface_snoc [OF now, of "events ! k"] k
    by (auto simp: take_Suc_conv_app_nth applySurfaceEvent_def bind_res_Inr_iff split_beta)
qed

lemma process_one_at:
  assumes all: "foldSurface events = Inr (st, reps)" and k: "k < length events"
    and m: "manager_at events k m"
  shows "\<exists>m'. process_one events 0 m k = Inr m' \<and> manager_at events (Suc k) m'"
proof -
  from m obtain reps' where now: "foldSurface (take k events) = Inr (sm_state m, reps')"
    by (auto simp: manager_at_def)
  from fold_step [OF all k now] obtain plan reps''
    where plan: "planSurfaceEvent (sm_state m) (events ! k) k (take k events) 0 = Inr plan"
      and nxt: "foldSurface (take (Suc k) events) = Inr (fst (applySurfacePlan (sm_state m) plan), reps'')"
    by blast
  have ap: "applySurfaceEvent (sm_state m) (events ! k) k events 0 = Inr (applySurfacePlan (sm_state m) plan)"
    by (simp add: applySurfaceEvent_def plan_take [OF now] plan)
  let ?st = "fst (applySurfacePlan (sm_state m) plan)"
  let ?pend = "case sm_pendingPlan m of None \<Rightarrow> None
      | Some (_, expected, _) \<Rightarrow> if expected \<le> k then None else sm_pendingPlan m"
  let ?m' = "m\<lparr>sm_state := ?st, sm_pendingPlan := ?pend, sm_lastProcessedSeq := int k\<rparr>"
  have pend: "pending_ok events k p" if "sm_pendingPlan m = Some p" for p
    using m that by (simp add: manager_at_def)
  have same: "plan' = plan" if "sm_pendingPlan m = Some (events ! k, k, plan')" for plan'
    using pend [OF that] now plan by (auto simp: pending_ok_def)
  have "process_one events 0 m k = Inr ?m'"
  proof (cases "sm_pendingPlan m")
    case None
    then show ?thesis by (simp add: process_one_def ap split_beta)
  next
    case (Some p)
    obtain pe expected plan' where p: "p = (pe, expected, plan')" by (cases p)
    show ?thesis
    proof (cases "pe = events ! k \<and> expected = k")
      case True
      with Some p same have "plan' = plan" by simp
      with True Some p show ?thesis by (simp add: process_one_def)
    next
      case False
      with Some p show ?thesis by (auto simp: process_one_def ap split_beta)
    qed
  qed
  moreover have "manager_at events (Suc k) ?m'"
    using k nxt pend by (auto simp: manager_at_def pending_ok_def split: option.splits if_splits)
  ultimately show ?thesis by blast
qed

lemma processDelta_at:
  assumes all: "foldSurface events = Inr (st, reps)" and m: "manager_at events k m"
  shows "\<exists>m'. fold_res (process_one events 0) m [k ..< length events] = Inr m'
              \<and> manager_at events (length events) m'"
  using m
proof (induction "length events - k" arbitrary: k m)
  case 0
  then have "k = length events" by (simp add: manager_at_def)
  with 0 show ?case by simp
next
  case (Suc n)
  then have k: "k < length events" by linarith
  from process_one_at [OF all k Suc.prems] obtain m1
    where m1: "process_one events 0 m k = Inr m1" "manager_at events (Suc k) m1" by blast
  from Suc.hyps(2) have "n = length events - Suc k" by linarith
  from Suc.hyps(1) [OF this m1(2)] show ?case
    using m1(1) k by (simp add: upt_conv_Cons)
qed

lemma syncSurface_at:
  assumes all: "foldSurface events = Inr (st, reps)" and m: "manager_at events k m"
  shows "\<exists>m'. syncSurface events 0 m = Inr m' \<and> manager_at events (length events) m' \<and> sm_state m' = st"
proof -
  from m have last: "sm_lastProcessedSeq m = int k - 1" and k: "k \<le> length events"
    by (auto simp: manager_at_def)
  have "\<exists>m'. syncSurface events 0 m = Inr m' \<and> manager_at events (length events) m'"
  proof (cases "k < length events")
    case True
    then show ?thesis using processDelta_at [OF all m] last
      by (simp add: syncSurface_def processDelta_def)
  next
    case False
    with k m last show ?thesis by (simp add: syncSurface_def)
  qed
  with all show ?thesis by (auto simp: manager_at_def)
qed

lemma validateNext_at:
  assumes all: "foldSurface events = Inr (st, reps)" and m: "manager_at events k m"
  shows "validateNext events 0 m ev = Inr m' \<Longrightarrow>
           manager_at events (length events) m'
           \<and> (\<exists>plan. planSurfaceEvent st ev (length events) events 0 = Inr plan)"
    and "planSurfaceEvent st ev (length events) events 0 = Inr plan \<Longrightarrow>
           \<exists>m'. validateNext events 0 m ev = Inr m'"
proof -
  from syncSurface_at [OF all m] obtain m1
    where m1: "syncSurface events 0 m = Inr m1" "manager_at events (length events) m1" "sm_state m1 = st"
    by blast
  show "validateNext events 0 m ev = Inr m' \<Longrightarrow>
           manager_at events (length events) m'
           \<and> (\<exists>plan. planSurfaceEvent st ev (length events) events 0 = Inr plan)"
    using m1 all by (auto simp: validateNext_def bind_res_Inr_iff manager_at_def pending_ok_def)
  show "planSurfaceEvent st ev (length events) events 0 = Inr plan \<Longrightarrow>
           \<exists>m'. validateNext events 0 m ev = Inr m'"
    using m1 by (auto simp: validateNext_def bind_res_Inr_iff)
qed

end
