(* ===== verification/Session_Trace.thy ===== *)
theory Session_Trace
  imports Surface
begin

text \<open>
  The relational invariant of a session log (packages/core/session/src/invariant.ts): turns and
  steps open and close in order and are numbered consecutively, and a tool result answers a call
  of the open step. \<open>validateEvent\<close> computes the transition of one event or fails,
  \<open>applyTransition\<close> commits it; a log is valid when the fold over it does not fail.

  The trace is a projection of the log; its invariant ties the open turn and step to the counters.
\<close>

record session_trace =
  st_lastSeq :: int
  st_openTurn :: "nat option"
  st_openStep :: "nat option"
  st_nextTurn :: nat
  st_nextStep :: nat
  st_pendingCalls :: "string set"

datatype pending_change =
    PendingNone
  | PendingAdd string
  | PendingDelete "string option"
  | PendingClear

record trace_transition =
  tt_lastSeq :: int
  tt_openTurn :: "nat option"
  tt_openStep :: "nat option"
  tt_nextTurn :: nat
  tt_nextStep :: nat
  tt_pendingCalls :: pending_change

datatype trace_error =
    SeqNotIncreasing nat int
  | TurnStillOpen nat
  | UnexpectedTurn nat nat
  | TurnMismatch nat "nat option"
  | StepStillOpen nat
  | UnexpectedStep nat nat
  | NoOpenStep string nat nat "nat option" "nat option"
  | ReplacementOutsideTurn
  | ResultContentMissing
  | ResultWithoutCall "string option"
  | OutsideTurn string

definition TOOL_NOT_STARTED :: string where
  "TOOL_NOT_STARTED = ''TOOL_NOT_STARTED''"

definition TOOL_OUTCOME_UNKNOWN :: string where
  "TOOL_OUTCOME_UNKNOWN = ''TOOL_OUTCOME_UNKNOWN''"

definition freshTrace :: session_trace where
  "freshTrace = \<lparr>st_lastSeq = -1, st_openTurn = None, st_openStep = None,
                 st_nextTurn = 1, st_nextStep = 1, st_pendingCalls = {}\<rparr>"

definition requireOpenStep :: "session_trace \<Rightarrow> string \<Rightarrow> nat \<Rightarrow> nat \<Rightarrow> trace_error + unit" where
  "requireOpenStep trace kind turn step =
     (if st_openTurn trace \<noteq> Some turn \<or> st_openStep trace \<noteq> Some step
      then Inl (NoOpenStep kind turn step (st_openTurn trace) (st_openStep trace)) else Inr ())"

text \<open>\<open>source.callId\<close> and \<open>content[0].isError\<close> of a tool result.\<close>

fun source_callId :: "message_source \<Rightarrow> string option" where
  "source_callId (ToolSource c) = Some c"
| "source_callId _ = None"

fun block_isError :: "content_block \<Rightarrow> bool" where
  "block_isError (ToolResultBlock _ _ e) = (e = Some True)"
| "block_isError (OtherBlock _ kvs) = (map_of kvs ''isError'' = Some (JBool True))"
| "block_isError _ = False"

text \<open>The transition that only advances the sequence number; the cases update it.\<close>

definition keep_transition :: "session_trace \<Rightarrow> session_event \<Rightarrow> trace_transition" where
  "keep_transition trace ev =
     \<lparr>tt_lastSeq = int (ev_seq ev), tt_openTurn = st_openTurn trace, tt_openStep = st_openStep trace,
      tt_nextTurn = st_nextTurn trace, tt_nextStep = st_nextStep trace, tt_pendingCalls = PendingNone\<rparr>"

definition validateEvent :: "session_trace \<Rightarrow> session_event \<Rightarrow> trace_error + trace_transition" where
  "validateEvent trace ev =
     (let keep = keep_transition trace ev in
      if int (ev_seq ev) \<le> st_lastSeq trace then Inl (SeqNotIncreasing (ev_seq ev) (st_lastSeq trace))
      else case ev_data ev of
        TurnStart turn \<Rightarrow>
          if st_openTurn trace \<noteq> None then Inl (TurnStillOpen turn)
          else if turn \<noteq> st_nextTurn trace then Inl (UnexpectedTurn (st_nextTurn trace) turn)
          else Inr (keep\<lparr>tt_openTurn := Some turn, tt_nextStep := 1\<rparr>)
      | TurnEnd turn _ \<Rightarrow>
          if st_openTurn trace \<noteq> Some turn then Inl (TurnMismatch turn (st_openTurn trace))
          else if st_openStep trace \<noteq> None then Inl (StepStillOpen turn)
          else Inr (keep\<lparr>tt_openTurn := None, tt_nextTurn := st_nextTurn trace + 1\<rparr>)
      | StepStart turn step \<Rightarrow>
          if st_openTurn trace \<noteq> Some turn then Inl (TurnMismatch turn (st_openTurn trace))
          else if st_openStep trace \<noteq> None then Inl (StepStillOpen step)
          else if step \<noteq> st_nextStep trace then Inl (UnexpectedStep (st_nextStep trace) step)
          else Inr (keep\<lparr>tt_openStep := Some step\<rparr>)
      | StepEnd turn step \<Rightarrow>
          bind_res (requireOpenStep trace ''step/end'' turn step) (\<lambda>_.
            Inr (keep\<lparr>tt_pendingCalls := PendingClear, tt_openStep := None,
                      tt_nextStep := st_nextStep trace + 1\<rparr>))
      | AssistantChunk turn step _ \<Rightarrow>
          bind_res (requireOpenStep trace ''assistant/chunk'' turn step) (\<lambda>_. Inr keep)
      | AssistantMessage turn step _ _ _ \<Rightarrow>
          bind_res (requireOpenStep trace ''assistant/message'' turn step) (\<lambda>_. Inr keep)
      | ToolCall turn step callId _ _ \<Rightarrow>
          bind_res (requireOpenStep trace ''tool/call'' turn step) (\<lambda>_.
            Inr (keep\<lparr>tt_pendingCalls := PendingAdd callId\<rparr>))
      | ToolResult d \<Rightarrow>
          if ev_surfaceOp ev \<noteq> Some (JStr ''append'') then
            (if st_openTurn trace = None then Inl ReplacementOutsideTurn else Inr keep)
          else bind_res (requireOpenStep trace ''tool/result'' (tr_turn d) (tr_step d)) (\<lambda>_.
            let callId = source_callId (m_source (tr_message d)) in
            case elem_at (m_content (tr_message d)) 0 of
              None \<Rightarrow> Inl ResultContentMissing
            | Some b \<Rightarrow>
                let notStarted = block_isError b \<and> map_option snd (tr_error d) = Some TOOL_NOT_STARTED;
                    pending = (case callId of None \<Rightarrow> False | Some c \<Rightarrow> c \<in> st_pendingCalls trace)
                in if \<not> pending \<and> \<not> notStarted then Inl (ResultWithoutCall callId)
                   else Inr (keep\<lparr>tt_pendingCalls := PendingDelete callId\<rparr>))
      | TodoWrite _ \<Rightarrow> if st_openTurn trace = None then Inl (OutsideTurn ''todo/write'') else Inr keep
      | RequestHeader _ _ \<Rightarrow>
          if st_openTurn trace = None then Inl (OutsideTurn ''request/header'') else Inr keep
      | RequestContext _ \<Rightarrow>
          if st_openTurn trace = None then Inl (OutsideTurn ''request/context'') else Inr keep
      | _ \<Rightarrow> Inr keep)"

fun apply_pending :: "string set \<Rightarrow> pending_change \<Rightarrow> string set" where
  "apply_pending p PendingNone = p"
| "apply_pending p (PendingAdd c) = insert c p"
| "apply_pending p (PendingDelete c) = (case c of None \<Rightarrow> p | Some c \<Rightarrow> p - {c})"
| "apply_pending p PendingClear = {}"

definition applyTransition :: "session_trace \<Rightarrow> trace_transition \<Rightarrow> session_trace" where
  "applyTransition trace t =
     \<lparr>st_lastSeq = tt_lastSeq t, st_openTurn = tt_openTurn t, st_openStep = tt_openStep t,
      st_nextTurn = tt_nextTurn t, st_nextStep = tt_nextStep t,
      st_pendingCalls = apply_pending (st_pendingCalls trace) (tt_pendingCalls t)\<rparr>"

definition trace_event :: "session_trace \<Rightarrow> session_event \<Rightarrow> trace_error + session_trace" where
  "trace_event trace ev = bind_res (validateEvent trace ev) (\<lambda>t. Inr (applyTransition trace t))"

text \<open>\<open>seedSession\<close>: the fold over a session's events from a fresh trace.\<close>

definition seedTrace :: "session_event list \<Rightarrow> trace_error + session_trace" where
  "seedTrace evs = fold_res trace_event freshTrace evs"

section \<open>The invariant of a trace\<close>

definition trace_inv :: "session_trace \<Rightarrow> bool" where
  "trace_inv t \<longleftrightarrow>
     (st_openStep t \<noteq> None \<longrightarrow> st_openTurn t \<noteq> None)
     \<and> (st_pendingCalls t \<noteq> {} \<longrightarrow> st_openStep t \<noteq> None)
     \<and> (\<forall>n. st_openTurn t = Some n \<longrightarrow> n = st_nextTurn t)
     \<and> (\<forall>n. st_openStep t = Some n \<longrightarrow> n = st_nextStep t)
     \<and> 1 \<le> st_nextTurn t \<and> 1 \<le> st_nextStep t \<and> -1 \<le> st_lastSeq t"

lemma requireOpenStep_Inr [simp]:
  "requireOpenStep t k turn step = Inr u \<longleftrightarrow> st_openTurn t = Some turn \<and> st_openStep t = Some step"
  by (auto simp: requireOpenStep_def)

lemma trace_inv_fresh: "trace_inv freshTrace"
  by (simp add: trace_inv_def freshTrace_def)

lemmas trace_event_defs =
  trace_event_def validateEvent_def applyTransition_def keep_transition_def Let_def

lemma trace_inv_event:
  assumes "trace_inv t" and "trace_event t ev = Inr t'"
  shows "trace_inv t'"
  using assms
  by (cases "ev_data ev")
    (auto simp: trace_event_defs trace_inv_def bind_res_Inr_iff split: if_splits option.splits)

interpretation trace: projection freshTrace trace_event trace_inv
  by unfold_locales (auto intro: trace_inv_fresh trace_inv_event)

lemma seedTrace_replay: "seedTrace evs = trace.replay evs"
  by (simp add: seedTrace_def trace.replay_def)

lemma trace_event_seq: "trace_event t ev = Inr t' \<Longrightarrow> st_lastSeq t' = int (ev_seq ev) \<and> st_lastSeq t < st_lastSeq t'"
  by (cases "ev_data ev")
    (auto simp: trace_event_defs bind_res_Inr_iff split: if_splits option.splits)

section \<open>Turns are numbered in order\<close>

definition turn_starts :: "session_event list \<Rightarrow> nat list" where
  "turn_starts evs = concat (map (\<lambda>e. case ev_data e of TurnStart n \<Rightarrow> [n] | _ \<Rightarrow> []) evs)"

definition turn_ends :: "session_event list \<Rightarrow> nat list" where
  "turn_ends evs = concat (map (\<lambda>e. case ev_data e of TurnEnd n _ \<Rightarrow> [n] | _ \<Rightarrow> []) evs)"

lemma turn_numbers_event:
  assumes "trace_event t ev = Inr t'" and "trace_inv t"
    and "turn_starts evs = [1..<st_nextTurn t] @ (case st_openTurn t of None \<Rightarrow> [] | Some n \<Rightarrow> [n])"
    and "turn_ends evs = [1..<st_nextTurn t]"
  shows "turn_starts (evs @ [ev]) = [1..<st_nextTurn t'] @ (case st_openTurn t' of None \<Rightarrow> [] | Some n \<Rightarrow> [n])
     \<and> turn_ends (evs @ [ev]) = [1..<st_nextTurn t']"
  using assms
  by (cases "ev_data ev")
    (auto simp: trace_event_defs bind_res_Inr_iff trace_inv_def turn_starts_def turn_ends_def
      split: if_splits option.splits)

lemma turn_numbers:
  "seedTrace evs = Inr t \<Longrightarrow>
   turn_starts evs = [1..<st_nextTurn t] @ (case st_openTurn t of None \<Rightarrow> [] | Some n \<Rightarrow> [n])
   \<and> turn_ends evs = [1..<st_nextTurn t] \<and> trace_inv t"
proof (induction evs arbitrary: t rule: rev_induct)
  case Nil
  then have "t = freshTrace" by (simp add: seedTrace_def)
  then show ?case using trace_inv_fresh by (simp add: turn_starts_def turn_ends_def freshTrace_def)
next
  case (snoc ev evs)
  from snoc.prems obtain t0 where t0: "seedTrace evs = Inr t0" and e: "trace_event t0 ev = Inr t"
    by (auto simp: seedTrace_replay trace.replay_snoc bind_res_Inr_iff)
  from snoc.IH [OF t0] turn_numbers_event [OF e] trace_inv_event [OF _ e] show ?case by blast
qed

end
