(* ===== verification/Consumed_Work.thy ===== *)
theory Consumed_Work
  imports Session_Trace
begin

text \<open>
  How a log accounts for the work it consumed (packages/core/agent/src/consumed-work.ts): the fold
  over turns, steps and inbox splices, and its meaning on a valid log: the reported turn is the
  last one that entered a step, or that claimed input and did not simply complete, and work counts
  as dropped when a cancellation after that turn left nothing in its place.
\<close>

section \<open>The fold\<close>

fun accountsForClaim :: "turn_end_reason \<Rightarrow> bool" where
  "accountsForClaim Completed = False"
| "accountsForClaim _ = True"

record consumed_work =
  cw_end :: "session_event option"
  cw_droppedUnrun :: bool

record consumed_scan =
  cs_stepped :: "nat set"
  cs_claimed :: "nat set"
  cs_open :: "nat option"
  cs_end :: "session_event option"
  cs_droppedUnrun :: bool

definition consumed_init :: consumed_scan where
  "consumed_init = \<lparr>cs_stepped = {}, cs_claimed = {}, cs_open = None, cs_end = None, cs_droppedUnrun = False\<rparr>"

definition consumed_event :: "consumed_scan \<Rightarrow> session_event \<Rightarrow> consumed_scan" where
  "consumed_event c ev =
     (case ev_data ev of
        TurnStart turn \<Rightarrow> c\<lparr>cs_open := Some turn\<rparr>
      | StepStart turn _ \<Rightarrow> c\<lparr>cs_stepped := insert turn (cs_stepped c)\<rparr>
      | InboxSpliced sp \<Rightarrow>
          if is_removedCount sp = None then c
          else if is_canceled sp then c\<lparr>cs_droppedUnrun := cs_droppedUnrun c \<or> is_inserted sp = []\<rparr>
          else (case cs_open c of None \<Rightarrow> c
                | Some turn \<Rightarrow> c\<lparr>cs_claimed := insert turn (cs_claimed c)\<rparr>)
      | TurnEnd turn reason \<Rightarrow>
          let c1 = c\<lparr>cs_open := None\<rparr>;
              wasStepped = turn \<in> cs_stepped c1;
              c2 = c1\<lparr>cs_stepped := cs_stepped c1 - {turn}\<rparr>;
              wasClaimed = turn \<in> cs_claimed c2;
              c3 = (if wasStepped then c2 else c2\<lparr>cs_claimed := cs_claimed c2 - {turn}\<rparr>)
          in if wasStepped \<or> wasClaimed \<and> accountsForClaim reason
             then c3\<lparr>cs_end := Some ev, cs_droppedUnrun := False\<rparr> else c3
      | _ \<Rightarrow> c)"

definition consumed_scan_of :: "session_event list \<Rightarrow> consumed_scan" where
  "consumed_scan_of evs = foldl consumed_event consumed_init evs"

definition foldConsumedWork :: "session_event list \<Rightarrow> consumed_work" where
  "foldConsumedWork evs =
     (let c = consumed_scan_of evs in \<lparr>cw_end = cs_end c, cw_droppedUnrun = cs_droppedUnrun c\<rparr>)"

section \<open>What the log says\<close>

text \<open>The events of the turn a log ends in: those after its last turn start.\<close>

fun is_start :: "session_event \<Rightarrow> bool" where
  "is_start ev = (case ev_data ev of TurnStart _ \<Rightarrow> True | _ \<Rightarrow> False)"

definition turn_suffix :: "session_event list \<Rightarrow> session_event list" where
  "turn_suffix evs = rev (takeWhile (\<lambda>e. \<not> is_start e) (rev evs))"

fun is_step_start :: "session_event \<Rightarrow> bool" where
  "is_step_start ev = (case ev_data ev of StepStart _ _ \<Rightarrow> True | _ \<Rightarrow> False)"

fun is_claim :: "session_event \<Rightarrow> bool" where
  "is_claim ev = (case ev_data ev of InboxSpliced sp \<Rightarrow> is_removedCount sp \<noteq> None \<and> \<not> is_canceled sp | _ \<Rightarrow> False)"

fun is_drop :: "session_event \<Rightarrow> bool" where
  "is_drop ev = (case ev_data ev of InboxSpliced sp \<Rightarrow>
       is_removedCount sp \<noteq> None \<and> is_canceled sp \<and> is_inserted sp = [] | _ \<Rightarrow> False)"

text \<open>A turn end after \<open>pre\<close> accounts for consumed work.\<close>

definition accounts :: "session_event list \<Rightarrow> session_event \<Rightarrow> bool" where
  "accounts pre ev =
     (case ev_data ev of
        TurnEnd _ reason \<Rightarrow>
          list_ex is_step_start (turn_suffix pre)
          \<or> list_ex is_claim (turn_suffix pre) \<and> reason \<noteq> Completed
      | _ \<Rightarrow> False)"

section \<open>The fold computes it\<close>

lemma accountsForClaim_iff: "accountsForClaim r \<longleftrightarrow> r \<noteq> Completed"
  by (cases r) auto

lemma consumed_scan_of_snoc [simp]: "consumed_scan_of (evs @ [ev]) = consumed_event (consumed_scan_of evs) ev"
  by (simp add: consumed_scan_of_def)

lemma turn_suffix_snoc:
  "turn_suffix (evs @ [ev]) = (if is_start ev then [] else turn_suffix evs @ [ev])"
  by (simp add: turn_suffix_def)

definition consumed_sync :: "session_event list \<Rightarrow> session_trace \<Rightarrow> consumed_scan \<Rightarrow> bool" where
  "consumed_sync evs t c \<longleftrightarrow>
     cs_open c = st_openTurn t
     \<and> (\<forall>n \<in> cs_stepped c \<union> cs_claimed c. n < st_nextTurn t \<or> st_openTurn t = Some n)
     \<and> (\<forall>n. st_openTurn t = Some n \<longrightarrow>
          (n \<in> cs_stepped c \<longleftrightarrow> list_ex is_step_start (turn_suffix evs))
          \<and> (n \<in> cs_claimed c \<longleftrightarrow> list_ex is_claim (turn_suffix evs)))"

lemma consumed_sync_event:
  assumes sync: "consumed_sync evs t c" and inv: "trace_inv t" and ev: "trace_event t ev = Inr t'"
  shows "consumed_sync (evs @ [ev]) t' (consumed_event c ev)"
proof -
  note D = trace_event_defs bind_res_Inr_iff consumed_sync_def consumed_event_def turn_suffix_snoc trace_inv_def
  show ?thesis
  proof (cases "ev_data ev")
    case (TurnStart n)
    then show ?thesis using assms by (auto simp: D split: if_splits)
  next
    case (TurnEnd n r)
    then show ?thesis using assms by (auto simp: D less_Suc_eq split: if_splits)
  next
    case (StepStart n k)
    then show ?thesis using assms by (auto simp: D split: if_splits)
  next
    case (InboxSpliced sp)
    then show ?thesis using assms by (auto simp: D split: if_splits option.splits)
  qed (use assms in \<open>auto simp: D split: if_splits option.splits\<close>)
qed

lemma consumed_sync_log:
  "seedTrace evs = Inr t \<Longrightarrow> consumed_sync evs t (consumed_scan_of evs) \<and> trace_inv t"
proof (induction evs arbitrary: t rule: rev_induct)
  case Nil
  then show ?case
    using trace_inv_fresh
    by (auto simp: seedTrace_def consumed_scan_of_def consumed_sync_def consumed_init_def freshTrace_def)
next
  case (snoc ev evs)
  from snoc.prems obtain t0 where t0: "seedTrace evs = Inr t0" and e: "trace_event t0 ev = Inr t"
    by (auto simp: seedTrace_replay trace.replay_snoc bind_res_Inr_iff)
  from snoc.IH [OF t0] consumed_sync_event [OF _ _ e] trace_inv_event [OF _ e] show ?case by simp
qed

lemma consumed_end_event:
  assumes "seedTrace evs = Inr t" and "trace_event t ev = Inr t'"
  shows "cs_end (consumed_event (consumed_scan_of evs) ev)
           = (if accounts evs ev then Some ev else cs_end (consumed_scan_of evs))"
    and "cs_droppedUnrun (consumed_event (consumed_scan_of evs) ev)
           = (\<not> accounts evs ev \<and> (cs_droppedUnrun (consumed_scan_of evs) \<or> is_drop ev))"
  using assms(2) consumed_sync_log [OF assms(1)]
  by (cases "ev_data ev";
      auto simp: consumed_event_def accounts_def consumed_sync_def accountsForClaim_iff
        trace_event_defs bind_res_Inr_iff Let_def split: option.splits if_splits)+

text \<open>\<open>e\<close> is the last accounting event of the log, and \<open>dropped\<close> says whether work was dropped after it.\<close>

definition latest_account ::
    "session_event list \<Rightarrow> session_event list \<Rightarrow> session_event \<Rightarrow> session_event list \<Rightarrow> bool \<Rightarrow> bool" where
  "latest_account evs xs e ys dropped \<longleftrightarrow>
     evs = xs @ e # ys \<and> accounts xs e
     \<and> (\<forall>us x vs. ys = us @ x # vs \<longrightarrow> \<not> accounts (xs @ e # us) x)
     \<and> (dropped \<longleftrightarrow> (\<exists>x \<in> set ys. is_drop x))"

definition work_account :: "session_event list \<Rightarrow> session_event option \<Rightarrow> bool \<Rightarrow> bool" where
  "work_account evs e dropped \<longleftrightarrow>
     (case e of
        None \<Rightarrow> (\<forall>xs x ys. evs = xs @ x # ys \<longrightarrow> \<not> accounts xs x) \<and> (dropped \<longleftrightarrow> (\<exists>x \<in> set evs. is_drop x))
      | Some e \<Rightarrow> (\<exists>xs ys. latest_account evs xs e ys dropped))"

declare is_drop.simps [simp del]

lemma snoc_split: "zs @ [z] = us @ x # vs \<longleftrightarrow> (vs = [] \<and> us = zs \<and> x = z) \<or> (\<exists>ws. vs = ws @ [z] \<and> zs = us @ x # ws)"
  by (cases vs rule: rev_cases) auto

lemma work_account_snoc:
  assumes "work_account evs e dropped"
  shows "work_account (evs @ [ev]) (if accounts evs ev then Some ev else e)
           (\<not> accounts evs ev \<and> (dropped \<or> is_drop ev))"
proof (cases "accounts evs ev")
  case True
  then show ?thesis
    unfolding work_account_def latest_account_def by (simp, intro exI [of _ evs] exI [of _ "[]"]) simp
next
  case False
  show ?thesis
  proof (cases e)
    case None
    with False assms show ?thesis by (auto simp: work_account_def snoc_split)
  next
    case (Some e')
    with assms obtain xs ys where l: "latest_account evs xs e' ys dropped"
      by (auto simp: work_account_def)
    then have "latest_account (evs @ [ev]) xs e' (ys @ [ev]) (dropped \<or> is_drop ev)"
      using False unfolding latest_account_def by (auto simp: snoc_split)
    then have "\<exists>xs ys. latest_account (evs @ [ev]) xs e' ys (dropped \<or> is_drop ev)" by blast
    with False Some show ?thesis by (simp add: work_account_def)
  qed
qed

lemma foldConsumedWork_account:
  "seedTrace evs = Inr t \<Longrightarrow>
   work_account evs (cw_end (foldConsumedWork evs)) (cw_droppedUnrun (foldConsumedWork evs))"
proof (induction evs arbitrary: t rule: rev_induct)
  case Nil
  then show ?case by (simp add: work_account_def foldConsumedWork_def consumed_scan_of_def consumed_init_def)
next
  case (snoc ev evs)
  from snoc.prems obtain t0 where t0: "seedTrace evs = Inr t0" and e: "trace_event t0 ev = Inr t"
    by (auto simp: seedTrace_replay trace.replay_snoc bind_res_Inr_iff)
  from work_account_snoc [OF snoc.IH [OF t0], of ev] show ?case
    using consumed_end_event [OF t0 e] by (auto simp: foldConsumedWork_def Let_def)
qed

end
