(* ===== verification/Js_String.thy ===== *)
theory Js_String
  imports Json_Value
begin

text \<open>
  String functions of JavaScript the modelled code uses. Strings are lists of Latin-1 characters,
  so \<open>trim\<close> strips, and the white space class matches, the white space of that range, and \<open>toLowerCase\<close>
  maps the letters of that range. The regular expressions of the code are recognisers.
\<close>

section \<open>Trimming and character classes\<close>

definition js_space :: "char \<Rightarrow> bool" where
  "js_space c = (of_char c \<in> {9, 10, 11, 12, 13, 32, 160 :: nat})"

definition js_trim :: "string \<Rightarrow> string" where
  "js_trim s = rev (dropWhile js_space (rev (dropWhile js_space s)))"

definition lower_alpha :: "char \<Rightarrow> bool" where
  "lower_alpha c = (97 \<le> (of_char c :: nat) \<and> (of_char c :: nat) \<le> 122)"

definition lower_alnum :: "char \<Rightarrow> bool" where
  "lower_alnum c = (lower_alpha c \<or> 48 \<le> (of_char c :: nat) \<and> (of_char c :: nat) \<le> 57)"

text \<open>
  The expression \<open>/^[a-z][a-z0-9]*(?:-[a-z0-9]+)*$/\<close> as an automaton; the flag says that the
  current segment has a character.
\<close>

fun kebab_tail :: "bool \<Rightarrow> string \<Rightarrow> bool" where
  "kebab_tail ne [] = ne"
| "kebab_tail ne (c # cs) =
     (if lower_alnum c then kebab_tail True cs else if c = CHR ''-'' \<and> ne then kebab_tail False cs else False)"

fun is_kebab :: "string \<Rightarrow> bool" where
  "is_kebab [] = False"
| "is_kebab (c # cs) = (lower_alpha c \<and> kebab_tail True cs)"

text \<open>A value that is a string.\<close>

fun as_string :: "json option \<Rightarrow> string option" where
  "as_string (Some (JStr s)) = Some s"
| "as_string _ = None"

lemma js_trim_idem: "js_trim (js_trim s) = js_trim s"
proof -
  define a where "a = dropWhile js_space s"
  define b where "b = js_trim s"
  have b: "rev b = dropWhile js_space (rev a)" by (simp add: b_def a_def js_trim_def)
  have tail: "dropWhile js_space (rev b) = rev b" unfolding b by (simp add: dropWhile_idem)
  have "dropWhile js_space b = b"
  proof (cases b)
    case Nil
    then show ?thesis by simp
  next
    case (Cons x xs)
    have "rev a = takeWhile js_space (rev a) @ rev b" unfolding b by simp
    then have "a = b @ rev (takeWhile js_space (rev a))" by (metis rev_append rev_rev_ident)
    with Cons have "a \<noteq> []" "hd a = x" by (cases a; simp)+
    then have "\<not> js_space x" using hd_dropWhile [of js_space s] by (simp add: a_def)
    with Cons show ?thesis by simp
  qed
  with tail show ?thesis unfolding b_def [symmetric] by (simp add: js_trim_def)
qed

section \<open>Lower case\<close>

definition to_lower_char :: "char \<Rightarrow> char" where
  "to_lower_char c =
     (let n = (of_char c :: nat) in
      if 65 \<le> n \<and> n \<le> 90 \<or> 192 \<le> n \<and> n \<le> 222 \<and> n \<noteq> 215 then char_of (n + 32) else c)"

definition to_lower :: "string \<Rightarrow> string" where
  "to_lower s = map to_lower_char s"

section \<open>JSON texts\<close>

definition hex_digit :: "nat \<Rightarrow> char" where
  "hex_digit n = char_of (if n < 10 then 48 + n else 87 + n)"

text \<open>\<open>JSON.stringify\<close> of a string.\<close>

definition json_escape :: "char \<Rightarrow> string" where
  "json_escape c =
     (let n = (of_char c :: nat) in
      if n = 34 then [CHR 0x5C, CHR 0x22] else if n = 92 then [CHR 0x5C, CHR 0x5C]
      else if n = 8 then [CHR 0x5C, CHR ''b''] else if n = 9 then [CHR 0x5C, CHR ''t'']
      else if n = 10 then [CHR 0x5C, CHR ''n''] else if n = 12 then [CHR 0x5C, CHR ''f'']
      else if n = 13 then [CHR 0x5C, CHR ''r'']
      else if n < 32 then [CHR 0x5C, CHR ''u'', CHR ''0'', CHR ''0'', hex_digit (n div 16), hex_digit (n mod 16)]
      else [c])"

definition json_quote :: "string \<Rightarrow> string" where
  "json_quote s = [CHR 0x22] @ concat (map json_escape s) @ [CHR 0x22]"

fun join_with :: "string \<Rightarrow> string list \<Rightarrow> string" where
  "join_with sep [] = []"
| "join_with sep [x] = x"
| "join_with sep (x # y # xs) = x @ sep @ join_with sep (y # xs)"

text \<open>
  \<open>JSON.stringify\<close> of a value. Integers below 10^21 print their digits; the shortest decimal of any other
  number is the parameter \<open>decimal\<close>.
\<close>

fun number_text :: "(jsnum \<Rightarrow> string) \<Rightarrow> jsnum \<Rightarrow> string" where
  "number_text decimal (JInt i) =
     (if \<bar>i\<bar> < 10 ^ 21 then (if i < 0 then ''-'' else []) @ nat_string (nat \<bar>i\<bar>) else decimal (JInt i))"
| "number_text decimal (JFrac b) = decimal (JFrac b)"

fun json_text :: "(jsnum \<Rightarrow> string) \<Rightarrow> json \<Rightarrow> string" where
  "json_text decimal JNull = ''null''"
| "json_text decimal (JBool b) = (if b then ''true'' else ''false'')"
| "json_text decimal (JNum n) = number_text decimal n"
| "json_text decimal (JStr s) = json_quote s"
| "json_text decimal (JArr xs) = ''['' @ join_with '','' (map (json_text decimal) xs) @ '']''"
| "json_text decimal (JObj kvs) =
     ''{'' @ join_with '','' (map (\<lambda>(k, v). json_quote k @ '':'' @ json_text decimal v) kvs) @ ''}''"

end
