(* ===== verification/Platform.thy ===== *)
theory Platform
  imports Dsh_Prelude Js_String
begin

text \<open>
  The platform service (services/platform-bff/src/index.ts and runtime-policy.ts): users, login
  sessions, runtime slots and the audit log of its database, and the handlers of its routes. A
  handler is a function from the database to the database and a reply; each SQL statement is a
  function of the tables, with the constraints of db/migrations. \<open>now\<close> is the clock in seconds.

  The password hash, its verification and the token hash are code outside the repository: they
  are fields of \<open>crypto\<close>, an argument of the handlers that use them. Random identities and tokens
  are arguments too.
\<close>

section \<open>Tables\<close>

datatype role = PlatformAdmin | PlainUser

record user =
  us_id :: string
  us_email :: string
  us_name :: string
  us_hash :: string
  us_role :: role
  us_active :: bool
  us_mustChange :: bool
  us_created :: nat

record login_session =
  ls_id :: string
  ls_user :: string
  ls_tokenHash :: string
  ls_expires :: nat
  ls_lastSeen :: nat

record user_runtime =
  ur_user :: string
  ur_slot :: nat
  ur_released :: bool  \<comment> \<open>\<open>released_at IS NOT NULL\<close>\<close>

datatype audit_type =
    BootstrapAdminCreated | LoginFailed | LoginSucceeded | Logout | PasswordChanged
  | UserCreated | UserDisabled | UserUpdated | PasswordReset

record audit_event =
  au_type :: audit_type
  au_actor :: "string option"
  au_subject :: "string option"
  au_ip :: "string option"
  au_email :: "string option"  \<comment> \<open>\<open>metadata->>'email'\<close>\<close>
  au_time :: nat

record db =
  db_users :: "user list"
  db_sessions :: "login_session list"
  db_slots :: "nat list"
  db_runtimes :: "user_runtime list"
  db_audit :: "audit_event list"

record crypto =
  cr_hash :: "string \<Rightarrow> string"
  cr_verify :: "string \<Rightarrow> string \<Rightarrow> bool"  \<comment> \<open>hash, password\<close>
  cr_token :: "string \<Rightarrow> string"

definition SESSION_MAX_AGE :: nat where "SESSION_MAX_AGE = 28800"
definition SESSION_IDLE :: nat where "SESSION_IDLE = 1800"
definition LOGIN_WINDOW :: nat where "LOGIN_WINDOW = 900"

datatype reply =
    Ok200
  | OkUser string  \<comment> \<open>the user's id\<close>
  | Created201 string
  | BadRequest string
  | Unauthorized
  | Forbidden
  | NotFound
  | Conflict string
  | TooMany
  | Unavailable
  | ServerError
  | RedirectLogin
  | RedirectProfile
  | ProxyTo nat

section \<open>Fields of a request\<close>

definition bodyValue :: "json \<Rightarrow> string \<Rightarrow> string" where
  "bodyValue body key = (case as_string (jget key body) of Some s \<Rightarrow> js_trim s | None \<Rightarrow> [])"

text \<open>The recogniser of an address: one at sign, no white space, a dot inside the domain.\<close>

definition is_email :: "string \<Rightarrow> bool" where
  "is_email s =
     (let local = takeWhile (\<lambda>c. c \<noteq> CHR ''@'') s; rest = dropWhile (\<lambda>c. c \<noteq> CHR ''@'') s; domain = tl rest in
      rest \<noteq> [] \<and> local \<noteq> [] \<and> list_all (\<lambda>c. \<not> js_space c) local
      \<and> list_all (\<lambda>c. \<not> js_space c \<and> c \<noteq> CHR ''@'') domain
      \<and> list_ex (\<lambda>i. domain ! i = CHR ''.'') [1..<length domain - 1])"

definition email :: "string \<Rightarrow> string option" where
  "email v = (let normalized = to_lower (js_trim v) in if is_email normalized then Some normalized else None)"

definition char_in :: "nat \<Rightarrow> nat \<Rightarrow> char \<Rightarrow> bool" where
  "char_in lo hi c = (lo \<le> (of_char c :: nat) \<and> (of_char c :: nat) \<le> hi)"

definition passwordError :: "string \<Rightarrow> string option" where
  "passwordError p =
     (let lower = char_in 97 122; upper = char_in 65 90; digit = char_in 48 57 in
      if length p < 12 then Some ''length''
      else if \<not> list_ex lower p \<or> \<not> list_ex upper p \<or> \<not> list_ex digit p
              \<or> \<not> list_ex (\<lambda>c. \<not> (upper c \<or> lower c \<or> digit c)) p
      then Some ''classes'' else None)"

definition body_role :: "json \<Rightarrow> role option" where
  "body_role body =
     (case jget ''role'' body of
        Some (JStr s) \<Rightarrow> if s = ''platform_admin'' then Some PlatformAdmin
                        else if s = ''user'' then Some PlainUser else None
      | _ \<Rightarrow> None)"

section \<open>Statements\<close>

definition find_user :: "db \<Rightarrow> string \<Rightarrow> user option" where
  "find_user d i = find (\<lambda>u. us_id u = i) (db_users d)"

definition user_by_email :: "db \<Rightarrow> string \<Rightarrow> user option" where
  "user_by_email d e = find (\<lambda>u. us_email u = e) (db_users d)"

definition record_audit ::
    "nat \<Rightarrow> audit_type \<Rightarrow> string option \<Rightarrow> string option \<Rightarrow> string option \<Rightarrow> string option \<Rightarrow> db \<Rightarrow> db" where
  "record_audit now t actor subject ip em d =
     d\<lparr>db_audit := db_audit d @ [\<lparr>au_type = t, au_actor = actor, au_subject = subject, au_ip = ip,
                                 au_email = em, au_time = now\<rparr>]\<rparr>"

definition update_user :: "string \<Rightarrow> (user \<Rightarrow> user) \<Rightarrow> db \<Rightarrow> db" where
  "update_user i f d = d\<lparr>db_users := map (\<lambda>u. if us_id u = i then f u else u) (db_users d)\<rparr>"

definition delete_sessions :: "(login_session \<Rightarrow> bool) \<Rightarrow> db \<Rightarrow> db" where
  "delete_sessions P d = d\<lparr>db_sessions := filter (\<lambda>s. \<not> P s) (db_sessions d)\<rparr>"

text \<open>\<open>LEFT JOIN user_runtimes r ON r.user_id = u.id AND r.released_at IS NULL\<close>.\<close>

definition runtime_slot :: "db \<Rightarrow> string \<Rightarrow> nat option" where
  "runtime_slot d i = map_option ur_slot (find (\<lambda>r. ur_user r = i \<and> \<not> ur_released r) (db_runtimes d))"

text \<open>The slots no unreleased row holds, in order.\<close>

definition free_slots :: "db \<Rightarrow> nat list" where
  "free_slots d = filter (\<lambda>s. \<not> list_ex (\<lambda>r. ur_slot r = s \<and> \<not> ur_released r) (db_runtimes d)) (sort (db_slots d))"

text \<open>
  An insert into \<open>user_runtimes\<close>: \<open>user_id\<close> is the primary key and \<open>slot\<close> is unique, over all
  rows, released or not. \<open>None\<close> is error 23505.
\<close>

definition insert_runtime :: "string \<Rightarrow> nat \<Rightarrow> db \<Rightarrow> db option" where
  "insert_runtime i s d =
     (if list_ex (\<lambda>r. ur_user r = i \<or> ur_slot r = s) (db_runtimes d) then None
      else Some (d\<lparr>db_runtimes := db_runtimes d @ [\<lparr>ur_user = i, ur_slot = s, ur_released = False\<rparr>]\<rparr>))"

definition insert_user :: "user \<Rightarrow> db \<Rightarrow> db option" where
  "insert_user u d =
     (if list_ex (\<lambda>v. us_id v = us_id u \<or> us_email v = us_email u) (db_users d) then None
      else Some (d\<lparr>db_users := db_users d @ [u]\<rparr>))"

definition insert_session :: "login_session \<Rightarrow> db \<Rightarrow> db option" where
  "insert_session s d =
     (if list_ex (\<lambda>t. ls_id t = ls_id s \<or> ls_tokenHash t = ls_tokenHash s) (db_sessions d)
         \<or> find_user d (ls_user s) = None then None
      else Some (d\<lparr>db_sessions := db_sessions d @ [s]\<rparr>))"

definition failed_logins :: "db \<Rightarrow> string \<Rightarrow> string \<Rightarrow> nat \<Rightarrow> nat" where
  "failed_logins d ip em now =
     length (filter (\<lambda>a. au_type a = LoginFailed \<and> au_ip a = Some ip \<and> au_email a = Some em
                       \<and> now < au_time a + LOGIN_WINDOW) (db_audit d))"

definition active_admins :: "db \<Rightarrow> nat" where
  "active_admins d = length (filter (\<lambda>u. us_role u = PlatformAdmin \<and> us_active u) (db_users d))"

section \<open>Sessions\<close>

definition sessionForToken ::
    "crypto \<Rightarrow> nat \<Rightarrow> string option \<Rightarrow> db \<Rightarrow> db \<times> (user \<times> login_session) option" where
  "sessionForToken cr now token d =
     (case token of
        None \<Rightarrow> (d, None)
      | Some t \<Rightarrow>
          if t = [] then (d, None)
          else case find (\<lambda>s. ls_tokenHash s = cr_token cr t \<and> now < ls_expires s
                             \<and> now < ls_lastSeen s + SESSION_IDLE \<and> find_user d (ls_user s) \<noteq> None)
                     (db_sessions d) of
            None \<Rightarrow> (d, None)
          | Some s \<Rightarrow>
              (case find_user d (ls_user s) of
                 None \<Rightarrow> (d, None)
               | Some u \<Rightarrow>
                   if \<not> us_active u then (d, None)
                   else (d\<lparr>db_sessions := map (\<lambda>x. if ls_id x = ls_id s then x\<lparr>ls_lastSeen := now\<rparr> else x)
                                            (db_sessions d)\<rparr>, Some (u, s))))"

definition requireAdmin ::
    "crypto \<Rightarrow> nat \<Rightarrow> string option \<Rightarrow> db \<Rightarrow> (db \<Rightarrow> user \<Rightarrow> db \<times> reply) \<Rightarrow> db \<times> reply" where
  "requireAdmin cr now token d k =
     (case sessionForToken cr now token d of
        (d1, None) \<Rightarrow> (d1, Unauthorized)
      | (d1, Some (u, _)) \<Rightarrow> if us_role u \<noteq> PlatformAdmin then (d1, Forbidden) else k d1 u)"

definition createSession :: "crypto \<Rightarrow> nat \<Rightarrow> string \<Rightarrow> string \<Rightarrow> string \<Rightarrow> db \<Rightarrow> db option" where
  "createSession cr now sid token uid d =
     insert_session \<lparr>ls_id = sid, ls_user = uid, ls_tokenHash = cr_token cr token,
                     ls_expires = now + SESSION_MAX_AGE, ls_lastSeen = now\<rparr> d"

section \<open>Authentication routes\<close>

definition login :: "crypto \<Rightarrow> nat \<Rightarrow> string \<Rightarrow> string \<Rightarrow> string \<Rightarrow> json \<Rightarrow> db \<Rightarrow> db \<times> reply" where
  "login cr now ip sid token body d =
     (case email (bodyValue body ''email'') of
        None \<Rightarrow> (d, Unauthorized)
      | Some em \<Rightarrow>
          let password = bodyValue body ''password'' in
          if password = [] then (d, Unauthorized)
          else
            let row = user_by_email d em;
                valid = (case row of None \<Rightarrow> False | Some u \<Rightarrow> us_active u \<and> cr_verify cr (us_hash u) password) in
            if \<not> valid then
              (if 5 \<le> failed_logins d ip em now then (d, TooMany)
               else (record_audit now LoginFailed None None (Some ip) (Some em) d, Unauthorized))
            else (case row of
                    None \<Rightarrow> (d, ServerError)
                  | Some u \<Rightarrow>
                      (case createSession cr now sid token (us_id u) d of
                         None \<Rightarrow> (d, ServerError)
                       | Some d1 \<Rightarrow>
                           (record_audit now LoginSucceeded (Some (us_id u)) (Some (us_id u)) (Some ip) None d1,
                            OkUser (us_id u)))))"

definition logout :: "crypto \<Rightarrow> nat \<Rightarrow> string \<Rightarrow> string option \<Rightarrow> db \<Rightarrow> db \<times> reply" where
  "logout cr now ip token d =
     (let (d1, who) = sessionForToken cr now token d;
          d2 = (case token of
                  Some t \<Rightarrow> if t = [] then d1 else delete_sessions (\<lambda>s. ls_tokenHash s = cr_token cr t) d1
                | None \<Rightarrow> d1);
          d3 = (case who of
                  None \<Rightarrow> d2
                | Some (u, _) \<Rightarrow> record_audit now Logout (Some (us_id u)) (Some (us_id u)) (Some ip) None d2)
      in (d3, Ok200))"

definition change_password :: "crypto \<Rightarrow> nat \<Rightarrow> string \<Rightarrow> string option \<Rightarrow> json \<Rightarrow> db \<Rightarrow> db \<times> reply" where
  "change_password cr now ip token body d =
     (case sessionForToken cr now token d of
        (d1, None) \<Rightarrow> (d1, Unauthorized)
      | (d1, Some (u, s)) \<Rightarrow>
          let nextPassword = bodyValue body ''password''; currentPassword = bodyValue body ''currentPassword'' in
          case passwordError nextPassword of
            Some e \<Rightarrow> (d1, BadRequest e)
          | None \<Rightarrow>
              (case find_user d1 (us_id u) of
                 None \<Rightarrow> (d1, ServerError)
               | Some stored \<Rightarrow>
                   if \<not> us_mustChange u \<and> (currentPassword = [] \<or> \<not> cr_verify cr (us_hash stored) currentPassword)
                   then (d1, BadRequest ''currentPassword'')
                   else
                     let d2 = update_user (us_id u) (\<lambda>v. v\<lparr>us_hash := cr_hash cr nextPassword, us_mustChange := False\<rparr>) d1;
                         d3 = delete_sessions (\<lambda>x. ls_user x = us_id u \<and> ls_id x \<noteq> ls_id s) d2
                     in (record_audit now PasswordChanged (Some (us_id u)) (Some (us_id u)) (Some ip) None d3, Ok200)))"

section \<open>Administration routes\<close>

text \<open>
  The transaction of the create handler: on an error every statement is rolled back. The handler
  reports every unique violation as a taken address.
\<close>

definition create_transaction :: "user \<Rightarrow> db \<Rightarrow> reply + db" where
  "create_transaction u d =
     (case free_slots d of
        [] \<Rightarrow> Inl (Conflict ''slots'')
      | slot # _ \<Rightarrow>
          (case Option.bind (insert_user u d) (insert_runtime (us_id u) slot) of
             None \<Rightarrow> Inl (Conflict ''email'')
           | Some d1 \<Rightarrow> Inr d1))"

definition create_user ::
    "crypto \<Rightarrow> nat \<Rightarrow> string \<Rightarrow> string option \<Rightarrow> string \<Rightarrow> json \<Rightarrow> db \<Rightarrow> db \<times> reply" where
  "create_user cr now ip token uid body d =
     requireAdmin cr now token d (\<lambda>d1 admin.
       let em = email (bodyValue body ''email''); name = bodyValue body ''displayName'';
           initial = bodyValue body ''password''; r = body_role body; issue = passwordError initial in
       if em = None \<or> name = [] \<or> r = None \<or> issue \<noteq> None
       then (d1, BadRequest (case issue of Some e \<Rightarrow> e | None \<Rightarrow> ''fields''))
       else case create_transaction
                   \<lparr>us_id = uid, us_email = the em, us_name = name, us_hash = cr_hash cr initial,
                    us_role = the r, us_active = True, us_mustChange = True, us_created = now\<rparr> d1 of
         Inl e \<Rightarrow> (d1, e)
       | Inr d2 \<Rightarrow> (record_audit now UserCreated (Some (us_id admin)) (Some uid) (Some ip) None d2,
                   Created201 uid))"

text \<open>The patch handler up to its last check, and its update.\<close>

definition body_active :: "json \<Rightarrow> bool option" where
  "body_active body = (case jget ''active'' body of Some (JBool b) \<Rightarrow> Some b | _ \<Rightarrow> None)"

definition patch_check :: "user \<Rightarrow> string \<Rightarrow> json \<Rightarrow> db \<Rightarrow> reply option" where
  "patch_check admin targetId body d =
     (let active = body_active body; r = body_role body in
      if active = None \<and> r = None then Some (BadRequest ''nothing'')
      else case find_user d targetId of
        None \<Rightarrow> Some NotFound
      | Some target \<Rightarrow>
          if us_id target = us_id admin \<and> active = Some False then Some (BadRequest ''self'')
          else if active = Some True \<and> runtime_slot d (us_id target) = None then Some (Conflict ''released'')
          else if us_role target = PlatformAdmin \<and> us_active target \<and> (active = Some False \<or> r = Some PlainUser)
                  \<and> active_admins d \<le> 1
          then Some (BadRequest ''lastAdmin'')
          else None)"

definition patch_apply :: "nat \<Rightarrow> string \<Rightarrow> user \<Rightarrow> string \<Rightarrow> json \<Rightarrow> db \<Rightarrow> db" where
  "patch_apply now ip admin targetId body d =
     (let active = body_active body; r = body_role body;
          d1 = update_user targetId (\<lambda>u. u\<lparr>us_active := (case active of None \<Rightarrow> us_active u | Some b \<Rightarrow> b),
                                          us_role := (case r of None \<Rightarrow> us_role u | Some x \<Rightarrow> x)\<rparr>) d;
          d2 = (if active = Some False then delete_sessions (\<lambda>s. ls_user s = targetId) d1 else d1)
      in record_audit now (if active = Some False then UserDisabled else UserUpdated)
           (Some (us_id admin)) (Some targetId) (Some ip) None d2)"

definition patch_user ::
    "crypto \<Rightarrow> nat \<Rightarrow> string \<Rightarrow> string option \<Rightarrow> string \<Rightarrow> json \<Rightarrow> db \<Rightarrow> db \<times> reply" where
  "patch_user cr now ip token targetId body d =
     requireAdmin cr now token d (\<lambda>d1 admin.
       case patch_check admin targetId body d1 of
         Some r \<Rightarrow> (d1, r)
       | None \<Rightarrow> (patch_apply now ip admin targetId body d1, Ok200))"

definition reset_password ::
    "crypto \<Rightarrow> nat \<Rightarrow> string \<Rightarrow> string option \<Rightarrow> string \<Rightarrow> json \<Rightarrow> db \<Rightarrow> db \<times> reply" where
  "reset_password cr now ip token targetId body d =
     requireAdmin cr now token d (\<lambda>d1 admin.
       let nextPassword = bodyValue body ''password'' in
       case passwordError nextPassword of
         Some e \<Rightarrow> (d1, BadRequest e)
       | None \<Rightarrow>
           if find_user d1 targetId = None then (d1, NotFound)
           else
             let d2 = update_user targetId (\<lambda>u. u\<lparr>us_hash := cr_hash cr nextPassword, us_mustChange := True\<rparr>) d1;
                 d3 = delete_sessions (\<lambda>s. ls_user s = targetId) d2
             in (record_audit now PasswordReset (Some (us_id admin)) (Some targetId) (Some ip) None d3, Ok200))"

section \<open>Start-up\<close>

text \<open>\<open>INSERT \<dots> SELECT \<dots> ON CONFLICT DO NOTHING\<close>: a conflict on any unique column inserts nothing.\<close>

definition assignFirstSlot :: "string \<Rightarrow> db \<Rightarrow> db \<times> nat option" where
  "assignFirstSlot uid d =
     (case free_slots d of
        [] \<Rightarrow> (d, None)
      | slot # _ \<Rightarrow>
          if find_user d uid = None then (d, None)
          else (case insert_runtime uid slot d of None \<Rightarrow> (d, None) | Some d1 \<Rightarrow> (d1, Some slot)))"

definition migratePlatform :: "db \<Rightarrow> db" where
  "migratePlatform d = d\<lparr>db_slots := db_slots d @ filter (\<lambda>s. s \<notin> set (db_slots d)) [1, 2, 3]\<rparr>"

definition bootstrapAdmin :: "crypto \<Rightarrow> nat \<Rightarrow> string \<Rightarrow> string \<Rightarrow> string \<Rightarrow> db \<Rightarrow> db option" where
  "bootstrapAdmin cr now uid adminEmail adminPassword d =
     (if length (db_users d) > 0 then Some d
      else case email adminEmail of
        None \<Rightarrow> None
      | Some em \<Rightarrow>
          if passwordError adminPassword \<noteq> None then None
          else (case insert_user \<lparr>us_id = uid, us_email = em, us_name = ''platform administrator'',
                       us_hash = cr_hash cr adminPassword, us_role = PlatformAdmin, us_active = True,
                       us_mustChange = False, us_created = now\<rparr> d of
                  None \<Rightarrow> None
                | Some d1 \<Rightarrow>
                    Some (fst (assignFirstSlot uid
                      (record_audit now BootstrapAdminCreated (Some uid) (Some uid) None None d1)))))"

text \<open>The users without a slot, administrators first, then by age; the first is given one.\<close>

definition slotless_rank :: "user \<Rightarrow> nat \<times> nat" where
  "slotless_rank u = (if us_role u = PlatformAdmin then 0 else 1, us_created u)"

definition before_rank :: "nat \<times> nat \<Rightarrow> nat \<times> nat \<Rightarrow> bool" where
  "before_rank a b = (fst a < fst b \<or> fst a = fst b \<and> snd a < snd b)"

fun first_ranked :: "user list \<Rightarrow> user option" where
  "first_ranked [] = None"
| "first_ranked (u # us) =
     (case first_ranked us of
        None \<Rightarrow> Some u
      | Some v \<Rightarrow> if before_rank (slotless_rank v) (slotless_rank u) then Some v else Some u)"

definition assignExistingAdmin :: "db \<Rightarrow> db" where
  "assignExistingAdmin d =
     (case first_ranked (filter (\<lambda>u. runtime_slot d (us_id u) = None) (db_users d)) of
        None \<Rightarrow> d
      | Some u \<Rightarrow> fst (assignFirstSlot (us_id u) d))"

text \<open>
  ops/release-runtime.ps1: the guard compares the text of a boolean, which PostgreSQL writes
  \<open>true\<close> or \<open>false\<close>, with \<open>f\<close>. \<open>release_statement\<close> is its last statement alone.
\<close>

definition bool_text :: "bool \<Rightarrow> string" where
  "bool_text b = (if b then ''true'' else ''false'')"

definition release_statement :: "nat \<Rightarrow> db \<Rightarrow> db" where
  "release_statement slot d =
     d\<lparr>db_runtimes := map (\<lambda>x. if ur_slot x = slot \<and> \<not> ur_released x then x\<lparr>ur_released := True\<rparr> else x)
                       (db_runtimes d)\<rparr>"

definition release_runtime :: "nat \<Rightarrow> db \<Rightarrow> db option" where
  "release_runtime slot d =
     (case find (\<lambda>r. ur_slot r = slot \<and> \<not> ur_released r \<and> find_user d (ur_user r) \<noteq> None) (db_runtimes d) of
        None \<Rightarrow> None
      | Some r \<Rightarrow>
          (case find_user d (ur_user r) of
             None \<Rightarrow> None
           | Some u \<Rightarrow> if bool_text (us_active u) \<noteq> ''f'' then None else Some (release_statement slot d)))"

section \<open>The runtime proxy\<close>

definition blockedRuntimeRequest :: "string \<Rightarrow> json option \<Rightarrow> bool" where
  "blockedRuntimeRequest pathname body =
     (let field = (\<lambda>k. Option.bind body (jget k)) in
      if pathname = ''/api/credentials.set'' \<or> pathname = ''/api/credentials.unset'' then True
      else if pathname = ''/api/permissionPresets.set'' \<and> field ''name'' = Some (JStr ''danger-full-access'') then True
      else if pathname = ''/api/settings.update'' \<and> field ''ns'' = Some (JStr ''llm-deepseek'') then True
      else False)"

definition runtimeOrigin :: "nat option \<Rightarrow> nat option" where
  "runtimeOrigin slot =
     (case slot of None \<Rightarrow> None | Some s \<Rightarrow> if s \<noteq> 0 \<and> 1 \<le> s \<and> s \<le> 3 then Some s else None)"

text \<open>The catch-all route: the decision, with the slot proxied to.\<close>

definition runtime_route ::
    "crypto \<Rightarrow> nat \<Rightarrow> string option \<Rightarrow> string \<Rightarrow> string \<Rightarrow> json option \<Rightarrow> db \<Rightarrow> db \<times> reply" where
  "runtime_route cr now token meth pathname body d =
     (case sessionForToken cr now token d of
        (d1, None) \<Rightarrow> (d1, if meth = ''GET'' \<or> meth = ''HEAD'' then RedirectLogin else Unauthorized)
      | (d1, Some (u, _)) \<Rightarrow>
          if us_mustChange u then (d1, if meth = ''GET'' \<or> meth = ''HEAD'' then RedirectProfile else Forbidden)
          else if blockedRuntimeRequest pathname body then (d1, Forbidden)
          else (case runtimeOrigin (runtime_slot d (us_id u)) of
                  None \<Rightarrow> (d1, Unavailable)
                | Some s \<Rightarrow> (d1, ProxyTo s)))"

definition is_platform_path :: "string \<Rightarrow> bool" where
  "is_platform_path p = (take 10 p = ''/_platform'')"

definition upgrade_route :: "crypto \<Rightarrow> nat \<Rightarrow> string option \<Rightarrow> string \<Rightarrow> db \<Rightarrow> db \<times> reply option" where
  "upgrade_route cr now token pathname d =
     (if is_platform_path pathname then (d, None)
      else let (d1, who) = sessionForToken cr now token d;
               target = runtimeOrigin (case who of None \<Rightarrow> None | Some (u, _) \<Rightarrow> runtime_slot d (us_id u)) in
           case (who, target) of
             (Some (u, _), Some s) \<Rightarrow> if us_mustChange u then (d1, Some Unauthorized) else (d1, Some (ProxyTo s))
           | _ \<Rightarrow> (d1, Some Unauthorized))"

end
