(* ===== verification/Platform_Inv.thy ===== *)
theory Platform_Inv
  imports Platform
begin

text \<open>
  The invariant of the platform database and what it gives: every handler keeps it, an active
  administrator remains as long as requests run one after the other, no two users share a runtime
  slot, a disabled user has no login session, and at most five failed logins per address and
  client are recorded in any fifteen minutes.
\<close>

section \<open>The invariant\<close>

definition users_inv :: "db \<Rightarrow> bool" where
  "users_inv d \<longleftrightarrow> distinct (map us_id (db_users d)) \<and> distinct (map us_email (db_users d))"

definition sessions_inv :: "db \<Rightarrow> bool" where
  "sessions_inv d \<longleftrightarrow>
     distinct (map ls_id (db_sessions d)) \<and> distinct (map ls_tokenHash (db_sessions d))
     \<and> (\<forall>s \<in> set (db_sessions d). \<exists>u. find_user d (ls_user s) = Some u \<and> us_active u)"

definition runtimes_inv :: "db \<Rightarrow> bool" where
  "runtimes_inv d \<longleftrightarrow>
     set (db_slots d) \<subseteq> {1, 2, 3} \<and> distinct (map ur_user (db_runtimes d)) \<and> distinct (map ur_slot (db_runtimes d))
     \<and> set (map ur_slot (db_runtimes d)) \<subseteq> set (db_slots d)"

definition throttle_inv :: "nat \<Rightarrow> db \<Rightarrow> bool" where
  "throttle_inv now d \<longleftrightarrow>
     (\<forall>a \<in> set (db_audit d). au_time a \<le> now) \<and> (\<forall>ip em. failed_logins d ip em now \<le> 5)"

definition platform_inv :: "nat \<Rightarrow> db \<Rightarrow> bool" where
  "platform_inv now d \<longleftrightarrow>
     users_inv d \<and> sessions_inv d \<and> runtimes_inv d \<and> throttle_inv now d \<and> 1 \<le> active_admins d"

named_theorems platform_simps

lemmas [platform_simps] =
  users_inv_def sessions_inv_def runtimes_inv_def find_user_def

section \<open>Statements keep it\<close>

lemma find_user_Some: "find_user d i = Some u \<Longrightarrow> u \<in> set (db_users d) \<and> us_id u = i"
  by (auto simp: find_user_def find_Some_iff)

lemma find_user_in: "users_inv d \<Longrightarrow> u \<in> set (db_users d) \<Longrightarrow> find_user d (us_id u) = Some u"
proof -
  assume inv: "users_inv d" and u: "u \<in> set (db_users d)"
  then obtain v where v: "find_user d (us_id u) = Some v"
    by (metis (mono_tags, lifting) find_None_iff find_user_def not_None_eq)
  with find_user_Some [OF v] inv u have "v = u"
    by (auto simp: users_inv_def distinct_map inj_on_def)
  with v show ?thesis by simp
qed

text \<open>Changes of the last-seen times only.\<close>

definition same_but_seen :: "db \<Rightarrow> db \<Rightarrow> bool" where
  "same_but_seen d d1 \<longleftrightarrow>
     db_users d1 = db_users d \<and> db_slots d1 = db_slots d \<and> db_runtimes d1 = db_runtimes d
     \<and> db_audit d1 = db_audit d
     \<and> map (\<lambda>s. (ls_id s, ls_user s, ls_tokenHash s, ls_expires s)) (db_sessions d1)
       = map (\<lambda>s. (ls_id s, ls_user s, ls_tokenHash s, ls_expires s)) (db_sessions d)"

lemma same_but_seen_refl [simp]: "same_but_seen d d"
  by (simp add: same_but_seen_def)

lemma sessionForToken_seen: "sessionForToken cr now token d = (d1, who) \<Longrightarrow> same_but_seen d d1"
  by (auto simp: sessionForToken_def same_but_seen_def split: option.splits if_splits)

lemma sessionForToken_user:
  assumes "sessionForToken cr now token d = (d1, Some (u, s))"
  obtains t where "token = Some t" "t \<noteq> []" "s \<in> set (db_sessions d)" "ls_tokenHash s = cr_token cr t"
    "now < ls_expires s" "now < ls_lastSeen s + SESSION_IDLE" "find_user d (ls_user s) = Some u" "us_active u"
  using assms
  by (auto simp: sessionForToken_def find_Some_iff split: option.splits if_splits)

lemma seen_find_user: "same_but_seen d d1 \<Longrightarrow> find_user d1 i = find_user d i"
  by (simp add: same_but_seen_def find_user_def)

lemma seen_sessions:
  assumes "same_but_seen d d1"
  shows "map ls_id (db_sessions d1) = map ls_id (db_sessions d)"
    and "map ls_user (db_sessions d1) = map ls_user (db_sessions d)"
    and "map ls_tokenHash (db_sessions d1) = map ls_tokenHash (db_sessions d)"
proof -
  let ?f = "\<lambda>s. (ls_id s, ls_user s, ls_tokenHash s, ls_expires s)"
  have eq: "map ?f (db_sessions d1) = map ?f (db_sessions d)" using assms by (simp add: same_but_seen_def)
  have "map (g \<circ> ?f) (db_sessions d1) = map (g \<circ> ?f) (db_sessions d)" for g :: "_ \<Rightarrow> 'x"
    using arg_cong [OF eq, of "map g"] by simp
  from this [of fst] this [of "fst \<circ> snd"] this [of "fst \<circ> snd \<circ> snd"]
  show "map ls_id (db_sessions d1) = map ls_id (db_sessions d)"
    "map ls_user (db_sessions d1) = map ls_user (db_sessions d)"
    "map ls_tokenHash (db_sessions d1) = map ls_tokenHash (db_sessions d)"
    by (simp_all add: comp_def)
qed

lemma seen_sessions_user:
  assumes "same_but_seen d d1" and "s \<in> set (db_sessions d1)"
  shows "\<exists>s' \<in> set (db_sessions d). ls_user s' = ls_user s"
  using seen_sessions(2) [OF assms(1)] assms(2) by (metis image_iff list.set_map)

lemma seen_inv:
  assumes "same_but_seen d d1"
  shows "users_inv d1 = users_inv d" and "runtimes_inv d1 = runtimes_inv d"
    and "active_admins d1 = active_admins d" and "throttle_inv now d1 = throttle_inv now d"
    and "sessions_inv d \<Longrightarrow> sessions_inv d1"
proof -
  show "users_inv d1 = users_inv d" "runtimes_inv d1 = runtimes_inv d" "active_admins d1 = active_admins d"
    "throttle_inv now d1 = throttle_inv now d"
    using assms by (simp_all add: same_but_seen_def users_inv_def runtimes_inv_def active_admins_def
        throttle_inv_def failed_logins_def)
  show "sessions_inv d1" if "sessions_inv d"
    using that seen_sessions [OF assms] seen_sessions_user [OF assms] seen_find_user [OF assms]
    unfolding sessions_inv_def by metis
qed

lemma platform_inv_seen: "same_but_seen d d1 \<Longrightarrow> platform_inv now d \<Longrightarrow> platform_inv now d1"
  by (simp add: platform_inv_def seen_inv)

text \<open>Audit records of anything but a failed login.\<close>

lemma record_audit_simps [simp]:
  "db_users (record_audit now t a s ip em d) = db_users d"
  "db_sessions (record_audit now t a s ip em d) = db_sessions d"
  "db_slots (record_audit now t a s ip em d) = db_slots d"
  "db_runtimes (record_audit now t a s ip em d) = db_runtimes d"
  "find_user (record_audit now t a s ip em d) = find_user d"
  "runtime_slot (record_audit now t a s ip em d) = runtime_slot d"
  "active_admins (record_audit now t a s ip em d) = active_admins d"
  by (simp_all add: record_audit_def find_user_def runtime_slot_def active_admins_def fun_eq_iff)

lemma audit_inv [simp]:
  "users_inv (record_audit now t a s ip em d) = users_inv d"
  "sessions_inv (record_audit now t a s ip em d) = sessions_inv d"
  "runtimes_inv (record_audit now t a s ip em d) = runtimes_inv d"
  by (simp_all add: users_inv_def sessions_inv_def runtimes_inv_def)

lemma failed_logins_audit:
  "failed_logins (record_audit now t a s (Some ip') (Some em') d) ip em now =
     failed_logins d ip em now + (if t = LoginFailed \<and> ip = ip' \<and> em = em' then 1 else 0)"
  "t \<noteq> LoginFailed \<Longrightarrow> failed_logins (record_audit now t a s oi oe d) ip em now = failed_logins d ip em now"
  by (auto simp: failed_logins_def record_audit_def LOGIN_WINDOW_def)

lemma throttle_audit [simp]:
  "t \<noteq> LoginFailed \<Longrightarrow> throttle_inv now (record_audit now t a s ip em d) = throttle_inv now d"
  unfolding throttle_inv_def failed_logins_audit(2) by (simp add: record_audit_def)

lemma throttle_failed:
  "throttle_inv now d \<Longrightarrow> failed_logins d ip em now < 5 \<Longrightarrow>
   throttle_inv now (record_audit now LoginFailed a s (Some ip) (Some em) d)"
  unfolding throttle_inv_def failed_logins_audit(1) by (auto simp: record_audit_def)

lemma length_filter_mono:
  "(\<And>x. x \<in> set xs \<Longrightarrow> P x \<Longrightarrow> Q x) \<Longrightarrow> length (filter P xs) \<le> length (filter Q xs)"
  by (induction xs) auto

lemma throttle_later: "throttle_inv now d \<Longrightarrow> now \<le> now' \<Longrightarrow> throttle_inv now' d"
proof -
  assume inv: "throttle_inv now d" and le: "now \<le> now'"
  have "failed_logins d ip em now' \<le> failed_logins d ip em now" for ip em
    unfolding failed_logins_def using le by (rule_tac length_filter_mono) auto
  then show ?thesis using inv le unfolding throttle_inv_def by (meson order_trans)
qed

text \<open>Inserts, updates and deletes.\<close>

lemma find_user_insert:
  assumes "insert_user u d = Some d1"
  shows "find_user d1 i = (if i = us_id u then Some u else find_user d i)"
proof -
  from assms have d1: "d1 = d\<lparr>db_users := db_users d @ [u]\<rparr>" and new: "\<forall>v \<in> set (db_users d). us_id v \<noteq> us_id u"
    by (auto simp: insert_user_def list_ex_iff split: if_splits)
  have "find P (xs @ [u]) = (case find P xs of Some y \<Rightarrow> Some y | None \<Rightarrow> if P u then Some u else None)" for P xs
    by (induction xs) auto
  moreover have "find (\<lambda>v. us_id v = us_id u) (db_users d) = None" using new by (simp add: find_None_iff)
  ultimately show ?thesis by (auto simp: find_user_def d1 split: option.splits)
qed

lemma insert_user_inv:
  assumes "insert_user u d = Some d1"
  shows "users_inv d \<Longrightarrow> users_inv d1" and "runtimes_inv d1 = runtimes_inv d"
    and "sessions_inv d \<Longrightarrow> sessions_inv d1" and "throttle_inv now d1 = throttle_inv now d"
    and "active_admins d \<le> active_admins d1"
proof -
  from assms have d1: "d1 = d\<lparr>db_users := db_users d @ [u]\<rparr>"
    and new: "\<forall>v \<in> set (db_users d). us_id v \<noteq> us_id u \<and> us_email v \<noteq> us_email u"
    by (auto simp: insert_user_def list_ex_iff split: if_splits)
  show "users_inv d \<Longrightarrow> users_inv d1" using new by (auto simp: users_inv_def d1)
  show "runtimes_inv d1 = runtimes_inv d" "throttle_inv now d1 = throttle_inv now d"
    by (simp_all add: runtimes_inv_def throttle_inv_def failed_logins_def d1)
  show "active_admins d \<le> active_admins d1" by (simp add: active_admins_def d1)
  show "sessions_inv d \<Longrightarrow> sessions_inv d1"
    using find_user_insert [OF assms] new find_user_Some unfolding sessions_inv_def d1 by fastforce
qed

lemma insert_runtime_inv:
  assumes "insert_runtime i s d = Some d1" and "s \<in> set (db_slots d)"
  shows "users_inv d1 = users_inv d" and "runtimes_inv d \<Longrightarrow> runtimes_inv d1"
    and "sessions_inv d1 = sessions_inv d" and "throttle_inv now d1 = throttle_inv now d"
    and "active_admins d1 = active_admins d"
proof -
  from assms(1) have d1: "d1 = d\<lparr>db_runtimes := db_runtimes d @ [\<lparr>ur_user = i, ur_slot = s, ur_released = False\<rparr>]\<rparr>"
    and new: "\<forall>r \<in> set (db_runtimes d). ur_user r \<noteq> i \<and> ur_slot r \<noteq> s"
    by (auto simp: insert_runtime_def list_ex_iff split: if_splits)
  show "users_inv d1 = users_inv d" "sessions_inv d1 = sessions_inv d" "throttle_inv now d1 = throttle_inv now d"
    "active_admins d1 = active_admins d"
    by (simp_all add: d1 users_inv_def sessions_inv_def throttle_inv_def find_user_def failed_logins_def active_admins_def)
  show "runtimes_inv d \<Longrightarrow> runtimes_inv d1"
    using new assms(2) unfolding runtimes_inv_def d1 by auto
qed

lemma find_user_update:
  assumes "\<And>u. us_id (f u) = us_id u"
  shows "find_user (update_user i f d) j = (if j = i then map_option f (find_user d j) else find_user d j)"
proof -
  have "find (\<lambda>u. us_id u = j) (map (\<lambda>u. if us_id u = i then f u else u) us)
     = (if j = i then map_option f (find (\<lambda>u. us_id u = j) us) else find (\<lambda>u. us_id u = j) us)" for us
    by (induction us) (auto simp: assms)
  then show ?thesis by (simp add: find_user_def update_user_def)
qed

lemma update_user_simps [simp]:
  "db_sessions (update_user i f d) = db_sessions d" "db_runtimes (update_user i f d) = db_runtimes d"
  "db_slots (update_user i f d) = db_slots d" "db_audit (update_user i f d) = db_audit d"
  "runtime_slot (update_user i f d) = runtime_slot d"
  by (simp_all add: update_user_def runtime_slot_def fun_eq_iff)

lemma update_user_inv:
  assumes f: "\<And>u. us_id (f u) = us_id u" "\<And>u. us_email (f u) = us_email u"
  shows "users_inv (update_user i f d) = users_inv d" and "runtimes_inv (update_user i f d) = runtimes_inv d"
    and "throttle_inv now (update_user i f d) = throttle_inv now d"
proof -
  have "map us_id (db_users (update_user i f d)) = map us_id (db_users d)"
    "map us_email (db_users (update_user i f d)) = map us_email (db_users d)"
    using f by (simp_all add: update_user_def)
  then show "users_inv (update_user i f d) = users_inv d" by (simp add: users_inv_def)
  show "runtimes_inv (update_user i f d) = runtimes_inv d"
    "throttle_inv now (update_user i f d) = throttle_inv now d"
    by (simp_all add: runtimes_inv_def throttle_inv_def failed_logins_def)
qed

lemma update_user_keep:
  assumes "\<And>u. us_id (f u) = us_id u" "\<And>u. us_active (f u) = us_active u" "\<And>u. us_role (f u) = us_role u"
  shows "sessions_inv (update_user i f d) = sessions_inv d" and "active_admins (update_user i f d) = active_admins d"
proof -
  show "sessions_inv (update_user i f d) = sessions_inv d"
    unfolding sessions_inv_def find_user_update [OF assms(1)] update_user_simps
    by (intro conj_cong ball_cong refl) (use assms(2) in \<open>auto split: if_splits\<close>)
  have "length (filter P (map (\<lambda>u. if us_id u = i then f u else u) us)) = length (filter P us)"
    if "\<And>u. P (f u) = P u" for P us
    by (induction us) (auto simp: that)
  then show "active_admins (update_user i f d) = active_admins d"
    using assms by (simp add: active_admins_def update_user_def)
qed

lemma delete_sessions_simps [simp]:
  "db_users (delete_sessions P d) = db_users d" "db_runtimes (delete_sessions P d) = db_runtimes d"
  "db_slots (delete_sessions P d) = db_slots d" "db_audit (delete_sessions P d) = db_audit d"
  "find_user (delete_sessions P d) = find_user d" "active_admins (delete_sessions P d) = active_admins d"
  "runtime_slot (delete_sessions P d) = runtime_slot d"
  by (simp_all add: delete_sessions_def find_user_def active_admins_def runtime_slot_def fun_eq_iff)

lemma delete_sessions_inv:
  "users_inv (delete_sessions P d) = users_inv d" "runtimes_inv (delete_sessions P d) = runtimes_inv d"
  "throttle_inv now (delete_sessions P d) = throttle_inv now d"
  "sessions_inv d \<Longrightarrow> sessions_inv (delete_sessions P d)"
proof -
  show "users_inv (delete_sessions P d) = users_inv d" "runtimes_inv (delete_sessions P d) = runtimes_inv d"
    "throttle_inv now (delete_sessions P d) = throttle_inv now d"
    by (simp_all add: users_inv_def runtimes_inv_def throttle_inv_def failed_logins_def)
  show "sessions_inv d \<Longrightarrow> sessions_inv (delete_sessions P d)"
    by (auto simp: sessions_inv_def delete_sessions_def find_user_def intro: distinct_map_filter)
qed

lemma delete_sessions_platform: "platform_inv now d \<Longrightarrow> platform_inv now (delete_sessions P d)"
  by (simp add: platform_inv_def delete_sessions_inv)

lemma audit_platform:
  "t \<noteq> LoginFailed \<Longrightarrow> platform_inv now (record_audit now t a s ip em d) = platform_inv now d"
  by (simp add: platform_inv_def)

lemma insert_session_inv:
  assumes "insert_session s d = Some d1" and "find_user d (ls_user s) = Some u" "us_active u"
  shows "platform_inv now d \<Longrightarrow> platform_inv now d1"
proof -
  from assms(1) have d1: "d1 = d\<lparr>db_sessions := db_sessions d @ [s]\<rparr>"
    and new: "ls_id s \<notin> set (map ls_id (db_sessions d))" "ls_tokenHash s \<notin> set (map ls_tokenHash (db_sessions d))"
    by (auto simp: insert_session_def list_ex_iff split: if_splits)
  have "find_user d1 = find_user d" by (simp add: d1 find_user_def fun_eq_iff)
  then have "sessions_inv d \<Longrightarrow> sessions_inv d1"
    using new assms(2, 3) by (auto simp: sessions_inv_def d1)
  moreover have "users_inv d1 = users_inv d" "runtimes_inv d1 = runtimes_inv d" "active_admins d1 = active_admins d"
    "throttle_inv now d1 = throttle_inv now d"
    by (simp_all add: d1 users_inv_def runtimes_inv_def active_admins_def throttle_inv_def failed_logins_def)
  ultimately show "platform_inv now d \<Longrightarrow> platform_inv now d1" by (simp add: platform_inv_def)
qed

section \<open>Handlers keep it\<close>

lemma user_by_email_Some: "user_by_email d e = Some u \<Longrightarrow> u \<in> set (db_users d) \<and> us_email u = e"
  by (auto simp: user_by_email_def find_Some_iff)

lemma login_inv:
  assumes inv: "platform_inv now d" and l: "login cr now ip sid token body d = (d1, r)"
  shows "platform_inv now d1"
proof (cases "email (bodyValue body ''email'')")
  case None
  with l inv show ?thesis by (simp add: login_def)
next
  case (Some em)
  let ?pw = "bodyValue body ''password''"
  let ?valid = "case user_by_email d em of None \<Rightarrow> False | Some u \<Rightarrow> us_active u \<and> cr_verify cr (us_hash u) ?pw"
  show ?thesis
  proof (cases "?valid \<and> ?pw \<noteq> []")
    case False
    with l Some inv show ?thesis
      by (auto simp: login_def Let_def platform_inv_def throttle_failed split: if_splits option.splits)
  next
    case True
    then obtain u where u: "user_by_email d em = Some u" "us_active u" "cr_verify cr (us_hash u) ?pw"
      by (auto split: option.splits)
    have fu: "find_user d (us_id u) = Some u"
      using user_by_email_Some [OF u(1)] find_user_in inv by (simp add: platform_inv_def)
    show ?thesis
    proof (cases "createSession cr now sid token (us_id u) d")
      case None
      with l Some True u inv show ?thesis by (auto simp: login_def Let_def)
    next
      case (Some d2)
      have "platform_inv now d2"
        by (rule insert_session_inv [OF Some [unfolded createSession_def] _ u(2) inv]) (simp add: fu)
      with l \<open>email (bodyValue body ''email'') = Some em\<close> True u Some show ?thesis
        by (auto simp: login_def Let_def audit_platform)
    qed
  qed
qed

lemma logout_inv:
  assumes "platform_inv now d" and "logout cr now ip token d = (d1, r)"
  shows "platform_inv now d1"
proof -
  obtain d2 who where s: "sessionForToken cr now token d = (d2, who)" by (cases "sessionForToken cr now token d")
  have "platform_inv now d2" using platform_inv_seen [OF sessionForToken_seen [OF s] assms(1)] .
  with assms(2) s show ?thesis
    by (auto simp: logout_def Let_def audit_platform delete_sessions_platform split: option.splits if_splits)
qed

lemma password_update_inv:
  "platform_inv now d \<Longrightarrow> platform_inv now (update_user i (\<lambda>v. v\<lparr>us_hash := h, us_mustChange := b\<rparr>) d)"
  by (simp add: platform_inv_def update_user_inv update_user_keep)

lemma change_password_inv:
  assumes "platform_inv now d" and "change_password cr now ip token body d = (d1, r)"
  shows "platform_inv now d1"
proof -
  obtain d2 who where s: "sessionForToken cr now token d = (d2, who)" by (cases "sessionForToken cr now token d")
  have "platform_inv now d2" using platform_inv_seen [OF sessionForToken_seen [OF s] assms(1)] .
  with assms(2) s show ?thesis
    by (auto simp: change_password_def Let_def audit_platform delete_sessions_platform password_update_inv
        split: option.splits if_splits)
qed

lemma requireAdmin_inv:
  assumes inv: "platform_inv now d" and h: "requireAdmin cr now token d k = (d1, r)"
    and k: "\<And>d2 a d3 r. platform_inv now d2 \<Longrightarrow> find_user d2 (us_id a) = Some a \<Longrightarrow> us_active a
        \<Longrightarrow> us_role a = PlatformAdmin \<Longrightarrow> k d2 a = (d3, r) \<Longrightarrow> platform_inv now d3"
  shows "platform_inv now d1"
proof -
  obtain d2 who where s: "sessionForToken cr now token d = (d2, who)" by (cases "sessionForToken cr now token d")
  have seen: "same_but_seen d d2" using sessionForToken_seen [OF s] .
  have inv2: "platform_inv now d2" using platform_inv_seen [OF seen inv] .
  show ?thesis
  proof (cases who)
    case None
    with h s inv2 show ?thesis by (simp add: requireAdmin_def)
  next
    case (Some us)
    obtain u x where us: "us = (u, x)" by (cases us)
    from s Some us obtain "find_user d (ls_user x) = Some u" "us_active u"
      by (auto elim: sessionForToken_user)
    then have "find_user d2 (us_id u) = Some u"
      using seen_find_user [OF seen] find_user_Some by metis
    with h s Some us inv2 k [OF inv2 this \<open>us_active u\<close>] show ?thesis
      by (auto simp: requireAdmin_def split: if_splits)
  qed
qed

lemma free_slots_slot: "free_slots d = s # ss \<Longrightarrow> s \<in> set (db_slots d)"
proof -
  assume "free_slots d = s # ss"
  then have "s \<in> set (free_slots d)" by simp
  then show ?thesis unfolding free_slots_def by simp
qed

lemma create_transaction_inv:
  assumes inv: "platform_inv now d" and c: "create_transaction u d = Inr d1"
  shows "platform_inv now d1"
proof -
  from c obtain slot ss du where f: "free_slots d = slot # ss" and u: "insert_user u d = Some du"
    and r: "insert_runtime (us_id u) slot du = Some d1"
    by (auto simp: create_transaction_def bind_eq_Some_conv split: list.splits option.splits)
  have "slot \<in> set (db_slots du)"
    using free_slots_slot [OF f] u by (auto simp: insert_user_def split: if_splits)
  from insert_user_inv [OF u] insert_runtime_inv [OF r this] inv show ?thesis
    by (auto simp: platform_inv_def)
qed

lemma create_result_inv:
  assumes "(if c then (d, e) else case tx of Inl e \<Rightarrow> (d, e) | Inr d2 \<Rightarrow> (record_audit now UserCreated a sb ip em d2, x))
      = (d1, r)"
    and "platform_inv now d" and "\<And>d2. tx = Inr d2 \<Longrightarrow> platform_inv now d2"
  shows "platform_inv now d1"
  using assms by (auto simp: audit_platform split: if_splits sum.splits)

lemma create_user_inv:
  assumes "platform_inv now d" and "create_user cr now ip token uid body d = (d1, r)"
  shows "platform_inv now d1"
  using assms(2) unfolding create_user_def Let_def
  by (rule requireAdmin_inv [OF assms(1)]) (erule create_result_inv, assumption, erule (1) create_transaction_inv)

text \<open>Changing one user changes the number of active administrators by at most one.\<close>

lemma update_user_admins:
  assumes "users_inv d"
  shows "active_admins d \<le> active_admins (update_user i f d) + 1"
    and "(\<And>u. u \<in> set (db_users d) \<Longrightarrow> us_id u = i \<Longrightarrow> us_role u = PlatformAdmin \<Longrightarrow> us_active u
           \<Longrightarrow> us_role (f u) = PlatformAdmin \<and> us_active (f u))
         \<Longrightarrow> active_admins d \<le> active_admins (update_user i f d)"
proof -
  let ?P = "\<lambda>u. us_role u = PlatformAdmin \<and> us_active u"
  let ?g = "\<lambda>u. if us_id u = i then f u else u"
  have gen: "distinct (map us_id us) \<Longrightarrow>
      length (filter ?P us) \<le> length (filter ?P (map ?g us)) + (if i \<in> set (map us_id us) then 1 else 0)" for us
    by (induction us) auto
  show "active_admins d \<le> active_admins (update_user i f d) + 1"
    using gen [of "db_users d"] assms
    by (simp add: active_admins_def update_user_def users_inv_def split: if_splits)
  have "(\<And>u. u \<in> set us \<Longrightarrow> us_id u = i \<Longrightarrow> ?P u \<Longrightarrow> ?P (f u)) \<Longrightarrow>
      length (filter ?P us) \<le> length (filter ?P (map ?g us))" for us
    by (induction us) (auto simp: le_SucI)
  then show "(\<And>u. u \<in> set (db_users d) \<Longrightarrow> us_id u = i \<Longrightarrow> us_role u = PlatformAdmin \<Longrightarrow> us_active u
           \<Longrightarrow> us_role (f u) = PlatformAdmin \<and> us_active (f u))
         \<Longrightarrow> active_admins d \<le> active_admins (update_user i f d)"
    by (simp add: active_admins_def update_user_def)
qed

definition patch_fields :: "json \<Rightarrow> user \<Rightarrow> user" where
  "patch_fields body u =
     u\<lparr>us_active := (case body_active body of None \<Rightarrow> us_active u | Some b \<Rightarrow> b),
       us_role := (case body_role body of None \<Rightarrow> us_role u | Some x \<Rightarrow> x)\<rparr>"

lemma patch_fields_simps [simp]:
  "us_id (patch_fields body u) = us_id u" "us_email (patch_fields body u) = us_email u"
  by (simp_all add: patch_fields_def)

lemma patch_apply_unfold:
  "patch_apply now ip admin i body d =
     record_audit now (if body_active body = Some False then UserDisabled else UserUpdated)
       (Some (us_id admin)) (Some i) (Some ip) None
       (if body_active body = Some False then delete_sessions (\<lambda>s. ls_user s = i) (update_user i (patch_fields body) d)
        else update_user i (patch_fields body) d)"
proof -
  have "(\<lambda>u. u\<lparr>us_active := (case body_active body of None \<Rightarrow> us_active u | Some b \<Rightarrow> b),
              us_role := (case body_role body of None \<Rightarrow> us_role u | Some x \<Rightarrow> x)\<rparr>) = patch_fields body"
    by (rule ext) (simp add: patch_fields_def)
  then show ?thesis by (simp only: patch_apply_def Let_def)
qed

lemma patch_sessions:
  assumes "sessions_inv d"
  shows "sessions_inv (patch_apply now ip admin i body d)"
proof -
  let ?d = "update_user i (patch_fields body) d"
  have fu: "find_user ?d j = (if j = i then map_option (patch_fields body) (find_user d j) else find_user d j)" for j
    by (rule find_user_update) simp
  have act: "\<exists>u. find_user ?d (ls_user s) = Some u \<and> us_active u"
    if "s \<in> set (db_sessions d)" "body_active body = Some False \<longrightarrow> ls_user s \<noteq> i" for s
  proof -
    from assms that(1) obtain u where u: "find_user d (ls_user s) = Some u" "us_active u"
      by (auto simp: sessions_inv_def)
    show ?thesis
    proof (cases "ls_user s = i")
      case True
      with that(2) have "body_active body = None \<or> body_active body = Some True"
        by (cases "body_active body") auto
      with True u show ?thesis by (auto simp: fu patch_fields_def)
    next
      case False
      with u show ?thesis by (simp add: fu)
    qed
  qed
  show ?thesis
  proof (cases "body_active body = Some False")
    case True
    then show ?thesis using act assms
      unfolding patch_apply_unfold by (auto simp: sessions_inv_def delete_sessions_def find_user_def intro: distinct_map_filter)
  next
    case False
    then show ?thesis using act assms unfolding patch_apply_unfold by (auto simp: sessions_inv_def)
  qed
qed

lemma patch_admins:
  assumes inv: "users_inv d" "1 \<le> active_admins d" and ok: "patch_check admin i body d = None"
  shows "1 \<le> active_admins (patch_apply now ip admin i body d)"
proof -
  let ?d = "update_user i (patch_fields body) d"
  from ok obtain target where t: "find_user d i = Some target"
    and last: "us_role target = PlatformAdmin \<and> us_active target
      \<and> (body_active body = Some False \<or> body_role body = Some PlainUser) \<longrightarrow> 1 < active_admins d"
    by (auto simp: patch_check_def Let_def split: if_splits option.splits)
  have same: "u = target" if "u \<in> set (db_users d)" "us_id u = i" for u
    using find_user_in [OF inv(1) that(1)] that(2) t by simp
  have "1 \<le> active_admins ?d"
  proof (cases "body_active body = Some False \<or> body_role body = Some PlainUser")
    case True
    show ?thesis
    proof (cases "us_role target = PlatformAdmin \<and> us_active target")
      case True
      with last \<open>body_active body = Some False \<or> _\<close> update_user_admins(1) [OF inv(1), of i "patch_fields body"]
      show ?thesis by simp
    next
      case False
      have "active_admins d \<le> active_admins ?d"
        by (rule update_user_admins(2) [OF inv(1)]) (use same False in auto)
      with inv(2) show ?thesis by simp
    qed
  next
    case False
    then have ba: "body_active body = None \<or> body_active body = Some True"
      and br: "body_role body = None \<or> body_role body = Some PlatformAdmin"
      by (cases "body_active body"; cases "body_role body"; simp; metis (full_types) role.exhaust)+
    have "active_admins d \<le> active_admins ?d"
      by (rule update_user_admins(2) [OF inv(1)]) (use ba br in \<open>auto simp: patch_fields_def\<close>)
    with inv(2) show ?thesis by simp
  qed
  then show ?thesis by (simp add: patch_apply_unfold)
qed

lemma patch_apply_inv:
  assumes "platform_inv now d" and "patch_check admin i body d = None"
  shows "platform_inv now (patch_apply now ip admin i body d)"
  using assms patch_sessions [of d] patch_admins [of d admin i body now ip]
  by (auto simp: platform_inv_def patch_apply_unfold update_user_inv delete_sessions_inv)

lemma patch_user_inv:
  assumes "platform_inv now d" and "patch_user cr now ip token i body d = (d1, r)"
  shows "platform_inv now d1"
  using assms(2) unfolding patch_user_def
  by (rule requireAdmin_inv [OF assms(1)]) (auto split: option.splits intro: patch_apply_inv)

lemma reset_password_inv:
  assumes "platform_inv now d" and "reset_password cr now ip token i body d = (d1, r)"
  shows "platform_inv now d1"
  using assms(2) unfolding reset_password_def
  by (rule requireAdmin_inv [OF assms(1)])
    (auto simp: Let_def audit_platform delete_sessions_platform password_update_inv split: option.splits if_splits)

lemma runtime_route_inv:
  assumes "platform_inv now d" and "runtime_route cr now token meth p body d = (d1, r)"
  shows "platform_inv now d1"
proof -
  obtain d2 who where s: "sessionForToken cr now token d = (d2, who)" by (cases "sessionForToken cr now token d")
  have "platform_inv now d2" using platform_inv_seen [OF sessionForToken_seen [OF s] assms(1)] .
  with assms(2) s show ?thesis by (auto simp: runtime_route_def split: option.splits if_splits)
qed

lemma release_inv: "platform_inv now (release_statement slot d) = platform_inv now d"
proof -
  let ?g = "\<lambda>x. if ur_slot x = slot \<and> \<not> ur_released x then x\<lparr>ur_released := True\<rparr> else x"
  have "map ur_slot (map ?g (db_runtimes d)) = map ur_slot (db_runtimes d)"
    "map ur_user (map ?g (db_runtimes d)) = map ur_user (db_runtimes d)"
    by simp_all
  moreover have "db_runtimes (release_statement slot d) = map ?g (db_runtimes d)"
    "db_slots (release_statement slot d) = db_slots d"
    by (simp_all add: release_statement_def)
  ultimately have "runtimes_inv (release_statement slot d) = runtimes_inv d"
    unfolding runtimes_inv_def by (simp only:)
  then show ?thesis
    by (simp add: platform_inv_def users_inv_def sessions_inv_def throttle_inv_def
        failed_logins_def active_admins_def find_user_def release_statement_def)
qed

lemma assignFirstSlot_inv: "platform_inv now d \<Longrightarrow> platform_inv now (fst (assignFirstSlot uid d))"
  using free_slots_slot insert_runtime_inv
  by (fastforce simp: assignFirstSlot_def platform_inv_def split: list.splits option.splits)

lemma upgrade_route_inv:
  assumes "platform_inv now d" and "upgrade_route cr now token p d = (d1, r)"
  shows "platform_inv now d1"
proof -
  obtain d2 who where s: "sessionForToken cr now token d = (d2, who)" by (cases "sessionForToken cr now token d")
  have "platform_inv now d2" using platform_inv_seen [OF sessionForToken_seen [OF s] assms(1)] .
  with assms s show ?thesis by (auto simp: upgrade_route_def Let_def split: option.splits if_splits)
qed

section \<open>The service as a transition system\<close>

datatype platform_request =
    RqLogin string string string json  \<comment> \<open>ip, session id, token, body\<close>
  | RqLogout string "string option"
  | RqChangePassword string "string option" json
  | RqCreateUser string "string option" string json  \<comment> \<open>ip, token, new id, body\<close>
  | RqPatchUser string "string option" string json
  | RqResetPassword string "string option" string json
  | RqRuntime "string option" string string "json option"
  | RqUpgrade "string option" string

fun platform_handle :: "crypto \<Rightarrow> nat \<Rightarrow> platform_request \<Rightarrow> db \<Rightarrow> db \<times> reply option" where
  "platform_handle cr now (RqLogin ip sid tok b) d = map_prod id Some (login cr now ip sid tok b d)"
| "platform_handle cr now (RqLogout ip tok) d = map_prod id Some (logout cr now ip tok d)"
| "platform_handle cr now (RqChangePassword ip tok b) d = map_prod id Some (change_password cr now ip tok b d)"
| "platform_handle cr now (RqCreateUser ip tok uid b) d = map_prod id Some (create_user cr now ip tok uid b d)"
| "platform_handle cr now (RqPatchUser ip tok i b) d = map_prod id Some (patch_user cr now ip tok i b d)"
| "platform_handle cr now (RqResetPassword ip tok i b) d = map_prod id Some (reset_password cr now ip tok i b d)"
| "platform_handle cr now (RqRuntime tok m p b) d = map_prod id Some (runtime_route cr now tok m p b d)"
| "platform_handle cr now (RqUpgrade tok p) d = upgrade_route cr now tok p d"

lemma platform_handle_inv:
  assumes "platform_inv now d" and "platform_handle cr now rq d = (d1, r)"
  shows "platform_inv now d1"
  using assms(2)
  by (cases rq)
    (auto simp: map_prod_def split: prod.splits
      intro: login_inv [OF assms(1)] logout_inv [OF assms(1)] change_password_inv [OF assms(1)]
        create_user_inv [OF assms(1)] patch_user_inv [OF assms(1)] reset_password_inv [OF assms(1)]
        runtime_route_inv [OF assms(1)] upgrade_route_inv [OF assms(1)])

text \<open>
  Requests run one after the other; the clock advances, an operator releases a slot, and a restart
  runs the migration and the assignment.
\<close>

inductive platform_step :: "crypto \<Rightarrow> nat \<times> db \<Rightarrow> nat \<times> db \<Rightarrow> bool" for cr where
  request: "platform_handle cr now rq d = (d', r) \<Longrightarrow> platform_step cr (now, d) (now, d')"
| clock: "now \<le> now' \<Longrightarrow> platform_step cr (now, d) (now', d)"
| release: "platform_step cr (now, d) (now, release_statement slot d)"
| restart: "platform_step cr (now, d) (now, assignExistingAdmin (migratePlatform d))"

inductive_cases platform_stepE: "platform_step cr (now, d) s'"

definition empty_db :: db where
  "empty_db = \<lparr>db_users = [], db_sessions = [], db_slots = [], db_runtimes = [], db_audit = []\<rparr>"

inductive platform_reachable :: "crypto \<Rightarrow> nat \<times> db \<Rightarrow> bool" for cr where
  start: "bootstrapAdmin cr now uid em pw (migratePlatform empty_db) = Some d \<Longrightarrow> platform_reachable cr (now, d)"
| step: "platform_reachable cr s \<Longrightarrow> platform_step cr s s' \<Longrightarrow> platform_reachable cr s'"

lemma migrate_slots: "set (db_slots d) \<subseteq> {1, 2, 3} \<Longrightarrow> set (db_slots (migratePlatform d)) = {1, 2, 3}"
  by (auto simp: migratePlatform_def)

lemma migrate_inv: "platform_inv now d \<Longrightarrow> platform_inv now (migratePlatform d)"
proof -
  assume inv: "platform_inv now d"
  then have "set (db_slots (migratePlatform d)) = {1, 2, 3}"
    by (intro migrate_slots) (simp add: platform_inv_def runtimes_inv_def)
  moreover have "db_users (migratePlatform d) = db_users d" "db_sessions (migratePlatform d) = db_sessions d"
    "db_runtimes (migratePlatform d) = db_runtimes d" "db_audit (migratePlatform d) = db_audit d"
    by (simp_all add: migratePlatform_def)
  ultimately show ?thesis using inv
    by (auto simp: platform_inv_def users_inv_def sessions_inv_def runtimes_inv_def throttle_inv_def
        failed_logins_def active_admins_def find_user_def)
qed

lemma restart_inv: "platform_inv now d \<Longrightarrow> platform_inv now (assignExistingAdmin (migratePlatform d))"
  using migrate_inv assignFirstSlot_inv by (auto simp: assignExistingAdmin_def split: option.splits)

lemma bootstrap_inv:
  assumes "bootstrapAdmin cr now uid em pw (migratePlatform empty_db) = Some d"
  shows "platform_inv now d"
proof -
  let ?d0 = "migratePlatform empty_db"
  have d0: "db_users ?d0 = []" "db_sessions ?d0 = []" "db_runtimes ?d0 = []" "db_audit ?d0 = []"
    "db_slots ?d0 = [1, 2, 3]"
    by (simp_all add: migratePlatform_def empty_db_def)
  from assms d0 obtain e du where u: "insert_user \<lparr>us_id = uid, us_email = e, us_name = ''platform administrator'',
        us_hash = cr_hash cr pw, us_role = PlatformAdmin, us_active = True, us_mustChange = False, us_created = now\<rparr> ?d0
        = Some du"
    and d: "d = fst (assignFirstSlot uid (record_audit now BootstrapAdminCreated (Some uid) (Some uid) None None du))"
    by (auto simp: bootstrapAdmin_def split: option.splits if_splits)
  have "platform_inv now du"
    using u d0
    by (auto simp: insert_user_def platform_inv_def users_inv_def sessions_inv_def runtimes_inv_def throttle_inv_def
        failed_logins_def active_admins_def split: if_splits)
  then show ?thesis unfolding d by (intro assignFirstSlot_inv) (simp add: audit_platform)
qed

lemma platform_reachable_inv: "platform_reachable cr s \<Longrightarrow> platform_inv (fst s) (snd s)"
proof (induction rule: platform_reachable.induct)
  case (start now uid em pw d)
  then show ?case using bootstrap_inv by simp
next
  case (step s s')
  from step.hyps(2) step.IH show ?case
  proof (cases rule: platform_step.cases)
    case (request now rq d d' r)
    with step.IH platform_handle_inv show ?thesis by auto
  next
    case (clock now now' d)
    with step.IH show ?thesis by (auto simp: platform_inv_def intro: throttle_later)
  next
    case (release now d slot)
    with step.IH show ?thesis by (simp add: release_inv)
  next
    case (restart now d)
    with step.IH show ?thesis by (simp add: restart_inv)
  qed
qed

section \<open>What it means\<close>

lemma runtime_slot_Some: "runtime_slot d i = Some s \<Longrightarrow> \<exists>r \<in> set (db_runtimes d). ur_user r = i \<and> ur_slot r = s \<and> \<not> ur_released r"
  by (auto simp: runtime_slot_def find_Some_iff)

lemma runtime_slot_unique:
  assumes "runtimes_inv d" "runtime_slot d i = Some s" "runtime_slot d j = Some s"
  shows "i = j"
proof -
  from assms(2, 3) obtain r r' where "r \<in> set (db_runtimes d)" "ur_user r = i" "ur_slot r = s"
    "r' \<in> set (db_runtimes d)" "ur_user r' = j" "ur_slot r' = s"
    by (auto dest!: runtime_slot_Some)
  then show ?thesis using assms(1) by (auto simp: runtimes_inv_def distinct_map inj_on_def)
qed

lemma runtime_route_proxy:
  assumes "runtime_route cr now token meth p body d = (d1, ProxyTo s)"
  shows "\<exists>u x. sessionForToken cr now token d = (d1, Some (u, x)) \<and> us_active u \<and> \<not> us_mustChange u
     \<and> \<not> blockedRuntimeRequest p body \<and> runtime_slot d (us_id u) = Some s \<and> 1 \<le> s \<and> s \<le> 3"
proof -
  from assms obtain u x where ux: "sessionForToken cr now token d = (d1, Some (u, x))"
    and rest: "\<not> us_mustChange u" "\<not> blockedRuntimeRequest p body" "runtimeOrigin (runtime_slot d (us_id u)) = Some s"
    by (auto simp: runtime_route_def split: prod.splits option.splits if_splits)
  moreover have "us_active u" using ux by (auto elim: sessionForToken_user)
  ultimately show ?thesis by (auto simp: runtimeOrigin_def split: option.splits if_splits)
qed

lemma no_session_no_login:
  assumes "\<forall>s \<in> set (db_sessions d). ls_user s \<noteq> i" and "sessionForToken cr now token d = (d1, Some (u, x))"
  shows "us_id u \<noteq> i"
  using assms(2)
proof (rule sessionForToken_user)
  fix t
  assume "x \<in> set (db_sessions d)" "find_user d (ls_user x) = Some u"
  with assms(1) find_user_Some [OF this(2)] show ?thesis by auto
qed

end
