(* ===== verification/Model_Gateway.thy ===== *)
theory Model_Gateway
  imports Platform
begin

text \<open>
  The model gateway (services/model-gateway/src/index.ts and usage.ts): the runtime identity read
  from the Host header, the request headers passed on, the bounded capture of the response that
  streams through, and the token usage read from the captured text. Chunks are byte lists. The
  parser \<open>JSON.parse\<close> is a parameter: \<open>None\<close> is its exception.
\<close>

section \<open>Identity and headers\<close>

definition is_digit :: "char \<Rightarrow> bool" where
  "is_digit c = (48 \<le> (of_char c :: nat) \<and> (of_char c :: nat) \<le> 57)"

definition ends_with :: "string \<Rightarrow> string \<Rightarrow> bool" where
  "ends_with suffix s = (length suffix \<le> length s \<and> drop (length s - length suffix) s = suffix)"

text \<open>A trailing colon and at least one digit are dropped.\<close>

definition strip_port :: "string \<Rightarrow> string" where
  "strip_port h =
     (let body = rev (dropWhile is_digit (rev h)) in
      if length body < length h \<and> body \<noteq> [] \<and> last body = CHR '':'' then butlast body else h)"

definition slotForHost :: "string option \<Rightarrow> nat option" where
  "slotForHost host =
     (let h = strip_port (to_lower (case host of None \<Rightarrow> [] | Some x \<Rightarrow> x)) in
      if ends_with ''model-gateway-slot-01'' h then Some 1
      else if ends_with ''model-gateway-slot-02'' h then Some 2
      else if ends_with ''model-gateway-slot-03'' h then Some 3 else None)"

definition binding :: "db \<Rightarrow> nat \<Rightarrow> string option" where
  "binding d slot = map_option ur_user (find (\<lambda>r. ur_slot r = slot \<and> \<not> ur_released r) (db_runtimes d))"

text \<open>The headers sent upstream: \<open>Headers.set\<close> replaces a header of the same name.\<close>

fun header_set :: "string \<Rightarrow> string \<Rightarrow> (string \<times> string) list \<Rightarrow> (string \<times> string) list" where
  "header_set k v [] = [(k, v)]"
| "header_set k v ((k', v') # hs) = (if k' = k then (k, v) # hs else (k', v') # header_set k v hs)"

definition stripped_headers :: "string list" where
  "stripped_headers = [''host'', ''authorization'', ''content-length'', ''connection'']"

definition upstream_headers :: "string \<Rightarrow> bool \<Rightarrow> (string \<times> string) list \<Rightarrow> (string \<times> string) list" where
  "upstream_headers key hasBody incoming =
     (let copied = foldl (\<lambda>hs (name, raw).
                     if raw \<noteq> [] \<and> to_lower name \<notin> set stripped_headers then header_set (to_lower name) raw hs else hs)
                   [] incoming;
          authorized = header_set ''authorization'' (''Bearer '' @ key) copied
      in if hasBody then header_set ''content-type'' ''application/json'' authorized else authorized)"

section \<open>The capture\<close>

definition captureLimit :: nat where
  "captureLimit = 128 * 1024"

fun shift_captured :: "nat \<Rightarrow> nat list list \<Rightarrow> nat list list \<times> nat" where
  "shift_captured bytes [] = ([], bytes)"
| "shift_captured bytes (c # cs) =
     (if captureLimit < bytes \<and> cs \<noteq> [] then shift_captured (bytes - length c) cs else (c # cs, bytes))"

definition capture_chunk :: "nat list list \<times> nat \<Rightarrow> nat list \<Rightarrow> nat list list \<times> nat" where
  "capture_chunk st chunk = shift_captured (snd st + length chunk) (fst st @ [chunk])"

definition capture_all :: "nat list list \<Rightarrow> nat list list \<times> nat" where
  "capture_all chunks = foldl capture_chunk ([], 0) chunks"

section \<open>Usage\<close>

record model_usage =
  mu_input :: "json option"
  mu_output :: "json option"
  mu_total :: "json option"

definition no_usage :: model_usage where
  "no_usage = \<lparr>mu_input = None, mu_output = None, mu_total = None\<rparr>"

fun truthy :: "json \<Rightarrow> bool" where
  "truthy JNull = False"
| "truthy (JBool b) = b"
| "truthy (JNum n) = (n \<noteq> JInt 0)"
| "truthy (JStr s) = (s \<noteq> [])"
| "truthy (JArr _) = True"
| "truthy (JObj _) = True"

definition nullish :: "json option \<Rightarrow> json option" where
  "nullish v = (case v of Some JNull \<Rightarrow> None | _ \<Rightarrow> v)"

text \<open>One attempt: parse, read \<open>usage\<close>, and its counters when it is truthy.\<close>

definition usage_of :: "(string \<Rightarrow> json option) \<Rightarrow> string \<Rightarrow> model_usage option" where
  "usage_of parse text =
     (case Option.bind (parse text) (jget ''usage'') of
        None \<Rightarrow> None
      | Some u \<Rightarrow>
          if truthy u
          then Some \<lparr>mu_input = nullish (jget ''prompt_tokens'' u), mu_output = nullish (jget ''completion_tokens'' u),
                     mu_total = nullish (jget ''total_tokens'' u)\<rparr>
          else None)"

fun split_lines :: "string \<Rightarrow> string list" where
  "split_lines [] = [[]]"
| "split_lines (c # cs) =
     (if c = CHR 0x0A then [] # split_lines cs
      else case split_lines cs of l # ls \<Rightarrow> (c # l) # ls | [] \<Rightarrow> [[c]])"

definition candidates :: "string \<Rightarrow> string list" where
  "candidates text = map (\<lambda>l. js_trim (drop 5 l)) (filter (\<lambda>l. take 5 l = ''data:'') (split_lines text))"

fun first_usage :: "(string \<Rightarrow> json option) \<Rightarrow> string list \<Rightarrow> model_usage option" where
  "first_usage parse [] = None"
| "first_usage parse (c # cs) =
     (case usage_of parse c of Some u \<Rightarrow> Some u | None \<Rightarrow> first_usage parse cs)"

definition usageFromText :: "(string \<Rightarrow> json option) \<Rightarrow> string \<Rightarrow> model_usage" where
  "usageFromText parse text =
     (case first_usage parse (rev (candidates text)) of
        Some u \<Rightarrow> u
      | None \<Rightarrow> (case usage_of parse text of Some u \<Rightarrow> u | None \<Rightarrow> no_usage))"

section \<open>The proxy route\<close>

text \<open>
  A row of \<open>model_usage_events\<close>. The row's identity and the two clock readings are arguments of the
  handler; so are the outcome of \<open>fetch\<close> (an exception, or a status and a body streamed to its end)
  and the UTF-8 decoder of the runtime.
\<close>

record usage_event =
  ue_id :: string
  ue_user :: string
  ue_slot :: nat
  ue_model :: "string option"
  ue_status :: nat
  ue_usage :: model_usage
  ue_duration :: int
  ue_available :: bool

datatype fetch_outcome =
    FetchFailed
  | Fetched nat "nat list list option"  \<comment> \<open>status; the chunks of the body, if there is one\<close>

datatype gateway_reply =
    UnknownRuntime403
  | NotAssigned503
  | BadGateway502
  | Streamed nat "nat list list"

record gateway_request =
  gq_host :: "string option"
  gq_body :: "json option"
  gq_id :: string
  gq_started :: nat
  gq_ended :: nat

definition requested_model :: "json option \<Rightarrow> string option" where
  "requested_model body = as_string (Option.bind body (jget ''model''))"

definition recordUsage :: "gateway_request \<Rightarrow> string \<Rightarrow> nat \<Rightarrow> nat \<Rightarrow> model_usage \<Rightarrow> usage_event" where
  "recordUsage rq uid slot status usage =
     \<lparr>ue_id = gq_id rq, ue_user = uid, ue_slot = slot, ue_model = requested_model (gq_body rq),
      ue_status = status, ue_usage = usage, ue_duration = int (gq_ended rq) - int (gq_started rq),
      ue_available = (mu_total usage \<noteq> None)\<rparr>"

text \<open>
  The handler: the reply, and the rows it inserts. A response without a body ends before the
  capture finishes, so it inserts no row.
\<close>

definition gateway_handle ::
    "(nat list \<Rightarrow> string) \<Rightarrow> (string \<Rightarrow> json option) \<Rightarrow> db \<Rightarrow> gateway_request \<Rightarrow> fetch_outcome
     \<Rightarrow> usage_event list \<times> gateway_reply" where
  "gateway_handle decode parse d rq outcome =
     (case slotForHost (gq_host rq) of
        None \<Rightarrow> ([], UnknownRuntime403)
      | Some slot \<Rightarrow>
          (case binding d slot of
             None \<Rightarrow> ([], NotAssigned503)
           | Some uid \<Rightarrow>
               (case outcome of
                  FetchFailed \<Rightarrow> ([recordUsage rq uid slot 502 no_usage], BadGateway502)
                | Fetched status None \<Rightarrow> ([], Streamed status [])
                | Fetched status (Some chunks) \<Rightarrow>
                    ([recordUsage rq uid slot status
                        (usageFromText parse (decode (concat (fst (capture_all chunks)))))],
                     Streamed status chunks))))"

section \<open>What the capture keeps\<close>

definition total_bytes :: "nat list list \<Rightarrow> nat" where
  "total_bytes cs = sum_list (map length cs)"

lemma total_bytes_simps [simp]:
  "total_bytes [] = 0" "total_bytes (c # cs) = length c + total_bytes cs"
  "total_bytes (xs @ ys) = total_bytes xs + total_bytes ys"
  by (simp_all add: total_bytes_def)

text \<open>The chunks kept are the longest run of last chunks within the limit, and at least the last one.\<close>

definition kept_suffix :: "nat list list \<Rightarrow> nat list list \<Rightarrow> bool" where
  "kept_suffix chunks kept \<longleftrightarrow>
     (\<exists>dropped. chunks = dropped @ kept
        \<and> (chunks \<noteq> [] \<longrightarrow> kept \<noteq> [])
        \<and> (total_bytes kept \<le> captureLimit \<or> length kept = 1)
        \<and> (dropped \<noteq> [] \<longrightarrow> captureLimit < length (last dropped) + total_bytes kept))"

lemma shift_captured_suffix:
  assumes "bytes = total_bytes cs" and "cs \<noteq> []"
  shows "\<exists>dropped kept. shift_captured bytes cs = (kept, total_bytes kept) \<and> cs = dropped @ kept \<and> kept \<noteq> []
     \<and> (total_bytes kept \<le> captureLimit \<or> length kept = 1)
     \<and> (dropped \<noteq> [] \<longrightarrow> captureLimit < length (last dropped) + total_bytes kept)"
  using assms
proof (induction cs arbitrary: bytes)
  case Nil
  then show ?case by simp
next
  case (Cons c cs)
  show ?case
  proof (cases "captureLimit < bytes \<and> cs \<noteq> []")
    case True
    with Cons.prems have "bytes - length c = total_bytes cs" by simp
    from Cons.IH [OF this] True obtain dropped kept where
      k: "shift_captured (bytes - length c) cs = (kept, total_bytes kept)" "cs = dropped @ kept" "kept \<noteq> []"
        "total_bytes kept \<le> captureLimit \<or> length kept = 1"
        "dropped \<noteq> [] \<longrightarrow> captureLimit < length (last dropped) + total_bytes kept" by blast
    have "captureLimit < length (last (c # dropped)) + total_bytes kept"
      using k(2, 5) True Cons.prems(1) by (cases "dropped = []") simp_all
    with k True show ?thesis by (intro exI [of _ "c # dropped"] exI [of _ kept]) simp
  next
    case False
    with Cons.prems show ?thesis
      by (intro exI [of _ "[]"] exI [of _ "c # cs"]) (auto simp: le_less_linear not_less)
  qed
qed

lemma capture_all_kept:
  "snd (capture_all chunks) = total_bytes (fst (capture_all chunks)) \<and> kept_suffix chunks (fst (capture_all chunks))"
proof (induction chunks rule: rev_induct)
  case Nil
  show ?case by (simp add: capture_all_def kept_suffix_def)
next
  case (snoc c chunks)
  let ?k = "fst (capture_all chunks)"
  have step: "capture_all (chunks @ [c]) = shift_captured (total_bytes (?k @ [c])) (?k @ [c])"
    using snoc.IH by (simp add: capture_all_def capture_chunk_def)
  obtain d2 kept where
    sh: "shift_captured (total_bytes (?k @ [c])) (?k @ [c]) = (kept, total_bytes kept)"
    and k: "?k @ [c] = d2 @ kept" "kept \<noteq> []" "total_bytes kept \<le> captureLimit \<or> length kept = 1"
      "d2 \<noteq> [] \<longrightarrow> captureLimit < length (last d2) + total_bytes kept"
    using shift_captured_suffix [OF refl, of "?k @ [c]"] by blast
  from snoc.IH obtain d1 where d1: "chunks = d1 @ ?k"
    and m: "d1 \<noteq> [] \<longrightarrow> captureLimit < length (last d1) + total_bytes ?k" by (auto simp: kept_suffix_def)
  have "d1 @ d2 \<noteq> [] \<longrightarrow> captureLimit < length (last (d1 @ d2)) + total_bytes kept"
  proof (cases "d2 = []")
    case True
    with k(1) have "total_bytes ?k \<le> total_bytes kept" by (metis append_Nil le_add1 total_bytes_simps(3))
    with True m show ?thesis by auto
  next
    case False
    with k(4) show ?thesis by simp
  qed
  moreover have "chunks @ [c] = (d1 @ d2) @ kept" using d1 k(1) by (metis append.assoc)
  ultimately have "kept_suffix (chunks @ [c]) kept" using k unfolding kept_suffix_def by blast
  then show ?case by (simp only: step sh fst_conv snd_conv)
qed

section \<open>Usage comes from the last frame that has it\<close>

lemma first_usage_rev:
  "first_usage parse (rev cs) = Some u \<longleftrightarrow>
     (\<exists>xs c ys. cs = xs @ c # ys \<and> usage_of parse c = Some u \<and> (\<forall>y \<in> set ys. usage_of parse y = None))"
proof (induction cs rule: rev_induct)
  case Nil
  then show ?case by simp
next
  case (snoc c cs)
  show ?case
  proof (cases "usage_of parse c")
    case (Some v)
    have "(\<exists>xs x ys. cs @ [c] = xs @ x # ys \<and> usage_of parse x = Some u \<and> (\<forall>y \<in> set ys. usage_of parse y = None))
        \<longleftrightarrow> v = u"
    proof
      assume "\<exists>xs x ys. cs @ [c] = xs @ x # ys \<and> usage_of parse x = Some u \<and> (\<forall>y \<in> set ys. usage_of parse y = None)"
      then obtain xs x ys where e: "cs @ [c] = xs @ x # ys" "usage_of parse x = Some u" "\<forall>y \<in> set ys. usage_of parse y = None"
        by blast
      then show "v = u" using Some by (cases ys rule: rev_cases) auto
    next
      assume "v = u"
      with Some show "\<exists>xs x ys. cs @ [c] = xs @ x # ys \<and> usage_of parse x = Some u \<and> (\<forall>y \<in> set ys. usage_of parse y = None)"
        by (intro exI [of _ cs] exI [of _ c] exI [of _ "[]"]) simp
    qed
    with Some show ?thesis by simp
  next
    case None
    have "(\<exists>xs x ys. cs @ [c] = xs @ x # ys \<and> usage_of parse x = Some u \<and> (\<forall>y \<in> set ys. usage_of parse y = None))
      \<longleftrightarrow> (\<exists>xs x ys. cs = xs @ x # ys \<and> usage_of parse x = Some u \<and> (\<forall>y \<in> set ys. usage_of parse y = None))"
      (is "?l = ?r")
    proof
      assume ?l
      then obtain xs x ys where e: "cs @ [c] = xs @ x # ys" "usage_of parse x = Some u" "\<forall>y \<in> set ys. usage_of parse y = None"
        by blast
      then show ?r using None by (cases ys rule: rev_cases) auto
    next
      assume ?r
      then obtain xs x ys where "cs = xs @ x # ys" "usage_of parse x = Some u" "\<forall>y \<in> set ys. usage_of parse y = None"
        by blast
      with None show ?l by (intro exI [of _ xs] exI [of _ x] exI [of _ "ys @ [c]"]) auto
    qed
    with None snoc.IH show ?thesis by simp
  qed
qed

section \<open>Who is billed\<close>

lemma slotForHost_range: "slotForHost host = Some s \<Longrightarrow> s = 1 \<or> s = 2 \<or> s = 3"
  by (auto simp: slotForHost_def Let_def split: if_splits)

lemma gateway_handle_row:
  assumes "gateway_handle decode parse d rq outcome = (rows, reply)" and "row \<in> set rows"
  shows "rows = [row] \<and> slotForHost (gq_host rq) = Some (ue_slot row) \<and> binding d (ue_slot row) = Some (ue_user row)
     \<and> ue_model row = requested_model (gq_body rq) \<and> (ue_available row \<longleftrightarrow> mu_total (ue_usage row) \<noteq> None)"
  using assms
  by (auto simp: gateway_handle_def recordUsage_def split: option.splits fetch_outcome.splits)

end
