(* ===== verification/Platform_Laws.thy ===== *)
theory Platform_Laws
  imports Platform_Inv Model_Gateway
begin

text \<open>
  What the platform's routes promise across components: who may change an account, what disabling
  an account or resetting its password takes away, which slot a request reaches and whom the model
  gateway bills for it; and the situations the service's checks do not cover.
\<close>

section \<open>Administrators only\<close>

fun request_token :: "platform_request \<Rightarrow> string option" where
  "request_token (RqLogin _ _ _ _) = None"
| "request_token (RqLogout _ t) = t"
| "request_token (RqChangePassword _ t _) = t"
| "request_token (RqCreateUser _ t _ _) = t"
| "request_token (RqPatchUser _ t _ _) = t"
| "request_token (RqResetPassword _ t _ _) = t"
| "request_token (RqRuntime t _ _ _) = t"
| "request_token (RqUpgrade t _) = t"

text \<open>Who may do what: the identity, the role and the state of every account.\<close>

definition standing :: "db \<Rightarrow> (string \<times> role \<times> bool) list" where
  "standing d = map (\<lambda>u. (us_id u, us_role u, us_active u)) (db_users d)"

definition admin_session :: "crypto \<Rightarrow> nat \<Rightarrow> string option \<Rightarrow> db \<Rightarrow> bool" where
  "admin_session cr now token d \<longleftrightarrow>
     (\<exists>d1 u x. sessionForToken cr now token d = (d1, Some (u, x)) \<and> us_role u = PlatformAdmin \<and> us_active u)"

lemma requireAdmin_cases:
  assumes "requireAdmin cr now token d k = (d1, r)"
  obtains (denied) "same_but_seen d d1" "r = Unauthorized \<or> r = Forbidden"
  | (admitted) d2 u x where "sessionForToken cr now token d = (d2, Some (u, x))" "same_but_seen d d2"
      "us_role u = PlatformAdmin" "us_active u" "k d2 u = (d1, r)"
proof -
  obtain d2 who where s: "sessionForToken cr now token d = (d2, who)" by (cases "sessionForToken cr now token d")
  show thesis
  proof (cases who)
    case None
    with assms s sessionForToken_seen [OF s] denied show thesis by (simp add: requireAdmin_def)
  next
    case (Some us)
    obtain u x where us: "us = (u, x)" by (cases us)
    have "us_active u" using s Some us by (auto elim: sessionForToken_user)
    with assms s Some us sessionForToken_seen [OF s] denied admitted show thesis
      by (auto simp: requireAdmin_def split: if_splits)
  qed
qed

lemma standing_simps [simp]:
  "standing (record_audit n t a s ip e d) = standing d"
  "standing (delete_sessions P d) = standing d"
  "standing (update_user i (\<lambda>v. v\<lparr>us_hash := h, us_mustChange := m\<rparr>) d) = standing d"
  by (simp_all add: standing_def record_audit_def delete_sessions_def update_user_def)

lemma standing_seen: "same_but_seen d d1 \<Longrightarrow> standing d1 = standing d"
  by (simp add: standing_def same_but_seen_def)

lemma standing_session: "insert_session s d = Some d1 \<Longrightarrow> standing d1 = standing d"
  by (auto simp: insert_session_def standing_def split: if_splits)

lemma standing_by_admin:
  assumes h: "platform_handle cr now rq d = (d1, r)" and ch: "standing d1 \<noteq> standing d"
  shows "admin_session cr now (request_token rq) d"
proof (cases rq)
  case (RqLogin ip sid tok b)
  with h obtain r' where "login cr now ip sid tok b d = (d1, r')" by (auto simp: map_prod_def split: prod.splits)
  then have "standing d1 = standing d"
    by (auto simp: login_def Let_def createSession_def standing_session split: option.splits if_splits)
  with ch show ?thesis by simp
next
  case (RqLogout ip tok)
  with h obtain r' where "logout cr now ip tok d = (d1, r')" by (auto simp: map_prod_def split: prod.splits)
  then have "standing d1 = standing d"
    using sessionForToken_seen by (auto simp: logout_def Let_def standing_seen split: option.splits if_splits prod.splits)
  with ch show ?thesis by simp
next
  case (RqChangePassword ip tok b)
  with h obtain r' where "change_password cr now ip tok b d = (d1, r')" by (auto simp: map_prod_def split: prod.splits)
  then have "standing d1 = standing d"
    using sessionForToken_seen
    by (auto simp: change_password_def Let_def standing_seen split: option.splits if_splits prod.splits)
  with ch show ?thesis by simp
next
  case (RqRuntime tok m p b)
  with h obtain r' where "runtime_route cr now tok m p b d = (d1, r')" by (auto simp: map_prod_def split: prod.splits)
  then have "standing d1 = standing d"
    using sessionForToken_seen
    by (auto simp: runtime_route_def standing_seen split: option.splits if_splits prod.splits)
  with ch show ?thesis by simp
next
  case (RqUpgrade tok p)
  with h have "upgrade_route cr now tok p d = (d1, r)" by simp
  then have "standing d1 = standing d"
    using sessionForToken_seen
    by (auto simp: upgrade_route_def Let_def standing_seen split: option.splits if_splits prod.splits)
  with ch show ?thesis by simp
next
  case (RqCreateUser ip tok uid b)
  with h obtain r' where "create_user cr now ip tok uid b d = (d1, r')" by (auto simp: map_prod_def split: prod.splits)
  then show ?thesis unfolding create_user_def
    by (cases rule: requireAdmin_cases) (use ch RqCreateUser standing_seen in \<open>auto simp: admin_session_def\<close>)
next
  case (RqPatchUser ip tok i b)
  with h obtain r' where "patch_user cr now ip tok i b d = (d1, r')" by (auto simp: map_prod_def split: prod.splits)
  then show ?thesis unfolding patch_user_def
    by (cases rule: requireAdmin_cases) (use ch RqPatchUser standing_seen in \<open>auto simp: admin_session_def\<close>)
next
  case (RqResetPassword ip tok i b)
  with h obtain r' where "reset_password cr now ip tok i b d = (d1, r')" by (auto simp: map_prod_def split: prod.splits)
  then show ?thesis unfolding reset_password_def
    by (cases rule: requireAdmin_cases) (use ch RqResetPassword standing_seen in \<open>auto simp: admin_session_def\<close>)
qed

section \<open>Losing access\<close>

definition no_sessions :: "db \<Rightarrow> string \<Rightarrow> bool" where
  "no_sessions d i \<longleftrightarrow> (\<forall>s \<in> set (db_sessions d). ls_user s \<noteq> i)"

lemma login_active:
  assumes "login cr now ip sid tok b d = (d1, OkUser i)"
  shows "\<exists>u. user_by_email d (us_email u) = Some u \<and> us_id u = i \<and> us_active u
    \<and> cr_verify cr (us_hash u) (bodyValue b ''password'')"
proof -
  from assms obtain em u where u: "user_by_email d em = Some u" "us_id u = i" "us_active u"
    "cr_verify cr (us_hash u) (bodyValue b ''password'')"
    by (auto simp: login_def Let_def split: option.splits if_splits)
  have "us_email u = em" using user_by_email_Some [OF u(1)] by simp
  with u show ?thesis by (intro exI [of _ u]) simp
qed

text \<open>A login's token admits its user until the session has been idle for half an hour.\<close>

lemma find_append_none: "\<forall>x \<in> set xs. \<not> P x \<Longrightarrow> find P (xs @ [y]) = (if P y then Some y else None)"
  by (induction xs) auto

lemma login_inserts:
  assumes "login cr now ip sid tok b d = (d1, OkUser i)"
  obtains u where "u \<in> set (db_users d)" "us_id u = i" "us_active u" "find_user d i \<noteq> None"
    "\<forall>t \<in> set (db_sessions d). ls_id t \<noteq> sid \<and> ls_tokenHash t \<noteq> cr_token cr tok"
    "db_sessions d1 = db_sessions d @ [\<lparr>ls_id = sid, ls_user = i, ls_tokenHash = cr_token cr tok,
       ls_expires = now + SESSION_MAX_AGE, ls_lastSeen = now\<rparr>]" "find_user d1 = find_user d"
proof -
  from assms obtain em u d0 where u: "user_by_email d em = Some u" "us_id u = i" "us_active u"
    and c: "createSession cr now sid tok i d = Some d0"
    and d1: "d1 = record_audit now LoginSucceeded (Some i) (Some i) (Some ip) None d0"
    by (auto simp: login_def Let_def split: option.splits if_splits)
  from c have "find_user d i \<noteq> None" "\<forall>t \<in> set (db_sessions d). ls_id t \<noteq> sid \<and> ls_tokenHash t \<noteq> cr_token cr tok"
    "d0 = d\<lparr>db_sessions := db_sessions d @ [\<lparr>ls_id = sid, ls_user = i, ls_tokenHash = cr_token cr tok,
       ls_expires = now + SESSION_MAX_AGE, ls_lastSeen = now\<rparr>]\<rparr>"
    by (auto simp: createSession_def insert_session_def list_ex_iff split: if_splits)
  with that [of u] u user_by_email_Some [OF u(1)] show thesis
    by (auto simp: d1 find_user_def fun_eq_iff)
qed

lemma login_window:
  assumes inv: "users_inv d" and l: "login cr now ip sid tok b d = (d1, OkUser i)" and tok: "tok \<noteq> []"
  shows "(\<exists>d2 u x. sessionForToken cr n (Some tok) d1 = (d2, Some (u, x)) \<and> us_id u = i) \<longleftrightarrow> n < now + SESSION_IDLE"
proof -
  from l obtain v where u: "v \<in> set (db_users d)" "us_id v = i" "us_active v" "find_user d i \<noteq> None"
    and fresh: "\<forall>t \<in> set (db_sessions d). ls_id t \<noteq> sid \<and> ls_tokenHash t \<noteq> cr_token cr tok"
    and ses: "db_sessions d1 = db_sessions d @ [\<lparr>ls_id = sid, ls_user = i, ls_tokenHash = cr_token cr tok,
       ls_expires = now + SESSION_MAX_AGE, ls_lastSeen = now\<rparr>]" and fu: "find_user d1 = find_user d"
    by (rule login_inserts)
  have v: "find_user d i = Some v" using find_user_in [OF inv u(1)] u(2) by simp
  let ?P = "\<lambda>s. ls_tokenHash s = cr_token cr tok \<and> n < ls_expires s \<and> n < ls_lastSeen s + SESSION_IDLE
    \<and> find_user d1 (ls_user s) \<noteq> None"
  let ?s = "\<lparr>ls_id = sid, ls_user = i, ls_tokenHash = cr_token cr tok,
       ls_expires = now + SESSION_MAX_AGE, ls_lastSeen = now\<rparr>"
  have "find ?P (db_sessions d1) = (if ?P ?s then Some ?s else None)"
    unfolding ses by (rule find_append_none) (use fresh in blast)
  moreover have "?P ?s \<longleftrightarrow> n < now + SESSION_IDLE"
    using v by (auto simp: fu SESSION_MAX_AGE_def SESSION_IDLE_def)
  ultimately have f: "find ?P (db_sessions d1) = (if n < now + SESSION_IDLE then Some ?s else None)" by simp
  have "sessionForToken cr n (Some tok) d1 =
     (case find ?P (db_sessions d1) of None \<Rightarrow> (d1, None)
      | Some s \<Rightarrow> (case find_user d1 (ls_user s) of None \<Rightarrow> (d1, None)
           | Some u \<Rightarrow> if \<not> us_active u then (d1, None)
               else (d1\<lparr>db_sessions := map (\<lambda>x. if ls_id x = ls_id s then x\<lparr>ls_lastSeen := n\<rparr> else x) (db_sessions d1)\<rparr>,
                     Some (u, s))))"
    using tok by (simp add: sessionForToken_def)
  also have "\<dots> = (if n < now + SESSION_IDLE then
      (d1\<lparr>db_sessions := map (\<lambda>x. if ls_id x = sid then x\<lparr>ls_lastSeen := n\<rparr> else x) (db_sessions d1)\<rparr>, Some (v, ?s))
      else (d1, None))"
    unfolding f using v u(3) fu by simp
  finally show ?thesis using u(2) by simp
qed

lemma patch_check_refuses: "patch_check a i b d \<noteq> Some Ok200"
  unfolding patch_check_def Let_def by (cases "find_user d i") simp_all

lemma patch_disables:
  assumes inv: "users_inv d" and p: "patch_user cr now ip token i body d = (d1, Ok200)"
    and off: "body_active body = Some False"
  shows "no_sessions d1 i \<and> (\<exists>u. find_user d1 i = Some u \<and> \<not> us_active u) \<and> users_inv d1"
  using p unfolding patch_user_def
proof (cases rule: requireAdmin_cases)
  case denied
  then show ?thesis by auto
next
  case (admitted d2 a x)
  have c: "patch_check a i body d2 = None"
    using admitted(5) patch_check_refuses [of a i body d2] by (cases "patch_check a i body d2") simp_all
  with admitted(5) have d1: "d1 = patch_apply now ip a i body d2" by simp
  from c obtain t where t: "find_user d2 i = Some t"
    by (auto simp: patch_check_def Let_def split: if_splits option.splits)
  let ?d = "delete_sessions (\<lambda>s. ls_user s = i) (update_user i (patch_fields body) d2)"
  have d1': "d1 = record_audit now UserDisabled (Some (us_id a)) (Some i) (Some ip) None ?d"
    using off by (simp add: d1 patch_apply_unfold)
  have "find_user d1 i = Some (patch_fields body t)"
    using find_user_update [of "patch_fields body" i d2 i] t by (simp add: d1')
  moreover have "users_inv d1"
    using inv admitted(2) delete_sessions_inv(1) update_user_inv(1) [of "patch_fields body" i d2]
    by (simp add: d1' users_inv_def same_but_seen_def)
  moreover have "no_sessions d1 i" by (simp add: d1' no_sessions_def delete_sessions_def)
  ultimately show ?thesis using off by (simp add: patch_fields_def)
qed

lemma disabled_no_login:
  assumes "users_inv d" and "find_user d i = Some u" and "\<not> us_active u"
  shows "snd (login cr now ip sid tok b d) \<noteq> OkUser i"
proof
  assume "snd (login cr now ip sid tok b d) = OkUser i"
  then obtain d1 where "login cr now ip sid tok b d = (d1, OkUser i)" by (cases "login cr now ip sid tok b d") auto
  from login_active [OF this] obtain v where v: "user_by_email d (us_email v) = Some v" "us_id v = i" "us_active v" by blast
  from user_by_email_Some [OF v(1)] find_user_in [OF assms(1), of v] v assms(2, 3) show False by auto
qed

lemma reset_effect:
  assumes inv: "users_inv d" and p: "reset_password cr now ip token i body d = (d1, Ok200)"
  shows "no_sessions d1 i
    \<and> (\<exists>u. find_user d1 i = Some u \<and> us_mustChange u \<and> us_hash u = cr_hash cr (bodyValue body ''password''))"
  using p unfolding reset_password_def
proof (cases rule: requireAdmin_cases)
  case denied
  then show ?thesis by auto
next
  case (admitted d2 a x)
  let ?f = "\<lambda>u. u\<lparr>us_hash := cr_hash cr (bodyValue body ''password''), us_mustChange := True\<rparr>"
  from admitted(5) obtain t where t: "find_user d2 i = Some t"
    and d1: "d1 = record_audit now PasswordReset (Some (us_id a)) (Some i) (Some ip) None
               (delete_sessions (\<lambda>s. ls_user s = i) (update_user i ?f d2))"
    by (auto simp: Let_def split: option.splits if_splits)
  have "find_user (update_user i ?f d2) i = Some (?f t)"
    using find_user_update [of ?f i d2 i] t by simp
  then show ?thesis
    by (simp add: d1 no_sessions_def delete_sessions_def record_audit_def find_user_def)
qed

section \<open>Slots and bills\<close>

lemma binding_owner:
  assumes "runtimes_inv d" and "runtime_slot d i = Some s"
  shows "binding d s = Some i"
proof -
  from runtime_slot_Some [OF assms(2)] obtain r where r: "r \<in> set (db_runtimes d)" "ur_user r = i" "ur_slot r = s"
    "\<not> ur_released r" by blast
  then obtain q where q: "find (\<lambda>r. ur_slot r = s \<and> \<not> ur_released r) (db_runtimes d) = Some q"
    by (metis (mono_tags, lifting) find_None_iff not_None_eq)
  then have "q \<in> set (db_runtimes d)" "ur_slot q = s" by (auto simp: find_Some_iff)
  with r assms(1) have "q = r" by (auto simp: runtimes_inv_def distinct_map inj_on_def)
  with q r show ?thesis by (simp add: binding_def)
qed

section \<open>What the checks do not cover\<close>

lemma released_slot_blocked:
  assumes "free_slots d = s # ss" and "r \<in> set (db_runtimes d)" and "ur_slot r = s"
  shows "create_transaction u d = Inl (Conflict ''email'') \<and> assignFirstSlot i d = (d, None)"
proof -
  have "insert_runtime j s e = None" if "db_runtimes e = db_runtimes d" for j e
    using assms that by (auto simp: insert_runtime_def list_ex_iff)
  then have "Option.bind (insert_user u d) (insert_runtime (us_id u) s) = None"
    by (auto simp: insert_user_def)
  with assms(1) \<open>\<And>j e. db_runtimes e = db_runtimes d \<Longrightarrow> insert_runtime j s e = None\<close> show ?thesis
    by (auto simp: create_transaction_def assignFirstSlot_def)
qed

lemma login_unthrottled:
  assumes "email (bodyValue b ''email'') = Some em" and "bodyValue b ''password'' \<noteq> []"
    and "user_by_email d em = Some u" and "us_active u" and "cr_verify cr (us_hash u) (bodyValue b ''password'')"
    and "createSession cr now sid tok (us_id u) d = Some d1"
  shows "snd (login cr now ip sid tok b d) = OkUser (us_id u)"
  using assms by (simp add: login_def Let_def)

text \<open>
  The patch handler checks and then updates, and another request can run in between: two
  administrators who disable each other at the same time both pass the check.
\<close>

lemma disable_admin_count:
  assumes inv: "users_inv d" and u: "find_user d i = Some u" "us_role u = PlatformAdmin" "us_active u"
    and off: "body_active body = Some False"
  shows "active_admins d = active_admins (patch_apply now ip a i body d) + 1"
proof -
  let ?P = "\<lambda>u. us_role u = PlatformAdmin \<and> us_active u"
  let ?g = "\<lambda>u. if us_id u = i then patch_fields body u else u"
  have gen: "distinct (map us_id us) \<Longrightarrow> length (filter ?P us) = length (filter ?P (map ?g us))
      + (if \<exists>u \<in> set us. us_id u = i \<and> ?P u then 1 else 0)" for us
    using off by (induction us) (auto simp: patch_fields_def)
  have "\<exists>u \<in> set (db_users d). us_id u = i \<and> ?P u" using find_user_Some [OF u(1)] u(2, 3) by blast
  with gen [of "db_users d"] inv show ?thesis
    using off by (simp add: users_inv_def active_admins_def patch_apply_unfold update_user_def delete_sessions_def
        record_audit_def)
qed

lemma patch_race:
  assumes inv: "users_inv d" and two: "active_admins d = 2" and ij: "i \<noteq> j" and off: "body_active body = Some False"
    and u: "find_user d i = Some u" "us_role u = PlatformAdmin" "us_active u"
    and v: "find_user d j = Some v" "us_role v = PlatformAdmin" "us_active v"
  shows "patch_check u j body d = None \<and> patch_check v i body d = None
    \<and> active_admins (patch_apply now ip v i body (patch_apply now ip' u j body d)) = 0"
proof -
  let ?d = "patch_apply now ip' u j body d"
  have ids: "us_id u = i" "us_id v = j" using find_user_Some [OF u(1)] find_user_Some [OF v(1)] by simp_all
  then have c: "patch_check u j body d = None" "patch_check v i body d = None"
    using two ij off u(1) v(1) by (simp_all add: patch_check_def Let_def)
  have "find_user (update_user j (patch_fields body) d) i = find_user d i"
    using find_user_update [of "patch_fields body" j d i] ij by simp
  then have "find_user ?d i = Some u" using off u(1) by (simp add: patch_apply_unfold)
  moreover have "users_inv ?d"
    using inv off by (simp add: patch_apply_unfold users_inv_def)
      (metis (no_types, lifting) inv patch_fields_simps update_user_inv(1) users_inv_def)
  ultimately have "active_admins ?d = active_admins (patch_apply now ip v i body ?d) + 1"
    using disable_admin_count off u(2, 3) by blast
  moreover have "active_admins d = active_admins ?d + 1"
    using disable_admin_count [OF inv v off] .
  ultimately show ?thesis using two c by simp
qed

lemma release_refused: "release_runtime slot d = None"
  by (simp add: release_runtime_def bool_text_def split: option.splits)

end
