(* ===== verification/Sample_Platform.thy ===== *)
theory Sample_Platform
  imports Platform_Laws
begin

text \<open>
  A small platform evaluated by the kernel: two administrators with login sessions, a user, and one
  slot each; and a database in which the third slot was released. The hash functions are concrete
  functions on strings.
\<close>

definition sample_crypto :: crypto where
  "sample_crypto = \<lparr>cr_hash = (\<lambda>p. CHR ''#'' # p), cr_verify = (\<lambda>h p. h = CHR ''#'' # p), cr_token = id\<rparr>"

definition sample_password :: string where
  "sample_password = ''Secret-12345''"

definition sample_user :: "string \<Rightarrow> role \<Rightarrow> bool \<Rightarrow> user" where
  "sample_user i r a =
     \<lparr>us_id = i, us_email = i @ ''@dps.io'', us_name = i, us_hash = CHR ''#'' # sample_password,
      us_role = r, us_active = a, us_mustChange = False, us_created = 1\<rparr>"

definition sample_login :: "string \<Rightarrow> string \<Rightarrow> login_session" where
  "sample_login sid i = \<lparr>ls_id = sid, ls_user = i, ls_tokenHash = ''t-'' @ i, ls_expires = 28900, ls_lastSeen = 100\<rparr>"

definition sample_runtime :: "string \<Rightarrow> nat \<Rightarrow> bool \<Rightarrow> user_runtime" where
  "sample_runtime i s r = \<lparr>ur_user = i, ur_slot = s, ur_released = r\<rparr>"

definition sample_db :: db where
  "sample_db =
     \<lparr>db_users = [sample_user ''a'' PlatformAdmin True, sample_user ''b'' PlatformAdmin True,
                  sample_user ''c'' PlainUser True],
      db_sessions = [sample_login ''s1'' ''a'', sample_login ''s2'' ''b'', sample_login ''s3'' ''c''],
      db_slots = [1, 2, 3],
      db_runtimes = [sample_runtime ''a'' 1 False, sample_runtime ''b'' 2 False, sample_runtime ''c'' 3 False],
      db_audit = []\<rparr>"

definition released_db :: db where
  "released_db = release_statement 3 sample_db"

lemmas sample_db_defs =
  sample_db_def sample_user_def sample_login_def sample_runtime_def released_db_def release_statement_def

lemma sample_db_inv: "platform_inv 100 sample_db"
  by (auto simp: sample_db_defs platform_inv_def users_inv_def sessions_inv_def runtimes_inv_def throttle_inv_def
      failed_logins_def active_admins_def find_user_def)

definition off_body :: json where
  "off_body = JObj [(''active'', JBool False)]"

definition password_body :: json where
  "password_body = JObj [(''email'', JStr ''c@dps.io''), (''password'', JStr sample_password)]"

text \<open>The first start of the service.\<close>

definition first_db :: db where
  "first_db = the (bootstrapAdmin sample_crypto 5 ''a'' ''a@dps.io'' sample_password (migratePlatform empty_db))"

lemma first_start:
  "bootstrapAdmin sample_crypto 5 ''a'' ''a@dps.io'' sample_password (migratePlatform empty_db) = Some first_db"
proof -
  have "bootstrapAdmin sample_crypto 5 ''a'' ''a@dps.io'' sample_password (migratePlatform empty_db) \<noteq> None"
    by code_simp
  then show ?thesis by (simp add: first_db_def)
qed

lemma first_reachable: "platform_reachable sample_crypto (5, first_db)"
  by (rule platform_reachable.start [OF first_start])

definition seen_db :: db where
  "seen_db = sample_db\<lparr>db_sessions := (sample_login ''s1'' ''a'')\<lparr>ls_lastSeen := 200\<rparr> # tl (db_sessions sample_db)\<rparr>"

lemma admin_token:
  "sessionForToken sample_crypto 200 (Some ''t-a'') sample_db
     = (seen_db, Some (sample_user ''a'' PlatformAdmin True, sample_login ''s1'' ''a''))"
  by (simp add: sessionForToken_def sample_crypto_def sample_db_defs SESSION_IDLE_def find_user_def seen_db_def)

lemma patch_off: "snd (patch_user sample_crypto 200 ''ip'' (Some ''t-a'') ''c'' off_body sample_db) = Ok200"
proof -
  have "patch_check (sample_user ''a'' PlatformAdmin True) ''c'' off_body seen_db = None"
    by (simp add: patch_check_def off_body_def body_active_def body_role_def find_user_def seen_db_def sample_db_defs)
  then show ?thesis by (simp add: patch_user_def requireAdmin_def admin_token sample_user_def)
qed

lemma password_fields:
  "email (bodyValue password_body ''email'') = Some ''c@dps.io''" "bodyValue password_body ''password'' = sample_password"
  "passwordError sample_password = None"
  by code_simp+

lemma reset_c: "snd (reset_password sample_crypto 200 ''ip'' (Some ''t-a'') ''c'' password_body sample_db) = Ok200"
proof -
  have "find_user seen_db ''c'' \<noteq> None" by (simp add: seen_db_def sample_db_defs find_user_def)
  then show ?thesis by (simp add: reset_password_def requireAdmin_def admin_token sample_user_def password_fields)
qed

lemma login_c: "snd (login sample_crypto 300 ''ip'' ''s9'' ''t9'' password_body sample_db) = OkUser ''c''"
  by (simp add: login_def password_fields user_by_email_def createSession_def insert_session_def
      sample_db_defs sample_crypto_def sample_password_def find_user_def Let_def)

lemma first_db_value:
  "first_db = \<lparr>db_users = [\<lparr>us_id = ''a'', us_email = ''a@dps.io'', us_name = ''platform administrator'',
        us_hash = CHR ''#'' # sample_password, us_role = PlatformAdmin, us_active = True, us_mustChange = False,
        us_created = 5\<rparr>],
      db_sessions = [], db_slots = [1, 2, 3], db_runtimes = [\<lparr>ur_user = ''a'', ur_slot = 1, ur_released = False\<rparr>],
      db_audit = [\<lparr>au_type = BootstrapAdminCreated, au_actor = Some ''a'', au_subject = Some ''a'', au_ip = None,
        au_email = None, au_time = 5\<rparr>]\<rparr>"
  by code_simp

definition first_login :: json where
  "first_login = JObj [(''email'', JStr ''a@dps.io''), (''password'', JStr sample_password)]"

lemma first_login_fields:
  "email (bodyValue first_login ''email'') = Some ''a@dps.io''" "bodyValue first_login ''password'' = sample_password"
  "sample_password \<noteq> []"
  by code_simp+

lemma logged_in_value:
  "db_users (fst (login sample_crypto 5 ''ip'' ''s1'' ''tok'' first_login first_db)) = db_users first_db"
  "db_runtimes (fst (login sample_crypto 5 ''ip'' ''s1'' ''tok'' first_login first_db)) = db_runtimes first_db"
  "db_sessions (fst (login sample_crypto 5 ''ip'' ''s1'' ''tok'' first_login first_db))
     = [\<lparr>ls_id = ''s1'', ls_user = ''a'', ls_tokenHash = ''tok'', ls_expires = 28805, ls_lastSeen = 5\<rparr>]"
  by (simp_all add: login_def first_login_fields first_db_value user_by_email_def createSession_def insert_session_def
      sample_crypto_def find_user_def Let_def SESSION_MAX_AGE_def)
definition logged_in_db :: db where
  "logged_in_db = fst (login sample_crypto 5 ''ip'' ''s1'' ''tok''
     first_login first_db)"

lemma logged_in_reachable: "platform_reachable sample_crypto (5, logged_in_db)"
proof (rule platform_reachable.step [OF first_reachable])
  let ?rq = "RqLogin ''ip'' ''s1'' ''tok'' first_login"
  obtain d' r where "platform_handle sample_crypto 5 ?rq first_db = (d', r)" by (cases "platform_handle sample_crypto 5 ?rq first_db")
  moreover from this have "d' = logged_in_db" by (auto simp: logged_in_db_def map_prod_def split: prod.splits)
  ultimately show "platform_step sample_crypto (5, first_db) (5, logged_in_db)"
    using platform_step.request by blast
qed

lemma logged_in_fields:
  "db_users logged_in_db = db_users first_db" "db_runtimes logged_in_db = db_runtimes first_db"
  "db_sessions logged_in_db
     = [\<lparr>ls_id = ''s1'', ls_user = ''a'', ls_tokenHash = ''tok'', ls_expires = 28805, ls_lastSeen = 5\<rparr>]"
  by (simp_all add: logged_in_db_def logged_in_value)

lemma logged_in_user: "find_user logged_in_db ''a'' = Some (hd (db_users first_db))" "us_active (hd (db_users first_db))"
  by (simp_all add: find_user_def logged_in_fields) (simp_all add: first_db_value)

lemma logged_in_token:
  "sessionForToken sample_crypto 5 (Some ''tok'') logged_in_db = (logged_in_db\<lparr>db_sessions :=
     [\<lparr>ls_id = ''s1'', ls_user = ''a'', ls_tokenHash = ''tok'', ls_expires = 28805, ls_lastSeen = 5\<rparr>]\<rparr>,
     Some (hd (db_users first_db), \<lparr>ls_id = ''s1'', ls_user = ''a'', ls_tokenHash = ''tok'', ls_expires = 28805, ls_lastSeen = 5\<rparr>))"
proof -
  have "cr_token sample_crypto t = t" for t by (simp add: sample_crypto_def)
  then show ?thesis
    by (simp add: sessionForToken_def logged_in_fields(3) logged_in_user SESSION_IDLE_def)
qed

lemma logged_in_slot: "runtime_slot logged_in_db ''a'' = Some 1" "binding logged_in_db 1 = Some ''a''"
  by (simp_all add: runtime_slot_def binding_def logged_in_fields) (simp_all add: first_db_value)

lemma logged_in_route:
  "snd (runtime_route sample_crypto 5 (Some ''tok'') ''GET'' ''/'' None logged_in_db) = ProxyTo 1"
  using logged_in_slot
  by (simp add: runtime_route_def logged_in_token first_db_value blockedRuntimeRequest_def runtimeOrigin_def Let_def)

definition gateway_call :: gateway_request where
  "gateway_call = \<lparr>gq_host = Some ''model-gateway-slot-01:4000'', gq_body = None, gq_id = ''e1'', gq_started = 1, gq_ended = 2\<rparr>"

lemma logged_in_gateway:
  "gateway_handle decode parse logged_in_db gateway_call FetchFailed
     = ([recordUsage gateway_call ''a'' 1 502 no_usage], BadGateway502)"
proof -
  have "slotForHost (gq_host gateway_call) = Some 1" by code_simp
  then show ?thesis using logged_in_slot by (simp add: gateway_handle_def)
qed

definition promote_body :: json where
  "promote_body = JObj [(''role'', JStr ''platform_admin'')]"

lemma promote_c:
  "standing (fst (patch_user sample_crypto 200 ''ip'' (Some ''t-a'') ''c'' promote_body sample_db)) \<noteq> standing sample_db"
proof -
  have "patch_check (sample_user ''a'' PlatformAdmin True) ''c'' promote_body seen_db = None"
    by (simp add: patch_check_def promote_body_def body_active_def body_role_def find_user_def seen_db_def sample_db_defs)
  then show ?thesis
    by (simp add: patch_user_def requireAdmin_def admin_token)
      (simp add: sample_db_defs seen_db_def standing_def patch_apply_def body_active_def body_role_def promote_body_def
        update_user_def record_audit_def)
qed

lemma locked_out_c:
  "snd (login sample_crypto 300 ''ip'' ''s9'' ''t9'' password_body
     (fst (patch_user sample_crypto 200 ''ip'' (Some ''t-a'') ''c'' off_body sample_db))) = Unauthorized"
proof -
  have "patch_check (sample_user ''a'' PlatformAdmin True) ''c'' off_body seen_db = None"
    by (simp add: patch_check_def off_body_def body_active_def body_role_def find_user_def seen_db_def sample_db_defs)
  then show ?thesis
    by (simp add: patch_user_def requireAdmin_def admin_token sample_user_def)
      (simp add: sample_db_defs seen_db_def patch_apply_def body_active_def body_role_def off_body_def
        update_user_def record_audit_def login_def password_fields user_by_email_def delete_sessions_def
        sample_password_def failed_logins_def Let_def)
qed

end
