(* ===== verification/Chunk_Rows.thy ===== *)
theory Chunk_Rows
  imports Json_Value
begin

text \<open>
  Lossless packing of streamed chunks for storage (packages/core/session/src/chunk-rows.ts): runs of
  consecutive delta chunks of one block become one row, and rows expand to the events they came
  from. Both sides work on parsed JSON values, so they are modelled on \<open>json\<close>. The shown law: what
  is decoded after packing is the packed batch, up to the order of object keys.
\<close>

section \<open>Classification\<close>

datatype delta_kind = TextDelta | ReasoningDelta | ToolCallDelta

datatype row_problem =
    BadNumbers | BadGaps | BadEnvelope | BadSeq | BadTime | BadIdentity | UnsafeSeqs | UnsafeTimes
  | DataNotObject | BadCallData | BadTextData | BadPayload string | GapCount nat nat

datatype row_error = MalformedRow string row_problem

text \<open>The diagnostics, in the code's words.\<close>

fun problem_text :: "row_problem \<Rightarrow> string" where
"problem_text BadNumbers = ''turn/step/index must be numbers''"
| "problem_text BadGaps = ''dt must be an array of safe integers''"
| "problem_text BadEnvelope = ''envelope must be exactly {type, seq0, time0, data}''"
| "problem_text BadSeq = ''seq0 must be a non-negative safe integer''"
| "problem_text BadTime = ''time0 must be a safe integer''"
| "problem_text BadIdentity = ''id (and name when present) must be strings''"
| "problem_text UnsafeSeqs = ''member seqs must stay safe integers''"
| "problem_text UnsafeTimes = ''member times must stay safe integers''"
| "problem_text DataNotObject = ''data must be an object''"
| "problem_text BadCallData = ''data must be exactly {turn, step, index, id, name?, dt, args}''"
| "problem_text BadTextData = ''data must be exactly {turn, step, index, dt, texts}''"
| "problem_text (BadPayload key) = key @ '' must be a non-empty string array''"
| "problem_text (GapCount g n) = ''dt length '' @ nat_string g @ '' does not match '' @ nat_string n @ '' members''"

fun malformed :: "row_error \<Rightarrow> string" where
  "malformed (MalformedRow tag p) = ''malformed '' @ tag @ '' storage row: '' @ problem_text p"

definition MIN_RUN :: nat where
  "MIN_RUN = 3"

text \<open>The property of a value, \<open>JNull\<close> when it is missing; only read where it is known to exist.\<close>

definition field :: "string \<Rightarrow> json \<Rightarrow> json" where
  "field k v = (case jget k v of Some x \<Rightarrow> x | None \<Rightarrow> JNull)"

definition hasExactKeys :: "json \<Rightarrow> string list \<Rightarrow> bool" where
  "hasExactKeys v ks = (length (jkeys v) = length ks \<and> list_all (\<lambda>k. k \<in> set (jkeys v)) ks)"

fun is_number :: "json option \<Rightarrow> bool" where
  "is_number (Some (JNum _)) = True" | "is_number _ = False"

fun is_string :: "json option \<Rightarrow> bool" where
  "is_string (Some (JStr _)) = True" | "is_string _ = False"

fun safe_int :: "json option \<Rightarrow> bool" where
  "safe_int (Some (JNum n)) = is_safe_integer n" | "safe_int _ = False"

text \<open>The integer of a safe-integer property.\<close>

fun json_int :: "json \<Rightarrow> int" where
  "json_int (JNum (JInt i)) = i" | "json_int _ = 0"

text \<open>\<open>isRecord\<close> of this module, an object or an array; no array has the keys asked for next.\<close>

definition chunk_of :: "json \<Rightarrow> json" where
  "chunk_of ev = field ''chunk'' (field ''data'' ev)"

fun is_object :: "json \<Rightarrow> bool" where
  "is_object (JObj _) = True" | "is_object (JArr _) = True" | "is_object _ = False"

definition classify_chunk :: "json \<Rightarrow> delta_kind option" where
  "classify_chunk chunk =
     (if \<not> is_number (jget ''index'' chunk) then None
      else if jget ''type'' chunk = Some (JStr ''text-delta'') then
        (if hasExactKeys chunk [''type'', ''index'', ''text''] \<and> is_string (jget ''text'' chunk)
         then Some TextDelta else None)
      else if jget ''type'' chunk = Some (JStr ''reasoning-delta'') then
        (if hasExactKeys chunk [''type'', ''index'', ''text''] \<and> is_string (jget ''text'' chunk)
         then Some ReasoningDelta else None)
      else if jget ''type'' chunk = Some (JStr ''tool-call-delta'') then
        (if (hasExactKeys chunk [''type'', ''index'', ''id'', ''argumentsDelta'']
             \<or> hasExactKeys chunk [''type'', ''index'', ''id'', ''name'', ''argumentsDelta'']
                \<and> is_string (jget ''name'' chunk))
            \<and> is_string (jget ''id'' chunk) \<and> is_string (jget ''argumentsDelta'' chunk)
         then Some ToolCallDelta else None)
      else None)"

definition classify :: "json \<Rightarrow> delta_kind option" where
  "classify ev =
     (if jget ''type'' ev \<noteq> Some (JStr ''assistant/chunk'') then None
      else if \<not> hasExactKeys ev [''type'', ''seq'', ''time'', ''data''] then None
      else if \<not> safe_int (jget ''seq'' ev) \<or> json_int (field ''seq'' ev) < 0 \<or> \<not> safe_int (jget ''time'' ev) then None
      else let data = field ''data'' ev in
        if \<not> hasExactKeys data [''turn'', ''step'', ''chunk''] then None
        else if \<not> is_number (jget ''turn'' data) \<or> \<not> is_number (jget ''step'' data) then None
        else classify_chunk (chunk_of ev))"

section \<open>Packing\<close>

definition seq_at :: "json \<Rightarrow> int" where "seq_at ev = json_int (field ''seq'' ev)"
definition time_at :: "json \<Rightarrow> int" where "time_at ev = json_int (field ''time'' ev)"

text \<open>
  The time difference is exact here. The code's comment shows that the rounded difference is a safe
  integer exactly when the true one is.
\<close>

definition continues :: "json \<Rightarrow> json \<Rightarrow> delta_kind \<Rightarrow> bool" where
  "continues prev nxt kind =
     (if seq_at nxt \<noteq> seq_at prev + 1 then False
      else if \<not> is_safe_integer (JInt (time_at nxt - time_at prev)) then False
      else if field ''turn'' (field ''data'' nxt) \<noteq> field ''turn'' (field ''data'' prev)
           \<or> field ''step'' (field ''data'' nxt) \<noteq> field ''step'' (field ''data'' prev) then False
      else if field ''index'' (chunk_of nxt) \<noteq> field ''index'' (chunk_of prev) then False
      else if kind \<noteq> ToolCallDelta then True
      else field ''id'' (chunk_of prev) = field ''id'' (chunk_of nxt)
           \<and> jget ''name'' (chunk_of prev) = jget ''name'' (chunk_of nxt))"

fun gaps :: "json list \<Rightarrow> int list" where
  "gaps (a # b # evs) = (time_at b - time_at a) # gaps (b # evs)"
| "gaps _ = []"

fun row_tag :: "delta_kind \<Rightarrow> string" where
  "row_tag TextDelta = ''text-chunks''"
| "row_tag ReasoningDelta = ''reasoning-chunks''"
| "row_tag ToolCallDelta = ''tool-call-chunks''"

fun payload_key :: "delta_kind \<Rightarrow> string" where
  "payload_key ToolCallDelta = ''argumentsDelta''" | "payload_key _ = ''text''"

definition int_json :: "int \<Rightarrow> json" where "int_json i = JNum (JInt i)"

definition opt_name :: "json \<Rightarrow> (string \<times> json) list" where
  "opt_name v = (case jget ''name'' v of Some n \<Rightarrow> [(''name'', n)] | None \<Rightarrow> [])"

definition row_data :: "delta_kind \<Rightarrow> json list \<Rightarrow> json" where
  "row_data kind run =
     (let first = hd run; data = field ''data'' first; chunk = chunk_of first;
          base = [(''turn'', field ''turn'' data), (''step'', field ''step'' data), (''index'', field ''index'' chunk),
                  (''dt'', JArr (map int_json (gaps run)))];
          members = JArr (map (\<lambda>ev. field (payload_key kind) (chunk_of ev)) run)
      in if kind = ToolCallDelta
         then JObj (base @ [(''id'', field ''id'' chunk)] @ opt_name chunk @ [(''args'', members)])
         else JObj (base @ [(''texts'', members)]))"

definition buildRow :: "delta_kind \<Rightarrow> json list \<Rightarrow> json" where
  "buildRow kind run =
     JObj [(''type'', JStr (row_tag kind)), (''seq0'', int_json (seq_at (hd run))),
           (''time0'', int_json (time_at (hd run))), (''data'', row_data kind run)]"

text \<open>The state of the loop: the records written, and the run that is open with its kind.\<close>

record pack_state =
  ps_out :: "json list"
  ps_kind :: "delta_kind option"
  ps_run :: "json list"

definition pack_flush :: "pack_state \<Rightarrow> pack_state" where
  "pack_flush st =
     (case ps_kind st of
        Some kind \<Rightarrow>
          if length (ps_run st) \<ge> MIN_RUN
          then \<lparr>ps_out = ps_out st @ [buildRow kind (ps_run st)], ps_kind = None, ps_run = []\<rparr>
          else \<lparr>ps_out = ps_out st @ ps_run st, ps_kind = None, ps_run = []\<rparr>
      | None \<Rightarrow> \<lparr>ps_out = ps_out st @ ps_run st, ps_kind = None, ps_run = []\<rparr>)"

definition pack_event :: "pack_state \<Rightarrow> json \<Rightarrow> pack_state" where
  "pack_event st ev =
     (case classify ev of
        None \<Rightarrow> (let st1 = pack_flush st in st1\<lparr>ps_out := ps_out st1 @ [ev]\<rparr>)
      | Some k \<Rightarrow>
          if ps_kind st = Some k \<and> ps_run st \<noteq> [] \<and> continues (last (ps_run st)) ev k
          then st\<lparr>ps_run := ps_run st @ [ev]\<rparr>
          else (pack_flush st)\<lparr>ps_kind := Some k, ps_run := [ev]\<rparr>)"

definition packChunkRuns :: "json list \<Rightarrow> json list" where
  "packChunkRuns evs =
     ps_out (pack_flush (foldl pack_event \<lparr>ps_out = [], ps_kind = None, ps_run = []\<rparr> evs))"

section \<open>Expanding\<close>

fun array_of :: "json option \<Rightarrow> json list option" where
  "array_of (Some (JArr xs)) = Some xs" | "array_of _ = None"

definition validateRunData :: "string \<Rightarrow> json \<Rightarrow> string \<Rightarrow> row_error + json list \<times> int list" where
  "validateRunData tag data payloadKey =
     bind_res (guard_res (is_number (jget ''turn'' data) \<and> is_number (jget ''step'' data)
                          \<and> is_number (jget ''index'' data)) (MalformedRow tag BadNumbers)) (\<lambda>_.
     case array_of (jget payloadKey data) of
       None \<Rightarrow> Inl (MalformedRow tag (BadPayload payloadKey))
     | Some payload \<Rightarrow>
         if payload = [] \<or> list_ex (\<lambda>p. \<not> is_string (Some p)) payload then Inl (MalformedRow tag (BadPayload payloadKey))
         else (case array_of (jget ''dt'' data) of
            None \<Rightarrow> Inl (MalformedRow tag BadGaps)
          | Some dt \<Rightarrow>
              if list_ex (\<lambda>g. \<not> safe_int (Some g)) dt then Inl (MalformedRow tag BadGaps)
              else if length dt \<noteq> length payload - 1 then Inl (MalformedRow tag (GapCount (length dt) (length payload)))
              else Inr (payload, map json_int dt)))"

text \<open>The running time of the members stays in the safe range.\<close>

fun times_safe :: "int \<Rightarrow> int list \<Rightarrow> bool" where
  "times_safe t [] = True"
| "times_safe t (g # gs) = (is_safe_integer (JInt (t + g)) \<and> times_safe (t + g) gs)"

definition row_kind :: "json \<Rightarrow> delta_kind option" where
  "row_kind v =
     (if jget ''type'' v = Some (JStr ''text-chunks'') then Some TextDelta
      else if jget ''type'' v = Some (JStr ''reasoning-chunks'') then Some ReasoningDelta
      else if jget ''type'' v = Some (JStr ''tool-call-chunks'') then Some ToolCallDelta
      else None)"

text \<open>The payload of a row of either shape.\<close>

definition validate_members :: "string \<Rightarrow> delta_kind \<Rightarrow> json \<Rightarrow> row_error + json list \<times> int list" where
  "validate_members tag kind data =
     (if kind = ToolCallDelta then
        let withName = hasExactKeys data [''turn'', ''step'', ''index'', ''id'', ''name'', ''dt'', ''args''] in
        if \<not> withName \<and> \<not> hasExactKeys data [''turn'', ''step'', ''index'', ''id'', ''dt'', ''args'']
        then Inl (MalformedRow tag BadCallData)
        else if \<not> is_string (jget ''id'' data) \<or> withName \<and> \<not> is_string (jget ''name'' data)
        then Inl (MalformedRow tag BadIdentity)
        else validateRunData tag data ''args''
      else if \<not> hasExactKeys data [''turn'', ''step'', ''index'', ''dt'', ''texts'']
      then Inl (MalformedRow tag BadTextData)
      else validateRunData tag data ''texts'')"

definition validateRow :: "json \<Rightarrow> delta_kind \<Rightarrow> row_error + json list \<times> int list" where
  "validateRow v kind =
     (let tag = row_tag kind; data = field ''data'' v in
      bind_res (guard_res (hasExactKeys v [''type'', ''seq0'', ''time0'', ''data'']) (MalformedRow tag BadEnvelope)) (\<lambda>_.
      bind_res (guard_res (safe_int (jget ''seq0'' v) \<and> 0 \<le> json_int (field ''seq0'' v)) (MalformedRow tag BadSeq)) (\<lambda>_.
      bind_res (guard_res (safe_int (jget ''time0'' v)) (MalformedRow tag BadTime)) (\<lambda>_.
      bind_res (guard_res (is_object data) (MalformedRow tag DataNotObject)) (\<lambda>_.
      bind_res (validate_members tag kind data) (\<lambda>(payload, dt).
      bind_res (guard_res (is_safe_integer (JInt (json_int (field ''seq0'' v) + int (length payload) - 1)))
                  (MalformedRow tag UnsafeSeqs)) (\<lambda>_.
      bind_res (guard_res (times_safe (json_int (field ''time0'' v)) dt) (MalformedRow tag UnsafeTimes)) (\<lambda>_.
        Inr (payload, dt)))))))))"

definition member_chunk :: "delta_kind \<Rightarrow> json \<Rightarrow> json \<Rightarrow> json" where
  "member_chunk kind data m =
     (case kind of
        TextDelta \<Rightarrow> JObj [(''type'', JStr ''text-delta''), (''index'', field ''index'' data), (''text'', m)]
      | ReasoningDelta \<Rightarrow> JObj [(''type'', JStr ''reasoning-delta''), (''index'', field ''index'' data), (''text'', m)]
      | ToolCallDelta \<Rightarrow>
          JObj ([(''type'', JStr ''tool-call-delta''), (''index'', field ''index'' data), (''id'', field ''id'' data)]
                @ opt_name data @ [(''argumentsDelta'', m)]))"

definition member_event :: "delta_kind \<Rightarrow> json \<Rightarrow> int \<Rightarrow> int \<Rightarrow> json \<Rightarrow> json" where
  "member_event kind data seq time m =
     JObj [(''type'', JStr ''assistant/chunk''), (''seq'', int_json seq), (''time'', int_json time),
           (''data'', JObj [(''turn'', field ''turn'' data), (''step'', field ''step'' data),
                          (''chunk'', member_chunk kind data m)])]"

text \<open>The loop over the members; a validated row has one gap between any two.\<close>

fun expand_members :: "delta_kind \<Rightarrow> json \<Rightarrow> int \<Rightarrow> int \<Rightarrow> json list \<Rightarrow> int list \<Rightarrow> json list" where
  "expand_members kind data seq time [] dts = []"
| "expand_members kind data seq time (m # ms) dts =
     member_event kind data seq time m #
     (case dts of [] \<Rightarrow> [] | d # ds \<Rightarrow> expand_members kind data (seq + 1) (time + d) ms ds)"

definition decodeStorageRecord :: "json \<Rightarrow> row_error + json list" where
  "decodeStorageRecord v =
     (case row_kind v of
        None \<Rightarrow> Inr [v]
      | Some kind \<Rightarrow>
          bind_res (validateRow v kind) (\<lambda>(payload, dt).
            Inr (expand_members kind (field ''data'' v) (json_int (field ''seq0'' v)) (json_int (field ''time0'' v))
                   payload dt)))"

text \<open>A stored log is decoded record by record.\<close>

fun decode_all :: "json list \<Rightarrow> row_error + json list" where
  "decode_all [] = Inr []"
| "decode_all (r # rs) =
     bind_res (decodeStorageRecord r) (\<lambda>xs. bind_res (decode_all rs) (\<lambda>ys. Inr (xs @ ys)))"

section \<open>One event is rebuilt\<close>

lemma exact_obj:
  assumes "hasExactKeys v ks" and "ks \<noteq> []"
  obtains bs where "v = JObj bs" "length bs = length ks" "\<forall>k \<in> set ks. map_of bs k = Some (field k v)"
proof -
  from assms obtain bs where v: "v = JObj bs" by (cases v) (auto simp: hasExactKeys_def)
  with assms have "\<forall>k \<in> set ks. k \<in> fst ` set bs" by (simp add: hasExactKeys_def list_all_iff)
  then have "\<forall>k \<in> set ks. map_of bs k = Some (field k v)"
    by (auto simp: v field_def map_of_eq_None_iff split: option.splits)
  with that v assms show thesis by (simp add: hasExactKeys_def)
qed

lemma is_number_field: "is_number (jget k v) \<Longrightarrow> \<exists>n. field k v = JNum n"
  by (cases "jget k v" rule: is_number.cases) (simp_all add: field_def)

lemma is_string_field: "is_string (jget k v) \<Longrightarrow> \<exists>s. field k v = JStr s \<and> jget k v = Some (JStr s)"
  by (cases "jget k v" rule: is_string.cases) (simp_all add: field_def)

lemma safe_int_field: "safe_int (jget k v) \<Longrightarrow> field k v = int_json (json_int (field k v)) \<and> is_safe_integer (JInt (json_int (field k v)))"
proof -
  assume a: "safe_int (jget k v)"
  then obtain n where n: "jget k v = Some (JNum n)" "is_safe_integer n" by (cases "jget k v" rule: safe_int.cases) auto
  then obtain i where "n = JInt i" by (cases n) auto
  with n show ?thesis by (simp add: field_def int_json_def)
qed

lemma classify_fields:
  assumes "classify ev = Some k"
  shows "jget ''type'' ev = Some (JStr ''assistant/chunk'')" "hasExactKeys ev [''type'', ''seq'', ''time'', ''data'']"
    "safe_int (jget ''seq'' ev)" "0 \<le> seq_at ev" "safe_int (jget ''time'' ev)"
    "hasExactKeys (field ''data'' ev) [''turn'', ''step'', ''chunk'']"
    "is_number (jget ''turn'' (field ''data'' ev))" "is_number (jget ''step'' (field ''data'' ev))"
    "classify_chunk (chunk_of ev) = Some k"
  using assms by (simp_all add: classify_def Let_def seq_at_def split: if_splits)

lemma classify_chunk_fields:
  assumes "classify_chunk c = Some k"
  shows "is_number (jget ''index'' c)" "is_string (jget (payload_key k) c)"
    "k = TextDelta \<Longrightarrow> jget ''type'' c = Some (JStr ''text-delta'') \<and> hasExactKeys c [''type'', ''index'', ''text'']"
    "k = ReasoningDelta \<Longrightarrow> jget ''type'' c = Some (JStr ''reasoning-delta'') \<and> hasExactKeys c [''type'', ''index'', ''text'']"
    "k = ToolCallDelta \<Longrightarrow> jget ''type'' c = Some (JStr ''tool-call-delta'') \<and> is_string (jget ''id'' c)
       \<and> (hasExactKeys c [''type'', ''index'', ''id'', ''argumentsDelta'']
          \<or> hasExactKeys c [''type'', ''index'', ''id'', ''name'', ''argumentsDelta''] \<and> is_string (jget ''name'' c))"
  using assms unfolding classify_chunk_def by (simp_all split: if_splits)

lemma exact_missing:
  assumes h: "hasExactKeys v ks" and d: "distinct ks" and n: "k \<notin> set ks"
  shows "jget k v = None"
proof -
  have "set ks \<subseteq> set (jkeys v)" "card (set (jkeys v)) \<le> card (set ks)"
    using h card_length [of "jkeys v"] distinct_card [OF d] by (auto simp: hasExactKeys_def list_all_iff)
  then have "set ks = set (jkeys v)" by (simp add: card_seteq)
  with n show ?thesis by (cases v) (auto simp: map_of_eq_None_iff)
qed

lemma four_keys_no_name:
  assumes "hasExactKeys c [''type'', ''index'', ''id'', ''argumentsDelta'']"
  shows "jget ''name'' c = None"
  using exact_missing [OF assms] by simp

text \<open>The fields of a row its members are rebuilt from.\<close>

definition same_source :: "json \<Rightarrow> json \<Rightarrow> bool" where
  "same_source d d' \<longleftrightarrow> field ''turn'' d = field ''turn'' d' \<and> field ''step'' d = field ''step'' d'
     \<and> field ''index'' d = field ''index'' d' \<and> field ''id'' d = field ''id'' d' \<and> jget ''name'' d = jget ''name'' d'"

lemma member_event_cong: "same_source d d' \<Longrightarrow> member_event k d s t m = member_event k d' s t m"
  by (cases k) (simp_all add: same_source_def member_event_def member_chunk_def opt_name_def)

lemma row_data_fields:
  "field ''turn'' (row_data k run) = field ''turn'' (field ''data'' (hd run))"
  "field ''step'' (row_data k run) = field ''step'' (field ''data'' (hd run))"
  "field ''index'' (row_data k run) = field ''index'' (chunk_of (hd run))"
  "k = ToolCallDelta \<Longrightarrow> field ''id'' (row_data k run) = field ''id'' (chunk_of (hd run))"
  "k = ToolCallDelta \<Longrightarrow> jget ''name'' (row_data k run) = jget ''name'' (chunk_of (hd run))"
  "k \<noteq> ToolCallDelta \<Longrightarrow> jget ''id'' (row_data k run) = None \<and> jget ''name'' (row_data k run) = None"
  by (auto simp: row_data_def field_def Let_def opt_name_def split: option.splits)

lemma row_data_no_id:
  "k \<noteq> ToolCallDelta \<Longrightarrow> field ''id'' (row_data k run) = JNull \<and> jget ''name'' (row_data k run) = None"
  using row_data_fields(6) [of k run] by (simp add: field_def)

definition rebuild :: "delta_kind \<Rightarrow> json \<Rightarrow> json" where
  "rebuild k ev = member_event k (row_data k [ev]) (seq_at ev) (time_at ev) (field (payload_key k) (chunk_of ev))"

lemma deep_string [simp]: "isDeepEqualJson (JStr s) (JStr s)" and deep_number [simp]: "isDeepEqualJson (JNum n) (JNum n)"
  by simp_all

lemma field_type: "jget ''type'' v = Some x \<Longrightarrow> field ''type'' v = x"
  by (simp add: field_def)

lemma rebuild_chunk:
  assumes c: "classify_chunk c = Some k" and d: "field ''index'' d = field ''index'' c"
    "k = ToolCallDelta \<longrightarrow> field ''id'' d = field ''id'' c \<and> jget ''name'' d = jget ''name'' c"
  shows "isDeepEqualJson (member_chunk k d (field (payload_key k) c)) c"
proof -
  note cf = classify_chunk_fields [OF c]
  obtain n where n: "field ''index'' c = JNum n" using is_number_field [OF cf(1)] by blast
  obtain p where p: "field (payload_key k) c = JStr p" using is_string_field [OF cf(2)] by blast
  show ?thesis
  proof (cases k)
    case TextDelta
    with cf(3) obtain bs where "c = JObj bs" "length bs = 3"
      "\<forall>key \<in> set [''type'', ''index'', ''text'']. map_of bs key = Some (field key c)" by (auto elim: exact_obj)
    moreover have "field ''type'' c = JStr ''text-delta''" using cf(3) TextDelta field_type by blast
    ultimately show ?thesis using TextDelta n p d(1) by (simp add: member_chunk_def)
  next
    case ReasoningDelta
    with cf(4) obtain bs where "c = JObj bs" "length bs = 3"
      "\<forall>key \<in> set [''type'', ''index'', ''text'']. map_of bs key = Some (field key c)" by (auto elim: exact_obj)
    moreover have "field ''type'' c = JStr ''reasoning-delta''" using cf(4) ReasoningDelta field_type by blast
    ultimately show ?thesis using ReasoningDelta n p d(1) by (simp add: member_chunk_def)
  next
    case ToolCallDelta
    have ty: "field ''type'' c = JStr ''tool-call-delta''" using cf(5) ToolCallDelta field_type by blast
    obtain i where i: "field ''id'' c = JStr i" using is_string_field cf(5) ToolCallDelta by blast
    have d': "field ''id'' d = JStr i" "jget ''name'' d = jget ''name'' c" using d(2) ToolCallDelta i by simp_all
    from cf(5) [OF ToolCallDelta] have "hasExactKeys c [''type'', ''index'', ''id'', ''argumentsDelta'']
      \<or> hasExactKeys c [''type'', ''index'', ''id'', ''name'', ''argumentsDelta''] \<and> is_string (jget ''name'' c)" by blast
    then show ?thesis
    proof
      assume e: "hasExactKeys c [''type'', ''index'', ''id'', ''argumentsDelta'']"
      then obtain bs where bs: "c = JObj bs" "length bs = 4"
        "\<forall>key \<in> set [''type'', ''index'', ''id'', ''argumentsDelta'']. map_of bs key = Some (field key c)" by (auto elim: exact_obj)
      with four_keys_no_name [OF e] ToolCallDelta n p d(1) d' i ty show ?thesis by (simp add: member_chunk_def opt_name_def)
    next
      assume e: "hasExactKeys c [''type'', ''index'', ''id'', ''name'', ''argumentsDelta''] \<and> is_string (jget ''name'' c)"
      then obtain bs where bs: "c = JObj bs" "length bs = 5"
        "\<forall>key \<in> set [''type'', ''index'', ''id'', ''name'', ''argumentsDelta'']. map_of bs key = Some (field key c)"
        by (auto elim: exact_obj)
      obtain nm where "jget ''name'' c = Some (JStr nm)" "field ''name'' c = JStr nm" using is_string_field e by blast
      with bs ToolCallDelta n p d(1) d' i ty show ?thesis by (simp add: member_chunk_def opt_name_def)
    qed
  qed
qed

lemma rebuild_event:
  assumes "classify ev = Some k"
  shows "isDeepEqualJson (rebuild k ev) ev"
proof -
  note cf = classify_fields [OF assms]
  from cf(2) obtain bs where bs: "ev = JObj bs" "length bs = 4"
    "\<forall>key \<in> set [''type'', ''seq'', ''time'', ''data'']. map_of bs key = Some (field key ev)" by (auto elim: exact_obj)
  from cf(6) obtain ds where ds: "field ''data'' ev = JObj ds" "length ds = 3"
    "\<forall>key \<in> set [''turn'', ''step'', ''chunk'']. map_of ds key = Some (field key (field ''data'' ev))" by (auto elim: exact_obj)
  obtain a b where ab: "field ''turn'' (field ''data'' ev) = JNum a" "field ''step'' (field ''data'' ev) = JNum b"
    using is_number_field cf(7, 8) by blast
  have st: "field ''seq'' ev = int_json (seq_at ev)" "field ''time'' ev = int_json (time_at ev)"
    using safe_int_field cf(3, 5) by (simp_all add: seq_at_def time_at_def)
  have "isDeepEqualJson (member_chunk k (row_data k [ev]) (field (payload_key k) (chunk_of ev))) (chunk_of ev)"
    by (rule rebuild_chunk [OF cf(9)]) (simp_all add: row_data_fields)
  then have "isDeepEqualJson (JObj [(''turn'', JNum a), (''step'', JNum b),
      (''chunk'', member_chunk k (row_data k [ev]) (field (payload_key k) (chunk_of ev)))]) (field ''data'' ev)"
    using ds ab by (simp add: chunk_of_def)
  then show ?thesis
    using bs st ab field_type [OF cf(1)]
    by (simp add: rebuild_def member_event_def row_data_fields int_json_def)
qed

section \<open>One row expands to its run\<close>

definition run_ok :: "delta_kind \<Rightarrow> json list \<Rightarrow> bool" where
  "run_ok k run \<longleftrightarrow> (\<forall>ev \<in> set run. classify ev = Some k) \<and> successively (\<lambda>a b. continues a b k) run"

lemma run_ok_Cons2: "run_ok k (a # b # run) \<longleftrightarrow> classify a = Some k \<and> continues a b k \<and> run_ok k (b # run)"
  by (auto simp: run_ok_def)

lemma continuesD:
  assumes "continues a b k"
  shows "seq_at b = seq_at a + 1" "is_safe_integer (JInt (time_at b - time_at a))" "same_source (row_data k [a]) (row_data k [b])"
proof -
  show "seq_at b = seq_at a + 1" "is_safe_integer (JInt (time_at b - time_at a))"
    using assms unfolding continues_def by (meson)+
  show "same_source (row_data k [a]) (row_data k [b])"
    using assms row_data_no_id unfolding continues_def same_source_def
    by (cases "k = ToolCallDelta") (simp_all add: row_data_fields split: if_splits)
qed

lemma run_source: "run_ok k run \<Longrightarrow> ev \<in> set run \<Longrightarrow> same_source (row_data k run) (row_data k [ev])"
proof (induction run arbitrary: ev)
  case Nil
  then show ?case by simp
next
  case (Cons a run)
  have hd: "same_source (row_data k (a # run)) (row_data k [a])"
    by (cases "k = ToolCallDelta") (simp_all add: same_source_def row_data_fields row_data_no_id)
  show ?case
  proof (cases "ev = a")
    case True
    with hd show ?thesis by simp
  next
    case False
    with Cons.prems obtain b rest where r: "run = b # rest" by (cases run) auto
    with Cons.prems have "continues a b k" "run_ok k run" by (simp_all add: run_ok_Cons2)
    moreover have "same_source (row_data k run) (row_data k [b])"
      using Cons.IH [OF \<open>run_ok k run\<close>, of b] r by simp
    moreover have "same_source (row_data k run) (row_data k [ev])"
      using Cons.IH [OF \<open>run_ok k run\<close>] Cons.prems False by simp
    ultimately show ?thesis using hd continuesD(3) [of a b k] by (simp add: same_source_def)
  qed
qed

lemma expand_run:
  "run_ok k run \<Longrightarrow> run \<noteq> [] \<Longrightarrow>
   expand_members k d (seq_at (hd run)) (time_at (hd run)) (map f run) (gaps run)
     = map (\<lambda>ev. member_event k d (seq_at ev) (time_at ev) (f ev)) run"
proof (induction run rule: gaps.induct)
  case (1 a b run)
  then have "continues a b k" "run_ok k (b # run)" by (simp_all add: run_ok_Cons2)
  with 1 continuesD(1) [of a b k] show ?case by simp
qed simp_all

lemma length_gaps [simp]: "length (gaps run) = length run - 1"
  by (induction run rule: gaps.induct) simp_all

lemma gaps_safe: "run_ok k run \<Longrightarrow> g \<in> set (gaps run) \<Longrightarrow> is_safe_integer (JInt g)"
  by (induction run rule: gaps.induct) (auto simp: run_ok_Cons2 dest: continuesD(2))

lemma classify_safe: "classify ev = Some k \<Longrightarrow> is_safe_integer (JInt (time_at ev)) \<and> is_safe_integer (JInt (seq_at ev))"
  using classify_fields(3, 5) [of ev k] safe_int_field by (simp add: time_at_def seq_at_def)

lemma times_safe_run: "run_ok k run \<Longrightarrow> run \<noteq> [] \<Longrightarrow> times_safe (time_at (hd run)) (gaps run)"
proof (induction run rule: gaps.induct)
  case (1 a b run)
  then have "run_ok k (b # run)" by (simp add: run_ok_Cons2)
  moreover from this have "classify b = Some k" by (simp add: run_ok_def)
  ultimately show ?case using 1 classify_safe [of b k] by (simp del: is_safe_integer.simps)
qed simp_all

lemma seq_last: "run_ok k run \<Longrightarrow> run \<noteq> [] \<Longrightarrow> seq_at (last run) = seq_at (hd run) + int (length run) - 1"
  by (induction run rule: gaps.induct) (auto simp: run_ok_Cons2 dest: continuesD(1))

definition members :: "delta_kind \<Rightarrow> json list \<Rightarrow> json list" where
  "members k run = map (\<lambda>ev. field (payload_key k) (chunk_of ev)) run"

lemma row_fields:
  "jget ''type'' (buildRow k run) = Some (JStr (row_tag k))"
  "jget ''seq0'' (buildRow k run) = Some (int_json (seq_at (hd run)))"
  "jget ''time0'' (buildRow k run) = Some (int_json (time_at (hd run)))"
  "field ''data'' (buildRow k run) = row_data k run"
  "hasExactKeys (buildRow k run) [''type'', ''seq0'', ''time0'', ''data'']"
  by (simp_all add: buildRow_def field_def hasExactKeys_def)

lemma row_anchor:
  "json_int (field ''seq0'' (buildRow k run)) = seq_at (hd run)"
  "json_int (field ''time0'' (buildRow k run)) = time_at (hd run)"
  by (simp_all add: buildRow_def field_def int_json_def)

lemma row_data_payload:
  "k = ToolCallDelta \<Longrightarrow> jget ''args'' (row_data k run) = Some (JArr (members k run))"
  "k \<noteq> ToolCallDelta \<Longrightarrow> jget ''texts'' (row_data k run) = Some (JArr (members k run))"
  "jget ''dt'' (row_data k run) = Some (JArr (map int_json (gaps run)))"
  "jget ''turn'' (row_data k run) = Some (field ''turn'' (field ''data'' (hd run)))"
  "jget ''step'' (row_data k run) = Some (field ''step'' (field ''data'' (hd run)))"
  "jget ''index'' (row_data k run) = Some (field ''index'' (chunk_of (hd run)))"
  by (auto simp: row_data_def Let_def opt_name_def members_def split: option.splits)

lemma row_data_keys:
  "k \<noteq> ToolCallDelta \<Longrightarrow> hasExactKeys (row_data k run) [''turn'', ''step'', ''index'', ''dt'', ''texts'']"
  "k = ToolCallDelta \<Longrightarrow> jget ''name'' (chunk_of (hd run)) = None \<Longrightarrow>
     hasExactKeys (row_data k run) [''turn'', ''step'', ''index'', ''id'', ''dt'', ''args'']
     \<and> \<not> hasExactKeys (row_data k run) [''turn'', ''step'', ''index'', ''id'', ''name'', ''dt'', ''args'']"
  "k = ToolCallDelta \<Longrightarrow> jget ''name'' (chunk_of (hd run)) = Some n \<Longrightarrow>
     hasExactKeys (row_data k run) [''turn'', ''step'', ''index'', ''id'', ''name'', ''dt'', ''args'']"
  by (simp_all add: row_data_def Let_def opt_name_def hasExactKeys_def)

lemma members_strings: "run_ok k run \<Longrightarrow> p \<in> set (members k run) \<Longrightarrow> is_string (Some p)"
proof -
  assume "run_ok k run" "p \<in> set (members k run)"
  then obtain ev where "classify ev = Some k" "p = field (payload_key k) (chunk_of ev)"
    by (auto simp: run_ok_def members_def)
  with is_string_field [OF classify_chunk_fields(2) [OF classify_fields(9)]] show ?thesis by fastforce
qed

lemma validate_run_data:
  assumes "run_ok k run" and "run \<noteq> []" and "jget key (row_data k run) = Some (JArr (members k run))"
  shows "validateRunData tag (row_data k run) key = Inr (members k run, gaps run)"
proof -
  let ?ev = "hd run"
  have c: "classify ?ev = Some k" using assms(1, 2) by (simp add: run_ok_def)
  obtain a b n where "field ''turn'' (field ''data'' ?ev) = JNum a" "field ''step'' (field ''data'' ?ev) = JNum b"
    "field ''index'' (chunk_of ?ev) = JNum n"
    using is_number_field classify_fields(7, 8) [OF c] classify_chunk_fields(1) [OF classify_fields(9) [OF c]] by metis
  moreover have "map json_int (map int_json (gaps run)) = gaps run"
    by (simp add: int_json_def comp_def)
  moreover have "\<not> list_ex (\<lambda>p. \<not> is_string (Some p)) (members k run)"
    using members_strings [OF assms(1)] by (auto simp: list_ex_iff)
  moreover have "\<not> list_ex (\<lambda>g. \<not> safe_int (Some g)) (map int_json (gaps run))"
    using gaps_safe [OF assms(1)] by (auto simp: list_ex_iff int_json_def simp del: is_safe_integer.simps)
  moreover have "members k run \<noteq> []" "length (members k run) = length run" using assms(2) by (simp_all add: members_def)
  ultimately show ?thesis
    by (simp add: validateRunData_def assms(3) row_data_payload)
qed

lemma validate_built_row:
  assumes ok: "run_ok k run" and ne: "run \<noteq> []"
  shows "validateRow (buildRow k run) k = Inr (members k run, gaps run)"
proof -
  let ?ev = "hd run"
  have c: "classify ?ev = Some k" and l: "classify (last run) = Some k" using ok ne by (simp_all add: run_ok_def)
  have fi: "field ''seq0'' (buildRow k run) = int_json (seq_at ?ev)" "field ''time0'' (buildRow k run) = int_json (time_at ?ev)"
    by (simp_all add: field_def row_fields)
  have safe: "is_safe_integer (JInt (seq_at ?ev))" "is_safe_integer (JInt (time_at ?ev))" "0 \<le> seq_at ?ev"
    "is_safe_integer (JInt (seq_at ?ev + int (length run) - 1))"
    using classify_safe [OF c] classify_safe [OF l] classify_fields(4) [OF c] seq_last [OF ok ne] by simp_all
  have data: "validate_members (row_tag k) k (row_data k run) = Inr (members k run, gaps run)"
  proof (cases "k = ToolCallDelta")
    case False
    with row_data_keys(1) [OF False] validate_run_data [OF ok ne row_data_payload(2) [OF False]] show ?thesis
      by (simp add: validate_members_def)
  next
    case True
    have cf: "is_string (jget ''id'' (chunk_of ?ev))"
      "jget ''name'' (chunk_of ?ev) = None \<or> is_string (jget ''name'' (chunk_of ?ev))"
      using classify_chunk_fields(5) [OF classify_fields(9) [OF c] True] four_keys_no_name by blast+
    have "jget ''id'' (row_data k run) = Some (field ''id'' (chunk_of ?ev))"
      by (simp add: row_data_def Let_def True)
    with cf(1) have "is_string (jget ''id'' (row_data k run))" using is_string_field by fastforce
    with cf(2) True row_data_keys(2, 3) [OF True, of run] row_data_fields(5) [OF True, of run]
      validate_run_data [OF ok ne row_data_payload(1) [OF True]]
    show ?thesis by (cases "jget ''name'' (chunk_of ?ev)") (simp_all add: Let_def validate_members_def)
  qed
  have len: "length (members k run) = length run" by (simp add: members_def)
  have obj: "is_object (row_data k run)" by (simp add: row_data_def Let_def)
  show ?thesis
    unfolding validateRow_def Let_def row_fields(4) data
    using safe times_safe_run [OF ok ne] c
    by (simp add: row_fields fi int_json_def len obj del: is_safe_integer.simps)
qed

lemma row_kind_built [simp]: "row_kind (buildRow k run) = Some k"
  by (cases k) (simp_all add: row_kind_def row_fields)

lemma decode_row:
  assumes ok: "run_ok k run" and ne: "run \<noteq> []"
  shows "\<exists>ds. decodeStorageRecord (buildRow k run) = Inr ds \<and> list_all2 isDeepEqualJson ds run"
proof -
  have "decodeStorageRecord (buildRow k run)
      = Inr (expand_members k (row_data k run) (seq_at (hd run)) (time_at (hd run)) (members k run) (gaps run))"
    using validate_built_row [OF ok ne] by (simp add: decodeStorageRecord_def row_fields row_anchor)
  also have "\<dots> = Inr (map (\<lambda>ev. member_event k (row_data k run) (seq_at ev) (time_at ev) (field (payload_key k) (chunk_of ev))) run)"
    unfolding members_def using expand_run [OF ok ne] by simp
  also have "\<dots> = Inr (map (rebuild k) run)"
    using run_source [OF ok] member_event_cong by (auto simp: rebuild_def)
  finally show ?thesis
    using ok rebuild_event by (auto simp: run_ok_def list_all2_conv_all_nth)
qed

section \<open>A packed batch decodes to itself\<close>

text \<open>No session event has the type of a row.\<close>

definition stands_for :: "json list \<Rightarrow> json list \<Rightarrow> bool" where
  "stands_for rows evs \<longleftrightarrow> (\<exists>ds. decode_all rows = Inr ds \<and> list_all2 isDeepEqualJson ds evs)"

lemma decode_all_append:
  "decode_all (xs @ ys) = bind_res (decode_all xs) (\<lambda>as. bind_res (decode_all ys) (\<lambda>bs. Inr (as @ bs)))"
  by (induction xs) (simp_all add: bind_res_assoc)

lemma stands_for_append: "stands_for xs as \<Longrightarrow> stands_for ys bs \<Longrightarrow> stands_for (xs @ ys) (as @ bs)"
  by (auto simp: stands_for_def decode_all_append intro: list_all2_appendI)

lemma stands_for_self:
  assumes "\<forall>ev \<in> set evs. json_wf ev \<and> row_kind ev = None"
  shows "stands_for evs evs"
  using assms
proof (induction evs)
  case Nil
  then show ?case by (simp add: stands_for_def)
next
  case (Cons ev evs)
  then have "stands_for [ev] [ev]"
    by (simp add: stands_for_def decodeStorageRecord_def isDeepEqualJson_refl)
  with Cons stands_for_append [of "[ev]" "[ev]" evs evs] show ?case by simp
qed

lemma stands_for_row: "run_ok k run \<Longrightarrow> run \<noteq> [] \<Longrightarrow> stands_for [buildRow k run] run"
  using decode_row [of k run] by (auto simp: stands_for_def)

definition pack_inv :: "pack_state \<Rightarrow> json list \<Rightarrow> bool" where
  "pack_inv st evs \<longleftrightarrow>
     (\<exists>done. stands_for (ps_out st) done \<and> evs = done @ ps_run st)
     \<and> (\<forall>ev \<in> set (ps_run st). json_wf ev \<and> row_kind ev = None)
     \<and> (ps_run st \<noteq> [] \<longrightarrow> (\<exists>k. ps_kind st = Some k \<and> run_ok k (ps_run st)))"

lemma flush_stands: "pack_inv st evs \<Longrightarrow> stands_for (ps_out (pack_flush st)) evs \<and> ps_run (pack_flush st) = []"
proof -
  assume inv: "pack_inv st evs"
  then obtain dn where dn: "stands_for (ps_out st) dn" "evs = dn @ ps_run st" by (auto simp: pack_inv_def)
  have verbatim: "stands_for (ps_out st @ ps_run st) evs"
    using stands_for_append [OF dn(1) stands_for_self [of "ps_run st"]] inv dn(2) by (simp add: pack_inv_def)
  show ?thesis
  proof (cases "ps_kind st")
    case None
    with verbatim show ?thesis by (simp add: pack_flush_def)
  next
    case (Some k)
    show ?thesis
    proof (cases "length (ps_run st) \<ge> MIN_RUN")
      case True
      then have ne: "ps_run st \<noteq> []" by (auto simp: MIN_RUN_def)
      with inv Some have "run_ok k (ps_run st)" by (auto simp: pack_inv_def)
      from stands_for_append [OF dn(1) stands_for_row [OF this ne]] dn(2) Some True
      show ?thesis by (simp add: pack_flush_def)
    next
      case False
      with Some verbatim show ?thesis by (simp add: pack_flush_def)
    qed
  qed
qed

lemma pack_event_inv:
  assumes inv: "pack_inv st evs" and ev: "json_wf ev" "row_kind ev = None"
  shows "pack_inv (pack_event st ev) (evs @ [ev])"
proof (cases "classify ev")
  case None
  have "stands_for (ps_out (pack_flush st) @ [ev]) (evs @ [ev])"
    using stands_for_append [OF conjunct1 [OF flush_stands [OF inv]] stands_for_self [of "[ev]"]] ev by simp
  then show ?thesis
    using None flush_stands [OF inv] by (simp add: pack_event_def pack_inv_def Let_def)
next
  case (Some k)
  show ?thesis
  proof (cases "ps_kind st = Some k \<and> ps_run st \<noteq> [] \<and> continues (last (ps_run st)) ev k")
    case True
    with inv have "run_ok k (ps_run st)" by (auto simp: pack_inv_def)
    with True Some have "run_ok k (ps_run st @ [ev])" by (auto simp: run_ok_def successively_append_iff)
    with True Some inv ev show ?thesis by (auto simp: pack_event_def pack_inv_def)
  next
    case False
    with Some have "pack_event st ev = (pack_flush st)\<lparr>ps_kind := Some k, ps_run := [ev]\<rparr>"
      by (simp only: pack_event_def option.case if_False)
    with flush_stands [OF inv] Some ev show ?thesis by (auto simp: pack_inv_def run_ok_def)
  qed
qed

lemma pack_stands_for:
  assumes "\<forall>ev \<in> set evs. json_wf ev \<and> row_kind ev = None"
  shows "stands_for (packChunkRuns evs) evs"
proof -
  let ?st0 = "\<lparr>ps_out = [], ps_kind = None, ps_run = []\<rparr>"
  have "pack_inv (foldl pack_event ?st0 evs) evs"
    using assms
  proof (induction evs rule: rev_induct)
    case Nil
    then show ?case by (simp add: pack_inv_def stands_for_def)
  next
    case (snoc ev evs)
    then show ?case using pack_event_inv [of "foldl pack_event ?st0 evs" evs ev] by simp
  qed
  from flush_stands [OF this] show ?thesis by (simp add: packChunkRuns_def)
qed

section \<open>What a decoded row can hold\<close>

lemma validateRunData_Inr:
  assumes "validateRunData tag data key = Inr (ps, dt)"
  shows "ps \<noteq> []" "length dt = length ps - 1" "\<forall>p \<in> set ps. \<exists>s. p = JStr s"
    "is_number (jget ''turn'' data)" "is_number (jget ''step'' data)" "is_number (jget ''index'' data)"
proof -
  have str: "is_string (Some p) \<Longrightarrow> \<exists>s. p = JStr s" for p by (cases p) auto
  show "ps \<noteq> []" "length dt = length ps - 1" "\<forall>p \<in> set ps. \<exists>s. p = JStr s"
    "is_number (jget ''turn'' data)" "is_number (jget ''step'' data)" "is_number (jget ''index'' data)"
    using assms str
    by (auto simp: validateRunData_def bind_res_Inr_iff list_ex_iff split: option.splits if_splits)
qed

lemma validateRow_Inr:
  assumes "validateRow v k = Inr (ps, dt)"
  shows "ps \<noteq> []" "length dt = length ps - 1" "\<forall>p \<in> set ps. \<exists>s. p = JStr s"
    "is_number (jget ''turn'' (field ''data'' v))" "is_number (jget ''step'' (field ''data'' v))"
    "is_number (jget ''index'' (field ''data'' v))"
    "k = ToolCallDelta \<Longrightarrow> is_string (jget ''id'' (field ''data'' v))
       \<and> (jget ''name'' (field ''data'' v) = None \<or> is_string (jget ''name'' (field ''data'' v)))"
    "0 \<le> json_int (field ''seq0'' v)"
    "is_safe_integer (JInt (json_int (field ''seq0'' v) + int (length ps) - 1))"
    "is_safe_integer (JInt (json_int (field ''time0'' v)))" "times_safe (json_int (field ''time0'' v)) dt"
proof -
  from assms have m: "validate_members (row_tag k) k (field ''data'' v) = Inr (ps, dt)"
    and s: "safe_int (jget ''time0'' v)" "0 \<le> json_int (field ''seq0'' v)"
      "is_safe_integer (JInt (json_int (field ''seq0'' v) + int (length ps) - 1))" "times_safe (json_int (field ''time0'' v)) dt"
    by (auto simp: validateRow_def Let_def bind_res_Inr_iff simp del: is_safe_integer.simps)
  from m obtain tag key where d: "validateRunData tag (field ''data'' v) key = Inr (ps, dt)"
    by (auto simp: validate_members_def Let_def split: if_splits)
  show "ps \<noteq> []" "length dt = length ps - 1" "\<forall>p \<in> set ps. \<exists>s. p = JStr s"
    "is_number (jget ''turn'' (field ''data'' v))" "is_number (jget ''step'' (field ''data'' v))"
    "is_number (jget ''index'' (field ''data'' v))"
    using validateRunData_Inr [OF d] by blast+
  show "0 \<le> json_int (field ''seq0'' v)" "times_safe (json_int (field ''time0'' v)) dt"
    "is_safe_integer (JInt (json_int (field ''seq0'' v) + int (length ps) - 1))"
    using s by blast+
  show "is_safe_integer (JInt (json_int (field ''time0'' v)))" using safe_int_field [OF s(1)] by blast
  show "is_string (jget ''id'' (field ''data'' v))
       \<and> (jget ''name'' (field ''data'' v) = None \<or> is_string (jget ''name'' (field ''data'' v)))" if k: "k = ToolCallDelta"
  proof -
    let ?d = "field ''data'' v"
    have six: "jget ''name'' ?d = None" if "hasExactKeys ?d [''turn'', ''step'', ''index'', ''id'', ''dt'', ''args'']"
      using exact_missing [OF that] by simp
    from m k have "is_string (jget ''id'' ?d)"
      "hasExactKeys ?d [''turn'', ''step'', ''index'', ''id'', ''name'', ''dt'', ''args''] \<and> is_string (jget ''name'' ?d)
       \<or> hasExactKeys ?d [''turn'', ''step'', ''index'', ''id'', ''dt'', ''args'']"
      by (auto simp: validate_members_def Let_def split: if_splits)
    with six show ?thesis by blast
  qed
qed

lemma classify_member:
  assumes "is_number (jget ''turn'' d)" "is_number (jget ''step'' d)" "is_number (jget ''index'' d)"
    and "k = ToolCallDelta \<Longrightarrow> is_string (jget ''id'' d) \<and> (jget ''name'' d = None \<or> is_string (jget ''name'' d))"
    and "0 \<le> s" "is_safe_integer (JInt s)" "is_safe_integer (JInt t)" "m = JStr x"
  shows "classify (member_event k d s t m) = Some k"
proof -
  obtain a b n where f: "field ''turn'' d = JNum a" "field ''step'' d = JNum b" "field ''index'' d = JNum n"
    using is_number_field assms(1-3) by metis
  have c: "classify_chunk (member_chunk k d m) = Some k"
  proof (cases k)
    case ToolCallDelta
    obtain i where i: "field ''id'' d = JStr i" using is_string_field assms(4) ToolCallDelta by blast
    show ?thesis
    proof (cases "jget ''name'' d")
      case None
      with ToolCallDelta f i assms(8) show ?thesis
        by (simp add: member_chunk_def classify_chunk_def opt_name_def hasExactKeys_def)
    next
      case (Some w)
      with assms(4) ToolCallDelta obtain nm where "w = JStr nm" using is_string_field by fastforce
      with Some ToolCallDelta f i assms(8) show ?thesis
        by (simp add: member_chunk_def classify_chunk_def opt_name_def hasExactKeys_def)
    qed
  qed (simp_all add: member_chunk_def classify_chunk_def hasExactKeys_def f assms(8))
  show ?thesis
    using c f assms(5-7)
    by (simp add: classify_def member_event_def field_def hasExactKeys_def int_json_def chunk_of_def Let_def
        del: is_safe_integer.simps)
qed

lemma expand_members_classified:
  assumes "length dt = length ms - 1" "times_safe t dt" "is_safe_integer (JInt t)" "0 \<le> s"
    and "is_safe_integer (JInt (s + int (length ms) - 1))" "\<forall>m \<in> set ms. \<exists>x. m = JStr x"
    and d: "is_number (jget ''turn'' d)" "is_number (jget ''step'' d)" "is_number (jget ''index'' d)"
      "k = ToolCallDelta \<Longrightarrow> is_string (jget ''id'' d) \<and> (jget ''name'' d = None \<or> is_string (jget ''name'' d))"
  shows "(\<forall>ev \<in> set (expand_members k d s t ms dt). classify ev = Some k)
     \<and> map seq_at (expand_members k d s t ms dt) = map (\<lambda>i. s + int i) [0..<length ms]"
  using assms(1-6)
proof (induction ms arbitrary: s t dt)
  case Nil
  then show ?case by simp
next
  case (Cons m ms)
  have sq: "seq_at (member_event k d s t m) = s" by (simp add: member_event_def seq_at_def field_def int_json_def)
  have "is_safe_integer (JInt s)" using Cons.prems(4, 5) by simp
  then have c: "classify (member_event k d s t m) = Some k"
    using classify_member [OF d, of k s t m] Cons.prems by auto
  have idx: "map (\<lambda>i. s + int i) [0..<length (m # ms)] = s # map (\<lambda>i. s + 1 + int i) [0..<length ms]"
    by (simp add: upt_conv_Cons map_Suc_upt [symmetric] del: upt_Suc)
  show ?case
  proof (cases dt)
    case Nil
    with Cons.prems(1) have "ms = []" by simp
    with c sq Nil show ?thesis by simp
  next
    case (Cons g gs)
    have "length gs = length ms - 1" "times_safe (t + g) gs" "is_safe_integer (JInt (t + g))" "0 \<le> s + 1"
      "is_safe_integer (JInt (s + 1 + int (length ms) - 1))" "\<forall>m \<in> set ms. \<exists>x. m = JStr x"
      using Cons.prems Cons by (auto simp del: is_safe_integer.simps simp: algebra_simps)
    from Cons.IH [OF this] c sq idx Cons show ?thesis by simp
  qed
qed

lemma decode_row_image:
  assumes "decodeStorageRecord v = Inr evs" and "row_kind v = Some k"
  shows "evs \<noteq> [] \<and> (\<forall>ev \<in> set evs. classify ev = Some k)
     \<and> map seq_at evs = map (\<lambda>i. json_int (field ''seq0'' v) + int i) [0..<length evs]"
proof -
  from assms obtain ps dt where r: "validateRow v k = Inr (ps, dt)"
    and e: "evs = expand_members k (field ''data'' v) (json_int (field ''seq0'' v)) (json_int (field ''time0'' v)) ps dt"
    by (auto simp: decodeStorageRecord_def bind_res_Inr_iff)
  note i = validateRow_Inr [OF r]
  from expand_members_classified [OF i(2, 11, 10, 8, 9, 3) i(4, 5, 6, 7)]
  have a: "(\<forall>ev \<in> set evs. classify ev = Some k)
    \<and> map seq_at evs = map (\<lambda>i. json_int (field ''seq0'' v) + int i) [0..<length ps]" unfolding e .
  then have "length evs = length ps" by (metis length_map length_upt minus_nat.diff_0)
  with a i(1) show ?thesis by auto
qed

end
