(* ===== verification/Output_Retention.thy ===== *)
theory Output_Retention
  imports Json_Value "HOL-Library.Word"
begin

text \<open>
  Bounded output (packages/util/output-retention/src/index.ts): the item retainer keeps the first
  items, the text retainer a prefix and a suffix of a byte stream, cut at UTF-8 boundaries. Bytes are
  \<open>8 word\<close>; the decoder of the runtime is a parameter, and a string chunk is its encoded bytes.
\<close>

unbundle bit_operations_syntax

type_synonym bytes = "8 word list"

datatype omitted = OmittedNone | OmittedExact nat | OmittedUnknown

record push_decision =
  pd_kept :: bool
  pd_truncated :: bool

section \<open>Items\<close>

record 'a retained_items =
  ri_items :: "'a list"
  ri_truncated :: bool
  ri_seen :: nat
  ri_kept :: nat
  ri_omitted :: omitted

definition assertBudget :: "jsnum \<Rightarrow> string \<Rightarrow> string + nat" where
  "assertBudget v name =
     (case v of
        JInt i \<Rightarrow> if i < 0 then Inl name else Inr (nat i)
      | JFrac _ \<Rightarrow> Inl name)"

record 'a item_retainer =
  ir_maxItems :: nat
  ir_items :: "'a list"
  ir_seen :: nat
  ir_omittedCount :: nat

definition newItemRetainer :: "jsnum \<Rightarrow> string + 'a item_retainer" where
  "newItemRetainer maxItems =
     bind_res (assertBudget maxItems ''maxItems'') (\<lambda>n.
       Inr \<lparr>ir_maxItems = n, ir_items = [], ir_seen = 0, ir_omittedCount = 0\<rparr>)"

definition item_push :: "'a item_retainer \<Rightarrow> 'a \<Rightarrow> 'a item_retainer \<times> push_decision" where
  "item_push r item =
     (let r1 = r\<lparr>ir_seen := ir_seen r + 1\<rparr> in
      if length (ir_items r1) < ir_maxItems r1
      then (r1\<lparr>ir_items := ir_items r1 @ [item]\<rparr>, \<lparr>pd_kept = True, pd_truncated = False\<rparr>)
      else (r1\<lparr>ir_omittedCount := ir_omittedCount r1 + 1\<rparr>, \<lparr>pd_kept = False, pd_truncated = True\<rparr>))"

definition item_finish :: "'a item_retainer \<Rightarrow> 'a retained_items" where
  "item_finish r =
     (let truncated = ir_omittedCount r > 0 in
      \<lparr>ri_items = ir_items r, ri_truncated = truncated, ri_seen = ir_seen r, ri_kept = length (ir_items r),
       ri_omitted = (if truncated then OmittedExact (ir_omittedCount r) else OmittedNone)\<rparr>)"

section \<open>UTF-8 boundaries\<close>

definition continuation :: "8 word \<Rightarrow> bool" where
  "continuation b \<longleftrightarrow> b AND 0xC0 = 0x80"

text \<open>The loop of \<open>trimTrailingPartialUtf8\<close>; its index is one less, so that 0 stands for -1.\<close>

fun scan_back :: "bytes \<Rightarrow> nat \<Rightarrow> nat" where
  "scan_back bs 0 = 0"
| "scan_back bs (Suc i) = (if continuation (bs ! i) \<and> length bs - i \<le> 3 then scan_back bs i else Suc i)"

definition expected_length :: "8 word \<Rightarrow> nat" where
  "expected_length lead =
     (if lead < 0x80 then 1 else if lead < 0xE0 then 2 else if lead < 0xF0 then 3 else if lead < 0xF8 then 4 else 0)"

definition trimTrailingPartialUtf8 :: "bytes \<Rightarrow> bytes" where
  "trimTrailingPartialUtf8 bs =
     (case scan_back bs (length bs) of
        0 \<Rightarrow> bs
      | Suc i \<Rightarrow>
          let expected = expected_length (bs ! i) in
          if expected = 0 then bs
          else if length bs - i < expected then take i bs else bs)"

definition trimLeadingContinuationUtf8 :: "bytes \<Rightarrow> bytes" where
  "trimLeadingContinuationUtf8 bs = dropWhile continuation bs"

section \<open>Text\<close>

datatype text_strategy = HeadText jsnum | TailText jsnum | HeadTail jsnum jsnum

record text_retainer =
  xr_prefixCap :: nat
  xr_suffixCap :: nat
  xr_prefixChunks :: "bytes list"
  xr_prefixHeld :: nat
  xr_suffixChunks :: "bytes list"
  xr_suffixHeld :: nat
  xr_total :: nat

record retained_text =
  rt_text :: string
  rt_truncated :: bool
  rt_omittedBytes :: omitted

definition fresh_retainer :: "nat \<Rightarrow> nat \<Rightarrow> text_retainer" where
  "fresh_retainer p s =
     \<lparr>xr_prefixCap = p, xr_suffixCap = s, xr_prefixChunks = [], xr_prefixHeld = 0,
      xr_suffixChunks = [], xr_suffixHeld = 0, xr_total = 0\<rparr>"

definition newTextRetainer :: "text_strategy \<Rightarrow> string + text_retainer" where
  "newTextRetainer strategy =
     (case strategy of
        HeadText n \<Rightarrow> bind_res (assertBudget n ''maxBytes'') (\<lambda>p. Inr (fresh_retainer p 0))
      | TailText n \<Rightarrow> bind_res (assertBudget n ''maxBytes'') (\<lambda>s. Inr (fresh_retainer 0 s))
      | HeadTail h t \<Rightarrow>
          bind_res (assertBudget h ''headBytes'') (\<lambda>p.
          bind_res (assertBudget t ''tailBytes'') (\<lambda>s. Inr (fresh_retainer p s))))"

definition omittedAt :: "text_retainer \<Rightarrow> nat \<Rightarrow> nat" where
  "omittedAt r seen =
     (let prefixLen = min seen (xr_prefixCap r); suffixLen = min (seen - prefixLen) (xr_suffixCap r)
      in seen - prefixLen - suffixLen)"

text \<open>Whole leading chunks that slid out of the window are dropped.\<close>

fun slide :: "nat \<Rightarrow> nat \<Rightarrow> bytes list \<Rightarrow> bytes list \<times> nat" where
  "slide cap held [] = ([], held)"
| "slide cap held (c # cs) = (if cap \<le> held - length c then slide cap (held - length c) cs else (c # cs, held))"

definition push_prefix :: "text_retainer \<Rightarrow> bytes \<Rightarrow> text_retainer" where
  "push_prefix r bs =
     (let room = xr_prefixCap r - xr_prefixHeld r; took = min room (length bs) in
      if took > 0 then r\<lparr>xr_prefixChunks := xr_prefixChunks r @ [take took bs], xr_prefixHeld := xr_prefixHeld r + took\<rparr>
      else r)"

definition push_suffix :: "text_retainer \<Rightarrow> bytes \<Rightarrow> text_retainer" where
  "push_suffix r bs =
     (if xr_suffixCap r > 0 then
        (case slide (xr_suffixCap r) (xr_suffixHeld r + length bs) (xr_suffixChunks r @ [bs]) of
           ([], held) \<Rightarrow> r\<lparr>xr_suffixChunks := [], xr_suffixHeld := held\<rparr>
         | (c # rest, held) \<Rightarrow>
             if xr_suffixCap r < held
             then r\<lparr>xr_suffixChunks := drop (held - xr_suffixCap r) c # rest, xr_suffixHeld := xr_suffixCap r\<rparr>
             else r\<lparr>xr_suffixChunks := c # rest, xr_suffixHeld := held\<rparr>)
      else r)"

definition text_push :: "text_retainer \<Rightarrow> bytes \<Rightarrow> text_retainer \<times> push_decision" where
  "text_push r bs =
     (let before = xr_total r; seen = before + length bs;
          r3 = push_suffix (push_prefix (r\<lparr>xr_total := seen\<rparr>) bs) bs
      in (r3, \<lparr>pd_kept = (\<not> omittedAt r before < omittedAt r seen), pd_truncated = (omittedAt r seen > 0)\<rparr>))"

text \<open>The bytes kept on each side, and the result.\<close>

definition kept_sides :: "text_retainer \<Rightarrow> bytes \<times> bytes" where
  "kept_sides r =
     (let prefixLen = min (xr_total r) (xr_prefixCap r);
          suffixLen = min (xr_total r - prefixLen) (xr_suffixCap r);
          pre = concat (xr_prefixChunks r);
          suf = drop (xr_suffixHeld r - suffixLen) (concat (xr_suffixChunks r))
      in if omittedAt r (xr_total r) > 0 then (trimTrailingPartialUtf8 pre, trimLeadingContinuationUtf8 suf)
         else (pre, suf))"

definition text_finish :: "(bytes \<Rightarrow> string) \<Rightarrow> text_retainer \<Rightarrow> retained_text" where
  "text_finish decode r =
     (let (pre, suf) = kept_sides r;
          omitted = xr_total r - length pre - length suf;
          truncated = omitted > 0
      in \<lparr>rt_text = (if omittedAt r (xr_total r) > 0 then decode pre @ decode suf else decode (pre @ suf)),
          rt_truncated = truncated,
          rt_omittedBytes = (if truncated then OmittedExact omitted else OmittedNone)\<rparr>)"

definition push_all :: "text_retainer \<Rightarrow> bytes list \<Rightarrow> text_retainer" where
  "push_all r chunks = foldl (\<lambda>r c. fst (text_push r c)) r chunks"

section \<open>Notices\<close>

definition describeOmitted :: "omitted \<Rightarrow> string \<Rightarrow> string" where
  "describeOmitted om unit_name =
     (case om of
        OmittedNone \<Rightarrow> []
      | OmittedExact n \<Rightarrow> ''Omitted '' @ nat_string n @ '' '' @ unit_name @ ''.''
      | OmittedUnknown \<Rightarrow> ''More '' @ unit_name @ '' were omitted.'')"

definition formatRetentionNotice :: "omitted \<Rightarrow> string \<Rightarrow> string \<Rightarrow> string" where
  "formatRetentionNotice om unit_name recovery =
     (let parts = filter (\<lambda>p. length p > 0) [describeOmitted om unit_name, recovery] in
      case parts of [] \<Rightarrow> [] | [p] \<Rightarrow> p | p # q # _ \<Rightarrow> p @ '' '' @ q)"

section \<open>The accumulator holds the two ends\<close>

definition retainer_inv :: "text_retainer \<Rightarrow> bytes \<Rightarrow> bool" where
  "retainer_inv r bs \<longleftrightarrow>
     xr_total r = length bs
     \<and> concat (xr_prefixChunks r) = take (xr_prefixCap r) bs
     \<and> xr_prefixHeld r = length (concat (xr_prefixChunks r))
     \<and> xr_suffixHeld r = length (concat (xr_suffixChunks r))
     \<and> concat (xr_suffixChunks r) = drop (length bs - xr_suffixCap r) bs"

lemma slide_spec:
  assumes "held = length (concat cs)" and "slide cap held cs = (ds, h)"
  shows "h = length (concat ds) \<and> (\<exists>es. concat cs = es @ concat ds) \<and> min cap (length (concat cs)) \<le> h
     \<and> (ds = [] \<or> h - length (hd ds) < cap)"
  using assms
proof (induction cap held cs arbitrary: ds h rule: slide.induct)
  case (1 cap held)
  then show ?case by simp
next
  case (2 cap held c cs)
  show ?case
  proof (cases "cap \<le> held - length c")
    case True
    have l: "held - length c = length (concat cs)" and s: "slide cap (held - length c) cs = (ds, h)"
      using 2(2, 3) True by simp_all
    from 2(1) [OF True l s] obtain es where ih: "h = length (concat ds)" "concat cs = es @ concat ds"
      "min cap (length (concat cs)) \<le> h" "ds = [] \<or> h - length (hd ds) < cap" by blast
    have "min cap (length (concat (c # cs))) \<le> h" using ih(3) True l by simp
    moreover have "concat (c # cs) = (c @ es) @ concat ds" using ih(2) by simp
    ultimately show ?thesis using ih(1, 4) by blast
  next
    case False
    with 2(2, 3) show ?thesis by auto
  qed
qed

lemma suffix_of: "xs = es @ ys \<Longrightarrow> ys = drop (length xs - length ys) xs"
  by simp

lemma drop_tail_append:
  "drop (length bs - n) bs @ c = drop (length (bs @ c) - (min n (length bs) + length c)) (bs @ c)"
  by (simp add: min_def)

lemma drop_last: "n \<le> m \<Longrightarrow> drop (length (drop (length xs - m) xs) - n) (drop (length xs - m) xs) = drop (length xs - n) xs"
  by (cases "m \<le> length xs") (simp_all add: add.commute)

lemma push_prefix_spec:
  assumes "concat (xr_prefixChunks r) = take (xr_prefixCap r) bs" and "xr_prefixHeld r = length (concat (xr_prefixChunks r))"
  shows "concat (xr_prefixChunks (push_prefix r c)) = take (xr_prefixCap r) (bs @ c)"
    "xr_prefixHeld (push_prefix r c) = length (concat (xr_prefixChunks (push_prefix r c)))"
    "xr_prefixCap (push_prefix r c) = xr_prefixCap r" "xr_suffixCap (push_prefix r c) = xr_suffixCap r"
    "xr_suffixChunks (push_prefix r c) = xr_suffixChunks r" "xr_suffixHeld (push_prefix r c) = xr_suffixHeld r"
    "xr_total (push_prefix r c) = xr_total r"
proof -
  have held: "xr_prefixHeld r = min (xr_prefixCap r) (length bs)" using assms by (simp add: min.commute)
  have tk: "take (min (xr_prefixCap r - xr_prefixHeld r) (length c)) c = take (xr_prefixCap r - length bs) c"
    unfolding held by (cases "xr_prefixCap r \<le> length bs") (simp_all add: min_def)
  show "concat (xr_prefixChunks (push_prefix r c)) = take (xr_prefixCap r) (bs @ c)"
  proof (cases "min (xr_prefixCap r - xr_prefixHeld r) (length c) > 0")
    case True
    then show ?thesis using assms(1) tk by (simp add: push_prefix_def Let_def)
  next
    case False
    then have "take (xr_prefixCap r - length bs) c = []" using tk by auto
    with False assms(1) show ?thesis by (simp add: push_prefix_def Let_def)
  qed
  show "xr_prefixHeld (push_prefix r c) = length (concat (xr_prefixChunks (push_prefix r c)))"
    using assms(2) by (simp add: push_prefix_def Let_def min_def)
qed (simp_all add: push_prefix_def Let_def)

lemma push_suffix_simps [simp]:
  "xr_prefixCap (push_suffix r c) = xr_prefixCap r" "xr_suffixCap (push_suffix r c) = xr_suffixCap r"
  "xr_prefixChunks (push_suffix r c) = xr_prefixChunks r" "xr_prefixHeld (push_suffix r c) = xr_prefixHeld r"
  "xr_total (push_suffix r c) = xr_total r"
  by (simp_all add: push_suffix_def split: prod.splits list.splits)

lemma push_suffix_spec:
  assumes held: "xr_suffixHeld r = length (concat (xr_suffixChunks r))"
    and win: "concat (xr_suffixChunks r) = drop (length bs - xr_suffixCap r) bs"
  shows "concat (xr_suffixChunks (push_suffix r c)) = drop (length (bs @ c) - xr_suffixCap r) (bs @ c)"
    "xr_suffixHeld (push_suffix r c) = length (concat (xr_suffixChunks (push_suffix r c)))"
proof -
  let ?S = "xr_suffixCap r" and ?cs = "xr_suffixChunks r @ [c]" and ?x = "bs @ c"
  have "concat (xr_suffixChunks (push_suffix r c)) = drop (length ?x - ?S) ?x
      \<and> xr_suffixHeld (push_suffix r c) = length (concat (xr_suffixChunks (push_suffix r c)))"
  proof (cases "?S > 0")
    case False
    with assms show ?thesis by (simp add: push_suffix_def)
  next
    case True
    obtain ds h where s: "slide ?S (xr_suffixHeld r + length c) ?cs = (ds, h)"
      by (cases "slide ?S (xr_suffixHeld r + length c) ?cs")
    have len: "xr_suffixHeld r + length c = length (concat ?cs)" using held by simp
    from slide_spec [OF len s] obtain es where h: "h = length (concat ds)" and es: "concat ?cs = es @ concat ds"
      and big: "min ?S (length (concat ?cs)) \<le> h" and small: "ds = [] \<or> h - length (hd ds) < ?S" by blast
    have whole: "concat ?cs = drop (length ?x - (min ?S (length bs) + length c)) ?x"
      using win drop_tail_append [of bs ?S c] by simp
    have lc: "length (concat ?cs) = min ?S (length bs) + length c" using win by simp
    have hle: "h \<le> min ?S (length bs) + length c" using arg_cong [OF es, of length] h lc by simp
    then have hx: "h \<le> length ?x" by simp
    have "concat ds = drop (length (concat ?cs) - h) (concat ?cs)" using es h suffix_of by metis
    also have "\<dots> = drop (length ?x - h) ?x" unfolding whole by (rule drop_last [OF hle])
    finally have dsx: "concat ds = drop (length ?x - h) ?x" .
    show ?thesis
    proof (cases "ds = [] \<or> h \<le> ?S")
      case T: True
      then have le: "h \<le> ?S" using h by auto
      then have r': "xr_suffixChunks (push_suffix r c) = ds" "xr_suffixHeld (push_suffix r c) = h"
        using s True by (simp_all add: push_suffix_def split: list.splits)
      have "length ?x - h = length ?x - ?S" using big lc le hx by (simp add: min_def split: if_splits)
      with dsx have "concat ds = drop (length ?x - ?S) ?x" by metis
      with r' h show ?thesis by metis
    next
      case False
      then obtain d rest where ds: "ds = d # rest" by (cases ds) auto
      have r': "xr_suffixChunks (push_suffix r c) = drop (h - ?S) d # rest" "xr_suffixHeld (push_suffix r c) = ?S"
        using s True False ds by (simp_all add: push_suffix_def)
      have "h - ?S \<le> length d" using small ds h by auto
      then have "concat (drop (h - ?S) d # rest) = drop (h - ?S) (concat ds)" by (simp add: ds)
      also have "\<dots> = drop (length ?x - ?S) ?x" unfolding dsx drop_drop using False hx by simp
      finally have cc: "concat (drop (h - ?S) d # rest) = drop (length ?x - ?S) ?x" .
      have "?S = length (drop (length ?x - ?S) ?x)" using False hx by simp
      with r' cc show ?thesis by metis
    qed
  qed
  then show "concat (xr_suffixChunks (push_suffix r c)) = drop (length ?x - ?S) ?x"
    "xr_suffixHeld (push_suffix r c) = length (concat (xr_suffixChunks (push_suffix r c)))" by blast+
qed

lemma text_push_inv:
  assumes "retainer_inv r bs"
  shows "retainer_inv (fst (text_push r c)) (bs @ c)"
    "xr_prefixCap (fst (text_push r c)) = xr_prefixCap r" "xr_suffixCap (fst (text_push r c)) = xr_suffixCap r"
proof -
  let ?r = "r\<lparr>xr_total := xr_total r + length c\<rparr>"
  have i: "concat (xr_prefixChunks ?r) = take (xr_prefixCap ?r) bs" "xr_prefixHeld ?r = length (concat (xr_prefixChunks ?r))"
    using assms by (simp_all add: retainer_inv_def)
  note p = push_prefix_spec [OF i, of c]
  have j: "xr_suffixHeld (push_prefix ?r c) = length (concat (xr_suffixChunks (push_prefix ?r c)))"
    "concat (xr_suffixChunks (push_prefix ?r c)) = drop (length bs - xr_suffixCap (push_prefix ?r c)) bs"
    unfolding p using assms by (simp_all add: retainer_inv_def)
  note q = push_suffix_spec [OF j, of c]
  have f: "fst (text_push r c) = push_suffix (push_prefix ?r c) c" by (simp add: text_push_def Let_def)
  have tot: "xr_total r = length bs" using assms by (simp add: retainer_inv_def)
  show "xr_prefixCap (fst (text_push r c)) = xr_prefixCap r" "xr_suffixCap (fst (text_push r c)) = xr_suffixCap r"
    unfolding f using p by simp_all
  show "retainer_inv (fst (text_push r c)) (bs @ c)"
    unfolding f retainer_inv_def using p q tot by simp
qed

lemma fresh_retainer_inv: "retainer_inv (fresh_retainer p s) []"
  by (simp add: retainer_inv_def fresh_retainer_def)

lemma push_all_inv:
  "retainer_inv r bs \<Longrightarrow> retainer_inv (push_all r cs) (bs @ concat cs)
     \<and> xr_prefixCap (push_all r cs) = xr_prefixCap r \<and> xr_suffixCap (push_all r cs) = xr_suffixCap r"
proof (induction cs arbitrary: r bs)
  case Nil
  then show ?case by (simp add: push_all_def)
next
  case (Cons c cs)
  have "push_all r (c # cs) = push_all (fst (text_push r c)) cs" by (simp add: push_all_def)
  with Cons.IH [OF text_push_inv(1) [OF Cons.prems, of c]] text_push_inv(2, 3) [OF Cons.prems, of c]
  show ?case by simp
qed

section \<open>Cuts at code points\<close>

definition utf8_char :: "bytes \<Rightarrow> bool" where
  "utf8_char c \<longleftrightarrow> c \<noteq> [] \<and> \<not> continuation (hd c) \<and> length c = expected_length (hd c) \<and> list_all continuation (tl c)"

lemma expected_length_le: "expected_length b \<le> 4"
  by (simp add: expected_length_def)

lemma scan_back_conts:
  assumes "list_all continuation cs" and "length cs + length ds \<le> 3" and "list_all continuation ds"
  shows "scan_back (ys @ cs @ ds) (length ys + length cs) = scan_back (ys @ cs @ ds) (length ys)"
  using assms
proof (induction cs arbitrary: ds rule: rev_induct)
  case Nil
  then show ?case by simp
next
  case (snoc c cs)
  have n: "(ys @ cs @ c # ds) ! (length ys + length cs) = c" by (metis append.assoc length_append nth_append_length)
  have "scan_back (ys @ cs @ c # ds) (Suc (length ys + length cs)) = scan_back (ys @ cs @ c # ds) (length ys + length cs)"
    using snoc.prems n by simp
  also have "\<dots> = scan_back (ys @ cs @ c # ds) (length ys)" using snoc.IH [of "c # ds"] snoc.prems by simp
  finally show ?case by simp
qed

lemma trimTrailing_tail:
  assumes "\<not> continuation b" and "list_all continuation cs" and "length cs \<le> 3"
  shows "trimTrailingPartialUtf8 (ys @ b # cs) =
     (if expected_length b \<noteq> 0 \<and> Suc (length cs) < expected_length b then ys else ys @ b # cs)"
proof -
  have "scan_back (ys @ b # cs) (length (ys @ b # cs)) = scan_back (ys @ b # cs) (Suc (length ys))"
    using scan_back_conts [of cs "[]" "ys @ [b]"] assms by simp
  also have "\<dots> = Suc (length ys)" using assms by simp
  finally have "scan_back (ys @ b # cs) (length (ys @ b # cs)) = Suc (length ys)" .
  moreover have "length (ys @ b # cs) - length ys = Suc (length cs)" by simp
  ultimately show ?thesis by (simp add: trimTrailingPartialUtf8_def Let_def del: length_append)
qed

lemma utf8_char_cases:
  assumes "utf8_char c"
  obtains b cs where "c = b # cs" "\<not> continuation b" "list_all continuation cs" "length cs \<le> 3"
    "Suc (length cs) = expected_length b"
proof -
  obtain b cs where "c = b # cs" using assms by (cases c) (auto simp: utf8_char_def)
  moreover from this have "length cs \<le> 3" using assms expected_length_le [of b] by (simp add: utf8_char_def)
  ultimately show thesis using assms that by (simp add: utf8_char_def)
qed

lemma trimTrailing_whole:
  assumes "list_all utf8_char cps"
  shows "trimTrailingPartialUtf8 (concat cps) = concat cps"
proof (cases cps rule: rev_cases)
  case Nil
  then show ?thesis by (simp add: trimTrailingPartialUtf8_def)
next
  case (snoc xs c)
  with assms have "utf8_char c" by simp
  then obtain b cs where "c = b # cs" "\<not> continuation b" "list_all continuation cs" "length cs \<le> 3"
    "Suc (length cs) = expected_length b" by (rule utf8_char_cases)
  with snoc show ?thesis using trimTrailing_tail [of b cs "concat xs"] by simp
qed

lemma trimTrailing_partial:
  assumes "list_all utf8_char cps" and "utf8_char c" and "n < length c"
  shows "trimTrailingPartialUtf8 (concat cps @ take n c) = concat cps"
proof (cases n)
  case 0
  then show ?thesis using trimTrailing_whole [OF assms(1)] by simp
next
  case (Suc m)
  from assms(2) obtain b cs where c: "c = b # cs" "\<not> continuation b" "list_all continuation cs" "length cs \<le> 3"
    "Suc (length cs) = expected_length b" by (rule utf8_char_cases)
  have "list_all continuation (take m cs)" using c(3) by (auto simp: list_all_iff dest: in_set_takeD)
  then show ?thesis using trimTrailing_tail [of b "take m cs" "concat cps"] c assms(3) Suc by simp
qed

text \<open>The number of code points that end within the first \<open>n\<close> bytes.\<close>

fun cut_points :: "bytes list \<Rightarrow> nat \<Rightarrow> nat" where
  "cut_points [] n = 0"
| "cut_points (c # cs) n = (if length c \<le> n then Suc (cut_points cs (n - length c)) else 0)"

lemma take_concat:
  "\<exists>p. take n (concat cps) = concat (take (cut_points cps n) cps) @ p
     \<and> (p = [] \<or> (\<exists>c \<in> set cps. \<exists>m < length c. p = take m c))"
proof (induction cps n rule: cut_points.induct)
  case (1 n)
  then show ?case by simp
next
  case (2 c cs n)
  show ?case
  proof (cases "length c \<le> n")
    case True
    with 2 show ?thesis by fastforce
  next
    case False
    then have "take n (concat (c # cs)) = take n c" "n < length c" by simp_all
    with False show ?thesis by (intro exI [of _ "take n c"]) auto
  qed
qed

lemma trimTrailing_cut:
  assumes "list_all utf8_char cps"
  shows "trimTrailingPartialUtf8 (take n (concat cps)) = concat (take (cut_points cps n) cps)"
proof -
  from take_concat [of n cps] obtain p where p: "take n (concat cps) = concat (take (cut_points cps n) cps) @ p"
    and q: "p = [] \<or> (\<exists>c \<in> set cps. \<exists>m < length c. p = take m c)" by blast
  have all: "list_all utf8_char (take (cut_points cps n) cps)" using assms by (auto simp: list_all_iff dest: in_set_takeD)
  show ?thesis using q
  proof
    assume "p = []"
    then show ?thesis using p trimTrailing_whole [OF all] by simp
  next
    assume "\<exists>c \<in> set cps. \<exists>m < length c. p = take m c"
    then obtain c m where "c \<in> set cps" "m < length c" "p = take m c" by blast
    then show ?thesis using p trimTrailing_partial [OF all, of c m] assms by (simp add: list_all_iff)
  qed
qed

text \<open>The code points that begin at byte \<open>m\<close> or later.\<close>

fun cut_start :: "bytes list \<Rightarrow> nat \<Rightarrow> nat" where
  "cut_start [] m = 0"
| "cut_start (c # cs) m = (if m = 0 then 0 else Suc (cut_start cs (m - length c)))"

lemma trimLeading_whole: "list_all utf8_char cps \<Longrightarrow> trimLeadingContinuationUtf8 (concat cps) = concat cps"
  by (cases cps) (auto simp: trimLeadingContinuationUtf8_def elim!: utf8_char_cases)

lemma cut_start_0 [simp]: "cut_start cps 0 = 0"
  by (cases cps) simp_all

lemma trimLeading_cut:
  "list_all utf8_char cps \<Longrightarrow> trimLeadingContinuationUtf8 (drop m (concat cps)) = concat (drop (cut_start cps m) cps)"
proof (induction cps m rule: cut_start.induct)
  case (1 m)
  then show ?case by (simp add: trimLeadingContinuationUtf8_def)
next
  case (2 c cs m)
  show ?case
  proof (cases "m = 0")
    case True
    with 2(2) show ?thesis using trimLeading_whole [of "c # cs"] by simp
  next
    case False
    from 2(2) have "utf8_char c" by simp
    then obtain b xs where c: "c = b # xs" "list_all continuation xs" by (rule utf8_char_cases)
    have "list_all continuation (drop m c)" using c False by (cases m) (auto simp: list_all_iff dest: in_set_dropD)
    then have "dropWhile continuation (drop m c @ drop (m - length c) (concat cs))
        = dropWhile continuation (drop (m - length c) (concat cs))"
      by (simp add: list_all_iff)
    with 2 False show ?thesis by (simp add: trimLeadingContinuationUtf8_def)
  qed
qed

lemma cut_points_spec:
  "length (concat (take (cut_points cps n) cps)) \<le> n
     \<and> (cut_points cps n < length cps \<longrightarrow> n < length (concat (take (Suc (cut_points cps n)) cps)))"
proof (induction cps n rule: cut_points.induct)
  case (1 n)
  then show ?case by simp
next
  case (2 c cs n)
  then show ?case by (cases "length c \<le> n") auto
qed

lemma cut_start_spec:
  "min m (length (concat cps)) \<le> length (concat (take (cut_start cps m) cps))
     \<and> (0 < cut_start cps m \<longrightarrow> length (concat (take (cut_start cps m - 1) cps)) < m)"
proof (induction cps m rule: cut_start.induct)
  case (1 m)
  then show ?case by simp
next
  case (2 c cs m)
  show ?case
  proof (cases "m = 0")
    case False
    note ih = 2 [OF False]
    show ?thesis
    proof (cases "cut_start cs (m - length c)")
      case 0
      with ih False show ?thesis by auto
    next
      case (Suc i)
      with ih False show ?thesis by auto
    qed
  qed simp
qed

section \<open>What the result says\<close>

lemma omittedAt_pos: "omittedAt r n > 0 \<longleftrightarrow> xr_prefixCap r + xr_suffixCap r < n"
  by (auto simp: omittedAt_def Let_def min_def)

lemma omittedAt_eq: "omittedAt r n = n - (xr_prefixCap r + xr_suffixCap r)"
  by (auto simp: omittedAt_def Let_def min_def)

lemma adjacent_sides:
  fixes bs :: "'a list" and P S :: nat
  assumes "length bs \<le> P + S"
  shows "take P bs @ drop (min (length bs) S - min (length bs - min (length bs) P) S) (drop (length bs - S) bs) = bs"
proof (cases "length bs \<le> P")
  case True
  then show ?thesis by (cases "length bs \<le> S") simp_all
next
  case False
  then have "min (length bs - min (length bs) P) S = length bs - P" using assms by simp
  moreover have s: "min (length bs) S - (length bs - P) + (length bs - S) = P" using assms False by (simp add: min_def)
  ultimately show ?thesis unfolding drop_drop by (simp only: s append_take_drop_id)
qed

lemma retainer_sides:
  assumes "retainer_inv r bs"
  shows "xr_total r = length bs" "concat (xr_prefixChunks r) = take (xr_prefixCap r) bs"
    "concat (xr_suffixChunks r) = drop (length bs - xr_suffixCap r) bs" "xr_suffixHeld r = min (length bs) (xr_suffixCap r)"
  using assms by (simp_all add: retainer_inv_def min_def)

lemma kept_sides_unfold:
  assumes "retainer_inv r bs"
  shows "kept_sides r =
     (let pre = take (xr_prefixCap r) bs;
          suf = drop (min (length bs) (xr_suffixCap r) - min (length bs - min (length bs) (xr_prefixCap r)) (xr_suffixCap r))
                  (drop (length bs - xr_suffixCap r) bs)
      in if xr_prefixCap r + xr_suffixCap r < length bs then (trimTrailingPartialUtf8 pre, trimLeadingContinuationUtf8 suf)
         else (pre, suf))"
  unfolding kept_sides_def retainer_sides [OF assms] omittedAt_pos Let_def ..

lemma kept_sides_whole:
  assumes "retainer_inv r bs" and "length bs \<le> xr_prefixCap r + xr_suffixCap r"
  shows "fst (kept_sides r) @ snd (kept_sides r) = bs"
proof -
  have "\<not> xr_prefixCap r + xr_suffixCap r < length bs" using assms(2) by simp
  then have "kept_sides r = (take (xr_prefixCap r) bs,
     drop (min (length bs) (xr_suffixCap r) - min (length bs - min (length bs) (xr_prefixCap r)) (xr_suffixCap r))
                  (drop (length bs - xr_suffixCap r) bs))"
    unfolding kept_sides_unfold [OF assms(1)] Let_def by (simp only: if_False)
  then show ?thesis using adjacent_sides [OF assms(2)] by (simp only: fst_conv snd_conv)
qed

lemma kept_sides_cut:
  assumes "retainer_inv r bs" and "xr_prefixCap r + xr_suffixCap r < length bs"
  shows "kept_sides r = (trimTrailingPartialUtf8 (take (xr_prefixCap r) bs),
     trimLeadingContinuationUtf8 (drop (length bs - xr_suffixCap r) bs))"
proof -
  have "min (length bs) (xr_suffixCap r) - min (length bs - min (length bs) (xr_prefixCap r)) (xr_suffixCap r) = 0"
    using assms(2) by simp
  then show ?thesis unfolding kept_sides_unfold [OF assms(1)] Let_def by (simp only: assms(2) if_True drop_0)
qed

lemma text_finish_whole:
  assumes "retainer_inv r bs" and "length bs \<le> xr_prefixCap r + xr_suffixCap r"
  shows "text_finish decode r = \<lparr>rt_text = decode bs, rt_truncated = False, rt_omittedBytes = OmittedNone\<rparr>"
proof -
  obtain pre suf where k: "kept_sides r = (pre, suf)" by (cases "kept_sides r")
  have ps: "pre @ suf = bs" using kept_sides_whole [OF assms] k by simp
  have t: "xr_total r = length bs" using retainer_sides(1) [OF assms(1)] .
  have o: "\<not> omittedAt r (xr_total r) > 0" unfolding omittedAt_pos t using assms(2) by simp
  have z: "xr_total r - length pre - length suf = 0" unfolding t using arg_cong [OF ps, of length] by simp
  show ?thesis unfolding text_finish_def k Let_def prod.case z ps using o by simp
qed

text \<open>What the text of a truncated stream is, for a stream of whole code points.\<close>

lemma text_finish_cut:
  assumes inv: "retainer_inv r (concat cps)" and cps: "list_all utf8_char cps"
    and long: "xr_prefixCap r + xr_suffixCap r < length (concat cps)"
  defines "i \<equiv> cut_points cps (xr_prefixCap r)"
    and "j \<equiv> cut_start cps (length (concat cps) - xr_suffixCap r)"
  shows "text_finish decode r =
      \<lparr>rt_text = decode (concat (take i cps)) @ decode (concat (drop j cps)), rt_truncated = True,
       rt_omittedBytes = OmittedExact (length (concat cps) - length (concat (take i cps)) - length (concat (drop j cps)))\<rparr>
     \<and> length (concat (take i cps)) \<le> xr_prefixCap r \<and> length (concat (drop j cps)) \<le> xr_suffixCap r"
proof -
  have k: "kept_sides r = (concat (take i cps), concat (drop j cps))"
    using kept_sides_cut [OF inv long] trimTrailing_cut [OF cps] trimLeading_cut [OF cps] by (simp add: i_def j_def)
  have a: "length (concat (take i cps)) \<le> xr_prefixCap r" using cut_points_spec [of cps "xr_prefixCap r"] by (simp add: i_def)
  have "length (concat (take j cps)) + length (concat (drop j cps)) = length (concat cps)"
    by (metis append_take_drop_id concat_append length_append)
  moreover have "length (concat cps) - xr_suffixCap r \<le> length (concat (take j cps))"
    using cut_start_spec [of "length (concat cps) - xr_suffixCap r" cps] by (simp add: j_def min_def)
  ultimately have b: "length (concat (drop j cps)) \<le> xr_suffixCap r" by linarith
  have t: "xr_total r = length (concat cps)" using retainer_sides(1) [OF inv] .
  have o: "omittedAt r (xr_total r) > 0" using long t by (simp only: omittedAt_pos)
  have "0 < xr_total r - length (concat (take i cps)) - length (concat (drop j cps))" using a b long t by linarith
  then have "text_finish decode r =
      \<lparr>rt_text = decode (concat (take i cps)) @ decode (concat (drop j cps)), rt_truncated = True,
       rt_omittedBytes = OmittedExact (length (concat cps) - length (concat (take i cps)) - length (concat (drop j cps)))\<rparr>"
    using k o unfolding text_finish_def t Let_def by simp
  with a b show ?thesis by blast
qed

text \<open>The last push's decision and the result agree, and the memory held is bounded.\<close>

lemma text_push_decision:
  assumes "retainer_inv r bs"
  shows "pd_truncated (snd (text_push r c)) = (xr_prefixCap r + xr_suffixCap r < length (bs @ c))"
    and "pd_kept (snd (text_push r c)) = (c = [] \<or> length (bs @ c) \<le> xr_prefixCap r + xr_suffixCap r)"
proof -
  have t: "xr_total r = length bs" using retainer_sides(1) [OF assms] .
  show "pd_truncated (snd (text_push r c)) = (xr_prefixCap r + xr_suffixCap r < length (bs @ c))"
    unfolding text_push_def Let_def by (simp add: omittedAt_eq t less_diff_conv)
  show "pd_kept (snd (text_push r c)) = (c = [] \<or> length (bs @ c) \<le> xr_prefixCap r + xr_suffixCap r)"
    unfolding text_push_def Let_def by (cases c) (auto simp: omittedAt_eq t)
qed

lemma trim_lengths:
  "length (trimTrailingPartialUtf8 bs) \<le> length bs" "length (trimLeadingContinuationUtf8 bs) \<le> length bs"
  by (simp_all add: trimTrailingPartialUtf8_def trimLeadingContinuationUtf8_def Let_def length_dropWhile_le split: nat.splits)

lemma kept_sides_lengths:
  assumes "retainer_inv r bs"
  shows "length (fst (kept_sides r)) + length (snd (kept_sides r)) \<le> min (length bs) (xr_prefixCap r + xr_suffixCap r)"
    "length (fst (kept_sides r)) + length (snd (kept_sides r)) = length bs \<longleftrightarrow> length bs \<le> xr_prefixCap r + xr_suffixCap r"
proof -
  let ?pre = "fst (kept_sides r)" and ?suf = "snd (kept_sides r)" and ?P = "xr_prefixCap r" and ?S = "xr_suffixCap r"
  have "length ?pre + length ?suf \<le> min (length bs) (?P + ?S)
      \<and> (length ?pre + length ?suf = length bs \<longleftrightarrow> length bs \<le> ?P + ?S)"
  proof (cases "length bs \<le> ?P + ?S")
    case True
    have "length ?pre + length ?suf = length bs" using arg_cong [OF kept_sides_whole [OF assms True], of length] by simp
    with True show ?thesis by simp
  next
    case False
    then have "kept_sides r = (trimTrailingPartialUtf8 (take ?P bs), trimLeadingContinuationUtf8 (drop (length bs - ?S) bs))"
      using kept_sides_cut [OF assms] by simp
    then have "length ?pre \<le> ?P" "length ?suf \<le> ?S"
      using trim_lengths(1) [of "take ?P bs"] trim_lengths(2) [of "drop (length bs - ?S) bs"] False by simp_all
    with False show ?thesis by simp
  qed
  then show "length ?pre + length ?suf \<le> min (length bs) (?P + ?S)"
    "length ?pre + length ?suf = length bs \<longleftrightarrow> length bs \<le> ?P + ?S" by blast+
qed

lemma text_finish_account:
  assumes "retainer_inv r bs"
  defines "n \<equiv> length (fst (kept_sides r)) + length (snd (kept_sides r))"
  shows "rt_truncated (text_finish decode r) = (xr_prefixCap r + xr_suffixCap r < length bs)"
    "rt_omittedBytes (text_finish decode r) =
       (if xr_prefixCap r + xr_suffixCap r < length bs then OmittedExact (length bs - n) else OmittedNone)"
proof -
  have o: "rt_truncated (text_finish decode r) = (0 < length bs - n)"
    "rt_omittedBytes (text_finish decode r) = (if 0 < length bs - n then OmittedExact (length bs - n) else OmittedNone)"
    using retainer_sides(1) [OF assms(1)] by (simp_all add: text_finish_def Let_def n_def split: prod.split)
  have "(0 < length bs - n) = (xr_prefixCap r + xr_suffixCap r < length bs)"
    using kept_sides_lengths [OF assms(1)] by (auto simp: n_def)
  with o show "rt_truncated (text_finish decode r) = (xr_prefixCap r + xr_suffixCap r < length bs)"
    "rt_omittedBytes (text_finish decode r) =
       (if xr_prefixCap r + xr_suffixCap r < length bs then OmittedExact (length bs - n) else OmittedNone)" by simp_all
qed

lemma retainer_memory:
  assumes "retainer_inv r bs"
  shows "length (concat (xr_prefixChunks r)) \<le> xr_prefixCap r" "length (concat (xr_suffixChunks r)) \<le> xr_suffixCap r"
  using retainer_sides(2, 3) [OF assms] by simp_all

lemma newTextRetainer_inv: "newTextRetainer st = Inr r \<Longrightarrow> retainer_inv r []"
  by (auto simp: newTextRetainer_def bind_res_Inr_iff fresh_retainer_inv split: text_strategy.splits)

section \<open>Items\<close>

lemma item_push_all:
  assumes "ir_items r = take (ir_maxItems r) xs" and "ir_seen r = length xs" and "ir_omittedCount r = length xs - ir_maxItems r"
  shows "foldl (\<lambda>r x. fst (item_push r x)) r ys = \<lparr>ir_maxItems = ir_maxItems r, ir_items = take (ir_maxItems r) (xs @ ys),
     ir_seen = length (xs @ ys), ir_omittedCount = length (xs @ ys) - ir_maxItems r\<rparr>"
  using assms
proof (induction ys arbitrary: r xs)
  case Nil
  then show ?case by simp
next
  case (Cons y ys)
  let ?r = "fst (item_push r y)"
  have m: "ir_maxItems ?r = ir_maxItems r" by (simp add: item_push_def Let_def)
  have "ir_items ?r = take (ir_maxItems ?r) (xs @ [y])" "ir_seen ?r = length (xs @ [y])"
    "ir_omittedCount ?r = length (xs @ [y]) - ir_maxItems ?r"
    using Cons.prems by (auto simp: item_push_def Let_def)
  from Cons.IH [OF this] show ?case using m by simp
qed

end
