(* ===== verification/Js_Date.thy ===== *)
theory Js_Date
  imports Js_String
begin

text \<open>
  The calendar of JavaScript \<open>Date\<close> values in UTC, as ECMA-262 defines it, on integral milliseconds:
  \<open>MakeDay\<close>, \<open>MakeTime\<close> and \<open>MakeDate\<close>, the field getters, \<open>toISOString\<close>, and \<open>Date.parse\<close> on
  strings of the form \<open>toISOString\<close> has. The shown laws: the fields of an instant make the instant
  again, and printing and parsing of the years 1 to 9999 are inverse.
\<close>

section \<open>Days and fields\<close>

record calendar_parts =
  cp_year :: int
  cp_month :: int
  cp_day :: int
  cp_hour :: int
  cp_minute :: int
  cp_second :: int
  cp_millisecond :: int

definition leap_year :: "int \<Rightarrow> bool" where
  "leap_year y = (y mod 4 = 0 \<and> (y mod 100 \<noteq> 0 \<or> y mod 400 = 0))"

definition days_from_year :: "int \<Rightarrow> int" where
  "days_from_year y = 365 * (y - 1970) + (y - 1969) div 4 - (y - 1901) div 100 + (y - 1601) div 400"

definition month_lengths :: "int \<Rightarrow> int list" where
  "month_lengths y = [31, if leap_year y then 29 else 28, 31, 30, 31, 30, 31, 31, 30, 31, 30, 31]"

text \<open>\<open>MakeDay\<close> with the month from 0; a month out of range carries into the year.\<close>

definition make_day :: "int \<Rightarrow> int \<Rightarrow> int \<Rightarrow> int" where
  "make_day y m d =
     (let ym = y + m div 12 in days_from_year ym + sum_list (take (nat (m mod 12)) (month_lengths ym)) + d - 1)"

definition make_time :: "int \<Rightarrow> int \<Rightarrow> int \<Rightarrow> int \<Rightarrow> int" where
  "make_time h mi s ms = h * 3600000 + mi * 60000 + s * 1000 + ms"

definition make_date :: "int \<Rightarrow> int \<Rightarrow> int" where
  "make_date day time = day * 86400000 + time"

definition parts_epoch :: "calendar_parts \<Rightarrow> int" where
  "parts_epoch p = make_date (make_day (cp_year p) (cp_month p - 1) (cp_day p))
     (make_time (cp_hour p) (cp_minute p) (cp_second p) (cp_millisecond p))"

text \<open>The year of a day: an estimate that is at most one off, corrected.\<close>

definition year_of_day :: "int \<Rightarrow> int" where
  "year_of_day d =
     (let y = 1970 + (400 * d) div 146097 in
      if d < days_from_year y then y - 1 else if days_from_year (y + 1) \<le> d then y + 1 else y)"

fun split_months :: "int list \<Rightarrow> int \<Rightarrow> int \<times> int" where
  "split_months [] d = (0, d)"
| "split_months (n # ns) d = (if d < n then (0, d) else (let (m, r) = split_months ns (d - n) in (m + 1, r)))"

definition fields_of :: "int \<Rightarrow> calendar_parts" where
  "fields_of t =
     (let day = t div 86400000; tod = t mod 86400000; y = year_of_day day;
          (m, d) = split_months (month_lengths y) (day - days_from_year y)
      in \<lparr>cp_year = y, cp_month = m + 1, cp_day = d + 1, cp_hour = tod div 3600000,
          cp_minute = tod div 60000 mod 60, cp_second = tod div 1000 mod 60, cp_millisecond = tod mod 1000\<rparr>)"

definition year_length :: "int \<Rightarrow> int" where
  "year_length y = (if leap_year y then 366 else 365)"

lemma sum_month_lengths: "sum_list (month_lengths y) = year_length y"
  by (simp add: month_lengths_def year_length_def)

lemma div_succ:
  assumes "0 < (k::int)"
  shows "(x + 1) div k = x div k + (if (x + 1) mod k = 0 then 1 else 0)"
proof (cases "x mod k = k - 1")
  case True
  have "x + 1 = (x div k + 1) * k" using mult_div_mod_eq [of k x] True by (simp add: algebra_simps)
  with assms show ?thesis by simp
next
  case False
  have r: "0 \<le> x mod k" "x mod k < k" using assms by simp_all
  with False have lt: "x mod k + 1 < k" by simp
  have e: "x + 1 = k * (x div k) + (x mod k + 1)" using mult_div_mod_eq [of k x] by simp
  have "(x + 1) div k = x div k" using int_div_pos_eq [OF e] r lt by simp
  moreover have "(x + 1) mod k = x mod k + 1" using int_mod_pos_eq [OF e] r lt by simp
  ultimately show ?thesis using r(1) by simp
qed

lemma mod_shift:
  "(y + 1 - 1969) mod 4 = (y :: int) mod 4" "(y + 1 - 1901) mod 100 = y mod 100" "(y + 1 - 1601) mod 400 = y mod 400"
proof -
  show "(y + 1 - 1969) mod 4 = y mod 4" using mod_mult_self1 [of y "-492" 4] by simp
  show "(y + 1 - 1901) mod 100 = y mod 100" using mod_mult_self1 [of y "-19" 100] by simp
  show "(y + 1 - 1601) mod 400 = y mod 400" using mod_mult_self1 [of y "-4" 400] by simp
qed

lemma mod_nested: "(y :: int) mod 400 = 0 \<Longrightarrow> y mod 100 = 0" "(y :: int) mod 100 = 0 \<Longrightarrow> y mod 4 = 0"
proof -
  have "y mod 400 mod 100 = y mod 100" "y mod 100 mod 4 = y mod 4" by (rule mod_mod_cancel, simp)+
  then show "y mod 400 = 0 \<Longrightarrow> y mod 100 = 0" "y mod 100 = 0 \<Longrightarrow> y mod 4 = 0" by simp_all
qed

lemma days_from_year_Suc: "days_from_year (y + 1) = days_from_year y + year_length y"
proof -
  have a: "(y + 1 - 1969) div 4 = (y - 1969) div 4 + (if y mod 4 = 0 then 1 else 0)"
    using div_succ [of 4 "y - 1969"] mod_shift(1) [of y] by (simp add: algebra_simps)
  have b: "(y + 1 - 1901) div 100 = (y - 1901) div 100 + (if y mod 100 = 0 then 1 else 0)"
    using div_succ [of 100 "y - 1901"] mod_shift(2) [of y] by (simp add: algebra_simps)
  have c: "(y + 1 - 1601) div 400 = (y - 1601) div 400 + (if y mod 400 = 0 then 1 else 0)"
    using div_succ [of 400 "y - 1601"] mod_shift(3) [of y] by (simp add: algebra_simps)
  show ?thesis unfolding days_from_year_def a b c year_length_def leap_year_def
    using mod_nested [of y]
    by (cases "y mod 400 = 0"; cases "y mod 100 = 0"; cases "y mod 4 = 0"; simp)
qed

lemma div_lin: "0 < k \<Longrightarrow> k * (x div k) \<le> (x :: int)" "0 < k \<Longrightarrow> (x :: int) < k * (x div k) + k"
  using mult_div_mod_eq [of k x] pos_mod_bound [of k x] pos_mod_sign [of k x] by linarith+

lemma days_from_year_bounds:
  "400 * days_from_year z \<le> 146097 * z - 287810501" "146097 * z - 287811596 \<le> 400 * days_from_year z"
proof -
  define a b c where "a = (z - 1969) div 4" and "b = (z - 1901) div 100" and "c = (z - 1601) div 400"
  have "4 * a \<le> z - 1969" "z - 1969 < 4 * a + 4" "100 * b \<le> z - 1901" "z - 1901 < 100 * b + 100"
    "400 * c \<le> z - 1601" "z - 1601 < 400 * c + 400"
    unfolding a_def b_def c_def by (rule div_lin, simp)+
  moreover have "400 * days_from_year z = 146000 * z - 287620000 + 400 * a - 400 * b + 400 * c"
    by (simp add: days_from_year_def a_def b_def c_def)
  ultimately show "400 * days_from_year z \<le> 146097 * z - 287810501" "146097 * z - 287811596 \<le> 400 * days_from_year z"
    by linarith+
qed

lemma year_of_day:
  "days_from_year (year_of_day d) \<le> d" "d < days_from_year (year_of_day d + 1)"
proof -
  define k where "k = (400 * d) div 146097"
  have k: "146097 * k \<le> 400 * d" "400 * d < 146097 * k + 146097"
    using div_lin [of 146097 "400 * d"] by (simp_all add: k_def)
  have b: "400 * days_from_year (1970 + k - 1) \<le> 146097 * k - 145508"
    "146097 * k + 291688 \<le> 400 * days_from_year (1970 + k + 1 + 1)"
    using days_from_year_bounds(1) [of "1970 + k - 1"] days_from_year_bounds(2) [of "1970 + k + 1 + 1"]
    by (simp_all add: algebra_simps)
  have "days_from_year (year_of_day d) \<le> d \<and> d < days_from_year (year_of_day d + 1)"
  proof (cases "d < days_from_year (1970 + k)")
    case True
    then have "year_of_day d = 1970 + k - 1" by (simp add: year_of_day_def k_def Let_def)
    moreover have "days_from_year (1970 + k - 1) \<le> d" using b(1) k(1) by linarith
    ultimately show ?thesis using True by simp
  next
    case ge: False
    show ?thesis
    proof (cases "days_from_year (1970 + k + 1) \<le> d")
      case True
      then have "year_of_day d = 1970 + k + 1" using ge by (simp add: year_of_day_def k_def Let_def)
      moreover have "d < days_from_year (1970 + k + 1 + 1)" using b(2) k(2) by linarith
      ultimately show ?thesis using True by simp
    next
      case False
      then have "year_of_day d = 1970 + k" using ge by (simp add: year_of_day_def k_def Let_def)
      with ge False show ?thesis by simp
    qed
  qed
  then show "days_from_year (year_of_day d) \<le> d" "d < days_from_year (year_of_day d + 1)" by blast+
qed

lemma days_from_year_mono: "a \<le> b \<Longrightarrow> days_from_year a \<le> days_from_year b"
proof (induction b rule: int_ge_induct)
  case base
  then show ?case by simp
next
  case (step i)
  then show ?case using days_from_year_Suc [of i] by (simp add: year_length_def split: if_splits)
qed

lemma year_unique:
  assumes "days_from_year y \<le> d" and "d < days_from_year (y + 1)"
  shows "year_of_day d = y"
proof (rule ccontr)
  assume "year_of_day d \<noteq> y"
  then have "year_of_day d + 1 \<le> y \<or> y + 1 \<le> year_of_day d" by linarith
  then show False using assms year_of_day [of d] days_from_year_mono by fastforce
qed

lemma split_months:
  assumes "0 \<le> d" and "d < sum_list ns" and "split_months ns d = (m, r)"
  shows "0 \<le> m \<and> nat m < length ns \<and> 0 \<le> r \<and> r < ns ! nat m \<and> sum_list (take (nat m) ns) + r = d"
  using assms
proof (induction ns d arbitrary: m r rule: split_months.induct)
  case (1 d)
  then show ?case by simp
next
  case (2 n ns d)
  show ?case
  proof (cases "d < n")
    case True
    with 2(2-) show ?thesis by simp
  next
    case False
    obtain m' r' where s: "split_months ns (d - n) = (m', r')" by (cases "split_months ns (d - n)")
    from 2(1) [OF False _ _ s] 2(2, 3) False have ih: "0 \<le> m' \<and> nat m' < length ns \<and> 0 \<le> r' \<and> r' < ns ! nat m'
        \<and> sum_list (take (nat m') ns) + r' = d - n" by simp
    moreover have "m = m' + 1" "r = r'" using 2(4) False s by simp_all
    moreover have "nat (m' + 1) = Suc (nat m')" using ih by (simp add: nat_add_distrib)
    ultimately show ?thesis by simp
  qed
qed

lemma split_months_take:
  assumes "i < length ns" and "0 \<le> r" and "r < ns ! i" and "\<forall>n \<in> set ns. 0 \<le> n"
  shows "split_months ns (sum_list (take i ns) + r) = (int i, r)"
  using assms
proof (induction ns arbitrary: i)
  case Nil
  then show ?case by simp
next
  case (Cons n ns)
  show ?case
  proof (cases i)
    case 0
    with Cons.prems show ?thesis by simp
  next
    case (Suc j)
    have "0 \<le> sum_list (take j ns)" using Cons.prems(4) by (intro sum_list_nonneg) (auto dest: in_set_takeD)
    then have "\<not> n + sum_list (take j ns) + r < n" using Cons.prems by simp
    moreover have "split_months ns (sum_list (take j ns) + r) = (int j, r)"
      using Cons.IH [of j] Cons.prems Suc by simp
    ultimately show ?thesis by (simp add: Suc)
  qed
qed

definition real_parts :: "calendar_parts \<Rightarrow> bool" where
  "real_parts p \<longleftrightarrow>
     1 \<le> cp_month p \<and> cp_month p \<le> 12
     \<and> 1 \<le> cp_day p \<and> cp_day p \<le> month_lengths (cp_year p) ! nat (cp_month p - 1)
     \<and> 0 \<le> cp_hour p \<and> cp_hour p \<le> 23 \<and> 0 \<le> cp_minute p \<and> cp_minute p \<le> 59
     \<and> 0 \<le> cp_second p \<and> cp_second p \<le> 59 \<and> 0 \<le> cp_millisecond p \<and> cp_millisecond p \<le> 999"

lemma real_partsI:
  assumes "1 \<le> mo" "mo \<le> 12" "1 \<le> d" "d \<le> month_lengths y ! nat (mo - 1)" "0 \<le> h" "h \<le> 23" "0 \<le> mi" "mi \<le> 59"
    "0 \<le> s" "s \<le> 59" "0 \<le> ms" "ms \<le> 999"
  shows "real_parts \<lparr>cp_year = y, cp_month = mo, cp_day = d, cp_hour = h, cp_minute = mi, cp_second = s, cp_millisecond = ms\<rparr>"
  using assms by (simp add: real_parts_def)

lemma length_month_lengths [simp]: "length (month_lengths y) = 12"
  by (simp add: month_lengths_def)

lemma month_lengths_nonneg: "\<forall>n \<in> set (month_lengths y). 0 \<le> n"
  by (simp add: month_lengths_def)

lemma time_of_day:
  assumes "0 \<le> (t :: int)" and "t < 86400000"
  shows "make_time (t div 3600000) (t div 60000 mod 60) (t div 1000 mod 60) (t mod 1000) = t"
    "t div 3600000 \<le> 23"
proof -
  have m: "t div 60000 = t div 1000 div 60" "t div 3600000 = t div 1000 div 60 div 60"
    by (simp_all add: zdiv_zmult2_eq [symmetric])
  define s where "s = t div 1000"
  define n where "n = s div 60"
  have "t = 1000 * s + t mod 1000" "s = 60 * n + s mod 60" "n = 60 * (n div 60) + n mod 60"
    by (simp_all add: s_def n_def)
  then show "make_time (t div 3600000) (t div 60000 mod 60) (t div 1000 mod 60) (t mod 1000) = t"
    unfolding m make_time_def s_def [symmetric] n_def [symmetric] by linarith
  show "t div 3600000 \<le> 23" using assms div_lin(1) [of 3600000 t] by linarith
qed

lemma fields_of_epoch:
  shows "parts_epoch (fields_of t) = t" and "real_parts (fields_of t)"
proof -
  define day where "day = t div 86400000"
  define tod where "tod = t mod 86400000"
  define y where "y = year_of_day day"
  have tod: "0 \<le> tod" "tod < 86400000" by (simp_all add: tod_def)
  obtain m d where s: "split_months (month_lengths y) (day - days_from_year y) = (m, d)"
    by (cases "split_months (month_lengths y) (day - days_from_year y)")
  have "0 \<le> day - days_from_year y" "day - days_from_year y < sum_list (month_lengths y)"
    using year_of_day [of day] days_from_year_Suc [of y] by (simp_all add: y_def sum_month_lengths)
  from split_months [OF this s] have m: "0 \<le> m" "nat m < 12" "0 \<le> d" "d < month_lengths y ! nat m"
    and sum: "sum_list (take (nat m) (month_lengths y)) + d = day - days_from_year y" by simp_all
  have f: "fields_of t = \<lparr>cp_year = y, cp_month = m + 1, cp_day = d + 1, cp_hour = tod div 3600000,
      cp_minute = tod div 60000 mod 60, cp_second = tod div 1000 mod 60, cp_millisecond = tod mod 1000\<rparr>"
    unfolding fields_of_def Let_def day_def [symmetric] tod_def [symmetric] y_def [symmetric] s by simp
  have "m div 12 = 0" "m mod 12 = m" using m(1, 2) by (simp_all add: div_pos_pos_trivial)
  then have md: "make_day y m (d + 1) = day" using sum by (simp add: make_day_def Let_def)
  have "make_date day tod = t" by (simp add: make_date_def day_def tod_def)
  then show "parts_epoch (fields_of t) = t"
    unfolding f parts_epoch_def using md time_of_day(1) [OF tod] by simp
  have "0 \<le> tod div 3600000" "0 \<le> tod div 60000 mod 60" "tod div 60000 mod 60 \<le> 59"
    "0 \<le> tod div 1000 mod 60" "tod div 1000 mod 60 \<le> 59" "0 \<le> tod mod 1000" "tod mod 1000 \<le> 999"
    using tod(1) pos_mod_bound [of 60 "tod div 60000"] pos_mod_bound [of 60 "tod div 1000"] pos_mod_bound [of 1000 tod]
    by (simp_all only: pos_imp_zdiv_nonneg_iff zero_less_numeral pos_mod_sign)
  moreover have "1 \<le> m + 1" "m + 1 \<le> 12" "1 \<le> d + 1" "d + 1 \<le> month_lengths y ! nat (m + 1 - 1)"
    using m by simp_all
  ultimately show "real_parts (fields_of t)" unfolding f using time_of_day(2) [OF tod] by (intro real_partsI)
qed

lemma parts_epoch_fields:
  assumes "real_parts p"
  shows "fields_of (parts_epoch p) = p"
proof -
  obtain y mo da h mi se ms where p: "p = \<lparr>cp_year = y, cp_month = mo, cp_day = da, cp_hour = h, cp_minute = mi,
      cp_second = se, cp_millisecond = ms\<rparr>" by (cases p) auto
  have r: "1 \<le> mo" "mo \<le> 12" "1 \<le> da" "da \<le> month_lengths y ! nat (mo - 1)" "0 \<le> h" "h \<le> 23" "0 \<le> mi" "mi \<le> 59"
    "0 \<le> se" "se \<le> 59" "0 \<le> ms" "ms \<le> 999" using assms by (simp_all add: real_parts_def p)
  define day where "day = make_day y (mo - 1) da"
  define tod where "tod = make_time h mi se ms"
  have tod: "0 \<le> tod" "tod < 86400000" using r by (simp_all add: tod_def make_time_def)
  have e: "parts_epoch p = day * 86400000 + tod" by (simp add: parts_epoch_def p day_def tod_def make_date_def)
  have dt: "parts_epoch p div 86400000 = day" "parts_epoch p mod 86400000 = tod"
    unfolding e using tod by (simp_all add: div_pos_pos_trivial)
  have mo: "(mo - 1) div 12 = 0" "(mo - 1) mod 12 = mo - 1" using r(1, 2) by (simp_all add: div_pos_pos_trivial)
  have off: "day - days_from_year y = sum_list (take (nat (mo - 1)) (month_lengths y)) + (da - 1)"
    by (simp add: day_def make_day_def mo Let_def)
  have i: "nat (mo - 1) < length (month_lengths y)" using r by simp
  have sp: "split_months (month_lengths y) (day - days_from_year y) = (mo - 1, da - 1)"
    unfolding off using split_months_take [OF i _ _ month_lengths_nonneg, of "da - 1"] r by simp
  have "sum_list (take (nat (mo - 1)) (month_lengths y)) + sum_list (drop (nat (mo - 1)) (month_lengths y)) = year_length y"
    by (metis sum_month_lengths append_take_drop_id sum_list_append)
  moreover have "month_lengths y ! nat (mo - 1) \<le> sum_list (drop (nat (mo - 1)) (month_lengths y))"
  proof -
    have "0 \<le> sum_list (drop (Suc (nat (mo - 1))) (month_lengths y))"
      using month_lengths_nonneg [of y] by (intro sum_list_nonneg) (auto dest: in_set_dropD)
    then show ?thesis using Cons_nth_drop_Suc [OF i, symmetric] by simp
  qed
  moreover have "0 \<le> sum_list (take (nat (mo - 1)) (month_lengths y))"
    using month_lengths_nonneg [of y] by (intro sum_list_nonneg) (auto dest: in_set_takeD)
  ultimately have "days_from_year y \<le> day" "day < days_from_year (y + 1)"
    using off r days_from_year_Suc [of y] by simp_all
  then have y: "year_of_day day = y" by (rule year_unique)
  have "tod div 3600000 = h" "tod div 60000 mod 60 = mi" "tod div 1000 mod 60 = se" "tod mod 1000 = ms"
  proof -
    have q0: "tod = 1000 * (h * 3600 + mi * 60 + se) + ms" by (simp add: tod_def make_time_def)
    have rng: "0 \<le> ms" "ms < 1000" "0 \<le> se" "se < 60" "0 \<le> mi" "mi < 60" using r by simp_all
    have q: "tod div 1000 = h * 3600 + mi * 60 + se" "tod mod 1000 = ms"
      by (rule int_div_pos_eq [OF q0 rng(1, 2)], rule int_mod_pos_eq [OF q0 rng(1, 2)])
    have n0: "tod div 1000 = 60 * (h * 60 + mi) + se" unfolding q by simp
    have n: "tod div 1000 div 60 = h * 60 + mi" "tod div 1000 mod 60 = se"
      by (rule int_div_pos_eq [OF n0 rng(3, 4)], rule int_mod_pos_eq [OF n0 rng(3, 4)])
    have z0: "tod div 1000 div 60 = 60 * h + mi" unfolding n by simp
    have z: "tod div 1000 div 60 div 60 = h" "tod div 1000 div 60 mod 60 = mi"
      by (rule int_div_pos_eq [OF z0 rng(5, 6)], rule int_mod_pos_eq [OF z0 rng(5, 6)])
    have e: "x div 60000 = x div 1000 div 60" "x div 3600000 = x div 1000 div 60 div 60" for x :: int
      by (simp_all add: zdiv_zmult2_eq [symmetric])
    show "tod div 3600000 = h" "tod div 60000 mod 60 = mi" unfolding e by (rule z)+
    show "tod div 1000 mod 60 = se" "tod mod 1000 = ms" by (rule n q)+
  qed
  then show ?thesis
    unfolding fields_of_def Let_def dt y sp by (simp add: p)
qed

section \<open>Digits\<close>

text \<open>\<open>padStart(k, '0')\<close> of a number below \<open>10 ^ k\<close>, and \<open>Number\<close> of a digit string.\<close>

fun fixed_digits :: "nat \<Rightarrow> int \<Rightarrow> string" where
  "fixed_digits 0 n = []"
| "fixed_digits (Suc k) n = fixed_digits k (n div 10) @ [char_of (48 + nat (n mod 10))]"

definition is_digit :: "char \<Rightarrow> bool" where
  "is_digit c = (48 \<le> (of_char c :: nat) \<and> (of_char c :: nat) \<le> 57)"

definition digits_value :: "string \<Rightarrow> int" where
  "digits_value s = foldl (\<lambda>n c. 10 * n + (int (of_char c) - 48)) 0 s"

lemma length_fixed_digits [simp]: "length (fixed_digits k n) = k"
  by (induction k arbitrary: n) simp_all

lemma digit_char:
  assumes "0 \<le> n" "n < 10"
  shows "of_char (char_of (48 + nat n) :: char) = 48 + nat n"
proof -
  have "48 + nat n < 256" using assms by simp
  then show ?thesis by (simp add: of_char_of)
qed

lemma fixed_digits_digits: "list_all is_digit (fixed_digits k n)"
proof (induction k arbitrary: n)
  case 0
  then show ?case by simp
next
  case (Suc k)
  have "0 \<le> n mod 10" "n mod 10 < 10" by simp_all
  then have "nat (n mod 10) \<le> 9" by linarith
  with Suc digit_char [of "n mod 10"] show ?case by (simp add: is_digit_def)
qed

lemma digits_value_fixed: "0 \<le> n \<Longrightarrow> n < 10 ^ k \<Longrightarrow> digits_value (fixed_digits k n) = n"
proof (induction k arbitrary: n)
  case 0
  then show ?case by (simp add: digits_value_def)
next
  case (Suc k)
  have "0 \<le> n div 10" "n div 10 < 10 ^ k" using Suc.prems div_lin(1) [of 10 n]
    by (simp_all add: pos_imp_zdiv_nonneg_iff)
  then have "digits_value (fixed_digits k (n div 10)) = n div 10" by (rule Suc.IH)
  then show ?case using digit_char [of "n mod 10"] by (simp add: digits_value_def)
qed

text \<open>Reading \<open>\d{k}\<close> and one literal character.\<close>

definition take_digits :: "nat \<Rightarrow> string \<Rightarrow> (int \<times> string) option" where
  "take_digits k s =
     (if k \<le> length s \<and> list_all is_digit (take k s) then Some (digits_value (take k s), drop k s) else None)"

fun expect :: "char \<Rightarrow> string \<Rightarrow> string option" where
  "expect c [] = None"
| "expect c (x # xs) = (if x = c then Some xs else None)"

lemma take_digits_fixed [simp]:
  "0 \<le> n \<Longrightarrow> n < 10 ^ k \<Longrightarrow> take_digits k (fixed_digits k n @ s) = Some (n, s)"
  using fixed_digits_digits [of k n] digits_value_fixed [of n k] by (simp add: take_digits_def)

section \<open>Instants\<close>

text \<open>\<open>new Date(t).toISOString()\<close>; outside the years 0 to 9999 the year has a sign and six digits.\<close>

definition iso_year :: "int \<Rightarrow> string" where
  "iso_year y =
     (if 0 \<le> y \<and> y \<le> 9999 then fixed_digits 4 y
      else (if y < 0 then CHR ''-'' else CHR ''+'') # fixed_digits 6 \<bar>y\<bar>)"

definition parts_iso :: "calendar_parts \<Rightarrow> string" where
  "parts_iso p =
     iso_year (cp_year p) @ ''-'' @ fixed_digits 2 (cp_month p) @ ''-'' @ fixed_digits 2 (cp_day p) @ ''T''
     @ fixed_digits 2 (cp_hour p) @ '':'' @ fixed_digits 2 (cp_minute p) @ '':'' @ fixed_digits 2 (cp_second p)
     @ ''.'' @ fixed_digits 3 (cp_millisecond p) @ ''Z''"

definition toISOString :: "int \<Rightarrow> string" where
  "toISOString t = parts_iso (fields_of t)"

text \<open>\<open>YYYY-MM-DDTHH:mm:ss\<close>, the part all accepted forms begin with.\<close>

definition read_seconds :: "string \<Rightarrow> (calendar_parts \<times> string) option" where
  "read_seconds s =
     Option.bind (take_digits 4 s) (\<lambda>(y, s). Option.bind (expect CHR ''-'' s) (\<lambda>s.
     Option.bind (take_digits 2 s) (\<lambda>(mo, s). Option.bind (expect CHR ''-'' s) (\<lambda>s.
     Option.bind (take_digits 2 s) (\<lambda>(d, s). Option.bind (expect CHR ''T'' s) (\<lambda>s.
     Option.bind (take_digits 2 s) (\<lambda>(h, s). Option.bind (expect CHR '':'' s) (\<lambda>s.
     Option.bind (take_digits 2 s) (\<lambda>(mi, s). Option.bind (expect CHR '':'' s) (\<lambda>s.
     Option.bind (take_digits 2 s) (\<lambda>(se, s).
       Some (\<lparr>cp_year = y, cp_month = mo, cp_day = d, cp_hour = h, cp_minute = mi, cp_second = se, cp_millisecond = 0\<rparr>, s))))))))))))"

text \<open>The shape of \<open>toISOString\<close> for a four-digit year.\<close>

definition read_instant :: "string \<Rightarrow> calendar_parts option" where
  "read_instant s =
     Option.bind (read_seconds s) (\<lambda>(p, s). Option.bind (expect CHR ''.'' s) (\<lambda>s.
     Option.bind (take_digits 3 s) (\<lambda>(ms, s). if s = ''Z'' then Some (p\<lparr>cp_millisecond := ms\<rparr>) else None)))"

text \<open>
  \<open>Date.parse\<close> of such a string, \<open>None\<close> for \<open>NaN\<close>. A day beyond its month is carried into the next one;
  the code modelled here rejects such a string in any case.
\<close>

definition date_parse :: "string \<Rightarrow> int option" where
  "date_parse s = map_option parts_epoch (read_instant s)"

lemma read_instant_iso:
  assumes "real_parts p" and "0 \<le> cp_year p" and "cp_year p \<le> 9999"
  shows "read_instant (parts_iso p) = Some p"
proof -
  obtain y mo d h mi se ms where p: "p = \<lparr>cp_year = y, cp_month = mo, cp_day = d, cp_hour = h, cp_minute = mi,
      cp_second = se, cp_millisecond = ms\<rparr>" by (cases p) auto
  have len: "month_lengths y ! nat (mo - 1) \<le> 31" if "1 \<le> mo" "mo \<le> 12"
  proof -
    have "nat (mo - 1) < length (month_lengths y)" using that by simp
    then have "month_lengths y ! nat (mo - 1) \<in> set (month_lengths y)" by (rule nth_mem)
    then show ?thesis by (auto simp: month_lengths_def split: if_splits)
  qed
  have r: "0 \<le> y" "y < 10 ^ 4" "0 \<le> mo" "mo < 10\<^sup>2" "0 \<le> d" "d < 10\<^sup>2" "0 \<le> h" "h < 10\<^sup>2" "0 \<le> mi" "mi < 10\<^sup>2"
    "0 \<le> se" "se < 10\<^sup>2" "0 \<le> ms" "ms < 10 ^ 3"
    using assms len by (simp_all add: p real_parts_def)
  have y: "iso_year y = fixed_digits 4 y" using assms by (simp add: iso_year_def p)
  show ?thesis
    unfolding parts_iso_def p calendar_parts.simps y
    using r by (simp add: read_instant_def read_seconds_def del: fixed_digits.simps)
qed

definition MIN_FOUR_DIGIT_YEAR_MS :: int where
  "MIN_FOUR_DIGIT_YEAR_MS = - 62135596800000"

definition MAX_FOUR_DIGIT_YEAR_MS :: int where
  "MAX_FOUR_DIGIT_YEAR_MS = 253402300799999"

definition four_digit :: "int \<Rightarrow> bool" where
  "four_digit t \<longleftrightarrow> MIN_FOUR_DIGIT_YEAR_MS \<le> t \<and> t \<le> MAX_FOUR_DIGIT_YEAR_MS"

lemma four_digit_year: "four_digit t \<longleftrightarrow> 1 \<le> cp_year (fields_of t) \<and> cp_year (fields_of t) \<le> 9999"
proof -
  define d where "d = t div 86400000"
  have y: "cp_year (fields_of t) = year_of_day d" by (simp add: fields_of_def Let_def d_def split: prod.split)
  have "1 \<le> year_of_day d \<longleftrightarrow> days_from_year 1 \<le> d"
    using days_from_year_mono [of 1 "year_of_day d"] days_from_year_mono [of "year_of_day d + 1" 1] year_of_day [of d] by linarith
  moreover have "year_of_day d \<le> 9999 \<longleftrightarrow> d < days_from_year 10000"
    using days_from_year_mono [of 10000 "year_of_day d"] days_from_year_mono [of "year_of_day d + 1" 10000] year_of_day [of d] by linarith
  moreover have "days_from_year 1 = - 719162" "days_from_year 10000 = 2932897" by (simp_all add: days_from_year_def)
  moreover have "- 719162 \<le> d \<longleftrightarrow> - 62135596800000 \<le> t" "d < 2932897 \<longleftrightarrow> t \<le> 253402300799999"
    using div_lin [of 86400000 t] unfolding d_def [symmetric] by linarith+
  ultimately show ?thesis by (simp add: four_digit_def MIN_FOUR_DIGIT_YEAR_MS_def MAX_FOUR_DIGIT_YEAR_MS_def y)
qed

lemma date_parse_iso: "four_digit t \<Longrightarrow> date_parse (toISOString t) = Some t"
  using read_instant_iso [of "fields_of t"] fields_of_epoch [of t]
  by (simp add: date_parse_def toISOString_def four_digit_year)

end
