(* ===== verification/Schedule_Runtime.thy ===== *)
theory Schedule_Runtime
  imports Schedule_Domain
begin

text \<open>
  The reminder runtime (packages/schedule/schedule/src/runtime.ts) and the management tools
  (tools.ts) over a session log. A drive is one run of \<open>driveOnce\<close>; what it asks of the rest of the
  program, the durability barrier, the clock, the idle phase of the agent and whether the agent is
  live, is the input of the drive. An append goes through the check of invariant.ts. Transactions of
  one agent run one after the other (transaction.ts), so each is one function here.
\<close>

section \<open>The log\<close>

record schedule_log =
  sl_events :: "session_event list"
  sl_seed :: nat

definition fold_log :: "schedule_log \<Rightarrow> log_error + folded_schedules" where
  "fold_log l = foldScheduleEvents (sl_events l) (sl_seed l)"

definition change_event :: "nat \<Rightarrow> schedule_change \<Rightarrow> session_event list \<Rightarrow> session_event" where
  "change_event now ch evs =
     \<lparr>ev_seq = length evs, ev_time = now, ev_data = OtherEvent ''schedule/change'' (change_json ch),
      ev_surfaceOp = None, ev_sourceEventSeqs = None, ev_ignorable = False\<rparr>"

text \<open>\<open>session.append\<close> of a change: \<open>None\<close> when the invariant rejects it.\<close>

definition append_change :: "nat \<Rightarrow> schedule_change \<Rightarrow> schedule_log \<Rightarrow> schedule_log option" where
  "append_change now ch l =
     (let l1 = l\<lparr>sl_events := sl_events l @ [change_event now ch (sl_events l)]\<rparr> in
      if is_ok (fold_log l1) then Some l1 else None)"

section \<open>Decisions\<close>

datatype due_decision =
    DueOneShot schedule_record
  | DueEvery "(schedule_record \<times> string) list" string  \<comment> \<open>reminders, acceptedAt\<close>
  | DueWait "int option"

definition MAX_TIMER_DELAY_MS :: int where
  "MAX_TIMER_DELAY_MS = 2147483647"

fun is_every :: "schedule_record \<Rightarrow> bool" where
  "is_every (EveryRecord _ _ _ _) = True"
| "is_every _ = False"

definition target_ms :: "schedule_record \<Rightarrow> int" where
  "target_ms r = (case date_parse (sr_scheduledAt r) of Some t \<Rightarrow> t | None \<Rightarrow> 0)"

definition is_due :: "int \<Rightarrow> schedule_record \<Rightarrow> bool" where
  "is_due now r = (case date_parse (sr_scheduledAt r) of Some t \<Rightarrow> t \<le> now | None \<Rightarrow> False)"

fun every_due :: "int \<Rightarrow> schedule_record list \<Rightarrow> log_error + (schedule_record \<times> string) list" where
  "every_due now [] = Inr []"
| "every_due now (r # rs) =
     bind_res (resolveEveryOccurrence r (Some now)) (\<lambda>(occ, _).
     bind_res (every_due now rs) (\<lambda>ds. Inr ((r, occ) # ds)))"

text \<open>The comparison by target and then by position is a stable sort by target.\<close>

definition due_one_shots :: "int \<Rightarrow> schedule_record list \<Rightarrow> schedule_record list" where
  "due_one_shots now rs = sort_key target_ms (filter (\<lambda>r. \<not> is_every r \<and> is_due now r) rs)"

definition due_everys :: "int \<Rightarrow> schedule_record list \<Rightarrow> schedule_record list" where
  "due_everys now rs = sort_key target_ms (filter (\<lambda>r. is_every r \<and> is_due now r) rs)"

definition next_target :: "int \<Rightarrow> schedule_record list \<Rightarrow> int option" where
  "next_target now rs =
     foldl (\<lambda>sel r. case date_parse (sr_scheduledAt r) of
              None \<Rightarrow> sel
            | Some c \<Rightarrow> if now < c \<and> (case sel of None \<Rightarrow> True | Some s \<Rightarrow> c < s) then Some c else sel) None rs"

definition dueDecision :: "folded_schedules \<Rightarrow> int \<Rightarrow> log_error + due_decision" where
  "dueDecision f now =
     (case due_one_shots now (fs_active f) of
        r # _ \<Rightarrow> Inr (DueOneShot r)
      | [] \<Rightarrow>
          if due_everys now (fs_active f) \<noteq> []
          then bind_res (every_due now (due_everys now (fs_active f))) (\<lambda>ds. Inr (DueEvery ds (toISOString now)))
          else Inr (DueWait (next_target now (fs_active f))))"

section \<open>The runtime\<close>

record schedule_runtime =
  dv_log :: schedule_log
  dv_followups :: "string list"  \<comment> \<open>texts of the messages handed to the agent\<close>
  dv_timer :: "int option"
  dv_requested :: bool
  dv_faulted :: bool
  dv_idleWait :: bool

record drive_input =
  di_runnable :: bool  \<comment> \<open>before the barrier\<close>
  di_flush :: bool
  di_stillRunnable :: bool  \<comment> \<open>after it\<close>
  di_wakeNow :: int
  di_busy :: bool  \<comment> \<open>another activity owns the idle phase\<close>
  di_live :: bool
  di_claimable :: bool  \<comment> \<open>in the idle phase\<close>
  di_now :: int
  di_followup :: bool  \<comment> \<open>the agent takes the message\<close>
  di_barrier :: bool  \<comment> \<open>the barrier after the dispatch\<close>
  di_continues :: bool
  di_time :: nat  \<comment> \<open>event time\<close>

definition arm :: "int option \<Rightarrow> int \<Rightarrow> schedule_runtime \<Rightarrow> schedule_runtime" where
  "arm target now s =
     (case target of None \<Rightarrow> s | Some t \<Rightarrow> s\<lparr>dv_timer := Some (min (t - now) MAX_TIMER_DELAY_MS)\<rparr>)"

fun dispatch_changes :: "due_decision \<Rightarrow> schedule_change list" where
  "dispatch_changes (DueOneShot r) = [DispatchChange (sr_id r) None]"
| "dispatch_changes (DueEvery ds a) = map (\<lambda>d. DispatchChange (sr_id (fst d)) (Some a)) ds"
| "dispatch_changes (DueWait _) = []"

fun due_text :: "due_decision \<Rightarrow> string" where
  "due_text (DueOneShot r) = renderReminderFraming r"
| "due_text (DueEvery ds a) = renderEveryReminderBatchFraming ds"
| "due_text (DueWait _) = []"

text \<open>The appends of one dispatch, up to the first that is rejected.\<close>

fun append_changes :: "nat \<Rightarrow> schedule_change list \<Rightarrow> schedule_log \<Rightarrow> schedule_log \<times> bool" where
  "append_changes now [] l = (l, True)"
| "append_changes now (ch # chs) l =
     (case append_change now ch l of None \<Rightarrow> (l, False) | Some l1 \<Rightarrow> append_changes now chs l1)"

text \<open>What runs in the idle phase; the result says whether a dispatch was recorded.\<close>

definition maintenance :: "drive_input \<Rightarrow> schedule_runtime \<Rightarrow> schedule_runtime \<times> bool" where
  "maintenance i s =
     (if \<not> di_claimable i then (s, False)
      else case fold_log (dv_log s) of
        Inl _ \<Rightarrow> (s\<lparr>dv_faulted := True\<rparr>, False)
      | Inr claimed \<Rightarrow>
          (case dueDecision claimed (di_now i) of
             Inl _ \<Rightarrow> (s, False)
           | Inr (DueWait target) \<Rightarrow> (arm target (di_now i) s, False)
           | Inr d \<Rightarrow>
               if \<not> di_followup i then (s, False)
               else (case append_changes (di_time i) (dispatch_changes d) (dv_log s) of
                       (l, True) \<Rightarrow> (s\<lparr>dv_followups := dv_followups s @ [due_text d], dv_log := l\<rparr>, True)
                     | (l, False) \<Rightarrow>
                         (s\<lparr>dv_followups := dv_followups s @ [due_text d], dv_log := l, dv_faulted := True, dv_timer := None\<rparr>, False))))"

definition driveOnce :: "drive_input \<Rightarrow> schedule_runtime \<Rightarrow> schedule_runtime" where
  "driveOnce i s0 =
     (let s = s0\<lparr>dv_timer := None\<rparr> in
      if \<not> di_runnable i \<or> \<not> di_flush i \<or> \<not> di_stillRunnable i then s
      else case fold_log (dv_log s) of
        Inl _ \<Rightarrow> s\<lparr>dv_faulted := True\<rparr>
      | Inr folded \<Rightarrow>
          (case dueDecision folded (di_wakeNow i) of
             Inl _ \<Rightarrow> s
           | Inr (DueWait target) \<Rightarrow> arm target (di_wakeNow i) s
           | Inr _ \<Rightarrow>
               if di_busy i then (if di_live i then s\<lparr>dv_idleWait := True\<rparr> else s)
               else (case maintenance i s of
                       (s1, False) \<Rightarrow> s1
                     | (s1, True) \<Rightarrow>
                         if di_barrier i \<and> di_continues i then s1\<lparr>dv_timer := None, dv_requested := True\<rparr> else s1)))"

text \<open>The loop of \<open>runRequested\<close>, over the inputs its drives meet.\<close>

fun runRequested :: "drive_input list \<Rightarrow> schedule_runtime \<Rightarrow> schedule_runtime" where
  "runRequested [] s = s"
| "runRequested (i # is) s =
     (if dv_requested s \<and> \<not> dv_faulted s then runRequested is (driveOnce i (s\<lparr>dv_requested := False\<rparr>)) else s)"

section \<open>The tools\<close>

datatype tool_error =
    SelectorError
  | InputError input_error
  | DeleteIdError
  | CorruptLog
  | PersistenceUncertain string "string option"  \<comment> \<open>operation, id\<close>
  | InternalError

record tool_input =
  ti_sameAgent :: bool
  ti_cancelled :: bool
  ti_flush :: bool
  ti_cancelledLater :: bool  \<comment> \<open>before the append\<close>
  ti_barrier :: bool
  ti_now :: int
  ti_viewNow :: int
  ti_time :: nat
  ti_intl :: intl

record create_args =
  ca_prompt :: string
  ca_after :: "jsnum option"
  ca_at :: "json option"
  ca_every :: "jsnum option"
  ca_otherKeys :: bool

definition validateCreateArgs :: "create_args \<Rightarrow> tool_error option" where
  "validateCreateArgs a =
     (if ca_otherKeys a
         \<or> length (filter id [ca_after a \<noteq> None, ca_at a \<noteq> None, ca_every a \<noteq> None]) \<noteq> 1 then Some SelectorError
      else if js_trim (ca_prompt a) = [] then Some (InputError EmptyPrompt)
      else if (case ca_after a of None \<Rightarrow> False | Some (JFrac _) \<Rightarrow> True
                | Some (JInt n) \<Rightarrow> \<not> is_safe_integer (JInt n) \<or> n \<le> 0) then Some (InputError AfterNotPositive)
      else if (case ca_every a of None \<Rightarrow> False | Some n \<Rightarrow> \<not> is_safe_integer n) then Some (InputError EveryNotSafe)
      else if (case ca_every a of Some (JInt n) \<Rightarrow> n < MIN_EVERY_INTERVAL_SECONDS | _ \<Rightarrow> False) then Some (InputError TooFrequent)
      else None)"

text \<open>The exactly one selector of validated arguments.\<close>

definition create_record :: "tool_input \<Rightarrow> create_args \<Rightarrow> string \<Rightarrow> input_error + schedule_record" where
  "create_record ti a i =
     (case ca_at a of
        Some v \<Rightarrow> createAtScheduleRecord (ti_intl ti) i (ca_prompt a) v (ti_now ti)
      | None \<Rightarrow>
          (case ca_after a of
             Some n \<Rightarrow> createAfterScheduleRecord i (ca_prompt a) n (ti_now ti)
           | None \<Rightarrow> createEveryScheduleRecord i (ca_prompt a) (case ca_every a of Some n \<Rightarrow> n | None \<Rightarrow> JFrac 0) (ti_now ti)))"

text \<open>A fresh identity always exists (\<open>next_free_total\<close>), so its missing case is not reached.\<close>

definition schedule_create :: "tool_input \<Rightarrow> create_args \<Rightarrow> schedule_log \<Rightarrow> (tool_error + schedule_view) \<times> schedule_log" where
  "schedule_create ti a l =
     (if \<not> ti_sameAgent ti then (Inl InternalError, l)
      else case validateCreateArgs a of
        Some e \<Rightarrow> (Inl e, l)
      | None \<Rightarrow>
          if ti_cancelled ti then (Inl InternalError, l)
          else if \<not> ti_flush ti then (Inl (PersistenceUncertain ''create'' None), l)
          else (case fold_log l of
             Inl _ \<Rightarrow> (Inl CorruptLog, l)
           | Inr folded \<Rightarrow>
               (case allocateScheduleId folded of
                  None \<Rightarrow> (Inl InternalError, l)
                | Some i \<Rightarrow>
                    (case create_record ti a i of
                       Inl e \<Rightarrow> (Inl (InputError e), l)
                     | Inr r \<Rightarrow>
                         if ti_cancelledLater ti then (Inl InternalError, l)
                         else (case append_change (ti_time ti) (CreateChange r) l of
                            None \<Rightarrow> (Inl InternalError, l)
                          | Some l1 \<Rightarrow>
                              if \<not> ti_barrier ti then (Inl (PersistenceUncertain ''create'' (Some i)), l1)
                              else (Inr (scheduleView r (ti_viewNow ti)), l1))))))"

definition schedule_list :: "tool_input \<Rightarrow> schedule_log \<Rightarrow> tool_error + schedule_view list" where
  "schedule_list ti l =
     (if \<not> ti_sameAgent ti \<or> ti_cancelled ti then Inl InternalError
      else if \<not> ti_flush ti then Inl (PersistenceUncertain ''list'' None)
      else case fold_log l of
        Inl _ \<Rightarrow> Inl CorruptLog
      | Inr folded \<Rightarrow> Inr (map (\<lambda>r. scheduleView r (ti_now ti)) (fs_active folded)))"

definition schedule_delete :: "tool_input \<Rightarrow> string \<Rightarrow> schedule_log \<Rightarrow> (tool_error + bool) \<times> schedule_log" where
  "schedule_delete ti i l =
     (if i = [] \<or> js_trim i \<noteq> i then (Inl DeleteIdError, l)
      else if \<not> ti_sameAgent ti \<or> ti_cancelled ti then (Inl InternalError, l)
      else if \<not> ti_flush ti then (Inl (PersistenceUncertain ''delete'' (Some i)), l)
      else case fold_log l of
        Inl _ \<Rightarrow> (Inl CorruptLog, l)
      | Inr folded \<Rightarrow>
          if \<not> list_ex (\<lambda>r. sr_id r = i) (fs_active folded) then (Inr False, l)
          else if ti_cancelledLater ti then (Inl InternalError, l)
          else (case append_change (ti_time ti) (DeleteChange i) l of
             None \<Rightarrow> (Inl InternalError, l)
           | Some l1 \<Rightarrow> if \<not> ti_barrier ti then (Inl (PersistenceUncertain ''delete'' (Some i)), l1) else (Inr True, l1)))"

end
