(* ===== verification/Schedule_Laws.thy ===== *)
theory Schedule_Laws
  imports Schedule_Runtime
begin

text \<open>
  The laws of reminders: accepted instants are the printed ones, decoding inverts encoding, every
  fixed-rate decision is the last due occurrence, identities are fresh, every record of a folded log
  is well formed, and a runtime that is driven at one instant delivers every due reminder.
\<close>

section \<open>Instants\<close>

lemma iso_year_signed:
  "\<not> (0 \<le> y \<and> y \<le> 9999) \<Longrightarrow> read_instant (iso_year y @ s) = None"
  by (simp add: iso_year_def read_instant_def read_seconds_def take_digits_def is_digit_def)

lemma read_instant_year:
  assumes "read_instant s = Some p"
  shows "0 \<le> cp_year p"
proof -
  have nn: "0 \<le> digits_value d" if "list_all is_digit d" for d
    using that
  proof (induction d rule: rev_induct)
    case Nil
    then show ?case by (simp add: digits_value_def)
  next
    case (snoc c d)
    then have "0 \<le> int (of_char c) - 48" by (simp add: is_digit_def)
    with snoc show ?case by (simp add: digits_value_def)
  qed
  from assms obtain q s1 where r: "read_seconds s = Some (q, s1)" "cp_year q = cp_year p"
    by (auto simp: read_instant_def bind_eq_Some_conv split: if_splits)
  from r(1) obtain y s2 where y: "take_digits 4 s = Some (y, s2)" and q: "cp_year q = y"
    by (auto simp: read_seconds_def bind_eq_Some_conv)
  then show ?thesis using nn [of "take 4 s"] r(2) by (auto simp: take_digits_def split: if_splits)
qed

lemma iso_of_instant:
  assumes "read_instant s = Some p" and "toISOString (parts_epoch p) = s" and "cp_year p \<noteq> 0"
  shows "four_digit (parts_epoch p)"
proof -
  let ?f = "fields_of (parts_epoch p)"
  have s: "s = parts_iso ?f" using assms(2) by (simp add: toISOString_def)
  have y: "0 \<le> cp_year ?f \<and> cp_year ?f \<le> 9999"
  proof (rule ccontr)
    assume "\<not> (0 \<le> cp_year ?f \<and> cp_year ?f \<le> 9999)"
    then have "read_instant s = None" unfolding s parts_iso_def by (rule iso_year_signed)
    with assms(1) show False by simp
  qed
  then have "read_instant s = Some ?f" unfolding s using read_instant_iso [OF fields_of_epoch(2)] by simp
  with assms(1) have "p = ?f" by simp
  with read_instant_year [OF assms(1)] assms(3) y show ?thesis by (simp add: four_digit_year)
qed

lemma utc_instant_iso: "four_digit t \<Longrightarrow> utc_instant (toISOString t)"
proof -
  assume t: "four_digit t"
  let ?p = "fields_of t"
  have r: "real_parts ?p" by (rule fields_of_epoch(2))
  have "nat (cp_month ?p - 1) < length (month_lengths (cp_year ?p))" using r by (auto simp: real_parts_def nat_less_iff)
  then have "month_lengths (cp_year ?p) ! nat (cp_month ?p - 1) \<in> set (month_lengths (cp_year ?p))" by (rule nth_mem)
  then have "month_lengths (cp_year ?p) ! nat (cp_month ?p - 1) \<le> 31" by (auto simp: month_lengths_def split: if_splits)
  with r t read_instant_iso [OF r] show ?thesis
    by (simp add: utc_instant_def toISOString_def four_digit_year real_parts_def)
qed

lemma decodeInstant_iff:
  "decodeInstant (Some (JStr s)) = Inr s' \<longleftrightarrow> s' = s \<and> (\<exists>t. four_digit t \<and> s = toISOString t)"
proof
  assume d: "decodeInstant (Some (JStr s)) = Inr s'"
  then obtain p where p: "read_instant s = Some p" "cp_year p \<noteq> 0"
    by (auto simp: utc_instant_def split: if_splits option.splits)
  with d have e: "toISOString (parts_epoch p) = s" "s' = s"
    by (auto simp: date_parse_def split: if_splits)
  with iso_of_instant [OF p(1) e(1) p(2)] show "s' = s \<and> (\<exists>t. four_digit t \<and> s = toISOString t)" by auto
next
  assume "s' = s \<and> (\<exists>t. four_digit t \<and> s = toISOString t)"
  then show "decodeInstant (Some (JStr s)) = Inr s'"
    using utc_instant_iso date_parse_iso by auto
qed

lemma decodeInstant_iso [simp]: "four_digit t \<Longrightarrow> decodeInstant (Some (JStr (toISOString t))) = Inr (toISOString t)"
  using decodeInstant_iff by blast

declare decodeInstant.simps [simp del]

lemma decodeInstant_Inr: "decodeInstant v = Inr s \<Longrightarrow> \<exists>t. four_digit t \<and> s = toISOString t"
  by (cases v rule: decodeInstant.cases) (auto simp: decodeInstant_iff, auto simp: decodeInstant.simps)

section \<open>Well-formed records\<close>

definition id_ok :: "string \<Rightarrow> bool" where
  "id_ok i \<longleftrightarrow> i \<noteq> [] \<and> js_trim i = i"

fun record_ok :: "schedule_record \<Rightarrow> bool" where
  "record_ok (AfterRecord i p n t) \<longleftrightarrow>
     id_ok i \<and> id_ok p \<and> is_safe_integer (JInt n) \<and> 0 < n \<and> (\<exists>e. four_digit e \<and> t = toISOString e)"
| "record_ok (AtRecord i p t) \<longleftrightarrow> id_ok i \<and> id_ok p \<and> (\<exists>e. four_digit e \<and> t = toISOString e)"
| "record_ok (EveryRecord i p n t) \<longleftrightarrow>
     id_ok i \<and> id_ok p \<and> is_safe_integer (JInt n) \<and> MIN_EVERY_INTERVAL_SECONDS \<le> n \<and> is_safe_integer (JInt (n * 1000))
     \<and> (\<exists>e. four_digit e \<and> t = toISOString e)"

fun change_ok :: "schedule_change \<Rightarrow> bool" where
  "change_ok (CreateChange r) \<longleftrightarrow> record_ok r"
| "change_ok (DeleteChange i) \<longleftrightarrow> id_ok i"
| "change_ok (DispatchChange i a) \<longleftrightarrow> id_ok i \<and> (\<forall>t. a = Some t \<longrightarrow> (\<exists>e. four_digit e \<and> t = toISOString e))"

lemma decodeId_iff: "decodeId v = Inr i \<longleftrightarrow> v = Some (JStr i) \<and> id_ok i"
  by (cases v rule: decodeId.cases) (auto simp: id_ok_def)

lemma decode_prompt_iff: "decode_prompt k v = Inr i \<longleftrightarrow> v = Some (JStr i) \<and> id_ok i"
  by (cases "(k, v)" rule: decode_prompt.cases) (auto simp: id_ok_def)

lemma safe_integer_iff: "safe_integer v = Some n \<longleftrightarrow> v = Some (JNum (JInt n)) \<and> is_safe_integer (JInt n)"
  by (cases v rule: safe_integer.cases) auto

lemma decodeAfter_ok: "decodeAfterRecord v = Inr r \<Longrightarrow> record_ok r"
  by (cases "safe_integer (jget ''afterSeconds'' v)")
     (auto simp: decodeAfterRecord_def bind_res_Inr_iff decodeId_iff decode_prompt_iff not_le
        simp del: is_safe_integer.simps dest: decodeInstant_Inr iffD1 [OF safe_integer_iff] split: if_splits)

lemma decodeEvery_ok: "decodeEveryRecord v = Inr r \<Longrightarrow> record_ok r"
  by (cases "safe_integer (jget ''everySeconds'' v)")
     (auto simp: decodeEveryRecord_def bind_res_Inr_iff decodeId_iff decode_prompt_iff not_less
        simp del: is_safe_integer.simps dest: decodeInstant_Inr iffD1 [OF safe_integer_iff] split: if_splits)

lemma decodeAt_ok: "decodeAtRecord v = Inr r \<Longrightarrow> record_ok r"
  by (auto simp: decodeAtRecord_def bind_res_Inr_iff decodeId_iff decode_prompt_iff dest: decodeInstant_Inr split: if_splits)

lemma decode_record_ok: "decodeScheduleRecord v = Inr r \<Longrightarrow> record_ok r"
  by (auto simp: decodeScheduleRecord_def dest: decodeAfter_ok decodeAt_ok decodeEvery_ok split: option.splits if_splits)

lemma decode_change_ok: "decodeScheduleChange v = Inr c \<Longrightarrow> change_ok c"
  by (auto simp: decodeScheduleChange_def bind_res_Inr_iff decodeId_iff
      dest: decodeInstant_Inr decode_record_ok split: if_splits)

lemma decode_record_json: "record_ok r \<Longrightarrow> decodeScheduleRecord (Some (record_json r)) = Inr r"
proof (cases r)
  case (AfterRecord i p n t)
  then show "record_ok r \<Longrightarrow> decodeScheduleRecord (Some (record_json r)) = Inr r"
    by (auto simp: decodeScheduleRecord_def decodeAfterRecord_def hasExactKeys_def id_ok_def simp del: is_safe_integer.simps)
next
  case (AtRecord i p t)
  then show "record_ok r \<Longrightarrow> decodeScheduleRecord (Some (record_json r)) = Inr r"
    by (auto simp: decodeScheduleRecord_def decodeAtRecord_def hasExactKeys_def id_ok_def)
next
  case (EveryRecord i p n t)
  then show "record_ok r \<Longrightarrow> decodeScheduleRecord (Some (record_json r)) = Inr r"
    by (auto simp: decodeScheduleRecord_def decodeEveryRecord_def hasExactKeys_def id_ok_def simp del: is_safe_integer.simps)
qed

lemma decode_change_json: "change_ok c \<Longrightarrow> decodeScheduleChange (change_json c) = Inr c"
proof (cases c rule: change_json.cases)
  case (1 r)
  then show "change_ok c \<Longrightarrow> decodeScheduleChange (change_json c) = Inr c"
    by (simp add: decodeScheduleChange_def hasExactKeys_def decode_record_json)
next
  case (2 i)
  then show "change_ok c \<Longrightarrow> decodeScheduleChange (change_json c) = Inr c"
    by (simp add: decodeScheduleChange_def hasExactKeys_def id_ok_def)
next
  case (3 i)
  then show "change_ok c \<Longrightarrow> decodeScheduleChange (change_json c) = Inr c"
    by (simp add: decodeScheduleChange_def hasExactKeys_def id_ok_def)
next
  case (4 i t)
  then show "change_ok c \<Longrightarrow> decodeScheduleChange (change_json c) = Inr c"
    by (auto simp: decodeScheduleChange_def hasExactKeys_def id_ok_def)
qed

section \<open>Fixed-rate occurrences\<close>

text \<open>The reference: step from the target while the next occurrence is due.\<close>

function last_due :: "int \<Rightarrow> int \<Rightarrow> int \<Rightarrow> int" where
  "last_due t step now = (if 0 < step \<and> t + step \<le> now then last_due (t + step) step now else t)"
  by pat_completeness auto
termination by (relation "measure (\<lambda>(t, step, now). nat (now - t))") auto

declare last_due.simps [simp del]

lemma last_due_spec:
  "0 < step \<Longrightarrow> t \<le> now \<Longrightarrow> t \<le> last_due t step now \<and> last_due t step now \<le> now \<and> now < last_due t step now + step
     \<and> last_due t step now = t + (now - t) div step * step"
proof (induction t step now rule: last_due.induct)
  case (1 t step now)
  show ?case
  proof (cases "t + step \<le> now")
    case True
    have "(now - t) div step = (now - (t + step)) div step + 1"
      using div_add_self2 [of step "now - (t + step)"] 1(2) by (simp add: algebra_simps)
    with 1 True show ?thesis by (subst (1 2 3 4) last_due.simps) (auto simp: algebra_simps)
  next
    case False
    then have "(now - t) div step = 0" using 1 by (simp add: div_pos_pos_trivial)
    with 1 False show ?thesis by (subst (1 2 3 4) last_due.simps) simp
  qed
qed

lemma four_digit_safe: "four_digit t \<Longrightarrow> is_safe_integer (JInt t)"
  by (auto simp: four_digit_def MIN_FOUR_DIGIT_YEAR_MS_def MAX_FOUR_DIGIT_YEAR_MS_def max_safe_integer_def abs_if)

lemma four_digit_between: "four_digit a \<Longrightarrow> four_digit b \<Longrightarrow> a \<le> t \<Longrightarrow> t \<le> b \<Longrightarrow> four_digit t"
  by (simp add: four_digit_def)

lemma resolveEvery_eq:
  assumes "0 < n" "is_safe_integer (JInt (n * 1000))" "four_digit t" "four_digit now" "t \<le> now"
  shows "resolveEveryOccurrence (EveryRecord i p n (toISOString t)) (Some now) =
     Inr (toISOString (last_due t (n * 1000) now),
          if MAX_FOUR_DIGIT_YEAR_MS < last_due t (n * 1000) now + n * 1000 then None
          else Some (toISOString (last_due t (n * 1000) now + n * 1000)))"
proof -
  define occ where "occ = last_due t (n * 1000) now"
  have pos: "0 < n * 1000" using assms(1) by simp
  have occ: "t \<le> occ" "occ \<le> now" "occ = t + (now - t) div (n * 1000) * (n * 1000)"
    using last_due_spec [OF pos assms(5)] unfolding occ_def by blast+
  have r: "\<not> (\<not> is_safe_integer (JInt now) \<or> now < MIN_FOUR_DIGIT_YEAR_MS \<or> MAX_FOUR_DIGIT_YEAR_MS < now)"
    using assms(4) four_digit_safe [OF assms(4)] by (auto simp: four_digit_def)
  have o: "is_safe_integer (JInt occ)" using four_digit_safe [OF four_digit_between [OF assms(3, 4) occ(1, 2)]] .
  have lo: "- 62135596800000 \<le> occ" using assms(3) occ(1) by (simp add: four_digit_def MIN_FOUR_DIGIT_YEAR_MS_def)
  have nx: "(\<not> is_safe_integer (JInt (occ + n * 1000)) \<or> MAX_FOUR_DIGIT_YEAR_MS < occ + n * 1000)
      = (MAX_FOUR_DIGIT_YEAR_MS < occ + n * 1000)"
    using lo assms(1) by (auto simp: MAX_FOUR_DIGIT_YEAR_MS_def max_safe_integer_def abs_if)
  have i: "\<not> (\<not> is_safe_integer (JInt (n * 1000)) \<or> n * 1000 \<le> 0)" using assms(1, 2) by simp
  have nt: "\<not> now < t" using assms(5) by simp
  have oc: "\<not> (\<not> is_safe_integer (JInt occ) \<or> occ < t \<or> now < occ)" using o occ(1, 2) by simp
  show ?thesis
    unfolding resolveEveryOccurrence_def Let_def option.case schedule_record.sel date_parse_iso [OF assms(3)] occ(3) [symmetric] nx
      occ_def [symmetric]
    by (simp only: r i nt oc if_False if_distrib [of Inr] if_distrib [of "Pair _"])
qed

section \<open>Identities\<close>

lemma nat_string_ne [simp]: "nat_string n \<noteq> []"
  by (subst nat_string.simps) simp

lemma nat_string_value: "digits_value (nat_string n) = int n"
proof (induction n rule: nat_string.induct)
  case (1 n)
  have c: "of_char (char_of (48 + k) :: char) = 48 + k" if "k < 10" for k :: nat
    using that by (simp add: of_char_of)
  show ?case
  proof (cases "n < 10")
    case True
    then show ?thesis using c [of n] by (subst nat_string.simps) (simp add: digits_value_def)
  next
    case False
    with 1 have ih: "digits_value (nat_string (n div 10)) = int (n div 10)" by simp
    have "nat_string n = nat_string (n div 10) @ [char_of (48 + n mod 10)]"
      using False by (subst nat_string.simps) simp
    moreover have "digits_value (xs @ [d]) = 10 * digits_value xs + (int (of_char d) - 48)" for xs d
      by (simp add: digits_value_def)
    ultimately have "digits_value (nat_string n) = 10 * int (n div 10) + (int (of_char (char_of (48 + n mod 10) :: char)) - 48)"
      using ih by metis
    then have "digits_value (nat_string n) = 10 * int (n div 10) + (int (48 + n mod 10) - 48)"
      using c [of "n mod 10"] by (simp only: mod_less_divisor zero_less_numeral)
    also have "\<dots> = int (10 * (n div 10) + n mod 10)" by (simp only: of_nat_add of_nat_mult of_nat_numeral)
    also have "\<dots> = int n" by (simp only: mult_div_mod_eq)
    finally show ?thesis .
  qed
qed

lemma schedule_name_inj: "inj schedule_name"
proof (rule injI)
  fix m n assume "schedule_name m = schedule_name n"
  then have "nat_string m = nat_string n" by (simp add: schedule_name_def)
  then have "int m = int n" by (metis nat_string_value)
  then show "m = n" by simp
qed

lemma next_free_step:
  "schedule_name n \<notin> set seen \<Longrightarrow> next_free seen n = Some (schedule_name n)"
  "schedule_name n \<in> set seen \<Longrightarrow> next_free seen n = next_free seen (n + 1)"
  by (subst next_free.simps, simp)+

lemma next_free_at:
  "schedule_name (n + k) \<notin> set seen \<Longrightarrow> \<exists>j \<le> k. next_free seen n = Some (schedule_name (n + j)) \<and> schedule_name (n + j) \<notin> set seen"
proof (induction k arbitrary: n)
  case 0
  then show ?case using next_free_step(1) [of n seen] by simp
next
  case (Suc k)
  show ?case
  proof (cases "schedule_name n \<in> set seen")
    case True
    from Suc.IH [of "n + 1"] Suc.prems obtain j where "j \<le> k" "next_free seen (n + 1) = Some (schedule_name (n + 1 + j))"
      "schedule_name (n + 1 + j) \<notin> set seen" by auto
    with next_free_step(2) [OF True] show ?thesis by (intro exI [of _ "Suc j"]) simp
  next
    case False
    then show ?thesis using next_free_step(1) [of n seen] by (intro exI [of _ 0]) simp
  qed
qed

lemma next_free_total:
  "\<exists>j \<le> length seen. next_free seen n = Some (schedule_name (n + j)) \<and> schedule_name (n + j) \<notin> set seen"
proof -
  have "\<exists>k \<le> length seen. schedule_name (n + k) \<notin> set seen"
  proof (rule ccontr)
    assume "\<not> ?thesis"
    then have "(\<lambda>k. schedule_name (n + k)) ` {..length seen} \<subseteq> set seen" by auto
    moreover have "inj_on (\<lambda>k. schedule_name (n + k)) {..length seen}"
      using injD [OF schedule_name_inj] by (intro inj_onI) fastforce
    ultimately have "card {..length seen} \<le> card (set seen)" by (metis card_image card_mono finite_set)
    then show False using card_length [of seen] by simp
  qed
  then show ?thesis using next_free_at by (meson le_trans)
qed

lemma schedule_name_ok: "id_ok (schedule_name n)"
proof -
  obtain xs x where n: "nat_string n = xs @ [x]" by (metis nat_string_ne rev_exhaust)
  have "list_all is_digit (nat_string n)"
  proof (induction n rule: nat_string.induct)
    case (1 n)
    have "is_digit (char_of (48 + k))" if "k < 10" for k :: nat
      using that by (simp add: is_digit_def of_char_of)
    with 1 show ?case by (subst nat_string.simps) auto
  qed
  then have "\<not> js_space x" by (auto simp: n is_digit_def js_space_def)
  then show ?thesis by (simp add: id_ok_def schedule_name_def js_trim_def js_space_def n)
qed

section \<open>The fold keeps its records well formed\<close>

definition fold_ok :: "folded_schedules \<Rightarrow> bool" where
  "fold_ok f \<longleftrightarrow> distinct (map sr_id (fs_active f)) \<and> sr_id ` set (fs_active f) \<subseteq> set (fs_seenIds f)
     \<and> distinct (fs_seenIds f) \<and> (\<forall>r \<in> set (fs_active f). record_ok r)"

lemma record_target:
  assumes "record_ok r"
  shows "four_digit (target_ms r)" "date_parse (sr_scheduledAt r) = Some (target_ms r)" "sr_scheduledAt r = toISOString (target_ms r)"
    "id_ok (sr_id r)"
  using assms by (cases r; auto simp: target_ms_def date_parse_iso)+

lemma is_due_ok: "record_ok r \<Longrightarrow> is_due now r \<longleftrightarrow> target_ms r \<le> now"
  by (simp only: is_due_def record_target(2) option.case)

text \<open>What a dispatch at \<open>now\<close> leaves of a record.\<close>

fun after_dispatch :: "int \<Rightarrow> schedule_record \<Rightarrow> schedule_record option" where
  "after_dispatch now (EveryRecord i p n t) =
     (let nx = last_due (target_ms (EveryRecord i p n t)) (n * 1000) now + n * 1000 in
      if MAX_FOUR_DIGIT_YEAR_MS < nx then None else Some (EveryRecord i p n (toISOString nx)))"
| "after_dispatch now r = None"

definition accepted_at :: "int \<Rightarrow> schedule_record \<Rightarrow> string option" where
  "accepted_at now r = (if is_every r then Some (toISOString now) else None)"

lemma resolve_due:
  assumes "record_ok r" "is_every r" "is_due now r" "four_digit now"
  shows "resolveEveryOccurrence r (Some now) =
     Inr (toISOString (last_due (target_ms r) (sr_seconds r * 1000) now), map_option sr_scheduledAt (after_dispatch now r))"
proof -
  obtain i p n t where r: "r = EveryRecord i p n t" using assms(2) by (cases r) auto
  have t: "t = toISOString (target_ms r)" using record_target(3) [OF assms(1)] by (simp add: r)
  have n: "0 < n" "is_safe_integer (JInt (n * 1000))" using assms(1) by (auto simp: r MIN_EVERY_INTERVAL_SECONDS_def)
  have d: "target_ms r \<le> now" using is_due_ok [OF assms(1)] assms(3) by simp
  have "r = EveryRecord i p n (toISOString (target_ms r))" using r t by simp
  with resolveEvery_eq [OF n record_target(1) [OF assms(1)] assms(4) d, of i p]
  have "resolveEveryOccurrence r (Some now) =
     Inr (toISOString (last_due (target_ms r) (n * 1000) now),
          if MAX_FOUR_DIGIT_YEAR_MS < last_due (target_ms r) (n * 1000) now + n * 1000 then None
          else Some (toISOString (last_due (target_ms r) (n * 1000) now + n * 1000)))" by metis
  then show ?thesis by (simp add: r Let_def)
qed

lemma dispatched_due:
  assumes "record_ok r" "is_due now r" "four_digit now"
  shows "dispatchedRecord r (accepted_at now r) = Inr (after_dispatch now r)"
proof (cases r)
  case (EveryRecord i p n t)
  then show ?thesis using resolve_due [OF assms(1) _ assms(2, 3)] date_parse_iso [OF assms(3)]
    by (simp add: accepted_at_def Let_def)
qed (simp_all add: accepted_at_def)

lemma after_dispatch_ok:
  assumes "record_ok r" "after_dispatch now r = Some r'" "is_due now r"
  shows "record_ok r' \<and> sr_id r' = sr_id r \<and> is_every r' \<and> \<not> is_due now r'"
proof -
  obtain i p n t where r: "r = EveryRecord i p n t" using assms(2) by (cases r) auto
  define occ where "occ = last_due (target_ms r) (n * 1000) now"
  have n: "0 < n * 1000" using assms(1) by (simp add: r MIN_EVERY_INTERVAL_SECONDS_def)
  have d: "target_ms r \<le> now" using is_due_ok [OF assms(1)] assms(3) by simp
  from assms(2) have r': "r' = EveryRecord i p n (toISOString (occ + n * 1000))" and le: "occ + n * 1000 \<le> MAX_FOUR_DIGIT_YEAR_MS"
    by (auto simp: r occ_def Let_def split: if_splits)
  have occ: "target_ms r \<le> occ" "now < occ + n * 1000" using last_due_spec [OF n d] unfolding occ_def by blast+
  have "MIN_FOUR_DIGIT_YEAR_MS \<le> occ + n * 1000" using record_target(1) [OF assms(1)] occ(1) n by (simp add: four_digit_def)
  with le have fd: "four_digit (occ + n * 1000)" by (simp add: four_digit_def)
  with assms(1) have ok: "record_ok r'" unfolding r r' by auto
  have "target_ms r' = occ + n * 1000" by (simp add: r' target_ms_def date_parse_iso [OF fd])
  with is_due_ok [OF ok, of now] occ(2) ok show ?thesis by (simp add: r r')
qed

lemma active_get_Some: "distinct (map sr_id rs) \<Longrightarrow> active_get i rs = Some r \<longleftrightarrow> r \<in> set rs \<and> sr_id r = i"
proof (induction rs)
  case Nil
  then show ?case by (simp add: active_get_def)
next
  case (Cons x rs)
  then show ?case by (auto simp: active_get_def)
qed

lemma active_get_None: "active_get i rs = None \<longleftrightarrow> i \<notin> sr_id ` set rs"
  by (auto simp: active_get_def find_None_iff)

lemma ids_active_set: "map sr_id (active_set r rs) = (if sr_id r \<in> sr_id ` set rs then map sr_id rs else map sr_id rs @ [sr_id r])"
  by (auto simp: active_set_def active_get_None)

lemma in_active_set: "x \<in> set (active_set r rs) \<Longrightarrow> x = r \<or> x \<in> set rs"
  by (auto simp: active_set_def split: if_splits)

lemma resolveEvery_Inr:
  assumes "resolveEveryOccurrence r a = Inr x"
  obtains now where "a = Some now" "four_digit now"
    "\<exists>t. date_parse (sr_scheduledAt r) = Some t \<and> t \<le> now"
  using assms by (auto simp: resolveEveryOccurrence_def Let_def four_digit_def split: option.splits if_splits)

lemma dispatched_ok:
  assumes "record_ok r" "dispatchedRecord r a = Inr (Some r')"
  shows "record_ok r' \<and> sr_id r' = sr_id r"
proof -
  obtain i p n t where r: "r = EveryRecord i p n t" using assms(2) by (cases r) (auto split: if_splits)
  from assms(2) obtain s occ where res: "resolveEveryOccurrence r (date_parse s) = Inr (occ, Some (sr_scheduledAt r'))"
    and r': "r' = EveryRecord i p n (sr_scheduledAt r')"
    by (auto simp: r bind_res_Inr_iff split: option.splits)
  from resolveEvery_Inr [OF res] obtain now where now: "date_parse s = Some now" "four_digit now"
    "target_ms r \<le> now" using record_target(2) [OF assms(1)] by auto
  have due: "is_due now r" using is_due_ok [OF assms(1)] now(3) by simp
  have "after_dispatch now r = Some r'"
    using resolve_due [OF assms(1) _ due now(2)] res now(1) r' by (auto simp: r Let_def split: if_splits)
  from after_dispatch_ok [OF assms(1) this due] show ?thesis by blast
qed

lemma apply_ok:
  assumes "fold_ok f" "change_ok c" "applyScheduleChange f c = Inr f'"
  shows "fold_ok f'"
proof (cases c)
  case (CreateChange r)
  with assms(3) have n: "sr_id r \<notin> set (fs_seenIds f)"
    and f': "f' = f\<lparr>fs_seenIds := fs_seenIds f @ [sr_id r], fs_active := active_set r (fs_active f)\<rparr>" by (auto split: if_splits)
  from n assms(1) have na: "sr_id r \<notin> sr_id ` set (fs_active f)" by (auto simp: fold_ok_def)
  then have "active_set r (fs_active f) = fs_active f @ [r]" by (simp add: active_set_def active_get_None)
  with assms(1, 2) n na CreateChange show ?thesis by (auto simp: fold_ok_def f')
next
  case (DeleteChange i)
  with assms(3) have f': "f' = f\<lparr>fs_active := active_delete i (fs_active f)\<rparr>" by (auto split: if_splits)
  with assms(1) show ?thesis by (auto simp: fold_ok_def active_delete_def distinct_map_filter)
next
  case (DispatchChange i a)
  with assms(3) obtain r nxt where r: "active_get i (fs_active f) = Some r" "dispatchedRecord r a = Inr nxt"
    and f': "f' = f\<lparr>fs_active := (case nxt of None \<Rightarrow> active_delete i (fs_active f) | Some r' \<Rightarrow> active_set r' (fs_active f))\<rparr>"
    by (auto simp: bind_res_Inr_iff split: option.splits)
  have rin: "r \<in> set (fs_active f)" "sr_id r = i" using r(1) assms(1) by (simp_all add: fold_ok_def active_get_Some)
  show ?thesis
  proof (cases nxt)
    case None
    with assms(1) f' show ?thesis by (auto simp: fold_ok_def active_delete_def distinct_map_filter)
  next
    case (Some r')
    have "record_ok r" using rin assms(1) by (simp add: fold_ok_def)
    with dispatched_ok r(2) Some have r': "record_ok r'" "sr_id r' = i" using rin(2) by auto
    have ids: "map sr_id (active_set r' (fs_active f)) = map sr_id (fs_active f)"
      using rin r'(2) by (auto simp: ids_active_set)
    then have "sr_id ` set (active_set r' (fs_active f)) = sr_id ` set (fs_active f)" by (metis list.set_map)
    moreover have "\<forall>x \<in> set (active_set r' (fs_active f)). record_ok x"
      using in_active_set [of _ r' "fs_active f"] r'(1) assms(1) by (auto simp: fold_ok_def)
    ultimately show ?thesis using ids assms(1) by (simp add: fold_ok_def f' Some)
  qed
qed

lemma schedule_event_ok: "fold_ok f \<Longrightarrow> schedule_event f ev = Inr f' \<Longrightarrow> fold_ok f'"
  by (auto simp: schedule_event_def bind_res_Inr_iff split: option.splits dest: decode_change_ok apply_ok)

interpretation sched: projection "\<lparr>fs_active = [], fs_seenIds = []\<rparr>" schedule_event fold_ok
  by unfold_locales (simp add: fold_ok_def, blast intro: schedule_event_ok)

lemma fold_log_replay:
  "fold_log l = Inr f \<longleftrightarrow> sl_seed l \<le> length (sl_events l) \<and> sched.replay (drop (sl_seed l) (sl_events l)) = Inr f"
  by (simp add: fold_log_def foldScheduleEvents_def sched.replay_def)

lemma fold_log_ok: "fold_log l = Inr f \<Longrightarrow> fold_ok f \<and> sl_seed l \<le> length (sl_events l)"
  using sched.replay_inv by (auto simp: fold_log_replay)

section \<open>Appending changes\<close>

lemma fold_log_append:
  assumes "fold_log l = Inr f" "change_ok c"
  shows "fold_log (l\<lparr>sl_events := sl_events l @ [change_event now c (sl_events l)]\<rparr>) = applyScheduleChange f c"
proof -
  have le: "sl_seed l \<le> length (sl_events l)" using fold_log_ok [OF assms(1)] by blast
  have e: "fold_res schedule_event \<lparr>fs_active = [], fs_seenIds = []\<rparr> (drop (sl_seed l) (sl_events l)) = Inr f"
    using assms(1) le by (simp add: fold_log_def foldScheduleEvents_def)
  have "schedule_event f (change_event now c (sl_events l)) = applyScheduleChange f c"
    using decode_change_json [OF assms(2)] by (simp add: schedule_event_def change_event_def)
  with e le show ?thesis by (simp add: fold_log_def foldScheduleEvents_def fold_res_append)
qed

lemma append_change_Inr:
  assumes "fold_log l = Inr f" "change_ok c" "applyScheduleChange f c = Inr f'"
  obtains l' where "append_change now c l = Some l'" "fold_log l' = Inr f'"
    "sl_events l' = sl_events l @ [change_event now c (sl_events l)]" "sl_seed l' = sl_seed l"
  using that fold_log_append [OF assms(1, 2), of now] assms(3) by (simp add: append_change_def Let_def)

lemma append_changes_Inr:
  "fold_log l = Inr f \<Longrightarrow> \<forall>c \<in> set cs. change_ok c \<Longrightarrow> fold_res applyScheduleChange f cs = Inr f' \<Longrightarrow>
     \<exists>l'. append_changes now cs l = (l', True) \<and> fold_log l' = Inr f'"
proof (induction cs arbitrary: l f)
  case Nil
  then show ?case by simp
next
  case (Cons c cs)
  then obtain f1 where f1: "applyScheduleChange f c = Inr f1" "fold_res applyScheduleChange f1 cs = Inr f'"
    by (auto simp: bind_res_Inr_iff)
  with Cons.prems obtain l1 where "append_change now c l = Some l1" "fold_log l1 = Inr f1"
    by (auto elim: append_change_Inr)
  with Cons.IH [OF _ _ f1(2), of l1] Cons.prems(2) show ?case by simp
qed

section \<open>Dispatching a set of reminders\<close>

definition dispatch_active :: "int \<Rightarrow> string set \<Rightarrow> schedule_record list \<Rightarrow> schedule_record list" where
  "dispatch_active now ids rs = List.map_filter (\<lambda>r. if sr_id r \<in> ids then after_dispatch now r else Some r) rs"

definition settle :: "int \<Rightarrow> schedule_record list \<Rightarrow> schedule_record list" where
  "settle now rs = List.map_filter (\<lambda>r. if is_due now r then after_dispatch now r else Some r) rs"

lemma map_filter_id: "(\<And>r. r \<in> set rs \<Longrightarrow> g r = Some r) \<Longrightarrow> List.map_filter g rs = rs"
  by (induction rs) (simp_all add: List.map_filter_simps)

lemma map_filter_cong: "(\<And>r. r \<in> set rs \<Longrightarrow> g r = h r) \<Longrightarrow> List.map_filter g rs = List.map_filter h rs"
proof (induction rs)
  case Nil
  then show ?case by simp
next
  case (Cons r rs)
  then have "g r = h r" "List.map_filter g rs = List.map_filter h rs" by simp_all
  then show ?case by (cases "h r") (simp_all add: List.map_filter_simps)
qed

lemma map_filter_comp: "List.map_filter g (List.map_filter h rs) = List.map_filter (\<lambda>r. Option.bind (h r) g) rs"
  by (induction rs) (auto simp: List.map_filter_simps split: option.splits)

lemma in_map_filter: "x \<in> set (List.map_filter g rs) \<longleftrightarrow> (\<exists>r \<in> set rs. g r = Some x)"
  by (induction rs) (auto simp: List.map_filter_simps split: option.splits)

lemma dispatch_active_one:
  assumes "distinct (map sr_id rs)" "r \<in> set rs" "record_ok r" "is_due now r"
  shows "(case after_dispatch now r of None \<Rightarrow> active_delete (sr_id r) rs | Some r' \<Rightarrow> active_set r' rs)
     = dispatch_active now {sr_id r} rs"
proof (cases "after_dispatch now r")
  case None
  have "active_delete (sr_id r) rs = dispatch_active now {sr_id r} rs"
    using assms(1, 2)
  proof (induction rs)
    case Nil
    then show ?case by simp
  next
    case (Cons x rs)
    show ?case
    proof (cases "x = r")
      case True
      then have "\<forall>y \<in> set rs. sr_id y \<noteq> sr_id r" using Cons.prems(1) by (auto simp: image_iff)
      then have "filter (\<lambda>y. sr_id y \<noteq> sr_id r) rs = rs" "dispatch_active now {sr_id r} rs = rs"
        by (simp_all add: filter_id_conv dispatch_active_def map_filter_id)
      then show ?thesis using True None by (simp add: active_delete_def dispatch_active_def List.map_filter_simps)
    next
      case False
      then have "r \<in> set rs" using Cons.prems(2) by simp
      moreover from this have "sr_id x \<noteq> sr_id r" using Cons.prems(1) by (auto simp: image_iff)
      moreover note False
      ultimately have "r \<in> set rs" "sr_id x \<noteq> sr_id r" by blast+
      with Cons show ?thesis by (simp add: active_delete_def dispatch_active_def List.map_filter_simps)
    qed
  qed
  with None show ?thesis by simp
next
  case (Some r')
  have i: "sr_id r' = sr_id r" using after_dispatch_ok [OF assms(3) Some assms(4)] by blast
  have "map (\<lambda>x. if sr_id x = sr_id r then r' else x) rs = dispatch_active now {sr_id r} rs"
    using assms(1, 2)
  proof (induction rs)
    case Nil
    then show ?case by simp
  next
    case (Cons x rs)
    show ?case
    proof (cases "x = r")
      case True
      then have "\<forall>y \<in> set rs. sr_id y \<noteq> sr_id r" using Cons.prems(1) by (auto simp: image_iff)
      then have "map (\<lambda>x. if sr_id x = sr_id r then r' else x) rs = rs" "dispatch_active now {sr_id r} rs = rs"
        by (simp_all add: map_idI dispatch_active_def map_filter_id)
      then show ?thesis using True Some by (simp add: dispatch_active_def List.map_filter_simps)
    next
      case False
      then have "r \<in> set rs" using Cons.prems(2) by simp
      moreover from this have "sr_id x \<noteq> sr_id r" using Cons.prems(1) by (auto simp: image_iff)
      moreover note False
      ultimately have "r \<in> set rs" "sr_id x \<noteq> sr_id r" by blast+
      with Cons show ?thesis by (simp add: dispatch_active_def List.map_filter_simps)
    qed
  qed
  moreover have "active_get (sr_id r') rs \<noteq> None" using assms(2) i by (auto simp: active_get_None)
  ultimately show ?thesis using Some i by (auto simp: active_set_def)
qed

lemma dispatch_active_comp:
  assumes "i \<notin> ids" and "\<forall>r \<in> set rs. record_ok r" and "\<forall>r \<in> set rs. sr_id r = i \<longrightarrow> is_due now r"
  shows "dispatch_active now ids (dispatch_active now {i} rs) = dispatch_active now (insert i ids) rs"
  unfolding dispatch_active_def map_filter_comp
proof (rule map_filter_cong)
  fix r assume r: "r \<in> set rs"
  show "Option.bind (if sr_id r \<in> {i} then after_dispatch now r else Some r)
      (\<lambda>r. if sr_id r \<in> ids then after_dispatch now r else Some r)
    = (if sr_id r \<in> insert i ids then after_dispatch now r else Some r)"
  proof (cases "sr_id r = i")
    case True
    with assms r have "is_due now r" "record_ok r" by blast+
    then have "sr_id r' = i" if "after_dispatch now r = Some r'" for r'
      using after_dispatch_ok that True by blast
    with True assms(1) show ?thesis by (cases "after_dispatch now r") auto
  next
    case False
    then show ?thesis by simp
  qed
qed

lemma dispatch_all:
  "fold_ok f \<Longrightarrow> four_digit now \<Longrightarrow> distinct (map sr_id rs) \<Longrightarrow> set rs \<subseteq> set (fs_active f) \<Longrightarrow> \<forall>r \<in> set rs. is_due now r \<Longrightarrow>
     fold_res applyScheduleChange f (map (\<lambda>r. DispatchChange (sr_id r) (accepted_at now r)) rs)
       = Inr (f\<lparr>fs_active := dispatch_active now (sr_id ` set rs) (fs_active f)\<rparr>)"
proof (induction rs arbitrary: f)
  case Nil
  have "dispatch_active now {} (fs_active f) = fs_active f" by (simp add: dispatch_active_def map_filter_id)
  then show ?case by simp
next
  case (Cons r rs)
  have d: "distinct (map sr_id (fs_active f))" "\<forall>r \<in> set (fs_active f). record_ok r" using Cons.prems(1) by (simp_all add: fold_ok_def)
  have r: "r \<in> set (fs_active f)" "record_ok r" "is_due now r" using Cons.prems(4, 5) d by auto
  let ?f = "f\<lparr>fs_active := dispatch_active now {sr_id r} (fs_active f)\<rparr>"
  have "active_get (sr_id r) (fs_active f) = Some r" using r(1) d(1) by (simp add: active_get_Some)
  then have step: "applyScheduleChange f (DispatchChange (sr_id r) (accepted_at now r)) = Inr ?f"
    using dispatched_due [OF r(2, 3) Cons.prems(2)] dispatch_active_one [OF d(1) r] by simp
  have cok: "change_ok (DispatchChange (sr_id r) (accepted_at now r))"
    using record_target(4) [OF r(2)] Cons.prems(2) by (auto simp: accepted_at_def)
  have fok: "fold_ok ?f" by (rule apply_ok [OF Cons.prems(1) cok step])
  have "set rs \<subseteq> set (fs_active ?f)"
  proof
    fix x assume x: "x \<in> set rs"
    then have "x \<in> set (fs_active f)" "sr_id x \<noteq> sr_id r" using Cons.prems(3, 4) by (auto simp: image_iff)
    then show "x \<in> set (fs_active ?f)" by (auto simp: dispatch_active_def in_map_filter intro!: bexI [of _ x])
  qed
  then have "fold_res applyScheduleChange ?f (map (\<lambda>r. DispatchChange (sr_id r) (accepted_at now r)) rs)
       = Inr (?f\<lparr>fs_active := dispatch_active now (sr_id ` set rs) (fs_active ?f)\<rparr>)"
    using Cons.IH [OF fok Cons.prems(2)] Cons.prems(3, 5) by simp
  moreover have "dispatch_active now (sr_id ` set rs) (dispatch_active now {sr_id r} (fs_active f))
      = dispatch_active now (sr_id ` set (r # rs)) (fs_active f)"
  proof -
    have "sr_id r \<notin> sr_id ` set rs" using Cons.prems(3) by auto
    moreover have "\<forall>x \<in> set (fs_active f). sr_id x = sr_id r \<longrightarrow> is_due now x"
      using d(1) r(1, 3) by (metis active_get_Some option.inject)
    ultimately show ?thesis using dispatch_active_comp [OF _ d(2)] by simp
  qed
  ultimately show ?case using step by simp
qed

section \<open>Draining the due reminders\<close>

definition steady_input :: "int \<Rightarrow> nat \<Rightarrow> drive_input" where
  "steady_input now tm =
     \<lparr>di_runnable = True, di_flush = True, di_stillRunnable = True, di_wakeNow = now, di_busy = False, di_live = True,
      di_claimable = True, di_now = now, di_followup = True, di_barrier = True, di_continues = True, di_time = tm\<rparr>"

lemma drive_dispatches:
  assumes "fold_log (dv_log s) = Inr f" "dueDecision f now = Inr d" "\<forall>t. d \<noteq> DueWait t"
    and "append_changes tm (dispatch_changes d) (dv_log s) = (l, True)"
  shows "driveOnce (steady_input now tm) s =
     s\<lparr>dv_timer := None, dv_followups := dv_followups s @ [due_text d], dv_log := l, dv_requested := True\<rparr>"
  using assms by (cases d) (simp_all add: driveOnce_def maintenance_def steady_input_def Let_def)

lemma drive_waits:
  assumes "fold_log (dv_log s) = Inr f" "dueDecision f now = Inr (DueWait t)"
  shows "driveOnce (steady_input now tm) s = arm t now (s\<lparr>dv_timer := None\<rparr>)"
  using assms by (simp add: driveOnce_def steady_input_def Let_def)

definition every_entry :: "int \<Rightarrow> schedule_record \<Rightarrow> schedule_record \<times> string" where
  "every_entry now r = (r, toISOString (last_due (target_ms r) (sr_seconds r * 1000) now))"

lemma every_due_all:
  "four_digit now \<Longrightarrow> \<forall>r \<in> set rs. record_ok r \<and> is_every r \<and> is_due now r \<Longrightarrow> every_due now rs = Inr (map (every_entry now) rs)"
  by (induction rs) (simp_all add: resolve_due every_entry_def)

lemma sort_key_drop:
  assumes "sort_key k (filter P xs) = x # ys" and "distinct (map sr_id xs)"
  shows "sort_key k (filter P (filter (\<lambda>y. sr_id y \<noteq> sr_id x) xs)) = ys"
proof -
  have "sort_key k (filter P (filter (\<lambda>y. sr_id y \<noteq> sr_id x) xs)) = filter (\<lambda>y. sr_id y \<noteq> sr_id x) (sort_key k (filter P xs))"
    by (simp add: filter_sort conj_commute)
  also have "\<dots> = ys"
  proof -
    have "distinct (map sr_id (filter P xs))" using assms(2) by (rule distinct_map_filter)
    then have "distinct (map sr_id (sort_key k (filter P xs)))" by (metis distinct_map distinct_sort set_sort)
    then have "\<forall>y \<in> set ys. sr_id y \<noteq> sr_id x" using assms(1) by (auto simp: image_iff)
    with assms(1) show ?thesis by (simp add: filter_id_conv)
  qed
  finally show ?thesis .
qed

lemma settle_drop_one_shot:
  assumes "r \<in> set rs" "distinct (map sr_id rs)" "is_due now r" "\<not> is_every r"
  shows "settle now (dispatch_active now {sr_id r} rs) = settle now rs"
    "dispatch_active now {sr_id r} rs = filter (\<lambda>y. sr_id y \<noteq> sr_id r) rs"
proof -
  have n: "after_dispatch now r = None" using assms(4) by (cases r) simp_all
  have u: "x = r" if "x \<in> set rs" "sr_id x = sr_id r" for x using that assms(1, 2) by (metis active_get_Some option.inject)
  have "dispatch_active now {sr_id r} rs = List.map_filter (\<lambda>x. if sr_id x \<noteq> sr_id r then Some x else None) rs"
    unfolding dispatch_active_def using u n by (intro map_filter_cong) auto
  also have "\<dots> = filter (\<lambda>y. sr_id y \<noteq> sr_id r) rs" by (induction rs) (simp_all add: List.map_filter_simps)
  finally show "dispatch_active now {sr_id r} rs = filter (\<lambda>y. sr_id y \<noteq> sr_id r) rs" .
  show "settle now (dispatch_active now {sr_id r} rs) = settle now rs"
    unfolding settle_def dispatch_active_def map_filter_comp
  proof (rule map_filter_cong)
    fix x assume x: "x \<in> set rs"
    show "Option.bind (if sr_id x \<in> {sr_id r} then after_dispatch now x else Some x)
        (\<lambda>x. if is_due now x then after_dispatch now x else Some x) = (if is_due now x then after_dispatch now x else Some x)"
    proof (cases "sr_id x = sr_id r")
      case True
      with u [OF x] n assms(3) show ?thesis by simp
    next
      case False
      then show ?thesis by simp
    qed
  qed
qed

definition drained :: "int \<Rightarrow> folded_schedules \<Rightarrow> schedule_runtime \<Rightarrow> schedule_runtime \<Rightarrow> bool" where
  "drained now f s s' \<longleftrightarrow>
     dv_followups s' = dv_followups s @ map renderReminderFraming (due_one_shots now (fs_active f))
        @ (if due_everys now (fs_active f) = [] then []
           else [renderEveryReminderBatchFraming (map (every_entry now) (due_everys now (fs_active f)))])
     \<and> fold_log (dv_log s') = Inr (f\<lparr>fs_active := settle now (fs_active f)\<rparr>)
     \<and> dv_timer s' = map_option (\<lambda>t. min (t - now) MAX_TIMER_DELAY_MS) (next_target now (settle now (fs_active f)))
     \<and> \<not> dv_requested s' \<and> \<not> dv_faulted s'"

lemma none_due_settled:
  assumes "due_one_shots now rs = []" "due_everys now rs = []"
  shows "settle now rs = rs"
proof -
  have "filter (\<lambda>r. \<not> is_every r \<and> is_due now r) rs = []" "filter (\<lambda>r. is_every r \<and> is_due now r) rs = []"
    using assms unfolding due_one_shots_def due_everys_def by (metis set_sort set_empty)+
  then have "\<forall>r \<in> set rs. \<not> is_due now r" by (auto simp: filter_empty_conv)
  then show ?thesis by (simp add: settle_def map_filter_id)
qed

lemma drain_rest:
  assumes "fold_log (dv_log s) = Inr f" "due_one_shots now (fs_active f) = []" "due_everys now (fs_active f) = []"
    and "dv_requested s" "\<not> dv_faulted s"
  shows "drained now f s (runRequested [steady_input now tm] s)"
proof -
  let ?s = "s\<lparr>dv_requested := False\<rparr>"
  have "dueDecision f now = Inr (DueWait (next_target now (fs_active f)))" using assms(2, 3) by (simp add: dueDecision_def)
  then have "driveOnce (steady_input now tm) ?s = arm (next_target now (fs_active f)) now (?s\<lparr>dv_timer := None\<rparr>)"
    using drive_waits [of ?s f] assms(1) by simp
  then have "runRequested [steady_input now tm] s = arm (next_target now (fs_active f)) now (?s\<lparr>dv_timer := None\<rparr>)"
    using assms(4, 5) by simp
  then show ?thesis using assms none_due_settled [OF assms(2, 3)]
    by (cases "next_target now (fs_active f)") (simp_all add: drained_def arm_def)
qed

lemma set_due_everys: "set (due_everys now rs) = {r \<in> set rs. is_every r \<and> is_due now r}"
  by (auto simp: due_everys_def)

lemma set_due_one_shots: "set (due_one_shots now rs) = {r \<in> set rs. \<not> is_every r \<and> is_due now r}"
  by (auto simp: due_one_shots_def)

lemma distinct_due_everys: "distinct (map sr_id rs) \<Longrightarrow> distinct (map sr_id (due_everys now rs))"
  unfolding due_everys_def by (metis distinct_map distinct_map_filter distinct_sort set_sort)

lemma drain_batch:
  assumes l: "fold_log (dv_log s) = Inr f" and now: "four_digit now" and none: "due_one_shots now (fs_active f) = []"
    and req: "dv_requested s" "\<not> dv_faulted s" and some: "due_everys now (fs_active f) \<noteq> []"
  shows "drained now f s (runRequested (replicate 2 (steady_input now tm)) s)"
proof -
  let ?ev = "due_everys now (fs_active f)" and ?s = "s\<lparr>dv_requested := False\<rparr>"
  let ?ds = "map (every_entry now) ?ev" and ?f = "f\<lparr>fs_active := settle now (fs_active f)\<rparr>"
  have ok: "fold_ok f" using fold_log_ok [OF l] by blast
  then have d: "distinct (map sr_id (fs_active f))" and r: "\<forall>r \<in> set (fs_active f). record_ok r" by (simp_all add: fold_ok_def)
  have "every_due now ?ev = Inr ?ds" using every_due_all [OF now] r by (simp add: set_due_everys)
  then have dec: "dueDecision f now = Inr (DueEvery ?ds (toISOString now))" using none some by (simp add: dueDecision_def)
  have chs: "dispatch_changes (DueEvery ?ds (toISOString now)) = map (\<lambda>r. DispatchChange (sr_id r) (accepted_at now r)) ?ev"
    by (auto simp: every_entry_def accepted_at_def set_due_everys)
  have "dispatch_active now (sr_id ` set ?ev) (fs_active f) = settle now (fs_active f)"
    unfolding dispatch_active_def settle_def
  proof (rule map_filter_cong)
    fix x assume x: "x \<in> set (fs_active f)"
    have "is_every x" if "is_due now x"
      using none x that set_due_one_shots [of now "fs_active f"] by auto
    moreover have "y = x" if "y \<in> set (fs_active f)" "sr_id y = sr_id x" for y
      using that x d by (metis active_get_Some option.inject)
    ultimately have "sr_id x \<in> sr_id ` set ?ev \<longleftrightarrow> is_due now x" using x by (auto simp: set_due_everys image_iff)
    then show "(if sr_id x \<in> sr_id ` set ?ev then after_dispatch now x else Some x)
        = (if is_due now x then after_dispatch now x else Some x)" by simp
  qed
  then have "fold_res applyScheduleChange f (dispatch_changes (DueEvery ?ds (toISOString now))) = Inr ?f"
    unfolding chs using dispatch_all [OF ok now distinct_due_everys [OF d]] by (simp add: set_due_everys)
  moreover have "\<forall>c \<in> set (dispatch_changes (DueEvery ?ds (toISOString now))). change_ok c"
    unfolding chs using record_target(4) r now by (auto simp: set_due_everys accepted_at_def)
  ultimately have "\<exists>l'. append_changes tm (dispatch_changes (DueEvery ?ds (toISOString now))) (dv_log s) = (l', True) \<and> fold_log l' = Inr ?f"
    using append_changes_Inr [OF l] by blast
  then obtain l' where l': "append_changes tm (dispatch_changes (DueEvery ?ds (toISOString now))) (dv_log ?s) = (l', True)"
    and f': "fold_log l' = Inr ?f" by auto
  let ?s1 = "?s\<lparr>dv_timer := None, dv_followups := dv_followups s @ [renderEveryReminderBatchFraming ?ds], dv_log := l', dv_requested := True\<rparr>"
  have drive: "driveOnce (steady_input now tm) ?s = ?s1"
    using drive_dispatches [of ?s f now "DueEvery ?ds (toISOString now)" tm l'] l dec l' by simp
  have nd: "\<not> is_due now x" if "x \<in> set (settle now (fs_active f))" for x
    using that r after_dispatch_ok by (auto simp: settle_def in_map_filter split: if_splits)
  then have none': "due_one_shots now (fs_active ?f) = []" "due_everys now (fs_active ?f) = []"
    by (simp_all add: due_one_shots_def due_everys_def filter_empty_conv)
  have "drained now ?f ?s1 (runRequested [steady_input now tm] ?s1)"
    using drain_rest [of ?s1 ?f now tm] f' none' req by simp
  moreover have "runRequested (replicate 2 (steady_input now tm)) s = runRequested [steady_input now tm] ?s1"
    using req drive by (simp add: eval_nat_numeral)
  ultimately show ?thesis using none some none' none_due_settled [OF none'] by (simp add: drained_def)
qed

lemma drain_all:
  assumes "fold_log (dv_log s) = Inr f" "four_digit now" "dv_requested s" "\<not> dv_faulted s"
  shows "drained now f s (runRequested (replicate (length (due_one_shots now (fs_active f))
     + (if due_everys now (fs_active f) = [] then 1 else 2)) (steady_input now tm)) s)"
  using assms
proof (induction "due_one_shots now (fs_active f)" arbitrary: s f)
  case Nil
  then show ?case using drain_rest [of s f now tm] drain_batch [of s f now tm] by simp
next
  case (Cons r os)
  let ?s = "s\<lparr>dv_requested := False\<rparr>" and ?f = "f\<lparr>fs_active := dispatch_active now {sr_id r} (fs_active f)\<rparr>"
  have ok: "fold_ok f" using fold_log_ok [OF Cons.prems(1)] by blast
  then have d: "distinct (map sr_id (fs_active f))" by (simp add: fold_ok_def)
  have "r \<in> set (due_one_shots now (fs_active f))" using Cons.hyps(2) by (metis list.set_intros(1))
  then have r: "r \<in> set (fs_active f)" "\<not> is_every r" "is_due now r" by (simp_all add: set_due_one_shots)
  have rok: "record_ok r" using r(1) ok by (simp add: fold_ok_def)
  have dec: "dueDecision f now = Inr (DueOneShot r)" unfolding dueDecision_def Cons.hyps(2) [symmetric] by simp
  have "fold_res applyScheduleChange f (map (\<lambda>r. DispatchChange (sr_id r) (accepted_at now r)) [r]) = Inr ?f"
    using dispatch_all [OF ok Cons.prems(2), of "[r]"] r by simp
  then have "fold_res applyScheduleChange f (dispatch_changes (DueOneShot r)) = Inr ?f" using r(2) by (simp add: accepted_at_def)
  then obtain l' where l': "append_changes tm (dispatch_changes (DueOneShot r)) (dv_log ?s) = (l', True)" and f': "fold_log l' = Inr ?f"
    using append_changes_Inr [of "dv_log ?s" f "dispatch_changes (DueOneShot r)" ?f tm] Cons.prems(1) record_target(4) [OF rok] by auto
  let ?s1 = "?s\<lparr>dv_timer := None, dv_followups := dv_followups s @ [renderReminderFraming r], dv_log := l', dv_requested := True\<rparr>"
  have drive: "driveOnce (steady_input now tm) ?s = ?s1"
    using drive_dispatches [of ?s f now "DueOneShot r" tm l'] Cons.prems(1) dec l' by simp
  note st = settle_drop_one_shot [OF r(1) d r(3, 2)]
  have os: "due_one_shots now (fs_active ?f) = os"
    using sort_key_drop [of target_ms "\<lambda>r. \<not> is_every r \<and> is_due now r" "fs_active f" r os] Cons.hyps(2) d
    by (simp add: due_one_shots_def st(2))
  have ev: "due_everys now (fs_active ?f) = due_everys now (fs_active f)"
  proof -
    have "filter (\<lambda>x. is_every x \<and> is_due now x) (filter (\<lambda>y. sr_id y \<noteq> sr_id r) (fs_active f))
        = filter (\<lambda>x. is_every x \<and> is_due now x) (fs_active f)"
      unfolding filter_filter
    proof (rule filter_cong [OF refl])
      fix x assume x: "x \<in> set (fs_active f)"
      have "x = r" if "sr_id x = sr_id r" using that x r(1) d by (metis active_get_Some option.inject)
      then show "(sr_id x \<noteq> sr_id r \<and> is_every x \<and> is_due now x) = (is_every x \<and> is_due now x)" using r(2) by auto
    qed
    then show ?thesis by (simp add: due_everys_def st(2))
  qed
  have "drained now ?f ?s1 (runRequested (replicate (length os + (if due_everys now (fs_active f) = [] then 1 else 2)) (steady_input now tm)) ?s1)"
    using Cons.hyps(1) [of ?f ?s1] os ev f' Cons.prems by simp
  moreover have "runRequested (replicate (length (due_one_shots now (fs_active f)) + (if due_everys now (fs_active f) = [] then 1 else 2)) (steady_input now tm)) s
      = runRequested (replicate (length os + (if due_everys now (fs_active f) = [] then 1 else 2)) (steady_input now tm)) ?s1"
    using Cons.prems(3, 4) drive by (simp flip: Cons.hyps(2))
  ultimately show ?case using os ev st(1) by (simp add: drained_def flip: Cons.hyps(2))
qed

section \<open>The next wake\<close>

lemma next_target_snoc:
  "record_ok r \<Longrightarrow> next_target now (rs @ [r]) =
     (if now < target_ms r \<and> (case next_target now rs of None \<Rightarrow> True | Some s \<Rightarrow> target_ms r < s)
      then Some (target_ms r) else next_target now rs)"
  by (simp add: next_target_def record_target(2))

lemma next_target_Min:
  assumes "\<forall>r \<in> set rs. record_ok r \<and> \<not> is_due now r"
  shows "next_target now rs = (if rs = [] then None else Some (Min (target_ms ` set rs)))"
  using assms
proof (induction rs rule: rev_induct)
  case Nil
  then show ?case by (simp add: next_target_def)
next
  case (snoc r rs)
  then have r: "record_ok r" "now < target_ms r" using is_due_ok [of r now] by auto
  show ?case
  proof (cases "rs = []")
    case True
    then show ?thesis using r by (simp add: next_target_def record_target(2))
  next
    case False
    with snoc have "next_target now rs = Some (Min (target_ms ` set rs))" by simp
    moreover have "Min (target_ms ` set (rs @ [r])) = min (target_ms r) (Min (target_ms ` set rs))" using False by simp
    ultimately show ?thesis using next_target_snoc [OF r(1), of now rs] r(2) by (auto simp: min_def)
  qed
qed

lemma settle_rest:
  assumes "\<forall>r \<in> set rs. record_ok r"
  shows "\<forall>r \<in> set (settle now rs). record_ok r \<and> \<not> is_due now r"
proof
  fix x assume "x \<in> set (settle now rs)"
  then obtain r where r: "r \<in> set rs" "(if is_due now r then after_dispatch now r else Some r) = Some x"
    by (auto simp: settle_def in_map_filter)
  show "record_ok x \<and> \<not> is_due now x"
  proof (cases "is_due now r")
    case True
    with r assms after_dispatch_ok [of r now x] show ?thesis by simp
  next
    case False
    with r assms show ?thesis by simp
  qed
qed

end
