(* ===== verification/Schedule_Tools.thy ===== *)
theory Schedule_Tools
  imports Schedule_Laws
begin

text \<open>
  The laws of the management tools: a created reminder is in the log, listed last, under a fresh
  identity, and the framing of a reminder has the lines of its template whatever the prompt is.
\<close>

section \<open>Created records\<close>

lemma futureInstant_Inr:
  "futureInstant e now = Inr t \<Longrightarrow> four_digit e \<and> t = toISOString e \<and> now < e"
  by (auto simp: futureInstant_def four_digit_def Let_def split: if_splits)

lemma id_ok_trim: "js_trim s \<noteq> [] \<Longrightarrow> id_ok (js_trim s)"
  by (simp add: id_ok_def js_trim_idem)

lemma createAfter_ok:
  "createAfterScheduleRecord i p n now = Inr r \<Longrightarrow> id_ok i \<Longrightarrow> record_ok r \<and> sr_id r = i \<and> now < target_ms r"
  by (auto simp: createAfterScheduleRecord_def Let_def bind_res_Inr_iff target_ms_def id_ok_trim date_parse_iso
      simp del: is_safe_integer.simps dest!: futureInstant_Inr split: jsnum.splits if_splits)

lemma createAt_ok:
  "createAtScheduleRecord env i p v now = Inr r \<Longrightarrow> id_ok i \<Longrightarrow> record_ok r \<and> sr_id r = i \<and> now < target_ms r"
proof -
  assume c: "createAtScheduleRecord env i p v now = Inr r" and i: "id_ok i"
  from c obtain e t where "js_trim p \<noteq> []" "futureInstant e now = Inr t" "r = AtRecord i (js_trim p) t"
    by (auto simp: createAtScheduleRecord_def Let_def bind_res_Inr_iff split: if_splits)
  with i show ?thesis by (auto simp: target_ms_def id_ok_trim date_parse_iso dest!: futureInstant_Inr)
qed

lemma createEvery_ok:
  assumes "createEveryScheduleRecord i p n now = Inr r" "id_ok i" "four_digit now"
  shows "record_ok r \<and> sr_id r = i \<and> now < target_ms r"
proof -
  from assms(1) obtain k t where k: "n = JInt k" "is_safe_integer (JInt k)" "MIN_EVERY_INTERVAL_SECONDS \<le> k"
    and f: "js_trim p \<noteq> []" "futureInstant (now + k * 1000) now = Inr t" "r = EveryRecord i (js_trim p) k t"
    by (auto simp: createEveryScheduleRecord_def Let_def bind_res_Inr_iff not_less simp del: is_safe_integer.simps
        split: jsnum.splits if_splits)
  note e = futureInstant_Inr [OF f(2)]
  have "is_safe_integer (JInt (k * 1000))"
    using e assms(3) k(3)
    by (simp add: four_digit_def MIN_FOUR_DIGIT_YEAR_MS_def MAX_FOUR_DIGIT_YEAR_MS_def max_safe_integer_def MIN_EVERY_INTERVAL_SECONDS_def)
  with e f k assms(2) show ?thesis by (auto simp: target_ms_def id_ok_trim date_parse_iso)
qed

lemma create_record_ok:
  "create_record ti a i = Inr r \<Longrightarrow> id_ok i \<Longrightarrow> four_digit (ti_now ti) \<Longrightarrow> record_ok r \<and> sr_id r = i \<and> ti_now ti < target_ms r"
  by (auto simp: create_record_def dest: createAfter_ok createAt_ok createEvery_ok split: option.splits)

lemma allocate_fresh:
  "\<exists>i. allocateScheduleId f = Some i \<and> i \<notin> set (fs_seenIds f) \<and> id_ok i"
  using next_free_total [of "fs_seenIds f" "card (set (fs_seenIds f)) + 1"] schedule_name_ok
  by (auto simp: allocateScheduleId_def)

definition steady_tool :: "tool_input \<Rightarrow> bool" where
  "steady_tool ti \<longleftrightarrow> ti_sameAgent ti \<and> \<not> ti_cancelled ti \<and> ti_flush ti \<and> \<not> ti_cancelledLater ti \<and> ti_barrier ti"

lemma create_fresh:
  assumes l: "fold_log l = Inr f" and "record_ok r" "sr_id r \<notin> set (fs_seenIds f)"
  shows "\<exists>l'. append_change now (CreateChange r) l = Some l'
     \<and> fold_log l' = Inr (f\<lparr>fs_seenIds := fs_seenIds f @ [sr_id r], fs_active := fs_active f @ [r]\<rparr>)"
proof -
  have "sr_id r \<notin> sr_id ` set (fs_active f)" using fold_log_ok [OF l] assms(3) by (auto simp: fold_ok_def)
  then have "applyScheduleChange f (CreateChange r)
      = Inr (f\<lparr>fs_seenIds := fs_seenIds f @ [sr_id r], fs_active := fs_active f @ [r]\<rparr>)"
    using assms(3) by (simp add: active_set_def active_get_None)
  with append_change_Inr [OF l, of "CreateChange r"] assms(2) show ?thesis by (metis change_ok.simps(1))
qed

lemma schedule_create_spec:
  assumes l: "fold_log l = Inr f" and s: "steady_tool ti" and now: "four_digit (ti_now ti)" and v: "validateCreateArgs a = None"
    and i: "allocateScheduleId f = Some i"
  shows "case create_record ti a i of
       Inl e \<Rightarrow> schedule_create ti a l = (Inl (InputError e), l)
     | Inr r \<Rightarrow> ti_now ti < target_ms r
         \<and> (\<exists>l'. schedule_create ti a l = (Inr (scheduleView r (ti_viewNow ti)), l')
              \<and> fold_log l' = Inr (f\<lparr>fs_seenIds := fs_seenIds f @ [i], fs_active := fs_active f @ [r]\<rparr>))"
proof -
  have fresh: "i \<notin> set (fs_seenIds f)" "id_ok i" using allocate_fresh [of f] i by auto
  show ?thesis
  proof (cases "create_record ti a i")
    case (Inl e)
    then show ?thesis using l s v i by (simp add: schedule_create_def steady_tool_def)
  next
    case (Inr r)
    note r = create_record_ok [OF Inr fresh(2) now]
    from create_fresh [OF l, of r "ti_time ti"] r fresh(1) obtain l' where
      "append_change (ti_time ti) (CreateChange r) l = Some l'"
      "fold_log l' = Inr (f\<lparr>fs_seenIds := fs_seenIds f @ [i], fs_active := fs_active f @ [r]\<rparr>)" by auto
    with Inr r l s v i show ?thesis by (simp add: schedule_create_def steady_tool_def)
  qed
qed

lemma schedule_list_spec:
  "fold_log l = Inr f \<Longrightarrow> steady_tool ti \<Longrightarrow> schedule_list ti l = Inr (map (\<lambda>r. scheduleView r (ti_now ti)) (fs_active f))"
  by (simp add: schedule_list_def steady_tool_def)

lemma schedule_delete_spec:
  assumes l: "fold_log l = Inr f" and s: "steady_tool ti" and i: "id_ok i"
  shows "\<exists>l'. schedule_delete ti i l = (Inr (i \<in> sr_id ` set (fs_active f)), l')
     \<and> fold_log l' = Inr (f\<lparr>fs_active := filter (\<lambda>r. sr_id r \<noteq> i) (fs_active f)\<rparr>)"
proof (cases "i \<in> sr_id ` set (fs_active f)")
  case True
  then have "applyScheduleChange f (DeleteChange i) = Inr (f\<lparr>fs_active := filter (\<lambda>r. sr_id r \<noteq> i) (fs_active f)\<rparr>)"
    using active_get_None [of i "fs_active f"] by (simp add: active_delete_def)
  then obtain l' where "append_change (ti_time ti) (DeleteChange i) l = Some l'"
    "fold_log l' = Inr (f\<lparr>fs_active := filter (\<lambda>r. sr_id r \<noteq> i) (fs_active f)\<rparr>)"
    using append_change_Inr [OF l, of "DeleteChange i"] i by (metis change_ok.simps(2))
  moreover have "list_ex (\<lambda>r. sr_id r = i) (fs_active f)" using True by (auto simp: list_ex_iff)
  ultimately show ?thesis using True l s i by (simp add: schedule_delete_def steady_tool_def id_ok_def)
next
  case False
  then have "filter (\<lambda>r. sr_id r \<noteq> i) (fs_active f) = fs_active f" by (auto simp: filter_id_conv)
  moreover have "\<not> list_ex (\<lambda>r. sr_id r = i) (fs_active f)" using False by (auto simp: list_ex_iff)
  ultimately show ?thesis using False l s i by (simp add: schedule_delete_def steady_tool_def id_ok_def)
qed

section \<open>Framing\<close>

definition line_breaks :: "string \<Rightarrow> nat" where
  "line_breaks s = length (filter (\<lambda>c. c = CHR 0x0A) s)"

lemma line_breaks_simps [simp]:
  "line_breaks (a @ b) = line_breaks a + line_breaks b" "line_breaks [] = 0"
  "line_breaks (c # s) = (if c = CHR 0x0A then 1 else 0) + line_breaks s"
  by (simp_all add: line_breaks_def)

lemma line_breaks_0: "line_breaks s = 0 \<longleftrightarrow> CHR 0x0A \<notin> set s"
  by (auto simp: line_breaks_def filter_empty_conv)

lemma hex_no_break: "n < 16 \<Longrightarrow> hex_digit n \<noteq> CHR 0x0A"
proof
  assume n: "n < 16" and h: "hex_digit n = CHR 0x0A"
  have "(of_char (hex_digit n) :: nat) = (if n < 10 then 48 + n else 87 + n)"
    using n by (simp add: hex_digit_def of_char_of)
  with h show False by (simp split: if_splits)
qed

lemma escape_no_break: "CHR 0x0A \<notin> set (json_escape c)"
proof (cases "(of_char c :: nat) < 32")
  case True
  then have "hex_digit ((of_char c :: nat) div 16) \<noteq> CHR 0x0A" "hex_digit ((of_char c :: nat) mod 16) \<noteq> CHR 0x0A"
    by (intro hex_no_break; simp)+
  with True show ?thesis by (simp add: json_escape_def Let_def eq_commute)
next
  case False
  then have "c \<noteq> CHR 0x0A" by auto
  with False show ?thesis by (simp add: json_escape_def Let_def eq_commute)
qed

lemma quote_no_break [simp]: "line_breaks (json_quote s) = 0"
  using escape_no_break by (auto simp: line_breaks_0 json_quote_def)

lemma digits_no_break [simp]: "line_breaks (fixed_digits k n) = 0"
  using fixed_digits_digits [of k n] by (auto simp: line_breaks_0 list_all_iff is_digit_def)

lemma iso_no_break [simp]: "line_breaks (toISOString t) = 0"
proof -
  have "line_breaks (iso_year y) = 0" for y
    by (simp add: iso_year_def del: fixed_digits.simps)
  then show ?thesis by (simp add: toISOString_def parts_iso_def del: fixed_digits.simps)
qed

lemma join_breaks:
  "list_all (\<lambda>x. line_breaks x = 0) xs \<Longrightarrow> line_breaks (join_with [CHR 0x0A] xs) = length xs - 1"
  "list_all (\<lambda>x. line_breaks x = 0) xs \<Longrightarrow> line_breaks sep = 0 \<Longrightarrow> line_breaks (join_with sep xs) = 0"
  by (induction sep xs rule: join_with.induct) auto

lemma reminder_breaks: "record_ok r \<Longrightarrow> line_breaks (renderReminderFraming r) = 4"
proof -
  assume r: "record_ok r"
  have "line_breaks (sr_scheduledAt r) = 0" using record_target(3) [OF r] iso_no_break by metis
  then have "list_all (\<lambda>x. line_breaks x = 0) (reminder_lines r)"
    by (simp add: reminder_lines_def)
  from join_breaks(1) [OF this] show ?thesis by (simp add: renderReminderFraming_def reminder_lines_def)
qed

lemma batch_breaks: "line_breaks (renderEveryReminderBatchFraming ds) = 2"
proof -
  have "list_all (\<lambda>x. line_breaks x = 0) (map batch_entry ds)" by (simp add: list_all_iff batch_entry_def)
  from join_breaks(2) [OF this, of "'',''"] have "line_breaks (join_with '','' (map batch_entry ds)) = 0" by simp
  then have "list_all (\<lambda>x. line_breaks x = 0) (batch_lines ds)" by (simp add: batch_lines_def)
  from join_breaks(1) [OF this] show ?thesis by (simp add: renderEveryReminderBatchFraming_def batch_lines_def)
qed

end
