(* ===== verification/Session_Log.thy ===== *)
theory Session_Log
  imports Surface
begin

text \<open>
  The session class and its fork operation (packages/core/session/src/index.ts) with the request
  headers it folds (request-header.ts): an append-only log, the surface manager over it, and three
  caches (the request header, the request context, the derived messages), each extended with the
  events appended since it was last read.

  The payloads are typed, so the run-time JSON snapshots of the code are the identity here. The
  append modelled is the one of a session whose append is not being published; Session_Store has
  the publication. The lemmas show that every cache equals the fold of the whole log, whatever
  the interleaving of appends and reads, and that a fork is always a session that can be created.
\<close>

section \<open>Request headers\<close>

definition canonicalHeader :: "epoch_header \<Rightarrow> epoch_header" where
  "canonicalHeader h =
     \<lparr>eh_config = eh_config h,
      eh_adapterDefaults =
        (case eh_adapterDefaults h of
           None \<Rightarrow> None
         | Some d \<Rightarrow> if ad_reasoningEffort d \<or> ad_maxTokens d then Some d else None),
      eh_system = (case eh_system h of None \<Rightarrow> None | Some t \<Rightarrow> if length t > 0 then Some t else None),
      eh_tools = (case eh_tools h of None \<Rightarrow> None | Some ts \<Rightarrow> if length ts > 0 then Some ts else None)\<rparr>"

text \<open>\<open>callConfigEquals\<close> of packages/llm/llm/src/call-config.ts.\<close>

definition callConfigEquals :: "call_config \<Rightarrow> call_config \<Rightarrow> bool" where
  "callConfigEquals a b =
     (if cc_provider a \<noteq> cc_provider b \<or> cc_model a \<noteq> cc_model b
         \<or> cc_reasoningEffort a \<noteq> cc_reasoningEffort b
         \<or> cc_temperature a \<noteq> cc_temperature b \<or> cc_maxTokens a \<noteq> cc_maxTokens b then False
      else case (cc_stop a, cc_stop b) of
             (Some sa, Some sb) \<Rightarrow> length sa = length sb \<and> list_all (\<lambda>(x, y). x = y) (zip sa sb)
           | _ \<Rightarrow> cc_stop a = cc_stop b)"

text \<open>Equality of two schemas' JSON texts, which is equality of the values in property order.\<close>

definition sameSchema :: "tool_schema \<Rightarrow> tool_schema \<Rightarrow> bool" where
  "sameSchema a b = (a = b)"

definition headerEquals :: "epoch_header \<Rightarrow> epoch_header \<Rightarrow> bool" where
  "headerEquals a b =
     (if \<not> callConfigEquals (eh_config a) (eh_config b)
         \<or> (case eh_adapterDefaults a of None \<Rightarrow> False | Some d \<Rightarrow> ad_reasoningEffort d)
             \<noteq> (case eh_adapterDefaults b of None \<Rightarrow> False | Some d \<Rightarrow> ad_reasoningEffort d)
         \<or> (case eh_adapterDefaults a of None \<Rightarrow> False | Some d \<Rightarrow> ad_maxTokens d)
             \<noteq> (case eh_adapterDefaults b of None \<Rightarrow> False | Some d \<Rightarrow> ad_maxTokens d)
         \<or> eh_system a \<noteq> eh_system b then False
      else let ta = case_option [] id (eh_tools a); tb = case_option [] id (eh_tools b) in
           length ta = length tb \<and> list_all (\<lambda>(x, y). sameSchema x y) (zip ta tb))"

fun foldRequestHeader :: "session_event list \<Rightarrow> epoch_header option \<Rightarrow> epoch_header option" where
  "foldRequestHeader [] from = from"
| "foldRequestHeader (ev # evs) from =
     foldRequestHeader evs
       (case ev_data ev of RequestHeader h _ \<Rightarrow> Some (canonicalHeader h) | _ \<Rightarrow> from)"

fun foldRequestContext :: "session_event list \<Rightarrow> request_context option \<Rightarrow> request_context option" where
  "foldRequestContext [] from = from"
| "foldRequestContext (ev # evs) from =
     foldRequestContext evs (case ev_data ev of RequestContext c \<Rightarrow> Some c | _ \<Rightarrow> from)"

lemma foldRequestHeader_append:
  "foldRequestHeader (xs @ ys) from = foldRequestHeader ys (foldRequestHeader xs from)"
  by (induction xs arbitrary: "from") simp_all

lemma foldRequestContext_append:
  "foldRequestContext (xs @ ys) from = foldRequestContext ys (foldRequestContext xs from)"
  by (induction xs arbitrary: "from") simp_all

lemma canonicalHeader_idem: "canonicalHeader (canonicalHeader h) = canonicalHeader h"
  by (simp add: canonicalHeader_def split: option.splits)

lemma foldRequestHeader_canonical:
  "foldRequestHeader evs from = Some h \<Longrightarrow> (\<And>h'. from = Some h' \<Longrightarrow> canonicalHeader h' = h')
   \<Longrightarrow> canonicalHeader h = h"
proof (induction evs arbitrary: "from")
  case Nil
  then show ?case by simp
next
  case (Cons ev evs)
  let ?next = "case ev_data ev of RequestHeader h _ \<Rightarrow> Some (canonicalHeader h) | _ \<Rightarrow> from"
  have "canonicalHeader h' = h'" if "?next = Some h'" for h'
    using that Cons.prems(2) canonicalHeader_idem by (auto split: event_data.splits)
  with Cons.IH [of ?next] Cons.prems(1) show ?case by simp
qed

lemma list_all_zip_eq: "length xs = length ys \<Longrightarrow> list_all (\<lambda>(x, y). x = y) (zip xs ys) \<longleftrightarrow> xs = ys"
  by (induction xs ys rule: list_induct2) auto

lemma callConfigEquals_iff: "callConfigEquals a b \<longleftrightarrow> a = b"
  by (auto simp: callConfigEquals_def list_all_zip_eq split: option.splits
      intro!: call_config.equality)

text \<open>On canonical headers the field-wise comparison is equality.\<close>

lemma sameSchema_zip: "(\<lambda>(x, y). sameSchema x y) = (\<lambda>(x, y). x = y)"
  by (simp add: sameSchema_def)

lemma headerEquals_refl: "headerEquals a a"
  using list_all_zip_eq [of "case_option [] id (eh_tools a)" "case_option [] id (eh_tools a)"]
  by (simp add: headerEquals_def callConfigEquals_iff sameSchema_zip Let_def)

lemma headerEquals_canonical:
  assumes a: "canonicalHeader a = a" and b: "canonicalHeader b = b"
  shows "headerEquals a b \<longleftrightarrow> a = b"
proof
  assume eq: "headerEquals a b"
  have fields: "eh_adapterDefaults h \<noteq> Some \<lparr>ad_reasoningEffort = False, ad_maxTokens = False\<rparr>"
    "eh_tools h \<noteq> Some []" if "canonicalHeader h = h" for h
  proof -
    have "eh_adapterDefaults (canonicalHeader h) = eh_adapterDefaults h" "eh_tools (canonicalHeader h) = eh_tools h"
      using that by simp_all
    then show "eh_adapterDefaults h \<noteq> Some \<lparr>ad_reasoningEffort = False, ad_maxTokens = False\<rparr>"
      "eh_tools h \<noteq> Some []"
      by (auto simp: canonicalHeader_def)
  qed
  have tools: "case_option [] id (eh_tools a) = case_option [] id (eh_tools b)"
    using eq list_all_zip_eq [of "case_option [] id (eh_tools a)" "case_option [] id (eh_tools b)"]
    by (simp add: headerEquals_def sameSchema_zip Let_def split: if_splits)
  have "eh_tools a = eh_tools b"
    using tools fields(2) [OF a] fields(2) [OF b] by (cases "eh_tools a"; cases "eh_tools b") auto
  moreover have "eh_adapterDefaults a = eh_adapterDefaults b"
    using eq fields(1) [OF a] fields(1) [OF b]
    by (cases "eh_adapterDefaults a"; cases "eh_adapterDefaults b")
      (auto simp: headerEquals_def intro!: adapter_defaults.equality split: if_splits)
  ultimately show "a = b"
    using eq by (intro epoch_header.equality) (auto simp: headerEquals_def callConfigEquals_iff split: if_splits)
next
  assume "a = b"
  then show "headerEquals a b" by (simp add: headerEquals_refl)
qed

section \<open>The session\<close>

record session_header =
  sh_version :: nat
  sh_id :: string
  sh_createdAt :: nat
  sh_cwd :: "string option"
  sh_parentSession :: "string option"
  sh_seedLength :: "nat option"
  sh_origin :: bool  \<comment> \<open>\<open>origin: 'subagent'\<close> is present\<close>
  sh_delegationDepth :: "nat option"
  sh_agentPreset :: "string option"

record session =
  s_header :: session_header
  s_log :: "session_event list"
  s_surfaceManager :: surface_manager
  s_firstLiveSeq :: nat
  s_headerFold :: "epoch_header option"
  s_headerFoldSeq :: nat
  s_contextFold :: "request_context option"
  s_contextFoldSeq :: nat
  s_derived :: "message list"
  s_derivedNodes :: nat
  s_derivedGeneration :: nat

datatype session_error =
    SurfaceError surface_error
  | UnsupportedHeaderDelta
  | SeedNotContiguous nat nat
  | InvalidSeed nat surface_error

record surface_intent =
  si_surfaceOp :: "json option"
  si_sourceEventSeqs :: "json option"

definition emptySession :: "session_header \<Rightarrow> session" where
  "emptySession h =
     \<lparr>s_header = h, s_log = [], s_surfaceManager = newSurfaceManager 0, s_firstLiveSeq = 0,
      s_headerFold = None, s_headerFoldSeq = 0, s_contextFold = None, s_contextFoldSeq = 0,
      s_derived = [], s_derivedNodes = 0, s_derivedGeneration = 0\<rparr>"

definition assertSupportedRequestHeader :: "event_data \<Rightarrow> session_error + unit" where
  "assertSupportedRequestHeader d =
     (if event_type d = ''request/header-delta'' then Inl UnsupportedHeaderDelta else Inr ())"

fun map_error :: "('e \<Rightarrow> 'f) \<Rightarrow> 'e + 'a \<Rightarrow> 'f + 'a" where
  "map_error f (Inl e) = Inl (f e)"
| "map_error f (Inr a) = Inr a"

definition session_append ::
    "session \<Rightarrow> nat \<Rightarrow> event_data \<Rightarrow> surface_intent \<Rightarrow> session_error + session \<times> session_event" where
  "session_append s now d opts =
     bind_res (assertSupportedRequestHeader d) (\<lambda>_.
     let event = \<lparr>ev_seq = length (s_log s), ev_time = now, ev_data = d,
                  ev_surfaceOp = si_surfaceOp opts, ev_sourceEventSeqs = si_sourceEventSeqs opts,
                  ev_ignorable = False\<rparr> in
     bind_res (map_error SurfaceError (validateNext (s_log s) 0 (s_surfaceManager s) event)) (\<lambda>m.
       Inr (s\<lparr>s_surfaceManager := m, s_log := s_log s @ [event]\<rparr>, event)))"

definition no_intent :: surface_intent where
  "no_intent = \<lparr>si_surfaceOp = None, si_sourceEventSeqs = None\<rparr>"

text \<open>One event of a constructor seed: checked, planned against the log so far, pushed.\<close>

definition seed_one :: "session \<Rightarrow> nat \<times> session_event \<Rightarrow> session_error + session" where
  "seed_one s entry =
     (case entry of (index, source) \<Rightarrow>
        bind_res (assertSupportedRequestHeader (ev_data source)) (\<lambda>_.
        if ev_seq source \<noteq> index then Inl (SeedNotContiguous index (ev_seq source))
        else bind_res (map_error (InvalidSeed index)
                         (validateNext (s_log s) 0 (s_surfaceManager s) source)) (\<lambda>m.
          Inr (s\<lparr>s_surfaceManager := m, s_log := s_log s @ [source]\<rparr>))))"

fun ends_with_seed_marker :: "session_event list \<Rightarrow> bool" where
  "ends_with_seed_marker evs = (evs \<noteq> [] \<and> ev_data (last evs) = EndSeed)"

definition session_create ::
    "session_header \<Rightarrow> nat \<Rightarrow> session_event list option \<Rightarrow> session_error + session" where
  "session_create header now seed =
     bind_res (case seed of None \<Rightarrow> Inr (emptySession header)
               | Some evs \<Rightarrow> fold_res seed_one (emptySession header) (enumerate 0 evs)) (\<lambda>s.
     let s1 = s\<lparr>s_firstLiveSeq := length (s_log s)\<rparr> in
     if seed \<noteq> None \<and> \<not> ends_with_seed_marker (s_log s1)
     then bind_res (session_append s1 now EndSeed no_intent) (\<lambda>(s2, _). Inr s2)
     else Inr s1)"

section \<open>Reading through the caches\<close>

definition requestHeader :: "session \<Rightarrow> session \<times> epoch_header option" where
  "requestHeader s =
     (if s_headerFoldSeq s < length (s_log s) then
        let h = foldRequestHeader (drop (s_headerFoldSeq s) (s_log s)) (s_headerFold s) in
        (s\<lparr>s_headerFold := h, s_headerFoldSeq := length (s_log s)\<rparr>, h)
      else (s, s_headerFold s))"

definition requestContext :: "session \<Rightarrow> session \<times> request_context option" where
  "requestContext s =
     (if s_contextFoldSeq s < length (s_log s) then
        let c = foldRequestContext (drop (s_contextFoldSeq s) (s_log s)) (s_contextFold s) in
        (s\<lparr>s_contextFold := c, s_contextFoldSeq := length (s_log s)\<rparr>, c)
      else (s, s_contextFold s))"

text \<open>The getters of the surface: both fold the delta first.\<close>

definition session_surface :: "session \<Rightarrow> session_error + session \<times> surface_state" where
  "session_surface s =
     bind_res (map_error SurfaceError (syncSurface (s_log s) 0 (s_surfaceManager s))) (\<lambda>m.
       Inr (s\<lparr>s_surfaceManager := m\<rparr>, sm_state m))"

text \<open>The messages of a list of surface sequences; each is an index of the log (lemma below).\<close>

definition derive_nodes :: "session_event list \<Rightarrow> nat list \<Rightarrow> message list" where
  "derive_nodes events seqs = List.map_filter (\<lambda>seq. deriveEventMessage (ev_data (events ! seq))) seqs"

definition deriveMessages :: "session \<Rightarrow> session_error + session \<times> message list" where
  "deriveMessages s0 =
     bind_res (session_surface s0) (\<lambda>(s, st).
       let s1 = (if sf_replaceGeneration st \<noteq> s_derivedGeneration s
                 then s\<lparr>s_derived := [], s_derivedNodes := 0,
                        s_derivedGeneration := sf_replaceGeneration st\<rparr>
                 else s);
           derived = s_derived s1 @ derive_nodes (s_log s1) (drop (s_derivedNodes s1) (sf_nodes st))
       in Inr (s1\<lparr>s_derived := derived, s_derivedNodes := length (sf_nodes st)\<rparr>, derived))"

section \<open>Forking\<close>

datatype fork_error =
    SESSION_NOT_FOUND
  | SESSION_NOT_LIVE
  | SESSION_ALREADY_EXISTS
  | INVALID_BOUNDARY
  | OPEN_TURN

fun is_turn_boundary :: "event_data \<Rightarrow> bool" where
  "is_turn_boundary (TurnStart _) = True"
| "is_turn_boundary (TurnEnd _ _) = True"
| "is_turn_boundary _ = False"

fun is_turn_start :: "event_data \<Rightarrow> bool" where
  "is_turn_start (TurnStart _) = True"
| "is_turn_start _ = False"

definition forkSeed :: "session \<Rightarrow> jsnum option \<Rightarrow> fork_error + session_event list" where
  "forkSeed s requestedBoundary =
     (let events = s_log s;
          take_to = (\<lambda>boundary :: jsnum.
            case boundary of
              JFrac _ \<Rightarrow> Inl INVALID_BOUNDARY
            | JInt b \<Rightarrow>
                if \<not> is_safe_integer boundary \<or> b < 0 then Inl INVALID_BOUNDARY
                else if int (length events) \<le> b then Inl INVALID_BOUNDARY
                else if ev_seq (events ! nat b) \<noteq> nat b then Inl INVALID_BOUNDARY
                else (case find_last (\<lambda>e. is_turn_boundary (ev_data e)) (take (nat b + 1) events) of
                        Some e \<Rightarrow> if is_turn_start (ev_data e) then Inl OPEN_TURN
                                  else Inr (take (nat b + 1) events)
                      | None \<Rightarrow> Inr (take (nat b + 1) events)))
      in case requestedBoundary of
           Some b \<Rightarrow> take_to b
         | None \<Rightarrow> if events = [] then Inr [] else take_to (JInt (int (ev_seq (last events)))))"

text \<open>\<open>fork\<close> of a live source under a free child id, down to the created child.\<close>

definition session_fork ::
    "session \<Rightarrow> jsnum option \<Rightarrow> string \<Rightarrow> nat \<Rightarrow> fork_error + session_error + session" where
  "session_fork source boundary childId now =
     bind_res (forkSeed source boundary) (\<lambda>seed.
       Inr (session_create
         \<lparr>sh_version = 0, sh_id = childId, sh_createdAt = now, sh_cwd = sh_cwd (s_header source),
          sh_parentSession = Some (sh_id (s_header source)), sh_seedLength = Some (length seed),
          sh_origin = False, sh_delegationDepth = None, sh_agentPreset = None\<rparr>
         now (Some seed)))"

section \<open>Every cache is the fold of the log\<close>

text \<open>
  The invariant: the log folds; the manager has processed a prefix of it; each header cache is the
  fold of the prefix it has consumed; the derived messages are those of the surface of some prefix,
  with its generation and node count.
\<close>

definition derived_at :: "session_event list \<Rightarrow> nat \<Rightarrow> session \<Rightarrow> bool" where
  "derived_at events k s \<longleftrightarrow>
     k \<le> length events
     \<and> (\<exists>st reps. foldSurface (take k events) = Inr (st, reps)
           \<and> s_derivedGeneration s = sf_replaceGeneration st
           \<and> s_derivedNodes s = length (sf_nodes st)
           \<and> s_derived s = derive_nodes events (sf_nodes st))"

definition session_ok :: "session \<Rightarrow> bool" where
  "session_ok s \<longleftrightarrow>
     is_ok (foldSurface (s_log s))
     \<and> (\<forall>ev \<in> set (s_log s). assertSupportedRequestHeader (ev_data ev) = Inr ())
     \<and> (\<exists>k. manager_at (s_log s) k (s_surfaceManager s))
     \<and> s_headerFoldSeq s \<le> length (s_log s)
     \<and> s_headerFold s = foldRequestHeader (take (s_headerFoldSeq s) (s_log s)) None
     \<and> s_contextFoldSeq s \<le> length (s_log s)
     \<and> s_contextFold s = foldRequestContext (take (s_contextFoldSeq s) (s_log s)) None
     \<and> (\<exists>k. derived_at (s_log s) k s)"

lemma session_okD:
  assumes "session_ok s"
  obtains st reps k kd where "foldSurface (s_log s) = Inr (st, reps)"
    and "manager_at (s_log s) k (s_surfaceManager s)" and "derived_at (s_log s) kd s"
  using assms unfolding session_ok_def is_ok_iff by (metis surj_pair)

lemma derive_nodes_append [simp]:
  "derive_nodes events (xs @ ys) = derive_nodes events xs @ derive_nodes events ys"
  by (simp add: derive_nodes_def map_filter_def)

lemma derive_nodes_log:
  "\<forall>n \<in> set ns. n < length events \<Longrightarrow> derive_nodes (events @ xs) ns = derive_nodes events ns"
  unfolding derive_nodes_def map_filter_def
  by (intro arg_cong2 [where f = map] filter_cong map_cong refl) (auto simp: nth_append intro!: filter_cong)

lemma derived_at_append:
  assumes "derived_at (s_log s) k s"
  shows "derived_at (s_log s @ xs) k s"
proof -
  from assms obtain st reps where k: "k \<le> length (s_log s)"
    and f: "foldSurface (take k (s_log s)) = Inr (st, reps)"
    and d: "s_derivedGeneration s = sf_replaceGeneration st" "s_derivedNodes s = length (sf_nodes st)"
      "s_derived s = derive_nodes (s_log s) (sf_nodes st)"
    by (auto simp: derived_at_def)
  have "\<forall>n \<in> set (sf_nodes st). n < length (s_log s)"
    using foldSurface_nodes_bound [OF f] k by fastforce
  then have "s_derived s = derive_nodes (s_log s @ xs) (sf_nodes st)"
    using d(3) derive_nodes_log by simp
  with k f d show ?thesis by (auto simp: derived_at_def)
qed

text \<open>Between two surfaces of the same generation only appends happened.\<close>

lemma apply_plan_grows:
  "applySurfaceEvent st ev n evs b = Inr (st', r) \<Longrightarrow>
   sf_replaceGeneration st \<le> sf_replaceGeneration st'
   \<and> (sf_replaceGeneration st' = sf_replaceGeneration st \<longrightarrow> (\<exists>xs. sf_nodes st' = sf_nodes st @ xs))"
  unfolding applySurfaceEvent_def bind_res_Inr_iff
  by (elim exE conjE, rename_tac p, case_tac "(st, p)" rule: applySurfacePlan.cases) auto

lemma foldSurface_snocD:
  assumes "foldSurface evs = Inr (st, reps)" and "foldSurface (evs @ [ev]) = Inr (st', reps')"
  shows "\<exists>r. applySurfaceEvent st ev (length evs) evs 0 = Inr (st', r)"
  using assms(2) foldSurface_snoc [OF assms(1), of ev]
  by (cases "applySurfaceEvent st ev (length evs) evs 0") auto

lemma same_generation_grows:
  assumes "foldSurface evs = Inr (st, reps)" and "foldSurface (evs @ ys) = Inr (st', reps')"
  shows "sf_replaceGeneration st \<le> sf_replaceGeneration st'
   \<and> (sf_replaceGeneration st' = sf_replaceGeneration st \<longrightarrow> (\<exists>xs. sf_nodes st' = sf_nodes st @ xs))"
  using assms(2)
proof (induction ys arbitrary: st' reps' rule: rev_induct)
  case Nil
  with assms(1) show ?case by simp
next
  case (snoc y ys)
  from foldSurface_take [OF snoc.prems, of "length (evs @ ys)"] obtain st1 reps1
    where f: "foldSurface (evs @ ys) = Inr (st1, reps1)" by auto
  from foldSurface_snocD [OF f, of y] snoc.prems obtain r
    where "applySurfaceEvent st1 y (length (evs @ ys)) (evs @ ys) 0 = Inr (st', r)"
    by fastforce
  from apply_plan_grows [OF this] snoc.IH [OF f] show ?case
    by (metis append.assoc le_antisym le_trans)
qed

lemma session_ok_empty: "session_ok (emptySession h)"
proof -
  have "foldSurface [] = Inr (createFoldState, [])" by (simp add: foldSurface_def)
  moreover have "manager_at [] 0 (newSurfaceManager 0)" by (rule manager_at_new)
  ultimately show ?thesis
    by (auto simp: session_ok_def emptySession_def derived_at_def createFoldState_def derive_nodes_def map_filter_def)
qed

text \<open>The common step of a live append and a seed: validate, then push.\<close>

lemma push_ok:
  assumes ok: "session_ok s" and sup: "assertSupportedRequestHeader (ev_data ev) = Inr ()" and v: "validateNext (s_log s) 0 (s_surfaceManager s) ev = Inr m"
  shows "session_ok (s\<lparr>s_surfaceManager := m, s_log := s_log s @ [ev]\<rparr>)"
proof -
  from ok obtain st reps k kd where f: "foldSurface (s_log s) = Inr (st, reps)"
    and m: "manager_at (s_log s) k (s_surfaceManager s)" and d: "derived_at (s_log s) kd s"
    by (rule session_okD)
  from validateNext_at(1) [OF f m v] obtain plan where m': "manager_at (s_log s) (length (s_log s)) m"
    and p: "planSurfaceEvent st ev (length (s_log s)) (s_log s) 0 = Inr plan" by blast
  have "is_ok (foldSurface (s_log s @ [ev]))"
    using foldSurface_snoc [OF f, of ev] p by (simp add: applySurfaceEvent_def split_beta)
  moreover have "manager_at (s_log s @ [ev]) (length (s_log s)) m"
    using m' manager_at_append by blast
  moreover have "derived_at (s_log s @ [ev]) kd (s\<lparr>s_surfaceManager := m, s_log := s_log s @ [ev]\<rparr>)"
    using derived_at_append [OF d, of "[ev]"] by (simp add: derived_at_def)
  ultimately show ?thesis using ok sup by (auto simp: session_ok_def)
qed

lemma map_error_Inr [simp]: "map_error f r = Inr a \<longleftrightarrow> r = Inr a"
  by (cases r) auto

lemma session_append_ok:
  assumes "session_ok s" and "session_append s now d opts = Inr (s', ev)"
  shows "session_ok s'" and "s_log s' = s_log s @ [ev]" and "ev_seq ev = length (s_log s)"
    and "ev_data ev = d"
  using assms by (auto simp: session_append_def Let_def bind_res_Inr_iff intro: push_ok)

lemma seed_one_ok:
  "session_ok s \<Longrightarrow> seed_one s (i, ev) = Inr s' \<Longrightarrow> session_ok s' \<and> s_log s' = s_log s @ [ev]"
  by (auto simp: seed_one_def bind_res_Inr_iff push_ok split: if_splits)

lemma seed_all_ok:
  "fold_res seed_one s (enumerate n evs) = Inr s' \<Longrightarrow> session_ok s
   \<Longrightarrow> session_ok s' \<and> s_log s' = s_log s @ evs"
proof (induction evs arbitrary: n s)
  case Nil
  then show ?case by simp
next
  case (Cons ev evs)
  from Cons.prems(1) obtain s1 where s1: "seed_one s (n, ev) = Inr s1"
    and rest: "fold_res seed_one s1 (enumerate (Suc n) evs) = Inr s'"
    by (auto simp: bind_res_Inr_iff)
  from seed_one_ok [OF Cons.prems(2) s1] Cons.IH [OF rest] show ?case by simp
qed

lemma emptySession_log [simp]: "s_log (emptySession h) = []"
  by (simp add: emptySession_def)

lemma session_ok_firstLiveSeq [simp]: "session_ok (s\<lparr>s_firstLiveSeq := n\<rparr>) = session_ok s"
  by (simp add: session_ok_def derived_at_def)

text \<open>The events a constructor leaves in the log: the seed, and a marker when it lacks one.\<close>

lemma session_create_ok:
  assumes "session_create h now seed = Inr s"
  shows "session_ok s"
    and "seed = Some evs \<Longrightarrow> \<exists>ms. s_log s = evs @ ms \<and> length ms \<le> 1 \<and> (\<forall>m \<in> set ms. ev_data m = EndSeed)"
    and "seed = None \<Longrightarrow> s_log s = []"
proof -
  show "session_ok s"
    using assms by (cases seed)
      (auto simp: session_create_def Let_def bind_res_Inr_iff session_ok_empty
        dest!: seed_all_ok [OF _ session_ok_empty] session_append_ok(1) [rotated] split: if_splits)
  show "seed = None \<Longrightarrow> s_log s = []"
    using assms by (auto simp: session_create_def Let_def)
  show "\<exists>ms. s_log s = evs @ ms \<and> length ms \<le> 1 \<and> (\<forall>m \<in> set ms. ev_data m = EndSeed)"
    if seed: "seed = Some evs"
  proof -
    from assms seed obtain s0 where s0: "fold_res seed_one (emptySession h) (enumerate 0 evs) = Inr s0"
      and c: "(let s1 = s0\<lparr>s_firstLiveSeq := length (s_log s0)\<rparr> in
         if \<not> ends_with_seed_marker (s_log s1)
         then bind_res (session_append s1 now EndSeed no_intent) (\<lambda>(s2, _). Inr s2) else Inr s1) = Inr s"
      by (auto simp: session_create_def bind_res_Inr_iff simp del: ends_with_seed_marker.simps)
    have ok: "session_ok (s0\<lparr>s_firstLiveSeq := length (s_log s0)\<rparr>)" and log0: "s_log s0 = evs"
      using seed_all_ok [OF s0 session_ok_empty] by simp_all
    show ?thesis
    proof (cases "ends_with_seed_marker evs")
      case True
      with c log0 show ?thesis by (auto simp: Let_def)
    next
      case False
      with c log0 obtain ev where
        a: "session_append (s0\<lparr>s_firstLiveSeq := length (s_log s0)\<rparr>) now EndSeed no_intent = Inr (s, ev)"
        by (auto simp: Let_def bind_res_Inr_iff simp del: ends_with_seed_marker.simps)
      from session_append_ok(2, 4) [OF ok a] log0 show ?thesis by auto
    qed
  qed
qed

lemma requestHeader_ok:
  assumes "session_ok s" and "requestHeader s = (s', h)"
  shows "session_ok s'" and "h = foldRequestHeader (s_log s) None" and "s_log s' = s_log s"
proof -
  let ?k = "s_headerFoldSeq s"
  from assms(1) have k: "?k \<le> length (s_log s)"
    and fold: "s_headerFold s = foldRequestHeader (take ?k (s_log s)) None" by (auto simp: session_ok_def)
  have whole: "foldRequestHeader (drop ?k (s_log s)) (s_headerFold s) = foldRequestHeader (s_log s) None"
    unfolding fold foldRequestHeader_append [symmetric] by simp
  show "session_ok s'"
    using assms whole by (auto simp: requestHeader_def session_ok_def Let_def derived_at_def split: if_splits)
  show "h = foldRequestHeader (s_log s) None" "s_log s' = s_log s"
    using assms(2) whole k fold by (auto simp: requestHeader_def Let_def split: if_splits)
qed

lemma requestContext_ok:
  assumes "session_ok s" and "requestContext s = (s', c)"
  shows "session_ok s'" and "c = foldRequestContext (s_log s) None" and "s_log s' = s_log s"
proof -
  let ?k = "s_contextFoldSeq s"
  from assms(1) have k: "?k \<le> length (s_log s)"
    and fold: "s_contextFold s = foldRequestContext (take ?k (s_log s)) None" by (auto simp: session_ok_def)
  have whole: "foldRequestContext (drop ?k (s_log s)) (s_contextFold s) = foldRequestContext (s_log s) None"
    unfolding fold foldRequestContext_append [symmetric] by simp
  show "session_ok s'"
    using assms whole by (auto simp: requestContext_def session_ok_def Let_def derived_at_def split: if_splits)
  show "c = foldRequestContext (s_log s) None" "s_log s' = s_log s"
    using assms(2) whole k fold by (auto simp: requestContext_def Let_def split: if_splits)
qed

lemma session_surface_ok:
  assumes "session_ok s"
  shows "\<exists>m st reps. session_surface s = Inr (s\<lparr>s_surfaceManager := m\<rparr>, st)
           \<and> foldSurface (s_log s) = Inr (st, reps) \<and> session_ok (s\<lparr>s_surfaceManager := m\<rparr>)"
proof -
  from assms obtain st reps k kd where f: "foldSurface (s_log s) = Inr (st, reps)"
    and m: "manager_at (s_log s) k (s_surfaceManager s)" and d: "derived_at (s_log s) kd s"
    by (rule session_okD)
  from syncSurface_at [OF f m] obtain m' where m': "syncSurface (s_log s) 0 (s_surfaceManager s) = Inr m'"
    "manager_at (s_log s) (length (s_log s)) m'" "sm_state m' = st" by blast
  have "session_ok (s\<lparr>s_surfaceManager := m'\<rparr>)"
    using assms m'(2) by (auto simp: session_ok_def derived_at_def)
  moreover have "session_surface s = Inr (s\<lparr>s_surfaceManager := m'\<rparr>, st)"
    using m' by (simp add: session_surface_def)
  ultimately show ?thesis using f by blast
qed

lemma deriveMessages_ok:
  assumes "session_ok s"
  shows "\<exists>s' st reps. foldSurface (s_log s) = Inr (st, reps)
           \<and> deriveMessages s = Inr (s', derive_nodes (s_log s) (sf_nodes st))
           \<and> session_ok s' \<and> s_log s' = s_log s"
proof -
  from session_surface_ok [OF assms] obtain m st reps where sur: "session_surface s = Inr (s\<lparr>s_surfaceManager := m\<rparr>, st)"
    and f: "foldSurface (s_log s) = Inr (st, reps)" and ok1: "session_ok (s\<lparr>s_surfaceManager := m\<rparr>)" by blast
  from assms obtain kd where d: "derived_at (s_log s) kd s" by (auto simp: session_ok_def)
  then obtain st0 reps0 where kd: "kd \<le> length (s_log s)"
    and f0: "foldSurface (take kd (s_log s)) = Inr (st0, reps0)"
    and c: "s_derivedGeneration s = sf_replaceGeneration st0" "s_derivedNodes s = length (sf_nodes st0)"
      "s_derived s = derive_nodes (s_log s) (sf_nodes st0)"
    by (auto simp: derived_at_def)
  from same_generation_grows [OF f0, of "drop kd (s_log s)"] f
  have grows: "sf_replaceGeneration st = sf_replaceGeneration st0 \<Longrightarrow> \<exists>xs. sf_nodes st = sf_nodes st0 @ xs"
    by simp
  define s1 where "s1 = s\<lparr>s_surfaceManager := m\<rparr>"
  define s' where "s' = s1\<lparr>s_derived := derive_nodes (s_log s) (sf_nodes st),
      s_derivedNodes := length (sf_nodes st), s_derivedGeneration := sf_replaceGeneration st\<rparr>"
  have eq: "deriveMessages s = Inr (s', derive_nodes (s_log s) (sf_nodes st))"
  proof (cases "sf_replaceGeneration st = s_derivedGeneration s")
    case True
    with grows c obtain xs where "sf_nodes st = sf_nodes st0 @ xs" by auto
    with True c sur show ?thesis by (simp add: deriveMessages_def s'_def s1_def Let_def)
  next
    case False
    with sur show ?thesis by (simp add: deriveMessages_def s'_def s1_def Let_def)
  qed
  have "derived_at (s_log s') (length (s_log s)) s'"
    using f by (simp add: derived_at_def s'_def s1_def)
  moreover have "s_log s' = s_log s" by (simp add: s'_def s1_def)
  ultimately have "session_ok s'"
    using ok1 unfolding session_ok_def by (auto simp: s'_def s1_def)
  with f eq show ?thesis by (auto simp: s'_def s1_def)
qed

text \<open>The operations of a live session in any order; a rejected one leaves the session as it was.\<close>

datatype session_op =
    SessionAppend nat event_data surface_intent
  | ReadHeader
  | ReadContext
  | ReadSurface
  | ReadMessages

fun session_step :: "session \<Rightarrow> session_op \<Rightarrow> session" where
  "session_step s (SessionAppend now d opts) =
     (case session_append s now d opts of Inr (s', _) \<Rightarrow> s' | Inl _ \<Rightarrow> s)"
| "session_step s ReadHeader = fst (requestHeader s)"
| "session_step s ReadContext = fst (requestContext s)"
| "session_step s ReadSurface = (case session_surface s of Inr (s', _) \<Rightarrow> s' | Inl _ \<Rightarrow> s)"
| "session_step s ReadMessages = (case deriveMessages s of Inr (s', _) \<Rightarrow> s' | Inl _ \<Rightarrow> s)"

definition session_run :: "session \<Rightarrow> session_op list \<Rightarrow> session" where
  "session_run s ops = foldl session_step s ops"

lemma session_step_ok: "session_ok s \<Longrightarrow> session_ok (session_step s op)"
proof (cases op)
  case (SessionAppend now d opts)
  assume "session_ok s"
  then show ?thesis using SessionAppend session_append_ok(1) by (auto split: sum.splits)
next
  case ReadHeader
  assume "session_ok s"
  then show ?thesis using ReadHeader requestHeader_ok(1) by (metis prod.collapse session_step.simps(2))
next
  case ReadContext
  assume "session_ok s"
  then show ?thesis using ReadContext requestContext_ok(1) by (metis prod.collapse session_step.simps(3))
next
  case ReadSurface
  assume "session_ok s"
  from session_surface_ok [OF this] show ?thesis using ReadSurface by auto
next
  case ReadMessages
  assume "session_ok s"
  from deriveMessages_ok [OF this] show ?thesis using ReadMessages by auto
qed

lemma session_run_ok: "session_ok s \<Longrightarrow> session_ok (session_run s ops)"
  unfolding session_run_def by (induction ops rule: rev_induct) (auto intro: session_step_ok)

section \<open>A fork is always a session\<close>

text \<open>A seed whose fold is accepted can be entered event by event.\<close>

lemma seed_one_complete:
  assumes ok: "session_ok s" and sup: "assertSupportedRequestHeader (ev_data ev) = Inr ()"
    and f: "is_ok (foldSurface (s_log s @ [ev]))"
  shows "\<exists>s'. seed_one s (length (s_log s), ev) = Inr s'"
proof -
  from ok obtain st reps k kd where st: "foldSurface (s_log s) = Inr (st, reps)"
    and m: "manager_at (s_log s) k (s_surfaceManager s)" and "derived_at (s_log s) kd s"
    by (rule session_okD)
  from f obtain st' reps' where "foldSurface (s_log s @ [ev]) = Inr (st', reps')"
    by (auto simp: is_ok_iff)
  from foldSurface_snocD [OF st this] obtain plan
    where p: "planSurfaceEvent st ev (length (s_log s)) (s_log s) 0 = Inr plan"
    by (auto simp: applySurfaceEvent_def bind_res_Inr_iff)
  from validateNext_at(2) [OF st m p] plan_seq [OF p] sup show ?thesis
    by (auto simp: seed_one_def)
qed

lemma seed_all_complete:
  "session_ok s \<Longrightarrow> is_ok (foldSurface (s_log s @ evs))
   \<Longrightarrow> \<forall>ev \<in> set evs. assertSupportedRequestHeader (ev_data ev) = Inr ()
   \<Longrightarrow> \<exists>s'. fold_res seed_one s (enumerate (length (s_log s)) evs) = Inr s'"
proof (induction evs arbitrary: s)
  case Nil
  then show ?case by simp
next
  case (Cons ev evs)
  from Cons.prems(2) obtain st reps where "foldSurface (s_log s @ ev # evs) = Inr (st, reps)"
    by (auto simp: is_ok_iff)
  from foldSurface_take [OF this, of "Suc (length (s_log s))"]
  have "is_ok (foldSurface (s_log s @ [ev]))" by (auto simp: is_ok_iff)
  from seed_one_complete [OF Cons.prems(1) _ this] Cons.prems(3) obtain s1
    where s1: "seed_one s (length (s_log s), ev) = Inr s1" by auto
  from seed_one_ok [OF Cons.prems(1) s1] Cons.IH [of s1] Cons.prems(2, 3) s1
  show ?case by simp
qed

text \<open>Events outside the surface can always be appended.\<close>

lemma append_plain:
  assumes ok: "session_ok s" and sup: "assertSupportedRequestHeader d = Inr ()"
    and plain: "\<not> isSurfaceEligibleType (event_type d)"
  shows "\<exists>s' ev. session_append s now d no_intent = Inr (s', ev)"
proof -
  from ok obtain st reps k kd where st: "foldSurface (s_log s) = Inr (st, reps)"
    and m: "manager_at (s_log s) k (s_surfaceManager s)" and "derived_at (s_log s) kd s"
    by (rule session_okD)
  let ?ev = "\<lparr>ev_seq = length (s_log s), ev_time = now, ev_data = d, ev_surfaceOp = None,
    ev_sourceEventSeqs = None, ev_ignorable = False\<rparr>"
  have "planSurfaceEvent st ?ev (length (s_log s)) (s_log s) 0 = Inr None"
    using plain by (simp add: planSurfaceEvent_def surfaceOpOf_def)
  from validateNext_at(2) [OF st m this] sup show ?thesis
    by (auto simp: session_append_def no_intent_def Let_def)
qed

lemma session_create_complete:
  assumes f: "is_ok (foldSurface evs)"
    and sup: "\<forall>ev \<in> set evs. assertSupportedRequestHeader (ev_data ev) = Inr ()"
  shows "\<exists>s. session_create h now (Some evs) = Inr s"
proof -
  from seed_all_complete [OF session_ok_empty [of h], of evs] f sup obtain s0
    where s0: "fold_res seed_one (emptySession h) (enumerate 0 evs) = Inr s0" by auto
  let ?s1 = "s0\<lparr>s_firstLiveSeq := length (s_log s0)\<rparr>"
  from seed_all_ok [OF s0 session_ok_empty] have "session_ok ?s1" by simp
  from append_plain [OF this, of EndSeed now] obtain s2 ev
    where "session_append ?s1 now EndSeed no_intent = Inr (s2, ev)"
    by (auto simp: assertSupportedRequestHeader_def isSurfaceEligibleType_def surface_event_types_def)
  with s0 show ?thesis
    by (auto simp: session_create_def Let_def simp del: ends_with_seed_marker.simps)
qed

definition no_open_turn :: "session_event list \<Rightarrow> bool" where
  "no_open_turn evs =
     (case find_last (\<lambda>e. is_turn_boundary (ev_data e)) evs of
        Some e \<Rightarrow> \<not> is_turn_start (ev_data e) | None \<Rightarrow> True)"

lemma forkSeed_prefix:
  assumes "forkSeed s b = Inr seed" and ok: "session_ok s"
  shows "seed = take (length seed) (s_log s)" and "no_open_turn seed"
    and "b = Some (JInt i) \<Longrightarrow> int (length seed) = i + 1"
    and "b = None \<Longrightarrow> seed = s_log s"
proof -
  from ok obtain st reps where "foldSurface (s_log s) = Inr (st, reps)"
    by (metis session_okD)
  from foldSurface_inv [OF this] have seqs: "\<forall>i < length (s_log s). ev_seq (s_log s ! i) = i" by simp
  show "seed = take (length seed) (s_log s)" and "no_open_turn seed"
    and "b = Some (JInt i) \<Longrightarrow> int (length seed) = i + 1"
    using assms(1)
    by (auto simp: forkSeed_def Let_def no_open_turn_def min_def split: option.splits jsnum.splits if_splits)
  show "b = None \<Longrightarrow> seed = s_log s"
    using assms(1) seqs
    by (cases "s_log s" rule: rev_cases)
      (auto simp: forkSeed_def Let_def split: option.splits if_splits)
qed

lemma session_fork_ok:
  assumes ok: "session_ok s" and seed: "forkSeed s b = Inr seed"
  shows "\<exists>child. session_fork s b childId now = Inr (Inr child) \<and> session_ok child
           \<and> (\<exists>ms. s_log child = seed @ ms \<and> length ms \<le> 1 \<and> (\<forall>m \<in> set ms. ev_data m = EndSeed))"
proof -
  have prefix: "seed = take (length seed) (s_log s)" using forkSeed_prefix(1) [OF seed ok] .
  from ok obtain st reps where "foldSurface (s_log s) = Inr (st, reps)" by (metis session_okD)
  from foldSurface_take [OF this, of "length seed"] prefix have "is_ok (foldSurface seed)"
    by (metis is_ok.simps(2))
  moreover have "set seed \<subseteq> set (s_log s)" using prefix set_take_subset by metis
  then have "\<forall>ev \<in> set seed. assertSupportedRequestHeader (ev_data ev) = Inr ()"
    using ok by (auto simp: session_ok_def)
  ultimately obtain child where "session_create
      \<lparr>sh_version = 0, sh_id = childId, sh_createdAt = now, sh_cwd = sh_cwd (s_header s),
       sh_parentSession = Some (sh_id (s_header s)), sh_seedLength = Some (length seed),
       sh_origin = False, sh_delegationDepth = None, sh_agentPreset = None\<rparr> now (Some seed) = Inr child"
    using session_create_complete by blast
  with session_create_ok [OF this] seed show ?thesis by (auto simp: session_fork_def)
qed

section \<open>The log as its clients see it\<close>

text \<open>
  Packages that keep their state in the log (the inbox, goals) use it through this interface: an
  append of a plain event cannot be refused, it adds one event with the given payload, and the
  position from which the client owns the log does not move.
\<close>

locale event_log =
  fixes events :: "'s \<Rightarrow> session_event list"
    and start :: "'s \<Rightarrow> nat"
    and ok :: "'s \<Rightarrow> bool"
    and append :: "'s \<Rightarrow> event_data \<Rightarrow> 'e + 's"
  assumes append_event: "ok s \<Longrightarrow> append s d = Inr s' \<Longrightarrow>
      ok s' \<and> start s' = start s \<and> (\<exists>ev. events s' = events s @ [ev] \<and> ev_data ev = d)"
    and append_accepts: "ok s \<Longrightarrow> \<not> isSurfaceEligibleType (event_type d)
      \<Longrightarrow> event_type d \<noteq> ''request/header-delta'' \<Longrightarrow> \<exists>s'. append s d = Inr s'"

text \<open>
  A client whose live state is a projection of the part of the log it owns. Committing an event to
  the log and applying it to the live state keeps the live state what a reload would compute.
\<close>

locale log_client = event_log events start ok append + projection init apply_event inv
  for events :: "'s \<Rightarrow> session_event list" and start :: "'s \<Rightarrow> nat" and ok :: "'s \<Rightarrow> bool"
    and append :: "'s \<Rightarrow> event_data \<Rightarrow> 'e + 's"
    and init :: 'p and apply_event :: "'p \<Rightarrow> session_event \<Rightarrow> 'x + 'p" and inv :: "'p \<Rightarrow> bool"
begin

definition synced :: "'s \<Rightarrow> 'p \<Rightarrow> bool" where
  "synced s p \<longleftrightarrow> ok s \<and> start s \<le> length (events s) \<and> replay (drop (start s) (events s)) = Inr p"

lemma synced_inv: "synced s p \<Longrightarrow> inv p"
  unfolding synced_def using replay_inv by blast

lemma synced_commit:
  assumes s: "synced s p" and a: "append s d = Inr s'"
    and step: "\<And>ev. ev_data ev = d \<Longrightarrow> apply_event p ev = Inr p'"
  shows "synced s' p'"
proof -
  from s a append_event obtain ev where s': "ok s'" "start s' = start s" "events s' = events s @ [ev]"
    and d: "ev_data ev = d" unfolding synced_def by blast
  with s show ?thesis using step [OF d] by (auto simp: synced_def replay_snoc)
qed

lemma synced_accepts:
  "synced s p \<Longrightarrow> \<not> isSurfaceEligibleType (event_type d) \<Longrightarrow> event_type d \<noteq> ''request/header-delta''
   \<Longrightarrow> \<exists>s'. append s d = Inr s'"
  unfolding synced_def using append_accepts by blast

end

definition seed_start :: "session \<Rightarrow> nat" where
  "seed_start s = (case sh_seedLength (s_header s) of None \<Rightarrow> 0 | Some n \<Rightarrow> n)"

definition log_append :: "nat \<Rightarrow> session \<Rightarrow> event_data \<Rightarrow> session_error + session" where
  "log_append now s d = bind_res (session_append s now d no_intent) (\<lambda>(s', _). Inr s')"

lemma session_append_header: "session_append s now d opts = Inr (s', ev) \<Longrightarrow> s_header s' = s_header s"
  by (auto simp: session_append_def Let_def bind_res_Inr_iff)

interpretation slog: event_log s_log seed_start session_ok "log_append now" for now
proof unfold_locales
  fix s d s'
  assume ok: "session_ok s" and "log_append now s d = Inr s'"
  then obtain ev where "session_append s now d no_intent = Inr (s', ev)"
    by (auto simp: log_append_def bind_res_Inr_iff)
  with session_append_ok [OF ok this] session_append_header [OF this]
  show "session_ok s' \<and> seed_start s' = seed_start s \<and> (\<exists>ev. s_log s' = s_log s @ [ev] \<and> ev_data ev = d)"
    by (auto simp: seed_start_def)
next
  fix s d
  assume "session_ok s" "\<not> isSurfaceEligibleType (event_type d)" "event_type d \<noteq> ''request/header-delta''"
  with append_plain [of s d now] show "\<exists>s'. log_append now s d = Inr s'"
    by (auto simp: log_append_def assertSupportedRequestHeader_def)
qed

end
