(* ===== verification/Compaction_Trace.thy ===== *)
theory Compaction_Trace
  imports Session_Trace Session_Log
begin

text \<open>
  The transaction discipline of compactions (packages/compaction/compaction/src/invariant.ts and
  checkpoint.ts) and the lock that reads it back from the log (\<open>inspectCompactionEntryState\<close> and
  \<open>assertCompactionInactive\<close> of packages/compaction/compaction-basic/src/region.ts).

  A compaction opens with a start event, may write one summary, and ends; a numbered one lies inside its
  turn, a standalone one between turns. The lemmas show that the lock, which scans the log backwards, is
  free exactly when the validator has no transaction open.
\<close>

section \<open>Checkpoints\<close>

definition COMPACT_PLUGIN :: string where
  "COMPACT_PLUGIN = ''compact''"

definition compactCheckpointSource :: "string \<Rightarrow> string option \<Rightarrow> message_source" where
  "compactCheckpointSource compactionId sourceCommandId =
     PluginSource COMPACT_PLUGIN
       ([(''compactionId'', JStr compactionId)] @ opt_field ''sourceCommandId'' JStr sourceCommandId)"

fun isCompactCheckpointSource :: "message_source \<Rightarrow> bool" where
  "isCompactCheckpointSource (PluginSource plugin _) = (plugin = COMPACT_PLUGIN)"
| "isCompactCheckpointSource _ = False"

text \<open>A property of a source that is read as one of a checkpoint.\<close>

fun source_field :: "string \<Rightarrow> message_source \<Rightarrow> json option" where
  "source_field k (PluginSource _ kvs) = map_of kvs k"
| "source_field k _ = None"

section \<open>The validator\<close>

record compaction_trace =
  ct_compactionId :: string
  ct_sourceCommandId :: "string option"
  ct_startSeq :: nat
  ct_turn :: "nat option"
  ct_summarized :: bool

record compaction_state =
  cst_openTurn :: "nat option"
  cst_compaction :: "compaction_trace option"

datatype compaction_transition =
    TransitionStart string "string option" nat "nat option"
  | TransitionSummary string "string option" nat "nat option"
  | TransitionEnd
  | TransitionEndSeed

datatype compaction_violation =
    EmptyId string
  | CommandMismatch string "string option" "string option"
  | NoMatchingStart string
  | IdMismatch string string string
  | CrossesBoundary "nat option"
  | StandaloneInTurn string nat
  | OutsideAnyTurn string nat
  | OtherTurn string nat nat
  | StillCompacting "nat option"
  | SummaryRepeated
  | ShadowedEmpty
  | ShadowedRangeMismatch
  | TokenCountNotSafe
  | OwnerMismatch "nat option" "nat option"
  | EndWithoutSummary

definition validateId :: "string \<Rightarrow> string \<Rightarrow> compaction_violation + unit" where
  "validateId v label = guard_res (length v \<noteq> 0) (EmptyId label)"

text \<open>The same check on a value that need not be a string.\<close>

definition validateJsonId :: "json option \<Rightarrow> string \<Rightarrow> compaction_violation + string" where
  "validateJsonId v label =
     (case v of Some (JStr t) \<Rightarrow> if length t = 0 then Inl (EmptyId label) else Inr t | _ \<Rightarrow> Inl (EmptyId label))"

definition validateOptionalId :: "string option \<Rightarrow> string \<Rightarrow> compaction_violation + unit" where
  "validateOptionalId v label = (case v of None \<Rightarrow> Inr () | Some t \<Rightarrow> validateId t label)"

definition validateSourceCommandId ::
    "string \<Rightarrow> string option \<Rightarrow> string option \<Rightarrow> compaction_violation + unit" where
  "validateSourceCommandId eventType v expected =
     bind_res (validateOptionalId v eventType) (\<lambda>_. guard_res (v = expected) (CommandMismatch eventType v expected))"

definition validateCheckpoint :: "compaction_state \<Rightarrow> message_source \<Rightarrow> compaction_violation + unit" where
  "validateCheckpoint trace source =
     bind_res (validateJsonId (source_field ''compactionId'' source) ''compaction checkpoint compactionId'') (\<lambda>i.
     bind_res (case source_field ''sourceCommandId'' source of None \<Rightarrow> Inr None
               | Some v \<Rightarrow> bind_res (validateJsonId (Some v) ''compaction checkpoint sourceCommandId'') (\<lambda>c. Inr (Some c))) (\<lambda>cmd.
     case cst_compaction trace of
       None \<Rightarrow> Inl (NoMatchingStart ''compaction checkpoint'')
     | Some open_ct \<Rightarrow>
         if i \<noteq> ct_compactionId open_ct then Inl (IdMismatch ''compaction checkpoint'' i (ct_compactionId open_ct))
         else validateSourceCommandId ''compaction checkpoint'' cmd (ct_sourceCommandId open_ct)))"

definition validateTurnBoundary :: "compaction_state \<Rightarrow> session_event \<Rightarrow> compaction_violation + unit" where
  "validateTurnBoundary trace ev =
     (if \<not> is_turn_boundary (ev_data ev) then Inr ()
      else case cst_compaction trace of None \<Rightarrow> Inr () | Some c \<Rightarrow> Inl (CrossesBoundary (ct_turn c)))"

definition applyTurnBoundary :: "compaction_state \<Rightarrow> session_event \<Rightarrow> compaction_state" where
  "applyTurnBoundary trace ev =
     (case ev_data ev of
        TurnStart n \<Rightarrow> trace\<lparr>cst_openTurn := Some n\<rparr>
      | TurnEnd _ _ \<Rightarrow> trace\<lparr>cst_openTurn := None\<rparr>
      | _ \<Rightarrow> trace)"

definition validateOwner :: "nat option \<Rightarrow> nat option \<Rightarrow> string \<Rightarrow> compaction_violation + unit" where
  "validateOwner owner openTurn eventType =
     (case owner of
        None \<Rightarrow> (case openTurn of None \<Rightarrow> Inr () | Some t \<Rightarrow> Inl (StandaloneInTurn eventType t))
      | Some w \<Rightarrow>
          (case openTurn of
             None \<Rightarrow> Inl (OutsideAnyTurn eventType w)
           | Some t \<Rightarrow> if w \<noteq> t then Inl (OtherTurn eventType w t) else Inr ()))"

definition validateCompactionEvent ::
    "compaction_state \<Rightarrow> session_event \<Rightarrow> compaction_violation + compaction_transition option" where
  "validateCompactionEvent trace ev =
     (case ev_data ev of
        EndSeed \<Rightarrow> Inr (Some TransitionEndSeed)
      | UserMessage m \<Rightarrow>
          if isReplacementSurfaceEvent ev \<and> isCompactCheckpointSource (m_source m)
          then bind_res (validateCheckpoint trace (m_source m)) (\<lambda>_. Inr None) else Inr None
      | CompactionStart i cmd turn \<Rightarrow>
          bind_res (validateId i ''compaction/start compactionId'') (\<lambda>_.
          bind_res (validateOptionalId cmd ''compaction/start sourceCommandId'') (\<lambda>_.
          case cst_compaction trace of
            Some c \<Rightarrow> Inl (StillCompacting (ct_turn c))
          | None \<Rightarrow>
              bind_res (validateOwner turn (cst_openTurn trace) ''compaction/start'') (\<lambda>_.
                Inr (Some (TransitionStart i cmd (ev_seq ev) turn)))))
      | CompactionSummary d \<Rightarrow>
          bind_res (validateId (cs_compactionId d) ''compaction/summary compactionId'') (\<lambda>_.
          bind_res (validateOptionalId (cs_sourceCommandId d) ''compaction/summary sourceCommandId'') (\<lambda>_.
          case cst_compaction trace of
            None \<Rightarrow> Inl (NoMatchingStart ''compaction/summary'')
          | Some c \<Rightarrow>
              if cs_compactionId d \<noteq> ct_compactionId c
              then Inl (IdMismatch ''compaction/summary'' (cs_compactionId d) (ct_compactionId c))
              else
                bind_res (validateSourceCommandId ''compaction/summary'' (cs_sourceCommandId d) (ct_sourceCommandId c)) (\<lambda>_.
                bind_res (validateOwner (ct_turn c) (cst_openTurn trace) ''compaction/summary'') (\<lambda>_.
                if ct_summarized c then Inl SummaryRepeated
                else if cs_shadowedSeqs d = [] then Inl ShadowedEmpty
                else if hd (cs_shadowedSeqs d) \<noteq> cs_rangeStart d \<or> last (cs_shadowedSeqs d) \<noteq> cs_rangeEnd d
                then Inl ShadowedRangeMismatch
                else if \<not> is_safe_integer (JInt (int (cs_shadowedTokenCount d))) then Inl TokenCountNotSafe
                else Inr (Some (TransitionSummary (ct_compactionId c) (ct_sourceCommandId c) (ct_startSeq c) (ct_turn c)))))))
      | CompactionEnd i cmd turn err \<Rightarrow>
          bind_res (validateId i ''compaction/end compactionId'') (\<lambda>_.
          bind_res (validateOptionalId cmd ''compaction/end sourceCommandId'') (\<lambda>_.
          case cst_compaction trace of
            None \<Rightarrow> Inl (NoMatchingStart ''compaction/end'')
          | Some c \<Rightarrow>
              if i \<noteq> ct_compactionId c then Inl (IdMismatch ''compaction/end'' i (ct_compactionId c))
              else
                bind_res (validateSourceCommandId ''compaction/end'' cmd (ct_sourceCommandId c)) (\<lambda>_.
                if turn \<noteq> ct_turn c then Inl (OwnerMismatch turn (ct_turn c))
                else bind_res (validateOwner (ct_turn c) (cst_openTurn trace) ''compaction/end'') (\<lambda>_.
                  if err = None \<and> \<not> ct_summarized c then Inl EndWithoutSummary
                  else Inr (Some TransitionEnd)))))
      | _ \<Rightarrow> Inr None)"

fun applyCompactionTransition :: "compaction_transition \<Rightarrow> compaction_trace option" where
  "applyCompactionTransition (TransitionStart i cmd startSeq turn) =
     Some \<lparr>ct_compactionId = i, ct_sourceCommandId = cmd, ct_startSeq = startSeq, ct_turn = turn, ct_summarized = False\<rparr>"
| "applyCompactionTransition (TransitionSummary i cmd startSeq turn) =
     Some \<lparr>ct_compactionId = i, ct_sourceCommandId = cmd, ct_startSeq = startSeq, ct_turn = turn, ct_summarized = True\<rparr>"
| "applyCompactionTransition TransitionEnd = None"
| "applyCompactionTransition TransitionEndSeed = None"

definition commit_compaction ::
    "compaction_state \<Rightarrow> session_event \<Rightarrow> compaction_transition option \<Rightarrow> compaction_state" where
  "commit_compaction trace ev transition =
     applyTurnBoundary
       (case transition of None \<Rightarrow> trace | Some t \<Rightarrow> trace\<lparr>cst_compaction := applyCompactionTransition t\<rparr>) ev"

text \<open>A live event: validated when it is dispatched, committed when it is published.\<close>

definition compaction_event :: "compaction_state \<Rightarrow> session_event \<Rightarrow> compaction_violation + compaction_state" where
  "compaction_event trace ev =
     bind_res (validateTurnBoundary trace ev) (\<lambda>_.
     bind_res (validateCompactionEvent trace ev) (\<lambda>transition.
       Inr (commit_compaction trace ev transition)))"

text \<open>Starts that a later seed boundary made stale: the open start, and the set.\<close>

definition orphan_step :: "nat option \<times> nat set \<Rightarrow> session_event \<Rightarrow> nat option \<times> nat set" where
  "orphan_step acc ev =
     (case ev_data ev of
        CompactionStart _ _ _ \<Rightarrow> (Some (ev_seq ev), snd acc)
      | CompactionEnd _ _ _ _ \<Rightarrow> (None, snd acc)
      | EndSeed \<Rightarrow> (None, (case fst acc of Some n \<Rightarrow> insert n (snd acc) | None \<Rightarrow> snd acc))
      | _ \<Rightarrow> acc)"

definition inheritedOrphanStartSeqs :: "session_event list \<Rightarrow> nat set" where
  "inheritedOrphanStartSeqs events = snd (foldl orphan_step (None, {}) events)"

definition freshCompaction :: compaction_state where
  "freshCompaction = \<lparr>cst_openTurn = None, cst_compaction = None\<rparr>"

definition seed_compaction_event ::
    "nat set \<Rightarrow> compaction_state \<Rightarrow> session_event \<Rightarrow> compaction_violation + compaction_state" where
  "seed_compaction_event stale trace ev =
     bind_res (if (case cst_compaction trace of None \<Rightarrow> True | Some c \<Rightarrow> ct_startSeq c \<notin> stale)
               then validateTurnBoundary trace ev else Inr ()) (\<lambda>_.
     bind_res (validateCompactionEvent trace ev) (\<lambda>transition.
       Inr (commit_compaction trace ev transition)))"

definition seedCompaction :: "session_event list \<Rightarrow> compaction_violation + compaction_state" where
  "seedCompaction events =
     fold_res (seed_compaction_event (inheritedOrphanStartSeqs events)) freshCompaction events"

section \<open>The lock\<close>

record entry_state =
  es_openTurn :: "nat option"
  es_unmatchedStart :: "nat option"  \<comment> \<open>the sequence of the start event\<close>
  es_latestEndSeedSeq :: "nat option"

text \<open>The backward loop: the two flags, the state found so far, and the events from the last one.\<close>

fun inspect_loop :: "bool \<Rightarrow> bool \<Rightarrow> entry_state \<Rightarrow> session_event list \<Rightarrow> entry_state" where
  "inspect_loop turnKnown entryKnown st [] = st"
| "inspect_loop turnKnown entryKnown st (ev # evs) =
     (let st1 = (if es_latestEndSeedSeq st = None \<and> ev_data ev = EndSeed
                 then st\<lparr>es_latestEndSeedSeq := Some (ev_seq ev)\<rparr> else st);
          (st2, entryKnown') =
            (if entryKnown then (st1, True)
             else case ev_data ev of
               CompactionStart _ _ _ \<Rightarrow> (st1\<lparr>es_unmatchedStart := Some (ev_seq ev)\<rparr>, True)
             | CompactionEnd _ _ _ _ \<Rightarrow> (st1, True)
             | _ \<Rightarrow> (st1, False));
          (st3, turnKnown') =
            (if turnKnown then (st2, True)
             else case ev_data ev of
               TurnStart n \<Rightarrow> (st2\<lparr>es_openTurn := Some n\<rparr>, True)
             | TurnEnd _ _ \<Rightarrow> (st2, True)
             | _ \<Rightarrow> (st2, False))
      in if turnKnown' \<and> entryKnown' \<and> es_latestEndSeedSeq st3 \<noteq> None then st3
         else inspect_loop turnKnown' entryKnown' st3 evs)"

definition inspectCompactionEntryState :: "session_event list \<Rightarrow> entry_state" where
  "inspectCompactionEntryState events =
     inspect_loop False False
       \<lparr>es_openTurn = None, es_unmatchedStart = None, es_latestEndSeedSeq = None\<rparr> (rev events)"

definition compaction_inactive :: "entry_state \<Rightarrow> bool" where
  "compaction_inactive st =
     (case es_unmatchedStart st of
        None \<Rightarrow> True
      | Some start \<Rightarrow> (case es_latestEndSeedSeq st of None \<Rightarrow> False | Some n \<Rightarrow> n > start))"

section \<open>The lock is the validator's state\<close>

text \<open>What the scan finds, by the last event of each kind.\<close>

fun bracket_event :: "event_data \<Rightarrow> bool" where
  "bracket_event (CompactionStart _ _ _) = True"
| "bracket_event (CompactionEnd _ _ _ _) = True"
| "bracket_event _ = False"

definition last_turn :: "session_event list \<Rightarrow> nat option" where
  "last_turn evs =
     (case find_last (\<lambda>e. is_turn_boundary (ev_data e)) evs of
        Some e \<Rightarrow> (case ev_data e of TurnStart n \<Rightarrow> Some n | _ \<Rightarrow> None) | None \<Rightarrow> None)"

definition last_start :: "session_event list \<Rightarrow> nat option" where
  "last_start evs =
     (case find_last (\<lambda>e. bracket_event (ev_data e)) evs of
        Some e \<Rightarrow> (case ev_data e of CompactionStart _ _ _ \<Rightarrow> Some (ev_seq e) | _ \<Rightarrow> None) | None \<Rightarrow> None)"

definition last_end_seed :: "session_event list \<Rightarrow> nat option" where
  "last_end_seed evs = map_option ev_seq (find_last (\<lambda>e. ev_data e = EndSeed) evs)"

lemma last_snoc:
  "last_turn (evs @ [ev]) = (case ev_data ev of TurnStart n \<Rightarrow> Some n | TurnEnd _ _ \<Rightarrow> None | _ \<Rightarrow> last_turn evs)"
  "last_start (evs @ [ev]) =
     (case ev_data ev of CompactionStart _ _ _ \<Rightarrow> Some (ev_seq ev) | CompactionEnd _ _ _ _ \<Rightarrow> None | _ \<Rightarrow> last_start evs)"
  "last_end_seed (evs @ [ev]) = (if ev_data ev = EndSeed then Some (ev_seq ev) else last_end_seed evs)"
  by (cases "ev_data ev"; simp add: last_turn_def last_start_def last_end_seed_def)+

lemma last_Nil [simp]: "last_turn [] = None" "last_start [] = None" "last_end_seed [] = None"
  by (simp_all add: last_turn_def last_start_def last_end_seed_def)

lemma inspect_loop_finds:
  "(turnKnown \<or> es_openTurn st = None) \<Longrightarrow> (entryKnown \<or> es_unmatchedStart st = None) \<Longrightarrow>
   inspect_loop turnKnown entryKnown st (rev evs) =
     \<lparr>es_openTurn = (if turnKnown then es_openTurn st else last_turn evs),
      es_unmatchedStart = (if entryKnown then es_unmatchedStart st else last_start evs),
      es_latestEndSeedSeq = (case es_latestEndSeedSeq st of Some n \<Rightarrow> Some n | None \<Rightarrow> last_end_seed evs)\<rparr>"
proof (induction evs arbitrary: turnKnown entryKnown st rule: rev_induct)
  case Nil
  then show ?case by (cases st) (auto split: option.splits)
next
  case (snoc ev evs)
  obtain a b c where st: "st = \<lparr>es_openTurn = a, es_unmatchedStart = b, es_latestEndSeedSeq = c\<rparr>" by (cases st)
  show ?case
    using snoc.prems
    by (cases "ev_data ev"; cases turnKnown; cases entryKnown; cases c)
      (simp_all add: st last_snoc snoc.IH Let_def)
qed

lemma inspect_entry:
  "inspectCompactionEntryState evs =
     \<lparr>es_openTurn = last_turn evs, es_unmatchedStart = last_start evs, es_latestEndSeedSeq = last_end_seed evs\<rparr>"
  unfolding inspectCompactionEntryState_def by (subst inspect_loop_finds) simp_all

text \<open>What a commit leaves, by kind of event.\<close>

lemma commit_fields:
  assumes "validateCompactionEvent t ev = Inr tr"
  shows "cst_openTurn (commit_compaction t ev tr) =
      (case ev_data ev of TurnStart n \<Rightarrow> Some n | TurnEnd _ _ \<Rightarrow> None | _ \<Rightarrow> cst_openTurn t)"
    and "map_option ct_startSeq (cst_compaction (commit_compaction t ev tr)) =
      (case ev_data ev of CompactionStart _ _ _ \<Rightarrow> Some (ev_seq ev) | CompactionEnd _ _ _ _ \<Rightarrow> None
       | EndSeed \<Rightarrow> None | _ \<Rightarrow> map_option ct_startSeq (cst_compaction t))"
  using assms
  by (cases "ev_data ev";
      auto simp: validateCompactionEvent_def commit_compaction_def applyTurnBoundary_def bind_res_Inr_iff
        split: if_splits option.splits)+

text \<open>The state of the validator, whatever prefix of the log came from a seed.\<close>

definition lock_inv :: "session_event list \<Rightarrow> compaction_state \<Rightarrow> bool" where
  "lock_inv evs t \<longleftrightarrow>
     cst_openTurn t = last_turn evs
     \<and> map_option ct_startSeq (cst_compaction t) =
        (case last_start evs of None \<Rightarrow> None
         | Some n \<Rightarrow> (case last_end_seed evs of None \<Rightarrow> Some n | Some m \<Rightarrow> if m > n then None else Some n))"

lemma last_bounds:
  assumes "\<forall>i < length evs. ev_seq (evs ! i) = i"
  shows "last_start evs = Some n \<Longrightarrow> n < length evs" and "last_end_seed evs = Some n \<Longrightarrow> n < length evs"
proof -
  have "\<And>e. e \<in> set evs \<Longrightarrow> ev_seq e < length evs" using assms by (metis in_set_conv_nth)
  then show "last_start evs = Some n \<Longrightarrow> n < length evs" "last_end_seed evs = Some n \<Longrightarrow> n < length evs"
    by (auto simp: last_start_def last_end_seed_def dest!: find_last_Some split: option.splits event_data.splits)
qed

lemma seqs_prefix: "\<forall>i < length (evs @ evs'). ev_seq ((evs @ evs') ! i) = i \<Longrightarrow> \<forall>i < length evs. ev_seq (evs ! i) = i"
  by (metis length_append nth_append trans_less_add1)

lemma lock_inv_step:
  assumes inv: "lock_inv evs t" and seqs: "\<forall>i < length (evs @ [ev]). ev_seq ((evs @ [ev]) ! i) = i"
    and v: "validateCompactionEvent t ev = Inr tr"
  shows "lock_inv (evs @ [ev]) (commit_compaction t ev tr)"
proof -
  have seq: "ev_seq ev = length evs" using seqs by (metis length_append_singleton lessI nth_append_length)
  from last_bounds [OF seqs_prefix [OF seqs]] have b: "\<And>n. last_start evs = Some n \<Longrightarrow> n < length evs"
    "\<And>n. last_end_seed evs = Some n \<Longrightarrow> n < length evs" by blast+
  show ?thesis
    using inv commit_fields [OF v] seq b
    by (cases "ev_data ev") (auto simp: lock_inv_def last_snoc split: option.splits if_splits)
qed

lemma lock_inv_init: "lock_inv [] freshCompaction"
  by (simp add: lock_inv_def freshCompaction_def)

lemma seed_lock_inv:
  "fold_res (seed_compaction_event stale) freshCompaction evs = Inr t \<Longrightarrow> \<forall>i < length evs. ev_seq (evs ! i) = i
   \<Longrightarrow> lock_inv evs t"
proof (induction evs arbitrary: t rule: rev_induct)
  case Nil
  then show ?case using lock_inv_init by simp
next
  case (snoc ev evs)
  from snoc.prems(1) obtain t0 tr where t0: "fold_res (seed_compaction_event stale) freshCompaction evs = Inr t0"
    and v: "validateCompactionEvent t0 ev = Inr tr" and t: "t = commit_compaction t0 ev tr"
    unfolding fold_res_snoc bind_res_Inr_iff seed_compaction_event_def by blast
  from lock_inv_step [OF snoc.IH [OF t0 seqs_prefix [OF snoc.prems(2)]] snoc.prems(2) v] t show ?case by simp
qed

lemma live_lock_inv:
  "fold_res compaction_event t evs = Inr t' \<Longrightarrow> lock_inv pre t
   \<Longrightarrow> \<forall>i < length (pre @ evs). ev_seq ((pre @ evs) ! i) = i \<Longrightarrow> lock_inv (pre @ evs) t'"
proof (induction evs arbitrary: t' rule: rev_induct)
  case Nil
  then show ?case by simp
next
  case (snoc ev evs)
  from snoc.prems(1) obtain t0 tr where t0: "fold_res compaction_event t evs = Inr t0"
    and v: "validateCompactionEvent t0 ev = Inr tr" and t: "t' = commit_compaction t0 ev tr"
    unfolding fold_res_snoc bind_res_Inr_iff compaction_event_def by blast
  have seqs: "\<forall>i < length ((pre @ evs) @ [ev]). ev_seq (((pre @ evs) @ [ev]) ! i) = i" using snoc.prems(3) by simp
  from lock_inv_step [OF snoc.IH [OF t0 snoc.prems(2) seqs_prefix [OF seqs]] seqs v] t show ?case by simp
qed

text \<open>The lock is free exactly when no transaction is open, and both see the same turn.\<close>

lemma lock_agrees:
  assumes "lock_inv evs t"
  shows "compaction_inactive (inspectCompactionEntryState evs) \<longleftrightarrow> cst_compaction t = None"
    and "es_openTurn (inspectCompactionEntryState evs) = cst_openTurn t"
proof -
  from assms have c: "map_option ct_startSeq (cst_compaction t) =
        (case last_start evs of None \<Rightarrow> None
         | Some n \<Rightarrow> (case last_end_seed evs of None \<Rightarrow> Some n | Some m \<Rightarrow> if m > n then None else Some n))"
    and o: "cst_openTurn t = last_turn evs" by (simp_all add: lock_inv_def)
  have "cst_compaction t = None \<longleftrightarrow> map_option ct_startSeq (cst_compaction t) = None" by simp
  with c show "compaction_inactive (inspectCompactionEntryState evs) \<longleftrightarrow> cst_compaction t = None"
    by (auto simp: inspect_entry compaction_inactive_def split: option.splits)
  show "es_openTurn (inspectCompactionEntryState evs) = cst_openTurn t" using o by (simp add: inspect_entry)
qed

end
