(* ===== verification/Tool_Pairing.thy ===== *)
theory Tool_Pairing
  imports Session_Log
begin

text \<open>
  Tool-pairing balance over the surface (packages/compaction/compaction/src/tool-pairing.ts): for every cut
  of the surface, whether no unanswered tool call crosses it, kept in a cache per session that is extended
  while the surface grows and rebuilt after a replacement.

  The lemmas show that the cache never changes an answer, and what the answers are.
\<close>

section \<open>The balance and its cache\<close>

record balance_cache =
  bc_generation :: nat
  bc_cutBalanced :: "bool list"
  bc_indexBySeq :: "nat \<rightharpoonup> nat"
  bc_inProgressToolCalls :: int

datatype pairing_error =
    SurfaceSeqMissing nat
  | ResultBeforeCall nat
  | SurfaceSeqNotFound nat

fun eventDelta :: "event_data \<Rightarrow> int" where
  "eventDelta (AssistantMessage _ _ m _ _) = int (length (filter (\<lambda>b. block_type b = ''tool-call'') (m_content m)))"
| "eventDelta (ToolResult _) = -1"
| "eventDelta _ = 0"

definition eventForSeq :: "session_event list \<Rightarrow> nat \<Rightarrow> pairing_error + session_event" where
  "eventForSeq events seq =
     (case elem_at events seq of
        None \<Rightarrow> Inl (SurfaceSeqMissing seq)
      | Some ev \<Rightarrow> if ev_seq ev \<noteq> seq then Inl (SurfaceSeqMissing seq) else Inr ev)"

text \<open>One turn of the loop of \<open>extendCache\<close>: the calls in progress and the pending cuts.\<close>

definition balance_step ::
    "session_event list \<Rightarrow> int \<times> bool list \<Rightarrow> nat \<Rightarrow> pairing_error + int \<times> bool list" where
  "balance_step events acc seq =
     bind_res (eventForSeq events seq) (\<lambda>ev.
       let n = fst acc + eventDelta (ev_data ev) in
       if n < 0 then Inl (ResultBeforeCall seq) else Inr (n, snd acc @ [n = 0]))"

definition extendCache ::
    "session_event list \<Rightarrow> balance_cache \<Rightarrow> nat list \<Rightarrow> pairing_error + balance_cache" where
  "extendCache events cache seqs =
     (let processed = length (bc_cutBalanced cache) - 1; tail = drop processed seqs in
      bind_res (fold_res (balance_step events) (bc_inProgressToolCalls cache, []) tail) (\<lambda>(n, pendingCuts).
        Inr (cache\<lparr>bc_indexBySeq := foldl (\<lambda>m (i, s). m(s \<mapsto> i)) (bc_indexBySeq cache) (enumerate processed tail),
                   bc_cutBalanced := bc_cutBalanced cache @ pendingCuts,
                   bc_inProgressToolCalls := n\<rparr>)))"

definition empty_balance :: "nat \<Rightarrow> balance_cache" where
  "empty_balance generation =
     \<lparr>bc_generation = generation, bc_cutBalanced = [True], bc_indexBySeq = Map.empty, bc_inProgressToolCalls = 0\<rparr>"

text \<open>
  The cache in step with the surface. An error leaves the stored cache as it was: \<open>extendCache\<close> throws
  before it writes, and a rebuilt cache is stored after it is built.
\<close>

definition balanceCache ::
    "session_event list \<Rightarrow> surface_state \<Rightarrow> balance_cache option \<Rightarrow> pairing_error + balance_cache" where
  "balanceCache events st cached =
     (let rebuilt = extendCache events (empty_balance (sf_replaceGeneration st)) (sf_nodes st) in
      case cached of
        None \<Rightarrow> rebuilt
      | Some c \<Rightarrow>
          if bc_generation c \<noteq> sf_replaceGeneration st \<or> length (bc_cutBalanced c) - 1 > length (sf_nodes st)
          then rebuilt
          else if length (bc_cutBalanced c) - 1 < length (sf_nodes st) then extendCache events c (sf_nodes st)
          else Inr c)"

definition cutBalance :: "balance_cache \<Rightarrow> nat \<Rightarrow> nat \<Rightarrow> pairing_error + bool" where
  "cutBalance cache seq offset =
     (case bc_indexBySeq cache seq of
        None \<Rightarrow> Inl (SurfaceSeqNotFound seq)
      | Some index \<Rightarrow>
          (case elem_at (bc_cutBalanced cache) (index + offset) of
             None \<Rightarrow> Inl (SurfaceSeqNotFound seq)
           | Some balanced \<Rightarrow> Inr balanced))"

text \<open>The two exported questions, with the stored cache before and after.\<close>

definition toolPairing ::
    "nat \<Rightarrow> session_event list \<Rightarrow> surface_state \<Rightarrow> balance_cache option \<Rightarrow> nat
     \<Rightarrow> balance_cache option \<times> (pairing_error + bool)" where
  "toolPairing offset events st cached seq =
     (case balanceCache events st cached of
        Inl e \<Rightarrow> (cached, Inl e)
      | Inr c \<Rightarrow> (Some c, cutBalance c seq offset))"

definition toolPairingBalancedBefore ::
    "session_event list \<Rightarrow> surface_state \<Rightarrow> balance_cache option \<Rightarrow> nat
     \<Rightarrow> balance_cache option \<times> (pairing_error + bool)" where
  "toolPairingBalancedBefore = toolPairing 0"

definition toolPairingBalancedAfter ::
    "session_event list \<Rightarrow> surface_state \<Rightarrow> balance_cache option \<Rightarrow> nat
     \<Rightarrow> balance_cache option \<times> (pairing_error + bool)" where
  "toolPairingBalancedAfter = toolPairing 1"

section \<open>The cache never changes an answer\<close>

lemma balance_fold_cuts:
  "fold_res (balance_step events) (n, cuts @ ds) ns =
     bind_res (fold_res (balance_step events) (n, ds) ns) (\<lambda>(m, es). Inr (m, cuts @ es))"
proof (induction ns arbitrary: n ds)
  case Nil
  then show ?case by simp
next
  case (Cons a ns)
  show ?case
  proof (cases "eventForSeq events a")
    case (Inl e)
    then show ?thesis by (simp add: balance_step_def)
  next
    case (Inr ev)
    then show ?thesis
      using Cons.IH [of "n + eventDelta (ev_data ev)" "ds @ [n + eventDelta (ev_data ev) = 0]"]
      by (simp add: balance_step_def Let_def)
  qed
qed

lemma balance_fold_length:
  "fold_res (balance_step events) (n, cuts) ns = Inr (m, ds) \<Longrightarrow> length ds = length cuts + length ns"
  by (induction ns arbitrary: n cuts) (auto simp: bind_res_Inr_iff balance_step_def Let_def split: if_splits)

lemma index_append:
  "foldl (\<lambda>m (i, s). m(s \<mapsto> i)) m (enumerate k (xs @ ys)) =
     foldl (\<lambda>m (i, s). m(s \<mapsto> i)) (foldl (\<lambda>m (i, s). m(s \<mapsto> i)) m (enumerate k xs)) (enumerate (k + length xs) ys)"
  by (simp add: enumerate_append_eq)

text \<open>A rebuild in closed form.\<close>

lemma rebuild_eq:
  "balanceCache events st None =
     bind_res (fold_res (balance_step events) (0, []) (sf_nodes st)) (\<lambda>(n, cuts).
       Inr \<lparr>bc_generation = sf_replaceGeneration st, bc_cutBalanced = True # cuts,
            bc_indexBySeq = foldl (\<lambda>m (i, s). m(s \<mapsto> i)) Map.empty (enumerate 0 (sf_nodes st)),
            bc_inProgressToolCalls = n\<rparr>)"
  by (simp add: balanceCache_def extendCache_def empty_balance_def Let_def)

lemma rebuildE:
  assumes "balanceCache events st None = Inr c"
  obtains n cuts where "fold_res (balance_step events) (0, []) (sf_nodes st) = Inr (n, cuts)"
    "c = \<lparr>bc_generation = sf_replaceGeneration st, bc_cutBalanced = True # cuts,
          bc_indexBySeq = foldl (\<lambda>m (i, s). m(s \<mapsto> i)) Map.empty (enumerate 0 (sf_nodes st)),
          bc_inProgressToolCalls = n\<rparr>"
    "length cuts = length (sf_nodes st)"
  using assms balance_fold_length [of events 0 "[]" "sf_nodes st"]
  unfolding rebuild_eq by (auto simp: bind_res_Inr_iff)

lemma extend_is_rebuild:
  assumes c: "balanceCache events st0 None = Inr c"
    and gen: "sf_replaceGeneration st = sf_replaceGeneration st0" and nodes: "sf_nodes st = sf_nodes st0 @ xs"
  shows "balanceCache events st (Some c) = balanceCache events st None"
proof -
  from c obtain n cuts where f: "fold_res (balance_step events) (0, []) (sf_nodes st0) = Inr (n, cuts)"
    and ce: "c = \<lparr>bc_generation = sf_replaceGeneration st0, bc_cutBalanced = True # cuts,
          bc_indexBySeq = foldl (\<lambda>m (i, s). m(s \<mapsto> i)) Map.empty (enumerate 0 (sf_nodes st0)),
          bc_inProgressToolCalls = n\<rparr>" and len: "length cuts = length (sf_nodes st0)"
    by (rule rebuildE)
  have whole: "fold_res (balance_step events) (0, []) (sf_nodes st) =
      bind_res (fold_res (balance_step events) (n, []) xs) (\<lambda>(m, es). Inr (m, cuts @ es))"
    unfolding nodes fold_res_append f bind_res.simps using balance_fold_cuts [of events n cuts "[]" xs] by simp
  show ?thesis
  proof (cases xs)
    case Nil
    then show ?thesis using c gen nodes ce len f unfolding rebuild_eq by (simp add: balanceCache_def Let_def)
  next
    case (Cons x ys)
    have "balanceCache events st (Some c) = extendCache events c (sf_nodes st)"
      using gen nodes ce len Cons by (simp add: balanceCache_def Let_def)
    also have "\<dots> = balanceCache events st None"
      unfolding rebuild_eq whole extendCache_def Let_def
      by (cases "fold_res (balance_step events) (n, []) xs") (auto simp: ce len nodes gen index_append)
    finally show ?thesis .
  qed
qed

text \<open>
  A stored cache is one that was built at some earlier length of the log. Reading events of the log is not
  changed by what is appended, so the cache is described over the current log.
\<close>

definition pairing_cache_ok :: "session_event list \<Rightarrow> balance_cache option \<Rightarrow> bool" where
  "pairing_cache_ok events cached \<longleftrightarrow>
     (case cached of None \<Rightarrow> True
      | Some c \<Rightarrow> \<exists>k st reps. foldSurface (take k events) = Inr (st, reps) \<and> balanceCache events st None = Inr c)"

lemma cached_is_rebuild:
  assumes f: "foldSurface events = Inr (st, reps)" and ok: "pairing_cache_ok events cached"
  shows "balanceCache events st cached = balanceCache events st None"
proof (cases cached)
  case None
  then show ?thesis by simp
next
  case (Some c)
  with ok obtain k st0 reps0 where f0: "foldSurface (take k events) = Inr (st0, reps0)"
    and c: "balanceCache events st0 None = Inr c" by (auto simp: pairing_cache_ok_def)
  from same_generation_grows [OF f0, of "drop k events" st reps] f
  have grows: "sf_replaceGeneration st = sf_replaceGeneration st0 \<Longrightarrow> \<exists>xs. sf_nodes st = sf_nodes st0 @ xs" by simp
  show ?thesis
  proof (cases "sf_replaceGeneration st = sf_replaceGeneration st0")
    case True
    with grows obtain xs where "sf_nodes st = sf_nodes st0 @ xs" by blast
    from extend_is_rebuild [OF c True this] Some show ?thesis by simp
  next
    case False
    from c have "bc_generation c = sf_replaceGeneration st0" by (auto elim: rebuildE)
    with False Some show ?thesis by (simp add: balanceCache_def Let_def)
  qed
qed

lemma balance_step_append:
  "seq < length events \<Longrightarrow> balance_step (events @ xs) acc seq = balance_step events acc seq"
  by (simp add: balance_step_def eventForSeq_def)

lemma balance_fold_append:
  "\<forall>n \<in> set ns. n < length events \<Longrightarrow>
   fold_res (balance_step (events @ xs)) acc ns = fold_res (balance_step events) acc ns"
proof (induction ns arbitrary: acc)
  case Nil
  then show ?case by simp
next
  case (Cons n ns)
  then have "balance_step (events @ xs) acc n = balance_step events acc n" by (intro balance_step_append) simp
  then show ?case using Cons.IH Cons.prems by (cases "balance_step events acc n") auto
qed

lemma pairing_cache_grows:
  assumes "pairing_cache_ok events cached"
  shows "pairing_cache_ok (events @ xs) cached"
proof (cases cached)
  case None
  then show ?thesis by (simp add: pairing_cache_ok_def)
next
  case (Some c)
  with assms obtain k st reps where f: "foldSurface (take k events) = Inr (st, reps)"
    and c: "balanceCache events st None = Inr c" by (auto simp: pairing_cache_ok_def)
  have "\<forall>n \<in> set (sf_nodes st). n < length events" using foldSurface_nodes_bound [OF f] by fastforce
  then have "balanceCache (events @ xs) st None = Inr c"
    using c balance_fold_append [of "sf_nodes st" events xs] unfolding rebuild_eq by simp
  moreover have "foldSurface (take (min k (length events)) (events @ xs)) = Inr (st, reps)"
    using f by (cases "k \<le> length events") (simp_all add: min_def)
  ultimately show ?thesis unfolding pairing_cache_ok_def Some option.case by blast
qed

lemma toolPairing_ok:
  assumes f: "foldSurface events = Inr (st, reps)" and ok: "pairing_cache_ok events cached"
  shows "snd (toolPairing offset events st cached seq) = snd (toolPairing offset events st None seq)"
    and "pairing_cache_ok events (fst (toolPairing offset events st cached seq))"
proof -
  note eq = cached_is_rebuild [OF f ok]
  show "snd (toolPairing offset events st cached seq) = snd (toolPairing offset events st None seq)"
    unfolding toolPairing_def eq by (cases "balanceCache events st None") simp_all
  show "pairing_cache_ok events (fst (toolPairing offset events st cached seq))"
  proof (cases "balanceCache events st None")
    case (Inl e)
    then show ?thesis using ok unfolding toolPairing_def eq by simp
  next
    case (Inr c)
    have "foldSurface (take (length events) events) = Inr (st, reps)" using f by simp
    with Inr have "pairing_cache_ok events (Some c)" unfolding pairing_cache_ok_def option.case by blast
    with Inr show ?thesis unfolding toolPairing_def eq by simp
  qed
qed

section \<open>What the answers are\<close>

definition open_calls :: "session_event list \<Rightarrow> nat list \<Rightarrow> int" where
  "open_calls events ns = sum_list (map (\<lambda>n. eventDelta (ev_data (events ! n))) ns)"

text \<open>No prefix of the surface has more results than calls.\<close>

definition calls_precede :: "session_event list \<Rightarrow> nat list \<Rightarrow> bool" where
  "calls_precede events ns \<longleftrightarrow> (\<forall>i \<le> length ns. 0 \<le> open_calls events (take i ns))"

lemma open_calls_append [simp]: "open_calls events (xs @ ys) = open_calls events xs + open_calls events ys"
  by (simp add: open_calls_def)

lemma open_calls_simps [simp]:
  "open_calls events [] = 0" "open_calls events [n] = eventDelta (ev_data (events ! n))"
  by (simp_all add: open_calls_def)

lemma calls_precede_snoc:
  "calls_precede events (ns @ [n]) \<longleftrightarrow> calls_precede events ns \<and> 0 \<le> open_calls events (ns @ [n])"
  by (auto simp: calls_precede_def le_Suc_eq)

lemma calls_precede_prefix: "calls_precede events (xs @ ys) \<Longrightarrow> calls_precede events xs"
  by (induction ys rule: rev_induct) (simp_all add: calls_precede_snoc flip: append_assoc del: open_calls_append)

lemma balance_fold_spec:
  assumes "\<forall>n \<in> set ns. n < length events \<and> ev_seq (events ! n) = n"
  shows "fold_res (balance_step events) (0, []) ns = Inr (m, cuts) \<longleftrightarrow>
     calls_precede events ns \<and> m = open_calls events ns
     \<and> cuts = map (\<lambda>i. open_calls events (take (Suc i) ns) = 0) [0..<length ns]"
  using assms
proof (induction ns arbitrary: m cuts rule: rev_induct)
  case Nil
  then show ?case by (auto simp: calls_precede_def)
next
  case (snoc n ns)
  have ev: "eventForSeq events n = Inr (events ! n)" using snoc.prems by (simp add: eventForSeq_def elem_at_def)
  have cuts: "map (\<lambda>i. open_calls events (take (Suc i) (ns @ [n])) = 0) [0..<length (ns @ [n])]
      = map (\<lambda>i. open_calls events (take (Suc i) ns) = 0) [0..<length ns] @ [open_calls events (ns @ [n]) = 0]"
    by simp
  have IH: "fold_res (balance_step events) (0, []) ns = Inr (m', cuts') \<longleftrightarrow>
     calls_precede events ns \<and> m' = open_calls events ns
     \<and> cuts' = map (\<lambda>i. open_calls events (take (Suc i) ns) = 0) [0..<length ns]" for m' cuts'
    using snoc by simp
  show ?case
    unfolding fold_res_snoc bind_res_Inr_iff cuts calls_precede_snoc split_paired_Ex IH
    by (auto simp: balance_step_def ev Let_def)
qed

lemma index_lookup:
  "distinct ns \<Longrightarrow> foldl (\<lambda>m (i, s). m(s \<mapsto> i)) m (enumerate k ns) seq =
     (case index_of seq ns of Some i \<Rightarrow> Some (k + i) | None \<Rightarrow> m seq)"
proof (induction ns arbitrary: k m)
  case Nil
  then show ?case by (simp add: index_of_def)
next
  case (Cons n ns)
  have idx: "index_of seq (n # ns) = (if n = seq then Some 0 else map_option Suc (index_of seq ns))"
    by (simp add: index_of_def)
  show ?case
  proof (cases "n = seq")
    case True
    with Cons.prems have "index_of seq ns = None" by simp
    with True Cons.IH [of "m(n \<mapsto> k)" "Suc k"] Cons.prems idx show ?thesis by simp
  next
    case False
    with Cons.IH [of "m(n \<mapsto> k)" "Suc k"] Cons.prems idx show ?thesis
      unfolding idx by (cases "index_of seq ns") (simp_all del: index_of_None)
  qed
qed

lemma surface_seqs_are_positions:
  assumes "foldSurface events = Inr (st, reps)" and "n \<in> set (sf_nodes st)"
  shows "n < length events \<and> ev_seq (events ! n) = n"
  using foldSurface_inv [OF assms(1)] foldSurface_nodes_bound [OF assms] by simp

text \<open>The cut at a position of the surface, whatever the cache held.\<close>

lemma toolPairing_answer:
  assumes f: "foldSurface events = Inr (st, reps)" and ok: "pairing_cache_ok events cached"
    and i: "i < length (sf_nodes st)" and offset: "offset \<le> 1"
  shows "snd (toolPairing offset events st cached (sf_nodes st ! i)) = Inr b \<longleftrightarrow>
     calls_precede events (sf_nodes st) \<and> b = (open_calls events (take (i + offset) (sf_nodes st)) = 0)"
proof -
  let ?ns = "sf_nodes st"
  have seqs: "\<forall>n \<in> set ?ns. n < length events \<and> ev_seq (events ! n) = n"
    using surface_seqs_are_positions [OF f] by blast
  have d: "distinct ?ns" using surface_inv_nodes(1) [OF foldSurface_inv [OF f]] .
  have idx: "foldl (\<lambda>m (i, s). m(s \<mapsto> i)) Map.empty (enumerate 0 ?ns) (?ns ! i) = Some i"
    using index_lookup [OF d, of Map.empty 0 "?ns ! i"] index_of_nth [OF d i] by simp
  show ?thesis
  proof (cases "balanceCache events st None")
    case (Inl e)
    have "\<not> calls_precede events ?ns"
    proof
      assume "calls_precede events ?ns"
      then have "\<exists>r. fold_res (balance_step events) (0, []) ?ns = Inr r"
        using balance_fold_spec [OF seqs] by blast
      with Inl show False by (auto simp: rebuild_eq)
    qed
    with Inl show ?thesis using toolPairing_ok(1) [OF f ok] by (simp add: toolPairing_def)
  next
    case (Inr c)
    then obtain n cuts where fold: "fold_res (balance_step events) (0, []) ?ns = Inr (n, cuts)"
      and c: "c = \<lparr>bc_generation = sf_replaceGeneration st, bc_cutBalanced = True # cuts,
          bc_indexBySeq = foldl (\<lambda>m (i, s). m(s \<mapsto> i)) Map.empty (enumerate 0 ?ns), bc_inProgressToolCalls = n\<rparr>"
      by (auto elim: rebuildE)
    from fold balance_fold_spec [OF seqs] have cp: "calls_precede events ?ns"
      and cuts: "cuts = map (\<lambda>i. open_calls events (take (Suc i) ?ns) = 0) [0..<length ?ns]" by auto
    have "elem_at (True # cuts) (i + offset) = Some (open_calls events (take (i + offset) ?ns) = 0)"
      using i offset by (cases "i + offset") (auto simp: elem_at_def cuts)
    then have "snd (toolPairing offset events st cached (?ns ! i)) = Inr (open_calls events (take (i + offset) ?ns) = 0)"
      using toolPairing_ok(1) [OF f ok] Inr idx c by (simp add: toolPairing_def cutBalance_def)
    with cp show ?thesis by auto
  qed
qed

end
