(* ===== verification/Block_Assembler.thy ===== *)
theory Block_Assembler
  imports Session_Types Js_String
begin

text \<open>
  The assembler of streamed chunks (packages/llm/llm/src/assembler.ts), which turns the chunks of a
  model response into content blocks. The second half shows that a block depends on the chunks of
  its own index only, in their order, so the interleaving of the indices does not matter.
\<close>

section \<open>State and operations\<close>

record partial_block =
  pb_blockType :: string
  pb_text :: string
  pb_toolCallId :: "string option"
  pb_toolCallName :: "string option"
  pb_toolCallArguments :: string
  pb_block :: "content_block option"

record block_assembler =
  ba_partials :: "nat \<rightharpoonup> partial_block"
  ba_order :: "nat list"
  ba_usage :: "token_usage option"
  ba_finish :: "finish_reason option"
  ba_replayState :: "replay_envelope option"

datatype assembler_error =
    IncompleteBlock string
  | NoPartial nat

definition newAssembler :: block_assembler where
  "newAssembler =
     \<lparr>ba_partials = Map.empty, ba_order = [], ba_usage = None, ba_finish = None, ba_replayState = None\<rparr>"

definition fresh_partial :: "string \<Rightarrow> partial_block" where
  "fresh_partial blockType =
     \<lparr>pb_blockType = blockType, pb_text = [], pb_toolCallId = None, pb_toolCallName = None,
      pb_toolCallArguments = [], pb_block = None\<rparr>"

text \<open>\<open>ensure\<close> returns the partial of the index; the state has it when it was missing.\<close>

definition ensure :: "block_assembler \<Rightarrow> nat \<Rightarrow> string \<Rightarrow> block_assembler \<times> partial_block" where
  "ensure a index blockType =
     (case ba_partials a index of
        Some p \<Rightarrow> (a, p)
      | None \<Rightarrow>
          let p = fresh_partial blockType in
          (a\<lparr>ba_partials := (ba_partials a)(index \<mapsto> p), ba_order := ba_order a @ [index]\<rparr>, p))"

text \<open>The write through the reference \<open>ensure\<close> returned.\<close>

definition set_partial :: "block_assembler \<Rightarrow> nat \<Rightarrow> partial_block \<Rightarrow> block_assembler" where
  "set_partial a index p = a\<lparr>ba_partials := (ba_partials a)(index \<mapsto> p)\<rparr>"

fun assembler_push :: "block_assembler \<Rightarrow> stream_chunk \<Rightarrow> block_assembler" where
  "assembler_push a (BlockStart index blockType) =
     (if ba_partials a index = None
      then a\<lparr>ba_order := ba_order a @ [index],
             ba_partials := (ba_partials a)(index \<mapsto> fresh_partial blockType)\<rparr>
      else a)"
| "assembler_push a (TextDelta index t) =
     (let (a', p) = ensure a index ''text'' in
      if pb_block p \<noteq> None then a' else set_partial a' index (p\<lparr>pb_text := pb_text p @ t\<rparr>))"
| "assembler_push a (ReasoningDelta index t) =
     (let (a', p) = ensure a index ''reasoning'' in
      if pb_block p \<noteq> None then a' else set_partial a' index (p\<lparr>pb_text := pb_text p @ t\<rparr>))"
| "assembler_push a (ToolCallDelta index callId name argumentsDelta) =
     (let (a', p) = ensure a index ''tool-call'' in
      if pb_block p \<noteq> None then a'
      else set_partial a' index
        (p\<lparr>pb_toolCallId := Some callId,
           pb_toolCallName := (case name of Some n \<Rightarrow> if n \<noteq> [] then Some n else pb_toolCallName p
                                | None \<Rightarrow> pb_toolCallName p),
           pb_toolCallArguments := pb_toolCallArguments p @ argumentsDelta\<rparr>))"
| "assembler_push a (BlockEnd index block) =
     (let (a', p) = ensure a index (block_type block) in
      if pb_block p \<noteq> None then a' else set_partial a' index (p\<lparr>pb_block := Some block\<rparr>))"
| "assembler_push a (UsageChunk usage) = a\<lparr>ba_usage := Some usage\<rparr>"
| "assembler_push a (FinishChunk reason replayState) =
     a\<lparr>ba_finish := Some reason, ba_replayState := replayState\<rparr>"

text \<open>\<open>for (const chunk of chunks) assembler.push(chunk)\<close>.\<close>

definition assembler_push_all :: "stream_chunk list \<Rightarrow> block_assembler" where
  "assembler_push_all chunks = foldl assembler_push newAssembler chunks"

definition assemble :: "partial_block \<Rightarrow> nat \<Rightarrow> assembler_error + content_block" where
  "assemble p index =
     (case pb_block p of
        Some b \<Rightarrow> Inr b
      | None \<Rightarrow>
          if pb_blockType p = ''text'' then Inr (TextBlock (pb_text p))
          else if pb_blockType p = ''reasoning'' then Inr (ReasoningBlock (pb_text p))
          else if pb_blockType p = ''tool-call'' then
            Inr (ToolCallBlock
                  (case pb_toolCallId p of Some i \<Rightarrow> i | None \<Rightarrow> ''call-'' @ nat_string index)
                  (case pb_toolCallName p of Some n \<Rightarrow> n | None \<Rightarrow> [])
                  (pb_toolCallArguments p))
          else Inl (IncompleteBlock (pb_blockType p)))"

definition mustGet :: "block_assembler \<Rightarrow> nat \<Rightarrow> assembler_error + partial_block" where
  "mustGet a index = (case ba_partials a index of Some p \<Rightarrow> Inr p | None \<Rightarrow> Inl (NoPartial index))"

definition assembler_finish :: "block_assembler \<Rightarrow> finish_reason" where
  "assembler_finish a = (case ba_finish a of Some f \<Rightarrow> f | None \<Rightarrow> FinishStop)"

text \<open>A map over a list whose function may throw.\<close>

fun map_res :: "('a \<Rightarrow> 'e + 'b) \<Rightarrow> 'a list \<Rightarrow> 'e + 'b list" where
  "map_res f [] = Inr []"
| "map_res f (x # xs) = bind_res (f x) (\<lambda>y. bind_res (map_res f xs) (\<lambda>ys. Inr (y # ys)))"

text \<open>\<open>xs.filter((_, position) => kept[position])\<close>.\<close>

definition filter_kept :: "bool list \<Rightarrow> 'a list \<Rightarrow> 'a list" where
  "filter_kept kept xs = map fst (filter snd (zip xs kept))"

definition assembled :: "block_assembler \<Rightarrow> assembler_error + content_block list \<times> replay_envelope option" where
  "assembled a =
     bind_res (map_res (\<lambda>index. bind_res (mustGet a index) (\<lambda>p. assemble p index)) (ba_order a)) (\<lambda>all.
     let kept = (if assembler_finish a = FinishMaxTokens
                 then Some (map (\<lambda>b. block_type b \<noteq> ''tool-call'') all) else None);
         blocks = (case kept of None \<Rightarrow> all | Some ks \<Rightarrow> filter_kept ks all)
     in case ba_replayState a of
          None \<Rightarrow> Inr (blocks, None)
        | Some envelope \<Rightarrow>
            (case re_blocks envelope of
               None \<Rightarrow> Inr (blocks, Some envelope)
             | Some entries \<Rightarrow>
                 if length entries \<noteq> length all then Inr (blocks, None)
                 else Inr (blocks,
                   Some (case kept of
                      None \<Rightarrow> envelope
                    | Some ks \<Rightarrow>
                        if length blocks = length all then envelope
                        else \<lparr>re_response = re_response envelope,
                              re_blocks = Some (filter_kept ks entries)\<rparr>))))"

definition assembler_blocks :: "block_assembler \<Rightarrow> assembler_error + content_block list" where
  "assembler_blocks a = bind_res (assembled a) (\<lambda>(blocks, _). Inr blocks)"

definition assembler_replayState :: "block_assembler \<Rightarrow> assembler_error + replay_envelope option" where
  "assembler_replayState a = bind_res (assembled a) (\<lambda>(_, replay). Inr replay)"

text \<open>The text of a text or reasoning block.\<close>

fun prose :: "content_block \<Rightarrow> string option" where
  "prose (TextBlock t) = Some t"
| "prose (ReasoningBlock t) = Some t"
| "prose _ = None"

definition interrupted_block :: "block_assembler \<Rightarrow> nat \<Rightarrow> assembler_error + content_block option" where
  "interrupted_block a index =
     bind_res (mustGet a index) (\<lambda>p.
     let t = (case pb_block p of Some b \<Rightarrow> block_type b | None \<Rightarrow> pb_blockType p) in
     if t \<noteq> ''text'' \<and> t \<noteq> ''reasoning'' then Inr None
     else bind_res (assemble p index) (\<lambda>b. Inr (Some b)))"

definition interruptedBlocks :: "block_assembler \<Rightarrow> assembler_error + content_block list" where
  "interruptedBlocks a =
     bind_res (map_res (interrupted_block a) (ba_order a)) (\<lambda>bs.
       Inr (filter (\<lambda>b. case prose b of Some t \<Rightarrow> js_trim t \<noteq> [] | None \<Rightarrow> False) (List.map_filter id bs)))"

section \<open>A block is made of the chunks of its index\<close>

fun chunk_index :: "stream_chunk \<Rightarrow> nat option" where
  "chunk_index (BlockStart i _) = Some i"
| "chunk_index (TextDelta i _) = Some i"
| "chunk_index (ReasoningDelta i _) = Some i"
| "chunk_index (ToolCallDelta i _ _ _) = Some i"
| "chunk_index (BlockEnd i _) = Some i"
| "chunk_index (UsageChunk _) = None"
| "chunk_index (FinishChunk _ _) = None"

text \<open>The chunks of one index, and the indices in the order of their first chunk.\<close>

definition chunks_of :: "nat \<Rightarrow> stream_chunk list \<Rightarrow> stream_chunk list" where
  "chunks_of i cs = filter (\<lambda>c. chunk_index c = Some i) cs"

definition first_seen :: "stream_chunk list \<Rightarrow> nat list" where
  "first_seen cs = rev (remdups (rev (List.map_filter chunk_index cs)))"

text \<open>The block the chunks of one index stand for, assembled alone.\<close>

definition block_alone :: "nat \<Rightarrow> stream_chunk list \<Rightarrow> assembler_error + content_block" where
  "block_alone i cs = bind_res (mustGet (assembler_push_all cs) i) (\<lambda>p. assemble p i)"

lemma assembler_push_all_snoc: "assembler_push_all (cs @ [c]) = assembler_push (assembler_push_all cs) c"
  by (simp add: assembler_push_all_def)

lemma push_other:
  "chunk_index c \<noteq> Some i \<Longrightarrow> ba_partials (assembler_push a c) i = ba_partials a i"
  by (cases c) (auto simp: ensure_def set_partial_def Let_def split: option.splits)

lemma push_same:
  "chunk_index c = Some i \<Longrightarrow> ba_partials a i = ba_partials b i \<Longrightarrow>
   ba_partials (assembler_push a c) i = ba_partials (assembler_push b c) i"
  by (cases c) (auto simp: ensure_def set_partial_def Let_def split: option.splits)

lemma push_defined:
  "chunk_index c = Some i \<Longrightarrow> \<exists>p. ba_partials (assembler_push a c) i = Some p"
  by (cases c) (auto simp: ensure_def set_partial_def Let_def split: option.splits)

lemma push_order:
  "ba_order (assembler_push a c) =
     (case chunk_index c of None \<Rightarrow> ba_order a
      | Some i \<Rightarrow> if ba_partials a i = None then ba_order a @ [i] else ba_order a)"
  by (cases c) (auto simp: ensure_def set_partial_def Let_def split: option.splits)

lemma partial_alone: "ba_partials (assembler_push_all cs) i = ba_partials (assembler_push_all (chunks_of i cs)) i"
proof (induction cs rule: rev_induct)
  case Nil
  then show ?case by (simp add: chunks_of_def)
next
  case (snoc c cs)
  show ?case
  proof (cases "chunk_index c = Some i")
    case True
    then have "chunks_of i (cs @ [c]) = chunks_of i cs @ [c]" by (simp add: chunks_of_def)
    with push_same [OF True snoc.IH] show ?thesis by (simp only: assembler_push_all_snoc)
  next
    case False
    then have "chunks_of i (cs @ [c]) = chunks_of i cs" by (simp add: chunks_of_def)
    with push_other [OF False] snoc.IH show ?thesis by (simp only: assembler_push_all_snoc)
  qed
qed

lemma map_filter_snoc:
  "List.map_filter f (xs @ [x]) = List.map_filter f xs @ (case f x of None \<Rightarrow> [] | Some y \<Rightarrow> [y])"
  by (auto simp: map_filter_def split: option.splits)

lemma partial_seen: "ba_partials (assembler_push_all cs) i = None \<longleftrightarrow> i \<notin> set (List.map_filter chunk_index cs)"
proof (induction cs rule: rev_induct)
  case Nil
  then show ?case by (simp add: assembler_push_all_def newAssembler_def map_filter_def)
next
  case (snoc c cs)
  show ?case
  proof (cases "chunk_index c = Some i")
    case True
    with push_defined [OF True, of "assembler_push_all cs"] show ?thesis by (auto simp: assembler_push_all_snoc map_filter_snoc)
  next
    case False
    with push_other [OF False] snoc.IH show ?thesis
      by (auto simp: assembler_push_all_snoc map_filter_snoc split: option.splits)
  qed
qed

lemma order_first_seen: "ba_order (assembler_push_all cs) = first_seen cs"
proof (induction cs rule: rev_induct)
  case Nil
  then show ?case by (simp add: assembler_push_all_def newAssembler_def first_seen_def map_filter_def)
next
  case (snoc c cs)
  then show ?case
    by (auto simp: assembler_push_all_snoc push_order partial_seen first_seen_def map_filter_snoc split: option.splits)
qed

lemma block_from_own_chunks:
  "bind_res (mustGet (assembler_push_all cs) i) (\<lambda>p. assemble p i) = block_alone i (chunks_of i cs)"
  by (simp add: block_alone_def mustGet_def partial_alone [of cs])

section \<open>Kept blocks and their replay entries\<close>

lemma filter_kept_map: "filter_kept (map P xs) xs = filter P xs"
  by (induction xs) (auto simp: filter_kept_def)

lemma length_filter_kept:
  assumes "length ys = length xs"
  shows "length (filter_kept ks xs) = length (filter_kept ks ys)"
  using assms [symmetric]
proof (induction xs ys arbitrary: ks rule: list_induct2)
  case Nil
  then show ?case by (simp add: filter_kept_def)
next
  case (Cons x xs y ys)
  then show ?case by (cases ks) (auto simp: filter_kept_def)
qed

lemma map_res_length: "map_res f xs = Inr ys \<Longrightarrow> length ys = length xs"
  by (induction xs arbitrary: ys) (auto simp: bind_res_Inr_iff)

lemma map_res_cong: "(\<And>x. x \<in> set xs \<Longrightarrow> f x = g x) \<Longrightarrow> map_res f xs = map_res g xs"
  by (induction xs) auto

lemma assembled_blocks:
  assumes "assembled (assembler_push_all cs) = Inr (bs, replay)"
  shows "\<exists>all. map_res (\<lambda>i. block_alone i (chunks_of i cs)) (first_seen cs) = Inr all
     \<and> bs = (if assembler_finish (assembler_push_all cs) = FinishMaxTokens
             then filter (\<lambda>b. block_type b \<noteq> ''tool-call'') all else all)
     \<and> (case replay of None \<Rightarrow> True
        | Some env \<Rightarrow> (case re_blocks env of None \<Rightarrow> True | Some es \<Rightarrow> length es = length bs))"
proof -
  from assms obtain all where all: "map_res (\<lambda>i. block_alone i (chunks_of i cs)) (first_seen cs) = Inr all"
    unfolding assembled_def block_from_own_chunks order_first_seen by (auto simp: bind_res_Inr_iff)
  show ?thesis
  proof (cases "assembler_finish (assembler_push_all cs) = FinishMaxTokens")
    case True
    have len: "length (filter_kept (map P all) es) = length (filter P all)"
      if "length es = length all" for P and es :: "json list"
      using length_filter_kept [of all es "map P all"] that by (simp add: filter_kept_map)
    from assms all True show ?thesis
      unfolding assembled_def block_from_own_chunks order_first_seen
      by (auto simp: Let_def filter_kept_map len split: option.splits if_splits)
  next
    case False
    with assms all show ?thesis
      unfolding assembled_def block_from_own_chunks order_first_seen
      by (auto simp: Let_def split: option.splits if_splits)
  qed
qed

end
