(* ===== verification/Token_Meter.thy ===== *)
theory Token_Meter
  imports Session_Log Block_Assembler
begin

text \<open>
  Token pricing of a session (packages/llm/token-meter/src): the heuristic estimator (estimate.ts), the
  priced surface (surface-fold.ts), the running total that follows it in constant space
  (surface-projection.ts), the three projections built on it (usage-projection.ts,
  breakdown-projection.ts) and the measuring service (index.ts).

  The printer of non-integral numbers, which \<open>JSON.stringify\<close> uses for blocks of unknown type and tool
  schemas, is the parameter \<open>decimal\<close>. Metering_Laws has the lemmas.
\<close>

section \<open>The estimator\<close>

definition CHARS_PER_TOKEN :: nat where "CHARS_PER_TOKEN = 4"

definition BLOCK_OVERHEAD :: nat where "BLOCK_OVERHEAD = 4"

definition ROLE_OVERHEAD :: nat where "ROLE_OVERHEAD = 4"

text \<open>\<open>Math.ceil(length / CHARS_PER_TOKEN)\<close>.\<close>

definition text_tokens :: "string \<Rightarrow> nat" where
  "text_tokens t = (length t + CHARS_PER_TOKEN - 1) div CHARS_PER_TOKEN"

text \<open>What one block adds; the loop of \<open>estimateContent\<close> is the sum.\<close>

fun block_tokens :: "(jsnum \<Rightarrow> string) \<Rightarrow> content_block \<Rightarrow> nat" where
  "block_tokens decimal (TextBlock t) = text_tokens t + BLOCK_OVERHEAD"
| "block_tokens decimal (ReasoningBlock t) = text_tokens t + BLOCK_OVERHEAD"
| "block_tokens decimal (ToolCallBlock _ name arguments) =
     text_tokens name + text_tokens arguments + BLOCK_OVERHEAD"
| "block_tokens decimal (ToolResultBlock _ content _) =
     sum_list (map (block_tokens decimal) content) + BLOCK_OVERHEAD"
| "block_tokens decimal b = BLOCK_OVERHEAD + text_tokens (json_text decimal (block_json b))"

definition estimateContent :: "(jsnum \<Rightarrow> string) \<Rightarrow> content_block list \<Rightarrow> nat" where
  "estimateContent decimal blocks = sum_list (map (block_tokens decimal) blocks)"

definition estimateMessage :: "(jsnum \<Rightarrow> string) \<Rightarrow> message \<Rightarrow> nat" where
  "estimateMessage decimal m = estimateContent decimal (m_content m) + ROLE_OVERHEAD"

definition estimateSystemTokens :: "epoch_header option \<Rightarrow> nat" where
  "estimateSystemTokens header =
     (case header of None \<Rightarrow> 0
      | Some h \<Rightarrow> (case eh_system h of None \<Rightarrow> 0 | Some t \<Rightarrow> text_tokens t + ROLE_OVERHEAD))"

definition tool_schema_json :: "tool_schema \<Rightarrow> json" where
  "tool_schema_json t =
     JObj [(''name'', JStr (ts_name t)), (''description'', JStr (ts_description t)), (''parameters'', ts_parameters t)]"

definition estimateToolsTokens :: "(jsnum \<Rightarrow> string) \<Rightarrow> epoch_header option \<Rightarrow> nat" where
  "estimateToolsTokens decimal header =
     (case header of None \<Rightarrow> 0
      | Some h \<Rightarrow> (case eh_tools h of None \<Rightarrow> 0
          | Some ts \<Rightarrow> if length ts = 0 then 0
                       else text_tokens (json_text decimal (JArr (map tool_schema_json ts))) + BLOCK_OVERHEAD))"

definition estimateHeader :: "(jsnum \<Rightarrow> string) \<Rightarrow> epoch_header option \<Rightarrow> nat" where
  "estimateHeader decimal header = estimateSystemTokens header + estimateToolsTokens decimal header"

section \<open>The priced surface\<close>

record token_node =
  tn_seq :: nat
  tn_tokens :: nat

record surface_token_fold =
  tf_tokens :: nat
  tf_nodes :: "token_node list"
  tf_deltaTokens :: int

datatype meter_error =
    RangeNotPriced nat
  | ClaimMismatch nat
  | MeterStepOpen nat nat nat  \<comment> \<open>seq, the open turn and step\<close>
  | MeterNoStepToEnd nat
  | MeterNoStep nat
  | MeterNotOnSurface nat
  | MeterSourceNotEarlier nat nat
  | MeterSourceRepeated nat nat
  | MeterSourceMissing nat nat
  | MeterSourceNotChunk nat nat
  | MeterSourceOtherStep nat nat
  | MeterAssembly assembler_error

definition event_price :: "(jsnum \<Rightarrow> string) \<Rightarrow> session_event \<Rightarrow> nat" where
  "event_price decimal ev =
     (case deriveEventMessage (ev_data ev) of None \<Rightarrow> 0 | Some m \<Rightarrow> estimateMessage decimal m)"

text \<open>\<open>node.seq === op.start\<close> and \<open>node.seq === op.end\<close>.\<close>

definition op_names :: "json \<Rightarrow> string \<Rightarrow> nat \<Rightarrow> bool" where
  "op_names op key n = (jget key op = Some (JNum (JInt (int n))))"

definition foldSurfaceTokens ::
    "(jsnum \<Rightarrow> string) \<Rightarrow> token_node list \<Rightarrow> session_event \<Rightarrow> meter_error + surface_token_fold" where
  "foldSurfaceTokens decimal nodes ev =
     (let tokens = event_price decimal ev;
          node = \<lparr>tn_seq = ev_seq ev, tn_tokens = tokens\<rparr>;
          op = (case ev_surfaceOp ev of Some j \<Rightarrow> j | None \<Rightarrow> JNull)
      in if op = JStr ''append''
         then Inr \<lparr>tf_tokens = tokens, tf_nodes = nodes @ [node], tf_deltaTokens = int tokens\<rparr>
         else case (find_index (\<lambda>n. op_names op ''start'' (tn_seq n)) nodes,
                    find_index (\<lambda>n. op_names op ''end'' (tn_seq n)) nodes) of
           (Some startIdx, Some endIdx) \<Rightarrow>
             if startIdx > endIdx then Inl (RangeNotPriced (ev_seq ev))
             else Inr \<lparr>tf_tokens = tokens,
                       tf_nodes = splice nodes startIdx (endIdx - startIdx + 1) [node],
                       tf_deltaTokens = int tokens
                         - int (sum_list (map tn_tokens (spliced_out nodes startIdx (endIdx - startIdx + 1))))\<rparr>
         | _ \<Rightarrow> Inl (RangeNotPriced (ev_seq ev)))"

section \<open>The running total\<close>

record shadow_claim =
  sc_start :: nat
  sc_end :: nat
  sc_tokens :: nat

text \<open>The claim an event arms.\<close>

fun armed_claim :: "event_data \<Rightarrow> shadow_claim option" where
  "armed_claim (CompactionSummary d) =
     Some \<lparr>sc_start = cs_rangeStart d, sc_end = cs_rangeEnd d, sc_tokens = cs_shadowedTokenCount d\<rparr>"
| "armed_claim (CompactionPrune start end _ tokens) =
     Some \<lparr>sc_start = start, sc_end = end, sc_tokens = tokens\<rparr>"
| "armed_claim _ = None"

text \<open>\<open>deltaTokens\<close> and \<open>claim\<close>.\<close>

definition foldSurfaceProjection ::
    "(jsnum \<Rightarrow> string) \<Rightarrow> shadow_claim option \<Rightarrow> session_event \<Rightarrow> meter_error + int \<times> shadow_claim option" where
  "foldSurfaceProjection decimal claim ev =
     (case armed_claim (ev_data ev) of
        Some c \<Rightarrow> Inr (0, Some c)
      | None \<Rightarrow>
          if \<not> isSurfaceEvent ev then Inr (0, None)
          else let tokens = event_price decimal ev;
                   op = (case ev_surfaceOp ev of Some j \<Rightarrow> j | None \<Rightarrow> JNull)
               in if op = JStr ''append'' then Inr (int tokens, None)
                  else case claim of
                    None \<Rightarrow> Inr (0, None)
                  | Some c \<Rightarrow>
                      if \<not> op_names op ''start'' (sc_start c) \<or> \<not> op_names op ''end'' (sc_end c)
                      then Inl (ClaimMismatch (ev_seq ev))
                      else Inr (int tokens - int (sc_tokens c), None))"

section \<open>The projections\<close>

record usage_buckets =
  ub_uncachedInputTokens :: int
  ub_outputTokens :: int
  ub_cacheReadTokens :: int
  ub_cacheWriteTokens :: int

definition zeroBuckets :: usage_buckets where
  "zeroBuckets = \<lparr>ub_uncachedInputTokens = 0, ub_outputTokens = 0, ub_cacheReadTokens = 0, ub_cacheWriteTokens = 0\<rparr>"

definition count_or_0 :: "nat option \<Rightarrow> nat" where
  "count_or_0 n = (case n of None \<Rightarrow> 0 | Some k \<Rightarrow> k)"

definition bucketsFrom :: "token_usage \<Rightarrow> usage_buckets" where
  "bucketsFrom u =
     \<lparr>ub_uncachedInputTokens = int (tu_inputTokens u), ub_outputTokens = int (tu_outputTokens u),
      ub_cacheReadTokens = int (count_or_0 (tu_cacheReadTokens u)),
      ub_cacheWriteTokens = int (count_or_0 (tu_cacheWriteTokens u))\<rparr>"

definition bucketsEqual :: "usage_buckets \<Rightarrow> usage_buckets \<Rightarrow> bool" where
  "bucketsEqual l r \<longleftrightarrow>
     ub_uncachedInputTokens l = ub_uncachedInputTokens r \<and> ub_outputTokens l = ub_outputTokens r
     \<and> ub_cacheReadTokens l = ub_cacheReadTokens r \<and> ub_cacheWriteTokens l = ub_cacheWriteTokens r"

definition addReplacing :: "usage_buckets \<Rightarrow> usage_buckets option \<Rightarrow> usage_buckets \<Rightarrow> usage_buckets" where
  "addReplacing totals previous nxt =
     (let p = (case previous of None \<Rightarrow> zeroBuckets | Some b \<Rightarrow> b) in
      \<lparr>ub_uncachedInputTokens = ub_uncachedInputTokens totals - ub_uncachedInputTokens p + ub_uncachedInputTokens nxt,
       ub_outputTokens = ub_outputTokens totals - ub_outputTokens p + ub_outputTokens nxt,
       ub_cacheReadTokens = ub_cacheReadTokens totals - ub_cacheReadTokens p + ub_cacheReadTokens nxt,
       ub_cacheWriteTokens = ub_cacheWriteTokens totals - ub_cacheWriteTokens p + ub_cacheWriteTokens nxt\<rparr>)"

record token_usage_state =
  us_totals :: usage_buckets
  us_last :: "(nat \<times> nat \<times> usage_buckets) option"  \<comment> \<open>turn, step, buckets\<close>

definition usage_init :: token_usage_state where
  "usage_init = \<lparr>us_totals = zeroBuckets, us_last = None\<rparr>"

text \<open>The turn, step and usage an event reports.\<close>

fun usage_report :: "event_data \<Rightarrow> (nat \<times> nat \<times> token_usage) option" where
  "usage_report (AssistantChunk turn step (UsageChunk u)) = Some (turn, step, u)"
| "usage_report (AssistantMessage turn step _ (Some u) _) = Some (turn, step, u)"
| "usage_report _ = None"

definition usage_apply :: "token_usage_state \<Rightarrow> session_event \<Rightarrow> token_usage_state" where
  "usage_apply state ev =
     (case usage_report (ev_data ev) of
        None \<Rightarrow> state
      | Some (turn, step, usage) \<Rightarrow>
          let buckets = bucketsFrom usage;
              previous = (case us_last state of
                            Some (t, s, b) \<Rightarrow> if t = turn \<and> s = step then Some b else None
                          | None \<Rightarrow> None)
          in if (case previous of Some b \<Rightarrow> bucketsEqual b buckets | None \<Rightarrow> False) then state
             else \<lparr>us_totals = addReplacing (us_totals state) previous buckets,
                   us_last = Some (turn, step, buckets)\<rparr>)"

text \<open>Context occupancy.\<close>

record pressure_state =
  ps_contextWindow :: "nat option"
  ps_pressureTokens :: "nat option"
  ps_surfaceTokens :: int
  ps_sampledSurfaceTokens :: "int option"
  ps_claim :: "shadow_claim option"

definition pressure_init :: pressure_state where
  "pressure_init =
     \<lparr>ps_contextWindow = None, ps_pressureTokens = None, ps_surfaceTokens = 0, ps_sampledSurfaceTokens = None,
      ps_claim = None\<rparr>"

definition pressureFrom :: "token_usage \<Rightarrow> nat" where
  "pressureFrom u = tu_inputTokens u + count_or_0 (tu_cacheReadTokens u) + count_or_0 (tu_cacheWriteTokens u)"

definition pressure_apply ::
    "(jsnum \<Rightarrow> string) \<Rightarrow> pressure_state \<Rightarrow> session_event \<Rightarrow> meter_error + pressure_state" where
  "pressure_apply decimal state ev =
     bind_res (foldSurfaceProjection decimal (ps_claim state) ev) (\<lambda>(delta, claim).
     let n1 = (case ev_data ev of RequestContext c \<Rightarrow> state\<lparr>ps_contextWindow := rc_contextWindow c\<rparr> | _ \<Rightarrow> state);
         n2 = (case usage_report (ev_data ev) of
                 Some (_, _, usage) \<Rightarrow>
                   if Some (pressureFrom usage) \<noteq> ps_pressureTokens n1
                      \<or> ps_sampledSurfaceTokens n1 \<noteq> Some (ps_surfaceTokens n1)
                   then n1\<lparr>ps_pressureTokens := Some (pressureFrom usage),
                           ps_sampledSurfaceTokens := Some (ps_surfaceTokens n1)\<rparr>
                   else n1
               | None \<Rightarrow> n1);
         n3 = (if delta \<noteq> 0 then n2\<lparr>ps_surfaceTokens := ps_surfaceTokens n2 + delta\<rparr> else n2)
     in Inr (n3\<lparr>ps_claim := claim\<rparr>))"

text \<open>The published \<open>projectedTokens\<close>.\<close>

definition projectedTokens :: "pressure_state \<Rightarrow> int option" where
  "projectedTokens s =
     (case (ps_pressureTokens s, ps_sampledSurfaceTokens s) of
        (Some p, Some sampled) \<Rightarrow> Some (max 0 (int p + ps_surfaceTokens s - sampled))
      | _ \<Rightarrow> None)"

text \<open>Context composition.\<close>

record breakdown_state =
  bs_systemTokens :: nat
  bs_toolsTokens :: nat
  bs_messageTokens :: int
  bs_claim :: "shadow_claim option"

definition breakdown_init :: breakdown_state where
  "breakdown_init = \<lparr>bs_systemTokens = 0, bs_toolsTokens = 0, bs_messageTokens = 0, bs_claim = None\<rparr>"

definition breakdown_apply ::
    "(jsnum \<Rightarrow> string) \<Rightarrow> breakdown_state \<Rightarrow> session_event \<Rightarrow> meter_error + breakdown_state" where
  "breakdown_apply decimal state ev =
     bind_res (foldSurfaceProjection decimal (bs_claim state) ev) (\<lambda>(delta, claim).
     let (systemTokens, toolsTokens) =
           (case ev_data ev of
              RequestHeader h _ \<Rightarrow>
                let header = canonicalHeader h in
                (estimateSystemTokens (Some header), estimateToolsTokens decimal (Some header))
            | _ \<Rightarrow> (bs_systemTokens state, bs_toolsTokens state))
     in if systemTokens = bs_systemTokens state \<and> toolsTokens = bs_toolsTokens state
           \<and> delta = 0 \<and> claim = None \<and> bs_claim state = None
        then Inr state
        else Inr \<lparr>bs_systemTokens = systemTokens, bs_toolsTokens = toolsTokens,
                  bs_messageTokens = bs_messageTokens state + delta, bs_claim = claim\<rparr>)"

section \<open>The measuring service\<close>

datatype measurement_baseline =
    BaselineNone
  | BaselineEstimated int
  | BaselineUsage nat token_usage

fun baseline_tokens :: "measurement_baseline \<Rightarrow> int" where
  "baseline_tokens BaselineNone = 0"
| "baseline_tokens (BaselineEstimated n) = n"
| "baseline_tokens (BaselineUsage n _) = int n"

record measurement_anchor =
  an_header :: "epoch_header option"
  an_surfaceTokens :: int
  an_baseline :: measurement_baseline

record replay_state =
  rp_consumedEvents :: nat
  rp_header :: "epoch_header option"
  rp_surface :: "token_node list"
  rp_surfaceTokens :: int
  rp_stepStart :: "(nat \<times> nat \<times> int) option"
  rp_anchor :: "measurement_anchor option"

record token_measurement =
  tm_logRevision :: nat
  tm_baseline :: measurement_baseline
  tm_surfaceDeltaTokens :: int
  tm_totalTokens :: int
  tm_surfaceTokens :: int
  tm_nodes :: "token_node list"

definition meter_init :: replay_state where
  "meter_init =
     \<lparr>rp_consumedEvents = 0, rp_header = None, rp_surface = [], rp_surfaceTokens = 0, rp_stepStart = None,
      rp_anchor = None\<rparr>"

definition usageTokens :: "token_usage \<Rightarrow> nat" where
  "usageTokens u =
     tu_inputTokens u + count_or_0 (tu_cacheReadTokens u) + count_or_0 (tu_cacheWriteTokens u) + tu_outputTokens u"

definition optionalHeaderEquals :: "epoch_header option \<Rightarrow> epoch_header option \<Rightarrow> bool" where
  "optionalHeaderEquals l r =
     (case (l, r) of (Some a, Some b) \<Rightarrow> headerEquals a b | (None, None) \<Rightarrow> True | _ \<Rightarrow> False)"

text \<open>One source of an assistant message: checked, then its chunk is pushed.\<close>

definition source_step ::
    "session_event list \<Rightarrow> session_event \<Rightarrow> nat \<Rightarrow> nat \<Rightarrow> nat list \<times> block_assembler \<Rightarrow> nat
     \<Rightarrow> meter_error + nat list \<times> block_assembler" where
  "source_step events ev turn step st seq =
     (let (seen, a) = st in
      if seq \<ge> ev_seq ev then Inl (MeterSourceNotEarlier (ev_seq ev) seq)
      else if seq \<in> set seen then Inl (MeterSourceRepeated (ev_seq ev) seq)
      else case elem_at events seq of
        None \<Rightarrow> Inl (MeterSourceMissing (ev_seq ev) seq)
      | Some source \<Rightarrow>
          (case ev_data source of
             AssistantChunk t s chunk \<Rightarrow>
               if t \<noteq> turn \<or> s \<noteq> step then Inl (MeterSourceOtherStep (ev_seq ev) seq)
               else Inr (seq # seen, assembler_push a chunk)
           | _ \<Rightarrow> Inl (MeterSourceNotChunk (ev_seq ev) seq)))"

text \<open>The sequences of \<open>sourceEventSeqs\<close>, an array of numbers when it is present.\<close>

fun source_seqs :: "json \<Rightarrow> nat list" where
  "source_seqs (JArr raw) = map seq_of raw"
| "source_seqs _ = []"

definition estimateProviderAssistant ::
    "(jsnum \<Rightarrow> string) \<Rightarrow> session_event list \<Rightarrow> session_event \<Rightarrow> nat \<Rightarrow> nat \<Rightarrow> nat \<Rightarrow> meter_error + nat" where
  "estimateProviderAssistant decimal events ev turn step durableEventTokens =
     (case ev_sourceEventSeqs ev of
        None \<Rightarrow> Inr durableEventTokens
      | Some sources \<Rightarrow>
          bind_res (fold_res (source_step events ev turn step) ([], newAssembler) (source_seqs sources)) (\<lambda>(_, a).
          bind_res (map_error MeterAssembly (assembler_blocks a)) (\<lambda>content.
            Inr (if length content = 0 then 0 else estimateContent decimal content + ROLE_OVERHEAD))))"

text \<open>The header and the open step after an event.\<close>

definition next_header :: "replay_state \<Rightarrow> session_event \<Rightarrow> epoch_header option" where
  "next_header state ev =
     (case ev_data ev of RequestHeader h _ \<Rightarrow> Some (canonicalHeader h) | _ \<Rightarrow> rp_header state)"

definition next_step_start :: "replay_state \<Rightarrow> session_event \<Rightarrow> meter_error + (nat \<times> nat \<times> int) option" where
  "next_step_start state ev =
     (case ev_data ev of
        StepStart turn step \<Rightarrow>
          (case rp_stepStart state of
             Some (t, s, _) \<Rightarrow> Inl (MeterStepOpen (ev_seq ev) t s)
           | None \<Rightarrow> Inr (Some (turn, step, rp_surfaceTokens state)))
      | StepEnd turn step \<Rightarrow>
          (case rp_stepStart state of
             Some (t, s, _) \<Rightarrow> if t \<noteq> turn \<or> s \<noteq> step then Inl (MeterNoStepToEnd (ev_seq ev)) else Inr None
           | None \<Rightarrow> Inl (MeterNoStepToEnd (ev_seq ev)))
      | _ \<Rightarrow> Inr (rp_stepStart state))"

definition next_anchor ::
    "(jsnum \<Rightarrow> string) \<Rightarrow> session_event list \<Rightarrow> replay_state \<Rightarrow> session_event \<Rightarrow> epoch_header option
     \<Rightarrow> surface_token_fold option \<Rightarrow> meter_error + measurement_anchor option" where
  "next_anchor decimal events state ev header surface =
     (case ev_data ev of
        AssistantMessage turn step _ usage _ \<Rightarrow>
          (case rp_stepStart state of
             None \<Rightarrow> Inl (MeterNoStep (ev_seq ev))
           | Some (t, s, stepSurface) \<Rightarrow>
               if t \<noteq> turn \<or> s \<noteq> step then Inl (MeterNoStep (ev_seq ev))
               else case surface of
                 None \<Rightarrow> Inl (MeterNotOnSurface (ev_seq ev))
               | Some sf \<Rightarrow>
                   (case (usage, header) of
                      (Some u, Some h) \<Rightarrow>
                        bind_res (estimateProviderAssistant decimal events ev turn step (tf_tokens sf)) (\<lambda>providerAssistant.
                        let anchorSurface = stepSurface + int providerAssistant;
                            estimated = int (estimateHeader decimal header) + anchorSurface
                        in Inr (Some
                          \<lparr>an_header = header, an_surfaceTokens = anchorSurface,
                           an_baseline = (if int (usageTokens u) \<ge> estimated
                                          then BaselineUsage (usageTokens u) u else BaselineEstimated estimated)\<rparr>))
                    | _ \<Rightarrow>
                        let anchorSurface = stepSurface + int (tf_tokens sf) in
                        Inr (Some
                          \<lparr>an_header = header, an_surfaceTokens = anchorSurface,
                           an_baseline = BaselineEstimated (int (estimateHeader decimal header) + anchorSurface)\<rparr>)))
      | _ \<Rightarrow> Inr (rp_anchor state))"

definition meter_fold_event ::
    "(jsnum \<Rightarrow> string) \<Rightarrow> session_event list \<Rightarrow> replay_state \<Rightarrow> session_event \<Rightarrow> meter_error + replay_state" where
  "meter_fold_event decimal events state ev =
     bind_res (next_step_start state ev) (\<lambda>stepStart.
     bind_res (if isSurfaceEvent ev
               then bind_res (foldSurfaceTokens decimal (rp_surface state) ev) (\<lambda>f. Inr (Some f))
               else Inr None) (\<lambda>surface.
     bind_res (next_anchor decimal events state ev (next_header state ev) surface) (\<lambda>anchor.
       Inr (state\<lparr>rp_header := next_header state ev, rp_stepStart := stepStart,
              rp_surface := (case surface of Some f \<Rightarrow> tf_nodes f | None \<Rightarrow> rp_surface state),
              rp_surfaceTokens := rp_surfaceTokens state + (case surface of Some f \<Rightarrow> tf_deltaTokens f | None \<Rightarrow> 0),
              rp_anchor := anchor\<rparr>))))"

text \<open>
  The loop of \<open>_sync\<close> over the unread events. An event that throws stays unread, so the state reached
  before it is kept and the error is returned with it.
\<close>

fun meter_loop ::
    "(jsnum \<Rightarrow> string) \<Rightarrow> session_event list \<Rightarrow> replay_state \<Rightarrow> session_event list
     \<Rightarrow> replay_state \<times> meter_error option" where
  "meter_loop decimal events state [] = (state, None)"
| "meter_loop decimal events state (ev # evs) =
     (case meter_fold_event decimal events state ev of
        Inl e \<Rightarrow> (state, Some e)
      | Inr s \<Rightarrow> meter_loop decimal events (s\<lparr>rp_consumedEvents := rp_consumedEvents s + 1\<rparr>) evs)"

definition meter_sync ::
    "(jsnum \<Rightarrow> string) \<Rightarrow> session_event list \<Rightarrow> replay_state option \<Rightarrow> replay_state \<times> meter_error option" where
  "meter_sync decimal events state =
     (let s = (case state of None \<Rightarrow> meter_init | Some s \<Rightarrow> s) in
      meter_loop decimal events s (drop (rp_consumedEvents s) events))"

definition measure_from ::
    "(jsnum \<Rightarrow> string) \<Rightarrow> replay_state \<Rightarrow> epoch_header option \<Rightarrow> token_measurement" where
  "measure_from decimal state requestHdr =
     (let header = (case requestHdr of None \<Rightarrow> rp_header state | Some h \<Rightarrow> Some (canonicalHeader h));
          (baseline, delta) =
            (case rp_anchor state of
               Some anchor \<Rightarrow>
                 if optionalHeaderEquals (an_header anchor) header
                 then (an_baseline anchor, rp_surfaceTokens state - an_surfaceTokens anchor)
                 else (BaselineEstimated (int (estimateHeader decimal header) + rp_surfaceTokens state), 0)
             | None \<Rightarrow>
                 if header = None \<and> rp_surfaceTokens state = 0 then (BaselineNone, 0)
                 else (BaselineEstimated (int (estimateHeader decimal header) + rp_surfaceTokens state), 0))
      in \<lparr>tm_logRevision = rp_consumedEvents state, tm_baseline = baseline, tm_surfaceDeltaTokens = delta,
          tm_totalTokens = max 0 (baseline_tokens baseline + delta), tm_surfaceTokens = rp_surfaceTokens state,
          tm_nodes = rp_surface state\<rparr>)"

text \<open>\<open>measure\<close>, with the state the service keeps for the session before and after.\<close>

definition meter_measure ::
    "(jsnum \<Rightarrow> string) \<Rightarrow> session_event list \<Rightarrow> replay_state option \<Rightarrow> epoch_header option
     \<Rightarrow> replay_state \<times> (meter_error + token_measurement)" where
  "meter_measure decimal events state requestHdr =
     (case meter_sync decimal events state of
        (s, Some e) \<Rightarrow> (s, Inl e)
      | (s, None) \<Rightarrow> (s, Inr (measure_from decimal s requestHdr)))"

end
