(* ===== verification/Metering_Laws.thy ===== *)
theory Metering_Laws
  imports Token_Meter Session_Trace
begin

text \<open>
  What the token meter computes. The priced surface is the surface with the price of each event; the
  running totals of the projections agree with it on a log whose every replacement directly follows the
  event that states the price of what it shadows; the replay of the service cannot fail on a log with a
  valid trace except for the sources of an assistant message.
\<close>

section \<open>The priced surface is the surface\<close>

definition priced :: "(jsnum \<Rightarrow> string) \<Rightarrow> session_event list \<Rightarrow> nat list \<Rightarrow> token_node list" where
  "priced decimal evs ns = map (\<lambda>n. \<lparr>tn_seq = n, tn_tokens = event_price decimal (evs ! n)\<rparr>) ns"

definition surface_price :: "(jsnum \<Rightarrow> string) \<Rightarrow> session_event list \<Rightarrow> nat list \<Rightarrow> nat" where
  "surface_price decimal evs ns = sum_list (map (\<lambda>n. event_price decimal (evs ! n)) ns)"

lemma find_index_map: "find_index P (map f xs) = find_index (\<lambda>x. P (f x)) xs"
  by (induction xs) auto

lemma sum_tokens_priced: "sum_list (map tn_tokens (priced decimal evs ns)) = surface_price decimal evs ns"
  by (simp add: priced_def surface_price_def comp_def)

lemma priced_seqs [simp]: "map tn_seq (priced decimal evs ns) = ns"
  by (simp add: priced_def comp_def)

lemma length_priced [simp]: "length (priced decimal evs ns) = length ns"
  by (simp add: priced_def)

lemma priced_Nil_iff [simp]: "priced decimal evs ns = [] \<longleftrightarrow> ns = []"
  by (simp add: priced_def)

lemma priced_append [simp]: "priced decimal evs (xs @ ys) = priced decimal evs xs @ priced decimal evs ys"
  by (simp add: priced_def)

lemma surface_price_append [simp]:
  "surface_price decimal evs (xs @ ys) = surface_price decimal evs xs + surface_price decimal evs ys"
  by (simp add: surface_price_def)

lemma surface_price_simps [simp]:
  "surface_price decimal evs [] = 0"
  "surface_price decimal evs [n] = event_price decimal (evs ! n)"
  by (simp_all add: surface_price_def)

lemma priced_splice: "splice (priced decimal evs ns) i k (priced decimal evs ins) = priced decimal evs (splice ns i k ins)"
  by (simp add: priced_def splice_def take_map drop_map)

lemma priced_spliced_out: "spliced_out (priced decimal evs ns) i k = priced decimal evs (spliced_out ns i k)"
  by (simp add: priced_def spliced_out_def take_map drop_map)

lemma surface_price_splice:
  assumes "i + k \<le> length ns"
  shows "surface_price decimal evs (splice ns i k ins) + surface_price decimal evs (spliced_out ns i k)
     = surface_price decimal evs ns + surface_price decimal evs ins"
proof -
  have "surface_price decimal evs ns
      = surface_price decimal evs (take i ns @ spliced_out ns i k @ drop (i + k) ns)"
    using splice_split [OF assms] by simp
  then show ?thesis unfolding splice_def surface_price_append by linarith
qed

lemma priced_log:
  "\<forall>n \<in> set ns. n < length evs \<Longrightarrow> priced decimal (evs @ xs) ns = priced decimal evs ns"
  by (simp add: priced_def nth_append)

lemma surface_price_log:
  "\<forall>n \<in> set ns. n < length evs \<Longrightarrow> surface_price decimal (evs @ xs) ns = surface_price decimal evs ns"
  by (simp add: surface_price_def nth_append cong: map_cong)

text \<open>The operation of an accepted surface event, read as the pricing code reads it.\<close>

lemma isEventSeq_number: "isEventSeq j \<Longrightarrow> j = JNum (JInt (int n)) \<longleftrightarrow> n = seq_of j"
  by (cases j rule: isEventSeq.cases) auto

lemma surfaceOpOf_replace:
  assumes "surfaceOpOf ev = Inr (Some (OpReplace s e))"
  obtains op where "ev_surfaceOp ev = Some op" "op \<noteq> JStr ''append''"
    "\<And>n. op_names op ''start'' n \<longleftrightarrow> n = s" "\<And>n. op_names op ''end'' n \<longleftrightarrow> n = e"
proof -
  from assms obtain op where op: "ev_surfaceOp ev = Some op" "op \<noteq> JStr ''append''" "isReplaceOp op"
    and s: "s = seq_of (the (jget ''start'' op))" and e: "e = seq_of (the (jget ''end'' op))"
    by (auto simp: surfaceOpOf_def Let_def split: option.splits if_splits)
  from op(3) obtain js je where j: "jget ''start'' op = Some js" "jget ''end'' op = Some je"
    and seqs: "isEventSeq js" "isEventSeq je" by (auto simp: isReplaceOp_def)
  show thesis
    using that [of op] op s e j isEventSeq_number [OF seqs(1)] isEventSeq_number [OF seqs(2)]
    by (auto simp: op_names_def)
qed

lemma replacementRange_index:
  assumes "replacementRange st s e = Inr (si, ei, sh)"
  shows "index_of s (sf_nodes st) = Some si" and "index_of e (sf_nodes st) = Some ei"
  using assms by (auto simp: replacementRange_def split: option.splits if_splits)

lemma find_priced: "find_index (\<lambda>n. tn_seq n = s) (priced decimal evs ns) = index_of s ns"
  by (simp add: priced_def index_of_def find_index_map)

lemma foldSurfaceTokens_step:
  assumes f: "foldSurface evs = Inr (st, reps)"
    and a: "applySurfaceEvent st ev (length evs) evs 0 = Inr (st', r)" and s: "isSurfaceEvent ev"
  shows "foldSurfaceTokens decimal (priced decimal evs (sf_nodes st)) ev
     = Inr \<lparr>tf_tokens = event_price decimal ev, tf_nodes = priced decimal (evs @ [ev]) (sf_nodes st'),
            tf_deltaTokens = int (surface_price decimal (evs @ [ev]) (sf_nodes st'))
              - int (surface_price decimal evs (sf_nodes st))\<rparr>"
proof -
  let ?n = "length evs"
  have bound: "\<forall>n \<in> set (sf_nodes st). n < length evs" using foldSurface_nodes_bound [OF f] by blast
  note old = priced_log [OF bound, of decimal "[ev]"] surface_price_log [OF bound, of decimal "[ev]"]
  from a obtain plan where plan: "planSurfaceEvent st ev ?n evs 0 = Inr plan"
    and st': "st' = fst (applySurfacePlan st plan)"
    by (auto simp: applySurfaceEvent_def bind_res_Inr_iff)
  have seq: "ev_seq ev = ?n" using plan_seq [OF plan] .
  have new: "priced decimal (evs @ [ev]) [?n] = [\<lparr>tn_seq = ?n, tn_tokens = event_price decimal ev\<rparr>]"
    by (simp add: priced_def)
  obtain p where p: "plan = Some p" using plan s by (cases plan) (auto dest: plan_None)
  from plan [unfolded p] show ?thesis
  proof (cases rule: plan_op)
    case append
    then have "ev_surfaceOp ev = Some (JStr ''append'')"
      using surfaceOpOf_append isAppendSurfaceEvent_def by blast
    with append st' p seq new old show ?thesis by (simp add: foldSurfaceTokens_def Let_def)
  next
    case (replace start end' si ei sh)
    obtain op where op: "ev_surfaceOp ev = Some op" "op \<noteq> JStr ''append''"
      "\<And>n. op_names op ''start'' n \<longleftrightarrow> n = start" "\<And>n. op_names op ''end'' n \<longleftrightarrow> n = end'"
      using surfaceOpOf_replace [OF replace(1)] by metis
    from replacementRange_Inr [OF replace(2)] have rng: "si \<le> ei" "ei < length (sf_nodes st)" by auto
    have st2: "sf_nodes st' = splice (sf_nodes st) si (ei - si + 1) [?n]" using st' p replace(5) by simp
    have len: "si + (ei - si + 1) \<le> length (sf_nodes st)" using rng by simp
    have idx: "find_index (\<lambda>n. op_names op ''start'' (tn_seq n)) (priced decimal evs (sf_nodes st)) = Some si"
      "find_index (\<lambda>n. op_names op ''end'' (tn_seq n)) (priced decimal evs (sf_nodes st)) = Some ei"
      using replacementRange_index [OF replace(2)] by (simp_all add: op find_priced)
    have nodes: "splice (priced decimal evs (sf_nodes st)) si (ei - si + 1) [\<lparr>tn_seq = ?n, tn_tokens = event_price decimal ev\<rparr>]
        = priced decimal (evs @ [ev]) (sf_nodes st')"
      unfolding st2 new [symmetric] old(1) [symmetric] by (rule priced_splice)
    have so: "surface_price decimal (evs @ [ev]) (spliced_out (sf_nodes st) si (ei - si + 1))
        = surface_price decimal evs (spliced_out (sf_nodes st) si (ei - si + 1))"
      using bound set_spliced_out_subset [of "sf_nodes st" si "ei - si + 1"]
      by (intro surface_price_log) blast
    have "surface_price decimal (evs @ [ev]) (sf_nodes st')
          + surface_price decimal evs (spliced_out (sf_nodes st) si (ei - si + 1))
        = surface_price decimal evs (sf_nodes st) + event_price decimal ev"
      using surface_price_splice [OF len, of decimal "evs @ [ev]" "[?n]"] st2 so old(2) by simp
    then have delta: "int (event_price decimal ev)
          - int (surface_price decimal evs (spliced_out (sf_nodes st) si (ei - si + 1)))
        = int (surface_price decimal (evs @ [ev]) (sf_nodes st')) - int (surface_price decimal evs (sf_nodes st))"
      by linarith
    show ?thesis
      unfolding foldSurfaceTokens_def Let_def op(1) option.case
      by (simp only: op(2) if_False idx prod.case option.case priced_spliced_out sum_tokens_priced
          not_less [THEN iffD2, OF rng(1)] seq nodes delta)
  qed
qed

section \<open>Running totals\<close>

text \<open>Every replacement directly follows an event that states the price of exactly what it shadows.\<close>

definition metered :: "(jsnum \<Rightarrow> string) \<Rightarrow> session_event list \<Rightarrow> surface_replacement list \<Rightarrow> bool" where
  "metered decimal evs reps \<longleftrightarrow>
     (\<forall>r \<in> set reps. 0 < sr_seq r
        \<and> armed_claim (ev_data (evs ! (sr_seq r - 1)))
          = Some \<lparr>sc_start = sr_start r, sc_end = sr_end r,
                  sc_tokens = surface_price decimal evs (sr_shadowedSeqs r)\<rparr>)"

definition pending_claim :: "session_event list \<Rightarrow> shadow_claim option" where
  "pending_claim evs = (if evs = [] then None else armed_claim (ev_data (last evs)))"

lemma armed_off_surface: "armed_claim (ev_data ev) = Some c \<Longrightarrow> \<not> isSurfaceEvent ev"
  by (cases "ev_data ev") (auto simp: isSurfaceEvent_def isSurfaceEligibleType_def surface_event_types_def)

lemma reps_bound:
  assumes "foldSurface evs = Inr (st, reps)" and "r \<in> set reps"
  shows "sr_seq r < length evs" and "\<forall>s \<in> set (sr_shadowedSeqs r). s < sr_seq r"
  using foldSurface_inv [OF assms(1)] assms(2) by (auto simp: replacement_ok_def)

lemma metered_log:
  assumes f: "foldSurface evs = Inr (st, reps)"
  shows "metered decimal (evs @ xs) reps = metered decimal evs reps"
proof -
  have "(evs @ xs) ! (sr_seq r - 1) = evs ! (sr_seq r - 1)"
    "surface_price decimal (evs @ xs) (sr_shadowedSeqs r) = surface_price decimal evs (sr_shadowedSeqs r)"
    if "r \<in> set reps" for r
    using reps_bound [OF f that] by (auto simp: nth_append intro!: surface_price_log)
  then show ?thesis unfolding metered_def by (metis (no_types, lifting))
qed

lemma foldSurface_snoc_cases:
  assumes "foldSurface (evs @ [ev]) = Inr (st', reps')"
  obtains st reps r where "foldSurface evs = Inr (st, reps)"
    "applySurfaceEvent st ev (length evs) evs 0 = Inr (st', r)"
    "reps' = reps @ (case r of None \<Rightarrow> [] | Some x \<Rightarrow> [x])"
proof -
  from foldSurface_take [OF assms, of "length evs"] obtain st reps where f: "foldSurface evs = Inr (st, reps)" by auto
  from foldSurface_snocD [OF f assms] obtain r where a: "applySurfaceEvent st ev (length evs) evs 0 = Inr (st', r)" by blast
  with foldSurface_snoc [OF f, of ev] assms that [OF f a] show thesis by simp
qed

lemma surface_only_grows_on_surface:
  assumes "applySurfaceEvent st ev n evs 0 = Inr (st', r)" and "\<not> isSurfaceEvent ev"
  shows "st' = st \<and> r = None"
proof -
  from assms(1) obtain plan where plan: "planSurfaceEvent st ev n evs 0 = Inr plan"
    and st': "(st', r) = applySurfacePlan st plan"
    by (auto simp: applySurfaceEvent_def bind_res_Inr_iff)
  have "plan = None"
  proof (cases plan)
    case (Some p)
    from plan [unfolded Some] assms(2) have False
      by (cases rule: plan_op) (auto dest: surfaceOpOf_Some)
    then show ?thesis ..
  qed simp
  with st' show ?thesis by simp
qed

lemma foldSurfaceProjection_step:
  assumes f: "foldSurface evs = Inr (st, reps)"
    and a: "applySurfaceEvent st ev (length evs) evs 0 = Inr (st', r)"
    and m: "metered decimal (evs @ [ev]) (reps @ (case r of None \<Rightarrow> [] | Some x \<Rightarrow> [x]))"
  shows "foldSurfaceProjection decimal (pending_claim evs) ev
     = Inr (int (surface_price decimal (evs @ [ev]) (sf_nodes st')) - int (surface_price decimal evs (sf_nodes st)),
            armed_claim (ev_data ev))"
proof (cases "isSurfaceEvent ev")
  case False
  have bound: "\<forall>n \<in> set (sf_nodes st). n < length evs" using foldSurface_nodes_bound [OF f] by blast
  from surface_only_grows_on_surface [OF a False] surface_price_log [OF bound, of decimal "[ev]"] False
  show ?thesis by (auto simp: foldSurfaceProjection_def split: option.splits)
next
  case True
  have na: "armed_claim (ev_data ev) = None" using True armed_off_surface by fastforce
  note sf = foldSurfaceTokens_step [OF f a True, of decimal]
  from a obtain plan where plan: "planSurfaceEvent st ev (length evs) evs 0 = Inr plan"
    and st': "(st', r) = applySurfacePlan st plan"
    by (auto simp: applySurfaceEvent_def bind_res_Inr_iff)
  obtain p where p: "plan = Some p" using plan True by (cases plan) (auto dest: plan_None)
  from plan [unfolded p] show ?thesis
  proof (cases rule: plan_op)
    case append
    then have "ev_surfaceOp ev = Some (JStr ''append'')"
      using surfaceOpOf_append isAppendSurfaceEvent_def by blast
    with sf na True show ?thesis by (simp add: foldSurfaceProjection_def foldSurfaceTokens_def Let_def)
  next
    case (replace start end' si ei sh)
    obtain op where op: "ev_surfaceOp ev = Some op" "op \<noteq> JStr ''append''"
      "\<And>n. op_names op ''start'' n \<longleftrightarrow> n = start" "\<And>n. op_names op ''end'' n \<longleftrightarrow> n = end'"
      using surfaceOpOf_replace [OF replace(1)] by metis
    have r: "r = Some \<lparr>sr_seq = length evs, sr_start = start, sr_end = end', sr_shadowedSeqs = sh\<rparr>"
      using st' p replace(5) by simp
    from m r have pos: "0 < length evs"
      and claim: "armed_claim (ev_data ((evs @ [ev]) ! (length evs - 1)))
        = Some \<lparr>sc_start = start, sc_end = end', sc_tokens = surface_price decimal (evs @ [ev]) sh\<rparr>"
      by (simp_all add: metered_def)
    from pos claim have pc: "pending_claim evs
        = Some \<lparr>sc_start = start, sc_end = end', sc_tokens = surface_price decimal (evs @ [ev]) sh\<rparr>"
      by (simp add: pending_claim_def nth_append last_conv_nth)
    have sh: "sh = spliced_out (sf_nodes st) si (ei - si + 1)" "si \<le> ei"
      using replacementRange_Inr [OF replace(2)] by auto
    have idx: "find_index (\<lambda>n. op_names op ''start'' (tn_seq n)) (priced decimal evs (sf_nodes st)) = Some si"
      "find_index (\<lambda>n. op_names op ''end'' (tn_seq n)) (priced decimal evs (sf_nodes st)) = Some ei"
      using replacementRange_index [OF replace(2)] by (simp_all add: op find_priced)
    have so: "surface_price decimal (evs @ [ev]) sh = surface_price decimal evs sh"
      using foldSurface_nodes_bound [OF f] set_spliced_out_subset [of "sf_nodes st" si "ei - si + 1"] sh(1)
      by (intro surface_price_log) blast
    from sf have "int (event_price decimal ev) - int (surface_price decimal evs sh)
        = int (surface_price decimal (evs @ [ev]) (sf_nodes st')) - int (surface_price decimal evs (sf_nodes st))"
      unfolding foldSurfaceTokens_def Let_def op(1) option.case
      by (simp add: op(2) idx priced_spliced_out sum_tokens_priced sh(1)
          not_less [THEN iffD2, OF sh(2)])
    with na True op pc so show ?thesis by (simp add: foldSurfaceProjection_def)
  qed
qed

text \<open>
  What a projection promises that carries a running total and a claim and folds them with
  \<open>foldSurfaceProjection\<close>.
\<close>

locale running_total =
  fixes decimal :: "jsnum \<Rightarrow> string" and init :: 's
    and apply_event :: "'s \<Rightarrow> session_event \<Rightarrow> meter_error + 's"
    and running :: "'s \<Rightarrow> int" and claim :: "'s \<Rightarrow> shadow_claim option"
  assumes start: "running init = 0" "claim init = None"
    and step: "foldSurfaceProjection decimal (claim s) ev = Inr (d, c) \<Longrightarrow>
      \<exists>s'. apply_event s ev = Inr s' \<and> running s' = running s + d \<and> claim s' = c"
begin

lemma follows_surface:
  "foldSurface evs = Inr (st, reps) \<Longrightarrow> metered decimal evs reps \<Longrightarrow>
   \<exists>s. fold_res apply_event init evs = Inr s \<and> running s = int (surface_price decimal evs (sf_nodes st))
     \<and> claim s = pending_claim evs"
proof (induction evs arbitrary: st reps rule: rev_induct)
  case Nil
  then show ?case using start by (auto simp: foldSurface_def createFoldState_def pending_claim_def)
next
  case (snoc ev evs)
  from snoc.prems(1) obtain st0 reps0 r where f: "foldSurface evs = Inr (st0, reps0)"
    and a: "applySurfaceEvent st0 ev (length evs) evs 0 = Inr (st, r)"
    and reps: "reps = reps0 @ (case r of None \<Rightarrow> [] | Some x \<Rightarrow> [x])"
    by (rule foldSurface_snoc_cases)
  have "metered decimal (evs @ [ev]) reps0" using snoc.prems(2) reps by (simp add: metered_def)
  then have "metered decimal evs reps0" by (simp only: metered_log [OF f])
  from snoc.IH [OF f this] obtain s where s: "fold_res apply_event init evs = Inr s"
    "running s = int (surface_price decimal evs (sf_nodes st0))" "claim s = pending_claim evs" by blast
  from foldSurfaceProjection_step [OF f a] snoc.prems(2) reps s(3)
  have "foldSurfaceProjection decimal (claim s) ev
     = Inr (int (surface_price decimal (evs @ [ev]) (sf_nodes st)) - int (surface_price decimal evs (sf_nodes st0)),
            armed_claim (ev_data ev))" by simp
  from step [OF this] s show ?case by (auto simp: fold_res_snoc pending_claim_def)
qed

end

interpretation breakdown: running_total decimal breakdown_init "breakdown_apply decimal" bs_messageTokens bs_claim
  for decimal
proof unfold_locales
  fix s :: breakdown_state and ev d c
  assume "foldSurfaceProjection decimal (bs_claim s) ev = Inr (d, c)"
  then show "\<exists>s'. breakdown_apply decimal s ev = Inr s' \<and> bs_messageTokens s' = bs_messageTokens s + d \<and> bs_claim s' = c"
    by (auto simp: breakdown_apply_def split_beta Let_def)
qed (simp_all add: breakdown_init_def)

interpretation pressure: running_total decimal pressure_init "pressure_apply decimal" ps_surfaceTokens ps_claim
  for decimal
proof unfold_locales
  fix s :: pressure_state and ev d c
  assume "foldSurfaceProjection decimal (ps_claim s) ev = Inr (d, c)"
  then show "\<exists>s'. pressure_apply decimal s ev = Inr s' \<and> ps_surfaceTokens s' = ps_surfaceTokens s + d \<and> ps_claim s' = c"
    by (auto simp: pressure_apply_def Let_def split: option.splits event_data.splits)
qed (simp_all add: pressure_init_def)

text \<open>The envelope figures follow the newest request header.\<close>

lemma breakdown_apply_fields:
  "breakdown_apply decimal s ev = bind_res (foldSurfaceProjection decimal (bs_claim s) ev) (\<lambda>(delta, claim).
     Inr \<lparr>bs_systemTokens = (case ev_data ev of RequestHeader h _ \<Rightarrow> estimateSystemTokens (Some (canonicalHeader h))
                               | _ \<Rightarrow> bs_systemTokens s),
          bs_toolsTokens = (case ev_data ev of RequestHeader h _ \<Rightarrow> estimateToolsTokens decimal (Some (canonicalHeader h))
                              | _ \<Rightarrow> bs_toolsTokens s),
          bs_messageTokens = bs_messageTokens s + delta, bs_claim = claim\<rparr>)"
proof -
  obtain a b c d where s: "s = \<lparr>bs_systemTokens = a, bs_toolsTokens = b, bs_messageTokens = c, bs_claim = d\<rparr>"
    by (cases s)
  show ?thesis
    by (cases "foldSurfaceProjection decimal (bs_claim s) ev"; cases "ev_data ev")
      (simp_all add: s breakdown_apply_def split_beta Let_def)
qed

lemma breakdown_envelope:
  "fold_res (breakdown_apply decimal) breakdown_init evs = Inr s \<Longrightarrow>
   bs_systemTokens s = estimateSystemTokens (foldRequestHeader evs None)
   \<and> bs_toolsTokens s = estimateToolsTokens decimal (foldRequestHeader evs None)"
proof (induction evs arbitrary: s rule: rev_induct)
  case Nil
  then show ?case by (auto simp: breakdown_init_def estimateSystemTokens_def estimateToolsTokens_def)
next
  case (snoc ev evs)
  from snoc.prems obtain s0 where s0: "fold_res (breakdown_apply decimal) breakdown_init evs = Inr s0"
    and s: "breakdown_apply decimal s0 ev = Inr s" by (auto simp: fold_res_snoc bind_res_Inr_iff)
  from snoc.IH [OF s0] s show ?case
    by (auto simp: breakdown_apply_fields bind_res_Inr_iff foldRequestHeader_append split: event_data.splits)
qed

section \<open>The replay of the service\<close>

definition meter_at :: "(jsnum \<Rightarrow> string) \<Rightarrow> session_event list \<Rightarrow> nat \<Rightarrow> replay_state \<Rightarrow> bool" where
  "meter_at decimal evs k s \<longleftrightarrow>
     k \<le> length evs \<and> rp_consumedEvents s = k
     \<and> (\<exists>st reps. foldSurface (take k evs) = Inr (st, reps)
          \<and> rp_surface s = priced decimal evs (sf_nodes st)
          \<and> rp_surfaceTokens s = int (surface_price decimal evs (sf_nodes st)))
     \<and> rp_header s = foldRequestHeader (take k evs) None"

lemma meter_at_init: "meter_at decimal evs 0 meter_init"
  by (simp add: meter_at_def meter_init_def foldSurface_def createFoldState_def priced_def)

lemma meter_at_append:
  assumes "meter_at decimal evs k s"
  shows "meter_at decimal (evs @ xs) k s"
proof -
  from assms obtain st reps where k: "k \<le> length evs" and f: "foldSurface (take k evs) = Inr (st, reps)"
    and s: "rp_surface s = priced decimal evs (sf_nodes st)"
      "rp_surfaceTokens s = int (surface_price decimal evs (sf_nodes st))"
    by (auto simp: meter_at_def)
  have "\<forall>n \<in> set (sf_nodes st). n < length evs" using foldSurface_nodes_bound [OF f] k by fastforce
  with assms s f k show ?thesis by (auto simp: meter_at_def priced_log surface_price_log)
qed

text \<open>A step of the surface fold inside a log, priced in the whole log.\<close>

lemma priced_step:
  assumes all: "is_ok (foldSurface evs)" and k: "k < length evs"
    and f: "foldSurface (take k evs) = Inr (st, reps)"
  obtains st' reps' r where "foldSurface (take (Suc k) evs) = Inr (st', reps')"
    "applySurfaceEvent st (evs ! k) k (take k evs) 0 = Inr (st', r)"
    "isSurfaceEvent (evs ! k) \<Longrightarrow> foldSurfaceTokens decimal (priced decimal evs (sf_nodes st)) (evs ! k)
       = Inr \<lparr>tf_tokens = event_price decimal (evs ! k), tf_nodes = priced decimal evs (sf_nodes st'),
              tf_deltaTokens = int (surface_price decimal evs (sf_nodes st'))
                - int (surface_price decimal evs (sf_nodes st))\<rparr>"
proof -
  let ?pre = "take k evs"
  have pre: "take (Suc k) evs = ?pre @ [evs ! k]" using k by (simp add: take_Suc_conv_app_nth)
  from all obtain sta repsa where "foldSurface evs = Inr (sta, repsa)" by (auto simp: is_ok_iff)
  from foldSurface_take [OF this, of "Suc k"] obtain st' reps' where f': "foldSurface (take (Suc k) evs) = Inr (st', reps')"
    by auto
  from foldSurface_snocD [OF f f' [unfolded pre]] k obtain r where
    a: "applySurfaceEvent st (evs ! k) (length ?pre) ?pre 0 = Inr (st', r)" by auto
  have whole: "priced decimal evs ns = priced decimal (take j evs) ns"
    "surface_price decimal evs ns = surface_price decimal (take j evs) ns"
    if "foldSurface (take j evs) = Inr (q, reps'')" "ns = sf_nodes q" for j q reps'' ns
    using priced_log [of ns "take j evs" decimal "drop j evs"] surface_price_log [of ns "take j evs" decimal "drop j evs"]
      foldSurface_nodes_bound [OF that(1)] that(2) by simp_all
  show thesis
    using that [OF f'] foldSurfaceTokens_step [OF f a, of decimal] a k
      whole [OF f refl] whole [OF f' refl] unfolding pre by simp
qed

lemma meter_at_step:
  assumes all: "is_ok (foldSurface evs)" and k: "k < length evs" and at0: "meter_at decimal evs k s"
    and e: "meter_fold_event decimal evs s (evs ! k) = Inr s'"
  shows "meter_at decimal evs (Suc k) (s'\<lparr>rp_consumedEvents := rp_consumedEvents s' + 1\<rparr>)"
proof -
  from at0 obtain st reps where f: "foldSurface (take k evs) = Inr (st, reps)"
    and s: "rp_surface s = priced decimal evs (sf_nodes st)"
      "rp_surfaceTokens s = int (surface_price decimal evs (sf_nodes st))"
      "rp_header s = foldRequestHeader (take k evs) None" "rp_consumedEvents s = k"
    by (auto simp: meter_at_def)
  from priced_step [OF all k f, of decimal] obtain st' reps' r where f': "foldSurface (take (Suc k) evs) = Inr (st', reps')"
    and a: "applySurfaceEvent st (evs ! k) k (take k evs) 0 = Inr (st', r)"
    and p: "isSurfaceEvent (evs ! k) \<Longrightarrow> foldSurfaceTokens decimal (priced decimal evs (sf_nodes st)) (evs ! k)
       = Inr \<lparr>tf_tokens = event_price decimal (evs ! k), tf_nodes = priced decimal evs (sf_nodes st'),
              tf_deltaTokens = int (surface_price decimal evs (sf_nodes st'))
                - int (surface_price decimal evs (sf_nodes st))\<rparr>" by metis
  have header: "next_header s (evs ! k) = foldRequestHeader (take (Suc k) evs) None"
    using k s(3) by (simp add: next_header_def take_Suc_conv_app_nth foldRequestHeader_append split: event_data.splits)
  have fields: "rp_header s' = next_header s (evs ! k)" "rp_consumedEvents s' = k"
    "rp_surface s' = priced decimal evs (sf_nodes st')"
    "rp_surfaceTokens s' = int (surface_price decimal evs (sf_nodes st'))"
    using e p s(1, 2, 4) surface_only_grows_on_surface [OF a]
    by (auto simp: meter_fold_event_def bind_res_Inr_iff split: if_splits)
  with f' header k show ?thesis by (auto simp: meter_at_def)
qed

lemma meter_loop_at:
  assumes all: "is_ok (foldSurface evs)"
  shows "meter_at decimal evs k s \<Longrightarrow> meter_loop decimal evs s (drop k evs) = (s', e) \<Longrightarrow>
    \<exists>k'. k \<le> k' \<and> meter_at decimal evs k' s' \<and> (e = None \<longrightarrow> k' = length evs)"
proof (induction "length evs - k" arbitrary: k s)
  case 0
  then have "k = length evs" by (simp add: meter_at_def)
  with 0 show ?case by auto
next
  case (Suc n)
  then have k: "k < length evs" by linarith
  then have d: "drop k evs = evs ! k # drop (Suc k) evs" by (simp add: Cons_nth_drop_Suc)
  show ?case
  proof (cases "meter_fold_event decimal evs s (evs ! k)")
    case (Inl err)
    with Suc.prems d show ?thesis by auto
  next
    case (Inr s1)
    from Suc.prems(2) d Inr have
      "meter_loop decimal evs (s1\<lparr>rp_consumedEvents := rp_consumedEvents s1 + 1\<rparr>) (drop (Suc k) evs) = (s', e)" by simp
    note rest = this
    have "n = length evs - Suc k" using Suc.hyps(2) by linarith
    from Suc.hyps(1) [OF this meter_at_step [OF all k Suc.prems(1) Inr] rest]
    obtain k' where "Suc k \<le> k'" "meter_at decimal evs k' s'" "e = None \<longrightarrow> k' = length evs" by blast
    then show ?thesis by (metis Suc_leD)
  qed
qed

text \<open>What the service may have stored for a session.\<close>

definition meter_state_ok :: "(jsnum \<Rightarrow> string) \<Rightarrow> session_event list \<Rightarrow> replay_state option \<Rightarrow> bool" where
  "meter_state_ok decimal evs state \<longleftrightarrow> (case state of None \<Rightarrow> True | Some s0 \<Rightarrow> \<exists>k. meter_at decimal evs k s0)"

lemma meter_state_ok_Some: "meter_state_ok decimal evs (Some s) \<longleftrightarrow> (\<exists>k. meter_at decimal evs k s)"
  by (simp add: meter_state_ok_def)

lemma meter_state_ok_append: "meter_state_ok decimal evs state \<Longrightarrow> meter_state_ok decimal (evs @ xs) state"
  unfolding meter_state_ok_def by (cases state) (auto intro: meter_at_append)

text \<open>The stored state stays one of a prefix of the log, whether the measurement succeeds or not.\<close>

lemma measure_keeps:
  assumes f: "foldSurface evs = Inr (st, reps)"
    and s: "case state of None \<Rightarrow> True | Some s0 \<Rightarrow> \<exists>k. meter_at decimal evs k s0"
    and m: "meter_measure decimal evs state hdr = (s', r)"
  shows "\<exists>k. meter_at decimal evs k s'"
proof -
  define s0 where "s0 = (case state of None \<Rightarrow> meter_init | Some s0 \<Rightarrow> s0)"
  have "\<exists>k. meter_at decimal evs k s0" using s meter_at_init unfolding s0_def by (cases state) auto
  then obtain k where k: "meter_at decimal evs k s0" ..
  then have c: "rp_consumedEvents s0 = k" by (simp add: meter_at_def)
  from m obtain e where "meter_loop decimal evs s0 (drop k evs) = (s', e)"
    using c by (auto simp: meter_measure_def meter_sync_def s0_def [symmetric] Let_def split: prod.splits option.splits)
  from meter_loop_at [OF _ k this] f show ?thesis by (auto simp: is_ok_iff)
qed

text \<open>A measurement, when there is one, shows the surface with its prices.\<close>

lemma measure_surface:
  assumes f: "foldSurface evs = Inr (st, reps)"
    and s: "case state of None \<Rightarrow> True | Some s0 \<Rightarrow> \<exists>k. meter_at decimal evs k s0"
    and m: "meter_measure decimal evs state hdr = (s', Inr tm)"
  shows "tm_nodes tm = priced decimal evs (sf_nodes st)"
    and "tm_surfaceTokens tm = int (surface_price decimal evs (sf_nodes st))"
    and "meter_at decimal evs (length evs) s'"
proof -
  define s0 where "s0 = (case state of None \<Rightarrow> meter_init | Some s0 \<Rightarrow> s0)"
  have "\<exists>k. meter_at decimal evs k s0" using s meter_at_init unfolding s0_def by (cases state) auto
  then obtain k where k: "meter_at decimal evs k s0" ..
  then have c: "rp_consumedEvents s0 = k" by (simp add: meter_at_def)
  from m have sync: "meter_loop decimal evs s0 (drop k evs) = (s', None)" and tm: "tm = measure_from decimal s' hdr"
    using c by (auto simp: meter_measure_def meter_sync_def s0_def [symmetric] Let_def split: prod.splits option.splits)
  have "is_ok (foldSurface evs)" using f by (simp add: is_ok_iff)
  from meter_loop_at [OF this k sync] show at_end: "meter_at decimal evs (length evs) s'" by auto
  then show "tm_nodes tm = priced decimal evs (sf_nodes st)"
    "tm_surfaceTokens tm = int (surface_price decimal evs (sf_nodes st))"
    using f tm by (auto simp: meter_at_def measure_from_def Let_def split_beta)
qed

section \<open>The replay of a valid log\<close>

fun source_problem :: "meter_error \<Rightarrow> bool" where
  "source_problem (MeterSourceNotChunk _ _) = True"
| "source_problem (MeterSourceOtherStep _ _) = True"
| "source_problem (MeterAssembly _) = True"
| "source_problem _ = False"

definition open_step :: "replay_state \<Rightarrow> (nat \<times> nat) option" where
  "open_step s = map_option (\<lambda>(t, p, _). (t, p)) (rp_stepStart s)"

definition trace_step :: "session_trace \<Rightarrow> (nat \<times> nat) option" where
  "trace_step t = (case (st_openTurn t, st_openStep t) of (Some a, Some b) \<Rightarrow> Some (a, b) | _ \<Rightarrow> None)"

lemma sources_fold:
  "fold_res (source_step evs ev turn step) (seen, a) ss = Inl e \<Longrightarrow> distinct ss \<Longrightarrow> set ss \<inter> set seen = {}
   \<Longrightarrow> \<forall>s \<in> set ss. s < ev_seq ev \<and> s < length evs \<Longrightarrow> source_problem e"
proof (induction ss arbitrary: seen a)
  case Nil
  then show ?case by simp
next
  case (Cons s ss)
  from Cons.prems(3, 4) have s: "s \<notin> set seen" "\<not> s \<ge> ev_seq ev" "elem_at evs s = Some (evs ! s)"
    by (auto simp: elem_at_def)
  show ?case
  proof (cases "source_step evs ev turn step (seen, a) s")
    case (Inl e')
    with Cons.prems(1) have "e' = e" by simp
    with Inl s show ?thesis
      by (cases "ev_data (evs ! s)") (auto simp: source_step_def split: if_splits)
  next
    case (Inr st)
    then obtain b where st: "st = (s # seen, b)"
      using s by (cases "ev_data (evs ! s)") (auto simp: source_step_def split: if_splits)
    from Cons.IH [of "s # seen" b] Cons.prems Inr st show ?thesis by auto
  qed
qed

lemma estimateProvider_error:
  assumes "estimateProviderAssistant decimal evs ev turn step d = Inl e"
    and c: "citedSources ev = Inr ss" and n: "ev_seq ev \<le> length evs"
  shows "source_problem e"
proof (cases "ev_sourceEventSeqs ev")
  case None
  with assms(1) show ?thesis by (simp add: estimateProviderAssistant_def)
next
  case (Some j)
  with c obtain raw where j: "j = JArr raw" by (auto simp: citedSources_def split: json.splits)
  from c Some j have ss: "ss = source_seqs j"
    by (auto simp: citedSources_def split: if_splits option.splits)
  have "\<forall>s \<in> set ss. s < ev_seq ev \<and> s < length evs"
    using citedSources_earlier [OF c] n by fastforce
  with sources_fold [of evs ev turn step "[]" newAssembler ss] citedSources_distinct [OF c] assms(1) Some ss
  show ?thesis
    by (cases "fold_res (source_step evs ev turn step) ([], newAssembler) ss")
      (auto simp: estimateProviderAssistant_def bind_res_Inl_iff elim: map_error.elims)
qed

lemma surface_event_cites:
  assumes "applySurfaceEvent st ev n evs 0 = Inr (st', r)" and "isSurfaceEvent ev"
  shows "\<exists>ss. citedSources ev = Inr ss"
proof -
  from assms(1) obtain plan where plan: "planSurfaceEvent st ev n evs 0 = Inr plan"
    by (auto simp: applySurfaceEvent_def bind_res_Inr_iff)
  obtain p where p: "plan = Some p" using plan assms(2) by (cases plan) (auto dest: plan_None)
  from plan have n: "ev_seq ev = n" by (rule plan_seq)
  from plan [unfolded p] show ?thesis
  proof (cases rule: plan_op)
    case append
    with plan p n show ?thesis
      by (auto simp: planSurfaceEvent_def bind_res_Inr_iff dest: assertProvenance_Inr)
  next
    case (replace start end' si ei sh)
    from assertProvenance_Inr [OF replace(3)] show ?thesis by blast
  qed
qed

lemma accepted_assistant_on_surface:
  assumes "applySurfaceEvent st ev n evs 0 = Inr (st', r)" and "ev_data ev = AssistantMessage t p m u c"
  shows "isSurfaceEvent ev"
proof -
  from assms(1) obtain plan where plan: "planSurfaceEvent st ev n evs 0 = Inr plan"
    by (auto simp: applySurfaceEvent_def bind_res_Inr_iff)
  with plan_seq [OF plan] obtain op where "surfaceOpOf ev = Inr op"
    by (auto simp: planSurfaceEvent_def bind_res_Inr_iff)
  with assms(2) show ?thesis
    by (auto simp: surfaceOpOf_def isSurfaceEvent_def isSurfaceEligibleType_def surface_event_types_def Let_def
        split: option.splits)
qed

lemma step_follows_trace:
  assumes "trace_event t ev = Inr t'" and "open_step s = trace_step t" and "trace_inv t"
  shows "\<exists>n. next_step_start s ev = Inr n \<and> map_option (\<lambda>(t, p, _). (t, p)) n = trace_step t'"
  using assms
  by (cases "ev_data ev"; cases "rp_stepStart s")
    (auto simp: next_step_start_def open_step_def trace_step_def trace_event_defs requireOpenStep_def trace_inv_def
      bind_res_Inr_iff split: if_splits option.splits)

lemma meter_step_total:
  assumes all: "is_ok (foldSurface evs)" and k: "k < length evs" and at0: "meter_at decimal evs k s"
    and t: "trace_event t (evs ! k) = Inr t'" and s: "open_step s = trace_step t" and inv: "trace_inv t"
  shows "case meter_fold_event decimal evs s (evs ! k) of
           Inl e \<Rightarrow> source_problem e | Inr s' \<Rightarrow> open_step s' = trace_step t'"
proof -
  let ?ev = "evs ! k"
  from at0 obtain st reps where f: "foldSurface (take k evs) = Inr (st, reps)"
    and sf: "rp_surface s = priced decimal evs (sf_nodes st)" by (auto simp: meter_at_def)
  from priced_step [OF all k f, of decimal] obtain st' r where
    a: "applySurfaceEvent st ?ev k (take k evs) 0 = Inr (st', r)"
    and p: "isSurfaceEvent ?ev \<Longrightarrow> \<exists>g. foldSurfaceTokens decimal (rp_surface s) ?ev = Inr g"
    unfolding sf by metis
  obtain n where n: "next_step_start s ?ev = Inr n" "map_option (\<lambda>(t, p, _). (t, p)) n = trace_step t'"
    using step_follows_trace [OF t s inv] by blast
  obtain surface where surface: "(if isSurfaceEvent ?ev
      then bind_res (foldSurfaceTokens decimal (rp_surface s) ?ev) (\<lambda>f. Inr (Some f)) else Inr None) = Inr surface"
    and some: "isSurfaceEvent ?ev \<longrightarrow> surface \<noteq> None" using p by (cases "isSurfaceEvent ?ev") auto
  have seq: "ev_seq ?ev = k" using a by (auto simp: applySurfaceEvent_def bind_res_Inr_iff dest: plan_seq)
  have anchor: "source_problem e" if e: "next_anchor decimal evs s ?ev (next_header s ?ev) surface = Inl e" for e
  proof (cases "ev_data ?ev")
    case (AssistantMessage turn step m u c)
    from accepted_assistant_on_surface [OF a AssistantMessage] have on: "isSurfaceEvent ?ev" .
    then obtain g where g: "surface = Some g" using some by auto
    obtain ss where ss: "citedSources ?ev = Inr ss" using surface_event_cites [OF a on] ..
    have "open_step s = Some (turn, step)"
      using t AssistantMessage s
      by (auto simp: trace_event_defs requireOpenStep_def trace_step_def bind_res_Inr_iff split: if_splits)
    then obtain q where q: "rp_stepStart s = Some (turn, step, q)" by (auto simp: open_step_def)
    from e AssistantMessage g q obtain d where "estimateProviderAssistant decimal evs ?ev turn step d = Inl e"
      by (auto simp: next_anchor_def Let_def bind_res_Inl_iff split: option.splits)
    then show ?thesis using estimateProvider_error [OF _ ss] seq k by simp
  qed (use e in \<open>simp_all add: next_anchor_def\<close>)
  show ?thesis
    using n surface anchor
    by (cases "next_anchor decimal evs s ?ev (next_header s ?ev) surface")
      (auto simp: meter_fold_event_def open_step_def)
qed

lemma meter_loop_total:
  assumes all: "is_ok (foldSurface evs)"
  shows "meter_at decimal evs k s \<Longrightarrow> seedTrace (take k evs) = Inr t \<Longrightarrow> is_ok (seedTrace evs)
    \<Longrightarrow> open_step s = trace_step t \<Longrightarrow> meter_loop decimal evs s (drop k evs) = (s', Some e) \<Longrightarrow> source_problem e"
proof (induction "length evs - k" arbitrary: k s t)
  case 0
  then have "k = length evs" by (simp add: meter_at_def)
  with 0 show ?case by simp
next
  case (Suc n)
  then have k: "k < length evs" by linarith
  then have d: "drop k evs = evs ! k # drop (Suc k) evs" by (simp add: Cons_nth_drop_Suc)
  from Suc.prems(3) obtain tt where "seedTrace (take (Suc k) evs @ drop (Suc k) evs) = Inr tt"
    by (auto simp: is_ok_iff)
  then obtain t' where t': "seedTrace (take (Suc k) evs) = Inr t'"
    unfolding seedTrace_def by (blast dest: fold_res_prefix)
  with Suc.prems(2) k have te: "trace_event t (evs ! k) = Inr t'"
    by (simp add: seedTrace_def take_Suc_conv_app_nth fold_res_snoc)
  have inv: "trace_inv t" using turn_numbers [OF Suc.prems(2)] by blast
  note step = meter_step_total [OF all k Suc.prems(1) te Suc.prems(4) inv]
  show ?case
  proof (cases "meter_fold_event decimal evs s (evs ! k)")
    case (Inl err)
    with Suc.prems(5) d step show ?thesis by simp
  next
    case (Inr s1)
    from Suc.prems(5) d Inr have rest:
      "meter_loop decimal evs (s1\<lparr>rp_consumedEvents := rp_consumedEvents s1 + 1\<rparr>) (drop (Suc k) evs) = (s', Some e)"
      by simp
    have "n = length evs - Suc k" using Suc.hyps(2) by linarith
    from Suc.hyps(1) [OF this meter_at_step [OF all k Suc.prems(1) Inr] t' Suc.prems(3) _ rest] step Inr
    show ?thesis by (simp add: open_step_def)
  qed
qed

text \<open>On a valid log a fresh measurement fails only for the sources of an assistant message.\<close>

lemma measure_fails_for_sources:
  assumes "is_ok (foldSurface evs)" and "is_ok (seedTrace evs)"
    and "meter_measure decimal evs None hdr = (s', Inl e)"
  shows "source_problem e"
proof -
  from assms(3) have loop: "meter_loop decimal evs meter_init (drop 0 evs) = (s', Some e)"
    by (simp add: meter_measure_def meter_sync_def meter_init_def split: prod.splits option.splits)
  have "seedTrace (take 0 evs) = Inr freshTrace" by (simp add: seedTrace_def)
  from meter_loop_total [OF assms(1) meter_at_init this assms(2) _ loop] show ?thesis
    by (simp add: open_step_def meter_init_def trace_step_def freshTrace_def)
qed

end
