(* ===== verification/Surface_Rewrite.thy ===== *)
theory Surface_Rewrite
  imports Session_Log
begin

text \<open>
  Appending a replacement to a live session, as the pruner and the compaction do: the \<open>surfaceOp\<close> and
  \<open>sourceEventSeqs\<close> they write, and the conditions under which the session accepts them.
\<close>

section \<open>The metadata written\<close>

definition replace_op :: "nat \<Rightarrow> nat \<Rightarrow> json" where
  "replace_op start end =
     JObj [(''op'', JStr ''replace''), (''start'', JNum (JInt (int start))), (''end'', JNum (JInt (int end)))]"

definition seqs_json :: "nat list \<Rightarrow> json" where
  "seqs_json ss = JArr (map (\<lambda>s. JNum (JInt (int s))) ss)"

definition replacing :: "nat \<Rightarrow> nat \<Rightarrow> nat list \<Rightarrow> surface_intent" where
  "replacing start end sources =
     \<lparr>si_surfaceOp = Some (replace_op start end), si_sourceEventSeqs = Some (seqs_json sources)\<rparr>"

definition intended_event :: "session \<Rightarrow> nat \<Rightarrow> event_data \<Rightarrow> surface_intent \<Rightarrow> session_event" where
  "intended_event s now d opts =
     \<lparr>ev_seq = length (s_log s), ev_time = now, ev_data = d, ev_surfaceOp = si_surfaceOp opts,
      ev_sourceEventSeqs = si_sourceEventSeqs opts, ev_ignorable = False\<rparr>"

section \<open>When the session accepts it\<close>

lemma append_planned:
  assumes ok: "session_ok s" and f: "foldSurface (s_log s) = Inr (st, reps)"
    and sup: "assertSupportedRequestHeader d = Inr ()"
    and p: "planSurfaceEvent st (intended_event s now d opts) (length (s_log s)) (s_log s) 0 = Inr plan"
  obtains s' where "session_append s now d opts = Inr (s', intended_event s now d opts)" "session_ok s'"
    "s_log s' = s_log s @ [intended_event s now d opts]"
    "foldSurface (s_log s') = Inr (fst (applySurfacePlan st plan),
       reps @ (case snd (applySurfacePlan st plan) of None \<Rightarrow> [] | Some r \<Rightarrow> [r]))"
proof -
  from ok obtain k where m: "manager_at (s_log s) k (s_surfaceManager s)" by (auto simp: session_ok_def)
  from validateNext_at(2) [OF f m p] obtain m' where
    "validateNext (s_log s) 0 (s_surfaceManager s) (intended_event s now d opts) = Inr m'" by blast
  then have a: "session_append s now d opts =
      Inr (s\<lparr>s_surfaceManager := m', s_log := s_log s @ [intended_event s now d opts]\<rparr>, intended_event s now d opts)"
    using sup by (simp add: session_append_def intended_event_def Let_def)
  from foldSurface_snoc [OF f, of "intended_event s now d opts"] p
  have "foldSurface (s_log s @ [intended_event s now d opts]) = Inr (fst (applySurfacePlan st plan),
       reps @ (case snd (applySurfacePlan st plan) of None \<Rightarrow> [] | Some r \<Rightarrow> [r]))"
    by (simp add: applySurfaceEvent_def split_beta)
  with that [OF a] session_append_ok(1) [OF ok a] show thesis by simp
qed

lemma isEventSeq_int: "isEventSeq (JNum (JInt (int n))) \<longleftrightarrow> int n \<le> max_safe_integer"
  by simp

lemma surfaceOpOf_replacing:
  assumes "isSurfaceEligibleType (event_type (ev_data ev))" and "ev_surfaceOp ev = Some (replace_op a b)"
    and "int a \<le> max_safe_integer" and "int b \<le> max_safe_integer"
  shows "surfaceOpOf ev = Inr (Some (OpReplace a b))"
  using assms by (simp add: surfaceOpOf_def replace_op_def isReplaceOp_def)

lemma citedSources_seqs:
  assumes "ev_sourceEventSeqs ev = Some (seqs_json ss)" and "ss \<noteq> []" and "distinct ss"
    and "\<forall>s \<in> set ss. s < ev_seq ev" and "int (ev_seq ev) \<le> max_safe_integer"
  shows "citedSources ev = Inr ss"
proof -
  have "list_all isEventSeq (map (\<lambda>s. JNum (JInt (int s))) ss)"
    using assms(4, 5) by (fastforce simp: list_all_iff)
  moreover have "map seq_of (map (\<lambda>s. JNum (JInt (int s))) ss) = ss" by (simp add: comp_def)
  moreover have "find (\<lambda>s. ev_seq ev \<le> s) ss = None" using assms(4) by (auto simp: find_None_iff)
  ultimately show ?thesis using assms(1-3) by (simp add: citedSources_def seqs_json_def del: map_map)
qed

text \<open>A replacement of a contiguous range that cites everything it shadows.\<close>

lemma plan_replacing:
  assumes op: "isSurfaceEligibleType (event_type (ev_data ev))" "ev_surfaceOp ev = Some (replace_op a b)"
    and seq: "ev_seq ev = n" "int n \<le> max_safe_integer" and nodes: "\<forall>m \<in> set (sf_nodes st). m < n" "distinct (sf_nodes st)"
    and rng: "i \<le> j" "j < length (sf_nodes st)" "sf_nodes st ! i = a" "sf_nodes st ! j = b"
    and src: "ev_sourceEventSeqs ev = Some (seqs_json ss)" "distinct ss" "\<forall>s \<in> set ss. s < n"
      "set (spliced_out (sf_nodes st) i (j - i + 1)) \<subseteq> set ss"
    and rewrite: "assertToolResultRewrite ev (spliced_out (sf_nodes st) i (j - i + 1)) evs base = Inr ()"
  shows "planSurfaceEvent st ev n evs base = Inr (Some (PlanReplace
     \<lparr>sr_seq = n, sr_start = a, sr_end = b, sr_shadowedSeqs = spliced_out (sf_nodes st) i (j - i + 1)\<rparr> i j))"
proof -
  have "a \<in> set (sf_nodes st)" "b \<in> set (sf_nodes st)" using rng by auto
  then have "a < n" "b < n" using nodes(1) by blast+
  then have ab: "int a \<le> max_safe_integer" "int b \<le> max_safe_integer" using seq(2) by linarith+
  have "ss \<noteq> []" using spliced_out_ends(1) [OF rng(1, 2)] src(4) by auto
  then have cited: "citedSources ev = Inr ss" using citedSources_seqs [of ev ss] src seq by simp
  have "filter (\<lambda>s. s \<notin> set ss) (spliced_out (sf_nodes st) i (j - i + 1)) = []"
    using src(4) by (auto simp: filter_empty_conv)
  then have prov: "assertProvenance ev (spliced_out (sf_nodes st) i (j - i + 1)) = Inr ()"
    using cited by (simp add: assertProvenance_def Let_def)
  have idx: "index_of a (sf_nodes st) = Some i" "index_of b (sf_nodes st) = Some j"
    using index_of_nth [OF nodes(2)] rng by auto
  then have "replacementRange st a b = Inr (i, j, spliced_out (sf_nodes st) i (j - i + 1))"
    using rng(1) by (simp add: replacementRange_def)
  with seq(1) surfaceOpOf_replacing [OF op ab] prov rewrite show ?thesis
    by (simp add: planSurfaceEvent_def)
qed

text \<open>Data other than a tool result has no rewrite rule.\<close>

lemma rewrite_free: "event_type (ev_data ev) \<noteq> ''tool/result'' \<Longrightarrow> assertToolResultRewrite ev sh evs b = Inr ()"
  by (cases "ev_data ev") (simp_all add: assertToolResultRewrite_def)

text \<open>An event outside the surface leaves it as it was.\<close>

lemma append_off_surface:
  assumes ok: "session_ok s" and f: "foldSurface (s_log s) = Inr (st, reps)"
    and d: "event_type d \<noteq> ''request/header-delta''" "\<not> isSurfaceEligibleType (event_type d)"
  obtains s' where "session_append s now d no_intent = Inr (s', intended_event s now d no_intent)" "session_ok s'"
    "s_log s' = s_log s @ [intended_event s now d no_intent]" "foldSurface (s_log s') = Inr (st, reps)"
proof -
  have "planSurfaceEvent st (intended_event s now d no_intent) (length (s_log s)) (s_log s) 0 = Inr None"
    using d(2) by (simp add: planSurfaceEvent_def surfaceOpOf_def intended_event_def no_intent_def)
  from append_planned [OF ok f _ this] d(1) that show thesis
    by (force simp: assertSupportedRequestHeader_def)
qed

end
