(* ===== verification/Tool_Pruner.thy ===== *)
theory Tool_Pruner
  imports Metering_Laws Surface_Rewrite
begin

text \<open>
  The pruning of over-long tool results (packages/compaction/compaction-tool-result-pruner/src): budgets,
  the removal of the middle of a result's text, and the pass over the current surface of a session, which
  rewrites each over-long result in place and states the price of the result it shadows.

  Strings are lists of Latin-1 characters, so a code point is a character. The clock gives the time of an
  append by the sequence number it gets.
\<close>

section \<open>Budgets\<close>

record prune_config =
  pc_thresholdChars :: nat
  pc_headChars :: nat
  pc_tailChars :: nat

datatype prune_config_error =
    PruneUnknownKey string
  | PruneNotPositive string
  | PruneNotNonNegative string
  | PruneBudgetTooLarge nat

definition PRUNE_MARKER :: string where
  "PRUNE_MARKER = [CHR 0x0A, CHR 0x0A] @ ''[... tool result middle pruned ...]'' @ [CHR 0x0A, CHR 0x0A]"

definition PRUNE_DEFAULTS :: prune_config where
  "PRUNE_DEFAULTS = \<lparr>pc_thresholdChars = 8192, pc_headChars = 4096, pc_tailChars = 1024\<rparr>"

definition codePointLength :: "string \<Rightarrow> nat" where
  "codePointLength t = length t"

fun assertPositiveInteger :: "string \<Rightarrow> jsnum \<Rightarrow> prune_config_error + nat" where
  "assertPositiveInteger name (JInt i) = (if i \<le> 0 then Inl (PruneNotPositive name) else Inr (nat i))"
| "assertPositiveInteger name (JFrac _) = Inl (PruneNotPositive name)"

fun assertNonNegativeInteger :: "string \<Rightarrow> jsnum \<Rightarrow> prune_config_error + nat" where
  "assertNonNegativeInteger name (JInt i) = (if i < 0 then Inl (PruneNotNonNegative name) else Inr (nat i))"
| "assertNonNegativeInteger name (JFrac _) = Inl (PruneNotNonNegative name)"

text \<open>\<open>config[key] ?? default\<close>.\<close>

definition or_default :: "(string \<times> jsnum) list \<Rightarrow> string \<Rightarrow> nat \<Rightarrow> jsnum" where
  "or_default config key d = (case map_of config key of Some v \<Rightarrow> v | None \<Rightarrow> JInt (int d))"

definition resolvePruneConfig :: "(string \<times> jsnum) list \<Rightarrow> prune_config_error + prune_config" where
  "resolvePruneConfig config =
     (case find (\<lambda>(k, _). k \<notin> {''thresholdChars'', ''headChars'', ''tailChars''}) config of
        Some (k, _) \<Rightarrow> Inl (PruneUnknownKey k)
      | None \<Rightarrow>
          bind_res (assertPositiveInteger ''thresholdChars''
            (or_default config ''thresholdChars'' (pc_thresholdChars PRUNE_DEFAULTS))) (\<lambda>threshold.
          bind_res (assertNonNegativeInteger ''headChars''
            (or_default config ''headChars'' (pc_headChars PRUNE_DEFAULTS))) (\<lambda>head.
          bind_res (assertNonNegativeInteger ''tailChars''
            (or_default config ''tailChars'' (pc_tailChars PRUNE_DEFAULTS))) (\<lambda>tail.
          let emitted = head + codePointLength PRUNE_MARKER + tail in
          if emitted > threshold then Inl (PruneBudgetTooLarge emitted)
          else Inr \<lparr>pc_thresholdChars = threshold, pc_headChars = head, pc_tailChars = tail\<rparr>))))"

definition prune_config_ok :: "prune_config \<Rightarrow> bool" where
  "prune_config_ok c \<longleftrightarrow>
     0 < pc_thresholdChars c \<and> pc_headChars c + length PRUNE_MARKER + pc_tailChars c \<le> pc_thresholdChars c"

lemma resolvePruneConfig_ok: "resolvePruneConfig config = Inr c \<Longrightarrow> prune_config_ok c"
proof -
  assume r: "resolvePruneConfig config = Inr c"
  have pos: "0 < n" if "assertPositiveInteger name v = Inr n" for name v n
    using that by (cases v) (auto split: if_splits)
  from r show ?thesis
    by (auto simp: resolvePruneConfig_def prune_config_ok_def codePointLength_def bind_res_Inr_iff Let_def
        split: option.splits if_splits dest: pos)
qed

section \<open>Pruning the content of one result\<close>

fun is_text :: "content_block \<Rightarrow> bool" where
  "is_text (TextBlock _) = True"
| "is_text _ = False"

fun text_chars :: "content_block \<Rightarrow> string" where
  "text_chars (TextBlock t) = t"
| "text_chars _ = []"

definition measureContent :: "content_block list \<Rightarrow> nat" where
  "measureContent blocks = sum_list (map (\<lambda>b. if is_text b then codePointLength (text_chars b) else 0) blocks)"

text \<open>
  The loop over the blocks, with \<open>consumed\<close> and \<open>markerInserted\<close>: the blocks it pushes and whether the
  marker was inserted. The bounds of the removed span are numbers that the code clamps.
\<close>

fun prune_loop :: "int \<Rightarrow> int \<Rightarrow> nat \<Rightarrow> bool \<Rightarrow> content_block list \<Rightarrow> content_block list \<times> bool" where
  "prune_loop removedStart removedEnd consumed inserted [] = ([], inserted)"
| "prune_loop removedStart removedEnd consumed inserted (TextBlock points # blocks) =
     (let blockStart = consumed; blockEnd = blockStart + length points;
          headEnd = nat (min (int (length points)) (max 0 (removedStart - int blockStart)));
          tailStart = nat (min (int (length points)) (max 0 (removedEnd - int blockStart)));
          intersectsRemoved = (int blockStart < removedEnd \<and> int blockEnd > removedStart);
          marker = (if intersectsRemoved \<and> \<not> inserted then PRUNE_MARKER else []);
          inserted' = (inserted \<or> length marker > 0);
          t = take headEnd points @ marker @ drop tailStart points;
          (out, fin) = prune_loop removedStart removedEnd blockEnd inserted' blocks
      in (if length t > 0 then TextBlock t # out else out, fin))"
| "prune_loop removedStart removedEnd consumed inserted (b # blocks) =
     (let (out, fin) = prune_loop removedStart removedEnd consumed inserted blocks in (b # out, fin))"

datatype prune_error =
    NoRemovedSpan
  | ReplacementTooLarge
  | ResultContentUndefined nat
  | PruneSession session_error

definition pruneContent :: "prune_config \<Rightarrow> content_block list \<Rightarrow> prune_error + content_block list option" where
  "pruneContent config blocks =
     (let totalChars = measureContent blocks in
      if totalChars \<le> pc_thresholdChars config then Inr None
      else let (pruned, inserted) =
                 prune_loop (int (pc_headChars config)) (int totalChars - int (pc_tailChars config)) 0 False blocks;
               charsAfter = measureContent pruned
           in if \<not> inserted then Inl NoRemovedSpan
              else if charsAfter > pc_thresholdChars config \<or> charsAfter \<ge> totalChars then Inl ReplacementTooLarge
              else Inr (Some pruned))"

section \<open>The pass over a session\<close>

record pruned_entry =
  pe_originalSeq :: nat
  pe_replacementSeq :: nat
  pe_callId :: "string option"
  pe_charsBefore :: nat
  pe_charsAfter :: nat

text \<open>The candidates of one pass: the tool results of the surface it starts with.\<close>

definition prune_candidate :: "session_event list \<Rightarrow> nat \<Rightarrow> (nat \<times> tool_result_data) option" where
  "prune_candidate events seq =
     (case elem_at events seq of
        Some ev \<Rightarrow> (case ev_data ev of ToolResult d \<Rightarrow> Some (seq, d) | _ \<Rightarrow> None)
      | None \<Rightarrow> None)"

definition prune_candidates :: "session_event list \<Rightarrow> nat list \<Rightarrow> (nat \<times> tool_result_data) list" where
  "prune_candidates events nodes = List.map_filter (prune_candidate events) nodes"

text \<open>\<open>content: [{ ...result, content }]\<close>.\<close>

definition with_content :: "tool_result_data \<Rightarrow> string \<Rightarrow> bool option \<Rightarrow> content_block list \<Rightarrow> tool_result_data" where
  "with_content d callId isError content =
     d\<lparr>tr_message := (tr_message d)\<lparr>m_content := [ToolResultBlock callId content isError]\<rparr>\<rparr>"

definition prune_one ::
    "(jsnum \<Rightarrow> string) \<Rightarrow> (nat \<Rightarrow> nat) \<Rightarrow> prune_config \<Rightarrow> session \<Rightarrow> nat \<times> tool_result_data
     \<Rightarrow> session \<times> (prune_error + pruned_entry option)" where
  "prune_one decimal clock config s candidate =
     (let (seq, d) = candidate in
      case elem_at (m_content (tr_message d)) 0 of
        Some (ToolResultBlock callId result isError) \<Rightarrow>
          (case pruneContent config result of
             Inl e \<Rightarrow> (s, Inl e)
           | Inr None \<Rightarrow> (s, Inr None)
           | Inr (Some content) \<Rightarrow>
               (case session_append s (clock (length (s_log s)))
                       (CompactionPrune seq seq [seq] (estimateMessage decimal (tr_message d))) no_intent of
                  Inl e \<Rightarrow> (s, Inl (PruneSession e))
                | Inr (s1, _) \<Rightarrow>
                    (case session_append s1 (clock (length (s_log s1)))
                            (ToolResult (with_content d callId isError content))
                            (replacing seq seq [seq]) of
                       Inl e \<Rightarrow> (s1, Inl (PruneSession e))
                     | Inr (s2, replacement) \<Rightarrow>
                         (s2, Inr (Some
                           \<lparr>pe_originalSeq = seq, pe_replacementSeq = ev_seq replacement,
                            pe_callId = source_callId (m_source (tr_message d)),
                            pe_charsBefore = measureContent result, pe_charsAfter = measureContent content\<rparr>)))))
      | _ \<Rightarrow> (s, Inl (ResultContentUndefined seq)))"

fun prune_all ::
    "(jsnum \<Rightarrow> string) \<Rightarrow> (nat \<Rightarrow> nat) \<Rightarrow> prune_config \<Rightarrow> session \<Rightarrow> (nat \<times> tool_result_data) list
     \<Rightarrow> session \<times> (prune_error + pruned_entry list)" where
  "prune_all decimal clock config s [] = (s, Inr [])"
| "prune_all decimal clock config s (c # cs) =
     (case prune_one decimal clock config s c of
        (s', Inl e) \<Rightarrow> (s', Inl e)
      | (s', Inr entry) \<Rightarrow>
          (case prune_all decimal clock config s' cs of
             (s'', Inl e) \<Rightarrow> (s'', Inl e)
           | (s'', Inr entries) \<Rightarrow> (s'', Inr ((case entry of None \<Rightarrow> [] | Some x \<Rightarrow> [x]) @ entries))))"

text \<open>\<open>pruned\<close> and \<open>charsRemoved\<close>.\<close>

definition pruneSession ::
    "(jsnum \<Rightarrow> string) \<Rightarrow> (nat \<Rightarrow> nat) \<Rightarrow> prune_config \<Rightarrow> session
     \<Rightarrow> session \<times> (prune_error + pruned_entry list \<times> nat)" where
  "pruneSession decimal clock config s =
     (case session_surface s of
        Inl e \<Rightarrow> (s, Inl (PruneSession e))
      | Inr (s1, st) \<Rightarrow>
          (case prune_all decimal clock config s1 (prune_candidates (s_log s1) (sf_nodes st)) of
             (s2, Inl e) \<Rightarrow> (s2, Inl e)
           | (s2, Inr entries) \<Rightarrow>
               (s2, Inr (entries, sum_list (map (\<lambda>e. pe_charsBefore e - pe_charsAfter e) entries)))))"

section \<open>What pruning one result does\<close>

definition all_text :: "content_block list \<Rightarrow> string" where
  "all_text blocks = concat (map text_chars blocks)"

lemma measure_all_text: "measureContent blocks = length (all_text blocks)"
proof (induction blocks)
  case Nil
  then show ?case by (simp add: measureContent_def all_text_def)
next
  case (Cons b bs)
  then show ?case by (cases b) (simp_all add: measureContent_def all_text_def codePointLength_def)
qed

lemma all_text_simps [simp]:
  "all_text [] = []" "all_text (b # bs) = text_chars b @ all_text bs"
  by (simp_all add: all_text_def)

lemma marker_nonempty [simp]: "PRUNE_MARKER \<noteq> []"
  by (simp add: PRUNE_MARKER_def)

lemma prune_loop_other:
  "\<not> is_text b \<Longrightarrow> prune_loop rs re c m (b # bs) = (b # fst (prune_loop rs re c m bs), snd (prune_loop rs re c m bs))"
  by (cases b) (simp_all add: split_beta)

lemma take_min_length: "take (min (length p) n) p = take n p" "drop (min (length p) n) p = drop n p"
  by (cases "length p \<le> n"; simp add: min_def)+

lemma prune_loop_text:
  "prune_loop (int h) (int re) c m (TextBlock p # bs) =
     (let marker = (if c < re \<and> h < c + length p \<and> \<not> m then PRUNE_MARKER else []);
          t = take (h - c) p @ marker @ drop (re - c) p;
          rest = prune_loop (int h) (int re) (c + length p) (m \<or> c < re \<and> h < c + length p) bs
      in (if t \<noteq> [] then TextBlock t # fst rest else fst rest, snd rest))"
proof -
  have he: "nat (min (int (length p)) (max 0 (int h - int c))) = min (length p) (h - c)" by linarith
  have te: "nat (min (int (length p)) (max 0 (int re - int c))) = min (length p) (re - c)" by linarith
  define q where "q = (c < re \<and> h < c + length p)"
  have inter: "(int c < int re \<and> int h < int (c + length p)) = q" by (simp only: q_def of_nat_less_iff)
  show ?thesis
    unfolding prune_loop.simps Let_def split_beta he te take_min_length length_greater_0_conv inter q_def [symmetric]
    by (cases m; cases q; simp add: q_def [symmetric])
qed

text \<open>After the marker only the kept end of the text is left.\<close>

lemma prune_loop_after:
  assumes "h < c"
  shows "snd (prune_loop (int h) (int re) c True bs)
    \<and> all_text (fst (prune_loop (int h) (int re) c True bs)) = drop (re - c) (all_text bs)
    \<and> filter (\<lambda>b. \<not> is_text b) (fst (prune_loop (int h) (int re) c True bs)) = filter (\<lambda>b. \<not> is_text b) bs"
  using assms
proof (induction bs arbitrary: c)
  case Nil
  then show ?case by simp
next
  case (Cons b bs)
  show ?case
  proof (cases "is_text b")
    case False
    then have "text_chars b = []" by (cases b) auto
    with Cons.IH [OF Cons.prems] False show ?thesis by (simp add: prune_loop_other)
  next
    case True
    then obtain p where b: "b = TextBlock p" by (cases b) auto
    have "h < c + length p" using Cons.prems by simp
    from Cons.IH [OF this] Cons.prems show ?thesis
      unfolding b prune_loop_text by (simp add: Let_def drop_append)
  qed
qed

lemma prune_loop_before:
  assumes "c \<le> h" and "h < re" and "h < c + length (all_text bs)"
  shows "snd (prune_loop (int h) (int re) c False bs)
    \<and> all_text (fst (prune_loop (int h) (int re) c False bs))
        = take (h - c) (all_text bs) @ PRUNE_MARKER @ drop (re - c) (all_text bs)
    \<and> filter (\<lambda>b. \<not> is_text b) (fst (prune_loop (int h) (int re) c False bs)) = filter (\<lambda>b. \<not> is_text b) bs"
  using assms(1, 3)
proof (induction bs arbitrary: c)
  case Nil
  then show ?case by simp
next
  case (Cons b bs)
  show ?case
  proof (cases "is_text b")
    case False
    then have "text_chars b = []" by (cases b) auto
    with Cons.IH [of c] Cons.prems False show ?thesis by (simp add: prune_loop_other)
  next
    case True
    then obtain p where b: "b = TextBlock p" by (cases b) auto
    have cre: "c < re" using Cons.prems(1) assms(2) by simp
    show ?thesis
    proof (cases "h < c + length p")
      case True
      have hc: "h - c - length p = 0" using True by simp
      from prune_loop_after [OF True] cre True hc show ?thesis
        unfolding b prune_loop_text by (simp add: Let_def drop_append)
    next
      case False
      then have le: "c + length p \<le> h" by simp
      have lt: "h < c + length p + length (all_text bs)" using Cons.prems(2) b by simp
      have short: "drop (re - c) p = []" "take (h - c) p = p" "(c < re \<and> h < c + length p) = False"
        "h - (c + length p) = h - c - length p" "re - (c + length p) = re - c - length p"
        using le assms(2) by auto
      have len: "length p \<le> h - c" "length p \<le> re - c" using le assms(2) by linarith+
      from Cons.IH [OF le lt] len show ?thesis
        unfolding b prune_loop_text Let_def short(1-3) simp_thms
        by (cases "p = []") (simp_all add: drop_append)
    qed
  qed
qed

text \<open>The two defensive checks of \<open>pruneContent\<close> never fail under a resolved configuration.\<close>

lemma pruneContent_spec:
  assumes ok: "prune_config_ok c" and big: "pc_thresholdChars c < measureContent bs"
  shows "\<exists>out. pruneContent c bs = Inr (Some out)
    \<and> all_text out = take (pc_headChars c) (all_text bs) @ PRUNE_MARKER
        @ drop (measureContent bs - pc_tailChars c) (all_text bs)
    \<and> filter (\<lambda>b. \<not> is_text b) out = filter (\<lambda>b. \<not> is_text b) bs
    \<and> measureContent out = pc_headChars c + length PRUNE_MARKER + pc_tailChars c"
proof -
  let ?h = "pc_headChars c" and ?T = "measureContent bs" and ?t = "pc_tailChars c"
  let ?out = "fst (prune_loop (int ?h) (int (?T - ?t)) 0 False bs)"
  have bounds: "?h + length PRUNE_MARKER + ?t \<le> pc_thresholdChars c" using ok by (simp add: prune_config_ok_def)
  then have re: "int ?T - int ?t = int (?T - ?t)" and hre: "?h < ?T - ?t" and hT: "?h < 0 + length (all_text bs)"
    using big length_greater_0_conv [THEN iffD2, OF marker_nonempty] by (auto simp: measure_all_text)
  from prune_loop_before [of 0 ?h "?T - ?t" bs, OF _ hre hT] have
    loop: "snd (prune_loop (int ?h) (int (?T - ?t)) 0 False bs)"
      "all_text ?out = take ?h (all_text bs) @ PRUNE_MARKER @ drop (?T - ?t) (all_text bs)"
      "filter (\<lambda>b. \<not> is_text b) ?out = filter (\<lambda>b. \<not> is_text b) bs" by auto
  have "length (all_text ?out) = min (length (all_text bs)) ?h + (length PRUNE_MARKER + (length (all_text bs) - (?T - ?t)))"
    by (simp only: loop(2) length_append length_take length_drop)
  moreover have "min (length (all_text bs)) ?h = ?h" "length (all_text bs) - (?T - ?t) = ?t"
    using hT bounds big by (simp_all add: measure_all_text)
  ultimately have after: "measureContent ?out = ?h + length PRUNE_MARKER + ?t"
    unfolding measure_all_text by linarith
  have fits: "\<not> ?T \<le> pc_thresholdChars c"
    "\<not> (measureContent ?out > pc_thresholdChars c \<or> measureContent ?out \<ge> ?T)"
    using big bounds after by linarith+
  have "pruneContent c bs = Inr (Some ?out)"
    unfolding pruneContent_def Let_def split_beta re using loop(1) fits by simp
  with loop(2, 3) after show ?thesis by blast
qed

lemma pruneContent_small: "measureContent bs \<le> pc_thresholdChars c \<Longrightarrow> pruneContent c bs = Inr None"
  by (simp add: pruneContent_def)

end
