(* ===== verification/Compaction_Region.thy ===== *)
theory Compaction_Region
  imports Compaction_Trace Tool_Pairing Tool_Pruner
begin

text \<open>
  The compaction transaction (packages/compaction/compaction-basic/src/region.ts) with the framing of its
  checkpoint (summarizer.ts): the choice of a range, its validation, the pricing and replay input, the
  commit of summary and replacement, and the closing of the bracket on every path.

  The operations act on a session, the pairing cache of that session and the state the token meter keeps
  for it, and return a result or an error with the host they leave. What runs while the code awaits the
  summarizer or the flush is a parameter: a host transformer that also returns the outcome. So is the
  text of a diagnostic (\<open>render\<close>, the code's \<open>errorChain\<close>): only its presence is read.
\<close>

section \<open>Effects\<close>

record compaction_host =
  ch_session :: session
  ch_pairing :: "balance_cache option"
  ch_meter :: "replay_state option"

datatype summarizer_error =
    NoSummaryTarget
  | StreamThrew string
  | StreamFailed llm_failure  \<comment> \<open>the stream finished with an error or an abort\<close>
  | SummaryTruncated
  | SummaryHasImage
  | SummaryHasNoText
  | SummaryAssembly assembler_error

datatype manual_code = ManualBusy | ManualCancelled | ManualChanged | ManualSummary | ManualCommit | ManualPersistence

datatype compaction_error =
    SurfaceMismatch  \<comment> \<open>the meter's surface is not the session's\<close>
  | StartNotFound nat
  | EndNotFound nat
  | StartAfterEnd nat nat
  | StartNotBalanced nat
  | EndNotBalanced nat
  | NoOpenTurn
  | SummaryNotSmaller nat nat
  | SurfaceChanged
  | PairingFailed pairing_error
  | MeterFailed meter_error
  | SessionFailed session_error
  | SummarizerFailed summarizer_error
  | FlushFailed string
  | AbortReason
  | ManualError manual_code
  | PruneFailed prune_error
  | ModelInfoFailed string
  | TargetPressureConfig string  \<comment> \<open>the target key\<close>
  | StillAboveThreshold nat int

type_synonym 'a act = "compaction_host \<Rightarrow> compaction_host \<times> (compaction_error + 'a)"

definition ret_act :: "'a \<Rightarrow> 'a act" where
  "ret_act a = (\<lambda>h. (h, Inr a))"

definition fail_act :: "compaction_error \<Rightarrow> 'a act" where
  "fail_act e = (\<lambda>h. (h, Inl e))"

definition bind_act :: "'a act \<Rightarrow> ('a \<Rightarrow> 'b act) \<Rightarrow> 'b act" where
  "bind_act m k = (\<lambda>h. case m h of (h', Inl e) \<Rightarrow> (h', Inl e) | (h', Inr a) \<Rightarrow> k a h')"

definition guard_act :: "bool \<Rightarrow> compaction_error \<Rightarrow> unit act" where
  "guard_act b e = (if b then ret_act () else fail_act e)"

lemma act_simps [simp]:
  "ret_act a h = (h, Inr a)" "fail_act e h = (h, Inl e)"
  "guard_act b e h = (h, if b then Inr () else Inl e)"
  by (simp_all add: ret_act_def fail_act_def guard_act_def)

lemma bind_act_simps:
  "m h = (h', Inl e) \<Longrightarrow> bind_act m k h = (h', Inl e)"
  "m h = (h', Inr a) \<Longrightarrow> bind_act m k h = k a h'"
  by (simp_all add: bind_act_def)

lemma bind_act_Inr: "bind_act m k h = (h', Inr b) \<longleftrightarrow> (\<exists>h1 a. m h = (h1, Inr a) \<and> k a h1 = (h', Inr b))"
  by (auto simp: bind_act_def split: prod.splits sum.splits)

text \<open>The seams: \<open>session.surface\<close>, the pairing questions, \<open>meter.measure(session)\<close>, \<open>session.append\<close>.\<close>

definition surface_act :: "surface_state act" where
  "surface_act = (\<lambda>h.
     case session_surface (ch_session h) of
       Inl e \<Rightarrow> (h, Inl (SessionFailed e))
     | Inr (s, st) \<Rightarrow> (h\<lparr>ch_session := s\<rparr>, Inr st))"

definition pairing_act :: "nat \<Rightarrow> nat \<Rightarrow> bool act" where
  "pairing_act offset seq =
     bind_act surface_act (\<lambda>st h.
       case toolPairing offset (s_log (ch_session h)) st (ch_pairing h) seq of
         (cache, r) \<Rightarrow> (h\<lparr>ch_pairing := cache\<rparr>, map_error PairingFailed r))"

definition measure_act :: "(jsnum \<Rightarrow> string) \<Rightarrow> token_measurement act" where
  "measure_act decimal = (\<lambda>h.
     case meter_measure decimal (s_log (ch_session h)) (ch_meter h) None of
       (state, r) \<Rightarrow> (h\<lparr>ch_meter := Some state\<rparr>, map_error MeterFailed r))"

definition append_act :: "(nat \<Rightarrow> nat) \<Rightarrow> event_data \<Rightarrow> surface_intent \<Rightarrow> session_event act" where
  "append_act clock d opts = (\<lambda>h.
     case session_append (ch_session h) (clock (length (s_log (ch_session h)))) d opts of
       Inl e \<Rightarrow> (h, Inl (SessionFailed e))
     | Inr (s, ev) \<Rightarrow> (h\<lparr>ch_session := s\<rparr>, Inr ev))"

definition header_act :: "epoch_header option act" where
  "header_act = (\<lambda>h. case requestHeader (ch_session h) of (s, hdr) \<Rightarrow> (h\<lparr>ch_session := s\<rparr>, Inr hdr))"

section \<open>Selecting a range\<close>

text \<open>
  The first loop, over the prices from the last node down: \<open>keep_from tokens retain accumulated index\<close> has
  \<open>index\<close> nodes left to visit and returns \<open>keepFromIdx\<close>.
\<close>

fun keep_from :: "nat list \<Rightarrow> nat \<Rightarrow> nat \<Rightarrow> nat \<Rightarrow> nat" where
  "keep_from tokens retain accumulated 0 = 0"
| "keep_from tokens retain accumulated (Suc index) =
     (let accumulated' = accumulated + tokens ! index in
      if accumulated' \<ge> retain then index else keep_from tokens retain accumulated' index)"

text \<open>The second loop: back to a cut no unanswered call crosses.\<close>

fun balanced_cut :: "nat list \<Rightarrow> nat \<Rightarrow> nat act" where
  "balanced_cut ns 0 = ret_act 0"
| "balanced_cut ns (Suc k) =
     bind_act (pairing_act 0 (ns ! Suc k)) (\<lambda>balanced. if balanced then ret_act (Suc k) else balanced_cut ns k)"

definition selectCompactableRange :: "token_measurement \<Rightarrow> nat \<Rightarrow> (nat \<times> nat) option act" where
  "selectCompactableRange measurement retainTokens =
     (let pricedNodes = tm_nodes measurement in
      if pricedNodes = [] then ret_act None
      else bind_act surface_act (\<lambda>st.
        let ns = sf_nodes st in
        bind_act (guard_act (ns = map tn_seq pricedNodes) SurfaceMismatch) (\<lambda>_.
        let keepFromIdx = keep_from (map tn_tokens pricedNodes) retainTokens 0 (length pricedNodes) in
        if keepFromIdx = 0 then ret_act None
        else bind_act (balanced_cut ns keepFromIdx) (\<lambda>k.
          ret_act (if k = 0 then None else Some (ns ! 0, ns ! (k - 1)))))))"

section \<open>Validation and preparation\<close>

record surface_selection =
  ss_start :: nat
  ss_end :: nat
  ss_startIdx :: nat
  ss_endIdx :: nat
  ss_shadowedSeqs :: "nat list"

definition validateSurfaceRegion :: "nat \<Rightarrow> nat \<Rightarrow> surface_selection act" where
  "validateSurfaceRegion start end' =
     bind_act surface_act (\<lambda>st.
       let ns = sf_nodes st in
       case index_of start ns of
         None \<Rightarrow> fail_act (StartNotFound start)
       | Some i \<Rightarrow>
           (case index_of end' ns of
              None \<Rightarrow> fail_act (EndNotFound end')
            | Some j \<Rightarrow>
                if i > j then fail_act (StartAfterEnd start end')
                else
                  bind_act (pairing_act 0 (ns ! i)) (\<lambda>b0.
                  bind_act (guard_act b0 (StartNotBalanced start)) (\<lambda>_.
                  bind_act (pairing_act 1 (ns ! j)) (\<lambda>b1.
                  bind_act (guard_act b1 (EndNotBalanced end')) (\<lambda>_.
                    ret_act \<lparr>ss_start = start, ss_end = end', ss_startIdx = i, ss_endIdx = j,
                             ss_shadowedSeqs = spliced_out ns i (j - i + 1)\<rparr>))))))"

record summarization_input =
  si_system :: "string option"
  si_tools :: "tool_schema list option"
  si_messages :: "message list"

definition buildSummarizationInput :: "nat list \<Rightarrow> summarization_input act" where
  "buildSummarizationInput shadowedSeqs =
     bind_act header_act (\<lambda>hdr h.
       (h, Inr \<lparr>si_system = (case hdr of None \<Rightarrow> None | Some e \<Rightarrow> eh_system e),
                si_tools = (case hdr of None \<Rightarrow> None | Some e \<Rightarrow> eh_tools e),
                si_messages = derive_nodes (s_log (ch_session h)) shadowedSeqs\<rparr>))"

record prepared_compaction = surface_selection +
  pp_measurement :: token_measurement
  pp_selectedNodes :: "token_node list"
  pp_shadowedTokenCount :: nat
  pp_input :: summarization_input

definition prepareCompaction :: "(jsnum \<Rightarrow> string) \<Rightarrow> surface_selection \<Rightarrow> prepared_compaction act" where
  "prepareCompaction decimal sel =
     bind_act (measure_act decimal) (\<lambda>measurement.
       let selected = spliced_out (tm_nodes measurement) (ss_startIdx sel) (ss_endIdx sel + 1 - ss_startIdx sel) in
       if map tn_seq selected \<noteq> ss_shadowedSeqs sel then fail_act SurfaceChanged
       else bind_act (buildSummarizationInput (ss_shadowedSeqs sel)) (\<lambda>input.
         ret_act (surface_selection.extend sel
           \<lparr>pp_measurement = measurement, pp_selectedNodes = selected,
            pp_shadowedTokenCount = sum_list (map tn_tokens selected), pp_input = input\<rparr>)))"

section \<open>Summary and commit\<close>

record summary_result =
  su_summary :: "content_block list"
  su_provider :: string
  su_model :: string
  su_maxTokens :: "nat option"
  su_usage :: "token_usage option"
  su_rawOutput :: "content_block list option"
  su_llmStreamCall :: bool

definition SUMMARY_OPEN_TAG :: string where
  "SUMMARY_OPEN_TAG = ''<compacted-summary>''"

definition SUMMARY_CLOSE_TAG :: string where
  "SUMMARY_CLOSE_TAG = ''</compacted-summary>''"

definition CHECKPOINT_PREAMBLE :: string where
  "CHECKPOINT_PREAMBLE = ''This is an automatically generated checkpoint condensing an earlier span of the conversation to free up context. Treat the captured context as established background and build on it without restating it. Continue the task directly from the messages that follow, without acknowledging this checkpoint.''"

definition frameSummary :: "content_block list \<Rightarrow> content_block list" where
  "frameSummary summary =
     [TextBlock (CHECKPOINT_PREAMBLE @ [CHR 0x0A, CHR 0x0A] @ SUMMARY_OPEN_TAG)] @ summary
     @ [TextBlock SUMMARY_CLOSE_TAG]"

text \<open>The checkpoint; its fresh message id is given.\<close>

definition checkpointMessage ::
    "string \<Rightarrow> string \<Rightarrow> string option \<Rightarrow> summary_result \<Rightarrow> message" where
  "checkpointMessage messageId compactionId sourceCommandId result =
     \<lparr>m_id = messageId, m_role = UserRole, m_content = frameSummary (su_summary result),
      m_source = compactCheckpointSource compactionId sourceCommandId\<rparr>"

record compaction_result =
  cr_compactionId :: string
  cr_sourceCommandId :: "string option"
  cr_startSeq :: nat
  cr_summarySeq :: nat
  cr_endSeq :: nat
  cr_summary :: "content_block list"
  cr_rangeStart :: nat
  cr_rangeEnd :: nat
  cr_shadowedSeqs :: "nat list"
  cr_shadowedTokenCount :: nat

text \<open>Who the transaction belongs to, and what must survive the await.\<close>

datatype compaction_owner = CurrentTurn | Standalone
datatype stability_rule = WholeSurface | SelectedSpan

text \<open>
  The inputs of one call: its options, the fresh identities, whether the signal is aborted at the three
  points where a standalone call looks (entry, after the summary, at the end), and what happens at the
  two awaits.
\<close>

record compaction_call =
  cl_owner :: compaction_owner
  cl_stability :: stability_rule
  cl_sourceCommandId :: "string option"
  cl_compactionId :: string
  cl_messageId :: string
  cl_abortedAtEntry :: bool
  cl_abortedAfterSummary :: bool
  cl_abortedAtEnd :: bool
  cl_summarize :: "summarization_input \<Rightarrow> summary_result act"
  cl_flush :: "(unit act) option"

definition throwIfAborted :: "compaction_call \<Rightarrow> bool \<Rightarrow> unit act" where
  "throwIfAborted call aborted = guard_act (\<not> (cl_owner call = Standalone \<and> aborted)) AbortReason"

text \<open>\<open>summarizeCompaction\<close>: the summary and the checkpoint that frames it.\<close>

definition summarizeCompaction ::
    "(jsnum \<Rightarrow> string) \<Rightarrow> compaction_call \<Rightarrow> prepared_compaction \<Rightarrow> (summary_result \<times> message) act" where
  "summarizeCompaction decimal call prepared =
     bind_act (cl_summarize call (pp_input prepared)) (\<lambda>result.
       let checkpoint = checkpointMessage (cl_messageId call) (cl_compactionId call) (cl_sourceCommandId call) result;
           framed = estimateMessage decimal checkpoint
       in if framed \<ge> pp_shadowedTokenCount prepared
          then fail_act (SummaryNotSmaller framed (pp_shadowedTokenCount prepared))
          else ret_act (result, checkpoint))"

definition assertWholeSurfaceUnchanged :: "(jsnum \<Rightarrow> string) \<Rightarrow> prepared_compaction \<Rightarrow> unit act" where
  "assertWholeSurfaceUnchanged decimal prepared =
     bind_act (measure_act decimal) (\<lambda>current.
       guard_act (tm_nodes current = tm_nodes (pp_measurement prepared)) SurfaceChanged)"

text \<open>\<open>try { ... } catch { throw new SurfaceChangedError }\<close> around the revalidation.\<close>

definition as_surface_change :: "'a act \<Rightarrow> 'a act" where
  "as_surface_change m = (\<lambda>h. case m h of (h', Inl e) \<Rightarrow> (h', Inl SurfaceChanged) | (h', Inr a) \<Rightarrow> (h', Inr a))"

definition assertSelectedSpanStable :: "(jsnum \<Rightarrow> string) \<Rightarrow> prepared_compaction \<Rightarrow> unit act" where
  "assertSelectedSpanStable decimal prepared =
     bind_act (as_surface_change (validateSurfaceRegion (ss_start prepared) (ss_end prepared))) (\<lambda>current.
     bind_act (guard_act (ss_shadowedSeqs current = ss_shadowedSeqs prepared) SurfaceChanged) (\<lambda>_.
     bind_act (measure_act decimal) (\<lambda>m.
       guard_act (spliced_out (tm_nodes m) (ss_startIdx current) (ss_endIdx current + 1 - ss_startIdx current)
                  = pp_selectedNodes prepared) SurfaceChanged)))"

definition assertStable :: "(jsnum \<Rightarrow> string) \<Rightarrow> stability_rule \<Rightarrow> prepared_compaction \<Rightarrow> unit act" where
  "assertStable decimal rule =
     (case rule of WholeSurface \<Rightarrow> assertWholeSurfaceUnchanged decimal | SelectedSpan \<Rightarrow> assertSelectedSpanStable decimal)"

definition summary_data :: "compaction_call \<Rightarrow> prepared_compaction \<Rightarrow> summary_result \<Rightarrow> compaction_summary" where
  "summary_data call prepared result =
     \<lparr>cs_compactionId = cl_compactionId call, cs_sourceCommandId = cl_sourceCommandId call,
      cs_summary = su_summary result, cs_rangeStart = ss_start prepared, cs_rangeEnd = ss_end prepared,
      cs_shadowedSeqs = ss_shadowedSeqs prepared, cs_shadowedTokenCount = pp_shadowedTokenCount prepared,
      cs_provider = su_provider result, cs_model = su_model result, cs_maxTokens = su_maxTokens result,
      cs_usage = su_usage result, cs_rawOutput = su_rawOutput result, cs_llmStreamCall = su_llmStreamCall result\<rparr>"

text \<open>The pending result, whose \<open>endSeq\<close> \<open>completeCompaction\<close> fills in.\<close>

definition commitCompactionBody ::
    "(nat \<Rightarrow> nat) \<Rightarrow> compaction_call \<Rightarrow> session_event \<Rightarrow> prepared_compaction \<Rightarrow> summary_result \<Rightarrow> message
     \<Rightarrow> (nat \<Rightarrow> compaction_result) act" where
  "commitCompactionBody clock call startEvent prepared result checkpoint =
     bind_act (append_act clock (CompactionSummary (summary_data call prepared result)) no_intent) (\<lambda>summaryEvent.
     bind_act (append_act clock (UserMessage checkpoint)
        (replacing (ss_start prepared) (ss_end prepared)
           ([ev_seq startEvent, ev_seq summaryEvent] @ ss_shadowedSeqs prepared))) (\<lambda>_.
       ret_act (\<lambda>endSeq.
         \<lparr>cr_compactionId = cl_compactionId call, cr_sourceCommandId = cl_sourceCommandId call,
          cr_startSeq = ev_seq startEvent, cr_summarySeq = ev_seq summaryEvent, cr_endSeq = endSeq,
          cr_summary = su_summary result, cr_rangeStart = ss_start prepared, cr_rangeEnd = ss_end prepared,
          cr_shadowedSeqs = ss_shadowedSeqs prepared, cr_shadowedTokenCount = pp_shadowedTokenCount prepared\<rparr>)))"

section \<open>The transaction\<close>

datatype failure_stage = StageSummary | StageCommit

definition throwManualFailure :: "failure_stage \<Rightarrow> compaction_error \<Rightarrow> compaction_error" where
  "throwManualFailure stage e =
     (if stage = StageCommit then ManualError ManualCommit
      else if e = SurfaceChanged then ManualError ManualChanged
      else ManualError ManualSummary)"

text \<open>The entry checks and the owner of the bracket.\<close>

definition compaction_entry :: "compaction_call \<Rightarrow> nat \<Rightarrow> nat \<Rightarrow> (surface_selection \<times> nat option) act" where
  "compaction_entry call start end' =
     bind_act (throwIfAborted call (cl_abortedAtEntry call)) (\<lambda>_.
     bind_act (validateSurfaceRegion start end') (\<lambda>sel h.
       let entry = inspectCompactionEntryState (s_log (ch_session h)) in
       if \<not> compaction_inactive entry then (h, Inl (ManualError ManualBusy))
       else case cl_owner call of
         Standalone \<Rightarrow>
           if es_openTurn entry \<noteq> None then (h, Inl (ManualError ManualBusy)) else (h, Inr (sel, None))
       | CurrentTurn \<Rightarrow>
           if es_openTurn entry = None then (h, Inl NoOpenTurn) else (h, Inr (sel, es_openTurn entry))))"

text \<open>The part of the \<open>try\<close> block up to \<open>stage = 'commit'\<close>.\<close>

definition summarize_stage ::
    "(jsnum \<Rightarrow> string) \<Rightarrow> compaction_call \<Rightarrow> surface_selection
     \<Rightarrow> (prepared_compaction \<times> summary_result \<times> message) act" where
  "summarize_stage decimal call sel =
     bind_act (prepareCompaction decimal sel) (\<lambda>prepared.
     bind_act (summarizeCompaction decimal call prepared) (\<lambda>(result, checkpoint).
     bind_act (throwIfAborted call (cl_abortedAfterSummary call)) (\<lambda>_.
     bind_act (assertStable decimal (cl_stability call) prepared) (\<lambda>_.
       ret_act (prepared, result, checkpoint)))))"

text \<open>
  The whole \<open>try\<close> and \<open>catch\<close>: the host, whether the bracket was closed, and the failure or the result.
\<close>

definition close_failed ::
    "(nat \<Rightarrow> nat) \<Rightarrow> (compaction_error \<Rightarrow> string) \<Rightarrow> compaction_call \<Rightarrow> nat option \<Rightarrow> failure_stage
     \<Rightarrow> compaction_error \<Rightarrow> compaction_host
     \<Rightarrow> compaction_host \<times> bool \<times> ((failure_stage \<times> compaction_error) + compaction_result)" where
  "close_failed clock render call turn stage e h =
     (case append_act clock (CompactionEnd (cl_compactionId call) (cl_sourceCommandId call) turn (Some (render e)))
             no_intent h of
        (h', Inl e') \<Rightarrow> (h', False, Inl (StageCommit, e'))
      | (h', Inr _) \<Rightarrow> (h', True, Inl (stage, e)))"

definition compaction_body ::
    "(jsnum \<Rightarrow> string) \<Rightarrow> (nat \<Rightarrow> nat) \<Rightarrow> (compaction_error \<Rightarrow> string) \<Rightarrow> compaction_call
     \<Rightarrow> surface_selection \<Rightarrow> nat option \<Rightarrow> session_event \<Rightarrow> compaction_host
     \<Rightarrow> compaction_host \<times> bool \<times> ((failure_stage \<times> compaction_error) + compaction_result)" where
  "compaction_body decimal clock render call sel turn startEvent h =
     (case summarize_stage decimal call sel h of
        (h1, Inl e) \<Rightarrow> close_failed clock render call turn StageSummary e h1
      | (h1, Inr (prepared, result, checkpoint)) \<Rightarrow>
          (case commitCompactionBody clock call startEvent prepared result checkpoint h1 of
             (h2, Inl e) \<Rightarrow> close_failed clock render call turn StageCommit e h2
           | (h2, Inr pending) \<Rightarrow>
               (case append_act clock (CompactionEnd (cl_compactionId call) (cl_sourceCommandId call) turn None)
                       no_intent h2 of
                  (h3, Inl e) \<Rightarrow> (h3, False, Inl (StageCommit, e))
                | (h3, Inr endEvent) \<Rightarrow> (h3, True, Inr (pending (ev_seq endEvent))))))"

definition flush_act :: "compaction_call \<Rightarrow> bool \<Rightarrow> compaction_host \<Rightarrow> compaction_host \<times> bool" where
  "flush_act call ended h =
     (case (ended, cl_flush call) of
        (True, Some flush) \<Rightarrow> (case flush h of (h', Inl _) \<Rightarrow> (h', True) | (h', Inr _) \<Rightarrow> (h', False))
      | _ \<Rightarrow> (h, False))"

definition compactSurfaceRegion ::
    "(jsnum \<Rightarrow> string) \<Rightarrow> (nat \<Rightarrow> nat) \<Rightarrow> (compaction_error \<Rightarrow> string) \<Rightarrow> compaction_call \<Rightarrow> nat \<Rightarrow> nat
     \<Rightarrow> compaction_result act" where
  "compactSurfaceRegion decimal clock render call start end' =
     bind_act (compaction_entry call start end') (\<lambda>(sel, turn).
     bind_act (append_act clock (CompactionStart (cl_compactionId call) (cl_sourceCommandId call) turn) no_intent)
       (\<lambda>startEvent h.
       case compaction_body decimal clock render call sel turn startEvent h of
         (h1, ended, outcome) \<Rightarrow>
           (case flush_act call ended h1 of
              (h2, flushFailed) \<Rightarrow>
                if cl_owner call = Standalone \<and> cl_abortedAtEnd call then (h2, Inl AbortReason)
                else case outcome of
                  Inl (stage, e) \<Rightarrow>
                    (h2, Inl (if cl_owner call = Standalone then throwManualFailure stage e else e))
                | Inr result \<Rightarrow> if flushFailed then (h2, Inl (ManualError ManualPersistence)) else (h2, Inr result))))"

end
