(* ===== verification/Pruner_Laws.thy ===== *)
theory Pruner_Laws
  imports Tool_Pruner
begin

text \<open>
  A pruning pass over a session: it never fails on well-formed results, every result of the new surface is
  within budget, the order of the surface is kept, and the log stays metered.
\<close>

section \<open>Well-formed results\<close>

definition result_wf :: "tool_result_data \<Rightarrow> bool" where
  "result_wf d \<longleftrightarrow>
     (case elem_at (m_content (tr_message d)) 0 of Some (ToolResultBlock _ _ _) \<Rightarrow> True | _ \<Rightarrow> False)
     \<and> json_wf (blanked_result d)"

definition result_chars :: "session_event \<Rightarrow> nat" where
  "result_chars ev =
     (case ev_data ev of
        ToolResult d \<Rightarrow>
          (case elem_at (m_content (tr_message d)) 0 of Some (ToolResultBlock _ c _) \<Rightarrow> measureContent c | _ \<Rightarrow> 0)
      | _ \<Rightarrow> 0)"

lemma result_wfE:
  assumes "result_wf d"
  obtains i c e where "elem_at (m_content (tr_message d)) 0 = Some (ToolResultBlock i c e)" "json_wf (blanked_result d)"
  using assms by (auto simp: result_wf_def split: option.splits content_block.splits)

lemma with_content_first [simp]:
  "elem_at (m_content (tr_message (with_content d i e c))) 0 = Some (ToolResultBlock i c e)"
  by (simp add: with_content_def elem_at_def)

lemma blanked_with_content:
  "elem_at (m_content (tr_message d)) 0 = Some (ToolResultBlock i c e) \<Longrightarrow>
   blanked_result (with_content d i e c') = blanked_result d"
  by (simp add: blanked_result_def blank_block_def tool_result_json_with_def message_json_with_def with_content_def
      elem_at_def split: if_splits)

text \<open>A surface position before and after the pass: kept, or the same result with other content.\<close>

definition slot_kept :: "session_event list \<Rightarrow> session_event list \<Rightarrow> nat \<Rightarrow> nat \<Rightarrow> bool" where
  "slot_kept lg lg2 n n' \<longleftrightarrow>
     n' = n \<or> (\<exists>d i e c0 c. ev_data (lg ! n) = ToolResult d
       \<and> elem_at (m_content (tr_message d)) 0 = Some (ToolResultBlock i c0 e)
       \<and> ev_data (lg2 ! n') = ToolResult (with_content d i e c))"

lemma with_content_twice: "with_content (with_content d i e c) i' e' c' = with_content d i' e' c'"
  by (simp add: with_content_def)

lemma slot_kept_trans:
  assumes one: "slot_kept lg lg1 n n1" and two: "slot_kept lg1 lg2 n1 n2"
    and ext: "lg1 = lg @ xs" "lg2 = lg1 @ ys" and n: "n < length lg" "n1 < length lg1"
  shows "slot_kept lg lg2 n n2"
proof (cases "n1 = n")
  case True
  then have "lg1 ! n1 = lg ! n" using ext n by (simp add: nth_append)
  with two True show ?thesis by (auto simp: slot_kept_def)
next
  case False
  with one obtain d i e c0 c where d: "ev_data (lg ! n) = ToolResult d"
      "elem_at (m_content (tr_message d)) 0 = Some (ToolResultBlock i c0 e)"
    and d1: "ev_data (lg1 ! n1) = ToolResult (with_content d i e c)" by (auto simp: slot_kept_def)
  have "lg2 ! n1 = lg1 ! n1" using ext n by (simp add: nth_append)
  then consider "n2 = n1" | c' where "ev_data (lg2 ! n2) = ToolResult (with_content d i e c')"
    using two d1 by (auto simp: slot_kept_def with_content_twice)
  then show ?thesis
    using \<open>lg2 ! n1 = lg1 ! n1\<close> d d1 by cases (auto simp: slot_kept_def)
qed

lemma splice_one_all2:
  assumes "i < length ns" and "\<And>n. n \<in> set ns \<Longrightarrow> P n n" and "P (ns ! i) m"
  shows "list_all2 P ns (splice ns i 1 [m])"
proof -
  have "ns = take i ns @ [ns ! i] @ drop (i + 1) ns" using assms(1) by (simp add: id_take_nth_drop)
  moreover have "list_all2 P (take i ns) (take i ns)" "list_all2 P (drop (i + 1) ns) (drop (i + 1) ns)"
    using assms(2) by (auto intro!: list.rel_refl_strong dest: in_set_takeD in_set_dropD)
  ultimately show ?thesis
    unfolding splice_def using assms(3) by (metis list_all2_appendI list_all2_Cons list_all2_Nil)
qed

section \<open>One candidate\<close>

lemma prune_one_small:
  assumes "result_wf d" and "result_chars ev \<le> pc_thresholdChars cfg" and "ev_data ev = ToolResult d"
  shows "prune_one decimal clock cfg s (seq, d) = (s, Inr None)"
  using assms by (auto elim!: result_wfE simp: prune_one_def result_chars_def pruneContent_small)

lemma prune_one_big:
  assumes ok: "session_ok s" and cfg: "prune_config_ok cfg"
    and f: "foldSurface (s_log s) = Inr (st, reps)" and met: "metered decimal (s_log s) reps"
    and i: "i < length (sf_nodes st)" "sf_nodes st ! i = seq"
    and d: "ev_data (s_log s ! seq) = ToolResult d" "result_wf d"
    and big: "pc_thresholdChars cfg < result_chars (s_log s ! seq)"
    and small: "int (length (s_log s) + 1) \<le> max_safe_integer"
  obtains s' entry ev0 ev1 st' r where "prune_one decimal clock cfg s (seq, d) = (s', Inr (Some entry))" "session_ok s'"
    "s_log s' = s_log s @ [ev0, ev1]" "foldSurface (s_log s') = Inr (st', reps @ [r])"
    "metered decimal (s_log s') (reps @ [r])" "sf_nodes st' = splice (sf_nodes st) i 1 [length (s_log s) + 1]"
    "slot_kept (s_log s) (s_log s') seq (length (s_log s) + 1)"
    "result_chars ev1 \<le> pc_thresholdChars cfg" "pe_originalSeq entry = seq"
    "pe_replacementSeq entry = length (s_log s) + 1" "pe_charsAfter entry < pe_charsBefore entry"
proof -
  from d(2) obtain ci c e where c: "elem_at (m_content (tr_message d)) 0 = Some (ToolResultBlock ci c e)"
    and wf: "json_wf (blanked_result d)" by (rule result_wfE)
  have cbig: "pc_thresholdChars cfg < measureContent c" using big d(1) c by (simp add: result_chars_def)
  from pruneContent_spec [OF cfg cbig] obtain out where out: "pruneContent cfg c = Inr (Some out)"
    and len: "measureContent out = pc_headChars cfg + length PRUNE_MARKER + pc_tailChars cfg" by blast
  have fits: "measureContent out \<le> pc_thresholdChars cfg" using cfg len by (simp add: prune_config_ok_def)
  let ?n = "length (s_log s)" and ?d' = "with_content d ci e out"
  let ?p = "CompactionPrune seq seq [seq] (estimateMessage decimal (tr_message d))"
  let ?ev0 = "intended_event s (clock ?n) ?p no_intent"
  obtain s1 where a1: "session_append s (clock ?n) ?p no_intent = Inr (s1, ?ev0)" and ok1: "session_ok s1"
    and lg1: "s_log s1 = s_log s @ [?ev0]" and f1: "foldSurface (s_log s1) = Inr (st, reps)"
    by (rule append_off_surface [OF ok f, of ?p "clock ?n"])
      (simp_all add: isSurfaceEligibleType_def surface_event_types_def)
  let ?ev1 = "intended_event s1 (clock (length (s_log s1))) (ToolResult ?d') (replacing seq seq [seq])"
  have seq: "seq < ?n" using foldSurface_nodes_bound [OF f] i by auto
  have nodes: "\<forall>m \<in> set (sf_nodes st). m < length (s_log s1)" "distinct (sf_nodes st)"
    using foldSurface_nodes_bound [OF f1] surface_inv_nodes(1) [OF foldSurface_inv [OF f1]] by auto
  have one: "spliced_out (sf_nodes st) i (i - i + 1) = [seq]"
    using i by (simp add: spliced_out_def take_Suc_conv_app_nth hd_drop_conv_nth take_Suc)
  have rewrite: "assertToolResultRewrite ?ev1 [seq] (s_log s1) 0 = Inr ()"
    using seq lg1 d(1) blanked_with_content [OF c] isDeepEqualJson_refl [OF wf]
    by (simp add: assertToolResultRewrite_def intended_event_def elem_at_def nth_append)
  have plan: "planSurfaceEvent st ?ev1 (length (s_log s1)) (s_log s1) 0 = Inr (Some (PlanReplace
     \<lparr>sr_seq = length (s_log s1), sr_start = seq, sr_end = seq,
      sr_shadowedSeqs = spliced_out (sf_nodes st) i (i - i + 1)\<rparr> i i))"
    by (rule plan_replacing [where ss = "[seq]"])
      (use i nodes seq small lg1 one rewrite in \<open>simp_all add: intended_event_def replacing_def
        isSurfaceEligibleType_def surface_event_types_def\<close>)
  let ?r = "\<lparr>sr_seq = ?n + 1, sr_start = seq, sr_end = seq, sr_shadowedSeqs = [seq]\<rparr>"
  have sup: "assertSupportedRequestHeader (ToolResult ?d') = Inr ()" by (simp add: assertSupportedRequestHeader_def)
  from append_planned [OF ok1 f1 sup plan] obtain s2 where
    a2: "session_append s1 (clock (length (s_log s1))) (ToolResult ?d') (replacing seq seq [seq]) = Inr (s2, ?ev1)"
    and ok2: "session_ok s2" and lg3: "s_log s2 = s_log s1 @ [?ev1]"
    and f2': "foldSurface (s_log s2) = Inr (fst (applySurfacePlan st (Some (PlanReplace
        \<lparr>sr_seq = length (s_log s1), sr_start = seq, sr_end = seq,
         sr_shadowedSeqs = spliced_out (sf_nodes st) i (i - i + 1)\<rparr> i i))),
      reps @ (case snd (applySurfacePlan st (Some (PlanReplace
        \<lparr>sr_seq = length (s_log s1), sr_start = seq, sr_end = seq,
         sr_shadowedSeqs = spliced_out (sf_nodes st) i (i - i + 1)\<rparr> i i))) of None \<Rightarrow> [] | Some r \<Rightarrow> [r]))" .
  have n1: "length (s_log s1) = ?n + 1" using lg1 by simp
  have f2: "foldSurface (s_log s2) = Inr (st\<lparr>sf_nodes := splice (sf_nodes st) i 1 [?n + 1],
          sf_replaceGeneration := sf_replaceGeneration st + 1\<rparr>, reps @ [?r])"
    unfolding f2' one n1 by simp
  have price: "surface_price decimal (s_log s2) [seq] = estimateMessage decimal (tr_message d)"
    using seq d(1) by (simp add: lg1 lg3 nth_append event_price_def)
  have "metered decimal (s_log s2) reps"
    using met metered_log [OF f1, of decimal "[?ev1]"] metered_log [OF f, of decimal "[?ev0]"] lg1 lg3 by simp
  then have met2: "metered decimal (s_log s2) (reps @ [?r])"
    using price by (auto simp: metered_def lg1 lg3 nth_append intended_event_def)
  show thesis
  proof (rule that)
    show "prune_one decimal clock cfg s (seq, d) = (s2, Inr (Some
        \<lparr>pe_originalSeq = seq, pe_replacementSeq = ?n + 1, pe_callId = source_callId (m_source (tr_message d)),
         pe_charsBefore = measureContent c, pe_charsAfter = measureContent out\<rparr>))"
      using c out a1 a2 lg1 by (simp add: prune_one_def intended_event_def)
    show "session_ok s2" by (rule ok2)
    show "s_log s2 = s_log s @ [?ev0, ?ev1]" using lg1 lg3 by simp
    show "foldSurface (s_log s2) = Inr (st\<lparr>sf_nodes := splice (sf_nodes st) i 1 [?n + 1],
          sf_replaceGeneration := sf_replaceGeneration st + 1\<rparr>, reps @ [?r])" by (rule f2)
    show "metered decimal (s_log s2) (reps @ [?r])" by (rule met2)
    show "slot_kept (s_log s) (s_log s2) seq (?n + 1)"
      using d(1) c by (auto simp: slot_kept_def lg1 lg3 nth_append intended_event_def)
    show "result_chars ?ev1 \<le> pc_thresholdChars cfg" using fits by (simp add: result_chars_def intended_event_def)
  qed (use fits cbig in simp_all)
qed

section \<open>The whole pass\<close>

definition pass_inv ::
    "(jsnum \<Rightarrow> string) \<Rightarrow> prune_config \<Rightarrow> session \<Rightarrow> surface_state \<Rightarrow> surface_replacement list
     \<Rightarrow> (nat \<times> tool_result_data) list \<Rightarrow> bool" where
  "pass_inv decimal cfg s st reps cs \<longleftrightarrow>
     session_ok s \<and> foldSurface (s_log s) = Inr (st, reps) \<and> metered decimal (s_log s) reps
     \<and> distinct (map fst cs)
     \<and> (\<forall>(seq, d) \<in> set cs. seq \<in> set (sf_nodes st) \<and> ev_data (s_log s ! seq) = ToolResult d \<and> result_wf d)
     \<and> (\<forall>n \<in> set (sf_nodes st). n \<notin> set (map fst cs) \<longrightarrow> result_chars (s_log s ! n) \<le> pc_thresholdChars cfg)
     \<and> int (length (s_log s) + 2 * length cs) \<le> max_safe_integer"

definition pass_result ::
    "(jsnum \<Rightarrow> string) \<Rightarrow> prune_config \<Rightarrow> session \<Rightarrow> surface_state \<Rightarrow> session \<Rightarrow> pruned_entry list \<Rightarrow> bool" where
  "pass_result decimal cfg s st s' entries \<longleftrightarrow>
     session_ok s'
     \<and> (\<exists>extra. s_log s' = s_log s @ extra \<and> length extra = 2 * length entries)
     \<and> (\<exists>st' reps'. foldSurface (s_log s') = Inr (st', reps') \<and> metered decimal (s_log s') reps'
          \<and> list_all2 (slot_kept (s_log s) (s_log s')) (sf_nodes st) (sf_nodes st')
          \<and> (\<forall>n \<in> set (sf_nodes st'). result_chars (s_log s' ! n) \<le> pc_thresholdChars cfg))
     \<and> (\<forall>e \<in> set entries. pe_charsAfter e < pe_charsBefore e)"

lemma prune_all_ok:
  assumes cfg: "prune_config_ok cfg"
  shows "pass_inv decimal cfg s st reps cs \<Longrightarrow>
    \<exists>s' entries. prune_all decimal clock cfg s cs = (s', Inr entries) \<and> pass_result decimal cfg s st s' entries"
proof (induction cs arbitrary: s st reps)
  case Nil
  then have "pass_result decimal cfg s st s []"
    by (auto simp: pass_inv_def pass_result_def slot_kept_def intro!: list.rel_refl)
  then show ?case by simp
next
  case (Cons cand cs)
  obtain seq d where cand: "cand = (seq, d)" by (cases cand)
  from Cons.prems have ok: "session_ok s" and f: "foldSurface (s_log s) = Inr (st, reps)"
    and met: "metered decimal (s_log s) reps" and seq: "seq \<in> set (sf_nodes st)"
    and d: "ev_data (s_log s ! seq) = ToolResult d" "result_wf d"
    and small: "int (length (s_log s) + 1) \<le> max_safe_integer"
    by (auto simp: pass_inv_def cand)
  show ?case
  proof (cases "result_chars (s_log s ! seq) \<le> pc_thresholdChars cfg")
    case True
    have one: "prune_one decimal clock cfg s cand = (s, Inr None)"
      unfolding cand by (rule prune_one_small [OF d(2) True d(1)])
    have "pass_inv decimal cfg s st reps cs"
      using Cons.prems True unfolding pass_inv_def cand by auto
    from Cons.IH [OF this] one show ?thesis by auto
  next
    case False
    then have big: "pc_thresholdChars cfg < result_chars (s_log s ! seq)" by simp
    from seq obtain i where i: "i < length (sf_nodes st)" "sf_nodes st ! i = seq" by (auto simp: in_set_conv_nth)
    obtain s1 entry ev0 ev1 st1 r where one: "prune_one decimal clock cfg s (seq, d) = (s1, Inr (Some entry))"
      and s1: "session_ok s1" "s_log s1 = s_log s @ [ev0, ev1]" "foldSurface (s_log s1) = Inr (st1, reps @ [r])"
        "metered decimal (s_log s1) (reps @ [r])" "sf_nodes st1 = splice (sf_nodes st) i 1 [length (s_log s) + 1]"
        "slot_kept (s_log s) (s_log s1) seq (length (s_log s) + 1)" "result_chars ev1 \<le> pc_thresholdChars cfg"
      and shrink: "pe_charsAfter entry < pe_charsBefore entry"
      using prune_one_big [OF ok cfg f met i d big small, of clock] by metis
    have dist: "distinct (sf_nodes st)" using surface_inv_nodes(1) [OF foldSurface_inv [OF f]] .
    have bound: "\<forall>n \<in> set (sf_nodes st). n < length (s_log s)" using foldSurface_nodes_bound [OF f] by blast
    have split: "sf_nodes st = take i (sf_nodes st) @ [seq] @ drop (i + 1) (sf_nodes st)"
      using i by (metis id_take_nth_drop append_Cons append_Nil Suc_eq_plus1)
    have new: "set (sf_nodes st1) = insert (length (s_log s) + 1) (set (sf_nodes st) - {seq})"
    proof -
      have "distinct (take i (sf_nodes st) @ [seq] @ drop (i + 1) (sf_nodes st))" using dist split by simp
      then show ?thesis by (subst split) (auto simp: s1(5) splice_def)
    qed
    have old: "s_log s1 ! n = s_log s ! n" if "n \<in> set (sf_nodes st)" for n
      using that bound by (simp add: s1(2) nth_append)
    have at_end: "s_log s1 ! (length (s_log s) + 1) = ev1" by (simp add: s1(2) nth_append)
    have keep: "\<forall>n \<in> set (sf_nodes st) - {seq}. n \<notin> set (map fst cs) \<longrightarrow>
        result_chars (s_log s1 ! n) \<le> pc_thresholdChars cfg"
      using Cons.prems old unfolding pass_inv_def cand by auto
    have cands: "\<forall>(q, e) \<in> set cs. q \<in> set (sf_nodes st) - {seq} \<and> ev_data (s_log s1 ! q) = ToolResult e \<and> result_wf e"
    proof (intro ballI, clarify)
      fix q e assume q: "(q, e) \<in> set cs"
      then have "q \<noteq> seq" using Cons.prems by (force simp: pass_inv_def cand)
      moreover have "q \<in> set (sf_nodes st)" "ev_data (s_log s ! q) = ToolResult e" "result_wf e"
        using Cons.prems q by (auto simp: pass_inv_def)
      ultimately show "q \<in> set (sf_nodes st) - {seq} \<and> ev_data (s_log s1 ! q) = ToolResult e \<and> result_wf e"
        using old by simp
    qed
    have "pass_inv decimal cfg s1 st1 (reps @ [r]) cs"
      unfolding pass_inv_def
    proof (intro conjI)
      show "distinct (map fst cs)" using Cons.prems by (simp add: pass_inv_def)
      show "\<forall>(q, e) \<in> set cs. q \<in> set (sf_nodes st1) \<and> ev_data (s_log s1 ! q) = ToolResult e \<and> result_wf e"
        using cands new by auto
      show "\<forall>n \<in> set (sf_nodes st1). n \<notin> set (map fst cs) \<longrightarrow> result_chars (s_log s1 ! n) \<le> pc_thresholdChars cfg"
        using keep new at_end s1(7) by auto
      show "int (length (s_log s1) + 2 * length cs) \<le> max_safe_integer"
        using Cons.prems by (simp add: pass_inv_def s1(2))
    qed (use s1 in blast)+
    from Cons.IH [OF this] obtain s2 entries where rest: "prune_all decimal clock cfg s1 cs = (s2, Inr entries)"
      and res: "pass_result decimal cfg s1 st1 s2 entries" by blast
    have first: "list_all2 (slot_kept (s_log s) (s_log s1)) (sf_nodes st) (sf_nodes st1)"
      unfolding s1(5) by (rule splice_one_all2 [OF i(1)]) (use i s1(6) in \<open>simp_all add: slot_kept_def\<close>)
    from res obtain extra st2 reps2 where lg3: "s_log s2 = s_log s1 @ extra" "length extra = 2 * length entries"
      and f2: "foldSurface (s_log s2) = Inr (st2, reps2)" "metered decimal (s_log s2) reps2"
      and second: "list_all2 (slot_kept (s_log s1) (s_log s2)) (sf_nodes st1) (sf_nodes st2)"
      and fin: "\<forall>n \<in> set (sf_nodes st2). result_chars (s_log s2 ! n) \<le> pc_thresholdChars cfg" "session_ok s2"
        "\<forall>e \<in> set entries. pe_charsAfter e < pe_charsBefore e"
      unfolding pass_result_def by blast
    have "list_all2 (slot_kept (s_log s) (s_log s2)) (sf_nodes st) (sf_nodes st2)"
      unfolding list_all2_conv_all_nth
    proof (intro conjI allI impI)
      show len: "length (sf_nodes st) = length (sf_nodes st2)"
        using first second by (simp add: list_all2_lengthD)
      fix j assume j: "j < length (sf_nodes st)"
      then have "j < length (sf_nodes st1)" using first by (simp add: list_all2_lengthD)
      then have "sf_nodes st1 ! j < length (s_log s1)" using foldSurface_nodes_bound [OF s1(3)] by simp
      moreover have "sf_nodes st ! j < length (s_log s)" using bound j by simp
      moreover have "slot_kept (s_log s) (s_log s1) (sf_nodes st ! j) (sf_nodes st1 ! j)"
        "slot_kept (s_log s1) (s_log s2) (sf_nodes st1 ! j) (sf_nodes st2 ! j)"
        using first second j len by (auto simp: list_all2_conv_all_nth)
      ultimately show "slot_kept (s_log s) (s_log s2) (sf_nodes st ! j) (sf_nodes st2 ! j)"
        using slot_kept_trans s1(2) lg3(1) by blast
    qed
    then have "pass_result decimal cfg s st s2 (entry # entries)"
      unfolding pass_result_def using lg3 f2 fin s1(2) shrink by auto
    with rest one show ?thesis unfolding cand by auto
  qed
qed

text \<open>The candidates of a session whose tool results are well formed.\<close>

lemma prune_candidate_iff:
  "prune_candidate evs n = Some (seq, d) \<longleftrightarrow> n = seq \<and> seq < length evs \<and> ev_data (evs ! seq) = ToolResult d"
proof (cases "n < length evs")
  case True
  then show ?thesis by (cases "ev_data (evs ! n)") (auto simp: prune_candidate_def elem_at_def)
qed (auto simp: prune_candidate_def elem_at_def)

lemma set_map_filter: "set (List.map_filter f xs) = {y. \<exists>x \<in> set xs. f x = Some y}"
  by (force simp: map_filter_def)

lemma prune_candidates_iff:
  "(seq, d) \<in> set (prune_candidates evs ns) \<longleftrightarrow>
     seq \<in> set ns \<and> seq < length evs \<and> ev_data (evs ! seq) = ToolResult d"
  by (auto simp: prune_candidates_def set_map_filter prune_candidate_iff)

lemma prune_candidates_distinct: "distinct ns \<Longrightarrow> distinct (map fst (prune_candidates evs ns))"
proof (induction ns)
  case Nil
  then show ?case by (simp add: prune_candidates_def map_filter_def)
next
  case (Cons n ns)
  show ?case
  proof (cases "prune_candidate evs n")
    case None
    with Cons show ?thesis by (simp add: prune_candidates_def map_filter_def)
  next
    case (Some c)
    obtain seq d where c: "c = (seq, d)" by (cases c)
    have "seq = n" using Some c prune_candidate_iff by simp
    moreover have "n \<notin> set (map fst (prune_candidates evs ns))"
      using Cons.prems prune_candidates_iff [of n _ evs ns] by auto
    moreover have "prune_candidates evs (n # ns) = c # prune_candidates evs ns"
      using Some by (simp add: prune_candidates_def map_filter_def)
    ultimately show ?thesis using Cons c by simp
  qed
qed

lemma pruneSession_ok:
  assumes ok: "session_ok s" and cfg: "prune_config_ok cfg" and f: "foldSurface (s_log s) = Inr (st, reps)"
    and met: "metered decimal (s_log s) reps"
    and wf: "\<forall>ev \<in> set (s_log s). \<forall>d. ev_data ev = ToolResult d \<longrightarrow> result_wf d"
    and small: "int (length (s_log s) + 2 * length (sf_nodes st)) \<le> max_safe_integer"
  shows "\<exists>s' entries. pruneSession decimal clock cfg s
      = (s', Inr (entries, sum_list (map (\<lambda>e. pe_charsBefore e - pe_charsAfter e) entries)))
    \<and> pass_result decimal cfg s st s' entries"
proof -
  from session_surface_ok [OF ok] f obtain m where sur: "session_surface s = Inr (s\<lparr>s_surfaceManager := m\<rparr>, st)"
    and ok1: "session_ok (s\<lparr>s_surfaceManager := m\<rparr>)" by auto
  let ?s1 = "s\<lparr>s_surfaceManager := m\<rparr>" and ?cs = "prune_candidates (s_log s) (sf_nodes st)"
  have bound: "\<forall>n \<in> set (sf_nodes st). n < length (s_log s)" using foldSurface_nodes_bound [OF f] by blast
  have dist: "distinct (sf_nodes st)" using surface_inv_nodes(1) [OF foldSurface_inv [OF f]] .
  have "length ?cs \<le> length (sf_nodes st)" by (simp add: prune_candidates_def map_filter_def)
  then have "int (length (s_log s) + 2 * length ?cs) \<le> max_safe_integer" using small by linarith
  moreover have "result_chars (s_log s ! n) \<le> pc_thresholdChars cfg"
    if "n \<in> set (sf_nodes st)" "n \<notin> set (map fst ?cs)" for n
  proof -
    have "ev_data (s_log s ! n) \<noteq> ToolResult d" for d
      using that bound prune_candidates_iff [of n d "s_log s" "sf_nodes st"] by force
    then show ?thesis by (auto simp: result_chars_def split: event_data.splits)
  qed
  moreover have "result_wf d" if "(seq, d) \<in> set ?cs" for seq d
    using that wf nth_mem [of seq "s_log s"] unfolding prune_candidates_iff by blast
  then have "\<forall>(seq, d) \<in> set ?cs. seq \<in> set (sf_nodes st) \<and> ev_data (s_log s ! seq) = ToolResult d \<and> result_wf d"
    by (auto simp: prune_candidates_iff)
  ultimately have "pass_inv decimal cfg ?s1 st reps ?cs"
    using ok1 f met prune_candidates_distinct [OF dist] by (auto simp: pass_inv_def)
  from prune_all_ok [OF cfg this, of clock] obtain s' entries where
    "prune_all decimal clock cfg ?s1 ?cs = (s', Inr entries)" "pass_result decimal cfg ?s1 st s' entries" by blast
  then show ?thesis using sur by (simp add: pruneSession_def pass_result_def)
qed

end
