(* ===== verification/Compaction_Laws.thy ===== *)
theory Compaction_Laws
  imports Compaction_Region Pruner_Laws
begin

text \<open>
  What the compaction transaction guarantees. The range it chooses is the longest balanced head that
  leaves a priced tail of the wanted size; whatever happens while it waits, it closes the bracket it
  opened, exactly once, and the lock is free; when it commits, one checkpoint that is cheaper than what
  it replaces stands for exactly the chosen span, and no answer loses its call.
\<close>

section \<open>Hosts, and operations that only read\<close>

definition hlog :: "compaction_host \<Rightarrow> session_event list" where
  "hlog h = s_log (ch_session h)"

definition host_ok :: "(jsnum \<Rightarrow> string) \<Rightarrow> compaction_host \<Rightarrow> bool" where
  "host_ok decimal h \<longleftrightarrow>
     session_ok (ch_session h) \<and> pairing_cache_ok (hlog h) (ch_pairing h)
     \<and> meter_state_ok decimal (hlog h) (ch_meter h)"

text \<open>On every sound host with this log, the operation answers as \<open>P\<close> says and leaves the log.\<close>

definition yields ::
    "(jsnum \<Rightarrow> string) \<Rightarrow> 'a act \<Rightarrow> session_event list \<Rightarrow> (compaction_error + 'a \<Rightarrow> bool) \<Rightarrow> bool" where
  "yields decimal m evs P \<longleftrightarrow>
     (\<forall>h. host_ok decimal h \<longrightarrow> hlog h = evs \<longrightarrow>
        (\<exists>h' r. m h = (h', r) \<and> host_ok decimal h' \<and> hlog h' = evs \<and> P r))"

lemma yieldsD:
  assumes "yields decimal m (hlog h) P" and "host_ok decimal h" and "m h = (h', r)"
  shows "host_ok decimal h'" and "hlog h' = hlog h" and "P r"
  using assms by (auto simp: yields_def)

lemma yields_mono: "yields decimal m evs P \<Longrightarrow> (\<And>r. P r \<Longrightarrow> Q r) \<Longrightarrow> yields decimal m evs Q"
  unfolding yields_def by blast

lemma yields_ret: "P (Inr a) \<Longrightarrow> yields decimal (ret_act a) evs P"
  and yields_fail: "P (Inl e) \<Longrightarrow> yields decimal (fail_act e) evs P"
  by (simp_all add: yields_def)

lemma yields_guard: "(b \<Longrightarrow> P (Inr ())) \<Longrightarrow> (\<not> b \<Longrightarrow> P (Inl e)) \<Longrightarrow> yields decimal (guard_act b e) evs P"
  by (simp add: yields_def)

lemma yields_bind:
  assumes m: "yields decimal m evs P" and k: "\<And>a. P (Inr a) \<Longrightarrow> yields decimal (k a) evs Q"
    and e: "\<And>e. P (Inl e) \<Longrightarrow> Q (Inl e)"
  shows "yields decimal (bind_act m k) evs Q"
  unfolding yields_def
proof (intro allI impI)
  fix h :: compaction_host
  assume h: "host_ok decimal h" "hlog h = evs"
  with m obtain h1 r where r: "m h = (h1, r)" "host_ok decimal h1" "hlog h1 = evs" "P r"
    unfolding yields_def by blast
  show "\<exists>h' r. bind_act m k h = (h', r) \<and> host_ok decimal h' \<and> hlog h' = evs \<and> Q r"
  proof (cases r)
    case (Inl x)
    with r e show ?thesis by (simp add: bind_act_simps)
  next
    case (Inr a)
    with r k [of a] show ?thesis by (simp add: bind_act_simps yields_def)
  qed
qed

text \<open>The seams.\<close>

lemma yields_surface:
  assumes f: "foldSurface evs = Inr (st, reps)"
  shows "yields decimal surface_act evs (\<lambda>r. r = Inr st)"
  unfolding yields_def
proof (intro allI impI)
  fix h :: compaction_host
  assume h: "host_ok decimal h" "hlog h = evs"
  then have ok: "session_ok (ch_session h)" by (simp add: host_ok_def)
  from session_surface_ok [OF ok] f h(2) obtain m where
    "session_surface (ch_session h) = Inr ((ch_session h)\<lparr>s_surfaceManager := m\<rparr>, st)"
    "session_ok ((ch_session h)\<lparr>s_surfaceManager := m\<rparr>)" by (auto simp: hlog_def)
  with h show "\<exists>h' r. surface_act h = (h', r) \<and> host_ok decimal h' \<and> hlog h' = evs \<and> r = Inr st"
    by (simp add: surface_act_def host_ok_def hlog_def)
qed

lemma yields_pairing:
  assumes f: "foldSurface evs = Inr (st, reps)"
  shows "yields decimal (pairing_act offset seq) evs
     (\<lambda>r. r = map_error PairingFailed (snd (toolPairing offset evs st None seq)))"
  unfolding pairing_act_def
proof (rule yields_bind [OF yields_surface [OF f]])
  fix a
  assume "Inr a = (Inr st :: compaction_error + surface_state)"
  then have a: "a = st" by simp
  show "yields decimal (\<lambda>h. case toolPairing offset (s_log (ch_session h)) a (ch_pairing h) seq of
      (cache, r) \<Rightarrow> (h\<lparr>ch_pairing := cache\<rparr>, map_error PairingFailed r)) evs
     (\<lambda>r. r = map_error PairingFailed (snd (toolPairing offset evs st None seq)))"
    unfolding yields_def
  proof (intro allI impI)
    fix h :: compaction_host
    assume h: "host_ok decimal h" "hlog h = evs"
    then have ok: "pairing_cache_ok evs (ch_pairing h)" by (simp add: host_ok_def)
    obtain cache r where t: "toolPairing offset evs st (ch_pairing h) seq = (cache, r)" by fastforce
    with toolPairing_ok [OF f ok, of offset seq] h a show
      "\<exists>h' r. (case toolPairing offset (s_log (ch_session h)) a (ch_pairing h) seq of
          (cache, r) \<Rightarrow> (h\<lparr>ch_pairing := cache\<rparr>, map_error PairingFailed r)) = (h', r)
        \<and> host_ok decimal h' \<and> hlog h' = evs \<and> r = map_error PairingFailed (snd (toolPairing offset evs st None seq))"
      by (simp add: host_ok_def hlog_def)
  qed
qed simp

lemma yields_measure:
  assumes f: "foldSurface evs = Inr (st, reps)"
  shows "yields decimal (measure_act decimal) evs (\<lambda>r. \<forall>m. r = Inr m \<longrightarrow> tm_nodes m = priced decimal evs (sf_nodes st))"
  unfolding yields_def
proof (intro allI impI)
  fix h :: compaction_host
  assume h: "host_ok decimal h" "hlog h = evs"
  then have s: "case ch_meter h of None \<Rightarrow> True | Some s0 \<Rightarrow> \<exists>k. meter_at decimal evs k s0"
    by (simp add: host_ok_def meter_state_ok_def)
  obtain s' r where m: "meter_measure decimal evs (ch_meter h) None = (s', r)" by fastforce
  have "\<exists>k. meter_at decimal evs k s'" by (rule measure_keeps [OF f s m])
  moreover have "tm_nodes t = priced decimal evs (sf_nodes st)" if "r = Inr t" for t
    using measure_surface(1) [OF f s] m that by blast
  ultimately show "\<exists>h' r. measure_act decimal h = (h', r) \<and> host_ok decimal h' \<and> hlog h' = evs
      \<and> (\<forall>m. r = Inr m \<longrightarrow> tm_nodes m = priced decimal evs (sf_nodes st))"
    using h m by (cases r) (auto simp: measure_act_def host_ok_def hlog_def meter_state_ok_Some)
qed

lemma yields_header: "yields decimal header_act evs (\<lambda>r. r = Inr (foldRequestHeader evs None))"
  unfolding yields_def
proof (intro allI impI)
  fix h :: compaction_host
  assume h: "host_ok decimal h" "hlog h = evs"
  obtain s' hdr where q: "requestHeader (ch_session h) = (s', hdr)" by fastforce
  from h have "session_ok (ch_session h)" by (simp add: host_ok_def)
  from requestHeader_ok [OF this q] h q show
    "\<exists>h' r. header_act h = (h', r) \<and> host_ok decimal h' \<and> hlog h' = evs \<and> r = Inr (foldRequestHeader evs None)"
    by (simp add: header_act_def host_ok_def hlog_def)
qed

section \<open>The chosen range\<close>

text \<open>The loop finds the last position whose tail is worth \<open>retain\<close>, or 0.\<close>

lemma keep_from_loop:
  "index \<le> length ts \<Longrightarrow> accumulated = sum_list (drop index ts) \<Longrightarrow> (index < length ts \<longrightarrow> accumulated < retain)
   \<Longrightarrow> keep_from ts retain accumulated index \<le> index
     \<and> (ts \<noteq> [] \<longrightarrow> keep_from ts retain accumulated index < length ts)
     \<and> (\<forall>k. keep_from ts retain accumulated index < k \<and> k < length ts \<longrightarrow> sum_list (drop k ts) < retain)
     \<and> (keep_from ts retain accumulated index \<noteq> 0 \<longrightarrow>
          retain \<le> sum_list (drop (keep_from ts retain accumulated index) ts))"
proof (induction ts retain accumulated index rule: keep_from.induct)
  case (1 ts retain accumulated)
  have "sum_list (drop k ts) < retain" if "0 < k" "k < length ts" for k
  proof -
    have "sum_list ts = sum_list (take k ts) + sum_list (drop k ts)" by (simp flip: sum_list_append)
    moreover have "sum_list ts < retain" using 1 that by auto
    ultimately show ?thesis by linarith
  qed
  then show ?case by simp
next
  case (2 ts retain accumulated index)
  from 2(2) have i: "index < length ts" by simp
  then have d: "drop index ts = ts ! index # drop (Suc index) ts" by (simp add: Cons_nth_drop_Suc)
  let ?a = "accumulated + ts ! index"
  have a: "?a = sum_list (drop index ts)" using 2(3) d by simp
  show ?case
  proof (cases "retain \<le> ?a")
    case True
    have "sum_list (drop k ts) < retain" if "index < k" "k < length ts" for k
    proof -
      have d: "drop k ts = drop (k - Suc index) (drop (Suc index) ts)" using that(1) by simp
      have "sum_list (drop (Suc index) ts) = sum_list (take (k - Suc index) (drop (Suc index) ts)) + sum_list (drop k ts)"
        unfolding d by (metis append_take_drop_id sum_list_append)
      moreover have "accumulated < retain" using 2(4) that by simp
      ultimately show ?thesis using 2(3) by linarith
    qed
    with True a i show ?thesis by simp
  next
    case False
    then have "keep_from ts retain accumulated (Suc index) = keep_from ts retain ?a index" by (simp add: Let_def)
    with 2(1) [OF refl] False a i show ?thesis by (simp add: Let_def)
  qed
qed

lemma keep_from_spec:
  fixes ts :: "nat list" and retain :: nat
  defines "k \<equiv> keep_from ts retain 0 (length ts)"
  assumes "ts \<noteq> []"
  shows "k < length ts" and "\<And>i. k < i \<Longrightarrow> i < length ts \<Longrightarrow> sum_list (drop i ts) < retain"
    and "k \<noteq> 0 \<Longrightarrow> i \<le> k \<Longrightarrow> retain \<le> sum_list (drop i ts)"
proof -
  note loop = keep_from_loop [of "length ts" ts 0 retain, folded k_def, simplified]
  show "k < length ts" "\<And>i. k < i \<Longrightarrow> i < length ts \<Longrightarrow> sum_list (drop i ts) < retain"
    using loop assms by simp_all
  assume "k \<noteq> 0" "i \<le> k"
  have "drop i ts = take (k - i) (drop i ts) @ drop k ts"
    using \<open>i \<le> k\<close> by (metis append_take_drop_id drop_drop le_add_diff_inverse2)
  then have "sum_list (drop k ts) \<le> sum_list (drop i ts)" by (metis le_add2 sum_list_append)
  with loop \<open>k \<noteq> 0\<close> show "retain \<le> sum_list (drop i ts)" by simp
qed

lemma balanced_cut_spec:
  assumes f: "foldSurface evs = Inr (st, reps)" and cp: "calls_precede evs (sf_nodes st)"
  shows "k < length (sf_nodes st) \<Longrightarrow> yields decimal (balanced_cut (sf_nodes st) k) evs
     (\<lambda>r. \<exists>m. r = Inr m \<and> m \<le> k \<and> open_calls evs (take m (sf_nodes st)) = 0
        \<and> (\<forall>i. m < i \<and> i \<le> k \<longrightarrow> open_calls evs (take i (sf_nodes st)) \<noteq> 0))"
proof (induction k)
  case 0
  show ?case unfolding balanced_cut.simps by (rule yields_ret) simp
next
  case (Suc k)
  let ?b = "open_calls evs (take (Suc k) (sf_nodes st)) = 0"
  have "pairing_cache_ok evs None" by (simp add: pairing_cache_ok_def)
  from toolPairing_answer [OF f this Suc.prems, of 0 ?b] cp
  have "snd (toolPairing 0 evs st None (sf_nodes st ! Suc k)) = Inr ?b" by simp
  with yields_pairing [OF f, of decimal 0 "sf_nodes st ! Suc k"]
  have ask: "yields decimal (pairing_act 0 (sf_nodes st ! Suc k)) evs (\<lambda>r. r = Inr ?b)" by simp
  show ?case
    unfolding balanced_cut.simps
  proof (rule yields_bind [OF ask])
    fix b
    assume "Inr b = (Inr ?b :: compaction_error + bool)"
    then have b: "b = ?b" by simp
    show "yields decimal (if b then ret_act (Suc k) else balanced_cut (sf_nodes st) k) evs
     (\<lambda>r. \<exists>m. r = Inr m \<and> m \<le> Suc k \<and> open_calls evs (take m (sf_nodes st)) = 0
        \<and> (\<forall>i. m < i \<and> i \<le> Suc k \<longrightarrow> open_calls evs (take i (sf_nodes st)) \<noteq> 0))"
    proof (cases b)
      case True
      have "yields decimal (ret_act (Suc k)) evs
         (\<lambda>r. \<exists>m. r = Inr m \<and> m \<le> Suc k \<and> open_calls evs (take m (sf_nodes st)) = 0
            \<and> (\<forall>i. m < i \<and> i \<le> Suc k \<longrightarrow> open_calls evs (take i (sf_nodes st)) \<noteq> 0))"
        by (rule yields_ret) (use True b in auto)
      with True show ?thesis by simp
    next
      case False
      from Suc.IH Suc.prems have "yields decimal (balanced_cut (sf_nodes st) k) evs
         (\<lambda>r. \<exists>m. r = Inr m \<and> m \<le> k \<and> open_calls evs (take m (sf_nodes st)) = 0
            \<and> (\<forall>i. m < i \<and> i \<le> k \<longrightarrow> open_calls evs (take i (sf_nodes st)) \<noteq> 0))" by simp
      then have "yields decimal (balanced_cut (sf_nodes st) k) evs
         (\<lambda>r. \<exists>m. r = Inr m \<and> m \<le> Suc k \<and> open_calls evs (take m (sf_nodes st)) = 0
            \<and> (\<forall>i. m < i \<and> i \<le> Suc k \<longrightarrow> open_calls evs (take i (sf_nodes st)) \<noteq> 0))"
        by (rule yields_mono) (use False b in \<open>auto simp: le_Suc_eq\<close>)
      with False show ?thesis by simp
    qed
  qed simp
qed

text \<open>A cut between two nodes that splits no call from its answer and leaves a tail worth \<open>retain\<close>.\<close>

definition good_cut :: "(jsnum \<Rightarrow> string) \<Rightarrow> session_event list \<Rightarrow> nat list \<Rightarrow> nat \<Rightarrow> nat \<Rightarrow> bool" where
  "good_cut decimal evs ns retain k \<longleftrightarrow>
     0 < k \<and> k < length ns \<and> open_calls evs (take k ns) = 0 \<and> retain \<le> surface_price decimal evs (drop k ns)"

definition range_choice ::
    "(jsnum \<Rightarrow> string) \<Rightarrow> session_event list \<Rightarrow> nat list \<Rightarrow> nat \<Rightarrow> (nat \<times> nat) option \<Rightarrow> bool" where
  "range_choice decimal evs ns retain choice \<longleftrightarrow>
     (case choice of
        None \<Rightarrow> \<forall>k. \<not> good_cut decimal evs ns retain k
      | Some (start, end') \<Rightarrow>
          \<exists>k. good_cut decimal evs ns retain k \<and> (\<forall>k'. good_cut decimal evs ns retain k' \<longrightarrow> k' \<le> k)
            \<and> start = ns ! 0 \<and> end' = ns ! (k - 1))"

lemma drop_tokens:
  "map tn_tokens (priced decimal evs ns) = map (\<lambda>n. event_price decimal (evs ! n)) ns"
  "sum_list (drop k (map (\<lambda>n. event_price decimal (evs ! n)) ns)) = surface_price decimal evs (drop k ns)"
  by (simp_all add: priced_def surface_price_def drop_map comp_def)

lemma selectCompactableRange_choice:
  assumes f: "foldSurface evs = Inr (st, reps)" and cp: "calls_precede evs (sf_nodes st)"
    and m: "tm_nodes measurement = priced decimal evs (sf_nodes st)"
  shows "yields decimal (selectCompactableRange measurement retain) evs
     (\<lambda>r. \<exists>choice. r = Inr choice \<and> range_choice decimal evs (sf_nodes st) retain choice)"
proof (cases "sf_nodes st = []")
  case True
  have "yields decimal (ret_act None) evs
     (\<lambda>r. \<exists>choice. r = Inr choice \<and> range_choice decimal evs (sf_nodes st) retain choice)"
    by (rule yields_ret) (use True in \<open>auto simp: range_choice_def good_cut_def\<close>)
  then show ?thesis using m True by (simp add: selectCompactableRange_def)
next
  case False
  let ?ns = "sf_nodes st" and ?ts = "map tn_tokens (priced decimal evs (sf_nodes st))"
  define kf where "kf = keep_from ?ts retain 0 (length ?ts)"
  have ne: "?ts \<noteq> []" using False by simp
  note spec = keep_from_spec [OF ne, of retain, folded kf_def, unfolded drop_tokens(1), unfolded drop_tokens(2)]
  have kf: "kf < length ?ns" using spec(1) by simp
  have last: "k \<le> kf" if "good_cut decimal evs ?ns retain k" for k
    using spec(2) [of k] that by (force simp: good_cut_def not_le)
  have good: "good_cut decimal evs ?ns retain k" if "0 < k" "k \<le> kf" "open_calls evs (take k ?ns) = 0" for k
    using spec(3) [of k] kf that by (simp add: good_cut_def)
  have unfold: "selectCompactableRange measurement retain =
      bind_act surface_act (\<lambda>st. bind_act (guard_act (sf_nodes st = ?ns) SurfaceMismatch) (\<lambda>_.
        if kf = 0 then ret_act None
        else bind_act (balanced_cut (sf_nodes st) kf) (\<lambda>k.
          ret_act (if k = 0 then None else Some (sf_nodes st ! 0, sf_nodes st ! (k - 1))))))"
    using False by (simp add: selectCompactableRange_def kf_def Let_def m cong: if_cong)
  show ?thesis
    unfolding unfold
  proof (rule yields_bind [OF yields_surface [OF f]])
    fix a
    assume "Inr a = (Inr st :: compaction_error + surface_state)"
    then have a: "a = st" by simp
    have g: "yields decimal (guard_act (sf_nodes a = ?ns) SurfaceMismatch) evs (\<lambda>r. r = Inr ())"
      using a by (intro yields_guard) simp_all
    show "yields decimal (bind_act (guard_act (sf_nodes a = ?ns) SurfaceMismatch) (\<lambda>_.
        if kf = 0 then ret_act None
        else bind_act (balanced_cut (sf_nodes a) kf) (\<lambda>k.
          ret_act (if k = 0 then None else Some (sf_nodes a ! 0, sf_nodes a ! (k - 1)))))) evs
     (\<lambda>r. \<exists>choice. r = Inr choice \<and> range_choice decimal evs ?ns retain choice)"
    proof (rule yields_bind [OF g])
      show "yields decimal (if kf = 0 then ret_act None
        else bind_act (balanced_cut (sf_nodes a) kf) (\<lambda>k.
          ret_act (if k = 0 then None else Some (sf_nodes a ! 0, sf_nodes a ! (k - 1))))) evs
        (\<lambda>r. \<exists>choice. r = Inr choice \<and> range_choice decimal evs ?ns retain choice)"
      proof (cases "kf = 0")
        case True
        then have "range_choice decimal evs ?ns retain None"
          using last by (force simp: range_choice_def good_cut_def)
        then have "\<exists>choice. Inr None = (Inr choice :: compaction_error + (nat \<times> nat) option)
            \<and> range_choice decimal evs ?ns retain choice" by blast
        from yields_ret [where P = "\<lambda>r. \<exists>choice. r = Inr choice \<and> range_choice decimal evs ?ns retain choice", OF this]
          True show ?thesis by simp
      next
        case False
        have "yields decimal (bind_act (balanced_cut ?ns kf) (\<lambda>k.
            ret_act (if k = 0 then None else Some (?ns ! 0, ?ns ! (k - 1))))) evs
          (\<lambda>r. \<exists>choice. r = Inr choice \<and> range_choice decimal evs ?ns retain choice)"
        proof (rule yields_bind [OF balanced_cut_spec [OF f cp kf]])
          fix k
          assume "\<exists>m. Inr k = (Inr m :: compaction_error + nat) \<and> m \<le> kf \<and> open_calls evs (take m ?ns) = 0
            \<and> (\<forall>i. m < i \<and> i \<le> kf \<longrightarrow> open_calls evs (take i ?ns) \<noteq> 0)"
          then have k: "k \<le> kf" "open_calls evs (take k ?ns) = 0"
            and above: "\<And>i. k < i \<Longrightarrow> i \<le> kf \<Longrightarrow> open_calls evs (take i ?ns) \<noteq> 0" by auto
          have top: "k' \<le> k" if "good_cut decimal evs ?ns retain k'" for k'
            using above [of k'] last [OF that] that by (force simp: good_cut_def not_le)
          have "range_choice decimal evs ?ns retain (if k = 0 then None else Some (?ns ! 0, ?ns ! (k - 1)))"
          proof (cases "k = 0")
            case True
            with top show ?thesis by (force simp: range_choice_def good_cut_def)
          next
            case False
            with top good [OF _ k] show ?thesis by (auto simp: range_choice_def)
          qed
          then show "yields decimal (ret_act (if k = 0 then None else Some (?ns ! 0, ?ns ! (k - 1)))) evs
            (\<lambda>r. \<exists>choice. r = Inr choice \<and> range_choice decimal evs ?ns retain choice)"
            by (intro yields_ret) blast
        qed auto
        with False show ?thesis unfolding a by simp
      qed
    qed simp
  qed simp
qed

section \<open>A balanced span of the surface\<close>

definition span_at :: "session_event list \<Rightarrow> nat list \<Rightarrow> 'a surface_selection_scheme \<Rightarrow> bool" where
  "span_at evs ns sel \<longleftrightarrow>
     ss_startIdx sel \<le> ss_endIdx sel \<and> ss_endIdx sel < length ns
     \<and> ns ! ss_startIdx sel = ss_start sel \<and> ns ! ss_endIdx sel = ss_end sel
     \<and> ss_shadowedSeqs sel = spliced_out ns (ss_startIdx sel) (ss_endIdx sel - ss_startIdx sel + 1)
     \<and> calls_precede evs ns
     \<and> open_calls evs (take (ss_startIdx sel) ns) = 0 \<and> open_calls evs (take (Suc (ss_endIdx sel)) ns) = 0"

lemma open_calls_log: "\<forall>n \<in> set ns. n < length evs \<Longrightarrow> open_calls (evs @ xs) ns = open_calls evs ns"
  by (simp add: open_calls_def nth_append cong: map_cong)

lemma calls_precede_log:
  assumes "\<forall>n \<in> set ns. n < length evs"
  shows "calls_precede (evs @ xs) ns = calls_precede evs ns"
proof -
  have "open_calls (evs @ xs) (take i ns) = open_calls evs (take i ns)" for i
    using assms by (intro open_calls_log) (auto dest: in_set_takeD)
  then show ?thesis by (simp add: calls_precede_def)
qed

lemma span_at_log:
  assumes "\<forall>n \<in> set ns. n < length evs"
  shows "span_at (evs @ xs) ns sel = span_at evs ns sel"
proof -
  have "open_calls (evs @ xs) (take i ns) = open_calls evs (take i ns)" for i
    using assms by (intro open_calls_log) (auto dest: in_set_takeD)
  with calls_precede_log [OF assms] show ?thesis by (simp add: span_at_def)
qed

lemma pairing_true:
  assumes f: "foldSurface evs = Inr (st, reps)" and i: "i < length (sf_nodes st)" and "offset \<le> 1"
  shows "yields decimal (pairing_act offset (sf_nodes st ! i)) evs
     (\<lambda>r. r = Inr True \<longleftrightarrow> calls_precede evs (sf_nodes st) \<and> open_calls evs (take (i + offset) (sf_nodes st)) = 0)"
proof (rule yields_mono [OF yields_pairing [OF f]])
  fix r
  assume r: "r = map_error PairingFailed (snd (toolPairing offset evs st None (sf_nodes st ! i)))"
  have "pairing_cache_ok evs None" by (simp add: pairing_cache_ok_def)
  from toolPairing_answer [OF f this i \<open>offset \<le> 1\<close>, of True] r
  show "r = Inr True \<longleftrightarrow> calls_precede evs (sf_nodes st) \<and> open_calls evs (take (i + offset) (sf_nodes st)) = 0"
    by (cases "snd (toolPairing offset evs st None (sf_nodes st ! i))") simp_all
qed

lemma yields_ask:
  assumes ask: "yields decimal m evs (\<lambda>r. r = Inr True \<longleftrightarrow> B)"
    and yes: "B \<Longrightarrow> yields decimal k evs Q" and no: "\<And>e. \<not> B \<Longrightarrow> Q (Inl e)"
  shows "yields decimal (bind_act m (\<lambda>b. bind_act (guard_act b err) (\<lambda>_. k))) evs Q"
proof (rule yields_bind [OF ask])
  fix b
  assume b: "Inr b = (Inr True :: compaction_error + bool) \<longleftrightarrow> B"
  show "yields decimal (bind_act (guard_act b err) (\<lambda>_. k)) evs Q"
    by (rule yields_bind [where P = "\<lambda>r. r = Inr () \<longleftrightarrow> B"], rule yields_guard) (use b yes no in auto)
qed (use no in auto)

text \<open>The validation accepts exactly the balanced spans.\<close>

lemma validateSurfaceRegion_span:
  assumes f: "foldSurface evs = Inr (st, reps)"
  shows "yields decimal (validateSurfaceRegion start end') evs
     (\<lambda>r. (\<forall>sel. r = Inr sel \<longleftrightarrow> span_at evs (sf_nodes st) sel \<and> ss_start sel = start \<and> ss_end sel = end'))"
proof -
  let ?ns = "sf_nodes st"
  let ?Q = "\<lambda>r. \<forall>sel :: surface_selection. r = Inr sel \<longleftrightarrow> span_at evs ?ns sel \<and> ss_start sel = start \<and> ss_end sel = end'"
  have d: "distinct ?ns" using surface_inv_nodes(1) [OF foldSurface_inv [OF f]] .
  have idx: "index_of start ?ns = Some (ss_startIdx sel) \<and> index_of end' ?ns = Some (ss_endIdx sel)"
    if "span_at evs ?ns sel" "ss_start sel = start" "ss_end sel = end'" for sel :: surface_selection
    using that index_of_nth [OF d, of "ss_startIdx sel"] index_of_nth [OF d, of "ss_endIdx sel"]
    by (auto simp: span_at_def)
  have bad: "?Q (Inl e)" if "\<And>sel :: surface_selection. span_at evs ?ns sel \<Longrightarrow> ss_start sel = start \<Longrightarrow> ss_end sel = end' \<Longrightarrow> False"
    for e using that by auto
  show ?thesis
    unfolding validateSurfaceRegion_def Let_def
  proof (rule yields_bind [OF yields_surface [OF f]])
    fix a
    assume "Inr a = (Inr st :: compaction_error + surface_state)"
    then have a: "a = st" by simp
    show "yields decimal (case index_of start (sf_nodes a) of None \<Rightarrow> fail_act (StartNotFound start)
       | Some i \<Rightarrow> (case index_of end' (sf_nodes a) of None \<Rightarrow> fail_act (EndNotFound end')
            | Some j \<Rightarrow>
                if i > j then fail_act (StartAfterEnd start end')
                else bind_act (pairing_act 0 (sf_nodes a ! i)) (\<lambda>b0.
                  bind_act (guard_act b0 (StartNotBalanced start)) (\<lambda>_.
                  bind_act (pairing_act 1 (sf_nodes a ! j)) (\<lambda>b1.
                  bind_act (guard_act b1 (EndNotBalanced end')) (\<lambda>_.
                    ret_act \<lparr>ss_start = start, ss_end = end', ss_startIdx = i, ss_endIdx = j,
                             ss_shadowedSeqs = spliced_out (sf_nodes a) i (j - i + 1)\<rparr>)))))) evs ?Q"
    proof (cases "index_of start ?ns")
      case None
      have "yields decimal (fail_act (StartNotFound start)) evs ?Q"
        by (rule yields_fail, rule bad) (use idx None in fastforce)
      then show ?thesis unfolding a None by simp
    next
      case (Some i)
      note si = this
      show ?thesis
      proof (cases "index_of end' ?ns")
        case None
        have "yields decimal (fail_act (EndNotFound end')) evs ?Q"
          by (rule yields_fail, rule bad) (use idx None in fastforce)
        then show ?thesis unfolding a None si by simp
      next
        case (Some j)
        have i: "i < length ?ns" "?ns ! i = start" using index_of_Some [OF si] by auto
        have j: "j < length ?ns" "?ns ! j = end'" using index_of_Some [OF Some] by auto
        show ?thesis
        proof (cases "i > j")
          case True
          have "yields decimal (fail_act (StartAfterEnd start end')) evs ?Q"
            by (rule yields_fail, rule bad) (use idx si Some True in \<open>fastforce simp: span_at_def\<close>)
          then show ?thesis unfolding a Some si using True by simp
        next
          case False
          let ?sel = "\<lparr>ss_start = start, ss_end = end', ss_startIdx = i, ss_endIdx = j,
                             ss_shadowedSeqs = spliced_out ?ns i (j - i + 1)\<rparr>"
          let ?b0 = "calls_precede evs ?ns \<and> open_calls evs (take i ?ns) = 0"
            and ?b1 = "calls_precede evs ?ns \<and> open_calls evs (take (Suc j) ?ns) = 0"
          have only: "sel = ?sel \<and> ?b0 \<and> ?b1" if "span_at evs ?ns sel" "ss_start sel = start" "ss_end sel = end'"
            for sel :: surface_selection
            using idx [OF that] that si Some by (auto simp: span_at_def intro!: surface_selection.equality)
          have sel: "?b0 \<Longrightarrow> ?b1 \<Longrightarrow> span_at evs ?ns ?sel"
            using False i j by (simp add: span_at_def)
          have ask: "yields decimal (pairing_act 0 (?ns ! i)) evs (\<lambda>r. r = Inr True \<longleftrightarrow> ?b0)"
            "yields decimal (pairing_act 1 (?ns ! j)) evs (\<lambda>r. r = Inr True \<longleftrightarrow> ?b1)"
            using pairing_true [OF f i(1), of 0 decimal] pairing_true [OF f j(1), of 1 decimal] by simp_all
          have "yields decimal (bind_act (pairing_act 0 (?ns ! i)) (\<lambda>b0.
                  bind_act (guard_act b0 (StartNotBalanced start)) (\<lambda>_.
                  bind_act (pairing_act 1 (?ns ! j)) (\<lambda>b1.
                  bind_act (guard_act b1 (EndNotBalanced end')) (\<lambda>_. ret_act ?sel))))) evs ?Q"
          proof (rule yields_ask [OF ask(1)])
            assume yes: ?b0
            show "yields decimal (bind_act (pairing_act 1 (?ns ! j)) (\<lambda>b1.
                  bind_act (guard_act b1 (EndNotBalanced end')) (\<lambda>_. ret_act ?sel))) evs ?Q"
            proof (rule yields_ask [OF ask(2)])
              assume ?b1
              have "?Q (Inr ?sel)"
                using sel [OF yes \<open>?b1\<close>] only by (metis surface_selection.select_convs(1, 2) sum.inject(2))
              then show "yields decimal (ret_act ?sel) evs ?Q" by (rule yields_ret)
            next
              fix e
              assume "\<not> ?b1"
              show "?Q (Inl e)" by (rule bad) (use only \<open>\<not> ?b1\<close> in blast)
            qed
          next
            fix e
            assume "\<not> ?b0"
            show "?Q (Inl e)" by (rule bad) (use only \<open>\<not> ?b0\<close> in blast)
          qed
          then show ?thesis unfolding a Some si using False by simp
        qed
      qed
    qed
  qed simp
qed

end
