(* ===== verification/Compaction_Safety.thy ===== *)
theory Compaction_Safety
  imports Compaction_Laws
begin

text \<open>
  The transaction as a whole: what each stage leaves, the commit, and that the bracket is closed on every
  path. Whatever runs while the code awaits is only assumed to be \<open>calm\<close>: it extends the log, opens and
  closes no compaction, and meters its own replacements.
\<close>

section \<open>What may happen during an await\<close>

definition metered_log_ok :: "(jsnum \<Rightarrow> string) \<Rightarrow> session_event list \<Rightarrow> bool" where
  "metered_log_ok decimal evs \<longleftrightarrow> (\<exists>st reps. foldSurface evs = Inr (st, reps) \<and> metered decimal evs reps)"

text \<open>Events that neither belong to a compaction nor mark the end of a seed.\<close>

fun transaction_free :: "event_data \<Rightarrow> bool" where
  "transaction_free (CompactionStart _ _ _) = False"
| "transaction_free (CompactionSummary _) = False"
| "transaction_free (CompactionEnd _ _ _ _) = False"
| "transaction_free EndSeed = False"
| "transaction_free _ = True"

lemma free_not_bracket: "transaction_free d \<Longrightarrow> \<not> bracket_event d"
  by (cases d) simp_all

definition calm :: "(jsnum \<Rightarrow> string) \<Rightarrow> session_event list \<Rightarrow> session_event list \<Rightarrow> bool" where
  "calm decimal evs extra \<longleftrightarrow>
     (\<forall>ev \<in> set extra. transaction_free (ev_data ev))
     \<and> (metered_log_ok decimal evs \<longrightarrow> metered_log_ok decimal (evs @ extra))"

definition await_ok :: "(jsnum \<Rightarrow> string) \<Rightarrow> 'a act \<Rightarrow> bool" where
  "await_ok decimal m \<longleftrightarrow>
     (\<forall>h h' r. host_ok decimal h \<longrightarrow> m h = (h', r) \<longrightarrow>
        host_ok decimal h' \<and> (\<exists>extra. hlog h' = hlog h @ extra \<and> calm decimal (hlog h) extra))"

lemma calm_Nil [simp]: "calm decimal evs []"
  by (simp add: calm_def)

lemma await_okD:
  assumes "await_ok decimal m" and "host_ok decimal h" and "m h = (h', r)"
  obtains extra where "host_ok decimal h'" "hlog h' = hlog h @ extra" "calm decimal (hlog h) extra"
  using assms unfolding await_ok_def by blast

lemma host_folds:
  assumes "host_ok decimal h"
  obtains st reps where "foldSurface (hlog h) = Inr (st, reps)"
  using assms by (auto simp: host_ok_def session_ok_def hlog_def is_ok_iff)

section \<open>Appending\<close>

lemma host_append:
  assumes "host_ok decimal h" and "session_ok s'" and "s_log s' = hlog h @ xs"
  shows "host_ok decimal (h\<lparr>ch_session := s'\<rparr>)" and "hlog (h\<lparr>ch_session := s'\<rparr>) = hlog h @ xs"
  using assms by (auto simp: host_ok_def hlog_def pairing_cache_grows meter_state_ok_append)

lemma append_act_plain:
  assumes h: "host_ok decimal h" and f: "foldSurface (hlog h) = Inr (st, reps)"
    and d: "event_type d \<noteq> ''request/header-delta''" "\<not> isSurfaceEligibleType (event_type d)"
  obtains h' ev where "append_act clock d no_intent h = (h', Inr ev)" "host_ok decimal h'" "hlog h' = hlog h @ [ev]"
    "ev_data ev = d" "ev_seq ev = length (hlog h)" "foldSurface (hlog h') = Inr (st, reps)"
proof -
  from h have ok: "session_ok (ch_session h)" by (simp add: host_ok_def)
  let ?now = "clock (length (hlog h))" and ?s = "ch_session h"
  obtain s' where a: "session_append ?s ?now d no_intent = Inr (s', intended_event ?s ?now d no_intent)"
    and s': "session_ok s'" "s_log s' = s_log ?s @ [intended_event ?s ?now d no_intent]"
    and f': "foldSurface (s_log s') = Inr (st, reps)"
    using append_off_surface [OF ok f [unfolded hlog_def] d, of ?now] by blast
  have "append_act clock d no_intent h = (h\<lparr>ch_session := s'\<rparr>, Inr (intended_event ?s ?now d no_intent))"
    using a by (simp add: append_act_def hlog_def)
  from that [OF this host_append(1) [OF h s'(1) s'(2) [folded hlog_def]]] s'(2) f' show thesis
    by (simp add: hlog_def intended_event_def)
qed

lemma metered_log_ok_plain:
  assumes "metered_log_ok decimal evs" and "foldSurface evs = Inr (st, reps)" and "foldSurface (evs @ xs) = Inr (st', reps)"
  shows "metered_log_ok decimal (evs @ xs)"
  using assms metered_log [OF assms(2), of decimal xs] by (auto simp: metered_log_ok_def)

text \<open>The bracket events and the summary are not of the surface.\<close>

lemma compaction_off_surface:
  "\<not> isSurfaceEligibleType (event_type (CompactionStart i c t))"
  "\<not> isSurfaceEligibleType (event_type (CompactionSummary d))"
  "\<not> isSurfaceEligibleType (event_type (CompactionEnd i c t e))"
  by (simp_all add: isSurfaceEligibleType_def surface_event_types_def)

section \<open>The stages before the commit\<close>

text \<open>The selection, whatever record carries it.\<close>

definition same_span :: "'a surface_selection_scheme \<Rightarrow> 'b surface_selection_scheme \<Rightarrow> bool" where
  "same_span a b \<longleftrightarrow>
     ss_start a = ss_start b \<and> ss_end a = ss_end b \<and> ss_shadowedSeqs a = ss_shadowedSeqs b"

definition prepared_for ::
    "(jsnum \<Rightarrow> string) \<Rightarrow> session_event list \<Rightarrow> nat list \<Rightarrow> surface_selection \<Rightarrow> prepared_compaction \<Rightarrow> bool" where
  "prepared_for decimal evs ns sel p \<longleftrightarrow>
     same_span p sel \<and> span_at evs ns p
     \<and> tm_nodes (pp_measurement p) = priced decimal evs ns
     \<and> pp_selectedNodes p = priced decimal evs (ss_shadowedSeqs p)
     \<and> pp_shadowedTokenCount p = surface_price decimal evs (ss_shadowedSeqs p)
     \<and> si_messages (pp_input p) = derive_nodes evs (ss_shadowedSeqs p)"

lemma entry_spec:
  assumes f: "foldSurface evs = Inr (st, reps)"
  shows "yields decimal (compaction_entry call start end') evs (\<lambda>r. \<forall>sel turn. r = Inr (sel, turn) \<longrightarrow>
     span_at evs (sf_nodes st) sel \<and> ss_start sel = start \<and> ss_end sel = end'
     \<and> compaction_inactive (inspectCompactionEntryState evs) \<and> turn = es_openTurn (inspectCompactionEntryState evs)
     \<and> (turn = None \<longleftrightarrow> cl_owner call = Standalone))"
  (is "yields decimal _ evs ?Q")
  unfolding compaction_entry_def throwIfAborted_def
proof (rule yields_bind [where P = "\<lambda>_. True"], rule yields_guard)
  show "yields decimal (bind_act (validateSurfaceRegion start end') (\<lambda>sel h.
       let entry = inspectCompactionEntryState (s_log (ch_session h)) in
       if \<not> compaction_inactive entry then (h, Inl (ManualError ManualBusy))
       else case cl_owner call of
         Standalone \<Rightarrow>
           if es_openTurn entry \<noteq> None then (h, Inl (ManualError ManualBusy)) else (h, Inr (sel, None))
       | CurrentTurn \<Rightarrow>
           if es_openTurn entry = None then (h, Inl NoOpenTurn) else (h, Inr (sel, es_openTurn entry)))) evs ?Q"
  proof (rule yields_bind [OF validateSurfaceRegion_span [OF f]])
    fix sel :: surface_selection
    assume "\<forall>sel'. (Inr sel :: compaction_error + surface_selection) = Inr sel' \<longleftrightarrow>
      span_at evs (sf_nodes st) sel' \<and> ss_start sel' = start \<and> ss_end sel' = end'"
    then have sel: "span_at evs (sf_nodes st) sel" "ss_start sel = start" "ss_end sel = end'" by auto
    show "yields decimal (\<lambda>h. let entry = inspectCompactionEntryState (s_log (ch_session h)) in
       if \<not> compaction_inactive entry then (h, Inl (ManualError ManualBusy))
       else case cl_owner call of
         Standalone \<Rightarrow>
           if es_openTurn entry \<noteq> None then (h, Inl (ManualError ManualBusy)) else (h, Inr (sel, None))
       | CurrentTurn \<Rightarrow>
           if es_openTurn entry = None then (h, Inl NoOpenTurn) else (h, Inr (sel, es_openTurn entry))) evs ?Q"
      unfolding yields_def hlog_def
      by (auto simp: Let_def sel split: compaction_owner.splits)
  qed simp
qed simp_all

lemma prepare_spec:
  assumes f: "foldSurface evs = Inr (st, reps)" and sel: "span_at evs (sf_nodes st) sel"
  shows "yields decimal (prepareCompaction decimal sel) evs
     (\<lambda>r. \<forall>p. r = Inr p \<longrightarrow> prepared_for decimal evs (sf_nodes st) sel p)"
  (is "yields decimal _ evs ?Q")
  unfolding prepareCompaction_def
proof (rule yields_bind [OF yields_measure [OF f]])
  fix m
  assume "\<forall>t. (Inr m :: compaction_error + token_measurement) = Inr t \<longrightarrow> tm_nodes t = priced decimal evs (sf_nodes st)"
  then have m: "tm_nodes m = priced decimal evs (sf_nodes st)" by simp
  let ?sh = "spliced_out (tm_nodes m) (ss_startIdx sel) (ss_endIdx sel + 1 - ss_startIdx sel)"
  have sh: "?sh = priced decimal evs (ss_shadowedSeqs sel)"
    using sel m priced_spliced_out [of decimal evs "sf_nodes st"]
    by (simp add: span_at_def Suc_diff_le)
  let ?k = "bind_act (buildSummarizationInput (ss_shadowedSeqs sel)) (\<lambda>input.
      ret_act (surface_selection.extend sel
        \<lparr>pp_measurement = m, pp_selectedNodes = ?sh,
         pp_shadowedTokenCount = sum_list (map tn_tokens ?sh), pp_input = input\<rparr>))"
  have inp: "yields decimal (buildSummarizationInput (ss_shadowedSeqs sel)) evs
      (\<lambda>r. \<forall>i. r = Inr i \<longrightarrow> si_messages i = derive_nodes evs (ss_shadowedSeqs sel))"
    unfolding buildSummarizationInput_def
    by (rule yields_bind [OF yields_header]) (auto simp: yields_def hlog_def)
  have "yields decimal ?k evs ?Q"
  proof (rule yields_bind [OF inp])
    fix i
    assume "\<forall>j. (Inr i :: compaction_error + summarization_input) = Inr j \<longrightarrow>
      si_messages j = derive_nodes evs (ss_shadowedSeqs sel)"
    then have i: "si_messages i = derive_nodes evs (ss_shadowedSeqs sel)" by simp
    show "yields decimal (ret_act (surface_selection.extend sel
        \<lparr>pp_measurement = m, pp_selectedNodes = ?sh,
         pp_shadowedTokenCount = sum_list (map tn_tokens ?sh), pp_input = i\<rparr>)) evs ?Q"
      unfolding sh sum_tokens_priced
      by (rule yields_ret) (use sel m i in \<open>simp add: prepared_for_def same_span_def span_at_def surface_selection.defs\<close>)
  qed simp
  then show "yields decimal (let selected = ?sh in
       if map tn_seq selected \<noteq> ss_shadowedSeqs sel then fail_act SurfaceChanged
       else bind_act (buildSummarizationInput (ss_shadowedSeqs sel)) (\<lambda>input.
         ret_act (surface_selection.extend sel
           \<lparr>pp_measurement = m, pp_selectedNodes = selected,
            pp_shadowedTokenCount = sum_list (map tn_tokens selected), pp_input = input\<rparr>))) evs ?Q"
    unfolding Let_def sh by simp
qed simp

text \<open>Stable: the span is still there, with the same nodes at the same price, and still balanced.\<close>

definition span_here ::
    "(jsnum \<Rightarrow> string) \<Rightarrow> session_event list \<Rightarrow> prepared_compaction \<Rightarrow> surface_selection \<Rightarrow> bool" where
  "span_here decimal evs p cur \<longleftrightarrow>
     (\<exists>st reps. foldSurface evs = Inr (st, reps) \<and> span_at evs (sf_nodes st) cur)
     \<and> same_span cur p \<and> pp_shadowedTokenCount p = surface_price decimal evs (ss_shadowedSeqs p)"

lemma span_subset: "span_at evs ns sel \<Longrightarrow> set (ss_shadowedSeqs sel) \<subseteq> set ns"
  by (simp add: span_at_def set_spliced_out_subset)

lemma stable_spec:
  assumes f: "foldSurface evs = Inr (st, reps)" and p: "prepared_for decimal evs (sf_nodes st) sel p"
    and f': "foldSurface (evs @ extra) = Inr (st', reps')"
  shows "yields decimal (assertStable decimal rule p) (evs @ extra)
     (\<lambda>r. r = Inr () \<longrightarrow> (\<exists>cur. span_here decimal (evs @ extra) p cur))"
  (is "yields decimal _ ?evs ?Q")
proof -
  have bound: "\<forall>n \<in> set (sf_nodes st). n < length evs" using foldSurface_nodes_bound [OF f] by blast
  have "set (ss_shadowedSeqs p) \<subseteq> set (sf_nodes st)" using p span_subset unfolding prepared_for_def by blast
  then have price: "pp_shadowedTokenCount p = surface_price decimal ?evs (ss_shadowedSeqs p)"
    using p bound by (auto simp: prepared_for_def intro!: surface_price_log [symmetric])
  show ?thesis
  proof (cases rule)
    case WholeSurface
    have "yields decimal (assertWholeSurfaceUnchanged decimal p) ?evs ?Q"
      unfolding assertWholeSurfaceUnchanged_def
    proof (rule yields_bind [OF yields_measure [OF f']])
      fix m
      assume "\<forall>t. (Inr m :: compaction_error + token_measurement) = Inr t \<longrightarrow> tm_nodes t = priced decimal ?evs (sf_nodes st')"
      then have m: "tm_nodes m = priced decimal ?evs (sf_nodes st')" by simp
      show "yields decimal (guard_act (tm_nodes m = tm_nodes (pp_measurement p)) SurfaceChanged) ?evs ?Q"
      proof (rule yields_guard)
        assume "tm_nodes m = tm_nodes (pp_measurement p)"
        then have "map tn_seq (priced decimal ?evs (sf_nodes st')) = map tn_seq (priced decimal evs (sf_nodes st))"
          using m p by (simp add: prepared_for_def)
        then have ns: "sf_nodes st' = sf_nodes st" by simp
        have "span_at ?evs (sf_nodes st') p" using p span_at_log [OF bound, of extra p] by (simp add: ns prepared_for_def)
        then have "span_here decimal ?evs p (surface_selection.truncate p)"
          using f' price by (auto simp: span_here_def span_at_def same_span_def surface_selection.defs)
        then show "?Q (Inr ())" by blast
      qed simp
    qed simp
    with WholeSurface show ?thesis by (simp add: assertStable_def)
  next
    case SelectedSpan
    have v: "yields decimal (as_surface_change (validateSurfaceRegion (ss_start p) (ss_end p))) ?evs
        (\<lambda>r. \<forall>cur. r = Inr cur \<longrightarrow> span_at ?evs (sf_nodes st') cur \<and> ss_start cur = ss_start p \<and> ss_end cur = ss_end p)"
      using validateSurfaceRegion_span [OF f', of decimal "ss_start p" "ss_end p"]
      unfolding yields_def as_surface_change_def by (fastforce split: prod.splits sum.splits)
    have "yields decimal (assertSelectedSpanStable decimal p) ?evs ?Q"
      unfolding assertSelectedSpanStable_def
    proof (rule yields_bind [OF v])
      fix cur :: surface_selection
      assume cur: "\<forall>c. (Inr cur :: compaction_error + surface_selection) = Inr c \<longrightarrow>
        span_at ?evs (sf_nodes st') c \<and> ss_start c = ss_start p \<and> ss_end c = ss_end p"
      show "yields decimal (bind_act (guard_act (ss_shadowedSeqs cur = ss_shadowedSeqs p) SurfaceChanged) (\<lambda>_.
          bind_act (measure_act decimal) (\<lambda>m. guard_act
            (spliced_out (tm_nodes m) (ss_startIdx cur) (ss_endIdx cur + 1 - ss_startIdx cur) = pp_selectedNodes p)
            SurfaceChanged))) ?evs ?Q"
      proof (rule yields_bind [where P = "\<lambda>r. r = Inr () \<longrightarrow> ss_shadowedSeqs cur = ss_shadowedSeqs p"], rule yields_guard)
        fix u
        assume "Inr u = (Inr () :: compaction_error + unit) \<longrightarrow> ss_shadowedSeqs cur = ss_shadowedSeqs p"
        then have "span_here decimal ?evs p cur" using cur f' price by (auto simp: span_here_def same_span_def)
        then show "yields decimal (bind_act (measure_act decimal) (\<lambda>m. guard_act
            (spliced_out (tm_nodes m) (ss_startIdx cur) (ss_endIdx cur + 1 - ss_startIdx cur) = pp_selectedNodes p)
            SurfaceChanged)) ?evs ?Q"
          by (intro yields_bind [OF yields_measure [OF f']] yields_guard) auto
      qed simp_all
    qed simp
    with SelectedSpan show ?thesis by (simp add: assertStable_def)
  qed
qed

text \<open>Everything before \<open>stage = 'commit'\<close>.\<close>

definition ready ::
    "(jsnum \<Rightarrow> string) \<Rightarrow> compaction_call \<Rightarrow> surface_selection \<Rightarrow> session_event list
     \<Rightarrow> prepared_compaction \<times> summary_result \<times> message \<Rightarrow> bool" where
  "ready decimal call sel evs x \<longleftrightarrow>
     (case x of (p, result, checkpoint) \<Rightarrow>
        (\<exists>cur. span_here decimal evs p cur) \<and> same_span p sel
        \<and> checkpoint = checkpointMessage (cl_messageId call) (cl_compactionId call) (cl_sourceCommandId call) result
        \<and> estimateMessage decimal checkpoint < pp_shadowedTokenCount p)"

definition check_act ::
    "(jsnum \<Rightarrow> string) \<Rightarrow> compaction_call \<Rightarrow> prepared_compaction \<Rightarrow> summary_result \<times> message
     \<Rightarrow> (prepared_compaction \<times> summary_result \<times> message) act" where
  "check_act decimal call prep x =
     bind_act (throwIfAborted call (cl_abortedAfterSummary call)) (\<lambda>_.
     bind_act (assertStable decimal (cl_stability call) prep) (\<lambda>_. ret_act (prep, x)))"

lemma summarize_stage_eq:
  "summarize_stage decimal call sel =
     bind_act (prepareCompaction decimal sel) (\<lambda>prep. bind_act (summarizeCompaction decimal call prep) (check_act decimal call prep))"
proof -
  have "check_act decimal call prep = (\<lambda>(result, checkpoint).
      bind_act (throwIfAborted call (cl_abortedAfterSummary call)) (\<lambda>_.
      bind_act (assertStable decimal (cl_stability call) prep) (\<lambda>_. ret_act (prep, result, checkpoint))))" for prep
    by (simp add: fun_eq_iff check_act_def)
  then show ?thesis by (simp add: summarize_stage_def)
qed

lemma summarizeCompaction_cases:
  assumes s: "cl_summarize call (pp_input prep) h = (h2, r2)"
  obtains e where "summarizeCompaction decimal call prep h = (h2, Inl e)"
    | result cp where "summarizeCompaction decimal call prep h = (h2, Inr (result, cp))"
      "cp = checkpointMessage (cl_messageId call) (cl_compactionId call) (cl_sourceCommandId call) result"
      "estimateMessage decimal cp < pp_shadowedTokenCount prep"
proof (cases r2)
  case (Inl e)
  with s that(1) show thesis by (simp add: summarizeCompaction_def bind_act_simps)
next
  case (Inr result)
  let ?cp = "checkpointMessage (cl_messageId call) (cl_compactionId call) (cl_sourceCommandId call) result"
  show thesis
  proof (cases "estimateMessage decimal ?cp \<ge> pp_shadowedTokenCount prep")
    case True
    with s Inr that(1) show thesis by (simp add: summarizeCompaction_def bind_act_simps Let_def)
  next
    case False
    with s Inr that(2) show thesis by (simp add: summarizeCompaction_def bind_act_simps Let_def)
  qed
qed

lemma check_spec:
  assumes f: "foldSurface evs = Inr (st, reps)" and prep: "prepared_for decimal evs (sf_nodes st) sel prep"
    and f': "foldSurface (evs @ extra) = Inr (st', reps')"
    and cp: "cp = checkpointMessage (cl_messageId call) (cl_compactionId call) (cl_sourceCommandId call) result"
    and small: "estimateMessage decimal cp < pp_shadowedTokenCount prep"
  shows "yields decimal (check_act decimal call prep (result, cp)) (evs @ extra)
     (\<lambda>r. \<forall>x. r = Inr x \<longrightarrow> ready decimal call sel (evs @ extra) x)"
  unfolding check_act_def throwIfAborted_def
proof (rule yields_bind [where P = "\<lambda>_. True"], rule yields_guard)
  show "yields decimal (bind_act (assertStable decimal (cl_stability call) prep) (\<lambda>_. ret_act (prep, result, cp)))
      (evs @ extra) (\<lambda>r. \<forall>x. r = Inr x \<longrightarrow> ready decimal call sel (evs @ extra) x)"
  proof (rule yields_bind [OF stable_spec [OF f prep f']])
    fix u
    assume "Inr u = (Inr () :: compaction_error + unit) \<longrightarrow> (\<exists>cur. span_here decimal (evs @ extra) prep cur)"
    then have "ready decimal call sel (evs @ extra) (prep, result, cp)"
      using prep small by (simp add: ready_def cp prepared_for_def)
    then show "yields decimal (ret_act (prep, result, cp)) (evs @ extra)
        (\<lambda>r. \<forall>x. r = Inr x \<longrightarrow> ready decimal call sel (evs @ extra) x)" by (intro yields_ret) simp
  qed simp
qed simp_all

lemma summarize_stage_spec:
  assumes h: "host_ok decimal h" and f: "foldSurface (hlog h) = Inr (st, reps)"
    and sel: "span_at (hlog h) (sf_nodes st) sel"
    and env: "\<And>i. await_ok decimal (cl_summarize call i)"
    and run: "summarize_stage decimal call sel h = (h', r)"
  obtains extra where "host_ok decimal h'" "hlog h' = hlog h @ extra" "calm decimal (hlog h) extra"
    "\<And>x. r = Inr x \<Longrightarrow> ready decimal call sel (hlog h') x"
proof -
  obtain h1 r1 where p: "prepareCompaction decimal sel h = (h1, r1)" by fastforce
  note p' = yieldsD [OF prepare_spec [OF f sel] h p]
  show thesis
  proof (cases r1)
    case (Inl e)
    with run p have "h' = h1" "r = Inl e" by (simp_all add: summarize_stage_eq bind_act_simps)
    with p' that [of "[]"] show thesis by simp
  next
    case (Inr prep)
    with p' have prep: "prepared_for decimal (hlog h) (sf_nodes st) sel prep" by simp
    obtain h2 r2 where s: "cl_summarize call (pp_input prep) h1 = (h2, r2)" by fastforce
    from await_okD [OF env p'(1) s] p'(2) obtain extra where
      h2: "host_ok decimal h2" "hlog h2 = hlog h @ extra" "calm decimal (hlog h) extra" by metis
    have rest: "bind_act (summarizeCompaction decimal call prep) (check_act decimal call prep) h1 = (h', r)"
      using run p Inr by (simp add: summarize_stage_eq bind_act_simps)
    from s show thesis
    proof (cases rule: summarizeCompaction_cases [where decimal = decimal])
      case (1 e)
      with rest have "h' = h2" "r = Inl e" by (simp_all add: bind_act_simps)
      with h2 that show thesis by simp
    next
      case (2 result cp)
      then have last: "check_act decimal call prep (result, cp) h2 = (h', r)" using rest by (simp add: bind_act_simps)
      obtain st' reps' where f': "foldSurface (hlog h @ extra) = Inr (st', reps')"
        using host_folds [OF h2(1)] h2(2) by metis
      note done' = yieldsD [OF check_spec [OF f prep f' 2(2, 3), folded h2(2)] h2(1) last]
      show thesis
        by (rule that [of extra]) (use done' h2(2, 3) in \<open>auto simp del: split_paired_All\<close>)
    qed
  qed
qed

section \<open>The commit\<close>

text \<open>Nodes after a balanced replacement: no call is lost and no result precedes its call.\<close>

lemma calls_precede_replace:
  assumes cp: "calls_precede evs ns" and ij: "i \<le> j" "j < length ns"
    and bal: "open_calls evs (take i ns) = 0" "open_calls evs (take (Suc j) ns) = 0"
    and zero: "eventDelta (ev_data (evs ! n)) = 0"
  shows "calls_precede evs (splice ns i (j - i + 1) [n])"
proof -
  have sp: "splice ns i (j - i + 1) [n] = take i ns @ n # drop (Suc j) ns"
    using ij by (simp add: splice_def)
  have "0 \<le> open_calls evs (take m (take i ns @ n # drop (Suc j) ns))" for m
  proof (cases "m \<le> i")
    case True
    then have "take m (take i ns @ n # drop (Suc j) ns) = take m ns" using ij by (simp add: min_def)
    moreover have "m \<le> length ns" using True ij by simp
    ultimately show ?thesis using cp by (simp add: calls_precede_def)
  next
    case False
    then obtain k where m: "m = Suc (i + k)" using less_imp_Suc_add [of i m] by auto
    have eq: "take m (take i ns @ n # drop (Suc j) ns) = (take i ns @ [n]) @ take k (drop (Suc j) ns)"
      using ij m by (simp add: min_def)
    have "open_calls evs (take m (take i ns @ n # drop (Suc j) ns)) = open_calls evs (take k (drop (Suc j) ns))"
      unfolding eq open_calls_append open_calls_simps bal(1) zero by simp
    also have "\<dots> = open_calls evs (take (Suc j) ns @ take k (drop (Suc j) ns))" using bal(2) by simp
    also have "\<dots> = open_calls evs (take (Suc j + k) ns)" by (metis take_add)
    also have "0 \<le> \<dots>"
      using cp by (cases "Suc j + k \<le> length ns") (auto simp: calls_precede_def)
    finally show ?thesis .
  qed
  then show ?thesis unfolding calls_precede_def sp by blast
qed

text \<open>What a commit leaves.\<close>

definition committed ::
    "(jsnum \<Rightarrow> string) \<Rightarrow> compaction_call \<Rightarrow> surface_selection \<Rightarrow> nat option \<Rightarrow> session_event list
     \<Rightarrow> session_event list \<Rightarrow> compaction_result \<Rightarrow> bool" where
  "committed decimal call sel turn before tail result \<longleftrightarrow>
     (\<exists>sm cp en d m st reps st' r pre post.
        tail = [sm, cp, en] \<and> ev_data sm = CompactionSummary d \<and> ev_data cp = UserMessage m
        \<and> ev_data en = CompactionEnd (cl_compactionId call) (cl_sourceCommandId call) turn None
        \<and> ev_seq sm = length before \<and> ev_seq cp = length before + 1 \<and> ev_seq en = length before + 2
        \<and> cs_compactionId d = cl_compactionId call \<and> cs_sourceCommandId d = cl_sourceCommandId call
        \<and> cs_rangeStart d = ss_start sel \<and> cs_rangeEnd d = ss_end sel \<and> cs_shadowedSeqs d = ss_shadowedSeqs sel
        \<and> cs_shadowedTokenCount d = surface_price decimal before (ss_shadowedSeqs sel)
        \<and> m_source m = compactCheckpointSource (cl_compactionId call) (cl_sourceCommandId call)
        \<and> m_content m = frameSummary (cs_summary d)
        \<and> cr_summarySeq result = ev_seq sm \<and> cr_endSeq result = ev_seq en
        \<and> cr_shadowedSeqs result = ss_shadowedSeqs sel
        \<and> foldSurface before = Inr (st, reps) \<and> foldSurface (before @ tail) = Inr (st', reps @ [r])
        \<and> sf_nodes st = pre @ ss_shadowedSeqs sel @ post \<and> sf_nodes st' = pre @ [ev_seq cp] @ post
        \<and> event_price decimal cp < surface_price decimal before (ss_shadowedSeqs sel)
        \<and> surface_price decimal (before @ tail) (sf_nodes st') < surface_price decimal before (sf_nodes st)
        \<and> calls_precede (before @ tail) (sf_nodes st')
        \<and> (metered decimal before reps \<longrightarrow> metered decimal (before @ tail) (reps @ [r])))"

definition aborted_tail :: "(compaction_error \<Rightarrow> string) \<Rightarrow> compaction_call \<Rightarrow> nat option \<Rightarrow> compaction_error \<Rightarrow> session_event list \<Rightarrow> bool" where
  "aborted_tail render call turn e tail \<longleftrightarrow>
     (\<exists>en. tail = [en] \<and> ev_data en = CompactionEnd (cl_compactionId call) (cl_sourceCommandId call) turn (Some (render e)))"

lemma close_failed_spec:
  assumes h: "host_ok decimal h"
  obtains h' en where "close_failed clock render call turn stage e h = (h', True, Inl (stage, e))" "host_ok decimal h'"
    "hlog h' = hlog h @ [en]" "aborted_tail render call turn e [en]" "foldSurface (hlog h') = foldSurface (hlog h)"
proof -
  obtain st reps where f: "foldSurface (hlog h) = Inr (st, reps)" by (rule host_folds [OF h])
  obtain h' en where "append_act clock
      (CompactionEnd (cl_compactionId call) (cl_sourceCommandId call) turn (Some (render e))) no_intent h = (h', Inr en)"
    "host_ok decimal h'" "hlog h' = hlog h @ [en]"
    "ev_data en = CompactionEnd (cl_compactionId call) (cl_sourceCommandId call) turn (Some (render e))"
    "foldSurface (hlog h') = foldSurface (hlog h)"
    by (rule append_act_plain [OF h f _ compaction_off_surface(3)]) (simp_all add: f)
  with that show thesis by (simp add: close_failed_def aborted_tail_def)
qed

text \<open>The replacement of a stable span, once the summary is in the log.\<close>

lemma append_checkpoint:
  assumes h: "host_ok decimal h" and f: "foldSurface (hlog h) = Inr (st, reps)"
    and cur: "span_at (hlog h) (sf_nodes st) cur" and n: "int (length (hlog h)) \<le> max_safe_integer"
    and src: "a < length (hlog h)" "b < length (hlog h)" "a \<noteq> b" "\<not> isSurfaceEvent (hlog h ! a)" "\<not> isSurfaceEvent (hlog h ! b)"
  obtains h' cp where "append_act clock (UserMessage m)
      (replacing (ss_start cur) (ss_end cur) ([a, b] @ ss_shadowedSeqs cur)) h = (h', Inr cp)"
    "host_ok decimal h'" "hlog h' = hlog h @ [cp]" "ev_data cp = UserMessage m" "ev_seq cp = length (hlog h)"
    "foldSurface (hlog h') = Inr (st\<lparr>sf_nodes := splice (sf_nodes st) (ss_startIdx cur)
          (ss_endIdx cur - ss_startIdx cur + 1) [length (hlog h)], sf_replaceGeneration := sf_replaceGeneration st + 1\<rparr>,
       reps @ [\<lparr>sr_seq = length (hlog h), sr_start = ss_start cur, sr_end = ss_end cur, sr_shadowedSeqs = ss_shadowedSeqs cur\<rparr>])"
proof -
  let ?s = "ch_session h" and ?n = "length (hlog h)"
  let ?i = "ss_startIdx cur" and ?j = "ss_endIdx cur" and ?sh = "ss_shadowedSeqs cur"
  let ?opts = "replacing (ss_start cur) (ss_end cur) ([a, b] @ ?sh)"
  let ?ev = "intended_event ?s (clock ?n) (UserMessage m) ?opts"
  from h have ok: "session_ok ?s" by (simp add: host_ok_def)
  have sh: "?sh = spliced_out (sf_nodes st) ?i (?j - ?i + 1)" using cur by (simp add: span_at_def)
  have d: "distinct (sf_nodes st)" using surface_inv_nodes(1) [OF foldSurface_inv [OF f]] .
  have nodes: "\<forall>k \<in> set (sf_nodes st). k < ?n \<and> isSurfaceEvent (hlog h ! k)"
    using surface_inv_nodes(2) [OF foldSurface_inv [OF f]] by blast
  have sub: "set ?sh \<subseteq> set (sf_nodes st)" by (rule span_subset [OF cur])
  have dist: "distinct ([a, b] @ ?sh)"
    using src(3-5) sub nodes d by (auto simp: sh spliced_out_def)
  have plan: "planSurfaceEvent st ?ev ?n (hlog h) 0 = Inr (Some (PlanReplace
     \<lparr>sr_seq = ?n, sr_start = ss_start cur, sr_end = ss_end cur, sr_shadowedSeqs = spliced_out (sf_nodes st) ?i (?j - ?i + 1)\<rparr> ?i ?j))"
    by (rule plan_replacing [where ss = "[a, b] @ ?sh"])
      (use cur n nodes d dist src sub sh rewrite_free [of ?ev] in \<open>auto simp: intended_event_def replacing_def
        isSurfaceEligibleType_def surface_event_types_def span_at_def hlog_def\<close>)
  have sup: "assertSupportedRequestHeader (UserMessage m) = Inr ()" by (simp add: assertSupportedRequestHeader_def)
  from append_planned [OF ok f [unfolded hlog_def] sup plan [unfolded hlog_def]] obtain s' where
    a: "session_append ?s (clock ?n) (UserMessage m) ?opts = Inr (s', ?ev)" and s': "session_ok s'" "s_log s' = hlog h @ [?ev]"
    and f': "foldSurface (s_log s') = Inr (st\<lparr>sf_nodes := splice (sf_nodes st) ?i (?j - ?i + 1) [?n],
        sf_replaceGeneration := sf_replaceGeneration st + 1\<rparr>,
       reps @ [\<lparr>sr_seq = ?n, sr_start = ss_start cur, sr_end = ss_end cur, sr_shadowedSeqs = ?sh\<rparr>])"
    by (auto simp: hlog_def sh)
  have "append_act clock (UserMessage m) ?opts h = (h\<lparr>ch_session := s'\<rparr>, Inr ?ev)"
    using a by (simp add: append_act_def hlog_def)
  from that [OF this host_append(1) [OF h s'(1, 2)]] s'(2) f' show thesis
    by (simp add: hlog_def intended_event_def)
qed

lemma commit_price:
  assumes cur: "span_at evs ns cur" and bound: "\<forall>n \<in> set ns. n < length evs"
    and cp: "event_price decimal ((evs @ tail) ! c) < surface_price decimal evs (ss_shadowedSeqs cur)"
  shows "surface_price decimal (evs @ tail) (splice ns (ss_startIdx cur) (ss_endIdx cur - ss_startIdx cur + 1) [c])
    < surface_price decimal evs ns"
proof -
  let ?i = "ss_startIdx cur" and ?k = "ss_endIdx cur - ss_startIdx cur + 1"
  have len: "?i + ?k \<le> length ns" and sh: "ss_shadowedSeqs cur = spliced_out ns ?i ?k" using cur by (auto simp: span_at_def)
  have "surface_price decimal (evs @ tail) (spliced_out ns ?i ?k) = surface_price decimal evs (spliced_out ns ?i ?k)"
    using bound set_spliced_out_subset [of ns] by (intro surface_price_log) blast
  with surface_price_splice [OF len, of decimal "evs @ tail" "[c]"] surface_price_log [OF bound, of decimal tail] cp
  show ?thesis by (simp add: sh)
qed

text \<open>The three events of a commit, and the surface they leave.\<close>

lemma committed_events:
  assumes f: "foldSurface l = Inr (st, reps)" and cur: "span_at l (sf_nodes st) cur"
    and p: "same_span cur p" "same_span p sel" "pp_shadowedTokenCount p = surface_price decimal l (ss_shadowedSeqs cur)"
    and m: "m = checkpointMessage (cl_messageId call) (cl_compactionId call) (cl_sourceCommandId call) result"
    and small: "estimateMessage decimal m < pp_shadowedTokenCount p"
    and sm: "ev_data sm = CompactionSummary (summary_data call p result)" "ev_seq sm = length l"
    and cp: "ev_data cp = UserMessage m" "ev_seq cp = length l + 1"
    and en: "ev_data en = CompactionEnd (cl_compactionId call) (cl_sourceCommandId call) turn None" "ev_seq en = length l + 2"
    and f3: "foldSurface (l @ [sm, cp, en]) = Inr (st\<lparr>sf_nodes := splice (sf_nodes st) (ss_startIdx cur)
          (ss_endIdx cur - ss_startIdx cur + 1) [length l + 1], sf_replaceGeneration := sf_replaceGeneration st + 1\<rparr>,
       reps @ [\<lparr>sr_seq = length l + 1, sr_start = ss_start cur, sr_end = ss_end cur, sr_shadowedSeqs = ss_shadowedSeqs cur\<rparr>])"
    and res: "cr_summarySeq res = ev_seq sm" "cr_endSeq res = ev_seq en" "cr_shadowedSeqs res = ss_shadowedSeqs p"
  shows "committed decimal call sel turn l [sm, cp, en] res"
proof -
  let ?sh = "ss_shadowedSeqs cur" and ?i = "ss_startIdx cur" and ?k = "ss_endIdx cur - ss_startIdx cur + 1"
  let ?l3 = "l @ [sm, cp, en]" and ?ns' = "splice (sf_nodes st) ?i ?k [length l + 1]"
    and ?r = "\<lparr>sr_seq = length l + 1, sr_start = ss_start cur, sr_end = ss_end cur, sr_shadowedSeqs = ?sh\<rparr>"
  have bound: "\<forall>x \<in> set (sf_nodes st). x < length l" using foldSurface_nodes_bound [OF f] by blast
  have sh: "ss_start p = ss_start cur" "ss_end p = ss_end cur" "ss_shadowedSeqs p = ?sh" "ss_shadowedSeqs sel = ?sh"
    using p by (simp_all add: same_span_def)
  have at: "?l3 ! (length l + 1) = cp" "?l3 ! length l = sm" by (simp_all add: nth_append)
  have price: "event_price decimal cp < surface_price decimal l ?sh" using small p cp by (simp add: event_price_def)
  have frame: "surface_price decimal ?l3 ?sh = surface_price decimal l ?sh"
    using bound span_subset [OF cur] by (intro surface_price_log) blast
  have "calls_precede ?l3 ?ns'"
  proof (rule calls_precede_replace)
    show "eventDelta (ev_data (?l3 ! (length l + 1))) = 0" unfolding at by (simp add: cp)
  qed (use cur span_at_log [OF bound, of "[sm, cp, en]" cur] in \<open>simp_all add: span_at_def\<close>)
  moreover have "surface_price decimal ?l3 ?ns' < surface_price decimal l (sf_nodes st)"
    by (rule commit_price [OF cur bound]) (use price at in simp)
  moreover have "metered decimal ?l3 (reps @ [?r])" if "metered decimal l reps"
    using that metered_log [OF f, of decimal "[sm, cp, en]"] at sm p sh frame by (auto simp: metered_def summary_data_def)
  moreover have "sf_nodes st = take ?i (sf_nodes st) @ ?sh @ drop (?i + ?k) (sf_nodes st)"
    using splice_split [of ?i ?k "sf_nodes st"] cur by (auto simp: span_at_def)
  moreover have "?ns' = take ?i (sf_nodes st) @ [length l + 1] @ drop (?i + ?k) (sf_nodes st)" by (simp add: splice_def)
  ultimately show ?thesis
    unfolding committed_def
    using sm cp en f f3 price p sh m res
    by (intro exI conjI) (auto simp: summary_data_def checkpointMessage_def same_span_def)
qed

lemma commit_spec:
  assumes h: "host_ok decimal h" and r: "ready decimal call sel (hlog h) (p, result, m)"
    and start: "ev_seq startEvent < length (hlog h)" "\<not> isSurfaceEvent (hlog h ! ev_seq startEvent)"
    and n: "int (length (hlog h) + 1) \<le> max_safe_integer"
  obtains h2 h3 pending en tail where
    "commitCompactionBody clock call startEvent p result m h = (h2, Inr pending)"
    "append_act clock (CompactionEnd (cl_compactionId call) (cl_sourceCommandId call) turn None) no_intent h2 = (h3, Inr en)"
    "host_ok decimal h3" "hlog h3 = hlog h @ tail"
    "committed decimal call sel turn (hlog h) tail (pending (ev_seq en))" "cr_startSeq (pending (ev_seq en)) = ev_seq startEvent"
proof -
  let ?l = "hlog h" and ?n = "length (hlog h)"
  from r obtain cur where here: "span_here decimal ?l p cur" and same: "same_span p sel"
    and m: "m = checkpointMessage (cl_messageId call) (cl_compactionId call) (cl_sourceCommandId call) result"
    and small: "estimateMessage decimal m < pp_shadowedTokenCount p" by (auto simp: ready_def)
  from here obtain st reps where f: "foldSurface ?l = Inr (st, reps)" and cur: "span_at ?l (sf_nodes st) cur"
    and eq: "same_span cur p" and count: "pp_shadowedTokenCount p = surface_price decimal ?l (ss_shadowedSeqs cur)"
    by (auto simp: span_here_def same_span_def)
  have bound: "\<forall>x \<in> set (sf_nodes st). x < length ?l" using foldSurface_nodes_bound [OF f] by blast
  let ?d = "summary_data call p result" and ?closing = "CompactionEnd (cl_compactionId call) (cl_sourceCommandId call) turn None"
  obtain h1 sm where a1: "append_act clock (CompactionSummary ?d) no_intent h = (h1, Inr sm)"
    and ok1: "host_ok decimal h1" and l1: "hlog h1 = ?l @ [sm]" and sm: "ev_data sm = CompactionSummary ?d" "ev_seq sm = ?n"
    and f1: "foldSurface (hlog h1) = Inr (st, reps)"
    by (rule append_act_plain [OF h f _ compaction_off_surface(2)]) simp_all
  have cur1: "span_at (hlog h1) (sf_nodes st) cur" using cur span_at_log [OF bound, of "[sm]" cur] l1 by simp
  have off: "\<not> isSurfaceEvent (hlog h1 ! ev_seq startEvent)" "\<not> isSurfaceEvent (hlog h1 ! ?n)"
    using start sm compaction_off_surface(2) by (simp_all add: l1 nth_append isSurfaceEvent_def)
  obtain h2 cp where a2: "append_act clock (UserMessage m)
      (replacing (ss_start cur) (ss_end cur) ([ev_seq startEvent, ?n] @ ss_shadowedSeqs cur)) h1 = (h2, Inr cp)"
    and ok2: "host_ok decimal h2" and l2: "hlog h2 = hlog h1 @ [cp]" and cp: "ev_data cp = UserMessage m" "ev_seq cp = ?n + 1"
    and f2: "foldSurface (hlog h2) = Inr (st\<lparr>sf_nodes := splice (sf_nodes st) (ss_startIdx cur)
          (ss_endIdx cur - ss_startIdx cur + 1) [?n + 1], sf_replaceGeneration := sf_replaceGeneration st + 1\<rparr>,
       reps @ [\<lparr>sr_seq = ?n + 1, sr_start = ss_start cur, sr_end = ss_end cur, sr_shadowedSeqs = ss_shadowedSeqs cur\<rparr>])"
    by (rule append_checkpoint [OF ok1 f1 cur1, of "ev_seq startEvent" ?n]) (use n l1 start off in \<open>simp_all add: nth_append\<close>)
  obtain h3 en where a3: "append_act clock ?closing no_intent h2 = (h3, Inr en)" and ok3: "host_ok decimal h3"
    and l3: "hlog h3 = hlog h2 @ [en]" and en: "ev_data en = ?closing" "ev_seq en = length (hlog h2)"
    and f3: "foldSurface (hlog h3) = foldSurface (hlog h2)"
    by (rule append_act_plain [OF ok2 f2 _ compaction_off_surface(3)]) (simp_all add: f2)
  have log3: "hlog h3 = ?l @ [sm, cp, en]" by (simp add: l1 l2 l3)
  define pending where "pending = (\<lambda>endSeq.
         \<lparr>cr_compactionId = cl_compactionId call, cr_sourceCommandId = cl_sourceCommandId call,
          cr_startSeq = ev_seq startEvent, cr_summarySeq = ev_seq sm, cr_endSeq = endSeq,
          cr_summary = su_summary result, cr_rangeStart = ss_start p, cr_rangeEnd = ss_end p,
          cr_shadowedSeqs = ss_shadowedSeqs p, cr_shadowedTokenCount = pp_shadowedTokenCount p\<rparr>)"
  have commit: "commitCompactionBody clock call startEvent p result m h = (h2, Inr pending)"
    using a1 a2 sm eq by (simp add: commitCompactionBody_def bind_act_simps pending_def same_span_def)
  have "committed decimal call sel turn ?l [sm, cp, en] (pending (ev_seq en))"
    by (rule committed_events [OF f cur eq same count m small sm cp])
      (use en f2 f3 l1 l2 log3 in \<open>simp_all add: pending_def\<close>)
  from that [OF commit a3 ok3 log3 this] show thesis by (simp add: pending_def)
qed

section \<open>The transaction\<close>

text \<open>Without any assumption on the size of the log: the host stays sound and the last event closes.\<close>

lemma append_act_cases:
  assumes h: "host_ok decimal h" and a: "append_act clock d opts h = (h', r)"
  shows "host_ok decimal h'"
    and "(\<exists>e. r = Inl e) \<and> hlog h' = hlog h \<or> (\<exists>ev. r = Inr ev \<and> hlog h' = hlog h @ [ev] \<and> ev_data ev = d)"
proof -
  have "host_ok decimal h' \<and> ((\<exists>e. r = Inl e) \<and> hlog h' = hlog h
      \<or> (\<exists>ev. r = Inr ev \<and> hlog h' = hlog h @ [ev] \<and> ev_data ev = d))"
  proof (cases "session_append (ch_session h) (clock (length (s_log (ch_session h)))) d opts")
    case (Inl e)
    with a h show ?thesis by (auto simp: append_act_def)
  next
    case (Inr x)
    obtain s ev where x: "x = (s, ev)" by (cases x)
    from h have "session_ok (ch_session h)" by (simp add: host_ok_def)
    from session_append_ok [OF this Inr [unfolded x]] have "session_ok s" "s_log s = hlog h @ [ev]" "ev_data ev = d"
      by (simp_all add: hlog_def)
    from host_append [OF h this(1, 2)] this(3) a Inr x show ?thesis by (auto simp: append_act_def)
  qed
  then show "host_ok decimal h'"
    "(\<exists>e. r = Inl e) \<and> hlog h' = hlog h \<or> (\<exists>ev. r = Inr ev \<and> hlog h' = hlog h @ [ev] \<and> ev_data ev = d)"
    by blast+
qed

lemma append_end:
  assumes h: "host_ok decimal h"
    and a: "append_act clock (CompactionEnd i c t e) no_intent h = (h', r)"
  obtains en where "r = Inr en" "host_ok decimal h'" "hlog h' = hlog h @ [en]" "ev_data en = CompactionEnd i c t e"
proof -
  obtain st reps where f: "foldSurface (hlog h) = Inr (st, reps)" by (rule host_folds [OF h])
  obtain h1 en where "append_act clock (CompactionEnd i c t e) no_intent h = (h1, Inr en)" "host_ok decimal h1"
    "hlog h1 = hlog h @ [en]" "ev_data en = CompactionEnd i c t e"
    by (rule append_act_plain [OF h f _ compaction_off_surface(3)]) simp_all
  with a that show thesis by auto
qed

lemma commit_step:
  assumes h: "host_ok decimal h" and c: "commitCompactionBody clock call startEvent p result m h = (h', r)"
  obtains xs where "host_ok decimal h'" "hlog h' = hlog h @ xs" "1 \<le> length xs"
    "\<forall>ev \<in> set xs. \<not> bracket_event (ev_data ev)"
proof -
  let ?d = "CompactionSummary (summary_data call p result)"
  obtain st reps where f: "foldSurface (hlog h) = Inr (st, reps)" by (rule host_folds [OF h])
  obtain h1 sm where a1: "append_act clock ?d no_intent h = (h1, Inr sm)" and h1: "host_ok decimal h1" "hlog h1 = hlog h @ [sm]"
    and sm: "ev_data sm = ?d"
    by (rule append_act_plain [OF h f _ compaction_off_surface(2)]) simp_all
  obtain h2 r2 where a2: "append_act clock (UserMessage m)
      (replacing (ss_start p) (ss_end p) ([ev_seq startEvent, ev_seq sm] @ ss_shadowedSeqs p)) h1 = (h2, r2)" by fastforce
  have "h' = h2" using c a1 a2 by (cases r2) (simp_all add: commitCompactionBody_def bind_act_simps)
  with append_act_cases [OF h1(1) a2] h1(2) sm that [of "[sm]"] that show thesis by (elim disjE) force+
qed

lemma body_step:
  assumes h: "host_ok decimal h" and f: "foldSurface (hlog h) = Inr (st, reps)"
    and sel: "span_at (hlog h) (sf_nodes st) sel" and env: "\<And>i. await_ok decimal (cl_summarize call i)"
    and run: "compaction_body decimal clock render call sel turn startEvent h = (h', ended, outcome)"
  obtains h1 r1 xs en where "summarize_stage decimal call sel h = (h1, r1)" "host_ok decimal h'"
    "hlog h' = hlog h @ xs @ [en]" "\<forall>ev \<in> set xs. \<not> bracket_event (ev_data ev)"
    "\<exists>i c t e. ev_data en = CompactionEnd i c t e"
    "\<And>x. r1 = Inr x \<Longrightarrow> length (hlog h1) + 2 \<le> length (hlog h')"
proof -
  obtain h1 r1 where s: "summarize_stage decimal call sel h = (h1, r1)" by fastforce
  obtain extra where h1: "host_ok decimal h1" "hlog h1 = hlog h @ extra" and calm: "calm decimal (hlog h) extra"
    using summarize_stage_spec [OF h f sel env s] by metis
  have nb: "\<forall>ev \<in> set extra. \<not> bracket_event (ev_data ev)" using calm free_not_bracket by (auto simp: calm_def)
  have fail: "\<exists>en. host_ok decimal h3 \<and> hlog h3 = hlog h2 @ [en] \<and> (\<exists>i c t e. ev_data en = CompactionEnd i c t e)"
    if "close_failed clock render call turn stage e h2 = (h3, ended, outcome)" "host_ok decimal h2" for stage e h2 h3
    using that append_end [OF that(2)] by (fastforce simp: close_failed_def split: prod.splits sum.splits)
  show thesis
  proof (cases r1)
    case (Inl e)
    with run s have "close_failed clock render call turn StageSummary e h1 = (h', ended, outcome)"
      by (simp add: compaction_body_def)
    from fail [OF this h1(1)] that [OF s, of extra] h1(2) nb Inl show thesis by auto
  next
    case (Inr x)
    obtain p result m where x: "x = (p, result, m)" by (cases x)
    obtain h2 r2 where c: "commitCompactionBody clock call startEvent p result m h1 = (h2, r2)" by fastforce
    from commit_step [OF h1(1) c] obtain xs where h2: "host_ok decimal h2" "hlog h2 = hlog h1 @ xs" "1 \<le> length xs"
      and xs: "\<forall>ev \<in> set xs. \<not> bracket_event (ev_data ev)" by blast
    have "\<exists>en. host_ok decimal h' \<and> hlog h' = hlog h2 @ [en] \<and> (\<exists>i c t e. ev_data en = CompactionEnd i c t e)"
    proof (cases r2)
      case (Inl e)
      with run s Inr x c have "close_failed clock render call turn StageCommit e h2 = (h', ended, outcome)"
        by (simp add: compaction_body_def)
      from fail [OF this h2(1)] show ?thesis .
    next
      case (Inr pending)
      obtain h3 r3 where a: "append_act clock (CompactionEnd (cl_compactionId call) (cl_sourceCommandId call) turn None)
          no_intent h2 = (h3, r3)" by fastforce
      from append_end [OF h2(1) a] obtain en where "r3 = Inr en" "host_ok decimal h3" "hlog h3 = hlog h2 @ [en]"
        "ev_data en = CompactionEnd (cl_compactionId call) (cl_sourceCommandId call) turn None" .
      moreover from this(1) have "h' = h3" using run s \<open>r1 = Inr x\<close> x c Inr a by (simp add: compaction_body_def)
      ultimately show ?thesis by blast
    qed
    then obtain en where "host_ok decimal h'" "hlog h' = hlog h @ (extra @ xs) @ [en]" "\<exists>i c t e. ev_data en = CompactionEnd i c t e"
      using h1(2) h2(2) by auto
    moreover have "length (hlog h1) + 2 \<le> length (hlog h')" using calculation(2) h1(2) h2(3) by simp
    moreover have "\<forall>ev \<in> set (extra @ xs). \<not> bracket_event (ev_data ev)" using nb xs by auto
    ultimately show thesis using that [OF s] by blast
  qed
qed

text \<open>Once the bracket is open: the log it leaves, and that it is closed.\<close>

lemma body_spec:
  assumes h: "host_ok decimal h" and f: "foldSurface (hlog h) = Inr (st, reps)"
    and sel: "span_at (hlog h) (sf_nodes st) sel" and env: "\<And>i. await_ok decimal (cl_summarize call i)"
    and start: "ev_seq startEvent < length (hlog h)" "\<not> isSurfaceEvent (hlog h ! ev_seq startEvent)"
    and run: "compaction_body decimal clock render call sel turn startEvent h = (h', ended, outcome)"
    and n: "int (length (hlog h')) \<le> max_safe_integer"
  obtains extra tail where "ended" "host_ok decimal h'" "hlog h' = hlog h @ extra @ tail" "calm decimal (hlog h) extra"
    "(\<exists>e. outcome = Inl (StageSummary, e) \<and> aborted_tail render call turn e tail
        \<and> foldSurface (hlog h @ extra @ tail) = foldSurface (hlog h @ extra))
     \<or> (\<exists>result. outcome = Inr result \<and> committed decimal call sel turn (hlog h @ extra) tail result
          \<and> cr_startSeq result = ev_seq startEvent)"
proof -
  obtain h1 r1 where s: "summarize_stage decimal call sel h = (h1, r1)" by fastforce
  obtain extra where h1: "host_ok decimal h1" "hlog h1 = hlog h @ extra" "calm decimal (hlog h) extra"
    and rdy: "\<And>x. r1 = Inr x \<Longrightarrow> ready decimal call sel (hlog h1) x"
    using summarize_stage_spec [OF h f sel env s] by metis
  show thesis
  proof (cases r1)
    case (Inl e)
    obtain h2 en where "close_failed clock render call turn StageSummary e h1 = (h2, True, Inl (StageSummary, e))"
      "host_ok decimal h2" "hlog h2 = hlog h1 @ [en]" "aborted_tail render call turn e [en]"
      "foldSurface (hlog h2) = foldSurface (hlog h1)"
      by (rule close_failed_spec [OF h1(1)])
    with run s Inl h1 have "h' = h2" "ended" "outcome = Inl (StageSummary, e)" "host_ok decimal h2"
      "hlog h' = hlog h @ extra @ [en]" "aborted_tail render call turn e [en]"
      "foldSurface (hlog h @ extra @ [en]) = foldSurface (hlog h @ extra)" by (simp_all add: compaction_body_def)
    with h1(3) that [of extra "[en]"] show thesis by blast
  next
    case (Inr x)
    obtain p result m where x: "x = (p, result, m)" by (cases x)
    have start1: "ev_seq startEvent < length (hlog h1)" "\<not> isSurfaceEvent (hlog h1 ! ev_seq startEvent)"
      using start h1(2) by (simp_all add: nth_append)
    show thesis
    proof (cases "int (length (hlog h1) + 1) \<le> max_safe_integer")
      case True
      obtain h2 h3 pending en tail where
        "commitCompactionBody clock call startEvent p result m h1 = (h2, Inr pending)"
        "append_act clock (CompactionEnd (cl_compactionId call) (cl_sourceCommandId call) turn None) no_intent h2 = (h3, Inr en)"
        "host_ok decimal h3" "hlog h3 = hlog h1 @ tail"
        "committed decimal call sel turn (hlog h1) tail (pending (ev_seq en))"
        "cr_startSeq (pending (ev_seq en)) = ev_seq startEvent"
        by (rule commit_spec [OF h1(1) rdy [OF Inr, unfolded x] start1 True])
      with run s Inr x h1 have "h' = h3" "ended" "outcome = Inr (pending (ev_seq en))" "host_ok decimal h3"
        "hlog h' = hlog h @ extra @ tail" "committed decimal call sel turn (hlog h @ extra) tail (pending (ev_seq en))"
        "cr_startSeq (pending (ev_seq en)) = ev_seq startEvent" by (simp_all add: compaction_body_def)
      with h1(3) that [of extra tail] show thesis by blast
    next
      case False
      have "length (hlog h1) + 2 \<le> length (hlog h')"
        using body_step [OF h f sel env run] s Inr by (metis Pair_inject)
      with False n show thesis by linarith
    qed
  qed
qed

text \<open>
  The log of one call: nothing is written, or a start, what happened while it waited, the closing events
  and what happened during the flush.
\<close>

definition closed_with ::
    "(jsnum \<Rightarrow> string) \<Rightarrow> (compaction_error \<Rightarrow> string) \<Rightarrow> compaction_call \<Rightarrow> surface_selection \<Rightarrow> nat option
     \<Rightarrow> session_event list \<Rightarrow> session_event list \<Rightarrow> compaction_error + compaction_result \<Rightarrow> bool" where
  "closed_with decimal render call sel turn before tail r \<longleftrightarrow>
     (\<exists>e. aborted_tail render call turn e tail \<and> foldSurface (before @ tail) = foldSurface before
        \<and> (r = Inl (if cl_owner call = Standalone then throwManualFailure StageSummary e else e) \<or> r = Inl AbortReason))
     \<or> (\<exists>result. committed decimal call sel turn before tail result
          \<and> (r = Inr result \<or> r = Inl AbortReason \<or> r = Inl (ManualError ManualPersistence)))"

lemma flush_spec:
  assumes h: "host_ok decimal h" and env: "\<And>m. cl_flush call = Some m \<Longrightarrow> await_ok decimal m"
    and run: "flush_act call ended h = (h', failed)"
  obtains extra where "host_ok decimal h'" "hlog h' = hlog h @ extra" "calm decimal (hlog h) extra"
proof (cases "ended \<and> cl_flush call \<noteq> None")
  case True
  then obtain m r where m: "cl_flush call = Some m" and r: "m h = (h', r)"
    using run by (auto simp: flush_act_def split: prod.splits sum.splits)
  from await_okD [OF env [OF m] h r] that show thesis by blast
next
  case False
  then have "h' = h" using run by (auto simp: flush_act_def split: bool.splits option.splits)
  with h that [of "[]"] show thesis by simp
qed

definition transaction_log ::
    "(jsnum \<Rightarrow> string) \<Rightarrow> (compaction_error \<Rightarrow> string) \<Rightarrow> compaction_call \<Rightarrow> nat \<Rightarrow> nat
     \<Rightarrow> session_event list \<Rightarrow> session_event \<Rightarrow> session_event list \<Rightarrow> session_event list
     \<Rightarrow> surface_selection \<Rightarrow> nat option \<Rightarrow> compaction_error + compaction_result \<Rightarrow> bool" where
  "transaction_log decimal render call start end' before sv extra tail sel turn r \<longleftrightarrow>
     ev_data sv = CompactionStart (cl_compactionId call) (cl_sourceCommandId call) turn \<and> ev_seq sv = length before
     \<and> (\<exists>st reps. foldSurface before = Inr (st, reps) \<and> foldSurface (before @ [sv]) = Inr (st, reps)
          \<and> span_at before (sf_nodes st) sel)
     \<and> ss_start sel = start \<and> ss_end sel = end'
     \<and> compaction_inactive (inspectCompactionEntryState before)
     \<and> turn = es_openTurn (inspectCompactionEntryState before) \<and> (turn = None \<longleftrightarrow> cl_owner call = Standalone)
     \<and> calm decimal (before @ [sv]) extra
     \<and> closed_with decimal render call sel turn (before @ [sv] @ extra) tail r"

lemma region_spec:
  assumes h: "host_ok decimal h"
    and env: "\<And>i. await_ok decimal (cl_summarize call i)" "\<And>m. cl_flush call = Some m \<Longrightarrow> await_ok decimal m"
    and run: "compactSurfaceRegion decimal clock render call start end' h = (h', r)"
    and n: "int (length (hlog h')) \<le> max_safe_integer"
  shows "host_ok decimal h' \<and>
     (hlog h' = hlog h \<and> (\<exists>e. r = Inl e)
      \<or> (\<exists>sv extra tail extra' sel turn. hlog h' = hlog h @ [sv] @ extra @ tail @ extra'
          \<and> transaction_log decimal render call start end' (hlog h) sv extra tail sel turn r
          \<and> calm decimal (hlog h @ [sv] @ extra @ tail) extra'))"
proof -
  obtain st reps where f: "foldSurface (hlog h) = Inr (st, reps)" by (rule host_folds [OF h])
  obtain h0 r0 where e: "compaction_entry call start end' h = (h0, r0)" by fastforce
  note e' = yieldsD [OF entry_spec [OF f] h e]
  show ?thesis
  proof (cases r0)
    case (Inl x)
    with run e e' show ?thesis by (auto simp: compactSurfaceRegion_def bind_act_simps)
  next
    case (Inr x)
    obtain sel turn where x: "x = (sel, turn)" by (cases x)
    have sel: "span_at (hlog h) (sf_nodes st) sel" "ss_start sel = start" "ss_end sel = end'"
      "compaction_inactive (inspectCompactionEntryState (hlog h))"
      "turn = es_openTurn (inspectCompactionEntryState (hlog h))" "turn = None \<longleftrightarrow> cl_owner call = Standalone"
      using e'(3) unfolding Inr x by blast+
    let ?start = "CompactionStart (cl_compactionId call) (cl_sourceCommandId call) turn"
    obtain h1 sv where a: "append_act clock ?start no_intent h0 = (h1, Inr sv)" and h1: "host_ok decimal h1"
      and l1: "hlog h1 = hlog h @ [sv]" and sv: "ev_data sv = ?start" "ev_seq sv = length (hlog h)"
      and f1: "foldSurface (hlog h1) = Inr (st, reps)"
      by (rule append_act_plain [OF e'(1) f [folded e'(2)] _ compaction_off_surface(1), where clock = clock])
        (simp_all add: e'(2))
    have bound: "\<forall>k \<in> set (sf_nodes st). k < length (hlog h)" using foldSurface_nodes_bound [OF f] by blast
    have sel1: "span_at (hlog h1) (sf_nodes st) sel" using sel(1) span_at_log [OF bound, of "[sv]" sel] l1 by simp
    have off: "ev_seq sv < length (hlog h1)" "\<not> isSurfaceEvent (hlog h1 ! ev_seq sv)"
      using sv compaction_off_surface(1) by (simp_all add: l1 isSurfaceEvent_def)
    obtain h2 ended outcome where b: "compaction_body decimal clock render call sel turn sv h1 = (h2, ended, outcome)"
      by (metis prod_cases3)
    obtain h3 failed where fl: "flush_act call ended h2 = (h3, failed)" by fastforce
    have r: "h' = h3" "r = (if cl_owner call = Standalone \<and> cl_abortedAtEnd call then Inl AbortReason
        else case outcome of
          Inl (stage, e) \<Rightarrow> Inl (if cl_owner call = Standalone then throwManualFailure stage e else e)
        | Inr result \<Rightarrow> if failed then Inl (ManualError ManualPersistence) else Inr result)"
      using run e Inr x a b fl
      by (auto simp: compactSurfaceRegion_def bind_act_simps split: sum.splits prod.splits if_splits)
    have ok2: "host_ok decimal h2" by (rule body_step [OF h1 f1 sel1 env(1) b])
    obtain extra' where h3: "host_ok decimal h3" "hlog h3 = hlog h2 @ extra'" "calm decimal (hlog h2) extra'"
      by (rule flush_spec [OF ok2 env(2) fl])
    have n2: "int (length (hlog h2)) \<le> max_safe_integer" using n r(1) h3(2) by simp
    obtain extra tail where t: "ended" "host_ok decimal h2" "hlog h2 = hlog h1 @ extra @ tail" "calm decimal (hlog h1) extra"
      and out: "(\<exists>e. outcome = Inl (StageSummary, e) \<and> aborted_tail render call turn e tail
          \<and> foldSurface (hlog h1 @ extra @ tail) = foldSurface (hlog h1 @ extra))
        \<or> (\<exists>result. outcome = Inr result \<and> committed decimal call sel turn (hlog h1 @ extra) tail result
          \<and> cr_startSeq result = ev_seq sv)"
      by (rule body_spec [OF h1 f1 sel1 env(1) off b n2])
    have "closed_with decimal render call sel turn (hlog h @ [sv] @ extra) tail r"
      using out unfolding closed_with_def r(2) by (cases failed) (auto simp: l1)
    then have "transaction_log decimal render call start end' (hlog h) sv extra tail sel turn r"
      using sv f f1 l1 sel t(4) unfolding transaction_log_def by simp
    moreover have "hlog h' = hlog h @ [sv] @ extra @ tail @ extra'" using r(1) h3(2) t(3) l1 by simp
    moreover have "calm decimal (hlog h @ [sv] @ extra @ tail) extra'" using h3(3) t(3) l1 by simp
    ultimately show ?thesis using h3(1) r(1) by blast
  qed
qed

end
