(* ===== verification/Compaction_Bracket.thy ===== *)
theory Compaction_Bracket
  imports Compaction_Safety
begin

text \<open>
  The bracket of a transaction: a closed one leaves the lock free, and the validator of compaction events
  accepts everything the transaction writes.
\<close>

section \<open>The lock\<close>

lemma last_start_free:
  "\<forall>ev \<in> set extra. transaction_free (ev_data ev) \<Longrightarrow> last_start (evs @ extra) = last_start evs"
proof (induction extra rule: rev_induct)
  case (snoc ev extra)
  then have "last_start ((evs @ extra) @ [ev]) = last_start (evs @ extra)"
    unfolding last_snoc(2) by (cases "ev_data ev") auto
  with snoc show ?case by simp
qed simp

text \<open>A closed bracket leaves the lock free.\<close>

lemma closed_frees_lock:
  assumes "closed_with decimal render call sel turn before tail r"
    and "\<forall>ev \<in> set extra. transaction_free (ev_data ev)"
  shows "compaction_inactive (inspectCompactionEntryState (before @ tail @ extra))"
proof -
  from assms(1) obtain xs en e where "before @ tail = xs @ [en]" "ev_data en = CompactionEnd (cl_compactionId call) (cl_sourceCommandId call) turn e"
    by (force simp: closed_with_def aborted_tail_def committed_def)
  then have "last_start (before @ tail) = None" by (simp add: last_snoc)
  with last_start_free [OF assms(2), of "before @ tail"] show ?thesis
    by (simp add: compaction_inactive_def inspect_entry)
qed

section \<open>The validator accepts what the transaction writes\<close>

lemma turn_free_commit:
  assumes "transaction_free (ev_data ev)" and "cst_compaction t = Some c" and "compaction_event t ev = Inr t'"
  shows "t' = t"
  using assms
  by (cases "ev_data ev")
    (auto simp: compaction_event_def validateTurnBoundary_def validateCompactionEvent_def commit_compaction_def
      applyTurnBoundary_def bind_res_Inr_iff split: if_splits)

lemma free_events_kept:
  "fold_res compaction_event t extra = Inr t' \<Longrightarrow> \<forall>ev \<in> set extra. transaction_free (ev_data ev)
   \<Longrightarrow> cst_compaction t = Some c \<Longrightarrow> t' = t"
proof (induction extra arbitrary: t)
  case (Cons ev extra)
  from Cons.prems(1) obtain t1 where t1: "compaction_event t ev = Inr t1" "fold_res compaction_event t1 extra = Inr t'"
    by (auto simp: bind_res_Inr_iff)
  have "t1 = t" using turn_free_commit [OF _ Cons.prems(3) t1(1)] Cons.prems(2) by simp
  with Cons t1(2) show ?case by simp
qed simp

definition open_transaction :: "compaction_call \<Rightarrow> nat \<Rightarrow> nat option \<Rightarrow> bool \<Rightarrow> compaction_state" where
  "open_transaction call startSeq turn summarized =
     \<lparr>cst_openTurn = turn, cst_compaction = Some
        \<lparr>ct_compactionId = cl_compactionId call, ct_sourceCommandId = cl_sourceCommandId call, ct_startSeq = startSeq,
         ct_turn = turn, ct_summarized = summarized\<rparr>\<rparr>"

definition ids_ok :: "compaction_call \<Rightarrow> bool" where
  "ids_ok call \<longleftrightarrow> cl_compactionId call \<noteq> [] \<and> cl_sourceCommandId call \<noteq> Some []"

lemma validateId_ok [simp]: "validateId v l = Inr u \<longleftrightarrow> v \<noteq> []"
  by (simp add: validateId_def)

lemma validateOptionalId_ok [simp]: "validateOptionalId v l = Inr u \<longleftrightarrow> v \<noteq> Some []"
  by (cases v) (simp_all add: validateOptionalId_def)

lemma validateSourceCommandId_ok [simp]: "validateSourceCommandId l v e = Inr u \<longleftrightarrow> v \<noteq> Some [] \<and> v = e"
  by (auto simp: validateSourceCommandId_def bind_res_Inr_iff)

lemma validateOwner_ok [simp]: "validateOwner w t l = Inr u \<longleftrightarrow> w = t"
  by (cases w; cases t) (simp_all add: validateOwner_def)

lemma accept_start:
  assumes "ids_ok call" and "cst_compaction t = None" and "cst_openTurn t = turn"
    and "ev_data sv = CompactionStart (cl_compactionId call) (cl_sourceCommandId call) turn"
  shows "compaction_event t sv = Inr (open_transaction call (ev_seq sv) turn False)"
  using assms
  by (auto simp: compaction_event_def validateTurnBoundary_def validateCompactionEvent_def commit_compaction_def
      applyTurnBoundary_def bind_res_Inr_iff open_transaction_def ids_ok_def)

lemma accept_end:
  assumes "ids_ok call" and "err = None \<longrightarrow> summarized"
    and "ev_data en = CompactionEnd (cl_compactionId call) (cl_sourceCommandId call) turn err"
  shows "compaction_event (open_transaction call n turn summarized) en = Inr \<lparr>cst_openTurn = turn, cst_compaction = None\<rparr>"
  using assms
  by (auto simp: compaction_event_def validateTurnBoundary_def validateCompactionEvent_def commit_compaction_def
      applyTurnBoundary_def bind_res_Inr_iff open_transaction_def ids_ok_def)

lemma accept_summary:
  assumes "ids_ok call" and sm: "ev_data sm = CompactionSummary d"
    and d: "cs_compactionId d = cl_compactionId call" "cs_sourceCommandId d = cl_sourceCommandId call" "cs_shadowedSeqs d \<noteq> []"
      "hd (cs_shadowedSeqs d) = cs_rangeStart d" "last (cs_shadowedSeqs d) = cs_rangeEnd d"
      "is_safe_integer (JInt (int (cs_shadowedTokenCount d)))"
  shows "compaction_event (open_transaction call n turn False) sm = Inr (open_transaction call n turn True)"
  using assms
  by (auto simp: compaction_event_def validateTurnBoundary_def validateCompactionEvent_def commit_compaction_def
      applyTurnBoundary_def bind_res_Inr_iff open_transaction_def ids_ok_def simp del: is_safe_integer.simps)

lemma accept_checkpoint:
  assumes ids: "ids_ok call" and cp: "ev_data cp = UserMessage m"
    and m: "m_source m = compactCheckpointSource (cl_compactionId call) (cl_sourceCommandId call)"
  shows "compaction_event (open_transaction call n turn summarized) cp = Inr (open_transaction call n turn summarized)"
proof -
  let ?t = "open_transaction call n turn summarized"
  have "validateCheckpoint ?t (m_source m) = Inr ()"
    using ids
    by (cases "cl_sourceCommandId call")
      (auto simp: m validateCheckpoint_def compactCheckpointSource_def validateJsonId_def open_transaction_def ids_ok_def)
  then show ?thesis
    by (simp add: cp compaction_event_def validateTurnBoundary_def validateCompactionEvent_def commit_compaction_def
        applyTurnBoundary_def)
qed

text \<open>
  A transaction on a log whose validator has no compaction open: start, closing events and, with them, the
  whole stretch are accepted, provided the validator accepted what was appended in between.
\<close>

lemma transaction_accepted:
  assumes log: "transaction_log decimal render call start end' before sv extra tail sel turn r"
    and ids: "ids_ok call" and t: "lock_inv before t"
    and mid: "fold_res compaction_event (open_transaction call (ev_seq sv) turn False) extra = Inr t1"
    and count: "int (surface_price decimal (before @ [sv] @ extra) (ss_shadowedSeqs sel)) \<le> max_safe_integer"
  shows "fold_res compaction_event t (sv # extra @ tail) = Inr \<lparr>cst_openTurn = turn, cst_compaction = None\<rparr>"
proof -
  from log have sv: "ev_data sv = CompactionStart (cl_compactionId call) (cl_sourceCommandId call) turn"
    and free: "\<forall>ev \<in> set extra. transaction_free (ev_data ev)"
    and cl: "closed_with decimal render call sel turn (before @ [sv] @ extra) tail r"
    and lock: "compaction_inactive (inspectCompactionEntryState before)" "turn = es_openTurn (inspectCompactionEntryState before)"
    by (auto simp: transaction_log_def calm_def)
  from log obtain st :: surface_state where sel: "span_at before (sf_nodes st) sel" unfolding transaction_log_def by blast
  then have ends: "ss_shadowedSeqs sel \<noteq> []" "hd (ss_shadowedSeqs sel) = ss_start sel" "last (ss_shadowedSeqs sel) = ss_end sel"
    using spliced_out_ends [of "ss_startIdx sel" "ss_endIdx sel" "sf_nodes st"] by (auto simp: span_at_def)
  have start: "compaction_event t sv = Inr (open_transaction call (ev_seq sv) turn False)"
    using accept_start [OF ids _ _ sv] lock lock_agrees [OF t] by simp
  have "t1 = open_transaction call (ev_seq sv) turn False"
    by (rule free_events_kept [OF mid free]) (simp add: open_transaction_def)
  moreover have "fold_res compaction_event (open_transaction call (ev_seq sv) turn False) tail
      = Inr \<lparr>cst_openTurn = turn, cst_compaction = None\<rparr>"
  proof -
    consider (aborted) e where "aborted_tail render call turn e tail"
      | (complete) result where "committed decimal call sel turn (before @ [sv] @ extra) tail result"
      using cl unfolding closed_with_def by blast
    then show ?thesis
    proof cases
      case aborted
      then show ?thesis by (auto simp: aborted_tail_def intro!: accept_end [OF ids])
    next
      case complete
      then obtain sm cp en d m where tail: "tail = [sm, cp, en]" and sm: "ev_data sm = CompactionSummary d"
        and d: "cs_compactionId d = cl_compactionId call" "cs_sourceCommandId d = cl_sourceCommandId call"
          "cs_rangeStart d = ss_start sel" "cs_rangeEnd d = ss_end sel" "cs_shadowedSeqs d = ss_shadowedSeqs sel"
          "cs_shadowedTokenCount d = surface_price decimal (before @ [sv] @ extra) (ss_shadowedSeqs sel)"
        and cp: "ev_data cp = UserMessage m" "m_source m = compactCheckpointSource (cl_compactionId call) (cl_sourceCommandId call)"
        and en: "ev_data en = CompactionEnd (cl_compactionId call) (cl_sourceCommandId call) turn None"
        unfolding committed_def by blast
      have safe: "is_safe_integer (JInt (int (cs_shadowedTokenCount d)))" using d count by simp
      show ?thesis
        using accept_summary [OF ids sm d(1, 2) _ _ _ safe] ends d accept_checkpoint [OF ids cp] accept_end [OF ids _ en]
        by (simp add: tail)
    qed
  qed
  ultimately show ?thesis using start mid by (simp add: fold_res_append)
qed

end
