(* ===== verification/Js_Double.thy ===== *)
theory Js_Double
  imports Complex_Main Json_Value
begin

text \<open>
  The value of a JavaScript number that is not an integer, from its bit pattern, and the rounding of a
  product to the nearest double (IEEE 754, ties to even), as far as the configuration code multiplies.
\<close>

section \<open>Values\<close>

definition pow2 :: "int \<Rightarrow> rat" where
  "pow2 e = (if 0 \<le> e then 2 ^ nat e else 1 / 2 ^ nat (- e))"

lemma pow2_pos [simp]: "0 < pow2 e"
  by (simp add: pow2_def)

definition exponent_bits :: "nat \<Rightarrow> nat" where
  "exponent_bits b = (b div 2 ^ 52) mod 2 ^ 11"

definition double_of_bits :: "nat \<Rightarrow> rat" where
  "double_of_bits b =
     (let s = (if 2 ^ 63 \<le> b mod 2 ^ 64 then -1 else 1); f = b mod 2 ^ 52; x = exponent_bits b in
      if x = 0 then s * of_nat f * pow2 (- 1074)
      else s * of_nat (2 ^ 52 + f) * pow2 (int x - 1075))"

fun num_value :: "jsnum \<Rightarrow> rat" where
  "num_value (JInt i) = of_int i"
| "num_value (JFrac b) = double_of_bits b"

text \<open>\<open>Number.isFinite\<close>; an exponent of ones is an infinity or not a number.\<close>

fun is_finite :: "jsnum \<Rightarrow> bool" where
  "is_finite (JInt _) = True"
| "is_finite (JFrac b) = (exponent_bits b \<noteq> 2047)"

section \<open>Rounding\<close>

fun bit_length :: "nat \<Rightarrow> nat" where
  "bit_length n = (if n = 0 then 0 else Suc (bit_length (n div 2)))"

declare bit_length.simps [simp del]

text \<open>The exponent of the leading bit of a positive rational.\<close>

definition leading_bit :: "rat \<Rightarrow> int" where
  "leading_bit p =
     (let (a, b) = quotient_of p; d = int (bit_length (nat a)) - int (bit_length (nat b)) in
      if pow2 d \<le> p then d else d - 1)"

definition round_half_even :: "rat \<Rightarrow> int" where
  "round_half_even q =
     (let f = \<lfloor>q\<rfloor>; r = q - of_int f in
      if r < 1 / 2 then f else if r > 1 / 2 then f + 1 else if even f then f else f + 1)"

definition round_double :: "rat \<Rightarrow> rat" where
  "round_double p =
     (if p \<le> 0 then 0
      else let e = max (leading_bit p - 52) (- 1074) in of_int (round_half_even (p / pow2 e)) * pow2 e)"

text \<open>\<open>Math.floor(n * x)\<close> for a positive integer and a non-negative number.\<close>

definition floor_product :: "int \<Rightarrow> jsnum \<Rightarrow> int" where
  "floor_product n x = \<lfloor>round_double (of_int n * num_value x)\<rfloor>"

lemma round_half_even_le:
  assumes "q \<le> of_int n"
  shows "round_half_even q \<le> n"
proof -
  have f: "of_int \<lfloor>q\<rfloor> \<le> q" by simp
  show ?thesis
  proof (cases "\<lfloor>q\<rfloor> = n")
    case True
    with assms f have "q = of_int n" by linarith
    then show ?thesis by (simp add: round_half_even_def)
  next
    case False
    have "\<lfloor>q\<rfloor> \<le> n" using assms f by linarith
    with False show ?thesis by (simp add: round_half_even_def Let_def)
  qed
qed

lemma round_half_even_nonneg: "0 \<le> q \<Longrightarrow> 0 \<le> round_half_even q"
  by (simp add: round_half_even_def Let_def)

text \<open>A product that does not exceed an integer below \<open>2 ^ 53\<close> does not exceed it after rounding.\<close>

lemma bit_length_less: "n < 2 ^ bit_length n"
proof (induction n rule: bit_length.induct)
  case (1 n)
  show ?case
  proof (cases "n = 0")
    case True
    then show ?thesis by (simp add: bit_length.simps)
  next
    case False
    with 1 have "n div 2 < 2 ^ bit_length (n div 2)" by simp
    then have "n < 2 * 2 ^ bit_length (n div 2)" by linarith
    with False show ?thesis by (subst bit_length.simps) simp
  qed
qed

lemma bit_length_le: "0 < n \<Longrightarrow> 2 ^ (bit_length n - 1) \<le> n"
proof (induction n rule: bit_length.induct)
  case (1 n)
  show ?case
  proof (cases "n div 2 = 0")
    case True
    with 1 show ?thesis by (simp add: bit_length.simps [of n] bit_length.simps [of 0])
  next
    case False
    with 1 have IH: "2 ^ (bit_length (n div 2) - 1) \<le> n div 2" by simp
    have "0 < bit_length (n div 2)" using False by (simp add: bit_length.simps [of "n div 2"])
    then have "(2::nat) ^ bit_length (n div 2) = 2 * 2 ^ (bit_length (n div 2) - 1)"
      by (metis power_Suc Suc_pred')
    with IH have "2 ^ bit_length (n div 2) \<le> n" by linarith
    with 1 show ?thesis by (subst bit_length.simps) simp
  qed
qed

lemma pow2_diff: "pow2 (int x - int y) = 2 ^ x / 2 ^ y"
proof (cases "y \<le> x")
  case True
  then have "nat (int x - int y) = x - y" by linarith
  with True show ?thesis by (simp add: pow2_def power_diff)
next
  case False
  then have "nat (- (int x - int y)) = y - x" by linarith
  with False show ?thesis by (simp add: pow2_def power_diff)
qed

lemma leading_bit_le:
  assumes "0 < p"
  shows "pow2 (leading_bit p) \<le> p"
proof -
  obtain a b where q: "quotient_of p = (a, b)" by fastforce
  have b: "0 < b" using quotient_of_denom_pos [OF q] .
  have p: "p = of_int a / of_int b" using quotient_of_div [OF q] .
  have a: "0 < a" using assms b by (simp add: p zero_less_divide_iff)
  let ?m = "bit_length (nat a)" and ?n = "bit_length (nat b)"
  have "pow2 (int ?m - int ?n - 1) \<le> p"
  proof -
    have "2 ^ (?m - 1) \<le> nat a" using bit_length_le [of "nat a"] a by simp
    then have "2 ^ (?m - 1) \<le> a" using a by (simp add: le_nat_iff)
    then have A: "(2::rat) ^ (?m - 1) \<le> of_int a" by (metis of_int_le_iff of_int_numeral of_int_power)
    have "nat b < 2 ^ ?n" by (rule bit_length_less)
    then have "b < 2 ^ ?n" using b by (simp add: nat_less_iff)
    then have B: "(of_int b :: rat) \<le> 2 ^ ?n" by (metis less_imp_le of_int_le_iff of_int_numeral of_int_power)
    have "0 < ?m" using a by (simp add: bit_length.simps [of "nat a"])
    then have "pow2 (int ?m - int ?n - 1) = 2 ^ (?m - 1) / 2 ^ ?n"
      using pow2_diff [of "?m - 1" ?n] by (simp add: algebra_simps of_nat_diff)
    also have "\<dots> \<le> of_int a / of_int b" using A B a b by (intro frac_le) simp_all
    finally show ?thesis by (simp add: p)
  qed
  then show ?thesis using q by (simp add: leading_bit_def Let_def)
qed

lemma pow2_mono_le: "pow2 e \<le> 2 ^ k \<Longrightarrow> e \<le> int k"
proof (rule ccontr)
  assume "pow2 e \<le> 2 ^ k" "\<not> e \<le> int k"
  then have "k < nat e" "0 \<le> e" by linarith+
  then have "(2::rat) ^ k < 2 ^ nat e" by simp
  with \<open>pow2 e \<le> 2 ^ k\<close> \<open>0 \<le> e\<close> show False by (simp add: pow2_def)
qed

lemma round_double_le:
  assumes p: "p \<le> of_int n" and n: "0 \<le> n" "n < 2 ^ 53"
  shows "round_double p \<le> of_int n"
proof (cases "p \<le> 0")
  case True
  with n show ?thesis by (simp add: round_double_def)
next
  case False
  define e where "e = max (leading_bit p - 52) (- 1074)"
  have "pow2 (leading_bit p) \<le> 2 ^ 53"
  proof -
    have "pow2 (leading_bit p) \<le> p" using False by (intro leading_bit_le) simp
    also have "p \<le> of_int (2 ^ 53)" using p n(2) by (meson less_imp_le of_int_le_iff order_trans)
    finally show ?thesis by simp
  qed
  then have "leading_bit p \<le> 53" using pow2_mono_le [of "leading_bit p" 53] by simp
  moreover have "leading_bit p \<noteq> 53"
  proof
    assume "leading_bit p = 53"
    then have "2 ^ 53 \<le> p" using leading_bit_le [of p] False by (simp add: pow2_def)
    also note p
    finally show False using n(2) by (metis not_less of_int_le_iff of_int_numeral of_int_power)
  qed
  ultimately have e: "e \<le> 0" by (simp add: e_def)
  define k where "k = nat (- e)"
  have pe: "pow2 e = 1 / 2 ^ k" using e by (cases "e = 0") (simp_all add: pow2_def k_def)
  have "p / pow2 e \<le> of_int (n * 2 ^ k)" using p by (simp add: pe)
  from round_half_even_le [OF this] have "of_int (round_half_even (p / pow2 e)) \<le> (of_int (n * 2 ^ k) :: rat)"
    by (simp only: of_int_le_iff)
  then have "of_int (round_half_even (p / pow2 e)) * pow2 e \<le> of_int n"
    by (simp add: pe field_simps)
  then show ?thesis using False by (simp add: round_double_def e_def [symmetric])
qed

lemma floor_product_le:
  assumes "num_value x \<le> 1" and "0 \<le> n" and "n < 2 ^ 53"
  shows "floor_product n x \<le> n"
proof -
  have "of_int n * num_value x \<le> of_int n" using assms by (simp add: mult_left_le)
  from round_double_le [OF this assms(2, 3)] show ?thesis
    unfolding floor_product_def by (metis floor_mono floor_of_int)
qed

lemma floor_product_nonneg: "0 \<le> floor_product n x"
  using round_half_even_nonneg [of "of_int n * num_value x / pow2 (max (leading_bit (of_int n * num_value x) - 52) (- 1074))"]
  by (auto simp: floor_product_def round_double_def Let_def less_imp_le)

end
