(* ===== verification/Compaction_Config.thy ===== *)
theory Compaction_Config
  imports Js_Double
begin

text \<open>
  The configuration of the basic compaction backend (packages/compaction/compaction-basic/src/config.ts and
  types.ts): validation of untrusted input with defaults, the exact-target override of a policy, and the
  token budgets it gives for one context window.

  A numeric field that is validated is kept as the number it is; one validated to be an integer as a
  natural number.
\<close>

section \<open>Types\<close>

text \<open>Where an error is: the service config or an entry of its policy table.\<close>

datatype config_scope = TopLevel | PolicyAt nat

datatype config_error =
    UnknownKey config_scope string
  | NotRatio config_scope string
  | NotNonNegativeInteger config_scope string
  | NotPositiveInteger config_scope string
  | RatioAndTokens config_scope
  | NotString config_scope string
  | NotNonEmptyString config_scope string
  | TargetPairMismatch config_scope
  | AutoNotBoolean
  | RetainNotBelowThreshold config_scope
  | PoliciesNotArray
  | PolicyNotObject config_scope
  | DuplicatePolicy string string

record policy_fields =
  pf_thresholdRatio :: "jsnum option"
  pf_retainRatio :: "jsnum option"
  pf_retainTokens :: "nat option"
  pf_summarizationProvider :: "string option"
  pf_summarizationModel :: "string option"
  pf_maxTokens :: "nat option"
  pf_compactionRetries :: "nat option"
  pf_maxOverflowRetries :: "nat option"

record model_policy = policy_fields +
  mp_provider :: string
  mp_model :: string

datatype retention = RetainRatio jsnum | RetainTokens nat

record resolved_policy =
  po_thresholdRatio :: jsnum
  po_retention :: retention
  po_summarizationProvider :: string
  po_summarizationModel :: string
  po_maxTokens :: nat
  po_compactionRetries :: nat
  po_maxOverflowRetries :: nat

record resolved_config = resolved_policy +
  cf_modelPolicies :: "model_policy list"
  cf_auto :: bool

record target_policy = resolved_policy +
  tp_provider :: string
  tp_model :: string

record compact_spec =
  sp_contextWindow :: int
  sp_thresholdTokens :: int
  sp_retainTokens :: int
  sp_compactionRetries :: nat

section \<open>Assertions\<close>

fun assertRatio :: "config_scope \<Rightarrow> string \<Rightarrow> json \<Rightarrow> config_error + jsnum" where
  "assertRatio scope k (JNum n) =
     (if \<not> is_finite n \<or> num_value n \<le> 0 \<or> num_value n > 1 then Inl (NotRatio scope k) else Inr n)"
| "assertRatio scope k _ = Inl (NotRatio scope k)"

fun assertPositive :: "config_scope \<Rightarrow> string \<Rightarrow> json \<Rightarrow> config_error + nat" where
  "assertPositive scope k (JNum (JInt i)) = (if i \<le> 0 then Inl (NotPositiveInteger scope k) else Inr (nat i))"
| "assertPositive scope k _ = Inl (NotPositiveInteger scope k)"

fun assertNonNegative :: "config_scope \<Rightarrow> string \<Rightarrow> json \<Rightarrow> config_error + nat" where
  "assertNonNegative scope k (JNum (JInt i)) = (if i < 0 then Inl (NotNonNegativeInteger scope k) else Inr (nat i))"
| "assertNonNegative scope k _ = Inl (NotNonNegativeInteger scope k)"

fun assertNonEmptyString :: "config_scope \<Rightarrow> string \<Rightarrow> json option \<Rightarrow> config_error + string" where
  "assertNonEmptyString scope k (Some (JStr t)) = (if length t = 0 then Inl (NotNonEmptyString scope k) else Inr t)"
| "assertNonEmptyString scope k _ = Inl (NotNonEmptyString scope k)"

text \<open>\<open>if (value !== undefined) assert(value)\<close>.\<close>

definition when_defined :: "(json \<Rightarrow> 'e + 'a) \<Rightarrow> json option \<Rightarrow> 'e + 'a option" where
  "when_defined f v = (case v of None \<Rightarrow> Inr None | Some j \<Rightarrow> bind_res (f j) (\<lambda>a. Inr (Some a)))"

definition assertString :: "config_scope \<Rightarrow> string \<Rightarrow> json \<Rightarrow> config_error + string" where
  "assertString scope k j = (case j of JStr t \<Rightarrow> Inr t | _ \<Rightarrow> Inl (NotString scope k))"

definition validateSummarizationPair :: "config_scope \<Rightarrow> json \<Rightarrow> config_error + string option \<times> string option" where
  "validateSummarizationPair scope config =
     bind_res (when_defined (assertString scope ''summarizationProvider'') (jget ''summarizationProvider'' config)) (\<lambda>provider.
     bind_res (when_defined (assertString scope ''summarizationModel'') (jget ''summarizationModel'' config)) (\<lambda>model.
       case (provider, model) of
         (None, None) \<Rightarrow> Inr (None, None)
       | (Some p, Some m) \<Rightarrow>
           if (length p = 0) \<noteq> (length m = 0) then Inl (TargetPairMismatch scope) else Inr (Some p, Some m)
       | _ \<Rightarrow> Inl (TargetPairMismatch scope)))"

definition validatePolicy :: "config_scope \<Rightarrow> json \<Rightarrow> config_error + policy_fields" where
  "validatePolicy scope config =
     bind_res (when_defined (assertRatio scope ''thresholdRatio'') (jget ''thresholdRatio'' config)) (\<lambda>thresholdRatio.
     bind_res (when_defined (assertRatio scope ''retainRatio'') (jget ''retainRatio'' config)) (\<lambda>retainRatio.
     bind_res (when_defined (assertNonNegative scope ''retainTokens'') (jget ''retainTokens'' config)) (\<lambda>retainTokens.
     bind_res (guard_res (\<not> (retainRatio \<noteq> None \<and> retainTokens \<noteq> None)) (RatioAndTokens scope)) (\<lambda>_.
     bind_res (when_defined (assertPositive scope ''maxTokens'') (jget ''maxTokens'' config)) (\<lambda>maxTokens.
     bind_res (when_defined (assertNonNegative scope ''compactionRetries'') (jget ''compactionRetries'' config)) (\<lambda>retries.
     bind_res (when_defined (assertNonNegative scope ''maxOverflowRetries'') (jget ''maxOverflowRetries'' config)) (\<lambda>overflow.
     bind_res (validateSummarizationPair scope config) (\<lambda>(provider, model).
       Inr \<lparr>pf_thresholdRatio = thresholdRatio, pf_retainRatio = retainRatio, pf_retainTokens = retainTokens,
            pf_summarizationProvider = provider, pf_summarizationModel = model, pf_maxTokens = maxTokens,
            pf_compactionRetries = retries, pf_maxOverflowRetries = overflow\<rparr>))))))))"

definition POLICY_CONFIG_KEYS :: "string list" where
  "POLICY_CONFIG_KEYS =
     [''thresholdRatio'', ''retainRatio'', ''retainTokens'', ''summarizationProvider'', ''summarizationModel'',
      ''maxTokens'', ''compactionRetries'', ''maxOverflowRetries'']"

definition validateKeys :: "config_scope \<Rightarrow> json \<Rightarrow> string list \<Rightarrow> config_error + unit" where
  "validateKeys scope config keys =
     (case find (\<lambda>k. k \<notin> set keys) (jkeys config) of Some k \<Rightarrow> Inl (UnknownKey scope k) | None \<Rightarrow> Inr ())"

section \<open>Resolution\<close>

definition resolveRetention :: "'a policy_fields_scheme \<Rightarrow> retention \<Rightarrow> retention" where
  "resolveRetention config fallback =
     (case pf_retainTokens config of
        Some n \<Rightarrow> RetainTokens n
      | None \<Rightarrow> (case pf_retainRatio config of Some r \<Rightarrow> RetainRatio r | None \<Rightarrow> fallback))"

definition validateRatioRetention :: "config_scope \<Rightarrow> jsnum \<Rightarrow> retention \<Rightarrow> config_error + unit" where
  "validateRatioRetention scope thresholdRatio r =
     (case r of
        RetainRatio x \<Rightarrow> guard_res (num_value x < num_value thresholdRatio) (RetainNotBelowThreshold scope)
      | RetainTokens _ \<Rightarrow> Inr ())"

definition assertModelPolicy :: "config_scope \<Rightarrow> json \<Rightarrow> config_error + model_policy" where
  "assertModelPolicy scope source =
     bind_res (guard_res (is_record source) (PolicyNotObject scope)) (\<lambda>_.
     bind_res (validateKeys scope source ([''provider'', ''model''] @ POLICY_CONFIG_KEYS)) (\<lambda>_.
     bind_res (assertNonEmptyString scope ''provider'' (jget ''provider'' source)) (\<lambda>provider.
     bind_res (assertNonEmptyString scope ''model'' (jget ''model'' source)) (\<lambda>model.
     bind_res (validatePolicy scope source) (\<lambda>p.
       Inr (policy_fields.extend p \<lparr>mp_provider = provider, mp_model = model\<rparr>))))))"

definition policy_key :: "model_policy \<Rightarrow> string" where
  "policy_key p = mp_provider p @ [CHR 0x00] @ mp_model p"

text \<open>The \<open>map\<close> over the table with its set of keys seen.\<close>

fun resolve_policies :: "nat \<Rightarrow> string list \<Rightarrow> json list \<Rightarrow> config_error + model_policy list" where
  "resolve_policies index seen [] = Inr []"
| "resolve_policies index seen (source # sources) =
     bind_res (assertModelPolicy (PolicyAt index) source) (\<lambda>p.
       if policy_key p \<in> set seen then Inl (DuplicatePolicy (mp_provider p) (mp_model p))
       else bind_res (resolve_policies (Suc index) (policy_key p # seen) sources) (\<lambda>ps. Inr (p # ps)))"

definition resolveModelPolicies :: "json option \<Rightarrow> config_error + model_policy list" where
  "resolveModelPolicies configured =
     (case configured of
        None \<Rightarrow> Inr []
      | Some (JArr sources) \<Rightarrow> resolve_policies 0 [] sources
      | Some _ \<Rightarrow> Inl PoliciesNotArray)"

text \<open>0.8 and 0.16, by their bits.\<close>

definition DEFAULT_THRESHOLD_RATIO :: jsnum where
  "DEFAULT_THRESHOLD_RATIO = JFrac 4605380978949069210"

definition DEFAULT_RETAIN_RATIO :: jsnum where
  "DEFAULT_RETAIN_RATIO = JFrac 4594932627813569659"

definition or_else :: "'a option \<Rightarrow> 'a \<Rightarrow> 'a" where
  "or_else v d = (case v of Some a \<Rightarrow> a | None \<Rightarrow> d)"

definition check_policy_retention ::
    "jsnum \<Rightarrow> retention \<Rightarrow> unit \<Rightarrow> nat \<times> model_policy \<Rightarrow> config_error + unit" where
  "check_policy_retention thresholdRatio r u entry =
     validateRatioRetention (PolicyAt (fst entry)) (or_else (pf_thresholdRatio (snd entry)) thresholdRatio)
       (resolveRetention (snd entry) r)"

definition resolveConfig :: "json \<Rightarrow> config_error + resolved_config" where
  "resolveConfig config =
     bind_res (validateKeys TopLevel config (POLICY_CONFIG_KEYS @ [''modelPolicies'', ''auto''])) (\<lambda>_.
     bind_res (validatePolicy TopLevel config) (\<lambda>p.
     bind_res (when_defined (\<lambda>j. case j of JBool b \<Rightarrow> Inr b | _ \<Rightarrow> Inl AutoNotBoolean) (jget ''auto'' config)) (\<lambda>auto.
     let thresholdRatio = or_else (pf_thresholdRatio p) DEFAULT_THRESHOLD_RATIO;
         r = resolveRetention p (RetainRatio DEFAULT_RETAIN_RATIO) in
     bind_res (validateRatioRetention TopLevel thresholdRatio r) (\<lambda>_.
     bind_res (resolveModelPolicies (jget ''modelPolicies'' config)) (\<lambda>policies.
     bind_res (fold_res (check_policy_retention thresholdRatio r) () (enumerate 0 policies)) (\<lambda>_.
       Inr \<lparr>po_thresholdRatio = thresholdRatio, po_retention = r,
            po_summarizationProvider = or_else (pf_summarizationProvider p) [],
            po_summarizationModel = or_else (pf_summarizationModel p) [],
            po_maxTokens = or_else (pf_maxTokens p) 8192,
            po_compactionRetries = or_else (pf_compactionRetries p) 1,
            po_maxOverflowRetries = or_else (pf_maxOverflowRetries p) 1,
            cf_modelPolicies = policies, cf_auto = or_else auto True\<rparr>))))))"

definition no_fields :: policy_fields where
  "no_fields =
     \<lparr>pf_thresholdRatio = None, pf_retainRatio = None, pf_retainTokens = None, pf_summarizationProvider = None,
      pf_summarizationModel = None, pf_maxTokens = None, pf_compactionRetries = None, pf_maxOverflowRetries = None\<rparr>"

definition resolveTargetPolicy :: "resolved_config \<Rightarrow> string \<Rightarrow> string \<Rightarrow> target_policy" where
  "resolveTargetPolicy config provider model =
     (let override = (case find (\<lambda>p. mp_provider p = provider \<and> mp_model p = model) (cf_modelPolicies config) of
                        Some p \<Rightarrow> policy_fields.truncate p | None \<Rightarrow> no_fields)
      in \<lparr>po_thresholdRatio = or_else (pf_thresholdRatio override) (po_thresholdRatio config),
          po_retention = resolveRetention override (po_retention config),
          po_summarizationProvider = or_else (pf_summarizationProvider override) (po_summarizationProvider config),
          po_summarizationModel = or_else (pf_summarizationModel override) (po_summarizationModel config),
          po_maxTokens = or_else (pf_maxTokens override) (po_maxTokens config),
          po_compactionRetries = or_else (pf_compactionRetries override) (po_compactionRetries config),
          po_maxOverflowRetries = or_else (pf_maxOverflowRetries override) (po_maxOverflowRetries config),
          tp_provider = provider, tp_model = model\<rparr>)"

text \<open>\<open>None\<close> is the \<open>TargetPressureConfigError\<close> of the target.\<close>

definition resolveCompactSpec :: "target_policy \<Rightarrow> jsnum \<Rightarrow> compact_spec option" where
  "resolveCompactSpec policy contextWindow =
     (case contextWindow of
        JFrac _ \<Rightarrow> None
      | JInt w \<Rightarrow>
          if w \<le> 0 then None
          else let thresholdTokens = floor_product w (po_thresholdRatio policy);
                   retainTokens = (case po_retention policy of RetainRatio x \<Rightarrow> floor_product w x | RetainTokens n \<Rightarrow> int n)
               in if retainTokens \<ge> thresholdTokens then None
                  else Some \<lparr>sp_contextWindow = w, sp_thresholdTokens = thresholdTokens, sp_retainTokens = retainTokens,
                             sp_compactionRetries = po_compactionRetries policy\<rparr>)"

section \<open>Every resolved policy is consistent\<close>

definition ratio_ok :: "jsnum \<Rightarrow> bool" where
  "ratio_ok x \<longleftrightarrow> 0 < num_value x \<and> num_value x \<le> 1"

definition retention_below :: "jsnum \<Rightarrow> retention \<Rightarrow> bool" where
  "retention_below t r \<longleftrightarrow> (case r of RetainRatio x \<Rightarrow> num_value x < num_value t | RetainTokens _ \<Rightarrow> True)"

definition retention_ok :: "retention \<Rightarrow> bool" where
  "retention_ok r \<longleftrightarrow> (case r of RetainRatio x \<Rightarrow> ratio_ok x | RetainTokens _ \<Rightarrow> True)"

definition policy_ok :: "'a resolved_policy_scheme \<Rightarrow> bool" where
  "policy_ok p \<longleftrightarrow>
     ratio_ok (po_thresholdRatio p)
     \<and> retention_ok (po_retention p) \<and> retention_below (po_thresholdRatio p) (po_retention p)
     \<and> (po_summarizationProvider p = [] \<longleftrightarrow> po_summarizationModel p = []) \<and> 0 < po_maxTokens p"

definition fields_ok :: "'a policy_fields_scheme \<Rightarrow> bool" where
  "fields_ok p \<longleftrightarrow>
     (\<forall>x. pf_thresholdRatio p = Some x \<longrightarrow> ratio_ok x) \<and> (\<forall>x. pf_retainRatio p = Some x \<longrightarrow> ratio_ok x)
     \<and> (\<forall>n. pf_maxTokens p = Some n \<longrightarrow> 0 < n)
     \<and> (pf_summarizationProvider p = None \<longleftrightarrow> pf_summarizationModel p = None)
     \<and> (\<forall>a b. pf_summarizationProvider p = Some a \<longrightarrow> pf_summarizationModel p = Some b \<longrightarrow> (a = [] \<longleftrightarrow> b = []))"

lemma fields_ok_extend [simp]: "fields_ok (policy_fields.extend p m) = fields_ok p"
  "fields_ok (policy_fields.truncate q) = fields_ok q"
  by (simp_all add: fields_ok_def policy_fields.defs)

lemma truncated_policy [simp]:
  "resolveRetention (policy_fields.truncate q) r = resolveRetention q r"
  "pf_thresholdRatio (policy_fields.truncate q) = pf_thresholdRatio q"
  by (cases "pf_retainTokens q"; simp add: resolveRetention_def policy_fields.defs cong: option.case_cong)+

lemma when_defined_Some:
  "when_defined f v = Inr (Some a) \<Longrightarrow> \<exists>j. v = Some j \<and> f j = Inr a"
  by (auto simp: when_defined_def bind_res_Inr_iff split: option.splits)

lemma assertRatio_ok: "assertRatio scope k j = Inr x \<Longrightarrow> ratio_ok x"
  by (cases j) (auto simp: ratio_ok_def not_le split: if_splits)

lemma assertPositive_ok: "assertPositive scope k j = Inr n \<Longrightarrow> 0 < n"
  by (cases "(scope, k, j)" rule: assertPositive.cases) (auto split: if_splits)

lemma validateRatioRetention_ok [simp]: "validateRatioRetention scope t r = Inr u \<longleftrightarrow> retention_below t r"
  by (cases r) (simp_all add: validateRatioRetention_def retention_below_def)

lemma validatePair_ok:
  assumes "validateSummarizationPair scope config = Inr (a, b)"
  shows "a = None \<longleftrightarrow> b = None" and "a = Some x \<Longrightarrow> b = Some y \<Longrightarrow> x = [] \<longleftrightarrow> y = []"
  using assms by (auto simp: validateSummarizationPair_def bind_res_Inr_iff split: option.splits if_splits)

lemma validatePolicy_ok:
  assumes "validatePolicy scope config = Inr p"
  shows "fields_ok p"
proof -
  from assms obtain t r n m c d a b where
    t: "when_defined (assertRatio scope ''thresholdRatio'') (jget ''thresholdRatio'' config) = Inr t"
    and r: "when_defined (assertRatio scope ''retainRatio'') (jget ''retainRatio'' config) = Inr r"
    and m: "when_defined (assertPositive scope ''maxTokens'') (jget ''maxTokens'' config) = Inr m"
    and ab: "validateSummarizationPair scope config = Inr (a, b)"
    and p: "p = \<lparr>pf_thresholdRatio = t, pf_retainRatio = r, pf_retainTokens = n,
        pf_summarizationProvider = a, pf_summarizationModel = b, pf_maxTokens = m,
        pf_compactionRetries = c, pf_maxOverflowRetries = d\<rparr>"
    unfolding validatePolicy_def bind_res_Inr_iff by auto
  have "ratio_ok x" if "t = Some x" for x using t that when_defined_Some assertRatio_ok by metis
  moreover have "ratio_ok x" if "r = Some x" for x using r that when_defined_Some assertRatio_ok by metis
  moreover have "0 < x" if "m = Some x" for x using m that when_defined_Some assertPositive_ok by metis
  ultimately show ?thesis using validatePair_ok [OF ab] by (simp add: fields_ok_def p)
qed

lemma assertModelPolicy_ok: "assertModelPolicy scope source = Inr p \<Longrightarrow> fields_ok p"
  by (auto simp: assertModelPolicy_def bind_res_Inr_iff dest: validatePolicy_ok)

lemma resolve_policies_ok:
  "resolve_policies i seen sources = Inr ps \<Longrightarrow>
     (\<forall>p \<in> set ps. fields_ok p) \<and> distinct (map policy_key ps) \<and> set (map policy_key ps) \<inter> set seen = {}"
proof (induction i seen sources arbitrary: ps rule: resolve_policies.induct)
  case (1 index seen)
  then show ?case by simp
next
  case (2 index seen source sources)
  from 2(2) obtain p qs where p: "assertModelPolicy (PolicyAt index) source = Inr p" "policy_key p \<notin> set seen"
    and qs: "resolve_policies (Suc index) (policy_key p # seen) sources = Inr qs" "ps = p # qs"
    by (auto simp: bind_res_Inr_iff split: if_splits)
  from 2(1) [OF p(2) qs(1)] qs(2) p assertModelPolicy_ok [OF p(1)] show ?case by auto
qed

lemma check_all:
  "fold_res (check_policy_retention t r) () (enumerate i ps) = Inr u \<Longrightarrow> p \<in> set ps \<Longrightarrow>
   retention_below (or_else (pf_thresholdRatio p) t) (resolveRetention p r)"
  by (induction ps arbitrary: i) (auto simp: bind_res_Inr_iff check_policy_retention_def)

lemma default_ratios: "ratio_ok DEFAULT_THRESHOLD_RATIO" "ratio_ok DEFAULT_RETAIN_RATIO"
  by (simp_all add: ratio_ok_def DEFAULT_THRESHOLD_RATIO_def DEFAULT_RETAIN_RATIO_def double_of_bits_def
      exponent_bits_def pow2_def Let_def)

lemma or_else_cases: "or_else v d = d \<or> (\<exists>a. v = Some a \<and> or_else v d = a)"
  by (cases v) (simp_all add: or_else_def)

text \<open>An override merged over a consistent policy stays consistent.\<close>

lemma merged_ok:
  assumes f: "fields_ok (p :: 'a policy_fields_scheme)"
    and t: "ratio_ok t" and r: "retention_ok r"
    and below: "retention_below (or_else (pf_thresholdRatio p) t) (resolveRetention p r)"
    and pair: "a = [] \<longleftrightarrow> b = []" and m: "0 < m"
    and q: "po_thresholdRatio q = or_else (pf_thresholdRatio p) t" "po_retention q = resolveRetention p r"
      "po_summarizationProvider q = or_else (pf_summarizationProvider p) a"
      "po_summarizationModel q = or_else (pf_summarizationModel p) b" "po_maxTokens q = or_else (pf_maxTokens p) m"
  shows "policy_ok (q :: 'b resolved_policy_scheme)"
proof -
  have "ratio_ok (or_else (pf_thresholdRatio p) t)"
    using f t by (auto simp: fields_ok_def or_else_def split: option.splits)
  moreover have "retention_ok (resolveRetention p r)"
    using f r by (auto simp: fields_ok_def resolveRetention_def retention_ok_def split: option.splits)
  moreover have "or_else (pf_summarizationProvider p) a = [] \<longleftrightarrow> or_else (pf_summarizationModel p) b = []"
    using f pair
    by (cases "pf_summarizationProvider p"; cases "pf_summarizationModel p") (auto simp: fields_ok_def or_else_def)
  moreover have "0 < or_else (pf_maxTokens p) m"
    using f m by (auto simp: fields_ok_def or_else_def split: option.splits)
  ultimately show ?thesis using below by (simp add: policy_ok_def q)
qed

lemma no_fields_ok: "fields_ok no_fields" "resolveRetention no_fields r = r" "pf_thresholdRatio no_fields = None"
  by (simp_all add: no_fields_def fields_ok_def resolveRetention_def)

text \<open>What validation at load time gives for every target the service will ever meet.\<close>

lemma resolveConfig_ok:
  assumes c: "resolveConfig config = Inr c"
  shows "policy_ok c" and "policy_ok (resolveTargetPolicy c provider model)"
    and "distinct (map policy_key (cf_modelPolicies c))"
proof -
  from c obtain p policies where p: "validatePolicy TopLevel config = Inr p"
    and ps: "resolveModelPolicies (jget ''modelPolicies'' config) = Inr policies"
    and below: "retention_below (or_else (pf_thresholdRatio p) DEFAULT_THRESHOLD_RATIO)
        (resolveRetention p (RetainRatio DEFAULT_RETAIN_RATIO))"
    and all: "fold_res (check_policy_retention (po_thresholdRatio c) (po_retention c)) () (enumerate 0 policies) = Inr ()"
    and fields: "po_thresholdRatio c = or_else (pf_thresholdRatio p) DEFAULT_THRESHOLD_RATIO"
      "po_retention c = resolveRetention p (RetainRatio DEFAULT_RETAIN_RATIO)"
      "po_summarizationProvider c = or_else (pf_summarizationProvider p) []"
      "po_summarizationModel c = or_else (pf_summarizationModel p) []"
      "po_maxTokens c = or_else (pf_maxTokens p) 8192" "cf_modelPolicies c = policies"
    by (auto simp: resolveConfig_def bind_res_Inr_iff Let_def)
  have "retention_ok (RetainRatio DEFAULT_RETAIN_RATIO)" using default_ratios(2) by (simp add: retention_ok_def)
  from merged_ok [OF validatePolicy_ok [OF p] default_ratios(1) this below _ _ fields(1-5)]
  show ok: "policy_ok c" by simp
  have pol: "(\<forall>q \<in> set policies. fields_ok q) \<and> distinct (map policy_key policies)"
    using ps resolve_policies_ok by (fastforce simp: resolveModelPolicies_def split: option.splits json.splits)
  then show "distinct (map policy_key (cf_modelPolicies c))" by (simp add: fields)
  define o' where "o' = (case find (\<lambda>q. mp_provider q = provider \<and> mp_model q = model) (cf_modelPolicies c) of
      Some q \<Rightarrow> policy_fields.truncate q | None \<Rightarrow> no_fields)"
  have o': "fields_ok o' \<and> retention_below (or_else (pf_thresholdRatio o') (po_thresholdRatio c)) (resolveRetention o' (po_retention c))"
  proof (cases "find (\<lambda>q. mp_provider q = provider \<and> mp_model q = model) (cf_modelPolicies c)")
    case None
    then show ?thesis using ok by (simp add: o'_def no_fields_ok or_else_def policy_ok_def)
  next
    case (Some q)
    then have q: "q \<in> set policies" by (auto simp: fields find_Some_iff)
    from check_all [OF all q] pol q Some show ?thesis
      by (simp add: o'_def)
  qed
  from ok have parts: "ratio_ok (po_thresholdRatio c)" "retention_ok (po_retention c)"
    "po_summarizationProvider c = [] \<longleftrightarrow> po_summarizationModel c = []" "0 < po_maxTokens c" by (simp_all add: policy_ok_def)
  show "policy_ok (resolveTargetPolicy c provider model)"
    by (rule merged_ok [OF conjunct1 [OF o'] parts(1, 2) conjunct2 [OF o'] parts(3, 4)])
      (simp_all add: resolveTargetPolicy_def o'_def [symmetric] Let_def)
qed

text \<open>The budgets of one window: the retained tail is below the threshold, the threshold within the window.\<close>

lemma resolveCompactSpec_bounds:
  assumes p: "policy_ok policy" and s: "resolveCompactSpec policy (JInt w) = Some s"
  shows "0 < w" and "0 \<le> sp_retainTokens s" and "sp_retainTokens s < sp_thresholdTokens s"
    and "w < 2 ^ 53 \<Longrightarrow> sp_thresholdTokens s \<le> sp_contextWindow s" and "sp_contextWindow s = w"
proof -
  from s have w: "0 < w" and t: "sp_thresholdTokens s = floor_product w (po_thresholdRatio policy)"
    and r: "sp_retainTokens s = (case po_retention policy of RetainRatio x \<Rightarrow> floor_product w x | RetainTokens n \<Rightarrow> int n)"
    and cw: "sp_contextWindow s = w" and lt: "sp_retainTokens s < sp_thresholdTokens s"
    by (auto simp: resolveCompactSpec_def Let_def split: if_splits)
  show "0 < w" "sp_retainTokens s < sp_thresholdTokens s" "sp_contextWindow s = w" by fact+
  show "0 \<le> sp_retainTokens s" using floor_product_nonneg by (auto simp: r split: retention.splits)
  show "w < 2 ^ 53 \<Longrightarrow> sp_thresholdTokens s \<le> sp_contextWindow s"
    unfolding cw t using p w by (intro floor_product_le) (simp_all add: policy_ok_def ratio_ok_def)
qed

end
