(* ===== verification/Compaction_Engine.thy ===== *)
theory Compaction_Engine
  imports Compaction_Bracket Compaction_Config
begin

text \<open>
  The basic compaction backend (packages/compaction/compaction-basic/src/index.ts) over the transaction:
  the default summarizer (summarizer.ts), the policy of \<open>compactIfNeeded\<close>, the listeners that call it
  before a step and after a context overflow, the manual \<open>compactNow\<close>, and the \<open>/compact\<close> command
  (packages/compaction/command-compact/src/index.ts).

  The model stream, the model catalogue and what else runs during an await are host transformers. The
  engine runs for one agent and its session.
\<close>

section \<open>The default summarizer\<close>

record agent_options =
  ao_provider :: "string option"
  ao_model :: "string option"

record summarize_options =
  so_provider :: string
  so_model :: string
  so_messages :: "message list"
  so_system :: "string option"
  so_tools :: "tool_schema list option"
  so_maxTokens :: nat

definition non_empty :: "string option \<Rightarrow> bool" where
  "non_empty v \<longleftrightarrow> (case v of Some t \<Rightarrow> length t \<noteq> 0 | None \<Rightarrow> False)"

definition agent_target :: "agent_options \<Rightarrow> (string \<times> string) option" where
  "agent_target agent =
     (if non_empty (ao_provider agent) \<and> non_empty (ao_model agent)
      then Some (the (ao_provider agent), the (ao_model agent)) else None)"

text \<open>\<open>configured ?? latest ?? agentTarget\<close>.\<close>

definition summary_target ::
    "'a resolved_policy_scheme \<Rightarrow> epoch_header option \<Rightarrow> agent_options \<Rightarrow> (string \<times> string) option" where
  "summary_target config header agent =
     (if length (po_summarizationProvider config) \<noteq> 0
      then Some (po_summarizationProvider config, po_summarizationModel config)
      else case header of
        Some e \<Rightarrow> Some (cc_provider (eh_config e), cc_model (eh_config e))
      | None \<Rightarrow> agent_target agent)"

fun contentHasImage :: "content_block \<Rightarrow> bool" where
  "contentHasImage (ImageBlock _) = True"
| "contentHasImage (ToolResultBlock _ c _) = list_ex contentHasImage c"
| "contentHasImage _ = False"

fun finishError :: "finish_reason \<Rightarrow> summarizer_error option" where
  "finishError (FinishError f) = Some (StreamFailed f)"
| "finishError (FinishAborted f) = Some (StreamFailed f)"
| "finishError FinishMaxTokens = Some SummaryTruncated"
| "finishError _ = None"

definition summaryText :: "content_block list \<Rightarrow> summarizer_error + content_block list" where
  "summaryText blocks =
     (if list_ex contentHasImage blocks then Inl SummaryHasImage else Inr (filter is_text blocks))"

text \<open>From the chunks of the call to its result.\<close>

definition summary_of_stream :: "string \<Rightarrow> string \<Rightarrow> nat \<Rightarrow> stream_chunk list \<Rightarrow> summarizer_error + summary_result" where
  "summary_of_stream provider model maxTokens chunks =
     (let a = assembler_push_all chunks in
      case finishError (assembler_finish a) of
        Some e \<Rightarrow> Inl e
      | None \<Rightarrow>
          bind_res (map_error SummaryAssembly (assembler_blocks a)) (\<lambda>rawOutput.
          bind_res (summaryText rawOutput) (\<lambda>summary.
          if \<not> list_ex (\<lambda>b. length (js_trim (text_chars b)) > 0) summary then Inl SummaryHasNoText
          else Inr \<lparr>su_summary = summary, su_provider = provider, su_model = model, su_maxTokens = Some maxTokens,
                    su_usage = ba_usage a, su_rawOutput = Some rawOutput, su_llmStreamCall = True\<rparr>)))"

text \<open>\<open>instruction\<close> is the directive message the call ends with; its text and id are not read.\<close>

definition summarizeWithLlm ::
    "message \<Rightarrow> (summarize_options \<Rightarrow> stream_chunk list act) \<Rightarrow> 'a resolved_policy_scheme \<Rightarrow> agent_options
     \<Rightarrow> summarization_input \<Rightarrow> summary_result act" where
  "summarizeWithLlm instruction stream config agent input =
     bind_act header_act (\<lambda>header.
       case summary_target config header agent of
         None \<Rightarrow> fail_act (SummarizerFailed NoSummaryTarget)
       | Some (provider, model) \<Rightarrow>
           bind_act (stream \<lparr>so_provider = provider, so_model = model, so_messages = si_messages input @ [instruction],
                             so_system = si_system input, so_tools = si_tools input,
                             so_maxTokens = po_maxTokens config\<rparr>) (\<lambda>chunks h.
             (h, map_error SummarizerFailed (summary_of_stream provider model (po_maxTokens config) chunks))))"

section \<open>Targets\<close>

definition routedTarget :: "(string \<times> string) option act" where
  "routedTarget =
     bind_act header_act (\<lambda>header. ret_act
       (case header of
          None \<Rightarrow> None
        | Some e \<Rightarrow>
            if length (cc_provider (eh_config e)) = 0 \<or> length (cc_model (eh_config e)) = 0 then None
            else Some (cc_provider (eh_config e), cc_model (eh_config e))))"

definition conversationTarget :: "agent_options \<Rightarrow> (string \<times> string) option act" where
  "conversationTarget agent =
     bind_act routedTarget (\<lambda>routed. ret_act (case routed of Some t \<Rightarrow> Some t | None \<Rightarrow> agent_target agent))"

text \<open>The \<open>summarize\<close> hook: the policy of the conversation's target, or the defaults.\<close>

definition summarize_hook ::
    "message \<Rightarrow> (summarize_options \<Rightarrow> stream_chunk list act) \<Rightarrow> resolved_config \<Rightarrow> agent_options
     \<Rightarrow> summarization_input \<Rightarrow> summary_result act" where
  "summarize_hook instruction stream config agent input =
     bind_act (conversationTarget agent) (\<lambda>target.
       case target of
         None \<Rightarrow> summarizeWithLlm instruction stream config agent input
       | Some (p, m) \<Rightarrow> summarizeWithLlm instruction stream (resolveTargetPolicy config p m) agent input)"

section \<open>Automatic compaction\<close>

text \<open>
  What the engine is wired to: its config, the agent's options, the optional pruner, and the world. The
  fresh identities of the n-th transaction of a call are given by \<open>en_ids\<close>.
\<close>

record engine =
  en_config :: resolved_config
  en_agent :: agent_options
  en_pruner :: "prune_config option"
  en_decimal :: "jsnum \<Rightarrow> string"
  en_clock :: "nat \<Rightarrow> nat"
  en_render :: "compaction_error \<Rightarrow> string"
  en_instruction :: message
  en_stream :: "summarize_options \<Rightarrow> stream_chunk list act"
  en_modelContext :: "string \<Rightarrow> string \<Rightarrow> jsnum option act"
  en_ids :: "nat \<Rightarrow> string \<times> string"

datatype compaction_trigger = PressureTrigger | OverflowTrigger

definition automatic_call :: "engine \<Rightarrow> nat \<Rightarrow> compaction_call" where
  "automatic_call en n =
     \<lparr>cl_owner = CurrentTurn, cl_stability = WholeSurface, cl_sourceCommandId = None,
      cl_compactionId = fst (en_ids en n), cl_messageId = snd (en_ids en n),
      cl_abortedAtEntry = False, cl_abortedAfterSummary = False, cl_abortedAtEnd = False,
      cl_summarize = summarize_hook (en_instruction en) (en_stream en) (en_config en) (en_agent en), cl_flush = None\<rparr>"

definition compactRegion :: "engine \<Rightarrow> nat \<Rightarrow> nat \<Rightarrow> nat \<Rightarrow> compaction_result act" where
  "compactRegion en n start end' =
     compactSurfaceRegion (en_decimal en) (en_clock en) (en_render en) (automatic_call en n) start end'"

definition prune_act :: "engine \<Rightarrow> prune_config \<Rightarrow> unit act" where
  "prune_act en cfg = (\<lambda>h.
     case pruneSession (en_decimal en) (en_clock en) cfg (ch_session h) of
       (s, Inl e) \<Rightarrow> (h\<lparr>ch_session := s\<rparr>, Inl (PruneFailed e))
     | (s, Inr _) \<Rightarrow> (h\<lparr>ch_session := s\<rparr>, Inr ()))"

definition prune_and_measure :: "engine \<Rightarrow> token_measurement \<Rightarrow> token_measurement act" where
  "prune_and_measure en measurement =
     (case en_pruner en of
        None \<Rightarrow> ret_act measurement
      | Some cfg \<Rightarrow> bind_act (prune_act en cfg) (\<lambda>_. measure_act (en_decimal en)))"

definition assertNoActiveCompaction :: "unit act" where
  "assertNoActiveCompaction = (\<lambda>h.
     if compaction_inactive (inspectCompactionEntryState (s_log (ch_session h))) then (h, Inr ())
     else (h, Inl (ManualError ManualBusy)))"

text \<open>The attempts that are left, the last result and the number of the transaction.\<close>

fun compaction_attempts ::
    "engine \<Rightarrow> compact_spec \<Rightarrow> nat \<Rightarrow> nat \<Rightarrow> token_measurement \<Rightarrow> compaction_result option
     \<Rightarrow> compaction_result option act" where
  "compaction_attempts en spec 0 n measurement result =
     fail_act (StillAboveThreshold (sp_compactionRetries spec + 1) (tm_totalTokens measurement))"
| "compaction_attempts en spec (Suc left) n measurement result =
     bind_act (selectCompactableRange measurement (nat (sp_retainTokens spec))) (\<lambda>range.
       case range of
         None \<Rightarrow>
           (case result of
              None \<Rightarrow> ret_act None
            | Some _ \<Rightarrow> fail_act (StillAboveThreshold (sp_compactionRetries spec + 1) (tm_totalTokens measurement)))
       | Some (start, end') \<Rightarrow>
           bind_act (compactRegion en n start end') (\<lambda>r.
           bind_act (measure_act (en_decimal en)) (\<lambda>m.
             if tm_totalTokens m < sp_thresholdTokens spec then ret_act (Some r)
             else compaction_attempts en spec left (Suc n) m (Some r))))"

definition compact_under_pressure :: "engine \<Rightarrow> string \<Rightarrow> string \<Rightarrow> token_measurement \<Rightarrow> compaction_result option act" where
  "compact_under_pressure en provider model measurement =
     bind_act (en_modelContext en provider model) (\<lambda>context.
     bind_act assertNoActiveCompaction (\<lambda>_.
       let targetKey = provider @ ''/'' @ model in
       case context of
         None \<Rightarrow> fail_act (TargetPressureConfig targetKey)
       | Some window \<Rightarrow>
           (case resolveCompactSpec (resolveTargetPolicy (en_config en) provider model) window of
              None \<Rightarrow> fail_act (TargetPressureConfig targetKey)
            | Some spec \<Rightarrow>
                if tm_totalTokens measurement < sp_thresholdTokens spec then ret_act None
                else bind_act (prune_and_measure en measurement) (\<lambda>m.
                  if tm_totalTokens m < sp_thresholdTokens spec then ret_act None
                  else compaction_attempts en spec (sp_compactionRetries spec + 1) 0 m None))))"

definition compact_for_overflow :: "engine \<Rightarrow> token_measurement \<Rightarrow> compaction_result option act" where
  "compact_for_overflow en measurement =
     bind_act (prune_and_measure en measurement) (\<lambda>m.
     bind_act (selectCompactableRange m 0) (\<lambda>range.
       case range of
         None \<Rightarrow> ret_act None
       | Some (start, end') \<Rightarrow> bind_act (compactRegion en 0 start end') (\<lambda>r. ret_act (Some r))))"

definition compactIfNeeded :: "engine \<Rightarrow> compaction_trigger \<Rightarrow> compaction_result option act" where
  "compactIfNeeded en trigger =
     bind_act routedTarget (\<lambda>target.
       case target of
         None \<Rightarrow> ret_act None
       | Some (provider, model) \<Rightarrow>
           bind_act (measure_act (en_decimal en)) (\<lambda>measurement.
             case trigger of
               OverflowTrigger \<Rightarrow> compact_for_overflow en measurement
             | PressureTrigger \<Rightarrow> compact_under_pressure en provider model measurement))"

section \<open>The listeners\<close>

text \<open>The counters of the service for this agent: its retries, whether its session is tracked, the targets warned of.\<close>

record listener_state =
  ls_retries :: "nat option"
  ls_tracked :: bool
  ls_warned :: "string list"

datatype pre_step_log = LogNothing | LogCompacted compaction_result | LogFailed compaction_error

definition pre_step ::
    "engine \<Rightarrow> bool \<Rightarrow> listener_state \<Rightarrow> compaction_host \<Rightarrow> listener_state \<times> compaction_host \<times> pre_step_log" where
  "pre_step en aborted st h =
     (if aborted then (st, h, LogNothing)
      else case compactIfNeeded en PressureTrigger h of
        (h', Inr None) \<Rightarrow> (st, h', LogNothing)
      | (h', Inr (Some r)) \<Rightarrow> (st, h', LogCompacted r)
      | (h', Inl e) \<Rightarrow>
          (case e of
             TargetPressureConfig key \<Rightarrow>
               if key \<in> set (ls_warned st) then (st, h', LogNothing)
               else (st\<lparr>ls_warned := key # ls_warned st\<rparr>, h', LogFailed e)
           | _ \<Rightarrow> (st, h', LogFailed e)))"

definition on_idle :: "listener_state \<Rightarrow> listener_state" where
  "on_idle st = st\<lparr>ls_retries := None\<rparr>"

definition on_session_event :: "listener_state \<Rightarrow> event_data \<Rightarrow> listener_state" where
  "on_session_event st d =
     (case d of AssistantMessage _ _ _ _ _ \<Rightarrow> if ls_tracked st then st\<lparr>ls_retries := None\<rparr> else st | _ \<Rightarrow> st)"

definition CONTEXT_WINDOW_EXCEEDED_CODE :: string where
  "CONTEXT_WINDOW_EXCEEDED_CODE = ''CONTEXT_WINDOW_EXCEEDED''"

definition generation_act :: "nat act" where
  "generation_act = bind_act surface_act (\<lambda>st. ret_act (sf_replaceGeneration st))"

text \<open>
  \<open>agent/request-error\<close>: true is \<open>{ kind: 'retry' }\<close>, false \<open>next()\<close>. The signal is looked at on entry
  and after the compaction.
\<close>

definition request_error ::
    "engine \<Rightarrow> string \<Rightarrow> bool \<Rightarrow> bool \<Rightarrow> listener_state \<Rightarrow> compaction_host
     \<Rightarrow> listener_state \<times> compaction_host \<times> (compaction_error + bool)" where
  "request_error en code aborted abortedAfter st h =
     (if code \<noteq> CONTEXT_WINDOW_EXCEEDED_CODE \<or> aborted then (st, h, Inr False)
      else
        let st1 = st\<lparr>ls_tracked := True\<rparr> in
        case routedTarget h of
          (h1, Inl e) \<Rightarrow> (st1, h1, Inl e)
        | (h1, Inr None) \<Rightarrow> (st1, h1, Inr False)
        | (h1, Inr (Some (provider, model))) \<Rightarrow>
            let retries = or_else (ls_retries st1) 0 in
            if retries \<ge> po_maxOverflowRetries (resolveTargetPolicy (en_config en) provider model) then (st1, h1, Inr False)
            else (case generation_act h1 of
              (h2, Inl e) \<Rightarrow> (st1, h2, Inl e)
            | (h2, Inr generation) \<Rightarrow>
                (case compactIfNeeded en OverflowTrigger h2 of
                   (h3, result) \<Rightarrow>
                     (case generation_act h3 of
                        (h4, Inl e) \<Rightarrow> (st1, h4, Inl e)
                      | (h4, Inr generation') \<Rightarrow>
                          if abortedAfter \<or> generation' \<le> generation then (st1, h4, Inr False)
                          else (st1\<lparr>ls_retries := Some (retries + 1)\<rparr>, h4, Inr True)))))"

section \<open>Manual compaction\<close>

text \<open>
  One request: whether the agent is idle, what the signals say at each point where they are read, the
  fresh identities, and the durability checkpoint. \<open>mr_agentCancelled\<close> is the agent's own signal being the
  reason of the abort that the \<open>catch\<close> sees.
\<close>

record manual_request =
  mr_idle :: bool
  mr_abortedAtCall :: bool
  mr_abortedInTask :: bool
  mr_abortedAtEntry :: bool
  mr_abortedAfterSummary :: bool
  mr_abortedAtEnd :: bool
  mr_agentCancelled :: bool
  mr_abortedAtCatch :: bool
  mr_sourceCommandId :: "string option"
  mr_compactionId :: string
  mr_messageId :: string
  mr_flush :: "unit act"

definition manual_call :: "engine \<Rightarrow> manual_request \<Rightarrow> compaction_call" where
  "manual_call en mr =
     \<lparr>cl_owner = Standalone, cl_stability = SelectedSpan, cl_sourceCommandId = mr_sourceCommandId mr,
      cl_compactionId = mr_compactionId mr, cl_messageId = mr_messageId mr,
      cl_abortedAtEntry = mr_abortedAtEntry mr, cl_abortedAfterSummary = mr_abortedAfterSummary mr,
      cl_abortedAtEnd = mr_abortedAtEnd mr,
      cl_summarize = summarize_hook (en_instruction en) (en_stream en) (en_config en) (en_agent en),
      cl_flush = Some (mr_flush mr)\<rparr>"

definition manual_task :: "engine \<Rightarrow> manual_request \<Rightarrow> compaction_result option act" where
  "manual_task en mr =
     bind_act (guard_act (\<not> mr_abortedInTask mr) AbortReason) (\<lambda>_.
     bind_act (measure_act (en_decimal en)) (\<lambda>m.
     bind_act (selectCompactableRange m 0) (\<lambda>range.
       case range of
         None \<Rightarrow> ret_act None
       | Some (start, end') \<Rightarrow>
           bind_act (compactSurfaceRegion (en_decimal en) (en_clock en) (en_render en) (manual_call en mr) start end')
             (\<lambda>r. ret_act (Some r)))))"

definition compactNow :: "engine \<Rightarrow> manual_request \<Rightarrow> compaction_result option act" where
  "compactNow en mr = (\<lambda>h.
     if mr_abortedAtCall mr then (h, Inl AbortReason)
     else if \<not> mr_idle mr then (h, Inl (ManualError ManualBusy))
     else case manual_task en mr h of
       (h', Inl e) \<Rightarrow>
         (h', Inl (if mr_agentCancelled mr then ManualError ManualCancelled
                   else if mr_abortedAtCatch mr then AbortReason else e))
     | (h', Inr r) \<Rightarrow> (h', Inr r))"

datatype command_result = CommandSuccess string "nat option" | CommandError string

definition USAGE :: string where
  "USAGE = ''Usage: /compact (no arguments)''"

fun expectedFailure :: "manual_code \<Rightarrow> command_result" where
  "expectedFailure ManualBusy = CommandError
     ''Compaction is unavailable because this process has an active compaction, or the agent is not idle.''"
| "expectedFailure ManualCancelled = CommandError ''Compaction cancelled.''"
| "expectedFailure ManualChanged = CommandError
     ''The history selected for compaction changed before it could be replaced. The conversation is unchanged; the attempt is recorded in the session log.''"
| "expectedFailure ManualSummary = CommandError
     ''Compaction could not produce a useful summary. The conversation is unchanged; the attempt is recorded in the session log.''"
| "expectedFailure ManualCommit = CommandError
     ''Compaction did not finish cleanly; some session history may have changed. Inspect the current session state before retrying.''"
| "expectedFailure ManualPersistence = CommandError ''Compaction finished, but the session could not be saved.''"

text \<open>\<open>aborted\<close> is the invocation's signal when an error is caught.\<close>

definition executeCompact ::
    "engine \<Rightarrow> manual_request \<Rightarrow> string \<Rightarrow> bool \<Rightarrow> command_result act" where
  "executeCompact en mr rawInput aborted = (\<lambda>h.
     if length (js_trim rawInput) > 0 then (h, Inr (CommandError USAGE))
     else case compactNow en mr h of
       (h', Inr None) \<Rightarrow> (h', Inr (CommandSuccess ''No compactable history yet.'' None))
     | (h', Inr (Some r)) \<Rightarrow>
         (h', Inr (CommandSuccess
           (''Compacted '' @ nat_string (length (cr_shadowedSeqs r)) @ '' history items (~''
            @ nat_string (cr_shadowedTokenCount r) @ '' tokens).'') (Some (cr_summarySeq r))))
     | (h', Inl e) \<Rightarrow>
         if aborted then (h', Inr (CommandError ''Compaction cancelled.''))
         else case e of ManualError code \<Rightarrow> (h', Inr (expectedFailure code)) | _ \<Rightarrow> (h', Inl e))"

end
