(* ===== verification/Engine_Laws.thy ===== *)
theory Engine_Laws
  imports Compaction_Engine
begin

text \<open>
  What the policy around the transaction guarantees: how many transactions one call may open, that the
  lock is free again whatever happens, that automatic compaction reports success only below the threshold,
  and that recovery from overflows ends and only retries on durable progress.
\<close>

section \<open>Counting transactions\<close>

fun is_compaction_start :: "event_data \<Rightarrow> bool" where
  "is_compaction_start (CompactionStart _ _ _) = True"
| "is_compaction_start _ = False"

definition starts :: "session_event list \<Rightarrow> nat" where
  "starts evs = length (filter (\<lambda>ev. is_compaction_start (ev_data ev)) evs)"

lemma starts_append [simp]: "starts (xs @ ys) = starts xs + starts ys"
  by (simp add: starts_def)

lemma start_is_bracket: "is_compaction_start d \<Longrightarrow> bracket_event d"
  by (cases d) simp_all

lemma starts_none: "\<forall>ev \<in> set evs. \<not> bracket_event (ev_data ev) \<Longrightarrow> starts evs = 0"
  using start_is_bracket by (auto simp: starts_def filter_empty_conv)

definition lock_free :: "session_event list \<Rightarrow> bool" where
  "lock_free evs \<longleftrightarrow> compaction_inactive (inspectCompactionEntryState evs)"

lemma last_end_seed_free:
  "\<forall>ev \<in> set extra. transaction_free (ev_data ev) \<Longrightarrow> last_end_seed (evs @ extra) = last_end_seed evs"
proof (induction extra rule: rev_induct)
  case (snoc ev extra)
  then have "last_end_seed ((evs @ extra) @ [ev]) = last_end_seed (evs @ extra)"
    unfolding last_snoc(3) by auto
  with snoc show ?case by simp
qed simp

lemma lock_free_extra:
  "\<forall>ev \<in> set extra. transaction_free (ev_data ev) \<Longrightarrow> lock_free (evs @ extra) = lock_free evs"
  by (simp add: lock_free_def compaction_inactive_def inspect_entry last_start_free last_end_seed_free
      split: option.split)

text \<open>At most so many transactions, sound hosts, and a lock that is free again if it was.\<close>

definition opens_at_most :: "(jsnum \<Rightarrow> string) \<Rightarrow> nat \<Rightarrow> 'a act \<Rightarrow> bool" where
  "opens_at_most decimal n m \<longleftrightarrow>
     (\<forall>h h' r. host_ok decimal h \<longrightarrow> m h = (h', r) \<longrightarrow> host_ok decimal h' \<and>
        (\<exists>extra. hlog h' = hlog h @ extra \<and> starts extra \<le> n \<and> (lock_free (hlog h) \<longrightarrow> lock_free (hlog h'))))"

lemma opensD:
  assumes "opens_at_most decimal n m" and "host_ok decimal h" and "m h = (h', r)"
  obtains extra where "host_ok decimal h'" "hlog h' = hlog h @ extra" "starts extra \<le> n"
    "lock_free (hlog h) \<longrightarrow> lock_free (hlog h')"
  using assms unfolding opens_at_most_def by blast

lemma opens_bind:
  assumes m: "opens_at_most decimal n m" and k: "\<And>a. opens_at_most decimal j (k a)"
  shows "opens_at_most decimal (n + j) (bind_act m k)"
  unfolding opens_at_most_def
proof (intro allI impI)
  fix h h' :: compaction_host and r
  assume h: "host_ok decimal h" and run: "bind_act m k h = (h', r)"
  obtain h1 r1 where m1: "m h = (h1, r1)" by fastforce
  obtain xs where h1: "host_ok decimal h1" "hlog h1 = hlog h @ xs" "starts xs \<le> n" "lock_free (hlog h) \<longrightarrow> lock_free (hlog h1)"
    by (rule opensD [OF m h m1])
  show "host_ok decimal h' \<and> (\<exists>extra. hlog h' = hlog h @ extra \<and> starts extra \<le> n + j \<and> (lock_free (hlog h) \<longrightarrow> lock_free (hlog h')))"
  proof (cases r1)
    case (Inl e)
    with run m1 have "h' = h1" by (simp add: bind_act_simps)
    with h1 show ?thesis by (auto intro: exI [of _ xs])
  next
    case (Inr a)
    with run m1 have k1: "k a h1 = (h', r)" by (simp add: bind_act_simps)
    obtain ys where "host_ok decimal h'" "hlog h' = hlog h1 @ ys" "starts ys \<le> j" "lock_free (hlog h1) \<longrightarrow> lock_free (hlog h')"
      by (rule opensD [OF k h1(1) k1])
    with h1 show ?thesis by (auto intro!: exI [of _ "xs @ ys"])
  qed
qed

lemma opens_mono: "opens_at_most decimal n m \<Longrightarrow> n \<le> k \<Longrightarrow> opens_at_most decimal k m"
  unfolding opens_at_most_def by (meson order_trans)

text \<open>What only reads, or only lets others run, opens none.\<close>

definition quiet :: "(jsnum \<Rightarrow> string) \<Rightarrow> 'a act \<Rightarrow> bool" where
  "quiet decimal m \<longleftrightarrow> (\<forall>evs. is_ok (foldSurface evs) \<longrightarrow> yields decimal m evs (\<lambda>_. True))"

lemma quietD:
  assumes "quiet decimal m" and "host_ok decimal h" and "m h = (h', r)"
  shows "host_ok decimal h'" and "hlog h' = hlog h"
proof -
  obtain st reps where "foldSurface (hlog h) = Inr (st, reps)" by (rule host_folds [OF assms(2)])
  then have "yields decimal m (hlog h) (\<lambda>_. True)" using assms(1) by (simp add: quiet_def is_ok_iff)
  from yieldsD [OF this assms(2, 3)] show "host_ok decimal h'" "hlog h' = hlog h" by simp_all
qed

lemma quiet_bind: "quiet decimal m \<Longrightarrow> (\<And>a. quiet decimal (k a)) \<Longrightarrow> quiet decimal (bind_act m k)"
  unfolding quiet_def by (blast intro: yields_bind)

lemma quiet_simps [simp]: "quiet decimal (ret_act a)" "quiet decimal (fail_act e)" "quiet decimal (guard_act b e)"
  by (simp_all add: quiet_def yields_ret yields_fail yields_guard)

lemma quiet_seams:
  "quiet decimal surface_act" "quiet decimal (pairing_act i s)" "quiet decimal (measure_act decimal)" "quiet decimal header_act"
  using yields_surface yields_pairing yields_measure yields_header
  by (fastforce simp: quiet_def is_ok_iff intro: yields_mono)+

lemma quiet_await: "quiet decimal m \<Longrightarrow> await_ok decimal m"
  using quietD by (fastforce simp: await_ok_def)

lemma await_bind:
  assumes m: "await_ok decimal m" and k: "\<And>a. await_ok decimal (k a)"
  shows "await_ok decimal (bind_act m k)"
  unfolding await_ok_def
proof (intro allI impI)
  fix h h' :: compaction_host and r
  assume h: "host_ok decimal h" and run: "bind_act m k h = (h', r)"
  obtain h1 r1 where m1: "m h = (h1, r1)" by fastforce
  obtain xs where h1: "host_ok decimal h1" "hlog h1 = hlog h @ xs" "calm decimal (hlog h) xs" by (rule await_okD [OF m h m1])
  show "host_ok decimal h' \<and> (\<exists>extra. hlog h' = hlog h @ extra \<and> calm decimal (hlog h) extra)"
  proof (cases r1)
    case (Inl e)
    with run m1 h1 show ?thesis by (auto simp: bind_act_simps)
  next
    case (Inr a)
    with run m1 have k1: "k a h1 = (h', r)" by (simp add: bind_act_simps)
    obtain ys where "host_ok decimal h'" "hlog h' = hlog h1 @ ys" "calm decimal (hlog h1) ys" by (rule await_okD [OF k h1(1) k1])
    with h1 show ?thesis by (auto simp: calm_def intro!: exI [of _ "xs @ ys"])
  qed
qed

lemma await_opens_none: "await_ok decimal m \<Longrightarrow> opens_at_most decimal 0 m"
  unfolding opens_at_most_def await_ok_def calm_def
  using starts_none free_not_bracket lock_free_extra by (metis (no_types, lifting) le_refl)

lemma quiet_opens_none: "quiet decimal m \<Longrightarrow> opens_at_most decimal 0 m"
  by (intro await_opens_none quiet_await)

section \<open>The transaction opens one\<close>

lemma region_opens_one:
  assumes env: "\<And>i. await_ok decimal (cl_summarize call i)" "\<And>m. cl_flush call = Some m \<Longrightarrow> await_ok decimal m"
  shows "opens_at_most decimal 1 (compactSurfaceRegion decimal clock render call start end')"
  unfolding opens_at_most_def
proof (intro allI impI)
  fix h h' :: compaction_host and r
  assume h: "host_ok decimal h" and run: "compactSurfaceRegion decimal clock render call start end' h = (h', r)"
  obtain st reps where f: "foldSurface (hlog h) = Inr (st, reps)" by (rule host_folds [OF h])
  obtain h0 r0 where e: "compaction_entry call start end' h = (h0, r0)" by fastforce
  note e' = yieldsD [OF entry_spec [OF f] h e]
  show "host_ok decimal h' \<and> (\<exists>extra. hlog h' = hlog h @ extra \<and> starts extra \<le> 1 \<and> (lock_free (hlog h) \<longrightarrow> lock_free (hlog h')))"
  proof (cases r0)
    case (Inl x)
    with run e have "h' = h0" by (simp add: compactSurfaceRegion_def bind_act_simps)
    with e' show ?thesis by (auto simp: starts_def)
  next
    case (Inr x)
    obtain sel turn where x: "x = (sel, turn)" by (cases x)
    have sel: "span_at (hlog h) (sf_nodes st) sel" using e'(3) unfolding Inr x by blast
    let ?start = "CompactionStart (cl_compactionId call) (cl_sourceCommandId call) turn"
    obtain h1 sv where a: "append_act clock ?start no_intent h0 = (h1, Inr sv)" and h1: "host_ok decimal h1"
      and l1: "hlog h1 = hlog h @ [sv]" and sv: "ev_data sv = ?start" and f1: "foldSurface (hlog h1) = Inr (st, reps)"
      by (rule append_act_plain [OF e'(1) f [folded e'(2)] _ compaction_off_surface(1), where clock = clock])
        (simp_all add: e'(2))
    have bound: "\<forall>k \<in> set (sf_nodes st). k < length (hlog h)" using foldSurface_nodes_bound [OF f] by blast
    have sel1: "span_at (hlog h1) (sf_nodes st) sel" using sel span_at_log [OF bound, of "[sv]" sel] l1 by simp
    obtain h2 ended outcome where b: "compaction_body decimal clock render call sel turn sv h1 = (h2, ended, outcome)"
      by (metis prod_cases3)
    obtain xs en where h2: "host_ok decimal h2" "hlog h2 = hlog h1 @ xs @ [en]"
      "\<forall>ev \<in> set xs. \<not> bracket_event (ev_data ev)" "\<exists>i c t e. ev_data en = CompactionEnd i c t e"
      by (rule body_step [OF h1 f1 sel1 env(1) b])
    obtain h3 failed where fl: "flush_act call ended h2 = (h3, failed)" by fastforce
    obtain ys where h3: "host_ok decimal h3" "hlog h3 = hlog h2 @ ys" "calm decimal (hlog h2) ys"
      by (rule flush_spec [OF h2(1) env(2) fl])
    have "h' = h3"
      using run e Inr x a b fl by (auto simp: compactSurfaceRegion_def bind_act_simps split: sum.splits prod.splits if_splits)
    have free: "\<forall>ev \<in> set ys. transaction_free (ev_data ev)" using h3(3) by (simp add: calm_def)
    have "starts [sv] = 1" "starts [en] = 0" using sv h2(4) by (auto simp: starts_def)
    moreover have "starts ys = 0" using starts_none [of ys] free free_not_bracket by blast
    ultimately have "starts ([sv] @ xs @ [en] @ ys) \<le> 1"
      using starts_none [OF h2(3)] unfolding starts_append by simp
    moreover have "lock_free (hlog h2)" unfolding h2(2) using h2(4)
      by (auto simp: lock_free_def compaction_inactive_def inspect_entry last_snoc simp flip: append_assoc)
    ultimately show ?thesis
      using \<open>h' = h3\<close> h3(1, 2) h2(2) l1 lock_free_extra [OF free, of "hlog h2"]
      by (auto intro!: exI [of _ "[sv] @ xs @ [en] @ ys"])
  qed
qed

section \<open>The pruner opens none\<close>

definition extends_free :: "session \<Rightarrow> session \<Rightarrow> bool" where
  "extends_free s s' \<longleftrightarrow>
     session_ok s' \<and> (\<exists>extra. s_log s' = s_log s @ extra \<and> (\<forall>ev \<in> set extra. transaction_free (ev_data ev)))"

lemma extends_free_refl: "session_ok s \<Longrightarrow> extends_free s s"
  by (simp add: extends_free_def)

lemma extends_free_trans: "extends_free s s1 \<Longrightarrow> extends_free s1 s2 \<Longrightarrow> extends_free s s2"
  by (force simp: extends_free_def)

lemma extends_free_append:
  "session_ok s \<Longrightarrow> session_append s now d opts = Inr (s', ev) \<Longrightarrow> transaction_free d \<Longrightarrow> extends_free s s'"
  using session_append_ok(1, 2, 4) [of s now d opts s' ev] by (auto simp: extends_free_def)

lemma prune_one_extends:
  assumes ok: "session_ok s" and p: "prune_one decimal clock cfg s c = (s', r)"
  shows "extends_free s s'"
proof -
  obtain seq d where c: "c = (seq, d)" by (cases c)
  consider "s' = s"
    | t now s1 ev where "session_append s now (CompactionPrune seq seq [seq] t) no_intent = Inr (s1, ev)" "s' = s1"
    | t now s1 ev now' d' opts ev' where "session_append s now (CompactionPrune seq seq [seq] t) no_intent = Inr (s1, ev)"
        "session_append s1 now' (ToolResult d') opts = Inr (s', ev')"
    using p unfolding c
    by (auto simp: prune_one_def split: option.splits content_block.splits sum.splits)
  then show ?thesis
  proof cases
    case 1
    with ok show ?thesis by (simp add: extends_free_refl)
  next
    case 2
    with extends_free_append [OF ok] show ?thesis by fastforce
  next
    case 3
    have a: "extends_free s s1" by (rule extends_free_append [OF ok 3(1)]) simp
    then have "session_ok s1" by (simp add: extends_free_def)
    from extends_free_append [OF this 3(2)] a show ?thesis by (auto intro: extends_free_trans)
  qed
qed

lemma prune_all_extends:
  "session_ok s \<Longrightarrow> prune_all decimal clock cfg s cs = (s', r) \<Longrightarrow> extends_free s s'"
proof (induction cs arbitrary: s r)
  case Nil
  then show ?case by (simp add: extends_free_refl)
next
  case (Cons c cs)
  obtain s1 r1 where p: "prune_one decimal clock cfg s c = (s1, r1)" by fastforce
  have e: "extends_free s s1" by (rule prune_one_extends [OF Cons.prems(1) p])
  show ?case
  proof (cases r1)
    case (Inl x)
    with Cons.prems(2) p e show ?thesis by simp
  next
    case (Inr x)
    obtain s2 r2 where q: "prune_all decimal clock cfg s1 cs = (s2, r2)" by fastforce
    have "s2 = s'" using Cons.prems(2) p q Inr by (cases r2) simp_all
    moreover have "session_ok s1" using e by (simp add: extends_free_def)
    ultimately show ?thesis using Cons.IH [of s1 r2] q e by (auto intro: extends_free_trans)
  qed
qed

lemma pruneSession_extends:
  assumes ok: "session_ok s" and p: "pruneSession decimal clock cfg s = (s', r)"
  shows "extends_free s s'"
proof -
  from session_surface_ok [OF ok] obtain m st where sur: "session_surface s = Inr (s\<lparr>s_surfaceManager := m\<rparr>, st)"
    and ok1: "session_ok (s\<lparr>s_surfaceManager := m\<rparr>)" by blast
  obtain s2 r2 where q: "prune_all decimal clock cfg (s\<lparr>s_surfaceManager := m\<rparr>)
      (prune_candidates (s_log s) (sf_nodes st)) = (s2, r2)" by fastforce
  have "s' = s2" using p sur q by (cases r2) (simp_all add: pruneSession_def)
  with prune_all_extends [OF ok1 q] show ?thesis by (simp add: extends_free_def)
qed

lemma prune_opens_none: "opens_at_most (en_decimal en) 0 (prune_act en cfg)"
  unfolding opens_at_most_def
proof (intro allI impI)
  fix h h' :: compaction_host and r
  assume h: "host_ok (en_decimal en) h" and run: "prune_act en cfg h = (h', r)"
  obtain s r1 where p: "pruneSession (en_decimal en) (en_clock en) cfg (ch_session h) = (s, r1)" by fastforce
  have "h' = h\<lparr>ch_session := s\<rparr>" using run p by (cases r1) (simp_all add: prune_act_def)
  moreover from h have "session_ok (ch_session h)" by (simp add: host_ok_def)
  from pruneSession_extends [OF this p] obtain extra where s: "session_ok s" "s_log s = hlog h @ extra"
    and free: "\<forall>ev \<in> set extra. transaction_free (ev_data ev)" by (auto simp: extends_free_def hlog_def)
  moreover have "starts extra = 0" using starts_none [of extra] free free_not_bracket by blast
  ultimately show "host_ok (en_decimal en) h' \<and> (\<exists>extra. hlog h' = hlog h @ extra \<and> starts extra \<le> 0
      \<and> (lock_free (hlog h) \<longrightarrow> lock_free (hlog h')))"
    using host_append [OF h s] lock_free_extra [OF free, of "hlog h"] by auto
qed

section \<open>Automatic compaction\<close>

text \<open>What the engine may assume of the model stream and the model catalogue.\<close>

definition engine_env_ok :: "engine \<Rightarrow> bool" where
  "engine_env_ok en \<longleftrightarrow>
     (\<forall>o'. await_ok (en_decimal en) (en_stream en o')) \<and> (\<forall>p m. await_ok (en_decimal en) (en_modelContext en p m))"

lemma quiet_targets: "quiet decimal routedTarget" "quiet decimal (conversationTarget agent)"
  unfolding routedTarget_def conversationTarget_def
  by (intro quiet_bind quiet_seams quiet_simps)+

lemma summarize_hook_await:
  assumes env: "\<And>o'. await_ok decimal (stream o')"
  shows "await_ok decimal (summarize_hook instruction stream config agent input)"
proof -
  have last: "await_ok decimal (\<lambda>h. (h, r))" for r :: "compaction_error + summary_result"
    by (rule quiet_await) (simp add: quiet_def yields_def)
  have "await_ok decimal (summarizeWithLlm instruction stream c agent input)" for c :: "'a resolved_policy_scheme"
    unfolding summarizeWithLlm_def
    by (intro await_bind quiet_await [OF quiet_seams(4)])
      (auto split: option.split intro!: quiet_await [of _ "fail_act _"] await_bind env last)
  note llm = this
  show ?thesis
    unfolding summarize_hook_def
    by (intro await_bind quiet_await [OF quiet_targets(2)]) (auto split: option.split intro: llm)
qed

lemma quiet_balanced_cut: "quiet decimal (balanced_cut ns k)"
proof (induction k)
  case 0
  show ?case unfolding balanced_cut.simps by (rule quiet_simps)
next
  case (Suc k)
  then have "quiet decimal (if b then ret_act (Suc k) else balanced_cut ns k)" for b
    using quiet_simps(1) by (cases b) (simp_all only: if_True if_False)
  then show ?case unfolding balanced_cut.simps by (intro quiet_bind quiet_seams)
qed

lemma quiet_select: "quiet decimal (selectCompactableRange m retain)"
  unfolding selectCompactableRange_def Let_def
  by (auto intro!: quiet_bind quiet_seams quiet_balanced_cut)

lemma compactRegion_opens_one:
  assumes "engine_env_ok en"
  shows "opens_at_most (en_decimal en) 1 (compactRegion en n start end')"
  unfolding compactRegion_def
  by (rule region_opens_one) (use assms summarize_hook_await in \<open>auto simp: automatic_call_def engine_env_ok_def\<close>)

lemma prune_and_measure_opens_none: "opens_at_most (en_decimal en) 0 (prune_and_measure en m)"
  unfolding prune_and_measure_def
  using opens_bind [OF prune_opens_none quiet_opens_none [OF quiet_seams(3)], of en]
  by (auto split: option.split intro: quiet_opens_none)

lemma attempts_open:
  assumes env: "engine_env_ok en"
  shows "opens_at_most (en_decimal en) left (compaction_attempts en spec left n m result)"
proof (induction left arbitrary: n m result)
  case 0
  show ?case unfolding compaction_attempts.simps by (rule quiet_opens_none [OF quiet_simps(2)])
next
  case (Suc left)
  have rest: "opens_at_most (en_decimal en) (Suc left) (case range of
         None \<Rightarrow>
           (case result of
              None \<Rightarrow> ret_act None
            | Some _ \<Rightarrow> fail_act (StillAboveThreshold (sp_compactionRetries spec + 1) (tm_totalTokens m)))
       | Some (start, end') \<Rightarrow>
           bind_act (compactRegion en n start end') (\<lambda>r.
           bind_act (measure_act (en_decimal en)) (\<lambda>m.
             if tm_totalTokens m < sp_thresholdTokens spec then ret_act (Some r)
             else compaction_attempts en spec left (Suc n) m (Some r))))" for range
  proof (cases range)
    case None
    then show ?thesis
      by (auto split: option.split intro: opens_mono [OF quiet_opens_none [OF quiet_simps(1)]]
          opens_mono [OF quiet_opens_none [OF quiet_simps(2)]])
  next
    case (Some ab)
    have "opens_at_most (en_decimal en) left (if tm_totalTokens m' < sp_thresholdTokens spec then ret_act (Some r)
        else compaction_attempts en spec left (Suc n) m' (Some r))" for m' r
      using Suc.IH opens_mono [OF quiet_opens_none [OF quiet_simps(1)], of left "en_decimal en" "Some r"] by simp
    note inner = opens_bind [OF quiet_opens_none [OF quiet_seams(3)] this, unfolded add_0]
    obtain start end' where "ab = (start, end')" by (cases ab)
    with Some show ?thesis
      using opens_bind [OF compactRegion_opens_one [OF env] inner, of n start end'] by simp
  qed
  from opens_bind [OF quiet_opens_none [OF quiet_select] rest] show ?case by simp
qed

text \<open>\<open>N\<close> bounds the retries of every policy of the table.\<close>

lemma compactIfNeeded_opens:
  assumes env: "engine_env_ok en"
    and N: "\<And>p m. po_compactionRetries (resolveTargetPolicy (en_config en) p m) \<le> N"
  shows "opens_at_most (en_decimal en) (N + 1) (compactIfNeeded en trigger)"
proof -
  let ?d = "en_decimal en"
  have none: "opens_at_most ?d (N + 1) (ret_act x)" "opens_at_most ?d (N + 1) (fail_act e :: compaction_result option act)"
    for x :: "compaction_result option" and e
    by (rule opens_mono [OF quiet_opens_none], simp_all)+
  have att: "opens_at_most ?d (N + 1) (compaction_attempts en spec (sp_compactionRetries spec + 1) 0 m None)"
    if "resolveCompactSpec (resolveTargetPolicy (en_config en) p md) w = Some spec" for p md w spec m
  proof -
    have "sp_compactionRetries spec = po_compactionRetries (resolveTargetPolicy (en_config en) p md)"
      using that by (auto simp: resolveCompactSpec_def Let_def split: jsnum.splits if_splits)
    with N [of p md] show ?thesis by (intro opens_mono [OF attempts_open [OF env]]) simp
  qed
  have over: "opens_at_most ?d (N + 1) (compact_for_overflow en m)" for m
  proof -
    have "opens_at_most ?d 1 (case range of None \<Rightarrow> ret_act None
       | Some (start, end') \<Rightarrow> bind_act (compactRegion en 0 start end') (\<lambda>r. ret_act (Some r)))" for range
      using opens_bind [OF compactRegion_opens_one [OF env] quiet_opens_none [OF quiet_simps(1)]]
        opens_mono [OF quiet_opens_none [OF quiet_simps(1)], of 1 ?d]
      by (auto split: option.split prod.split)
    from opens_bind [OF quiet_opens_none [OF quiet_select] this]
    have "opens_at_most ?d 1 (bind_act (selectCompactableRange m' 0) (\<lambda>range. case range of None \<Rightarrow> ret_act None
       | Some (start, end') \<Rightarrow> bind_act (compactRegion en 0 start end') (\<lambda>r. ret_act (Some r))))" for m' by simp
    from opens_bind [OF prune_and_measure_opens_none this] show ?thesis
      unfolding compact_for_overflow_def by (rule opens_mono) simp
  qed
  have press: "opens_at_most ?d (N + 1) (compact_under_pressure en p md m)" for p md m
  proof -
    have act: "opens_at_most ?d 0 assertNoActiveCompaction"
      by (rule quiet_opens_none) (simp add: quiet_def yields_def assertNoActiveCompaction_def)
    have "opens_at_most ?d (N + 1) (if tm_totalTokens m' < sp_thresholdTokens spec then ret_act None
        else compaction_attempts en spec (sp_compactionRetries spec + 1) 0 m' None)"
      if "resolveCompactSpec (resolveTargetPolicy (en_config en) p md) w = Some spec" for w spec m'
      using att [OF that] none(1) by (simp del: compaction_attempts.simps)
    from opens_bind [OF prune_and_measure_opens_none this]
    have "opens_at_most ?d (N + 1) (case ctx of
         None \<Rightarrow> fail_act (TargetPressureConfig (p @ ''/'' @ md))
       | Some window \<Rightarrow>
           (case resolveCompactSpec (resolveTargetPolicy (en_config en) p md) window of
              None \<Rightarrow> fail_act (TargetPressureConfig (p @ ''/'' @ md))
            | Some spec \<Rightarrow>
                if tm_totalTokens m < sp_thresholdTokens spec then ret_act None
                else bind_act (prune_and_measure en m) (\<lambda>m.
                  if tm_totalTokens m < sp_thresholdTokens spec then ret_act None
                  else compaction_attempts en spec (sp_compactionRetries spec + 1) 0 m None)))" for ctx
      using none by (auto split: option.split)
    from opens_bind [OF act this] have step: "opens_at_most ?d (N + 1) (bind_act assertNoActiveCompaction (\<lambda>_. case ctx of
         None \<Rightarrow> fail_act (TargetPressureConfig (p @ ''/'' @ md))
       | Some window \<Rightarrow>
           (case resolveCompactSpec (resolveTargetPolicy (en_config en) p md) window of
              None \<Rightarrow> fail_act (TargetPressureConfig (p @ ''/'' @ md))
            | Some spec \<Rightarrow>
                if tm_totalTokens m < sp_thresholdTokens spec then ret_act None
                else bind_act (prune_and_measure en m) (\<lambda>m.
                  if tm_totalTokens m < sp_thresholdTokens spec then ret_act None
                  else compaction_attempts en spec (sp_compactionRetries spec + 1) 0 m None))))" for ctx
      by (simp only: add_0)
    have "await_ok ?d (en_modelContext en p md)" using env by (simp add: engine_env_ok_def)
    from opens_bind [OF await_opens_none [OF this] step] show ?thesis
      unfolding compact_under_pressure_def Let_def by (simp only: add_0)
  qed
  have "opens_at_most ?d (N + 1) (case trigger of OverflowTrigger \<Rightarrow> compact_for_overflow en m
      | PressureTrigger \<Rightarrow> compact_under_pressure en p md m)" for p md m
    using over press by (cases trigger) auto
  from opens_bind [OF quiet_opens_none [OF quiet_seams(3)] this] none(1)
  have "opens_at_most ?d (N + 1) (case target of None \<Rightarrow> ret_act None
       | Some (provider, model) \<Rightarrow> bind_act (measure_act ?d) (\<lambda>measurement.
             case trigger of OverflowTrigger \<Rightarrow> compact_for_overflow en measurement
             | PressureTrigger \<Rightarrow> compact_under_pressure en provider model measurement))" for target
    by (auto split: option.split prod.split)
  from opens_bind [OF quiet_opens_none [OF quiet_targets(1)] this] show ?thesis
    unfolding compactIfNeeded_def by simp
qed

text \<open>The largest number of retries any target gets, in the defaults or an override.\<close>

definition max_compaction_retries :: "resolved_config \<Rightarrow> nat" where
  "max_compaction_retries c =
     foldr max (map (\<lambda>p. or_else (pf_compactionRetries p) (po_compactionRetries c)) (cf_modelPolicies c))
       (po_compactionRetries c)"

definition max_overflow_retries :: "resolved_config \<Rightarrow> nat" where
  "max_overflow_retries c =
     foldr max (map (\<lambda>p. or_else (pf_maxOverflowRetries p) (po_maxOverflowRetries c)) (cf_modelPolicies c))
       (po_maxOverflowRetries c)"

lemma foldr_max_ge: "(d :: nat) \<le> foldr max xs d" "x \<in> set xs \<Longrightarrow> x \<le> foldr max xs d"
  by (induction xs) (auto simp: le_max_iff_disj)

lemma retries_bounded:
  "po_compactionRetries (resolveTargetPolicy c p m) \<le> max_compaction_retries c"
  "po_maxOverflowRetries (resolveTargetPolicy c p m) \<le> max_overflow_retries c"
proof -
  let ?found = "find (\<lambda>q. mp_provider q = p \<and> mp_model q = m) (cf_modelPolicies c)"
  have mem: "q \<in> set (cf_modelPolicies c)" if "?found = Some q" for q
    using that by (auto simp: find_Some_iff)
  have upper: "or_else (g q) d \<le> foldr max (map (\<lambda>p. or_else (g p) d) (cf_modelPolicies c)) d"
    if "?found = Some q" for g and d :: nat and q :: model_policy
    by (rule foldr_max_ge(2)) (simp add: mem [OF that] image_eqI [OF refl])
  show "po_compactionRetries (resolveTargetPolicy c p m) \<le> max_compaction_retries c"
  proof (cases ?found)
    case None
    then show ?thesis
      by (simp add: resolveTargetPolicy_def max_compaction_retries_def no_fields_def or_else_def foldr_max_ge(1) del: foldr_map)
  next
    case (Some q)
    with upper [OF Some, of pf_compactionRetries] show ?thesis
      by (simp add: resolveTargetPolicy_def max_compaction_retries_def policy_fields.defs or_else_def del: foldr_map)
  qed
  show "po_maxOverflowRetries (resolveTargetPolicy c p m) \<le> max_overflow_retries c"
  proof (cases ?found)
    case None
    then show ?thesis
      by (simp add: resolveTargetPolicy_def max_overflow_retries_def no_fields_def or_else_def foldr_max_ge(1) del: foldr_map)
  next
    case (Some q)
    with upper [OF Some, of pf_maxOverflowRetries] show ?thesis
      by (simp add: resolveTargetPolicy_def max_overflow_retries_def policy_fields.defs or_else_def del: foldr_map)
  qed
qed

lemma compactIfNeeded_bounded:
  assumes "engine_env_ok en"
  shows "opens_at_most (en_decimal en) (max_compaction_retries (en_config en) + 1) (compactIfNeeded en trigger)"
  by (rule compactIfNeeded_opens [OF assms retries_bounded(1)])

text \<open>Success is reported only after a measurement below the threshold.\<close>

lemma attempts_below:
  "compaction_attempts en spec left n m result h = (h', Inr (Some r)) \<Longrightarrow>
   \<exists>h1 tm. measure_act (en_decimal en) h1 = (h', Inr tm) \<and> tm_totalTokens tm < sp_thresholdTokens spec"
proof (induction left arbitrary: n m result h)
  case 0
  then show ?case by simp
next
  case (Suc left)
  from Suc.prems obtain h1 range where
    "(case range of
         None \<Rightarrow>
           (case result of
              None \<Rightarrow> ret_act None
            | Some _ \<Rightarrow> fail_act (StillAboveThreshold (sp_compactionRetries spec + 1) (tm_totalTokens m)))
       | Some (start, end') \<Rightarrow>
           bind_act (compactRegion en n start end') (\<lambda>r.
           bind_act (measure_act (en_decimal en)) (\<lambda>m.
             if tm_totalTokens m < sp_thresholdTokens spec then ret_act (Some r)
             else compaction_attempts en spec left (Suc n) m (Some r)))) h1 = (h', Inr (Some r))"
    unfolding compaction_attempts.simps bind_act_Inr by blast
  then obtain start end' where "bind_act (compactRegion en n start end') (\<lambda>r.
           bind_act (measure_act (en_decimal en)) (\<lambda>m.
             if tm_totalTokens m < sp_thresholdTokens spec then ret_act (Some r)
             else compaction_attempts en spec left (Suc n) m (Some r))) h1 = (h', Inr (Some r))"
    by (cases range; cases result) auto
  then obtain h2 h3 r0 tm where tm: "measure_act (en_decimal en) h2 = (h3, Inr tm)"
    and k: "(if tm_totalTokens tm < sp_thresholdTokens spec then ret_act (Some r0)
             else compaction_attempts en spec left (Suc n) tm (Some r0)) h3 = (h', Inr (Some r))"
    unfolding bind_act_Inr by blast
  show ?case
  proof (cases "tm_totalTokens tm < sp_thresholdTokens spec")
    case True
    with k tm show ?thesis by auto
  next
    case False
    with k Suc.IH show ?thesis by (simp del: compaction_attempts.simps)
  qed
qed

lemma pressure_attempts:
  assumes "compact_under_pressure en p md m h = (h', Inr (Some r))"
  shows "\<exists>window spec n m' h3 left. resolveCompactSpec (resolveTargetPolicy (en_config en) p md) window = Some spec
    \<and> compaction_attempts en spec left n m' None h3 = (h', Inr (Some r))"
proof -
  from assms obtain h1 window where "(case window of None \<Rightarrow> fail_act (TargetPressureConfig (p @ ''/'' @ md)) | Some w \<Rightarrow>
           (case resolveCompactSpec (resolveTargetPolicy (en_config en) p md) w of
              None \<Rightarrow> fail_act (TargetPressureConfig (p @ ''/'' @ md))
            | Some spec \<Rightarrow>
                if tm_totalTokens m < sp_thresholdTokens spec then ret_act None
                else bind_act (prune_and_measure en m) (\<lambda>m.
                  if tm_totalTokens m < sp_thresholdTokens spec then ret_act None
                  else compaction_attempts en spec (sp_compactionRetries spec + 1) 0 m None))) h1 = (h', Inr (Some r))"
    unfolding compact_under_pressure_def Let_def bind_act_Inr by blast
  then obtain w spec where spec: "resolveCompactSpec (resolveTargetPolicy (en_config en) p md) w = Some spec"
    and "(if tm_totalTokens m < sp_thresholdTokens spec then ret_act None
                else bind_act (prune_and_measure en m) (\<lambda>m.
                  if tm_totalTokens m < sp_thresholdTokens spec then ret_act None
                  else compaction_attempts en spec (sp_compactionRetries spec + 1) 0 m None)) h1 = (h', Inr (Some r))"
    by (cases window; cases "resolveCompactSpec (resolveTargetPolicy (en_config en) p md) (the window)") auto
  then have "bind_act (prune_and_measure en m) (\<lambda>m.
                  if tm_totalTokens m < sp_thresholdTokens spec then ret_act None
                  else compaction_attempts en spec (sp_compactionRetries spec + 1) 0 m None) h1 = (h', Inr (Some r))"
    by (cases "tm_totalTokens m < sp_thresholdTokens spec") auto
  then obtain h2 m' where "(if tm_totalTokens m' < sp_thresholdTokens spec then ret_act None
                  else compaction_attempts en spec (sp_compactionRetries spec + 1) 0 m' None) h2 = (h', Inr (Some r))"
    unfolding bind_act_Inr by blast
  then have "compaction_attempts en spec (sp_compactionRetries spec + 1) 0 m' None h2 = (h', Inr (Some r))"
    by (cases "tm_totalTokens m' < sp_thresholdTokens spec") auto
  with spec show ?thesis by blast
qed

lemma pressure_success:
  assumes h: "host_ok (en_decimal en) h" and r: "compactIfNeeded en PressureTrigger h = (h', Inr (Some result))"
  shows "\<exists>header window spec h1 tm. foldRequestHeader (hlog h) None = Some header
     \<and> resolveCompactSpec (resolveTargetPolicy (en_config en) (cc_provider (eh_config header)) (cc_model (eh_config header))) window = Some spec
     \<and> measure_act (en_decimal en) h1 = (h', Inr tm) \<and> tm_totalTokens tm < sp_thresholdTokens spec"
proof -
  obtain h0 r0 where hd: "header_act h = (h0, r0)" by fastforce
  from yieldsD(3) [OF yields_header h this] have r0: "r0 = Inr (foldRequestHeader (hlog h) None)" .
  from r obtain header m h2 where header: "foldRequestHeader (hlog h) None = Some header"
    and p: "compact_under_pressure en (cc_provider (eh_config header)) (cc_model (eh_config header)) m h2 = (h', Inr (Some result))"
    using hd r0
    by (auto simp: compactIfNeeded_def routedTarget_def bind_act_Inr split: option.splits if_splits)
  let ?policy = "resolveTargetPolicy (en_config en) (cc_provider (eh_config header)) (cc_model (eh_config header))"
  from pressure_attempts [OF p] obtain window spec n m' h3 left where spec: "resolveCompactSpec ?policy window = Some spec"
    and att: "compaction_attempts en spec left n m' None h3 = (h', Inr (Some result))"
    by blast
  from attempts_below [OF att] spec header show ?thesis by blast
qed

section \<open>Overflow recovery\<close>

text \<open>Failures served one after the other, each on the host it meets, with no reset in between.\<close>

fun serve_failures ::
    "engine \<Rightarrow> listener_state \<Rightarrow> (string \<times> bool \<times> bool \<times> compaction_host) list \<Rightarrow> listener_state \<times> nat" where
  "serve_failures en st [] = (st, 0)"
| "serve_failures en st ((code, a, b, h) # fs) =
     (case request_error en code a b st h of
        (st', _, decision) \<Rightarrow>
          (case serve_failures en st' fs of
             (st'', n) \<Rightarrow> (st'', (if decision = Inr True then n + 1 else n))))"

lemma request_error_counts:
  assumes "request_error en code a b st h = (st', h', decision)"
  shows "decision = Inr True \<Longrightarrow> or_else (ls_retries st') 0 = or_else (ls_retries st) 0 + 1
      \<and> or_else (ls_retries st) 0 < max_overflow_retries (en_config en)"
    and "decision \<noteq> Inr True \<Longrightarrow> ls_retries st' = ls_retries st"
proof -
  have max: "n < max_overflow_retries (en_config en)" if "\<not> po_maxOverflowRetries (resolveTargetPolicy (en_config en) p m) \<le> n" for n p m
    using that retries_bounded(2) [of "en_config en" p m] by linarith
  from assms show "decision = Inr True \<Longrightarrow> or_else (ls_retries st') 0 = or_else (ls_retries st) 0 + 1
      \<and> or_else (ls_retries st) 0 < max_overflow_retries (en_config en)"
    by (auto simp: request_error_def Let_def or_else_def [of "Some _"] split: if_splits prod.splits sum.splits option.splits
        intro: max)
  from assms show "decision \<noteq> Inr True \<Longrightarrow> ls_retries st' = ls_retries st"
    by (auto simp: request_error_def Let_def split: if_splits prod.splits sum.splits option.splits)
qed

lemma serve_failures_bound:
  "serve_failures en st fs = (st', n) \<Longrightarrow>
   n + or_else (ls_retries st) 0 \<le> max (max_overflow_retries (en_config en)) (or_else (ls_retries st) 0)"
proof (induction fs arbitrary: st st' n)
  case Nil
  then show ?case by simp
next
  case (Cons f fs)
  obtain code a b h where f: "f = (code, a, b, h)" by (cases f)
  obtain st1 h1 decision where q: "request_error en code a b st h = (st1, h1, decision)" by (metis prod_cases3)
  obtain st2 k where s: "serve_failures en st1 fs = (st2, k)" by fastforce
  have n: "n = (if decision = Inr True then k + 1 else k)" using Cons.prems q s by (simp add: f)
  from Cons.IH [OF s] request_error_counts [OF q] show ?case
    by (cases "decision = Inr True") (auto simp: n)
qed

text \<open>A retry is only granted when the surface of the session was replaced.\<close>

lemma generation_spec:
  assumes f: "foldSurface evs = Inr (st, reps)"
  shows "yields decimal generation_act evs (\<lambda>r. r = Inr (sf_replaceGeneration st))"
  unfolding generation_act_def
  by (rule yields_bind [OF yields_surface [OF f]]) (auto intro: yields_ret)

lemma retry_progress:
  assumes env: "engine_env_ok en" and h: "host_ok (en_decimal en) h"
    and q: "request_error en code a b st h = (st', h', Inr True)"
  shows "host_ok (en_decimal en) h' \<and> (\<exists>old reps new reps'. foldSurface (hlog h) = Inr (old, reps)
     \<and> foldSurface (hlog h') = Inr (new, reps') \<and> sf_replaceGeneration old < sf_replaceGeneration new)"
proof -
  let ?d = "en_decimal en"
  from q obtain h1 t h2 g h3 result g' where t: "routedTarget h = (h1, Inr (Some t))"
    and g: "generation_act h1 = (h2, Inr g)" and c: "compactIfNeeded en OverflowTrigger h2 = (h3, result)"
    and g': "generation_act h3 = (h', Inr g')" and lt: "g < g'"
    by (auto simp: request_error_def Let_def split: if_splits prod.splits sum.splits option.splits)
  obtain old reps where f: "foldSurface (hlog h) = Inr (old, reps)" by (rule host_folds [OF h])
  note h1 = quietD [OF quiet_targets(1) h t]
  note h2 = yieldsD [OF generation_spec [OF f [folded h1(2)]] h1(1) g]
  obtain extra where h3: "host_ok ?d h3" by (rule opensD [OF compactIfNeeded_bounded [OF env] h2(1) c])
  obtain new reps' where f': "foldSurface (hlog h3) = Inr (new, reps')" by (rule host_folds [OF h3])
  note h4 = yieldsD [OF generation_spec [OF f'] h3 g']
  from h4 h2(3) lt f f' show ?thesis by auto
qed

section \<open>Manual compaction\<close>

text \<open>
  A request that reports that the history changed, that no useful summary came, or that the commit was not
  clean has replaced nothing.
\<close>

lemma manual_failure_unchanged:
  assumes env: "engine_env_ok en" "await_ok (en_decimal en) (mr_flush mr)" and h: "host_ok (en_decimal en) h"
    and r: "compactNow en mr h = (h', Inl (ManualError code))" and code: "code \<in> {ManualChanged, ManualSummary, ManualCommit}"
    and n: "int (length (hlog h')) \<le> max_safe_integer"
  shows "hlog h' = hlog h \<or> (\<exists>sv extra tail extra'. hlog h' = hlog h @ [sv] @ extra @ tail @ extra'
     \<and> calm (en_decimal en) (hlog h @ [sv]) extra \<and> calm (en_decimal en) (hlog h @ [sv] @ extra @ tail) extra'
     \<and> foldSurface (hlog h @ [sv]) = foldSurface (hlog h)
     \<and> foldSurface (hlog h @ [sv] @ extra @ tail) = foldSurface (hlog h @ [sv] @ extra))"
proof -
  let ?d = "en_decimal en"
  from r code have task: "manual_task en mr h = (h', Inl (ManualError code))"
    by (auto simp: compactNow_def split: if_splits prod.splits sum.splits)
  show ?thesis
  proof (cases "mr_abortedInTask mr")
    case True
    with task show ?thesis by (simp add: manual_task_def bind_act_def)
  next
    case False
    obtain h1 r1 where m: "measure_act ?d h = (h1, r1)" by fastforce
    note h1 = quietD [OF quiet_seams(3) h m]
    show ?thesis
    proof (cases r1)
      case (Inl e)
      with task m False h1 show ?thesis by (simp add: manual_task_def bind_act_def)
    next
      case (Inr tm)
      obtain h2 r2 where s: "selectCompactableRange tm 0 h1 = (h2, r2)" by fastforce
      note h2 = quietD [OF quiet_select h1(1) s]
      consider (stopped) "hlog h' = hlog h"
        | (run) start end' where "compactSurfaceRegion ?d (en_clock en) (en_render en) (manual_call en mr) start end' h2
            = (h', Inl (ManualError code))"
        using task m False Inr s h1(2) h2(2)
        by (cases r2) (auto simp: manual_task_def bind_act_def split: option.splits prod.splits sum.splits)
      then show ?thesis
      proof cases
        case stopped
        then show ?thesis by simp
      next
        case run
        have "await_ok ?d (cl_summarize (manual_call en mr) i)" "cl_flush (manual_call en mr) = Some f \<Longrightarrow> await_ok ?d f" for i f
          using env summarize_hook_await by (auto simp: manual_call_def engine_env_ok_def)
        from region_spec [OF h2(1) this run n] show ?thesis
          using code
          by (auto simp: h1(2) h2(2) transaction_log_def closed_with_def manual_call_def)
      qed
    qed
  qed
qed

end
