(* ===== verification/Repair.thy ===== *)
theory Repair
  imports Session_Trace "HOL-Library.AList"
begin

text \<open>
  Crash recovery of an interrupted log (packages/core/session/src/repair.ts): a scan finds the open
  turn, the open step and the tool calls without a result, and \<open>interruptedTurnClosers\<close> makes
  the synthetic events that close them. The \<open>Map\<close> of pending calls is an association list in
  insertion order; \<open>AList.update\<close> and \<open>AList.delete\<close> are its \<open>set\<close> and \<open>delete\<close>.

  The lemmas relate the scan to the session trace and show that the repaired log is valid for the
  trace and for the surface, and balanced.
\<close>

section \<open>The scan\<close>

record repair_scan =
  rs_openTurn :: "nat option"
  rs_openStep :: "nat option"
  rs_pending :: "(string \<times> nat \<times> nat option) list"  \<comment> \<open>callId, step, callSeq\<close>

fun register_block :: "nat \<Rightarrow> (string \<times> nat \<times> nat option) list \<Rightarrow> content_block
    \<Rightarrow> (string \<times> nat \<times> nat option) list" where
  "register_block step p (ToolCallBlock i _ _) = AList.update i (step, None) p"
| "register_block step p _ = p"

fun scan_event :: "repair_scan \<Rightarrow> session_event \<Rightarrow> repair_scan" where
  "scan_event r ev =
     (case ev_data ev of
        TurnStart turn \<Rightarrow> \<lparr>rs_openTurn = Some turn, rs_openStep = None, rs_pending = []\<rparr>
      | TurnEnd _ _ \<Rightarrow> \<lparr>rs_openTurn = None, rs_openStep = None, rs_pending = []\<rparr>
      | StepStart _ step \<Rightarrow> r\<lparr>rs_openStep := Some step\<rparr>
      | StepEnd _ _ \<Rightarrow> r\<lparr>rs_pending := [], rs_openStep := None\<rparr>
      | AssistantMessage _ step m _ _ \<Rightarrow>
          r\<lparr>rs_pending := foldl (register_block step) (rs_pending r) (m_content m)\<rparr>
      | ToolCall _ _ callId _ _ \<Rightarrow>
          (case map_of (rs_pending r) callId of
             Some (step, _) \<Rightarrow> r\<lparr>rs_pending := AList.update callId (step, Some (ev_seq ev)) (rs_pending r)\<rparr>
           | None \<Rightarrow> r)
      | ToolResult d \<Rightarrow>
          (case source_callId (m_source (tr_message d)) of
             Some callId \<Rightarrow> r\<lparr>rs_pending := AList.delete callId (rs_pending r)\<rparr>
           | None \<Rightarrow> r)
      | _ \<Rightarrow> r)"

declare scan_event.simps [simp del]

definition scan_init :: repair_scan where
  "scan_init = \<lparr>rs_openTurn = None, rs_openStep = None, rs_pending = []\<rparr>"

definition repair_scan_of :: "session_event list \<Rightarrow> repair_scan" where
  "repair_scan_of evs = foldl scan_event scan_init evs"

section \<open>The closers\<close>

definition unknown_text :: string where
  "unknown_text = ''The tool call was interrupted after it was recorded, but no result was durably recorded. Its outcome is unknown. Decide whether to retry from the tool semantics: retry only if the operation is read-only or idempotent; if it may have side effects, first verify external state or ask the user. Do not retry blindly.''"

definition not_started_text :: string where
  "not_started_text = ''The tool call was interrupted before the Harness recorded it as started. Retry it if it is still needed.''"

definition result_closer ::
    "nat \<Rightarrow> nat \<Rightarrow> nat \<Rightarrow> string \<times> nat \<times> nat option \<Rightarrow> session_event" where
  "result_closer turn tm seq entry =
     (case entry of (callId, step, callSeq) \<Rightarrow>
      let started = callSeq \<noteq> None;
          message = \<lparr>m_id = ''interrupted-tool-result-'' @ callId @ ''-'' @ nat_string seq,
                     m_role = UserRole,
                     m_content = [ToolResultBlock callId
                        [TextBlock (if started then unknown_text else not_started_text)] (Some True)],
                     m_source = ToolSource callId\<rparr>
      in \<lparr>ev_seq = seq, ev_time = tm,
          ev_data = ToolResult \<lparr>tr_turn = turn, tr_step = step, tr_message = message,
            tr_error = Some (if started then (''ToolOutcomeUnknownError'', TOOL_OUTCOME_UNKNOWN)
                             else (''ToolNotStartedError'', TOOL_NOT_STARTED)),
            tr_meta = None\<rparr>,
          ev_surfaceOp = Some (JStr ''append''),
          ev_sourceEventSeqs = map_option (\<lambda>s. JArr [JNum (JInt (int s))]) callSeq,
          ev_ignorable = False\<rparr>)"

definition plain_closer :: "nat \<Rightarrow> nat \<Rightarrow> event_data \<Rightarrow> session_event" where
  "plain_closer tm seq d =
     \<lparr>ev_seq = seq, ev_time = tm, ev_data = d, ev_surfaceOp = None, ev_sourceEventSeqs = None,
      ev_ignorable = False\<rparr>"

fun result_closers :: "nat \<Rightarrow> nat \<Rightarrow> nat \<Rightarrow> (string \<times> nat \<times> nat option) list \<Rightarrow> session_event list" where
  "result_closers turn tm seq [] = []"
| "result_closers turn tm seq (p # ps) = result_closer turn tm seq p # result_closers turn tm (seq + 1) ps"

definition interruptedTurnClosers :: "session_event list \<Rightarrow> session_event list" where
  "interruptedTurnClosers events =
     (let r = repair_scan_of events in
      case (rs_openTurn r, events) of
        (None, _) \<Rightarrow> []
      | (_, []) \<Rightarrow> []
      | (Some turn, _ # _) \<Rightarrow>
          let seq = ev_seq (last events) + 1; tm = ev_time (last events);
              results = result_closers turn tm seq (rs_pending r);
              seq1 = seq + length (rs_pending r);
              steps = (case rs_openStep r of None \<Rightarrow> []
                       | Some step \<Rightarrow> [plain_closer tm seq1 (StepEnd turn step)]);
              seq2 = seq1 + length steps
          in results @ steps @ [plain_closer tm seq2 (TurnEnd turn Interrupted)])"

lemma repair_scan_of_snoc: "repair_scan_of (evs @ [ev]) = scan_event (repair_scan_of evs) ev"
  by (simp add: repair_scan_of_def)

lemma length_result_closers [simp]: "length (result_closers turn tm seq ps) = length ps"
  by (induction ps arbitrary: seq) simp_all

section \<open>The scan follows the trace\<close>

definition scan_sync :: "session_trace \<Rightarrow> repair_scan \<Rightarrow> bool" where
  "scan_sync t r \<longleftrightarrow>
     rs_openTurn r = st_openTurn t \<and> rs_openStep r = st_openStep t
     \<and> distinct (map fst (rs_pending r))
     \<and> (\<forall>(c, step, callSeq) \<in> set (rs_pending r). st_openStep t = Some step
           \<and> (\<forall>q. callSeq = Some q \<longrightarrow> c \<in> st_pendingCalls t \<and> int q \<le> st_lastSeq t))"

lemma update_in: "x \<in> set (AList.update k v ps) \<Longrightarrow> x = (k, v) \<or> x \<in> set ps \<and> fst x \<noteq> k"
  if "distinct (map fst ps)"
  using that
proof (induction ps)
  case (Cons p ps)
  then show ?case by (cases p) (force split: if_splits)
qed simp

lemma delete_in: "x \<in> set (AList.delete k ps) \<Longrightarrow> x \<in> set ps \<and> fst x \<noteq> k"
  by (auto simp: AList.delete_eq)

lemma register_blocks:
  "distinct (map fst p) \<Longrightarrow> \<forall>(c, s, q) \<in> set p. s = step \<and> Q c q \<Longrightarrow> (\<And>c. Q c None) \<Longrightarrow>
   distinct (map fst (foldl (register_block step) p bs))
   \<and> (\<forall>(c, s, q) \<in> set (foldl (register_block step) p bs). s = step \<and> Q c q)"
proof (induction bs arbitrary: p)
  case Nil
  then show ?case by simp
next
  case (Cons b bs)
  have "distinct (map fst (register_block step p b))"
    using Cons.prems(1) by (cases b) (auto simp: distinct_update)
  moreover have "\<forall>(c, s, q) \<in> set (register_block step p b). s = step \<and> Q c q"
    using Cons.prems update_in [OF Cons.prems(1)] by (cases b) fastforce+
  ultimately show ?case using Cons.IH Cons.prems(3) by simp
qed

lemma scan_sync_init: "scan_sync freshTrace scan_init"
  by (simp add: scan_sync_def freshTrace_def scan_init_def)

lemma scan_sync_blocks:
  assumes sync: "scan_sync t r" and o: "st_openStep t = Some step"
    and t': "t' = t\<lparr>st_lastSeq := n\<rparr>" "st_lastSeq t \<le> n"
  shows "scan_sync t' (r\<lparr>rs_pending := foldl (register_block step) (rs_pending r) bs\<rparr>)"
proof -
  let ?Q = "\<lambda>c q. \<forall>k. q = Some k \<longrightarrow> c \<in> st_pendingCalls t \<and> int k \<le> n"
  have "\<forall>(c, s, q) \<in> set (rs_pending r). s = step \<and> ?Q c q"
    using sync o t'(2) by (fastforce simp: scan_sync_def)
  with sync have "distinct (map fst (foldl (register_block step) (rs_pending r) bs))
     \<and> (\<forall>(c, s, q) \<in> set (foldl (register_block step) (rs_pending r) bs). s = step \<and> ?Q c q)"
    by (intro register_blocks) (auto simp: scan_sync_def)
  with sync o t' show ?thesis by (auto simp: scan_sync_def)
qed

lemma scan_sync_update:
  assumes sync: "scan_sync t r" and o: "st_openStep t = Some step" and step: "map_of (rs_pending r) c = Some (s, q)"
    and t': "t' = t\<lparr>st_lastSeq := int n, st_pendingCalls := insert c (st_pendingCalls t)\<rparr>" "st_lastSeq t \<le> int n"
  shows "scan_sync t' (r\<lparr>rs_pending := AList.update c (s, Some n) (rs_pending r)\<rparr>)"
proof -
  from sync have d: "distinct (map fst (rs_pending r))" by (simp add: scan_sync_def)
  have s: "s = step" using sync o map_of_SomeD [OF step] by (fastforce simp: scan_sync_def)
  have "\<forall>(c', s', q') \<in> set (AList.update c (s, Some n) (rs_pending r)). st_openStep t' = Some s'
      \<and> (\<forall>k. q' = Some k \<longrightarrow> c' \<in> st_pendingCalls t' \<and> int k \<le> st_lastSeq t')"
    using sync update_in [OF d] o s t' by (fastforce simp: scan_sync_def)
  with sync t' d show ?thesis by (auto simp: scan_sync_def distinct_update)
qed

text \<open>Dropping entries and calls other than those that stay keeps the scan in step.\<close>

lemma scan_sync_mono:
  assumes sync: "scan_sync t r" and sub: "distinct (map fst p)" "set p \<subseteq> set (rs_pending r)"
    and t': "st_openTurn t' = st_openTurn t" "st_openStep t' = st_openStep t" "st_lastSeq t \<le> st_lastSeq t'"
    and calls: "\<forall>(c, s, q) \<in> set p. c \<in> st_pendingCalls t \<longrightarrow> c \<in> st_pendingCalls t'"
  shows "scan_sync t' (r\<lparr>rs_pending := p\<rparr>)"
  using assms by (fastforce simp: scan_sync_def)

lemma scan_sync_same:
  assumes "scan_sync t r" and "st_openTurn t' = st_openTurn t" "st_openStep t' = st_openStep t"
    and "st_lastSeq t \<le> st_lastSeq t'" and "st_pendingCalls t \<subseteq> st_pendingCalls t'"
  shows "scan_sync t' r"
  using assms by (fastforce simp: scan_sync_def)

lemma scan_sync_event:
  assumes sync: "scan_sync t r" and inv: "trace_inv t" and ev: "trace_event t ev = Inr t'"
  shows "scan_sync t' (scan_event r ev)"
proof -
  have seq: "st_lastSeq t \<le> st_lastSeq t'" using trace_event_seq [OF ev] by simp
  note [simp] = scan_event.simps
  note D = trace_event_defs bind_res_Inr_iff
  show ?thesis
  proof (cases "ev_data ev")
    case (TurnStart turn)
    then show ?thesis using ev inv
      by (auto simp: D scan_sync_def trace_inv_def split: if_splits)
  next
    case (StepStart turn step)
    then show ?thesis using ev sync
      by (fastforce simp: D scan_sync_def split: if_splits)
  next
    case (StepEnd turn step)
    then show ?thesis using ev sync by (auto simp: D scan_sync_def split: if_splits)
  next
    case (TurnEnd turn reason)
    then show ?thesis using ev sync by (auto simp: D scan_sync_def split: if_splits)
  next
    case (AssistantMessage turn step m u b)
    from AssistantMessage ev have o: "st_openStep t = Some step"
      and t': "t' = t\<lparr>st_lastSeq := int (ev_seq ev)\<rparr>" by (auto simp: D split: if_splits)
    from scan_sync_blocks [OF sync o t'] seq t' AssistantMessage show ?thesis by simp
  next
    case (ToolCall turn step c n args)
    from ToolCall ev have o: "st_openStep t = Some step"
      and t': "t' = t\<lparr>st_lastSeq := int (ev_seq ev), st_pendingCalls := insert c (st_pendingCalls t)\<rparr>"
      by (auto simp: D split: if_splits)
    show ?thesis
    proof (cases "map_of (rs_pending r) c")
      case None
      have "scan_sync t' r" by (rule scan_sync_same [OF sync]) (use t' seq in auto)
      with None ToolCall show ?thesis by simp
    next
      case (Some e)
      obtain s q where e: "e = (s, q)" by (cases e)
      from scan_sync_update [OF sync o Some [unfolded e] t'] seq t' Some e ToolCall show ?thesis by simp
    qed
  next
    case (ToolResult d)
    from ToolResult ev have keep: "st_openTurn t' = st_openTurn t" "st_openStep t' = st_openStep t"
      "st_pendingCalls t' = st_pendingCalls t
       \<or> st_pendingCalls t' = apply_pending (st_pendingCalls t) (PendingDelete (source_callId (m_source (tr_message d))))"
      by (auto simp: D split: if_splits option.splits)
    show ?thesis
    proof (cases "source_callId (m_source (tr_message d))")
      case None
      with ToolResult keep seq show ?thesis using scan_sync_same [OF sync] by auto
    next
      case (Some c)
      have "distinct (map fst (AList.delete c (rs_pending r)))"
        using sync by (simp add: scan_sync_def distinct_delete)
      moreover have "\<forall>(c', s, q) \<in> set (AList.delete c (rs_pending r)).
          c' \<in> st_pendingCalls t \<longrightarrow> c' \<in> st_pendingCalls t'"
        using keep(3) Some delete_in by fastforce
      moreover have "set (AList.delete c (rs_pending r)) \<subseteq> set (rs_pending r)" using delete_in by fast
      ultimately show ?thesis using scan_sync_mono [OF sync] keep(1, 2) seq ToolResult Some by simp
    qed
  qed (use ev sync seq scan_sync_same [OF sync] in \<open>auto simp: D split: if_splits\<close>)
qed

lemma scan_sync_log:
  "seedTrace evs = Inr t \<Longrightarrow> scan_sync t (repair_scan_of evs) \<and> trace_inv t
     \<and> (evs \<noteq> [] \<longrightarrow> st_lastSeq t = int (ev_seq (last evs)))"
proof (induction evs arbitrary: t rule: rev_induct)
  case Nil
  then show ?case
    using scan_sync_init trace_inv_fresh by (simp add: seedTrace_def repair_scan_of_def)
next
  case (snoc ev evs)
  from snoc.prems obtain t0 where t0: "seedTrace evs = Inr t0" and e: "trace_event t0 ev = Inr t"
    by (auto simp: seedTrace_replay trace.replay_snoc bind_res_Inr_iff)
  from snoc.IH [OF t0] scan_sync_event [OF _ _ e] trace_inv_event [OF _ e] trace_event_seq [OF e]
  show ?case by (auto simp: repair_scan_of_snoc)
qed

section \<open>The repaired log is valid and balanced\<close>

lemma trace_plain [simp]:
  "st_openTurn t = Some turn \<Longrightarrow> st_openStep t = Some step \<Longrightarrow> st_lastSeq t < int n \<Longrightarrow>
   trace_event t (plain_closer tm n (StepEnd turn step))
     = Inr (t\<lparr>st_lastSeq := int n, st_openStep := None, st_nextStep := st_nextStep t + 1, st_pendingCalls := {}\<rparr>)"
  "st_openTurn t = Some turn \<Longrightarrow> st_openStep t = None \<Longrightarrow> st_lastSeq t < int n \<Longrightarrow>
   trace_event t (plain_closer tm n (TurnEnd turn reason))
     = Inr (t\<lparr>st_lastSeq := int n, st_openTurn := None, st_nextTurn := st_nextTurn t + 1\<rparr>)"
  by (simp_all add: trace_event_defs plain_closer_def requireOpenStep_def)

lemma trace_result:
  assumes "st_openTurn t = Some turn" "st_openStep t = Some step" "st_lastSeq t < int n"
    and "\<forall>q. callSeq = Some q \<longrightarrow> c \<in> st_pendingCalls t"
  shows "trace_event t (result_closer turn tm n (c, step, callSeq))
    = Inr (t\<lparr>st_lastSeq := int n, st_pendingCalls := st_pendingCalls t - {c}\<rparr>)"
  using assms
  by (cases callSeq)
    (auto simp: trace_event_defs result_closer_def requireOpenStep_def elem_at_def TOOL_NOT_STARTED_def)

lemma trace_results:
  "st_openTurn t = Some turn \<Longrightarrow> st_lastSeq t < int n \<Longrightarrow> distinct (map fst ps) \<Longrightarrow>
   \<forall>(c, step, q) \<in> set ps. st_openStep t = Some step \<and> (\<forall>k. q = Some k \<longrightarrow> c \<in> st_pendingCalls t) \<Longrightarrow>
   \<exists>t'. fold_res trace_event t (result_closers turn tm n ps) = Inr t'
     \<and> st_openTurn t' = st_openTurn t \<and> st_openStep t' = st_openStep t
     \<and> st_nextTurn t' = st_nextTurn t \<and> st_lastSeq t' < int (n + length ps)"
proof (induction ps arbitrary: t n)
  case Nil
  then show ?case by simp
next
  case (Cons p ps)
  obtain c step q where p: "p = (c, step, q)" by (cases p)
  let ?t = "t\<lparr>st_lastSeq := int n, st_pendingCalls := st_pendingCalls t - {c}\<rparr>"
  have e: "trace_event t (result_closer turn tm n p) = Inr ?t"
    using Cons.prems p by (auto intro!: trace_result simp del: int_ops)
  have "\<forall>(c', step, q) \<in> set ps. st_openStep ?t = Some step \<and> (\<forall>k. q = Some k \<longrightarrow> c' \<in> st_pendingCalls ?t)"
    using Cons.prems(3, 4) p by (force simp: image_iff)
  from Cons.IH [of ?t "n + 1", OF _ _ _ this] Cons.prems(1, 3) e show ?case by simp
qed

lemma closers_unfold:
  assumes "rs_openTurn (repair_scan_of evs) = Some turn" and "evs \<noteq> []"
    and "n = ev_seq (last evs) + 1" and "tm = ev_time (last evs)"
    and "ps = rs_pending (repair_scan_of evs)"
  shows "interruptedTurnClosers evs =
     result_closers turn tm n ps
     @ (case rs_openStep (repair_scan_of evs) of
          None \<Rightarrow> [plain_closer tm (n + length ps) (TurnEnd turn Interrupted)]
        | Some step \<Rightarrow> [plain_closer tm (n + length ps) (StepEnd turn step),
                       plain_closer tm (n + length ps + 1) (TurnEnd turn Interrupted)])"
  using assms by (cases evs) (auto simp: interruptedTurnClosers_def Let_def split: option.splits)

lemma closers_none: "rs_openTurn (repair_scan_of evs) = None \<Longrightarrow> interruptedTurnClosers evs = []"
  by (simp add: interruptedTurnClosers_def Let_def)

lemma open_turn_nonempty: "rs_openTurn (repair_scan_of evs) = Some turn \<Longrightarrow> evs \<noteq> []"
  by (auto simp: repair_scan_of_def scan_init_def)

lemma repaired_trace:
  assumes t: "seedTrace evs = Inr t"
  shows "\<exists>t'. seedTrace (evs @ interruptedTurnClosers evs) = Inr t'
           \<and> st_openTurn t' = None \<and> st_openStep t' = None \<and> st_pendingCalls t' = {}
           \<and> st_nextTurn t' = (if st_openTurn t = None then st_nextTurn t else st_nextTurn t + 1)"
proof -
  have sync: "scan_sync t (repair_scan_of evs)" and inv: "trace_inv t"
    using scan_sync_log [OF t] by simp_all
  let ?r = "repair_scan_of evs"
  have same: "rs_openTurn ?r = st_openTurn t" "rs_openStep ?r = st_openStep t"
    using sync by (simp_all add: scan_sync_def)
  show ?thesis
  proof (cases "st_openTurn t")
    case None
    with same inv t show ?thesis by (auto simp: closers_none trace_inv_def)
  next
    case (Some turn)
    with same have r: "rs_openTurn ?r = Some turn" by simp
    note ne = open_turn_nonempty [OF r]
    let ?n = "ev_seq (last evs) + 1" and ?ps = "rs_pending ?r" and ?tm = "ev_time (last evs)"
    have last: "st_lastSeq t < int ?n" using scan_sync_log [OF t] ne by simp
    have "\<forall>(c, step, q) \<in> set ?ps. st_openStep t = Some step \<and> (\<forall>k. q = Some k \<longrightarrow> c \<in> st_pendingCalls t)"
      and "distinct (map fst ?ps)" using sync by (auto simp: scan_sync_def)
    from trace_results [OF Some last this(2) this(1), of ?tm] obtain t1
      where t1: "fold_res trace_event t (result_closers turn ?tm ?n ?ps) = Inr t1"
        "st_openTurn t1 = Some turn" "st_openStep t1 = st_openStep t" "st_nextTurn t1 = st_nextTurn t"
        "st_lastSeq t1 < int (?n + length ?ps)"
      using Some by auto
    have "trace_inv t1" using trace.fold_inv [OF t1(1) inv] .
    then show ?thesis
      using t t1 Some same unfolding seedTrace_replay closers_unfold [OF r ne refl refl refl]
      by (cases "st_openStep t")
        (auto simp: trace.replay_append fold_res_append trace_inv_def simp del: of_nat_add)
  qed
qed

lemma repaired_balanced:
  assumes "seedTrace evs = Inr t"
  shows "interruptedTurnClosers (evs @ interruptedTurnClosers evs) = []"
proof -
  from repaired_trace [OF assms] obtain t'
    where "seedTrace (evs @ interruptedTurnClosers evs) = Inr t'" "st_openTurn t' = None" by blast
  with scan_sync_log [OF this(1)] show ?thesis by (auto simp: scan_sync_def intro: closers_none)
qed

section \<open>The repaired log has a surface\<close>

lemma plan_result_closer:
  assumes "\<forall>k. q = Some k \<longrightarrow> k < n \<and> int k \<le> max_safe_integer"
  shows "planSurfaceEvent st (result_closer turn tm n (c, step, q)) n evs b = Inr (Some (PlanAppend n))"
  using assms
  by (cases q)
    (auto simp: planSurfaceEvent_def result_closer_def surfaceOpOf_def isSurfaceEligibleType_def
      surface_event_types_def assertProvenance_def citedSources_def)

lemma plan_plain_closer:
  "\<not> isSurfaceEligibleType (event_type d) \<Longrightarrow> planSurfaceEvent st (plain_closer tm n d) n evs b = Inr None"
  by (simp add: planSurfaceEvent_def plain_closer_def surfaceOpOf_def)

lemma foldSurface_results:
  "foldSurface evs = Inr (st, reps) \<Longrightarrow>
   \<forall>(c, step, q) \<in> set ps. \<forall>k. q = Some k \<longrightarrow> k < length evs \<and> int k \<le> max_safe_integer \<Longrightarrow>
   foldSurface (evs @ result_closers turn tm (length evs) ps)
     = Inr (st\<lparr>sf_nodes := sf_nodes st @ [length evs ..< length evs + length ps]\<rparr>, reps)"
proof (induction ps arbitrary: evs st)
  case Nil
  then show ?case by simp
next
  case (Cons p ps)
  obtain c step q where p: "p = (c, step, q)" by (cases p)
  let ?ev = "result_closer turn tm (length evs) p"
  have f: "foldSurface (evs @ [?ev]) = Inr (st\<lparr>sf_nodes := sf_nodes st @ [length evs]\<rparr>, reps)"
    using Cons.prems(2) p
    by (simp add: foldSurface_snoc [OF Cons.prems(1)] applySurfaceEvent_def plan_result_closer)
  have "\<forall>(c, step, q) \<in> set ps. \<forall>k. q = Some k \<longrightarrow> k < length (evs @ [?ev]) \<and> int k \<le> max_safe_integer"
    using Cons.prems(2) by fastforce
  moreover have "length evs # [length (evs @ [?ev]) ..< length (evs @ [?ev]) + length ps]
      = [length evs ..< length evs + length (p # ps)]"
    by (simp add: upt_conv_Cons del: upt_Suc)
  ultimately show ?case using Cons.IH [OF f] by (simp del: upt_Suc)
qed

lemma foldSurface_plain:
  assumes "foldSurface evs = Inr (st, reps)" and "\<not> isSurfaceEligibleType (event_type d)"
  shows "foldSurface (evs @ [plain_closer tm (length evs) d]) = Inr (st, reps)"
  using assms(2) by (simp add: foldSurface_snoc [OF assms(1)] applySurfaceEvent_def plan_plain_closer)

lemma repaired_surface:
  assumes t: "seedTrace evs = Inr t" and f: "foldSurface evs = Inr (st, reps)"
    and safe: "int (length evs) \<le> max_safe_integer"
  shows "foldSurface (evs @ interruptedTurnClosers evs)
     = Inr (st\<lparr>sf_nodes := sf_nodes st @
         (if st_openTurn t = None then []
          else [length evs ..< length evs + length (rs_pending (repair_scan_of evs))])\<rparr>, reps)"
proof (cases "st_openTurn t")
  case None
  with scan_sync_log [OF t] show ?thesis using f by (simp add: closers_none scan_sync_def)
next
  case (Some turn)
  let ?ps = "rs_pending (repair_scan_of evs)" and ?tm = "ev_time (last evs)"
  have sync: "scan_sync t (repair_scan_of evs)" using scan_sync_log [OF t] by simp
  with Some have r: "rs_openTurn (repair_scan_of evs) = Some turn" by (simp add: scan_sync_def)
  note ne = open_turn_nonempty [OF r]
  have "ev_seq (last evs) = length evs - 1"
    using foldSurface_inv [OF f] ne by (simp add: last_conv_nth)
  with ne have n: "length evs = ev_seq (last evs) + 1" by (cases evs) simp_all
  have last: "st_lastSeq t = int (length evs) - 1" using scan_sync_log [OF t] ne n by simp
  have "\<forall>(c, step, q) \<in> set ?ps. \<forall>k. q = Some k \<longrightarrow> k < length evs \<and> int k \<le> max_safe_integer"
    using sync last safe by (fastforce simp: scan_sync_def)
  from foldSurface_results [OF f this, of turn ?tm]
  have res: "foldSurface (evs @ result_closers turn ?tm (length evs) ?ps)
     = Inr (st\<lparr>sf_nodes := sf_nodes st @ [length evs ..< length evs + length ?ps]\<rparr>, reps)" .
  note plain = isSurfaceEligibleType_def surface_event_types_def
  note fin = foldSurface_plain [where tm = ?tm]
  show ?thesis
  proof (cases "rs_openStep (repair_scan_of evs)")
    case None
    with fin [OF res, of "TurnEnd turn Interrupted"] Some show ?thesis
      unfolding closers_unfold [OF r ne n refl refl] by (simp add: plain)
  next
    case step: (Some step)
    from fin [OF res, of "StepEnd turn step"]
    have "foldSurface ((evs @ result_closers turn ?tm (length evs) ?ps)
        @ [plain_closer ?tm (length evs + length ?ps) (StepEnd turn step)])
     = Inr (st\<lparr>sf_nodes := sf_nodes st @ [length evs ..< length evs + length ?ps]\<rparr>, reps)"
      by (simp add: plain)
    from fin [OF this, of "TurnEnd turn Interrupted"] Some step show ?thesis
      unfolding closers_unfold [OF r ne n refl refl] by (simp add: plain)
  qed
qed

section \<open>The shape of the closers\<close>

lemma result_closers_shape:
  "map ev_seq (result_closers turn tm n ps) = [n ..< n + length ps]"
  "concat (map (\<lambda>e. case ev_data e of ToolResult d \<Rightarrow> [source_callId (m_source (tr_message d))] | _ \<Rightarrow> [])
     (result_closers turn tm n ps)) = map (Some \<circ> fst) ps"
proof (induction ps arbitrary: n)
  case Nil
  {
    case 1
    show ?case by simp
  next
    case 2
    show ?case by simp
  }
next
  case (Cons p ps)
  have s: "ev_seq (result_closer turn tm n p) = n" by (cases p) (simp add: result_closer_def Let_def)
  {
    case 1
    have "n # [Suc n ..< Suc n + length ps] = [n ..< n + length (p # ps)]"
      by (simp add: upt_conv_Cons del: upt_Suc)
    moreover have "map ev_seq (result_closers turn tm (Suc n) ps) = [Suc n ..< Suc n + length ps]"
      using Cons.IH(1) [of "Suc n"] .
    ultimately show ?case using s by (cases p) (simp del: upt_Suc add: result_closer_def Let_def)
  next
    case 2
    show ?case using Cons.IH(2) [of "n + 1"]
      by (cases p) (simp add: result_closer_def Let_def)
  }
qed

lemma closers_shape:
  assumes r: "rs_openTurn (repair_scan_of evs) = Some turn"
  shows "map ev_seq (interruptedTurnClosers evs)
       = [ev_seq (last evs) + 1 ..< ev_seq (last evs) + 1 + length (interruptedTurnClosers evs)]
     \<and> concat (map (\<lambda>e. case ev_data e of ToolResult d \<Rightarrow> [source_callId (m_source (tr_message d))] | _ \<Rightarrow> [])
           (interruptedTurnClosers evs)) = map (Some \<circ> fst) (rs_pending (repair_scan_of evs))
     \<and> ev_data (last (interruptedTurnClosers evs)) = TurnEnd turn Interrupted"
proof -
  let ?n = "ev_seq (last evs) + 1" and ?ps = "rs_pending (repair_scan_of evs)"
  note u = closers_unfold [OF r open_turn_nonempty [OF r] refl refl refl]
  have up: "[?n ..< ?n + length ?ps] @ [?n + length ?ps] = [?n ..< ?n + length ?ps + 1]"
    "[?n ..< ?n + length ?ps] @ [?n + length ?ps, ?n + length ?ps + 1] = [?n ..< ?n + length ?ps + 2]"
    by simp_all
  show ?thesis
    unfolding u
    by (cases "rs_openStep (repair_scan_of evs)")
      (use up result_closers_shape in \<open>simp_all add: plain_closer_def del: upt_Suc\<close>)
qed

lemma closers_types:
  "ev \<in> set (interruptedTurnClosers evs) \<Longrightarrow> event_type (ev_data ev) \<noteq> ''request/header-delta''"
proof -
  have r: "e \<in> set (result_closers turn tm n ps) \<Longrightarrow> event_type (ev_data e) = ''tool/result''" for e turn tm n ps
    by (induction ps arbitrary: n) (auto simp: result_closer_def Let_def)
  show "ev \<in> set (interruptedTurnClosers evs) \<Longrightarrow> ?thesis"
    using r by (fastforce simp: interruptedTurnClosers_def Let_def plain_closer_def split: option.splits list.splits)
qed

end
