(* ===== verification/Inbox.thy ===== *)
theory Inbox
  imports Session_Log
begin

text \<open>
  The agent inbox (packages/core/agent/src/inbox.ts): two lists of pending messages, each changed
  by one durable splice event that commits to the log before the live lists change, with the
  notifications each mutation publishes. The constructor replays the splices of the log past the
  fork seed.
\<close>

section \<open>The projection\<close>

record inbox_state =
  ib_nextTurn :: "message list"
  ib_nextStep :: "message list"

datatype inbox_error =
    InvalidSplice
  | AlreadyPending string
  | NegativeZeroStart  \<comment> \<open>the append refuses the payload: \<open>-0\<close> is not lossless JSON\<close>
  | InboxAppendError session_error

definition emptyInbox :: inbox_state where
  "emptyInbox = \<lparr>ib_nextTurn = [], ib_nextStep = []\<rparr>"

fun inbox_list :: "inbox_state \<Rightarrow> inbox_target \<Rightarrow> message list" where
  "inbox_list st NextTurn = ib_nextTurn st"
| "inbox_list st NextStep = ib_nextStep st"

fun set_inbox_list :: "inbox_target \<Rightarrow> message list \<Rightarrow> inbox_state \<Rightarrow> inbox_state" where
  "set_inbox_list NextTurn ms st = st\<lparr>ib_nextTurn := ms\<rparr>"
| "set_inbox_list NextStep ms st = st\<lparr>ib_nextStep := ms\<rparr>"

definition hasPending :: "inbox_state \<Rightarrow> bool" where
  "hasPending st = (length (ib_nextTurn st) > 0 \<or> length (ib_nextStep st) > 0)"

definition removed_count :: "inbox_splice \<Rightarrow> nat" where
  "removed_count sp = (case is_removedCount sp of None \<Rightarrow> 0 | Some n \<Rightarrow> n)"

text \<open>The loop over the candidate identities: the first one already seen is reported.\<close>

fun first_repeat :: "string list \<Rightarrow> string set \<Rightarrow> string option" where
  "first_repeat [] seen = None"
| "first_repeat (i # is) seen = (if i \<in> seen then Some i else first_repeat is (insert i seen))"

definition inbox_validate :: "inbox_state \<Rightarrow> inbox_splice \<Rightarrow> inbox_error + unit" where
  "inbox_validate st sp =
     (let inbox = inbox_list st (is_target sp); removedCount = removed_count sp in
      if \<not> is_safe_integer (JInt (int (is_start sp))) \<or> length inbox < is_start sp
         \<or> \<not> is_safe_integer (JInt (int removedCount)) \<or> length inbox < is_start sp + removedCount
      then Inl InvalidSplice
      else
        let candidate = splice inbox (is_start sp) removedCount (is_inserted sp);
            pending = (case is_target sp of
                         NextTurn \<Rightarrow> candidate @ ib_nextStep st
                       | NextStep \<Rightarrow> ib_nextTurn st @ candidate)
        in case first_repeat (map m_id pending) {} of
             Some i \<Rightarrow> Inl (AlreadyPending i)
           | None \<Rightarrow> Inr ())"

definition inbox_apply :: "inbox_state \<Rightarrow> inbox_splice \<Rightarrow> inbox_error + inbox_state" where
  "inbox_apply st sp =
     bind_res (inbox_validate st sp) (\<lambda>_.
       Inr (set_inbox_list (is_target sp)
              (splice (inbox_list st (is_target sp)) (is_start sp) (removed_count sp) (is_inserted sp)) st))"

definition inbox_event :: "inbox_state \<Rightarrow> session_event \<Rightarrow> inbox_error + inbox_state" where
  "inbox_event st ev = (case ev_data ev of InboxSpliced sp \<Rightarrow> inbox_apply st sp | _ \<Rightarrow> Inr st)"

text \<open>The constructor.\<close>

definition newInbox :: "session \<Rightarrow> inbox_error + inbox_state" where
  "newInbox s = fold_res inbox_event emptyInbox (drop (seed_start s) (s_log s))"

section \<open>Mutations\<close>

datatype js_number = NaN | PosInf | NegInf | NegZero | Fin rat

text \<open>\<open>Math.trunc\<close> of a finite number, and whether the result is \<open>-0\<close>.\<close>

definition trunc_rat :: "rat \<Rightarrow> int" where
  "trunc_rat q = (if q < 0 then - \<lfloor>- q\<rfloor> else \<lfloor>q\<rfloor>)"

fun truncates_to_neg_zero :: "js_number \<Rightarrow> bool" where
  "truncates_to_neg_zero NegZero = True"
| "truncates_to_neg_zero (Fin q) = (q < 0 \<and> trunc_rat q = 0)"
| "truncates_to_neg_zero _ = False"

fun actual_start :: "nat \<Rightarrow> js_number \<Rightarrow> nat" where
  "actual_start len NaN = 0"
| "actual_start len PosInf = len"
| "actual_start len NegInf = 0"
| "actual_start len NegZero = 0"
| "actual_start len (Fin q) =
     (let off = trunc_rat q in
      if off < 0 then nat (max (int len + off) 0) else nat (min off (int len)))"

fun actual_delete :: "nat \<Rightarrow> js_number \<Rightarrow> nat" where
  "actual_delete room NaN = 0"
| "actual_delete room PosInf = room"
| "actual_delete room NegInf = 0"
| "actual_delete room NegZero = 0"
| "actual_delete room (Fin q) = nat (min (max (trunc_rat q) 0) (int room))"

datatype inbox_note = NoteInserted message | NoteDiscarded message | NoteClaimed message nat

record inbox =
  ix_session :: session
  ix_state :: inbox_state
  ix_notes :: "inbox_note list"

definition inbox_mutate ::
    "nat \<Rightarrow> inbox \<Rightarrow> inbox_target \<Rightarrow> js_number \<Rightarrow> js_number \<Rightarrow> message list \<Rightarrow> bool
     \<Rightarrow> inbox_error + inbox \<times> message list" where
  "inbox_mutate now ix target start deleteCount inserted discardRemoved =
     (let pending = inbox_list (ix_state ix) target;
          actualStart = actual_start (length pending) start;
          actualDelete = actual_delete (length pending - actualStart) deleteCount in
      if actualDelete = 0 \<and> inserted = [] then Inr (ix, [])
      else
        let sp = \<lparr>is_target = target, is_start = actualStart,
                  is_removedCount = (if actualDelete = 0 then None else Some actualDelete),
                  is_inserted = inserted, is_canceled = (discardRemoved \<and> actualDelete > 0)\<rparr> in
        bind_res (inbox_validate (ix_state ix) sp) (\<lambda>_.
        if truncates_to_neg_zero start then Inl NegativeZeroStart
        else bind_res (map_error InboxAppendError (log_append now (ix_session ix) (InboxSpliced sp))) (\<lambda>s'.
          let removed = spliced_out pending actualStart actualDelete in
          Inr (\<lparr>ix_session = s',
                ix_state = set_inbox_list target (splice pending actualStart actualDelete inserted) (ix_state ix),
                ix_notes = ix_notes ix @ (if discardRemoved then map NoteDiscarded removed else [])
                           @ map NoteInserted inserted\<rparr>, removed))))"

definition inbox_splice_op ::
    "nat \<Rightarrow> inbox \<Rightarrow> inbox_target \<Rightarrow> js_number \<Rightarrow> js_number \<Rightarrow> message list \<Rightarrow> inbox_error + inbox \<times> message list" where
  "inbox_splice_op now ix target start deleteCount inserted =
     inbox_mutate now ix target start deleteCount inserted True"

definition js_of_nat :: "nat \<Rightarrow> js_number" where
  "js_of_nat n = Fin (of_nat n)"

definition inbox_clear :: "nat \<Rightarrow> inbox \<Rightarrow> inbox_error + inbox" where
  "inbox_clear now ix =
     bind_res (inbox_splice_op now ix NextStep (js_of_nat 0) (js_of_nat (length (ib_nextStep (ix_state ix)))) [])
       (\<lambda>(ix1, _).
     bind_res (inbox_splice_op now ix1 NextTurn (js_of_nat 0) (js_of_nat (length (ib_nextTurn (ix_state ix1)))) [])
       (\<lambda>(ix2, _). Inr ix2))"

definition inbox_claim :: "nat \<Rightarrow> inbox \<Rightarrow> inbox_target \<Rightarrow> nat \<Rightarrow> inbox_error + inbox \<times> message list" where
  "inbox_claim now ix target turn =
     bind_res (inbox_mutate now ix NextStep (js_of_nat 0) (js_of_nat (length (ib_nextStep (ix_state ix)))) [] False)
       (\<lambda>(ix1, steps).
     bind_res (if target = NextTurn then inbox_mutate now ix1 NextTurn (js_of_nat 0) (js_of_nat 1) [] False
               else Inr (ix1, []))
       (\<lambda>(ix2, turns).
        let claimed = steps @ turns in
        Inr (ix2\<lparr>ix_notes := ix_notes ix2 @ map (\<lambda>m. NoteClaimed m turn) claimed\<rparr>, claimed)))"

definition inbox_append :: "nat \<Rightarrow> inbox \<Rightarrow> inbox_target \<Rightarrow> message \<Rightarrow> inbox_error + inbox" where
  "inbox_append now ix target m =
     bind_res (inbox_splice_op now ix target (js_of_nat (length (inbox_list (ix_state ix) target))) (js_of_nat 0) [m])
       (\<lambda>(ix', _). Inr ix')"

definition inbox_prepend :: "nat \<Rightarrow> inbox \<Rightarrow> inbox_target \<Rightarrow> message \<Rightarrow> inbox_error + inbox" where
  "inbox_prepend now ix target m =
     bind_res (inbox_splice_op now ix target (js_of_nat 0) (js_of_nat 0) [m]) (\<lambda>(ix', _). Inr ix')"

definition inbox_locate :: "inbox_state \<Rightarrow> string \<Rightarrow> (inbox_target \<times> nat) option" where
  "inbox_locate st i =
     (case find_index (\<lambda>m. m_id m = i) (ib_nextTurn st) of
        Some k \<Rightarrow> Some (NextTurn, k)
      | None \<Rightarrow> (case find_index (\<lambda>m. m_id m = i) (ib_nextStep st) of
                   Some k \<Rightarrow> Some (NextStep, k) | None \<Rightarrow> None))"

definition inbox_replace :: "nat \<Rightarrow> inbox \<Rightarrow> string \<Rightarrow> message \<Rightarrow> inbox_error + inbox \<times> bool" where
  "inbox_replace now ix i m =
     (case inbox_locate (ix_state ix) i of
        None \<Rightarrow> Inr (ix, False)
      | Some (target, k) \<Rightarrow>
          bind_res (inbox_splice_op now ix target (js_of_nat k) (js_of_nat 1) [m]) (\<lambda>(ix', _). Inr (ix', True)))"

definition inbox_remove :: "nat \<Rightarrow> inbox \<Rightarrow> string \<Rightarrow> inbox_error + inbox \<times> bool" where
  "inbox_remove now ix i =
     (case inbox_locate (ix_state ix) i of
        None \<Rightarrow> Inr (ix, False)
      | Some (target, k) \<Rightarrow>
          bind_res (inbox_splice_op now ix target (js_of_nat k) (js_of_nat 1) []) (\<lambda>(ix', _). Inr (ix', True)))"

section \<open>No identity is pending twice\<close>

definition pending_messages :: "inbox_state \<Rightarrow> message list" where
  "pending_messages st = ib_nextTurn st @ ib_nextStep st"

definition inbox_inv :: "inbox_state \<Rightarrow> bool" where
  "inbox_inv st \<longleftrightarrow> distinct (map m_id (pending_messages st))"

lemma first_repeat_None: "first_repeat is seen = None \<longleftrightarrow> distinct is \<and> set is \<inter> seen = {}"
  by (induction "is" arbitrary: seen) auto

lemma first_repeat_case [simp]:
  "(case first_repeat is {} of None \<Rightarrow> Inr () | Some i \<Rightarrow> Inl (f i)) = Inr u \<longleftrightarrow> distinct is"
  using first_repeat_None [of "is" "{}"] by (auto split: option.splits)

lemma inbox_list_set [simp]: "inbox_list (set_inbox_list t ms st) t = ms"
  by (cases t) simp_all

definition splice_result :: "inbox_state \<Rightarrow> inbox_splice \<Rightarrow> inbox_state" where
  "splice_result st sp = set_inbox_list (is_target sp)
     (splice (inbox_list st (is_target sp)) (is_start sp) (removed_count sp) (is_inserted sp)) st"

lemma validate_Inr:
  "inbox_validate st sp = Inr u \<longleftrightarrow>
     is_start sp + removed_count sp \<le> length (inbox_list st (is_target sp))
     \<and> int (is_start sp) \<le> max_safe_integer \<and> int (removed_count sp) \<le> max_safe_integer
     \<and> inbox_inv (splice_result st sp)"
  by (cases "is_target sp")
    (auto simp: inbox_validate_def Let_def inbox_inv_def pending_messages_def
      splice_result_def simp del: map_append distinct_append)

lemma inbox_apply_Inr: "inbox_apply st sp = Inr st' \<longleftrightarrow> inbox_validate st sp = Inr () \<and> st' = splice_result st sp"
  by (auto simp: inbox_apply_def splice_result_def bind_res_Inr_iff)

lemma inbox_inv_empty: "inbox_inv emptyInbox"
  by (simp add: inbox_inv_def pending_messages_def emptyInbox_def)

lemma inbox_inv_event: "inbox_inv st \<Longrightarrow> inbox_event st ev = Inr st' \<Longrightarrow> inbox_inv st'"
  by (auto simp: inbox_event_def inbox_apply_Inr validate_Inr split: event_data.splits)

interpretation ibx: projection emptyInbox inbox_event inbox_inv
  by unfold_locales (auto intro: inbox_inv_empty inbox_inv_event)

interpretation ilog: log_client s_log seed_start session_ok "log_append now" emptyInbox inbox_event inbox_inv
  for now by unfold_locales

section \<open>The live lists are the replay of the log\<close>

definition inbox_synced :: "inbox \<Rightarrow> bool" where
  "inbox_synced ix \<longleftrightarrow> ilog.synced (ix_session ix) (ix_state ix)"

lemma inbox_synced_iff:
  "inbox_synced ix \<longleftrightarrow> session_ok (ix_session ix) \<and> seed_start (ix_session ix) \<le> length (s_log (ix_session ix))
     \<and> newInbox (ix_session ix) = Inr (ix_state ix)"
  by (simp add: inbox_synced_def ilog.synced_def newInbox_def ibx.replay_def)

lemma actual_start_le: "actual_start len start \<le> len"
  by (cases start) (auto simp: Let_def)

lemma actual_delete_le: "actual_delete room n \<le> room"
  by (cases n) auto

lemma trunc_of_nat [simp]: "trunc_rat (of_nat n) = int n"
  by (simp add: trunc_rat_def)

lemma js_of_nat_simps [simp]:
  "actual_start len (js_of_nat n) = min n len"
  "actual_delete room (js_of_nat n) = min n room"
  "\<not> truncates_to_neg_zero (js_of_nat n)"
  by (auto simp: js_of_nat_def Let_def min_def)

lemma mset_pending_splice:
  assumes "i + n \<le> length (inbox_list st target)"
  shows "mset (pending_messages (set_inbox_list target (splice (inbox_list st target) i n ins) st))
           + mset (spliced_out (inbox_list st target) i n)
         = mset (pending_messages st) + mset ins"
  using mset_splice [OF assms, of ins]
  by (cases target) (auto simp: pending_messages_def union_ac)

text \<open>The two outcomes of a mutation that returns: nothing to do, or one committed splice.\<close>

definition mutate_effect :: "inbox \<Rightarrow> bool \<Rightarrow> message list \<Rightarrow> inbox \<Rightarrow> message list \<Rightarrow> bool" where
  "mutate_effect ix discard ins ix' removed \<longleftrightarrow>
     inbox_synced ix'
     \<and> mset (pending_messages (ix_state ix')) + mset removed = mset (pending_messages (ix_state ix)) + mset ins
     \<and> ix_notes ix' = ix_notes ix @ (if discard then map NoteDiscarded removed else []) @ map NoteInserted ins"

lemma inbox_mutate_effect:
  assumes sync: "inbox_synced ix" and m: "inbox_mutate now ix target start del ins discard = Inr (ix', removed)"
  shows "mutate_effect ix discard ins ix' removed"
proof -
  let ?p = "inbox_list (ix_state ix) target"
  let ?i = "actual_start (length ?p) start"
  let ?n = "actual_delete (length ?p - ?i) del"
  let ?sp = "\<lparr>is_target = target, is_start = ?i, is_removedCount = (if ?n = 0 then None else Some ?n),
     is_inserted = ins, is_canceled = (discard \<and> ?n > 0)\<rparr>"
  show ?thesis
  proof (cases "?n = 0 \<and> ins = []")
    case True
    with m sync show ?thesis by (simp add: inbox_mutate_def Let_def mutate_effect_def)
  next
    case False
    have cnt: "removed_count ?sp = ?n" by (simp add: removed_count_def)
    from m False obtain s' where v: "inbox_validate (ix_state ix) ?sp = Inr ()"
      and a: "log_append now (ix_session ix) (InboxSpliced ?sp) = Inr s'"
      and ix': "ix' = \<lparr>ix_session = s', ix_state = splice_result (ix_state ix) ?sp,
        ix_notes = ix_notes ix @ (if discard then map NoteDiscarded removed else []) @ map NoteInserted ins\<rparr>"
      and rem: "removed = spliced_out ?p ?i ?n"
      by (auto simp: inbox_mutate_def Let_def bind_res_Inr_iff splice_result_def removed_count_def split: if_splits)
    have "inbox_event (ix_state ix) ev = Inr (splice_result (ix_state ix) ?sp)"
      if "ev_data ev = InboxSpliced ?sp" for ev
      using that v by (simp add: inbox_event_def inbox_apply_Inr)
    with ilog.synced_commit [OF _ a] sync have "inbox_synced ix'"
      unfolding inbox_synced_def ix' by simp
    moreover have "?i + ?n \<le> length ?p"
      using actual_start_le [of "length ?p" start] actual_delete_le [of "length ?p - ?i" del] by linarith
    from mset_pending_splice [OF this, of ins]
    have "mset (pending_messages (splice_result (ix_state ix) ?sp)) + mset removed
        = mset (pending_messages (ix_state ix)) + mset ins"
      unfolding rem splice_result_def cnt by simp
    ultimately show ?thesis by (simp add: mutate_effect_def ix')
  qed
qed

section \<open>Runs of the operations\<close>

datatype inbox_op =
    IxSplice inbox_target js_number js_number "message list"
  | IxAppend inbox_target message
  | IxPrepend inbox_target message
  | IxReplace string message
  | IxRemove string
  | IxClear
  | IxClaim inbox_target nat

fun inbox_do :: "nat \<Rightarrow> inbox \<Rightarrow> inbox_op \<Rightarrow> inbox_error + inbox" where
  "inbox_do now ix (IxSplice t s d ms) = bind_res (inbox_splice_op now ix t s d ms) (\<lambda>(ix', _). Inr ix')"
| "inbox_do now ix (IxAppend t m) = inbox_append now ix t m"
| "inbox_do now ix (IxPrepend t m) = inbox_prepend now ix t m"
| "inbox_do now ix (IxReplace i m) = bind_res (inbox_replace now ix i m) (\<lambda>(ix', _). Inr ix')"
| "inbox_do now ix (IxRemove i) = bind_res (inbox_remove now ix i) (\<lambda>(ix', _). Inr ix')"
| "inbox_do now ix IxClear = inbox_clear now ix"
| "inbox_do now ix (IxClaim t turn) = bind_res (inbox_claim now ix t turn) (\<lambda>(ix', _). Inr ix')"

text \<open>
  A rejected operation leaves the inbox as it was. The two operations that mutate twice cannot be
  rejected (\<open>inbox_claim_total\<close>, \<open>inbox_clear_total\<close>).
\<close>

definition inbox_step :: "inbox \<Rightarrow> nat \<times> inbox_op \<Rightarrow> inbox" where
  "inbox_step ix op = (case inbox_do (fst op) ix (snd op) of Inr ix' \<Rightarrow> ix' | Inl _ \<Rightarrow> ix)"

definition inbox_run :: "inbox \<Rightarrow> (nat \<times> inbox_op) list \<Rightarrow> inbox" where
  "inbox_run ix ops = foldl inbox_step ix ops"

text \<open>The messages of each kind of notification, and the balance they keep with what is pending.\<close>

fun note_in :: "inbox_note \<Rightarrow> message list" where
  "note_in (NoteInserted m) = [m]" | "note_in _ = []"

fun note_out :: "inbox_note \<Rightarrow> message list" where
  "note_out (NoteInserted m) = []" | "note_out (NoteDiscarded m) = [m]" | "note_out (NoteClaimed m _) = [m]"

definition notes_in :: "inbox_note list \<Rightarrow> message multiset" where
  "notes_in ns = mset (concat (map note_in ns))"

definition notes_out :: "inbox_note list \<Rightarrow> message multiset" where
  "notes_out ns = mset (concat (map note_out ns))"

lemma notes_append [simp]:
  "notes_in (xs @ ys) = notes_in xs + notes_in ys" "notes_out (xs @ ys) = notes_out xs + notes_out ys"
  by (simp_all add: notes_in_def notes_out_def)

lemma notes_map [simp]:
  "notes_in [] = {#}" "notes_out [] = {#}"
  "notes_in (map NoteInserted ms) = mset ms" "notes_out (map NoteInserted ms) = {#}"
  "notes_in (map NoteDiscarded ms) = {#}" "notes_out (map NoteDiscarded ms) = mset ms"
  "notes_in (map (\<lambda>m. NoteClaimed m turn) ms) = {#}" "notes_out (map (\<lambda>m. NoteClaimed m turn) ms) = mset ms"
  by (induction ms) (auto simp: notes_in_def notes_out_def)

definition inbox_balance :: "message multiset \<Rightarrow> inbox \<Rightarrow> bool" where
  "inbox_balance base ix \<longleftrightarrow>
     mset (pending_messages (ix_state ix)) + notes_out (ix_notes ix) = base + notes_in (ix_notes ix)"

lemma splice_op_balance:
  assumes "inbox_synced ix" "inbox_balance base ix" "inbox_splice_op now ix t s d ms = Inr (ix', removed)"
  shows "inbox_synced ix' \<and> inbox_balance base ix'"
proof -
  from inbox_mutate_effect [OF assms(1) assms(3) [unfolded inbox_splice_op_def]]
  have "inbox_synced ix'"
    and ms: "mset (pending_messages (ix_state ix')) + mset removed = mset (pending_messages (ix_state ix)) + mset ms"
    and n: "ix_notes ix' = ix_notes ix @ map NoteDiscarded removed @ map NoteInserted ms"
    by (auto simp: mutate_effect_def)
  moreover have "inbox_balance base ix'"
    using ms assms(2) unfolding inbox_balance_def n
    by (simp add: union_assoc) (metis (no_types, opaque_lifting) union_assoc union_commute)
  ultimately show ?thesis by blast
qed

lemma mset_move:
  fixes a c m p q :: "'a multiset"
  assumes "a + c = p" "p + m = q"
  shows "a + (m + c) = q"
  unfolding assms(2) [symmetric] assms(1) [symmetric] by (simp only: union_ac)

lemma claim_balance:
  assumes "inbox_synced ix" "inbox_balance base ix" "inbox_claim now ix t turn = Inr (ix', ms)"
  shows "inbox_synced ix' \<and> inbox_balance base ix'"
proof -
  from assms(3) obtain ix1 xs ix2 ys where
    m1: "inbox_mutate now ix NextStep (js_of_nat 0) (js_of_nat (length (ib_nextStep (ix_state ix)))) [] False = Inr (ix1, xs)"
    and m2: "(if t = NextTurn then inbox_mutate now ix1 NextTurn (js_of_nat 0) (js_of_nat 1) [] False
               else Inr (ix1, [])) = Inr (ix2, ys)"
    and ix': "ix' = ix2\<lparr>ix_notes := ix_notes ix2 @ map (\<lambda>m. NoteClaimed m turn) (xs @ ys)\<rparr>"
    by (auto simp: inbox_claim_def bind_res_Inr_iff Let_def)
  have e1: "mutate_effect ix False [] ix1 xs" by (rule inbox_mutate_effect [OF assms(1) m1])
  then have s1: "inbox_synced ix1" by (simp add: mutate_effect_def)
  have e2: "mutate_effect ix1 False [] ix2 ys"
    using m2 s1 inbox_mutate_effect [OF s1] by (auto simp: mutate_effect_def split: if_splits)
  have "mset (pending_messages (ix_state ix2)) + mset (xs @ ys) = mset (pending_messages (ix_state ix))"
    using e1 e2 by (simp add: mutate_effect_def union_ac)
  from mset_move [OF this assms(2) [unfolded inbox_balance_def]] have
    "mset (pending_messages (ix_state ix2)) + (notes_out (ix_notes ix) + mset (xs @ ys)) = base + notes_in (ix_notes ix)" .
  moreover have "ix_notes ix2 = ix_notes ix" "inbox_synced ix2"
    using e1 e2 by (simp_all add: mutate_effect_def)
  ultimately show ?thesis
    unfolding inbox_balance_def ix' inbox_synced_def by (simp del: map_append mset_append)
qed

lemma clear_balance:
  assumes "inbox_synced ix" "inbox_balance base ix" "inbox_clear now ix = Inr ix'"
  shows "inbox_synced ix' \<and> inbox_balance base ix'"
  using assms(3) splice_op_balance splice_op_balance [OF assms(1, 2)]
  by (fastforce simp: inbox_clear_def bind_res_Inr_iff)

lemma inbox_do_balance:
  assumes "inbox_synced ix" "inbox_balance base ix" "inbox_do now ix op = Inr ix'"
  shows "inbox_synced ix' \<and> inbox_balance base ix'"
proof (cases op)
  case (IxClaim t turn)
  then show ?thesis using assms(3) claim_balance [OF assms(1, 2)] by (auto simp: bind_res_Inr_iff)
next
  case IxClear
  then show ?thesis using assms(3) clear_balance [OF assms(1, 2)] by simp
qed (use assms(3) splice_op_balance [OF assms(1, 2)] assms(1, 2) in
  \<open>auto simp: bind_res_Inr_iff inbox_append_def inbox_prepend_def inbox_replace_def inbox_remove_def
     split: option.splits\<close>)

lemma inbox_run_balance:
  "inbox_synced ix \<Longrightarrow> inbox_balance base ix \<Longrightarrow>
   inbox_synced (inbox_run ix ops) \<and> inbox_balance base (inbox_run ix ops)"
proof (induction ops rule: rev_induct)
  case Nil
  then show ?case by (simp add: inbox_run_def)
next
  case (snoc op ops)
  then have IH: "inbox_synced (inbox_run ix ops)" "inbox_balance base (inbox_run ix ops)" by blast+
  have "inbox_run ix (ops @ [op]) = inbox_step (inbox_run ix ops) op" by (simp add: inbox_run_def)
  with IH inbox_do_balance [OF IH] show ?case by (simp add: inbox_step_def split: sum.splits)
qed

section \<open>Deleting never fails\<close>

lemma inbox_inv_delete:
  assumes "inbox_inv st"
  shows "inbox_inv (set_inbox_list t (splice (inbox_list st t) i n []) st)"
proof -
  have sub: "distinct (map f (take i xs @ drop (i + n) xs)) \<and> set (take i xs @ drop (i + n) xs) \<subseteq> set xs"
    if "distinct (map f xs)" for f :: "message \<Rightarrow> string" and xs
  proof -
    have "set (map f (take i xs)) \<inter> set (map f (drop (i + n) xs)) = {}"
      using set_take_disj_set_drop_if_distinct [OF that, of i "i + n"] by (simp add: take_map drop_map)
    then show ?thesis using that distinct_take [OF that, of i] distinct_drop [OF that, of "i + n"]
        set_take_subset [of i xs] set_drop_subset [of "i + n" xs]
      by (auto simp: take_map drop_map)
  qed
  show ?thesis
    using assms sub [of m_id "inbox_list st t"]
    by (cases t) (simp_all add: inbox_inv_def pending_messages_def splice_def, blast+)
qed

lemma inbox_mutate_delete:
  assumes sync: "inbox_synced ix" and len: "int (length (inbox_list (ix_state ix) t)) \<le> max_safe_integer"
  shows "\<exists>ix'. inbox_mutate now ix t (js_of_nat 0) (js_of_nat n) [] discard
             = Inr (ix', take n (inbox_list (ix_state ix) t))
           \<and> inbox_synced ix'
           \<and> ix_state ix' = set_inbox_list t (drop n (inbox_list (ix_state ix) t)) (ix_state ix)"
proof -
  let ?p = "inbox_list (ix_state ix) t"
  define k where "k = min n (length ?p)"
  have part: "take k ?p = take n ?p" "drop k ?p = drop n ?p" by (simp_all add: k_def min_def)
  show ?thesis
  proof (cases "k = 0")
    case True
    then have "take n ?p = []" "drop n ?p = ?p" using part by simp_all
    moreover have "set_inbox_list t ?p (ix_state ix) = ix_state ix" by (cases t) simp_all
    ultimately show ?thesis using True sync by (simp add: inbox_mutate_def Let_def k_def)
  next
    case False
    let ?sp = "\<lparr>is_target = t, is_start = 0, is_removedCount = Some k, is_inserted = [], is_canceled = discard\<rparr>"
    have "inbox_inv (ix_state ix)" using ilog.synced_inv sync by (simp add: inbox_synced_def)
    then have v: "inbox_validate (ix_state ix) ?sp = Inr ()"
      using inbox_inv_delete [of "ix_state ix" t 0 k] len
      by (auto simp: validate_Inr splice_result_def removed_count_def max_safe_integer_def k_def)
    obtain s' where a: "log_append now (ix_session ix) (InboxSpliced ?sp) = Inr s'"
      using ilog.synced_accepts [of "ix_session ix" "ix_state ix" "InboxSpliced ?sp" now] sync
      by (auto simp: inbox_synced_def isSurfaceEligibleType_def surface_event_types_def)
    let ?ix = "\<lparr>ix_session = s', ix_state = set_inbox_list t (drop n ?p) (ix_state ix),
      ix_notes = ix_notes ix @ (if discard then map NoteDiscarded (take n ?p) else [])\<rparr>"
    have del: "actual_start (length ?p) (js_of_nat 0) = 0" "actual_delete (length ?p - 0) (js_of_nat n) = k"
      by (simp_all add: k_def)
    have m: "inbox_mutate now ix t (js_of_nat 0) (js_of_nat n) [] discard = Inr (?ix, take n ?p)"
      unfolding inbox_mutate_def Let_def del(1) unfolding del(2)
      using False v a by (simp add: splice_def spliced_out_def part)
    with inbox_mutate_effect [OF sync m] show ?thesis by (auto simp: mutate_effect_def)
  qed
qed

lemma inbox_claim_total:
  assumes sync: "inbox_synced ix"
    and len: "int (length (ib_nextTurn (ix_state ix))) \<le> max_safe_integer"
      "int (length (ib_nextStep (ix_state ix))) \<le> max_safe_integer"
  shows "\<exists>ix'. inbox_claim now ix t turn
      = Inr (ix', ib_nextStep (ix_state ix) @ (if t = NextTurn then take 1 (ib_nextTurn (ix_state ix)) else []))
    \<and> ix_state ix' = \<lparr>ib_nextTurn = (if t = NextTurn then drop 1 (ib_nextTurn (ix_state ix))
                                    else ib_nextTurn (ix_state ix)), ib_nextStep = []\<rparr>"
proof -
  from inbox_mutate_delete [OF sync, of NextStep now "length (ib_nextStep (ix_state ix))" False] len
  obtain ix1 where m1: "inbox_mutate now ix NextStep (js_of_nat 0) (js_of_nat (length (ib_nextStep (ix_state ix)))) [] False
        = Inr (ix1, ib_nextStep (ix_state ix))"
    and s1: "inbox_synced ix1" "ix_state ix1 = (ix_state ix)\<lparr>ib_nextStep := []\<rparr>" by auto
  from inbox_mutate_delete [OF s1(1), of NextTurn now 1 False] len s1(2)
  obtain ix2 where "inbox_mutate now ix1 NextTurn (js_of_nat 0) (js_of_nat 1) [] False
        = Inr (ix2, take 1 (ib_nextTurn (ix_state ix)))"
    and "ix_state ix2 = \<lparr>ib_nextTurn = drop 1 (ib_nextTurn (ix_state ix)), ib_nextStep = []\<rparr>" by auto
  with m1 s1(2) show ?thesis by (cases t) (simp_all add: inbox_claim_def Let_def)
qed

lemma inbox_clear_total:
  assumes sync: "inbox_synced ix"
    and len: "int (length (ib_nextTurn (ix_state ix))) \<le> max_safe_integer"
      "int (length (ib_nextStep (ix_state ix))) \<le> max_safe_integer"
  shows "\<exists>ix'. inbox_clear now ix = Inr ix' \<and> ix_state ix' = emptyInbox"
proof -
  from inbox_mutate_delete [OF sync, of NextStep now "length (ib_nextStep (ix_state ix))" True] len
  obtain ix1 ms where m1: "inbox_splice_op now ix NextStep (js_of_nat 0) (js_of_nat (length (ib_nextStep (ix_state ix)))) []
        = Inr (ix1, ms)"
    and s1: "inbox_synced ix1" "ix_state ix1 = (ix_state ix)\<lparr>ib_nextStep := []\<rparr>"
    unfolding inbox_splice_op_def by auto
  from inbox_mutate_delete [OF s1(1), of NextTurn now "length (ib_nextTurn (ix_state ix1))" True] len s1(2)
  obtain ix2 ms' where "inbox_splice_op now ix1 NextTurn (js_of_nat 0) (js_of_nat (length (ib_nextTurn (ix_state ix1)))) []
        = Inr (ix2, ms')" and "ix_state ix2 = emptyInbox"
    unfolding inbox_splice_op_def emptyInbox_def by auto
  with m1 show ?thesis by (simp add: inbox_clear_def)
qed

end
