(* ===== verification/Goal_Fold.thy ===== *)
theory Goal_Fold
  imports Session_Log Js_String "HOL-Library.List_Lexorder" "HOL-Library.Char_ord"
begin

text \<open>
  The durable goal of a session (packages/goal/goal/src/types.ts, domain.ts, runtime.ts and
  fold.ts): the strict decoder of \<open>goal/change\<close> payloads, the transition rules of a goal, and the
  fold of a log. \<open>applyGoalProjection\<close> of index.ts is the lenient last-wins fold.
\<close>

section \<open>Object keys\<close>

text \<open>\<open>Object.keys(value).sort().join(',')\<close>.\<close>

fun join_comma :: "string list \<Rightarrow> string" where
  "join_comma [] = []"
| "join_comma [s] = s"
| "join_comma (s # ss) = s @ '','' @ join_comma ss"

definition sorted_keys :: "json \<Rightarrow> string" where
  "sorted_keys v = join_comma (sort (jkeys v))"

section \<open>Vocabulary\<close>

datatype goal_phase = GActive | GPaused | GBlocked | GComplete

record goal_ref =
  gr_id :: string
  gr_revision :: nat

record block_reason =
  br_code :: string
  br_message :: string

record goal_snapshot =
  gs_id :: string
  gs_revision :: nat
  gs_objective :: string
  gs_phase :: goal_phase
  gs_blockedReason :: "block_reason option"
  gs_maxGoalRounds :: nat

datatype snapshot_op = OpCreate | OpEdit | OpPause | OpResume | OpComplete | OpBlock

datatype goal_change =
    SnapshotChange snapshot_op goal_snapshot nat nat nat  \<comment> \<open>roundsStarted, createdAt, updatedAt\<close>
  | ClearChange goal_ref nat  \<comment> \<open>cleared, clearedAt\<close>

record goal_source =
  go_goalId :: string
  go_revision :: nat
  go_round :: nat

datatype goal_fold_error =
    NotPositiveInteger string
  | NotNonNegativeInteger string
  | NotARecord string
  | WrongKeys string
  | InvalidField string
  | UnsupportedVersion
  | InvalidOperation
  | UpdatedBeforeCreated
  | InvalidSource
  | DefinitionChanged
  | NotNextRevision
  | LacksUpdatedAt
  | CountersChanged
  | PhaseOrReasonChanged
  | InvalidPhaseTransition snapshot_op
  | ClearRequiresGoal
  | ClearBeforeUpdate
  | CreateNotFresh
  | RequiresGoal snapshot_op
  | InvalidKind nat
  | RoundNotAdmitted nat

definition GOAL_CHANGE_VERSION :: int where
  "GOAL_CHANGE_VERSION = 1"

section \<open>The decoder\<close>

fun phase_name :: "goal_phase \<Rightarrow> string" where
  "phase_name GActive = ''active''" | "phase_name GPaused = ''paused''"
| "phase_name GBlocked = ''blocked''" | "phase_name GComplete = ''complete''"

definition phase_of :: "string \<Rightarrow> goal_phase option" where
  "phase_of s = find (\<lambda>p. phase_name p = s) [GActive, GPaused, GBlocked, GComplete]"

fun op_name :: "snapshot_op \<Rightarrow> string" where
  "op_name OpCreate = ''create''" | "op_name OpEdit = ''edit''" | "op_name OpPause = ''pause''"
| "op_name OpResume = ''resume''" | "op_name OpComplete = ''complete''" | "op_name OpBlock = ''block''"

definition op_of :: "string \<Rightarrow> snapshot_op option" where
  "op_of s = find (\<lambda>p. op_name p = s) [OpCreate, OpEdit, OpPause, OpResume, OpComplete, OpBlock]"

definition positiveInteger :: "json option \<Rightarrow> string \<Rightarrow> goal_fold_error + nat" where
  "positiveInteger v field =
     (case v of
        Some (JNum (JInt i)) \<Rightarrow>
          if \<not> is_safe_integer (JInt i) \<or> i < 1 then Inl (NotPositiveInteger field) else Inr (nat i)
      | _ \<Rightarrow> Inl (NotPositiveInteger field))"

definition nonNegativeInteger :: "json option \<Rightarrow> string \<Rightarrow> goal_fold_error + nat" where
  "nonNegativeInteger v field =
     (case v of
        Some (JNum (JInt i)) \<Rightarrow>
          if \<not> is_safe_integer (JInt i) \<or> i < 0 then Inl (NotNonNegativeInteger field) else Inr (nat i)
      | _ \<Rightarrow> Inl (NotNonNegativeInteger field))"

text \<open>A string field that must be non-empty after trimming and already trimmed.\<close>

definition normalizedString :: "json option \<Rightarrow> string \<Rightarrow> goal_fold_error + string" where
  "normalizedString v field =
     (case v of
        Some (JStr s) \<Rightarrow> if length (js_trim s) = 0 \<or> s \<noteq> js_trim s then Inl (InvalidField field) else Inr s
      | _ \<Rightarrow> Inl (InvalidField field))"

definition nonEmptyString :: "json option \<Rightarrow> string \<Rightarrow> goal_fold_error + string" where
  "nonEmptyString v field =
     (case v of
        Some (JStr s) \<Rightarrow> if length s = 0 then Inl (InvalidField field) else Inr s
      | _ \<Rightarrow> Inl (InvalidField field))"

definition decodeBlockReason :: "json option \<Rightarrow> goal_fold_error + block_reason" where
  "decodeBlockReason value =
     (case value of
        None \<Rightarrow> Inl (WrongKeys ''goal.blockedReason'')
      | Some v \<Rightarrow>
          if \<not> is_record v \<or> sorted_keys v \<noteq> ''code,message'' then Inl (WrongKeys ''goal.blockedReason'')
          else (case as_string (jget ''code'' v) of
                  Some code \<Rightarrow>
                    if \<not> is_kebab code then Inl (InvalidField ''goal.blockedReason.code'')
                    else bind_res (normalizedString (jget ''message'' v) ''goal.blockedReason.message'') (\<lambda>m.
                      Inr \<lparr>br_code = code, br_message = m\<rparr>)
                | None \<Rightarrow> Inl (InvalidField ''goal.blockedReason.code'')))"

definition snapshot_keys :: "goal_phase \<Rightarrow> string" where
  "snapshot_keys p =
     (if p = GBlocked then ''blockedReason,id,maxGoalRounds,objective,phase,revision''
      else ''id,maxGoalRounds,objective,phase,revision'')"

definition decodeSnapshot :: "json option \<Rightarrow> goal_fold_error + goal_snapshot" where
  "decodeSnapshot value =
     (case value of
        None \<Rightarrow> Inl (NotARecord ''goal'')
      | Some v \<Rightarrow>
          if \<not> is_record v then Inl (NotARecord ''goal'')
          else bind_res (nonEmptyString (jget ''id'' v) ''goal.id'') (\<lambda>i.
          bind_res (normalizedString (jget ''objective'' v) ''goal.objective'') (\<lambda>objective.
          case Option.bind (as_string (jget ''phase'' v)) phase_of of
            None \<Rightarrow> Inl (InvalidField ''goal.phase'')
          | Some phase \<Rightarrow>
              if sorted_keys v \<noteq> snapshot_keys phase then Inl (WrongKeys ''goal'')
              else bind_res (positiveInteger (jget ''revision'' v) ''goal.revision'') (\<lambda>revision.
              bind_res (positiveInteger (jget ''maxGoalRounds'' v) ''goal.maxGoalRounds'') (\<lambda>maxRounds.
              bind_res (if phase = GBlocked then map_sum id Some (decodeBlockReason (jget ''blockedReason'' v))
                        else Inr None) (\<lambda>reason.
                Inr \<lparr>gs_id = i, gs_revision = revision, gs_objective = objective, gs_phase = phase,
                     gs_blockedReason = reason, gs_maxGoalRounds = maxRounds\<rparr>))))))"

definition decodeRef :: "json option \<Rightarrow> goal_fold_error + goal_ref" where
  "decodeRef value =
     (case value of
        None \<Rightarrow> Inl (WrongKeys ''cleared'')
      | Some v \<Rightarrow>
          if \<not> is_record v \<or> sorted_keys v \<noteq> ''id,revision'' then Inl (WrongKeys ''cleared'')
          else bind_res (nonEmptyString (jget ''id'' v) ''cleared.id'') (\<lambda>i.
          bind_res (positiveInteger (jget ''revision'' v) ''cleared.revision'') (\<lambda>revision.
            Inr \<lparr>gr_id = i, gr_revision = revision\<rparr>)))"

definition decodeGoalChange :: "json \<Rightarrow> goal_fold_error + goal_change option" where
  "decodeGoalChange v =
     (if \<not> is_record v \<or> jget ''kind'' v \<noteq> Some (JStr ''goal/change'') then Inr None
      else if jget ''version'' v \<noteq> Some (JNum (JInt GOAL_CHANGE_VERSION)) then Inl UnsupportedVersion
      else if jget ''operation'' v = Some (JStr ''clear'') then
        (if sorted_keys v \<noteq> ''cleared,clearedAt,kind,operation,version'' then Inl (WrongKeys ''clear'')
         else bind_res (decodeRef (jget ''cleared'' v)) (\<lambda>cleared.
              bind_res (nonNegativeInteger (jget ''clearedAt'' v) ''clearedAt'') (\<lambda>clearedAt.
                Inr (Some (ClearChange cleared clearedAt)))))
      else case Option.bind (as_string (jget ''operation'' v)) op_of of
        None \<Rightarrow> Inl InvalidOperation
      | Some op \<Rightarrow>
          if sorted_keys v \<noteq> ''createdAt,goal,kind,operation,roundsStarted,updatedAt,version''
          then Inl (WrongKeys ''snapshot'')
          else bind_res (nonNegativeInteger (jget ''createdAt'' v) ''createdAt'') (\<lambda>createdAt.
          bind_res (nonNegativeInteger (jget ''updatedAt'' v) ''updatedAt'') (\<lambda>updatedAt.
          if updatedAt < createdAt then Inl UpdatedBeforeCreated
          else bind_res (decodeSnapshot (jget ''goal'' v)) (\<lambda>goal.
          bind_res (nonNegativeInteger (jget ''roundsStarted'' v) ''roundsStarted'') (\<lambda>rounds.
            Inr (Some (SnapshotChange op goal rounds createdAt updatedAt)))))))"

section \<open>The fold\<close>

record goal_state =
  gf_goal :: "goal_snapshot option"
  gf_roundsStarted :: nat
  gf_createdAt :: "nat option"
  gf_updatedAt :: "nat option"
  gf_lastRef :: "goal_ref option"
  gf_seenGoalIds :: "string set"

definition emptyGoalFoldState :: goal_state where
  "emptyGoalFoldState =
     \<lparr>gf_goal = None, gf_roundsStarted = 0, gf_createdAt = None, gf_updatedAt = None,
      gf_lastRef = None, gf_seenGoalIds = {}\<rparr>"

definition goalSource :: "message_source \<Rightarrow> goal_fold_error + goal_source option" where
  "goalSource src =
     (case src of
        GoalSource g (JInt r) (JInt n) \<Rightarrow>
          if length g = 0 \<or> \<not> is_safe_integer (JInt r) \<or> r < 1 \<or> \<not> is_safe_integer (JInt n) \<or> n < 1
          then Inl InvalidSource
          else Inr (Some \<lparr>go_goalId = g, go_revision = nat r, go_round = nat n\<rparr>)
      | GoalSource _ _ _ \<Rightarrow> Inl InvalidSource
      | _ \<Rightarrow> Inr None)"

definition requireSameDefinition :: "goal_snapshot \<Rightarrow> goal_snapshot \<Rightarrow> goal_fold_error + unit" where
  "requireSameDefinition current nxt =
     (if gs_objective nxt \<noteq> gs_objective current \<or> gs_maxGoalRounds nxt \<noteq> gs_maxGoalRounds current
      then Inl DefinitionChanged else Inr ())"

definition requireNextRevision :: "goal_snapshot \<Rightarrow> goal_ref \<Rightarrow> goal_fold_error + unit" where
  "requireNextRevision current nxt =
     (if gr_id nxt \<noteq> gs_id current \<or> gr_revision nxt \<noteq> gs_revision current + 1
      then Inl NotNextRevision else Inr ())"

definition snapshot_ref :: "goal_snapshot \<Rightarrow> goal_ref" where
  "snapshot_ref g = \<lparr>gr_id = gs_id g, gr_revision = gs_revision g\<rparr>"

definition validateSnapshotTransition ::
    "goal_state \<Rightarrow> snapshot_op \<Rightarrow> goal_snapshot \<Rightarrow> nat \<Rightarrow> nat \<Rightarrow> nat \<Rightarrow> goal_snapshot \<Rightarrow> goal_fold_error + unit" where
  "validateSnapshotTransition st op nxt rounds createdAt updatedAt current =
     bind_res (requireNextRevision current (snapshot_ref nxt)) (\<lambda>_.
     case gf_updatedAt st of
       None \<Rightarrow> Inl LacksUpdatedAt
     | Some u \<Rightarrow>
         if gf_createdAt st \<noteq> Some createdAt \<or> updatedAt < u \<or> rounds \<noteq> gf_roundsStarted st
         then Inl CountersChanged
         else case op of
           OpEdit \<Rightarrow>
             if gs_phase nxt \<noteq> gs_phase current \<or> gs_blockedReason nxt \<noteq> gs_blockedReason current
             then Inl PhaseOrReasonChanged else Inr ()
         | OpPause \<Rightarrow> bind_res (requireSameDefinition current nxt) (\<lambda>_.
             if gs_phase current \<noteq> GActive \<or> gs_phase nxt \<noteq> GPaused
             then Inl (InvalidPhaseTransition op) else Inr ())
         | OpResume \<Rightarrow> bind_res (requireSameDefinition current nxt) (\<lambda>_.
             if gs_phase current \<notin> {GActive, GPaused, GBlocked} \<or> gs_phase nxt \<noteq> GActive
                \<or> gs_maxGoalRounds nxt \<le> gf_roundsStarted st
             then Inl (InvalidPhaseTransition op) else Inr ())
         | OpComplete \<Rightarrow> bind_res (requireSameDefinition current nxt) (\<lambda>_.
             if gs_phase current = GComplete \<or> gs_phase nxt \<noteq> GComplete
             then Inl (InvalidPhaseTransition op) else Inr ())
         | OpBlock \<Rightarrow> bind_res (requireSameDefinition current nxt) (\<lambda>_.
             if gs_phase current \<noteq> GActive \<or> gs_phase nxt \<noteq> GBlocked
             then Inl (InvalidPhaseTransition op) else Inr ())
         | OpCreate \<Rightarrow> Inl (InvalidPhaseTransition op))"

fun goalChangeRef :: "goal_change \<Rightarrow> goal_ref" where
  "goalChangeRef (ClearChange cleared _) = cleared"
| "goalChangeRef (SnapshotChange _ g _ _ _) = snapshot_ref g"

fun applyGoalChange :: "goal_state \<Rightarrow> goal_change \<Rightarrow> goal_fold_error + goal_state" where
  "applyGoalChange st (ClearChange cleared clearedAt) =
     (case gf_goal st of
        None \<Rightarrow> Inl ClearRequiresGoal
      | Some current \<Rightarrow>
          bind_res (requireNextRevision current cleared) (\<lambda>_.
          case gf_updatedAt st of
            None \<Rightarrow> Inl LacksUpdatedAt
          | Some u \<Rightarrow>
              if clearedAt < u then Inl ClearBeforeUpdate
              else Inr (st\<lparr>gf_goal := None, gf_roundsStarted := 0, gf_createdAt := None,
                          gf_updatedAt := None, gf_lastRef := Some cleared\<rparr>)))"
| "applyGoalChange st (SnapshotChange op goal rounds createdAt updatedAt) =
     (let install = (\<lambda>s. s\<lparr>gf_goal := Some goal, gf_roundsStarted := rounds, gf_createdAt := Some createdAt,
                           gf_updatedAt := Some updatedAt, gf_lastRef := Some (snapshot_ref goal)\<rparr>) in
      if op = OpCreate then
        (if gs_revision goal \<noteq> 1 \<or> gs_phase goal \<noteq> GActive \<or> rounds \<noteq> 0
            \<or> (case gf_goal st of None \<Rightarrow> False | Some g \<Rightarrow> gs_phase g \<noteq> GComplete)
            \<or> gs_id goal \<in> gf_seenGoalIds st
         then Inl CreateNotFresh
         else Inr (install (st\<lparr>gf_seenGoalIds := insert (gs_id goal) (gf_seenGoalIds st)\<rparr>)))
      else case gf_goal st of
        None \<Rightarrow> Inl (RequiresGoal op)
      | Some current \<Rightarrow>
          bind_res (validateSnapshotTransition st op goal rounds createdAt updatedAt current) (\<lambda>_.
            Inr (install st)))"

definition applyGoalEvent :: "goal_state \<Rightarrow> session_event \<Rightarrow> goal_fold_error + goal_state" where
  "applyGoalEvent st ev =
     (case ev_data ev of
        GoalChange d \<Rightarrow>
          bind_res (decodeGoalChange d) (\<lambda>c.
            case c of None \<Rightarrow> Inl (InvalidKind (ev_seq ev)) | Some change \<Rightarrow> applyGoalChange st change)
      | UserMessage m \<Rightarrow>
          bind_res (goalSource (m_source m)) (\<lambda>s.
            case s of
              None \<Rightarrow> Inr st
            | Some src \<Rightarrow>
                (case gf_goal st of
                   None \<Rightarrow> Inl (RoundNotAdmitted (ev_seq ev))
                 | Some current \<Rightarrow>
                     if gs_phase current \<noteq> GActive \<or> go_goalId src \<noteq> gs_id current
                        \<or> go_revision src \<noteq> gs_revision current
                        \<or> go_round src \<noteq> gf_roundsStarted st + 1 \<or> gs_maxGoalRounds current < go_round src
                     then Inl (RoundNotAdmitted (ev_seq ev))
                     else Inr (st\<lparr>gf_roundsStarted := go_round src\<rparr>)))
      | _ \<Rightarrow> Inr st)"

record folded_goal =
  fg_goal :: "goal_snapshot option"
  fg_roundsStarted :: nat
  fg_createdAt :: "nat option"
  fg_updatedAt :: "nat option"
  fg_lastRef :: "goal_ref option"

definition foldGoal :: "session_event list \<Rightarrow> goal_fold_error + folded_goal" where
  "foldGoal evs =
     bind_res (fold_res applyGoalEvent emptyGoalFoldState evs) (\<lambda>st.
       Inr \<lparr>fg_goal = gf_goal st, fg_roundsStarted = gf_roundsStarted st, fg_createdAt = gf_createdAt st,
            fg_updatedAt = gf_updatedAt st, fg_lastRef = gf_lastRef st\<rparr>)"

text \<open>\<open>applyGoalProjection\<close> of index.ts: an event that is no goal change, or a malformed one, is skipped.\<close>

record goal_projection =
  gp_goal :: goal_snapshot
  gp_roundsStarted :: nat
  gp_createdAt :: nat
  gp_updatedAt :: nat

definition applyGoalProjection :: "goal_projection option \<Rightarrow> session_event \<Rightarrow> goal_projection option" where
  "applyGoalProjection st ev =
     (case ev_data ev of
        GoalChange d \<Rightarrow>
          (case decodeGoalChange d of
             Inl _ \<Rightarrow> st
           | Inr None \<Rightarrow> st
           | Inr (Some (ClearChange _ _)) \<Rightarrow> None
           | Inr (Some (SnapshotChange _ g r c u)) \<Rightarrow>
               Some \<lparr>gp_goal = g, gp_roundsStarted = r, gp_createdAt = c, gp_updatedAt = u\<rparr>)
      | _ \<Rightarrow> st)"

section \<open>The durable payload\<close>

text \<open>The payload the service appends for a change.\<close>

definition reason_json :: "block_reason \<Rightarrow> json" where
  "reason_json r = JObj [(''code'', JStr (br_code r)), (''message'', JStr (br_message r))]"

definition nat_json :: "nat \<Rightarrow> json" where
  "nat_json n = JNum (JInt (int n))"

definition snapshot_json :: "goal_snapshot \<Rightarrow> json" where
  "snapshot_json g =
     JObj ([(''id'', JStr (gs_id g)), (''revision'', nat_json (gs_revision g)),
            (''objective'', JStr (gs_objective g)), (''phase'', JStr (phase_name (gs_phase g))),
            (''maxGoalRounds'', nat_json (gs_maxGoalRounds g))]
           @ opt_field ''blockedReason'' reason_json (gs_blockedReason g))"

definition ref_json :: "goal_ref \<Rightarrow> json" where
  "ref_json r = JObj [(''id'', JStr (gr_id r)), (''revision'', nat_json (gr_revision r))]"

fun goal_change_json :: "goal_change \<Rightarrow> json" where
  "goal_change_json (SnapshotChange op g rounds createdAt updatedAt) =
     JObj [(''kind'', JStr ''goal/change''), (''version'', JNum (JInt GOAL_CHANGE_VERSION)),
           (''operation'', JStr (op_name op)), (''goal'', snapshot_json g),
           (''roundsStarted'', nat_json rounds), (''createdAt'', nat_json createdAt),
           (''updatedAt'', nat_json updatedAt)]"
| "goal_change_json (ClearChange cleared clearedAt) =
     JObj [(''kind'', JStr ''goal/change''), (''version'', JNum (JInt GOAL_CHANGE_VERSION)),
           (''operation'', JStr ''clear''), (''cleared'', ref_json cleared),
           (''clearedAt'', nat_json clearedAt)]"

section \<open>Decoding what was encoded\<close>

definition safe_nat :: "nat \<Rightarrow> bool" where
  "safe_nat n \<longleftrightarrow> int n \<le> max_safe_integer"

definition normalized :: "string \<Rightarrow> bool" where
  "normalized s \<longleftrightarrow> s \<noteq> [] \<and> js_trim s = s"

definition snapshot_wf :: "goal_snapshot \<Rightarrow> bool" where
  "snapshot_wf g \<longleftrightarrow>
     gs_id g \<noteq> [] \<and> normalized (gs_objective g)
     \<and> 1 \<le> gs_revision g \<and> safe_nat (gs_revision g) \<and> 1 \<le> gs_maxGoalRounds g \<and> safe_nat (gs_maxGoalRounds g)
     \<and> (case gs_blockedReason g of
           None \<Rightarrow> gs_phase g \<noteq> GBlocked
         | Some r \<Rightarrow> gs_phase g = GBlocked \<and> is_kebab (br_code r) \<and> normalized (br_message r))"

fun change_wf :: "goal_change \<Rightarrow> bool" where
  "change_wf (SnapshotChange op g rounds createdAt updatedAt) \<longleftrightarrow>
     snapshot_wf g \<and> safe_nat rounds \<and> safe_nat updatedAt \<and> createdAt \<le> updatedAt"
| "change_wf (ClearChange r clearedAt) \<longleftrightarrow>
     gr_id r \<noteq> [] \<and> 1 \<le> gr_revision r \<and> safe_nat (gr_revision r) \<and> safe_nat clearedAt"

lemma phase_of_name [simp]: "phase_of (phase_name p) = Some p"
  by (cases p) (simp_all add: phase_of_def)

lemma phase_of_blocked [simp]: "phase_of ''blocked'' = Some GBlocked"
  using phase_of_name [of GBlocked] by simp

lemma op_of_name [simp]: "op_of (op_name p) = Some p"
  by (cases p) (simp_all add: op_of_def)

lemma op_name_not_clear [simp]: "op_name p \<noteq> ''clear''"
  by (cases p) simp_all

lemma sorted_keys_literals:
  "join_comma (sort [''code'', ''message'']) = ''code,message''"
  "join_comma (sort [''id'', ''revision'']) = ''id,revision''"
  "join_comma (sort [''id'', ''revision'', ''objective'', ''phase'', ''maxGoalRounds''])
     = ''id,maxGoalRounds,objective,phase,revision''"
  "join_comma (sort [''id'', ''revision'', ''objective'', ''phase'', ''maxGoalRounds'', ''blockedReason''])
     = ''blockedReason,id,maxGoalRounds,objective,phase,revision''"
  "join_comma (sort [''kind'', ''version'', ''operation'', ''cleared'', ''clearedAt''])
     = ''cleared,clearedAt,kind,operation,version''"
  "join_comma (sort [''kind'', ''version'', ''operation'', ''goal'', ''roundsStarted'', ''createdAt'', ''updatedAt''])
     = ''createdAt,goal,kind,operation,roundsStarted,updatedAt,version''"
  by code_simp+

lemma decode_nat [simp]:
  "safe_nat n \<Longrightarrow> 1 \<le> n \<Longrightarrow> positiveInteger (Some (nat_json n)) f = Inr n"
  "safe_nat n \<Longrightarrow> nonNegativeInteger (Some (nat_json n)) f = Inr n"
  by (auto simp: positiveInteger_def nonNegativeInteger_def nat_json_def safe_nat_def)

lemma positiveInteger_wf: "positiveInteger v f = Inr n \<Longrightarrow> safe_nat n \<and> 1 \<le> n"
  by (auto simp: positiveInteger_def safe_nat_def split: option.splits json.splits jsnum.splits if_splits)

lemma nonNegativeInteger_wf: "nonNegativeInteger v f = Inr n \<Longrightarrow> safe_nat n"
  by (auto simp: nonNegativeInteger_def safe_nat_def split: option.splits json.splits jsnum.splits if_splits)

lemma normalizedString_Some [simp]: "normalized s \<Longrightarrow> normalizedString (Some (JStr s)) f = Inr s"
  by (auto simp: normalizedString_def normalized_def)

lemma normalizedString_wf: "normalizedString v f = Inr s \<Longrightarrow> normalized s"
  by (auto simp: normalizedString_def normalized_def split: option.splits json.splits if_splits)

lemma nonEmptyString_Some [simp]: "s \<noteq> [] \<Longrightarrow> nonEmptyString (Some (JStr s)) f = Inr s"
  by (auto simp: nonEmptyString_def)

lemma nonEmptyString_wf: "nonEmptyString v f = Inr s \<Longrightarrow> s \<noteq> []"
  by (auto simp: nonEmptyString_def split: option.splits json.splits if_splits)

lemma map_sum_Some_Inr [simp]: "map_sum id Some r = Inr x \<longleftrightarrow> (\<exists>y. r = Inr y \<and> x = Some y)"
  by (cases r) auto

lemma decode_reason:
  "is_kebab (br_code r) \<Longrightarrow> normalized (br_message r) \<Longrightarrow> decodeBlockReason (Some (reason_json r)) = Inr r"
  by (simp add: decodeBlockReason_def reason_json_def sorted_keys_def sorted_keys_literals)

lemma decode_reason_wf: "decodeBlockReason v = Inr r \<Longrightarrow> is_kebab (br_code r) \<and> normalized (br_message r)"
  by (auto simp: decodeBlockReason_def bind_res_Inr_iff dest: normalizedString_wf
      split: option.splits if_splits)

lemma decode_snapshot: "snapshot_wf g \<Longrightarrow> decodeSnapshot (Some (snapshot_json g)) = Inr g"
  by (cases "gs_blockedReason g")
    (auto simp: decodeSnapshot_def snapshot_json_def snapshot_wf_def sorted_keys_def sorted_keys_literals
      snapshot_keys_def decode_reason)

lemma decode_snapshot_wf:
  assumes "decodeSnapshot v = Inr g"
  shows "snapshot_wf g"
proof -
  from assms obtain w i obj ph rv mx rs where "v = Some w"
    and f: "nonEmptyString (jget ''id'' w) ''goal.id'' = Inr i"
      "normalizedString (jget ''objective'' w) ''goal.objective'' = Inr obj"
      "positiveInteger (jget ''revision'' w) ''goal.revision'' = Inr rv"
      "positiveInteger (jget ''maxGoalRounds'' w) ''goal.maxGoalRounds'' = Inr mx"
      "(if ph = GBlocked then map_sum id Some (decodeBlockReason (jget ''blockedReason'' w)) else Inr None) = Inr rs"
    and g: "g = \<lparr>gs_id = i, gs_revision = rv, gs_objective = obj, gs_phase = ph,
                 gs_blockedReason = rs, gs_maxGoalRounds = mx\<rparr>"
    unfolding decodeSnapshot_def bind_res_Inr_iff by (auto simp: bind_res_Inr_iff split: option.splits if_split_asm)
  from nonEmptyString_wf [OF f(1)] normalizedString_wf [OF f(2)] positiveInteger_wf [OF f(3)]
    positiveInteger_wf [OF f(4)] f(5) show ?thesis
    by (auto simp: snapshot_wf_def g dest: decode_reason_wf split: if_splits)
qed

lemma decode_ref:
  "gr_id r \<noteq> [] \<Longrightarrow> 1 \<le> gr_revision r \<Longrightarrow> safe_nat (gr_revision r) \<Longrightarrow> decodeRef (Some (ref_json r)) = Inr r"
  by (simp add: decodeRef_def ref_json_def sorted_keys_def sorted_keys_literals bind_res_Inr_iff)

lemma decode_ref_wf: "decodeRef v = Inr r \<Longrightarrow> gr_id r \<noteq> [] \<and> 1 \<le> gr_revision r \<and> safe_nat (gr_revision r)"
  by (auto simp: decodeRef_def bind_res_Inr_iff dest!: positiveInteger_wf nonEmptyString_wf
      split: option.splits if_splits)

lemma decode_change:
  assumes "change_wf c"
  shows "decodeGoalChange (goal_change_json c) = Inr (Some c)"
proof (cases c)
  case (SnapshotChange op g r ca ua)
  with assms show ?thesis
    by (auto simp: decodeGoalChange_def sorted_keys_def sorted_keys_literals bind_res_Inr_iff
        decode_snapshot safe_nat_def)
next
  case (ClearChange r t)
  with assms show ?thesis
    by (auto simp: decodeGoalChange_def sorted_keys_def sorted_keys_literals bind_res_Inr_iff decode_ref)
qed

lemma decode_change_wf: "decodeGoalChange v = Inr (Some c) \<Longrightarrow> change_wf c"
  by (auto simp: decodeGoalChange_def bind_res_Inr_iff
      dest!: nonNegativeInteger_wf decode_snapshot_wf decode_ref_wf
      split: option.splits if_splits)

section \<open>The invariant of the fold\<close>

definition goal_inv :: "goal_state \<Rightarrow> bool" where
  "goal_inv st \<longleftrightarrow>
     (case gf_goal st of
        None \<Rightarrow> gf_roundsStarted st = 0 \<and> gf_createdAt st = None \<and> gf_updatedAt st = None
      | Some g \<Rightarrow> snapshot_wf g \<and> safe_nat (gf_roundsStarted st)
          \<and> gs_id g \<in> gf_seenGoalIds st \<and> gf_lastRef st = Some (snapshot_ref g)
          \<and> (\<exists>c u. gf_createdAt st = Some c \<and> gf_updatedAt st = Some u \<and> c \<le> u \<and> safe_nat u))"

lemma goal_inv_empty: "goal_inv emptyGoalFoldState"
  by (simp add: goal_inv_def emptyGoalFoldState_def)

lemma goal_inv_Some: "goal_inv st \<Longrightarrow> gf_goal st = Some g \<Longrightarrow> snapshot_wf g \<and> safe_nat (gf_roundsStarted st)
    \<and> gs_id g \<in> gf_seenGoalIds st \<and> gf_lastRef st = Some (snapshot_ref g)
    \<and> (\<exists>c u. gf_createdAt st = Some c \<and> gf_updatedAt st = Some u \<and> c \<le> u \<and> safe_nat u)"
  by (simp add: goal_inv_def)

lemma next_revision [simp]:
  "requireNextRevision cur nxt = Inr u \<longleftrightarrow> gr_id nxt = gs_id cur \<and> gr_revision nxt = gs_revision cur + 1"
  by (auto simp: requireNextRevision_def)

lemma same_definition [simp]:
  "requireSameDefinition cur nxt = Inr u \<longleftrightarrow>
     gs_objective nxt = gs_objective cur \<and> gs_maxGoalRounds nxt = gs_maxGoalRounds cur"
  by (auto simp: requireSameDefinition_def)

lemma snapshot_ref_simps [simp]: "gr_id (snapshot_ref g) = gs_id g" "gr_revision (snapshot_ref g) = gs_revision g"
  by (simp_all add: snapshot_ref_def)

lemma transition_Inr:
  assumes "validateSnapshotTransition st op nxt r c u cur = Inr x"
  shows "gs_id nxt = gs_id cur \<and> gs_revision nxt = gs_revision cur + 1 \<and> gf_createdAt st = Some c
     \<and> r = gf_roundsStarted st \<and> (\<exists>u0. gf_updatedAt st = Some u0 \<and> u0 \<le> u)
     \<and> (op \<noteq> OpEdit \<longrightarrow> gs_objective nxt = gs_objective cur \<and> gs_maxGoalRounds nxt = gs_maxGoalRounds cur)
     \<and> (op = OpEdit \<longrightarrow> gs_phase nxt = gs_phase cur \<and> gs_blockedReason nxt = gs_blockedReason cur)"
  using assms by (cases op) (auto simp: validateSnapshotTransition_def bind_res_Inr_iff split: option.splits if_splits)

lemma goal_inv_change:
  assumes inv: "goal_inv st" and wf: "change_wf c" and ap: "applyGoalChange st c = Inr st'"
  shows "goal_inv st'"
proof (cases c)
  case (ClearChange r t)
  with ap show ?thesis
    by (auto simp: bind_res_Inr_iff goal_inv_def split: option.splits if_splits)
next
  case (SnapshotChange op g r ca ua)
  have cu: "snapshot_wf g" "safe_nat r" "safe_nat ua" "ca \<le> ua" using wf SnapshotChange by simp_all
  show ?thesis
  proof (cases "op = OpCreate")
    case True
    with ap SnapshotChange cu show ?thesis by (auto simp: goal_inv_def Let_def split: option.splits if_splits)
  next
    case False
    with ap SnapshotChange obtain cur where cur: "gf_goal st = Some cur"
      and v: "validateSnapshotTransition st op g r ca ua cur = Inr ()"
      and st': "st' = st\<lparr>gf_goal := Some g, gf_roundsStarted := r, gf_createdAt := Some ca,
          gf_updatedAt := Some ua, gf_lastRef := Some (snapshot_ref g)\<rparr>"
      by (auto simp: bind_res_Inr_iff Let_def split: option.splits)
    from transition_Inr [OF v] goal_inv_Some [OF inv cur] cu show ?thesis by (simp add: goal_inv_def st')
  qed
qed

lemma goalSource_wf: "goalSource src = Inr (Some s) \<Longrightarrow> safe_nat (go_round s) \<and> 1 \<le> go_round s"
  by (auto simp: goalSource_def safe_nat_def split: message_source.splits jsnum.splits if_splits)

text \<open>What an accepted event did: a goal change, an admitted round, or nothing.\<close>

lemma goal_event_cases:
  assumes "applyGoalEvent st ev = Inr st'"
  obtains (change) d c where "ev_data ev = GoalChange d" "decodeGoalChange d = Inr (Some c)"
      "applyGoalChange st c = Inr st'"
  | (round) m src g where "ev_data ev = UserMessage m" "goalSource (m_source m) = Inr (Some src)"
      "gf_goal st = Some g" "gs_phase g = GActive" "go_goalId src = gs_id g" "go_revision src = gs_revision g"
      "go_round src = gf_roundsStarted st + 1" "go_round src \<le> gs_maxGoalRounds g"
      "st' = st\<lparr>gf_roundsStarted := go_round src\<rparr>"
  | (other) "st' = st" "\<forall>d. ev_data ev \<noteq> GoalChange d"
      "\<forall>m. ev_data ev = UserMessage m \<longrightarrow> goalSource (m_source m) = Inr None"
proof (cases "ev_data ev")
  case (GoalChange d)
  then show ?thesis using assms change by (auto simp: applyGoalEvent_def bind_res_Inr_iff split: option.splits)
next
  case (UserMessage m)
  show ?thesis
  proof (cases "goalSource (m_source m) = Inr None")
    case True
    then show ?thesis using assms other UserMessage by (simp add: applyGoalEvent_def)
  next
    case False
    with assms UserMessage obtain src where src: "goalSource (m_source m) = Inr (Some src)"
      by (auto simp: applyGoalEvent_def bind_res_Inr_iff)
    with assms UserMessage obtain g where "gf_goal st = Some g" "gs_phase g = GActive" "go_goalId src = gs_id g"
      "go_revision src = gs_revision g" "go_round src = gf_roundsStarted st + 1"
      "go_round src \<le> gs_maxGoalRounds g" "st' = st\<lparr>gf_roundsStarted := go_round src\<rparr>"
      by (auto simp: applyGoalEvent_def split: option.splits if_splits)
    with round [OF UserMessage src] show ?thesis by blast
  qed
qed (use assms other in \<open>simp_all add: applyGoalEvent_def\<close>)

lemma goal_inv_event: "goal_inv st \<Longrightarrow> applyGoalEvent st ev = Inr st' \<Longrightarrow> goal_inv st'"
proof (erule goal_event_cases)
  fix d c
  assume "goal_inv st" "decodeGoalChange d = Inr (Some c)" "applyGoalChange st c = Inr st'"
  then show ?thesis using goal_inv_change decode_change_wf by blast
next
  fix m src g
  assume "goal_inv st" "goalSource (m_source m) = Inr (Some src)" "gf_goal st = Some g"
    "st' = st\<lparr>gf_roundsStarted := go_round src\<rparr>"
  then show ?thesis using goalSource_wf by (auto simp: goal_inv_def)
qed simp

interpretation gol: projection emptyGoalFoldState applyGoalEvent goal_inv
  by unfold_locales (auto intro: goal_inv_empty goal_inv_event)

section \<open>The history of a goal\<close>

text \<open>The revisions the log records of one goal, its rounds, and the identities created.\<close>

definition revision_of_event :: "string \<Rightarrow> session_event \<Rightarrow> nat list" where
  "revision_of_event i ev =
     (case ev_data ev of
        GoalChange d \<Rightarrow>
          (case decodeGoalChange d of
             Inr (Some c) \<Rightarrow> if gr_id (goalChangeRef c) = i then [gr_revision (goalChangeRef c)] else []
           | _ \<Rightarrow> [])
      | _ \<Rightarrow> [])"

definition round_of_event :: "string \<Rightarrow> session_event \<Rightarrow> nat list" where
  "round_of_event i ev =
     (case ev_data ev of
        UserMessage m \<Rightarrow>
          (case goalSource (m_source m) of
             Inr (Some src) \<Rightarrow> if go_goalId src = i then [go_round src] else []
           | _ \<Rightarrow> [])
      | _ \<Rightarrow> [])"

definition created_by_event :: "session_event \<Rightarrow> string list" where
  "created_by_event ev =
     (case ev_data ev of
        GoalChange d \<Rightarrow>
          (case decodeGoalChange d of
             Inr (Some (SnapshotChange OpCreate g _ _ _)) \<Rightarrow> [gs_id g]
           | _ \<Rightarrow> [])
      | _ \<Rightarrow> [])"

definition goal_revisions :: "session_event list \<Rightarrow> string \<Rightarrow> nat list" where
  "goal_revisions evs i = concat (map (revision_of_event i) evs)"

definition goal_rounds :: "session_event list \<Rightarrow> string \<Rightarrow> nat list" where
  "goal_rounds evs i = concat (map (round_of_event i) evs)"

definition created_goals :: "session_event list \<Rightarrow> string list" where
  "created_goals evs = concat (map created_by_event evs)"

definition goal_history :: "session_event list \<Rightarrow> goal_state \<Rightarrow> bool" where
  "goal_history evs st \<longleftrightarrow>
     distinct (created_goals evs) \<and> gf_seenGoalIds st = set (created_goals evs)
     \<and> (\<forall>i. i \<notin> gf_seenGoalIds st \<longrightarrow> goal_revisions evs i = [] \<and> goal_rounds evs i = [])
     \<and> (\<forall>i. \<exists>k. goal_revisions evs i = [1..<Suc k]) \<and> (\<forall>i. \<exists>k. goal_rounds evs i = [1..<Suc k])
     \<and> (\<forall>g. gf_goal st = Some g \<longrightarrow> goal_revisions evs (gs_id g) = [1..<Suc (gs_revision g)]
           \<and> goal_rounds evs (gs_id g) = [1..<Suc (gf_roundsStarted st)])"

lemma history_snoc [simp]:
  "goal_revisions (evs @ [ev]) i = goal_revisions evs i @ revision_of_event i ev"
  "goal_rounds (evs @ [ev]) i = goal_rounds evs i @ round_of_event i ev"
  "created_goals (evs @ [ev]) = created_goals evs @ created_by_event ev"
  by (simp_all add: goal_revisions_def goal_rounds_def created_goals_def)

lemma upt_ex_Nil: "\<exists>k. [] = [1..<Suc k]"
  by (rule exI [of _ 0]) simp

text \<open>Recording the next number for one identity keeps every list an initial segment.\<close>

lemma segment_next:
  assumes "\<forall>i. \<exists>k. f i = [1..<Suc k]" and "f j = [1..<Suc n]"
  shows "\<exists>k. f i @ (if j = i then [Suc n] else []) = [1..<Suc k]"
  using assms by (cases "j = i") (auto intro!: exI [of _ "Suc n"])

lemma goal_history_change:
  assumes h: "goal_history evs st" and inv: "goal_inv st" and d: "ev_data ev = GoalChange d"
    and c: "decodeGoalChange d = Inr (Some c)" and ap: "applyGoalChange st c = Inr st'"
  shows "goal_history (evs @ [ev]) st'"
proof -
  have round: "round_of_event i ev = []" for i by (simp add: round_of_event_def d)
  have rev: "revision_of_event i ev = (if gr_id (goalChangeRef c) = i then [gr_revision (goalChangeRef c)] else [])" for i
    by (simp add: revision_of_event_def d c)
  show ?thesis
  proof (cases c)
    case (ClearChange r t)
    with ap obtain g where g: "gf_goal st = Some g" "gr_id r = gs_id g" "gr_revision r = Suc (gs_revision g)"
      and st': "gf_goal st' = None" "gf_seenGoalIds st' = gf_seenGoalIds st"
      by (auto simp: bind_res_Inr_iff split: option.splits if_splits)
    have "created_by_event ev = []" using ClearChange by (simp add: created_by_event_def d c)
    moreover have "\<exists>k. goal_revisions evs i @ (if gs_id g = i then [Suc (gs_revision g)] else []) = [1..<Suc k]" for i
      by (rule segment_next) (use h g(1) in \<open>auto simp: goal_history_def\<close>)
    moreover have "gs_id g \<in> gf_seenGoalIds st" using goal_inv_Some [OF inv g(1)] by simp
    moreover have "revision_of_event i ev = (if gs_id g = i then [Suc (gs_revision g)] else [])" for i
      using rev ClearChange g by simp
    ultimately show ?thesis
      using h st' round by (auto simp: goal_history_def)
  next
    case (SnapshotChange op g r ca ua)
    show ?thesis
    proof (cases "op = OpCreate")
      case True
      with ap SnapshotChange have new: "gs_revision g = 1" "gs_id g \<notin> gf_seenGoalIds st" "r = 0"
        and st': "gf_goal st' = Some g" "gf_seenGoalIds st' = insert (gs_id g) (gf_seenGoalIds st)" "gf_roundsStarted st' = r"
        by (auto simp: Let_def split: option.splits if_splits)
      have "created_by_event ev = [gs_id g]" using SnapshotChange True by (simp add: created_by_event_def d c)
      moreover have "goal_revisions evs (gs_id g) = []" "goal_rounds evs (gs_id g) = []"
        using h new(2) by (auto simp: goal_history_def)
      moreover have "\<exists>k. goal_revisions evs i @ (if gs_id g = i then [Suc 0] else []) = [1..<Suc k]" for i
        by (rule segment_next) (use h calculation(2) in \<open>auto simp: goal_history_def\<close>)
      moreover have "revision_of_event i ev = (if gs_id g = i then [Suc 0] else [])" for i
        using rev SnapshotChange new by simp
      ultimately show ?thesis
        using h new st' round by (auto simp: goal_history_def)
    next
      case False
      with ap SnapshotChange obtain cur where cur: "gf_goal st = Some cur"
        and v: "validateSnapshotTransition st op g r ca ua cur = Inr ()"
        and st': "gf_goal st' = Some g" "gf_seenGoalIds st' = gf_seenGoalIds st" "gf_roundsStarted st' = r"
        by (auto simp: bind_res_Inr_iff Let_def split: option.splits)
      note t = transition_Inr [OF v]
      have "created_by_event ev = []"
        using SnapshotChange False by (cases op) (simp_all add: created_by_event_def d c)
      moreover have "\<exists>k. goal_revisions evs i @ (if gs_id cur = i then [Suc (gs_revision cur)] else []) = [1..<Suc k]" for i
        by (rule segment_next) (use h cur in \<open>auto simp: goal_history_def\<close>)
      moreover have "gs_id cur \<in> gf_seenGoalIds st" using goal_inv_Some [OF inv cur] by simp
      moreover have "revision_of_event i ev = (if gs_id cur = i then [Suc (gs_revision cur)] else [])" for i
        using rev SnapshotChange t by simp
      ultimately show ?thesis
        using h cur st' t round by (auto simp: goal_history_def)
    qed
  qed
qed

lemma goal_history_round:
  assumes h: "goal_history evs st" and inv: "goal_inv st" and m: "ev_data ev = UserMessage m"
    and src: "goalSource (m_source m) = Inr (Some src)" and g: "gf_goal st = Some g" "go_goalId src = gs_id g"
      "go_round src = gf_roundsStarted st + 1"
  shows "goal_history (evs @ [ev]) (st\<lparr>gf_roundsStarted := go_round src\<rparr>)"
proof -
  have "round_of_event i ev = (if gs_id g = i then [Suc (gf_roundsStarted st)] else [])" for i
    by (simp add: round_of_event_def m src g)
  moreover have "revision_of_event i ev = []" "created_by_event ev = []" for i
    by (simp_all add: revision_of_event_def created_by_event_def m)
  moreover have "\<exists>k. goal_rounds evs i @ (if gs_id g = i then [Suc (gf_roundsStarted st)] else []) = [1..<Suc k]" for i
    by (rule segment_next) (use h g(1) in \<open>auto simp: goal_history_def\<close>)
  moreover have "gs_id g \<in> gf_seenGoalIds st" using goal_inv_Some [OF inv g(1)] by simp
  ultimately show ?thesis
    using h g by (auto simp: goal_history_def)
qed

lemma goal_history_log: "gol.replay evs = Inr st \<Longrightarrow> goal_history evs st"
proof (induction evs arbitrary: st rule: rev_induct)
  case Nil
  then have st: "st = emptyGoalFoldState" by (simp add: gol.replay_Nil)
  show ?case
    using upt_ex_Nil by (auto simp: st goal_history_def emptyGoalFoldState_def goal_revisions_def goal_rounds_def created_goals_def)
next
  case (snoc ev evs)
  from snoc.prems obtain st0 where st0: "gol.replay evs = Inr st0" and e: "applyGoalEvent st0 ev = Inr st"
    by (auto simp: gol.replay_snoc bind_res_Inr_iff)
  note h = snoc.IH [OF st0] and inv = gol.replay_inv [OF st0]
  from e show ?case
  proof (cases rule: goal_event_cases)
    case (change d c)
    then show ?thesis using goal_history_change [OF h inv] by blast
  next
    case (round m src g)
    then show ?thesis using goal_history_round [OF h inv] by blast
  next
    case other
    then have "revision_of_event i ev = []" "round_of_event i ev = []" "created_by_event ev = []" for i
      by (auto simp: revision_of_event_def round_of_event_def created_by_event_def split: event_data.splits)
    then show ?thesis using h other(1) by (simp add: goal_history_def)
  qed
qed

end
