(* ===== verification/Goal_Service.thy ===== *)
theory Goal_Service
  imports Goal_Fold
begin

text \<open>
  The goal service (packages/goal/goal/src/index.ts): compare-and-set mutations of the goal a
  session log carries, through a cache that folds the log incrementally and holds the process-local
  activation. Each mutation appends one \<open>goal/change\<close> and reads it back through the same fold.
  A session's agent is live or not (\<open>live\<close>), the clock is \<open>now\<close>, and \<open>randomUUID\<close> is \<open>uuid\<close>.

  The lemmas show that no mutation the service accepts is refused by the fold, that the cache is
  always the fold of a prefix of the log, and that the operations implement a small specification
  over the current goal, its rounds and the activation.
\<close>

section \<open>State and results\<close>

record goal_cache =
  gc_state :: goal_state
  gc_armed :: bool  \<comment> \<open>activation\<close>
  gc_observedSeq :: nat
  gc_pendingActivation :: "(nat \<times> bool) option"

record goal_view =
  gw_goal :: goal_snapshot
  gw_roundsStarted :: nat
  gw_createdAt :: nat
  gw_updatedAt :: nat
  gw_armed :: bool

datatype goal_operation = SnapshotOperation snapshot_op | ClearOperation

record goal_changed =
  gn_operation :: goal_operation
  gn_ref :: goal_ref
  gn_goal :: "goal_view option"

record goal_service =
  gv_session :: session
  gv_cache :: "goal_cache option"
  gv_default :: nat  \<comment> \<open>\<open>defaultMaxGoalRounds\<close>\<close>
  gv_notes :: "goal_changed list"

datatype goal_error =
    GOAL_AGENT_NOT_LIVE
  | GOAL_NOT_FOUND
  | GOAL_ALREADY_EXISTS
  | GOAL_STALE_REVISION
  | GOAL_INVALID_OBJECTIVE
  | GOAL_INVALID_MAX_ROUNDS
  | GOAL_INVALID_BLOCK_REASON
  | GOAL_INVALID_EDIT
  | GOAL_INVALID_TRANSITION
  | GoalFoldFailed goal_fold_error
  | GoalAppendFailed session_error
  | GoalLacksTimestamps

section \<open>Validation of requests\<close>

definition resolveMaxGoalRounds :: "jsnum \<Rightarrow> goal_error + nat" where
  "resolveMaxGoalRounds value =
     (case value of
        JInt i \<Rightarrow> if \<not> is_safe_integer value \<or> i < 1 then Inl GOAL_INVALID_MAX_ROUNDS else Inr (nat i)
      | JFrac _ \<Rightarrow> Inl GOAL_INVALID_MAX_ROUNDS)"

definition resolveObjective :: "string \<Rightarrow> goal_error + string" where
  "resolveObjective value =
     (if length (js_trim value) = 0 then Inl GOAL_INVALID_OBJECTIVE else Inr (js_trim value))"

definition resolveCreateGoal :: "string \<Rightarrow> jsnum option \<Rightarrow> nat \<Rightarrow> goal_error + string \<times> nat" where
  "resolveCreateGoal objective maxRounds dflt =
     bind_res (resolveObjective objective) (\<lambda>obj.
     bind_res (resolveMaxGoalRounds (case maxRounds of None \<Rightarrow> JInt (int dflt) | Some m \<Rightarrow> m)) (\<lambda>m.
       Inr (obj, m)))"

definition resolveBlockReason :: "json \<Rightarrow> goal_error + block_reason" where
  "resolveBlockReason reason =
     (let code = as_string (if is_record reason then jget ''code'' reason else None);
          message = as_string (if is_record reason then jget ''message'' reason else None) in
      case (code, message) of
        (Some c, Some m) \<Rightarrow>
          if \<not> is_kebab c \<or> length (js_trim m) = 0 then Inl GOAL_INVALID_BLOCK_REASON
          else Inr \<lparr>br_code = c, br_message = js_trim m\<rparr>
      | _ \<Rightarrow> Inl GOAL_INVALID_BLOCK_REASON)"

section \<open>The cache\<close>

definition goal_cache_of :: "goal_service \<Rightarrow> goal_error + goal_cache" where
  "goal_cache_of sv =
     (case gv_cache sv of
        Some c \<Rightarrow> Inr c
      | None \<Rightarrow>
          bind_res (map_error GoalFoldFailed (fold_res applyGoalEvent emptyGoalFoldState (s_log (gv_session sv)))) (\<lambda>st.
            Inr \<lparr>gc_state = st, gc_armed = False, gc_observedSeq = length (s_log (gv_session sv)),
                 gc_pendingActivation = None\<rparr>))"

definition sync_event :: "goal_cache \<Rightarrow> session_event \<Rightarrow> goal_error + goal_cache" where
  "sync_event c ev =
     bind_res (map_error GoalFoldFailed (applyGoalEvent (gc_state c) ev)) (\<lambda>st.
       Inr (c\<lparr>gc_state := st,
              gc_armed := (case ev_data ev of
                 GoalChange _ \<Rightarrow>
                   (case gc_pendingActivation c of
                      Some (seq, armed) \<Rightarrow> if seq = ev_seq ev then armed else False
                    | None \<Rightarrow> False)
               | _ \<Rightarrow> gc_armed c),
              gc_observedSeq := gc_observedSeq c + 1\<rparr>))"

definition goal_sync :: "session \<Rightarrow> goal_cache \<Rightarrow> goal_error + goal_cache" where
  "goal_sync s c = fold_res sync_event c (drop (gc_observedSeq c) (s_log s))"

definition goal_view_of :: "goal_cache \<Rightarrow> goal_error + goal_view option" where
  "goal_view_of c =
     (case gf_goal (gc_state c) of
        None \<Rightarrow> Inr None
      | Some g \<Rightarrow>
          (case (gf_createdAt (gc_state c), gf_updatedAt (gc_state c)) of
             (Some ca, Some ua) \<Rightarrow>
               Inr (Some \<lparr>gw_goal = g, gw_roundsStarted = gf_roundsStarted (gc_state c), gw_createdAt = ca,
                          gw_updatedAt = ua, gw_armed = gc_armed c\<rparr>)
           | _ \<Rightarrow> Inl GoalLacksTimestamps))"

text \<open>\<open>assertLive\<close>, the cache and \<open>sync\<close>: the prologue of every operation.\<close>

definition prepareMutation :: "bool \<Rightarrow> goal_service \<Rightarrow> goal_error + goal_service \<times> goal_cache" where
  "prepareMutation live sv =
     (if \<not> live then Inl GOAL_AGENT_NOT_LIVE
      else bind_res (goal_cache_of sv) (\<lambda>c0.
           bind_res (goal_sync (gv_session sv) c0) (\<lambda>c. Inr (sv\<lparr>gv_cache := Some c\<rparr>, c))))"

definition expectCurrent :: "goal_cache \<Rightarrow> goal_ref \<Rightarrow> goal_error + goal_snapshot" where
  "expectCurrent c ref =
     (case gf_goal (gc_state c) of
        None \<Rightarrow> Inl GOAL_NOT_FOUND
      | Some current \<Rightarrow>
          if gr_id ref \<noteq> gs_id current \<or> gr_revision ref \<noteq> gs_revision current
          then Inl GOAL_STALE_REVISION else Inr current)"

section \<open>Committing\<close>

fun change_operation :: "goal_change \<Rightarrow> goal_operation" where
  "change_operation (SnapshotChange op _ _ _ _) = SnapshotOperation op"
| "change_operation (ClearChange _ _) = ClearOperation"

definition goal_commit :: "nat \<Rightarrow> goal_service \<Rightarrow> goal_cache \<Rightarrow> goal_change \<Rightarrow> bool \<Rightarrow> goal_error + goal_service" where
  "goal_commit now sv c change armed =
     (let c1 = c\<lparr>gc_pendingActivation := Some (length (s_log (gv_session sv)), armed)\<rparr> in
      bind_res (map_error GoalAppendFailed
                  (log_append now (gv_session sv) (GoalChange (goal_change_json change)))) (\<lambda>s'.
      bind_res (goal_sync s' c1) (\<lambda>c2.
      let c3 = c2\<lparr>gc_pendingActivation := None\<rparr> in
      bind_res (goal_view_of c3) (\<lambda>v.
        Inr (sv\<lparr>gv_session := s', gv_cache := Some c3,
                gv_notes := gv_notes sv @ [\<lparr>gn_operation = change_operation change,
                                            gn_ref = goalChangeRef change, gn_goal = v\<rparr>]\<rparr>)))))"

definition nextMutationTime :: "nat \<Rightarrow> goal_cache \<Rightarrow> goal_error + nat" where
  "nextMutationTime now c =
     (case gf_updatedAt (gc_state c) of None \<Rightarrow> Inl GoalLacksTimestamps | Some u \<Rightarrow> Inr (max now u))"

definition commitCurrent ::
    "nat \<Rightarrow> goal_service \<Rightarrow> goal_cache \<Rightarrow> snapshot_op \<Rightarrow> goal_snapshot \<Rightarrow> bool \<Rightarrow> goal_error + goal_service" where
  "commitCurrent now sv c op goal armed =
     (case gf_createdAt (gc_state c) of
        None \<Rightarrow> Inl GoalLacksTimestamps
      | Some createdAt \<Rightarrow>
          bind_res (nextMutationTime now c) (\<lambda>t.
            goal_commit now sv c (SnapshotChange op goal (gf_roundsStarted (gc_state c)) createdAt t) armed))"

definition withPhase :: "goal_snapshot \<Rightarrow> goal_phase \<Rightarrow> goal_snapshot" where
  "withPhase current phase =
     \<lparr>gs_id = gs_id current, gs_revision = gs_revision current + 1, gs_objective = gs_objective current,
      gs_phase = phase, gs_blockedReason = None, gs_maxGoalRounds = gs_maxGoalRounds current\<rparr>"

section \<open>Operations\<close>

definition goal_get :: "bool \<Rightarrow> goal_service \<Rightarrow> goal_error + goal_service \<times> goal_view option" where
  "goal_get live sv =
     bind_res (prepareMutation live sv) (\<lambda>(sv1, c). bind_res (goal_view_of c) (\<lambda>v. Inr (sv1, v)))"

definition goal_disarm :: "bool \<Rightarrow> goal_service \<Rightarrow> goal_error + goal_service" where
  "goal_disarm live sv =
     bind_res (prepareMutation live sv) (\<lambda>(sv1, c).
       let c1 = c\<lparr>gc_armed := False\<rparr> in
       bind_res (goal_view_of c1) (\<lambda>_. Inr (sv1\<lparr>gv_cache := Some c1\<rparr>)))"

definition goal_create ::
    "bool \<Rightarrow> nat \<Rightarrow> string \<Rightarrow> goal_service \<Rightarrow> string \<Rightarrow> jsnum option \<Rightarrow> goal_error + goal_service" where
  "goal_create live now uuid sv objective maxRounds =
     bind_res (resolveCreateGoal objective maxRounds (gv_default sv)) (\<lambda>(obj, m).
     bind_res (prepareMutation live sv) (\<lambda>(sv1, c).
       if (case gf_goal (gc_state c) of None \<Rightarrow> False | Some g \<Rightarrow> gs_phase g \<noteq> GComplete)
       then Inl GOAL_ALREADY_EXISTS
       else goal_commit now sv1 c
              (SnapshotChange OpCreate
                 \<lparr>gs_id = ''goal-'' @ uuid, gs_revision = 1, gs_objective = obj, gs_phase = GActive,
                  gs_blockedReason = None, gs_maxGoalRounds = m\<rparr> 0 now now) True))"

definition goal_edit ::
    "bool \<Rightarrow> nat \<Rightarrow> goal_service \<Rightarrow> goal_ref \<Rightarrow> string option \<Rightarrow> jsnum option \<Rightarrow> goal_error + goal_service" where
  "goal_edit live now sv ref objective maxRounds =
     bind_res (prepareMutation live sv) (\<lambda>(sv1, c).
     bind_res (expectCurrent c ref) (\<lambda>current.
       if objective = None \<and> maxRounds = None then Inl GOAL_INVALID_EDIT
       else bind_res (case objective of None \<Rightarrow> Inr (gs_objective current) | Some x \<Rightarrow> resolveObjective x) (\<lambda>obj.
            bind_res (case maxRounds of None \<Rightarrow> Inr (gs_maxGoalRounds current)
                      | Some x \<Rightarrow> resolveMaxGoalRounds x) (\<lambda>m.
              commitCurrent now sv1 c OpEdit
                (current\<lparr>gs_revision := gs_revision current + 1, gs_objective := obj, gs_maxGoalRounds := m\<rparr>)
                (gc_armed c)))))"

definition goal_transition ::
    "bool \<Rightarrow> nat \<Rightarrow> goal_service \<Rightarrow> goal_ref \<Rightarrow> snapshot_op \<Rightarrow> goal_phase list \<Rightarrow> goal_phase \<Rightarrow> bool
     \<Rightarrow> goal_error + goal_service" where
  "goal_transition live now sv ref op allowed phase armed =
     bind_res (prepareMutation live sv) (\<lambda>(sv1, c).
     bind_res (expectCurrent c ref) (\<lambda>current.
       if gs_phase current \<notin> set allowed then Inl GOAL_INVALID_TRANSITION
       else commitCurrent now sv1 c op (withPhase current phase) armed))"

definition goal_pause :: "bool \<Rightarrow> nat \<Rightarrow> goal_service \<Rightarrow> goal_ref \<Rightarrow> goal_error + goal_service" where
  "goal_pause live now sv ref = goal_transition live now sv ref OpPause [GActive] GPaused False"

definition goal_complete :: "bool \<Rightarrow> nat \<Rightarrow> goal_service \<Rightarrow> goal_ref \<Rightarrow> goal_error + goal_service" where
  "goal_complete live now sv ref =
     goal_transition live now sv ref OpComplete [GActive, GPaused, GBlocked] GComplete False"

definition goal_resume :: "bool \<Rightarrow> nat \<Rightarrow> goal_service \<Rightarrow> goal_ref \<Rightarrow> goal_error + goal_service" where
  "goal_resume live now sv ref =
     bind_res (prepareMutation live sv) (\<lambda>(sv1, c).
     bind_res (expectCurrent c ref) (\<lambda>current.
       if gs_phase current \<notin> {GActive, GPaused, GBlocked} then Inl GOAL_INVALID_TRANSITION
       else if gs_phase current = GActive \<and> gc_armed c then Inl GOAL_INVALID_TRANSITION
       else if gs_maxGoalRounds current \<le> gf_roundsStarted (gc_state c) then Inl GOAL_INVALID_TRANSITION
       else commitCurrent now sv1 c OpResume (withPhase current GActive) True))"

definition goal_block :: "bool \<Rightarrow> nat \<Rightarrow> goal_service \<Rightarrow> goal_ref \<Rightarrow> json \<Rightarrow> goal_error + goal_service" where
  "goal_block live now sv ref reason =
     bind_res (prepareMutation live sv) (\<lambda>(sv1, c).
     bind_res (expectCurrent c ref) (\<lambda>current.
       if gs_phase current \<noteq> GActive then Inl GOAL_INVALID_TRANSITION
       else bind_res (resolveBlockReason reason) (\<lambda>r.
         commitCurrent now sv1 c OpBlock ((withPhase current GBlocked)\<lparr>gs_blockedReason := Some r\<rparr>) False)))"

definition goal_clear :: "bool \<Rightarrow> nat \<Rightarrow> goal_service \<Rightarrow> goal_ref \<Rightarrow> goal_error + goal_service" where
  "goal_clear live now sv ref =
     bind_res (prepareMutation live sv) (\<lambda>(sv1, c).
     bind_res (expectCurrent c ref) (\<lambda>current.
     bind_res (nextMutationTime now c) (\<lambda>t.
       goal_commit now sv1 c
         (ClearChange \<lparr>gr_id = gs_id current, gr_revision = gs_revision current + 1\<rparr> t) False)))"

section \<open>The cache is the fold of the log\<close>

interpretation slog0: event_log s_log "\<lambda>_. 0" session_ok "log_append now" for now
  using slog.append_event slog.append_accepts by unfold_locales blast+

interpretation glog: log_client s_log "\<lambda>_. 0" session_ok "log_append now" emptyGoalFoldState applyGoalEvent goal_inv
  for now by unfold_locales

lemma goal_synced_iff: "glog.synced s st \<longleftrightarrow> session_ok s \<and> gol.replay (s_log s) = Inr st"
  by (simp add: glog.synced_def)

definition cache_at :: "session \<Rightarrow> goal_cache \<Rightarrow> bool" where
  "cache_at s c \<longleftrightarrow>
     gc_pendingActivation c = None \<and> gc_observedSeq c \<le> length (s_log s)
     \<and> gol.replay (take (gc_observedSeq c) (s_log s)) = Inr (gc_state c)"

definition service_ok :: "goal_service \<Rightarrow> bool" where
  "service_ok sv \<longleftrightarrow>
     (\<exists>st. glog.synced (gv_session sv) st)
     \<and> (\<forall>c. gv_cache sv = Some c \<longrightarrow> cache_at (gv_session sv) c)
     \<and> 1 \<le> gv_default sv \<and> safe_nat (gv_default sv)"

text \<open>The state every operation works on: the fold of the whole log, and the local activation.\<close>

definition goal_state_of :: "goal_service \<Rightarrow> goal_state \<Rightarrow> bool \<Rightarrow> bool" where
  "goal_state_of sv st armed \<longleftrightarrow>
     (\<exists>c. prepareMutation True sv = Inr (sv\<lparr>gv_cache := Some c\<rparr>, c) \<and> gc_state c = st
        \<and> gc_armed c = armed \<and> gc_pendingActivation c = None
        \<and> gc_observedSeq c = length (s_log (gv_session sv)))
     \<and> glog.synced (gv_session sv) st"

lemma sync_fold:
  "fold_res applyGoalEvent (gc_state c) evs = Inr st \<Longrightarrow>
   \<exists>c'. fold_res sync_event c evs = Inr c' \<and> gc_state c' = st
      \<and> gc_observedSeq c' = gc_observedSeq c + length evs
      \<and> gc_pendingActivation c' = gc_pendingActivation c"
proof (induction evs arbitrary: c)
  case Nil
  then show ?case by simp
next
  case (Cons ev evs)
  from Cons.prems obtain st1 where st1: "applyGoalEvent (gc_state c) ev = Inr st1"
    and rest: "fold_res applyGoalEvent st1 evs = Inr st" by (auto simp: bind_res_Inr_iff)
  then obtain c1 where "sync_event c ev = Inr c1" "gc_state c1 = st1" "gc_observedSeq c1 = gc_observedSeq c + 1"
    "gc_pendingActivation c1 = gc_pendingActivation c" by (simp add: sync_event_def)
  with Cons.IH [of c1] rest show ?case by auto
qed

lemma goal_sync_at:
  assumes f: "gol.replay (s_log s) = Inr st" and k: "gc_observedSeq c \<le> length (s_log s)"
    and c: "gol.replay (take (gc_observedSeq c) (s_log s)) = Inr (gc_state c)"
  shows "\<exists>c'. goal_sync s c = Inr c' \<and> gc_state c' = st \<and> gc_observedSeq c' = length (s_log s)
           \<and> gc_pendingActivation c' = gc_pendingActivation c"
proof -
  have "fold_res applyGoalEvent (gc_state c) (drop (gc_observedSeq c) (s_log s)) = Inr st"
    using gol.incremental_agrees [OF c, of "drop (gc_observedSeq c) (s_log s)"] f by simp
  from sync_fold [OF this] k show ?thesis by (simp add: goal_sync_def)
qed

lemma prepare_ok:
  assumes "service_ok sv"
  shows "\<exists>st armed. goal_state_of sv st armed"
proof -
  from assms obtain st where st: "glog.synced (gv_session sv) st" by (auto simp: service_ok_def)
  then have f: "gol.replay (s_log (gv_session sv)) = Inr st" by (simp add: goal_synced_iff)
  obtain c0 where c0: "goal_cache_of sv = Inr c0" and at: "cache_at (gv_session sv) c0"
  proof (cases "gv_cache sv")
    case None
    with f that show ?thesis
      by (auto simp: goal_cache_of_def cache_at_def gol.replay_def)
  next
    case (Some c)
    with assms that show ?thesis by (simp add: goal_cache_of_def service_ok_def)
  qed
  from goal_sync_at [OF f, of c0] at obtain c where "goal_sync (gv_session sv) c0 = Inr c" "gc_state c = st"
    "gc_observedSeq c = length (s_log (gv_session sv))" "gc_pendingActivation c = None"
    by (auto simp: cache_at_def)
  with c0 st show ?thesis by (auto simp: goal_state_of_def prepareMutation_def)
qed

lemma goal_view_total: "goal_inv (gc_state c) \<Longrightarrow> \<exists>v. goal_view_of c = Inr v"
  by (auto simp: goal_inv_def goal_view_of_def split: option.splits)

text \<open>A change the fold accepts is committed, and the service then shows its result.\<close>

lemma commit_ok:
  assumes s: "goal_state_of sv st armed0" and wf: "change_wf change"
    and ap: "applyGoalChange st change = Inr st'"
    and c: "prepareMutation True sv = Inr (sv1, c)"
    and d: "1 \<le> gv_default sv" "safe_nat (gv_default sv)"
  shows "\<exists>sv'. goal_commit now sv1 c change armed = Inr sv'
           \<and> goal_state_of sv' st' armed \<and> service_ok sv'
           \<and> gv_default sv' = gv_default sv
           \<and> (\<exists>ev. s_log (gv_session sv') = s_log (gv_session sv) @ [ev] \<and> ev_data ev = GoalChange (goal_change_json change))"
proof -
  let ?s = "gv_session sv" and ?d = "GoalChange (goal_change_json change)"
  from s c have sy: "glog.synced ?s st" and sv1: "sv1 = sv\<lparr>gv_cache := Some c\<rparr>" and cst: "gc_state c = st"
    and pend: "gc_pendingActivation c = None" and obs: "gc_observedSeq c = length (s_log ?s)"
    by (auto simp: goal_state_of_def)
  obtain s' where a: "log_append now ?s ?d = Inr s'"
    using glog.synced_accepts [OF sy, of ?d now] by (auto simp: isSurfaceEligibleType_def surface_event_types_def)
  from slog0.append_event [OF _ a] sy obtain ev where log': "s_log s' = s_log ?s @ [ev]" and dat: "ev_data ev = ?d"
    by (auto simp: goal_synced_iff)
  have ev: "applyGoalEvent st e = Inr st'" if "ev_data e = ?d" for e
    using that ap by (simp add: applyGoalEvent_def decode_change [OF wf])
  have sy': "glog.synced s' st'" by (rule glog.synced_commit [OF sy a ev])
  have "session_ok s'" using sy' by (simp add: goal_synced_iff)
  then obtain fs reps where "foldSurface (s_log s') = Inr (fs, reps)" by (metis session_okD)
  from foldSurface_inv [OF this] have "ev_seq (s_log s' ! i) = i" if "i < length (s_log s')" for i
    using that by simp
  from this [of "length (s_log ?s)"] log' have seq: "ev_seq ev = length (s_log ?s)" by simp
  let ?c1 = "c\<lparr>gc_pendingActivation := Some (length (s_log ?s), armed)\<rparr>"
  let ?c2 = "?c1\<lparr>gc_state := st', gc_armed := armed, gc_observedSeq := Suc (length (s_log ?s))\<rparr>"
  have sync: "goal_sync s' ?c1 = Inr ?c2"
    using log' obs cst dat ev seq by (simp add: goal_sync_def sync_event_def)
  let ?c3 = "?c2\<lparr>gc_pendingActivation := None\<rparr>"
  obtain v where v: "goal_view_of ?c3 = Inr v"
    using goal_view_total [of ?c3] glog.synced_inv [OF sy'] by auto
  let ?sv = "sv1\<lparr>gv_session := s', gv_cache := Some ?c3, gv_notes := gv_notes sv1
    @ [\<lparr>gn_operation = change_operation change, gn_ref = goalChangeRef change, gn_goal = v\<rparr>]\<rparr>"
  have com: "goal_commit now sv1 c change armed = Inr ?sv"
    using a sync v by (simp add: goal_commit_def sv1 Let_def)
  have "service_ok ?sv"
    using sy' log' d by (auto simp: service_ok_def cache_at_def sv1 goal_synced_iff)
  moreover have "goal_state_of ?sv st' armed"
    using sy' log' by (auto simp: goal_state_of_def prepareMutation_def goal_cache_of_def goal_sync_def)
  ultimately show ?thesis using com log' dat by (auto simp: sv1)
qed

section \<open>The specification of the operations\<close>

datatype goal_request =
    ReqCreate string "jsnum option" string  \<comment> \<open>objective, maxGoalRounds, uuid\<close>
  | ReqEdit goal_ref "string option" "jsnum option"
  | ReqPause goal_ref
  | ReqResume goal_ref
  | ReqComplete goal_ref
  | ReqBlock goal_ref json
  | ReqClear goal_ref
  | ReqDisarm
  | ReqGet

fun goal_do :: "bool \<Rightarrow> nat \<Rightarrow> goal_service \<Rightarrow> goal_request \<Rightarrow> goal_error + goal_service" where
  "goal_do live now sv (ReqCreate obj m uuid) = goal_create live now uuid sv obj m"
| "goal_do live now sv (ReqEdit r obj m) = goal_edit live now sv r obj m"
| "goal_do live now sv (ReqPause r) = goal_pause live now sv r"
| "goal_do live now sv (ReqResume r) = goal_resume live now sv r"
| "goal_do live now sv (ReqComplete r) = goal_complete live now sv r"
| "goal_do live now sv (ReqBlock r reason) = goal_block live now sv r reason"
| "goal_do live now sv (ReqClear r) = goal_clear live now sv r"
| "goal_do live now sv ReqDisarm = goal_disarm live sv"
| "goal_do live now sv ReqGet = bind_res (goal_get live sv) (\<lambda>(sv', _). Inr sv')"

text \<open>Over the current goal, the rounds admitted, and whether the goal is armed.\<close>

type_synonym goal_abs = "goal_snapshot option \<times> nat \<times> bool"

fun spec_current :: "goal_abs \<Rightarrow> goal_ref \<Rightarrow> goal_error + goal_snapshot" where
  "spec_current (None, _, _) ref = Inl GOAL_NOT_FOUND"
| "spec_current (Some g, _, _) ref = (if ref = snapshot_ref g then Inr g else Inl GOAL_STALE_REVISION)"

fun goal_spec :: "nat \<Rightarrow> goal_abs \<Rightarrow> goal_request \<Rightarrow> goal_error + goal_abs" where
  "goal_spec dflt (g, n, armed) (ReqCreate obj m uuid) =
     bind_res (resolveCreateGoal obj m dflt) (\<lambda>(obj, m).
       case g of
         Some cur \<Rightarrow>
           if gs_phase cur = GComplete
           then Inr (Some \<lparr>gs_id = ''goal-'' @ uuid, gs_revision = 1, gs_objective = obj, gs_phase = GActive,
                           gs_blockedReason = None, gs_maxGoalRounds = m\<rparr>, 0, True)
           else Inl GOAL_ALREADY_EXISTS
       | None \<Rightarrow> Inr (Some \<lparr>gs_id = ''goal-'' @ uuid, gs_revision = 1, gs_objective = obj, gs_phase = GActive,
                          gs_blockedReason = None, gs_maxGoalRounds = m\<rparr>, 0, True))"
| "goal_spec dflt (g, n, armed) (ReqEdit r obj m) =
     bind_res (spec_current (g, n, armed) r) (\<lambda>cur.
       if obj = None \<and> m = None then Inl GOAL_INVALID_EDIT
       else bind_res (case obj of None \<Rightarrow> Inr (gs_objective cur) | Some x \<Rightarrow> resolveObjective x) (\<lambda>obj.
            bind_res (case m of None \<Rightarrow> Inr (gs_maxGoalRounds cur) | Some x \<Rightarrow> resolveMaxGoalRounds x) (\<lambda>m.
              Inr (Some (cur\<lparr>gs_revision := gs_revision cur + 1, gs_objective := obj, gs_maxGoalRounds := m\<rparr>),
                   n, armed))))"
| "goal_spec dflt (g, n, armed) (ReqPause r) =
     bind_res (spec_current (g, n, armed) r) (\<lambda>cur.
       if gs_phase cur = GActive then Inr (Some (withPhase cur GPaused), n, False) else Inl GOAL_INVALID_TRANSITION)"
| "goal_spec dflt (g, n, armed) (ReqResume r) =
     bind_res (spec_current (g, n, armed) r) (\<lambda>cur.
       if gs_phase cur \<noteq> GComplete \<and> \<not> (gs_phase cur = GActive \<and> armed) \<and> n < gs_maxGoalRounds cur
       then Inr (Some (withPhase cur GActive), n, True) else Inl GOAL_INVALID_TRANSITION)"
| "goal_spec dflt (g, n, armed) (ReqComplete r) =
     bind_res (spec_current (g, n, armed) r) (\<lambda>cur.
       if gs_phase cur \<noteq> GComplete then Inr (Some (withPhase cur GComplete), n, False)
       else Inl GOAL_INVALID_TRANSITION)"
| "goal_spec dflt (g, n, armed) (ReqBlock r reason) =
     bind_res (spec_current (g, n, armed) r) (\<lambda>cur.
       if gs_phase cur \<noteq> GActive then Inl GOAL_INVALID_TRANSITION
       else bind_res (resolveBlockReason reason) (\<lambda>why.
         Inr (Some ((withPhase cur GBlocked)\<lparr>gs_blockedReason := Some why\<rparr>), n, False)))"
| "goal_spec dflt (g, n, armed) (ReqClear r) =
     bind_res (spec_current (g, n, armed) r) (\<lambda>cur. Inr (None, 0, False))"
| "goal_spec dflt (g, n, armed) ReqDisarm = Inr (g, n, False)"
| "goal_spec dflt (g, n, armed) ReqGet = Inr (g, n, armed)"

definition goal_abs_of :: "goal_state \<Rightarrow> bool \<Rightarrow> goal_abs" where
  "goal_abs_of st armed = (gf_goal st, gf_roundsStarted st, armed)"

text \<open>
  What the code relies on: the clock and the revision counter are safe integers, and a new random
  identity was not used before.
\<close>

definition request_fits :: "nat \<Rightarrow> goal_state \<Rightarrow> goal_request \<Rightarrow> bool" where
  "request_fits now st req \<longleftrightarrow>
     safe_nat now \<and> (\<forall>g. gf_goal st = Some g \<longrightarrow> safe_nat (gs_revision g + 1))
     \<and> (case req of ReqCreate _ _ uuid \<Rightarrow> ''goal-'' @ uuid \<notin> gf_seenGoalIds st | _ \<Rightarrow> True)"

text \<open>The result of an operation against the specification's.\<close>

definition goal_agrees :: "goal_service \<Rightarrow> goal_error + goal_service \<Rightarrow> goal_error + goal_abs \<Rightarrow> bool" where
  "goal_agrees sv r spec \<longleftrightarrow>
     (case r of
        Inl e \<Rightarrow> spec = Inl e
      | Inr sv' \<Rightarrow> \<exists>st' armed'. goal_state_of sv' st' armed' \<and> service_ok sv'
          \<and> spec = Inr (goal_abs_of st' armed')
          \<and> gv_default sv' = gv_default sv
          \<and> (\<exists>evs. s_log (gv_session sv') = s_log (gv_session sv) @ evs \<and> length evs \<le> 1))"

lemma resolveObjective_wf: "resolveObjective s = Inr x \<Longrightarrow> normalized x"
  by (auto simp: resolveObjective_def normalized_def js_trim_idem split: if_splits)

lemma resolveMax_wf: "resolveMaxGoalRounds m = Inr n \<Longrightarrow> 1 \<le> n \<and> safe_nat n"
  by (auto simp: resolveMaxGoalRounds_def safe_nat_def split: jsnum.splits if_splits)

lemma resolveCreate_wf:
  "resolveCreateGoal s m d = Inr (x, n) \<Longrightarrow> normalized x \<and> 1 \<le> n \<and> safe_nat n"
  by (auto simp: resolveCreateGoal_def bind_res_Inr_iff dest: resolveObjective_wf resolveMax_wf)

lemma resolveBlockReason_wf: "resolveBlockReason r = Inr b \<Longrightarrow> is_kebab (br_code b) \<and> normalized (br_message b)"
  by (auto simp: resolveBlockReason_def Let_def normalized_def js_trim_idem split: option.splits if_splits)

section \<open>The operations implement the specification\<close>

lemma goal_state_ofD:
  assumes "goal_state_of sv st armed"
  obtains c where "prepareMutation True sv = Inr (sv\<lparr>gv_cache := Some c\<rparr>, c)" "gc_state c = st" "gc_armed c = armed"
    "gc_pendingActivation c = None" "gc_observedSeq c = length (s_log (gv_session sv))" "goal_inv st"
  using assms glog.synced_inv unfolding goal_state_of_def by blast

lemma expect_spec: "gc_state c = st \<Longrightarrow> expectCurrent c r = spec_current (gf_goal st, n, a) r"
  by (cases "gf_goal st") (auto simp: expectCurrent_def snapshot_ref_def intro!: goal_ref.equality)

lemma spec_current_Inr: "spec_current (g, n, a) r = Inr cur \<Longrightarrow> g = Some cur"
  by (cases g) (auto split: if_splits)

lemma commit_agrees:
  assumes s: "goal_state_of sv st armed0" and ok: "service_ok sv"
    and c: "prepareMutation True sv = Inr (sv1, c)" and wf: "change_wf change"
    and ap: "applyGoalChange st change = Inr st'"
  shows "goal_agrees sv (goal_commit now sv1 c change armed) (Inr (goal_abs_of st' armed))"
proof -
  from ok have d: "1 \<le> gv_default sv" "safe_nat (gv_default sv)" by (simp_all add: service_ok_def)
  from commit_ok [OF s wf ap c d] obtain sv' ev where "goal_commit now sv1 c change armed = Inr sv'"
    "goal_state_of sv' st' armed" "service_ok sv'" "gv_default sv' = gv_default sv"
    "s_log (gv_session sv') = s_log (gv_session sv) @ [ev]" by blast
  then show ?thesis unfolding goal_agrees_def by auto
qed

lemma commitCurrent_agrees:
  assumes s: "goal_state_of sv st armed0" and ok: "service_ok sv" and inv: "goal_inv st"
    and c: "prepareMutation True sv = Inr (sv1, c)" "gc_state c = st"
    and cur: "gf_goal st = Some cur" and now: "safe_nat now"
    and nxt: "snapshot_wf nxt" "op \<noteq> OpCreate"
    and trans: "\<And>ca u. gf_createdAt st = Some ca \<Longrightarrow> gf_updatedAt st = Some u \<Longrightarrow>
        validateSnapshotTransition st op nxt (gf_roundsStarted st) ca (max now u) cur = Inr ()"
  shows "goal_agrees sv (commitCurrent now sv1 c op nxt armed) (Inr (Some nxt, gf_roundsStarted st, armed))"
proof -
  from goal_inv_Some [OF inv cur] obtain ca u where t: "gf_createdAt st = Some ca" "gf_updatedAt st = Some u"
    "ca \<le> u" "safe_nat u" and r: "safe_nat (gf_roundsStarted st)" by blast
  let ?ch = "SnapshotChange op nxt (gf_roundsStarted st) ca (max now u)"
  have wf: "change_wf ?ch" using nxt(1) r t now by (simp add: safe_nat_def max_def)
  obtain st' where ap: "applyGoalChange st ?ch = Inr st'"
    and st': "gf_goal st' = Some nxt" "gf_roundsStarted st' = gf_roundsStarted st"
    using trans [OF t(1, 2)] cur nxt(2) by (simp add: Let_def)
  have "commitCurrent now sv1 c op nxt armed = goal_commit now sv1 c ?ch armed"
    using c(2) t by (simp add: commitCurrent_def nextMutationTime_def)
  with commit_agrees [OF s ok c(1) wf ap] show ?thesis by (simp add: goal_abs_of_def st')
qed

lemma agrees_Inl [simp]: "goal_agrees sv (Inl e) (Inl e)"
  by (simp add: goal_agrees_def)

text \<open>The shape of the operations on a current goal.\<close>

lemma with_current_agrees:
  assumes s: "goal_state_of sv st armed"
    and k: "\<And>c cur. prepareMutation True sv = Inr (sv\<lparr>gv_cache := Some c\<rparr>, c) \<Longrightarrow> gc_state c = st \<Longrightarrow> gc_armed c = armed
        \<Longrightarrow> goal_inv st \<Longrightarrow> gf_goal st = Some cur \<Longrightarrow> goal_agrees sv (k1 (sv\<lparr>gv_cache := Some c\<rparr>) c cur) (k2 cur)"
  shows "goal_agrees sv
      (bind_res (prepareMutation True sv) (\<lambda>(sv1, c). bind_res (expectCurrent c r) (\<lambda>cur. k1 sv1 c cur)))
      (bind_res (spec_current (goal_abs_of st armed) r) k2)"
proof -
  from s obtain c where c: "prepareMutation True sv = Inr (sv\<lparr>gv_cache := Some c\<rparr>, c)" "gc_state c = st"
    "gc_armed c = armed" "goal_inv st" by (rule goal_state_ofD)
  show ?thesis
  proof (cases "spec_current (goal_abs_of st armed) r")
    case (Inl e)
    then show ?thesis using c(1) expect_spec [OF c(2)] by (simp add: goal_abs_of_def)
  next
    case (Inr cur)
    then have "gf_goal st = Some cur" using spec_current_Inr by (simp add: goal_abs_of_def)
    with k [OF c this] Inr show ?thesis using c(1) expect_spec [OF c(2)] by (simp add: goal_abs_of_def)
  qed
qed

lemma phase_wf:
  "snapshot_wf cur \<Longrightarrow> safe_nat (gs_revision cur + 1) \<Longrightarrow> p \<noteq> GBlocked \<Longrightarrow> snapshot_wf (withPhase cur p)"
  "snapshot_wf cur \<Longrightarrow> safe_nat (gs_revision cur + 1) \<Longrightarrow> is_kebab (br_code b) \<Longrightarrow> normalized (br_message b)
   \<Longrightarrow> snapshot_wf ((withPhase cur GBlocked)\<lparr>gs_blockedReason := Some b\<rparr>)"
  by (simp_all add: snapshot_wf_def withPhase_def)

lemmas transition_defs =
  validateSnapshotTransition_def withPhase_def snapshot_ref_def requireNextRevision_def requireSameDefinition_def

lemma transition_agrees:
  assumes s: "goal_state_of sv st armed" and ok: "service_ok sv" and fit: "request_fits now st req"
    and op: "(op, allowed, phase) = (OpPause, [GActive], GPaused)
        \<or> (op, allowed, phase) = (OpComplete, [GActive, GPaused, GBlocked], GComplete)"
  shows "goal_agrees sv (goal_transition True now sv r op allowed phase a)
     (bind_res (spec_current (goal_abs_of st armed) r) (\<lambda>cur.
        if gs_phase cur \<in> set allowed then Inr (Some (withPhase cur phase), gf_roundsStarted st, a)
        else Inl GOAL_INVALID_TRANSITION))"
  unfolding goal_transition_def
proof (rule with_current_agrees [OF s])
  fix c cur
  assume c: "prepareMutation True sv = Inr (sv\<lparr>gv_cache := Some c\<rparr>, c)" "gc_state c = st"
    and inv: "goal_inv st" and cur: "gf_goal st = Some cur"
  have now: "safe_nat now" and rev: "safe_nat (gs_revision cur + 1)" using fit cur by (simp_all add: request_fits_def)
  show "goal_agrees sv
      (if gs_phase cur \<notin> set allowed then Inl GOAL_INVALID_TRANSITION
       else commitCurrent now (sv\<lparr>gv_cache := Some c\<rparr>) c op (withPhase cur phase) a)
      (if gs_phase cur \<in> set allowed then Inr (Some (withPhase cur phase), gf_roundsStarted st, a)
       else Inl GOAL_INVALID_TRANSITION)"
  proof (cases "gs_phase cur \<in> set allowed")
    case True
    have "goal_agrees sv (commitCurrent now (sv\<lparr>gv_cache := Some c\<rparr>) c op (withPhase cur phase) a)
        (Inr (Some (withPhase cur phase), gf_roundsStarted st, a))"
    proof (rule commitCurrent_agrees [OF s ok inv c cur now])
      show "snapshot_wf (withPhase cur phase)" using op phase_wf(1) goal_inv_Some [OF inv cur] rev by auto
    qed (use op True in \<open>auto simp: transition_defs\<close>)
    with True show ?thesis by simp
  qed simp
qed

lemma resume_agrees:
  assumes s: "goal_state_of sv st armed" and ok: "service_ok sv" and fit: "request_fits now st req"
  shows "goal_agrees sv (goal_resume True now sv r) (goal_spec (gv_default sv) (goal_abs_of st armed) (ReqResume r))"
  unfolding goal_resume_def goal_abs_of_def goal_spec.simps
proof (rule with_current_agrees [OF s, unfolded goal_abs_of_def])
  fix c cur
  assume c: "prepareMutation True sv = Inr (sv\<lparr>gv_cache := Some c\<rparr>, c)" "gc_state c = st" and a: "gc_armed c = armed"
    and inv: "goal_inv st" and cur: "gf_goal st = Some cur"
  have now: "safe_nat now" and rev: "safe_nat (gs_revision cur + 1)" using fit cur by (simp_all add: request_fits_def)
  let ?go = "gs_phase cur \<noteq> GComplete \<and> \<not> (gs_phase cur = GActive \<and> armed) \<and> gf_roundsStarted st < gs_maxGoalRounds cur"
  have phases: "gs_phase cur \<notin> {GActive, GPaused, GBlocked} \<longleftrightarrow> gs_phase cur = GComplete"
    by (cases "gs_phase cur") simp_all
  show "goal_agrees sv
      (if gs_phase cur \<notin> {GActive, GPaused, GBlocked} then Inl GOAL_INVALID_TRANSITION
       else if gs_phase cur = GActive \<and> gc_armed c then Inl GOAL_INVALID_TRANSITION
       else if gs_maxGoalRounds cur \<le> gf_roundsStarted (gc_state c) then Inl GOAL_INVALID_TRANSITION
       else commitCurrent now (sv\<lparr>gv_cache := Some c\<rparr>) c OpResume (withPhase cur GActive) True)
      (if ?go then Inr (Some (withPhase cur GActive), gf_roundsStarted st, True) else Inl GOAL_INVALID_TRANSITION)"
  proof (cases ?go)
    case True
    have "goal_agrees sv (commitCurrent now (sv\<lparr>gv_cache := Some c\<rparr>) c OpResume (withPhase cur GActive) True)
        (Inr (Some (withPhase cur GActive), gf_roundsStarted st, True))"
    proof (rule commitCurrent_agrees [OF s ok inv c cur now])
      show "snapshot_wf (withPhase cur GActive)" using phase_wf(1) goal_inv_Some [OF inv cur] rev by auto
    qed (use True phases in \<open>auto simp: transition_defs\<close>)
    with True c(2) a phases show ?thesis by auto
  next
    case False
    with c(2) a phases show ?thesis by auto
  qed
qed

lemma block_agrees:
  assumes s: "goal_state_of sv st armed" and ok: "service_ok sv" and fit: "request_fits now st req"
  shows "goal_agrees sv (goal_block True now sv r reason)
     (goal_spec (gv_default sv) (goal_abs_of st armed) (ReqBlock r reason))"
  unfolding goal_block_def goal_abs_of_def goal_spec.simps
proof (rule with_current_agrees [OF s, unfolded goal_abs_of_def])
  fix c cur
  assume c: "prepareMutation True sv = Inr (sv\<lparr>gv_cache := Some c\<rparr>, c)" "gc_state c = st"
    and inv: "goal_inv st" and cur: "gf_goal st = Some cur"
  have now: "safe_nat now" and rev: "safe_nat (gs_revision cur + 1)" using fit cur by (simp_all add: request_fits_def)
  show "goal_agrees sv
      (if gs_phase cur \<noteq> GActive then Inl GOAL_INVALID_TRANSITION
       else bind_res (resolveBlockReason reason) (\<lambda>r.
         commitCurrent now (sv\<lparr>gv_cache := Some c\<rparr>) c OpBlock ((withPhase cur GBlocked)\<lparr>gs_blockedReason := Some r\<rparr>) False))
      (if gs_phase cur \<noteq> GActive then Inl GOAL_INVALID_TRANSITION
       else bind_res (resolveBlockReason reason) (\<lambda>why.
         Inr (Some ((withPhase cur GBlocked)\<lparr>gs_blockedReason := Some why\<rparr>), gf_roundsStarted st, False)))"
  proof (cases "gs_phase cur = GActive")
    case True
    show ?thesis
    proof (cases "resolveBlockReason reason")
      case (Inr b)
      have "goal_agrees sv
          (commitCurrent now (sv\<lparr>gv_cache := Some c\<rparr>) c OpBlock ((withPhase cur GBlocked)\<lparr>gs_blockedReason := Some b\<rparr>) False)
          (Inr (Some ((withPhase cur GBlocked)\<lparr>gs_blockedReason := Some b\<rparr>), gf_roundsStarted st, False))"
      proof (rule commitCurrent_agrees [OF s ok inv c cur now])
        show "snapshot_wf ((withPhase cur GBlocked)\<lparr>gs_blockedReason := Some b\<rparr>)"
          using phase_wf(2) goal_inv_Some [OF inv cur] rev resolveBlockReason_wf [OF Inr] by blast
      qed (use True in \<open>auto simp: transition_defs\<close>)
      with True Inr show ?thesis by simp
    qed (use True in simp)
  qed simp
qed

lemma edit_agrees:
  assumes s: "goal_state_of sv st armed" and ok: "service_ok sv" and fit: "request_fits now st req"
  shows "goal_agrees sv (goal_edit True now sv r obj mx)
     (goal_spec (gv_default sv) (goal_abs_of st armed) (ReqEdit r obj mx))"
  unfolding goal_edit_def goal_abs_of_def goal_spec.simps
proof (rule with_current_agrees [OF s, unfolded goal_abs_of_def])
  fix c cur
  assume c: "prepareMutation True sv = Inr (sv\<lparr>gv_cache := Some c\<rparr>, c)" "gc_state c = st" and a: "gc_armed c = armed"
    and inv: "goal_inv st" and cur: "gf_goal st = Some cur"
  have now: "safe_nat now" and rev: "safe_nat (gs_revision cur + 1)" using fit cur by (simp_all add: request_fits_def)
  have wf: "snapshot_wf cur" using goal_inv_Some [OF inv cur] by simp
  let ?o = "case obj of None \<Rightarrow> Inr (gs_objective cur) | Some x \<Rightarrow> resolveObjective x"
  let ?m = "case mx of None \<Rightarrow> Inr (gs_maxGoalRounds cur) | Some x \<Rightarrow> resolveMaxGoalRounds x"
  let ?g = "\<lambda>o' m'. cur\<lparr>gs_revision := gs_revision cur + 1, gs_objective := o', gs_maxGoalRounds := m'\<rparr>"
  have go: "goal_agrees sv (commitCurrent now (sv\<lparr>gv_cache := Some c\<rparr>) c OpEdit (?g o' m') (gc_armed c))
      (Inr (Some (?g o' m'), gf_roundsStarted st, armed))" if "?o = Inr o'" "?m = Inr m'" for o' m'
    unfolding a
  proof (rule commitCurrent_agrees [OF s ok inv c cur now])
    have "normalized o'" using that(1) wf resolveObjective_wf by (auto simp: snapshot_wf_def split: option.splits)
    moreover have "1 \<le> m' \<and> safe_nat m'"
      using that(2) wf resolveMax_wf by (auto simp: snapshot_wf_def split: option.splits)
    ultimately show "snapshot_wf (?g o' m')"
      using wf rev by (cases "gs_blockedReason cur") (simp_all add: snapshot_wf_def)
  qed (auto simp: transition_defs)
  show "goal_agrees sv
      (if obj = None \<and> mx = None then Inl GOAL_INVALID_EDIT
       else bind_res ?o (\<lambda>o'. bind_res ?m (\<lambda>m'.
              commitCurrent now (sv\<lparr>gv_cache := Some c\<rparr>) c OpEdit (?g o' m') (gc_armed c))))
      (if obj = None \<and> mx = None then Inl GOAL_INVALID_EDIT
       else bind_res ?o (\<lambda>o'. bind_res ?m (\<lambda>m'. Inr (Some (?g o' m'), gf_roundsStarted st, armed))))"
    using go by (cases ?o; cases ?m) auto
qed

lemma clear_agrees:
  assumes s: "goal_state_of sv st armed" and ok: "service_ok sv" and fit: "request_fits now st req"
  shows "goal_agrees sv (goal_clear True now sv r) (goal_spec (gv_default sv) (goal_abs_of st armed) (ReqClear r))"
  unfolding goal_clear_def goal_abs_of_def goal_spec.simps
proof (rule with_current_agrees [OF s, unfolded goal_abs_of_def])
  fix c cur
  assume c: "prepareMutation True sv = Inr (sv\<lparr>gv_cache := Some c\<rparr>, c)" "gc_state c = st"
    and inv: "goal_inv st" and cur: "gf_goal st = Some cur"
  have now: "safe_nat now" and rev: "safe_nat (gs_revision cur + 1)" using fit cur by (simp_all add: request_fits_def)
  from goal_inv_Some [OF inv cur] obtain u where u: "gf_updatedAt st = Some u" "safe_nat u" and wf: "snapshot_wf cur" by blast
  let ?ch = "ClearChange \<lparr>gr_id = gs_id cur, gr_revision = gs_revision cur + 1\<rparr> (max now u)"
  have "change_wf ?ch" using wf rev now u by (simp add: snapshot_wf_def safe_nat_def max_def)
  moreover obtain st' where "applyGoalChange st ?ch = Inr st'" "gf_goal st' = None" "gf_roundsStarted st' = 0"
    using cur u by (simp add: requireNextRevision_def)
  ultimately show "goal_agrees sv
      (bind_res (nextMutationTime now c) (\<lambda>t. goal_commit now (sv\<lparr>gv_cache := Some c\<rparr>) c
         (ClearChange \<lparr>gr_id = gs_id cur, gr_revision = gs_revision cur + 1\<rparr> t) False))
      (Inr (None, 0, False))"
    using commit_agrees [OF s ok c(1), of ?ch st'] c(2) u by (simp add: nextMutationTime_def goal_abs_of_def)
qed

lemma create_agrees:
  assumes s: "goal_state_of sv st armed" and ok: "service_ok sv" and fit: "request_fits now st (ReqCreate obj mx uuid)"
  shows "goal_agrees sv (goal_create True now uuid sv obj mx)
     (goal_spec (gv_default sv) (goal_abs_of st armed) (ReqCreate obj mx uuid))"
proof (cases "resolveCreateGoal obj mx (gv_default sv)")
  case (Inl e)
  then show ?thesis by (simp add: goal_create_def goal_abs_of_def)
next
  case (Inr om)
  obtain o' m' where om: "om = (o', m')" by (cases om)
  from s obtain c where c: "prepareMutation True sv = Inr (sv\<lparr>gv_cache := Some c\<rparr>, c)" "gc_state c = st"
    by (rule goal_state_ofD)
  let ?g = "\<lparr>gs_id = ''goal-'' @ uuid, gs_revision = 1, gs_objective = o', gs_phase = GActive,
     gs_blockedReason = None, gs_maxGoalRounds = m'\<rparr>"
  let ?ch = "SnapshotChange OpCreate ?g 0 now now"
  have now: "safe_nat now" and fresh: "''goal-'' @ uuid \<notin> gf_seenGoalIds st"
    using fit by (simp_all add: request_fits_def)
  have wf: "change_wf ?ch"
    using resolveCreate_wf [OF Inr [unfolded om]] now by (simp add: snapshot_wf_def safe_nat_def max_safe_integer_def)
  let ?busy = "case gf_goal st of None \<Rightarrow> False | Some g \<Rightarrow> gs_phase g \<noteq> GComplete"
  show ?thesis
  proof (cases ?busy)
    case True
    then show ?thesis using Inr om c by (auto simp: goal_create_def goal_abs_of_def split: option.splits)
  next
    case False
    with fresh obtain st' where ap: "applyGoalChange st ?ch = Inr st'"
      and st': "gf_goal st' = Some ?g" "gf_roundsStarted st' = 0" by (simp add: Let_def)
    from commit_agrees [OF s ok c(1) wf ap] have
      "goal_agrees sv (goal_commit now (sv\<lparr>gv_cache := Some c\<rparr>) c ?ch True) (Inr (Some ?g, 0, True))"
      by (simp add: goal_abs_of_def st')
    then show ?thesis using False Inr om c by (auto simp: goal_create_def goal_abs_of_def split: option.splits)
  qed
qed

lemma read_agrees:
  assumes s: "goal_state_of sv st armed" and ok: "service_ok sv"
  shows "goal_agrees sv (goal_disarm True sv) (Inr (gf_goal st, gf_roundsStarted st, False))"
    and "goal_agrees sv (goal_do True now sv ReqGet) (Inr (goal_abs_of st armed))"
proof -
  from s obtain c where c: "prepareMutation True sv = Inr (sv\<lparr>gv_cache := Some c\<rparr>, c)" "gc_state c = st"
    "gc_armed c = armed" "gc_pendingActivation c = None" "gc_observedSeq c = length (s_log (gv_session sv))"
    and inv: "goal_inv st" by (rule goal_state_ofD)
  have sy: "glog.synced (gv_session sv) st" using s by (simp add: goal_state_of_def)
  have at: "cache_at (gv_session sv) (c\<lparr>gc_armed := a\<rparr>)
      \<and> goal_state_of (sv\<lparr>gv_cache := Some (c\<lparr>gc_armed := a\<rparr>)\<rparr>) st a" for a
    using c sy by (auto simp: cache_at_def goal_state_of_def prepareMutation_def goal_cache_of_def goal_sync_def
        goal_synced_iff)
  have same: "c\<lparr>gc_armed := armed\<rparr> = c" using c(3) by simp
  have keep: "service_ok (sv\<lparr>gv_cache := Some (c\<lparr>gc_armed := a\<rparr>)\<rparr>)" for a
    using ok at by (auto simp: service_ok_def)
  obtain v v' where "goal_view_of (c\<lparr>gc_armed := False\<rparr>) = Inr v" "goal_view_of c = Inr v'"
    using goal_view_total [of c] goal_view_total [of "c\<lparr>gc_armed := False\<rparr>"] c(2) inv by auto
  then show "goal_agrees sv (goal_disarm True sv) (Inr (gf_goal st, gf_roundsStarted st, False))"
    and "goal_agrees sv (goal_do True now sv ReqGet) (Inr (goal_abs_of st armed))"
    using c(1) at [of False] keep [of False] at [of armed, unfolded same] keep [of armed, unfolded same]
    by (auto simp: goal_agrees_def goal_disarm_def goal_get_def Let_def goal_abs_of_def)
qed

lemma goal_do_agrees:
  assumes s: "goal_state_of sv st armed" and ok: "service_ok sv" and fit: "request_fits now st req"
  shows "goal_agrees sv (goal_do True now sv req) (goal_spec (gv_default sv) (goal_abs_of st armed) req)"
proof (cases req)
  case (ReqCreate obj m uuid)
  then show ?thesis using create_agrees [OF s ok] fit by simp
next
  case (ReqEdit r obj m)
  then show ?thesis using edit_agrees [OF s ok fit] by simp
next
  case (ReqPause r)
  then show ?thesis
    using transition_agrees [OF s ok fit, of OpPause "[GActive]" GPaused r False]
    by (simp add: goal_pause_def goal_abs_of_def)
next
  case (ReqResume r)
  then show ?thesis using resume_agrees [OF s ok fit] by simp
next
  case (ReqComplete r)
  have "p \<in> set [GActive, GPaused, GBlocked] \<longleftrightarrow> p \<noteq> GComplete" for p by (cases p) simp_all
  then show ?thesis
    using ReqComplete transition_agrees [OF s ok fit, of OpComplete "[GActive, GPaused, GBlocked]" GComplete r False]
    by (simp add: goal_complete_def goal_abs_of_def)
next
  case (ReqBlock r reason)
  then show ?thesis using block_agrees [OF s ok fit] by simp
next
  case (ReqClear r)
  then show ?thesis using clear_agrees [OF s ok fit] by simp
next
  case ReqDisarm
  then show ?thesis using read_agrees(1) [OF s ok] by (simp add: goal_abs_of_def)
next
  case ReqGet
  then show ?thesis using read_agrees(2) [OF s ok] by (simp add: goal_abs_of_def)
qed

section \<open>Runs with other writers\<close>

text \<open>
  The service shares its log: other packages append their own events between its operations, among
  them the admitted round messages. An external event is allowed when the fold accepts it.
\<close>

inductive goal_step :: "goal_service \<Rightarrow> goal_service \<Rightarrow> bool" where
  request: "goal_state_of sv st armed \<Longrightarrow> request_fits now st req \<Longrightarrow> goal_do True now sv req = Inr sv'
     \<Longrightarrow> goal_step sv sv'"
| external: "session_append (gv_session sv) now d opts = Inr (s', ev) \<Longrightarrow> gol.replay (s_log s') = Inr st'
     \<Longrightarrow> goal_step sv (sv\<lparr>gv_session := s'\<rparr>)"

inductive goal_reachable :: "goal_service \<Rightarrow> goal_service \<Rightarrow> bool" for sv0 where
  initial: "goal_reachable sv0 sv0"
| step: "goal_reachable sv0 sv \<Longrightarrow> goal_step sv sv' \<Longrightarrow> goal_reachable sv0 sv'"

lemma goal_step_ok:
  assumes "goal_step sv sv'" and ok: "service_ok sv"
  shows "service_ok sv'"
  using assms(1)
proof cases
  case (request st armed now req)
  from goal_do_agrees [OF request(1) ok request(2)] request(3) show ?thesis by (auto simp: goal_agrees_def)
next
  case (external now d opts s' ev st')
  have "session_ok (gv_session sv)" using ok by (auto simp: service_ok_def goal_synced_iff)
  from session_append_ok [OF this external(2)]
  have s': "session_ok s'" "s_log s' = s_log (gv_session sv) @ [ev]" by simp_all
  have "cache_at s' c" if "cache_at (gv_session sv) c" for c
    using that s'(2) by (simp add: cache_at_def)
  with ok external(1, 3) s' show ?thesis by (auto simp: service_ok_def goal_synced_iff)
qed

lemma goal_reachable_ok: "goal_reachable sv0 sv \<Longrightarrow> service_ok sv0 \<Longrightarrow> service_ok sv"
  by (induction rule: goal_reachable.induct) (auto intro: goal_step_ok)

end
