(* ===== verification/Sample_Log.thy ===== *)
theory Sample_Log
  imports Repair Inbox Goal_Service
begin

text \<open>
  A small interrupted log, a session holding it and requests on a goal, evaluated by the kernel:
  the concrete inputs at which the properties are applied.
\<close>

definition append_op :: json where
  "append_op = JStr ''append''"

definition sample_event :: "nat \<Rightarrow> event_data \<Rightarrow> json option \<Rightarrow> session_event" where
  "sample_event n d op =
     \<lparr>ev_seq = n, ev_time = 10 + n, ev_data = d, ev_surfaceOp = op, ev_sourceEventSeqs = None, ev_ignorable = False\<rparr>"

definition user_text :: "string \<Rightarrow> message" where
  "user_text i = \<lparr>m_id = i, m_role = UserRole, m_content = [TextBlock ''hello''], m_source = UserSource\<rparr>"

definition assistant_calls :: message where
  "assistant_calls =
     \<lparr>m_id = ''a1'', m_role = AssistantRole,
      m_content = [ToolCallBlock ''c1'' ''read'' ''{}'', ToolCallBlock ''c2'' ''write'' ''{}''],
      m_source = ModelSource ''deepseek'' ''chat'' None\<rparr>"

definition interrupted_log :: "session_event list" where
  "interrupted_log =
     [sample_event 0 (TurnStart 1) None,
      sample_event 1 (UserMessage (user_text ''u1'')) (Some append_op),
      sample_event 2 (StepStart 1 1) None,
      sample_event 3 (AssistantMessage 1 1 assistant_calls None False) (Some append_op),
      sample_event 4 (ToolCall 1 1 ''c1'' ''read'' ''{}'') None]"

definition sample_header :: session_header where
  "sample_header =
     \<lparr>sh_version = 0, sh_id = ''s1'', sh_createdAt = 1, sh_cwd = None, sh_parentSession = None,
      sh_seedLength = None, sh_origin = False, sh_delegationDepth = None, sh_agentPreset = None\<rparr>"

definition sample_session :: session where
  "sample_session = emptySession sample_header"

lemma sample_trace: "\<exists>t. seedTrace interrupted_log = Inr t"
proof -
  have "is_ok (seedTrace interrupted_log)" by code_simp
  then show ?thesis by (simp add: is_ok_iff)
qed

lemma sample_surface:
  "foldSurface interrupted_log = Inr (\<lparr>sf_nodes = [1, 3], sf_replaceGeneration = 0\<rparr>, [])"
  by code_simp

lemma sample_session_ok: "session_ok sample_session"
  by (simp add: sample_session_def session_ok_empty)

end
