(* ===== verification/Sample_Compaction.thy ===== *)
theory Sample_Compaction
  imports Engine_Laws Sample_Log
begin

text \<open>
  A session with a long history and an open turn, an engine over a stub world, and the runs the
  compaction properties are applied to, evaluated by the kernel.
\<close>

definition decimal0 :: "jsnum \<Rightarrow> string" where
  "decimal0 n = ''0.5''"

definition sample_config :: call_config where
  "sample_config =
     \<lparr>cc_provider = ''p'', cc_model = ''m'', cc_reasoningEffort = None, cc_temperature = None,
      cc_maxTokens = None, cc_stop = None\<rparr>"

definition long_message :: message where
  "long_message = \<lparr>m_id = ''u1'', m_role = UserRole, m_content = replicate 60 (TextBlock []), m_source = UserSource\<rparr>"

definition long_reply :: message where
  "long_reply =
     \<lparr>m_id = ''a1'', m_role = AssistantRole, m_content = [TextBlock ''ok''], m_source = ModelSource ''p'' ''m'' None\<rparr>"

definition on_surface :: surface_intent where
  "on_surface = \<lparr>si_surfaceOp = Some append_op, si_sourceEventSeqs = None\<rparr>"

definition long_ops :: "session_op list" where
  "long_ops =
     [SessionAppend 1 (TurnStart 1) no_intent,
      SessionAppend 2 (RequestHeader \<lparr>eh_config = sample_config, eh_adapterDefaults = None, eh_system = None, eh_tools = None\<rparr> InitialHeader) no_intent,
      SessionAppend 3 (UserMessage long_message) on_surface,
      SessionAppend 4 (StepStart 1 1) no_intent,
      SessionAppend 5 (AssistantMessage 1 1 long_reply None False) on_surface,
      SessionAppend 6 (StepEnd 1 1) no_intent,
      SessionAppend 7 (UserMessage (user_text ''u2'')) on_surface]"

definition long_session :: session where
  "long_session = session_run sample_session long_ops"

definition long_host :: compaction_host where
  "long_host = \<lparr>ch_session = long_session, ch_pairing = None, ch_meter = None\<rparr>"

definition stub_engine :: "nat \<Rightarrow> engine" where
  "stub_engine window =
     \<lparr>en_config = \<lparr>po_thresholdRatio = JInt 1, po_retention = RetainTokens 1,
        po_summarizationProvider = [], po_summarizationModel = [], po_maxTokens = 50,
        po_compactionRetries = 1, po_maxOverflowRetries = 1, cf_modelPolicies = [], cf_auto = True\<rparr>,
      en_agent = \<lparr>ao_provider = None, ao_model = None\<rparr>, en_pruner = None,
      en_decimal = decimal0, en_clock = (\<lambda>n. 100 + n), en_render = (\<lambda>_. ''failed''),
      en_instruction = user_text ''i1'',
      en_stream = (\<lambda>_. ret_act [TextDelta 0 ''brief'', FinishChunk FinishStop None]),
      en_modelContext = (\<lambda>_ _. ret_act (Some (JInt (int window)))),
      en_ids = (\<lambda>n. (''k'' @ nat_string n, ''x'' @ nat_string n))\<rparr>"

lemma long_session_ok: "session_ok long_session"
  by (simp add: long_session_def session_run_ok sample_session_ok)

lemma long_host_ok: "host_ok decimal long_host"
  by (simp add: host_ok_def long_host_def long_session_ok hlog_def pairing_cache_ok_def meter_state_ok_def)

lemma stub_world: "engine_env_ok (stub_engine w)"
  by (auto simp: engine_env_ok_def stub_engine_def await_ok_def calm_def)

text \<open>The log of \<open>long_session\<close>, its automatic compaction, and a manual one that gets no summary.\<close>

definition lr_session :: session where
  "lr_session = session_run sample_session
     [SessionAppend 1 (TurnStart 1) no_intent, SessionAppend 2 (StepStart 1 1) no_intent,
      SessionAppend 3 (AssistantChunk 1 1 (UsageChunk \<lparr>tu_inputTokens = 3, tu_outputTokens = 1, tu_cacheReadTokens = None,
        tu_cacheWriteTokens = None, tu_reasoningTokens = None\<rparr>)) no_intent,
      SessionAppend 4 (AssistantChunk 1 1 (UsageChunk \<lparr>tu_inputTokens = 3, tu_outputTokens = 7, tu_cacheReadTokens = None,
        tu_cacheWriteTokens = None, tu_reasoningTokens = None\<rparr>)) no_intent,
      SessionAppend 5 (AssistantMessage 1 1 assistant_calls None False) on_surface,
      SessionAppend 6 (ToolCall 1 1 ''c1'' ''read'' ''{}'') no_intent,
      SessionAppend 7 (ToolResult \<lparr>tr_turn = 1, tr_step = 1, tr_message =
        \<lparr>m_id = ''r1'', m_role = UserRole, m_content = [ToolResultBlock ''c1'' [TextBlock (replicate 80 (CHR ''z''))] None],
         m_source = ToolSource ''c1''\<rparr>, tr_error = None, tr_meta = None\<rparr>) on_surface]"

definition idle_host :: compaction_host where
  "idle_host = long_host\<lparr>ch_session := session_run long_session [SessionAppend 8 (TurnEnd 1 Completed) no_intent]\<rparr>"

definition silent_engine :: engine where
  "silent_engine = (stub_engine 200)\<lparr>en_stream := \<lambda>_. ret_act [FinishChunk FinishMaxTokens None]\<rparr>"

definition sample_request :: manual_request where
  "sample_request =
     \<lparr>mr_idle = True, mr_abortedAtCall = False, mr_abortedInTask = False, mr_abortedAtEntry = False,
      mr_abortedAfterSummary = False, mr_abortedAtEnd = False, mr_agentCancelled = False, mr_abortedAtCatch = False,
      mr_sourceCommandId = Some ''cmd'', mr_compactionId = ''k'', mr_messageId = ''x'', mr_flush = ret_act ()\<rparr>"

lemma long_surface:
  "foldSurface (s_log long_session) = Inr (\<lparr>sf_nodes = [2, 4, 6], sf_replaceGeneration = 0\<rparr>, [])"
  by code_simp

lemma calls_precede_code:
  "list_all (\<lambda>i. 0 \<le> open_calls evs (take i ns)) [0..<Suc (length ns)] \<Longrightarrow> calls_precede evs ns"
  by (auto simp: calls_precede_def list_all_iff le_less)

lemma long_calls: "calls_precede (s_log long_session) [2, 4, 6]"
  by (rule calls_precede_code) code_simp

lemma lr_calls: "calls_precede (s_log lr_session) [4, 6]"
  by (rule calls_precede_code) code_simp

lemma lr_session_ok: "session_ok lr_session"
  by (simp add: lr_session_def session_run_ok sample_session_ok)

lemma lr_surface:
  "foldSurface (s_log lr_session) = Inr (\<lparr>sf_nodes = [4, 6], sf_replaceGeneration = 0\<rparr>, [])"
  by code_simp

lemma lr_trace: "is_ok (seedTrace (s_log lr_session))"
  by code_simp

lemma idle_host_ok: "host_ok decimal idle_host"
  using session_run_ok [OF long_session_ok]
  by (simp add: idle_host_def host_ok_def long_host_def hlog_def pairing_cache_ok_def meter_state_ok_def)

lemma silent_world: "engine_env_ok silent_engine"
  by (auto simp: engine_env_ok_def silent_engine_def stub_engine_def await_ok_def calm_def)

lemma automatic_run:
  "case compactRegion (stub_engine 100) 0 2 4 long_host of
     (h', Inr r) \<Rightarrow> cr_shadowedSeqs r = [2, 4] \<and> length (hlog h') = 11 | _ \<Rightarrow> False"
  by code_simp

lemma pressure_run:
  "case compactIfNeeded (stub_engine 200) PressureTrigger long_host of
     (h', Inr (Some r)) \<Rightarrow> cr_shadowedSeqs r = [2, 4] \<and> length (hlog h') = 11 | _ \<Rightarrow> False"
  by code_simp

lemma overflow_run:
  "case request_error (stub_engine 200) CONTEXT_WINDOW_EXCEEDED_CODE False False
      \<lparr>ls_retries = None, ls_tracked = False, ls_warned = []\<rparr> long_host of
     (st', h', r) \<Rightarrow> r = Inr True \<and> ls_retries st' = Some 1"
  by code_simp

lemma manual_run:
  "case compactNow silent_engine sample_request idle_host of
     (h', Inl (ManualError ManualSummary)) \<Rightarrow> length (hlog h') = 10 | _ \<Rightarrow> False"
  by code_simp

end
