(* ===== verification/Usage_Laws.thy ===== *)
theory Usage_Laws
  imports Metering_Laws
begin

text \<open>
  What the token-usage projection sums. On a log with a valid trace the reports of one step come together,
  so replacing the previous report of the same step counts every step once, with its last report.
\<close>

definition last_report :: "session_event list \<Rightarrow> nat \<times> nat \<rightharpoonup> usage_buckets" where
  "last_report evs =
     foldl (\<lambda>m ev. case usage_report (ev_data ev) of None \<Rightarrow> m
                     | Some (turn, step, u) \<Rightarrow> m((turn, step) \<mapsto> bucketsFrom u)) Map.empty evs"

definition sums_buckets :: "(usage_buckets \<Rightarrow> int) \<Rightarrow> bool" where
  "sums_buckets field \<longleftrightarrow> field zeroBuckets = 0
     \<and> (\<forall>t p n. field (addReplacing t p n) = field t - (case p of None \<Rightarrow> 0 | Some b \<Rightarrow> field b) + field n)"

lemma sums_bucket_fields:
  "sums_buckets ub_uncachedInputTokens" "sums_buckets ub_outputTokens"
  "sums_buckets ub_cacheReadTokens" "sums_buckets ub_cacheWriteTokens"
  by (auto simp: sums_buckets_def addReplacing_def zeroBuckets_def Let_def split: option.splits)

definition step_total :: "(usage_buckets \<Rightarrow> int) \<Rightarrow> (nat \<times> nat \<rightharpoonup> usage_buckets) \<Rightarrow> int" where
  "step_total field m = (\<Sum>k \<in> dom m. field (the (m k)))"

lemma step_total_upd:
  assumes "finite (dom m)"
  shows "step_total field (m(k \<mapsto> b)) = step_total field m - (case m k of None \<Rightarrow> 0 | Some a \<Rightarrow> field a) + field b"
proof -
  have rest: "(\<Sum>j \<in> dom m - {k}. field (the ((m(k \<mapsto> b)) j))) = (\<Sum>j \<in> dom m - {k}. field (the (m j)))"
    by (rule sum.cong) auto
  have "step_total field (m(k \<mapsto> b)) = field b + (\<Sum>j \<in> dom m - {k}. field (the (m j)))"
    using assms rest by (simp add: step_total_def sum.insert_remove)
  moreover have "step_total field m
      = (case m k of None \<Rightarrow> 0 | Some a \<Rightarrow> field a) + (\<Sum>j \<in> dom m - {k}. field (the (m j)))"
    using assms by (cases "m k") (auto simp: step_total_def sum.remove [of "dom m" k] domIff)
  ultimately show ?thesis by simp
qed

lemma last_report_snoc:
  "last_report (evs @ [ev]) =
     (case usage_report (ev_data ev) of None \<Rightarrow> last_report evs
      | Some (turn, step, u) \<Rightarrow> (last_report evs)((turn, step) \<mapsto> bucketsFrom u))"
  by (cases "usage_report (ev_data ev)") (auto simp: last_report_def)

lemma finite_reports: "finite (dom (last_report evs))"
proof (induction evs rule: rev_induct)
  case Nil
  then show ?case by (simp add: last_report_def)
next
  case (snoc ev evs)
  then show ?case by (auto simp: last_report_snoc split: option.splits prod.splits)
qed

text \<open>A step is over, or it is the open one.\<close>

definition step_over :: "session_trace \<Rightarrow> nat \<times> nat \<Rightarrow> bool" where
  "step_over t k \<longleftrightarrow> fst k < st_nextTurn t \<or> fst k = st_nextTurn t \<and> st_openTurn t \<noteq> None \<and> snd k < st_nextStep t"

definition usage_inv :: "session_trace \<Rightarrow> session_event list \<Rightarrow> token_usage_state \<Rightarrow> bool" where
  "usage_inv t evs s \<longleftrightarrow>
     (\<forall>k \<in> dom (last_report evs). step_over t k \<or> trace_step t = Some k)
     \<and> (\<forall>k \<in> dom (last_report evs). trace_step t = Some k \<longrightarrow> map_option (\<lambda>(a, b, _). (a, b)) (us_last s) = Some k)
     \<and> (\<forall>a b c. us_last s = Some (a, b, c) \<longrightarrow> last_report evs (a, b) = Some c)"

text \<open>How one event moves the position of the trace.\<close>

lemma trace_position:
  assumes "trace_event t ev = Inr t'"
  obtains (stay) "st_openTurn t' = st_openTurn t" "st_openStep t' = st_openStep t"
      "st_nextTurn t' = st_nextTurn t" "st_nextStep t' = st_nextStep t"
  | (turn_start) "st_openTurn t = None" "st_openTurn t' = Some (st_nextTurn t)" "st_openStep t' = st_openStep t"
      "st_nextTurn t' = st_nextTurn t" "st_nextStep t' = 1"
  | (turn_end) "st_openStep t = None" "st_openTurn t' = None" "st_openStep t' = None"
      "st_nextTurn t' = st_nextTurn t + 1"
  | (step_start) "st_openStep t = None" "st_openTurn t' = st_openTurn t" "st_openTurn t \<noteq> None"
      "st_openStep t' = Some (st_nextStep t)" "st_nextTurn t' = st_nextTurn t" "st_nextStep t' = st_nextStep t"
  | (step_end) "st_openTurn t' = st_openTurn t" "st_openStep t' = None" "st_openStep t \<noteq> None"
      "st_nextTurn t' = st_nextTurn t" "st_nextStep t' = st_nextStep t + 1"
  using assms
  by (cases "ev_data ev")
    (auto simp: trace_event_defs requireOpenStep_def bind_res_Inr_iff split: if_splits option.splits)

lemma step_moves:
  assumes "trace_event t ev = Inr t'" and "trace_inv t" and "step_over t k \<or> trace_step t = Some k"
  shows "(step_over t' k \<and> trace_step t' \<noteq> Some k) \<or> (trace_step t' = Some k \<and> trace_step t = Some k)"
  using assms(1)
proof (cases rule: trace_position)
  case stay
  with assms(2, 3) show ?thesis by (cases k) (auto simp: trace_step_def step_over_def trace_inv_def split: option.splits)
next
  case turn_start
  with assms(2, 3) show ?thesis by (cases k) (auto simp: trace_step_def step_over_def trace_inv_def split: option.splits)
next
  case turn_end
  with assms(2, 3) show ?thesis by (cases k) (auto simp: trace_step_def step_over_def trace_inv_def split: option.splits)
next
  case step_start
  with assms(2, 3) show ?thesis by (cases k) (auto simp: trace_step_def step_over_def trace_inv_def split: option.splits)
next
  case step_end
  with assms(2, 3) show ?thesis by (cases k) (auto simp: trace_step_def step_over_def trace_inv_def split: option.splits)
qed

lemma report_in_open_step:
  assumes "trace_event t ev = Inr t'" and "usage_report (ev_data ev) = Some (turn, step, u)"
  shows "trace_step t = Some (turn, step) \<and> trace_step t' = Some (turn, step)"
  using assms
  by (cases "ev_data ev" rule: usage_report.cases)
    (auto simp: trace_event_defs requireOpenStep_def trace_step_def bind_res_Inr_iff split: if_splits)

lemma bucketsEqual_iff: "bucketsEqual a b \<longleftrightarrow> a = b"
  by (auto simp: bucketsEqual_def intro!: usage_buckets.equality)

lemma usage_apply_unfold:
  assumes r: "usage_report (ev_data ev) = Some (turn, step, u)"
    and p: "previous = (case us_last s of Some (a, b, c) \<Rightarrow> if a = turn \<and> b = step then Some c else None | None \<Rightarrow> None)"
  shows "us_last (usage_apply s ev) = Some (turn, step, bucketsFrom u)"
    and "sums_buckets field \<Longrightarrow> field (us_totals (usage_apply s ev))
       = field (us_totals s) - (case previous of None \<Rightarrow> 0 | Some b \<Rightarrow> field b) + field (bucketsFrom u)"
  using assms by (auto simp: usage_apply_def bucketsEqual_iff sums_buckets_def Let_def split: option.splits if_splits)

lemma usage_sums_steps:
  "seedTrace evs = Inr t \<Longrightarrow>
   usage_inv t evs (foldl usage_apply usage_init evs)
   \<and> (\<forall>field. sums_buckets field \<longrightarrow>
        field (us_totals (foldl usage_apply usage_init evs)) = step_total field (last_report evs))"
proof (induction evs arbitrary: t rule: rev_induct)
  case Nil
  then show ?case by (simp add: usage_inv_def last_report_def usage_init_def step_total_def sums_buckets_def)
next
  case (snoc ev evs)
  from snoc.prems obtain t0 where t0: "seedTrace evs = Inr t0" and e: "trace_event t0 ev = Inr t"
    by (auto simp: seedTrace_replay trace.replay_snoc bind_res_Inr_iff)
  have inv: "trace_inv t0" using turn_numbers [OF t0] by blast
  let ?s = "foldl usage_apply usage_init evs"
  from snoc.IH [OF t0] have ui: "usage_inv t0 evs ?s"
    and tot: "\<And>field. sums_buckets field \<Longrightarrow> field (us_totals ?s) = step_total field (last_report evs)" by blast+
  note moves = step_moves [OF e inv]
  show ?case
  proof (cases "usage_report (ev_data ev)")
    case None
    then have "usage_apply ?s ev = ?s" "last_report (evs @ [ev]) = last_report evs"
      by (simp_all add: usage_apply_def last_report_snoc)
    moreover from this(2) have "usage_inv t (evs @ [ev]) ?s"
      using ui moves unfolding usage_inv_def by (simp only:) (metis (no_types, lifting))
    ultimately show ?thesis using tot by simp
  next
    case (Some r)
    then obtain turn step u where r: "usage_report (ev_data ev) = Some (turn, step, u)" by (cases r) auto
    from report_in_open_step [OF e r] have cur: "trace_step t0 = Some (turn, step)" "trace_step t = Some (turn, step)" by auto
    define previous where "previous = (case us_last ?s of Some (a, b, c) \<Rightarrow> if a = turn \<and> b = step then Some c else None | None \<Rightarrow> None)"
    have prev: "previous = last_report evs (turn, step)"
    proof (cases "last_report evs (turn, step)")
      case None
      then show ?thesis using ui unfolding previous_def usage_inv_def by (auto split: option.splits if_splits)
    next
      case (Some c)
      then have "map_option (\<lambda>(a, b, _). (a, b)) (us_last ?s) = Some (turn, step)"
        using ui cur(1) unfolding usage_inv_def by blast
      then show ?thesis using ui Some unfolding previous_def usage_inv_def by auto
    qed
    note ua = usage_apply_unfold [OF r previous_def]
    have lr: "last_report (evs @ [ev]) = (last_report evs)((turn, step) \<mapsto> bucketsFrom u)"
      using r by (simp add: last_report_snoc)
    have "usage_inv t (evs @ [ev]) (usage_apply ?s ev)"
      using ui moves cur unfolding usage_inv_def ua(1) lr by auto
    moreover have "field (us_totals (usage_apply ?s ev)) = step_total field (last_report (evs @ [ev]))"
      if "sums_buckets field" for field
      using ua(2) [OF that] tot [OF that] prev step_total_upd [OF finite_reports, of field evs] lr by simp
    ultimately show ?thesis by simp
  qed
qed

end
