(* ===== verification/Compaction_Results.thy ===== *)
theory Compaction_Results
  imports Sample_Compaction Usage_Laws
begin

text \<open>
  The properties of the block assembler, of token metering and of compaction, each with the run of
  Sample_Compaction it is applied to.
\<close>

section \<open>Assembly and metering\<close>

text \<open>
  C26. Interleaved stream chunks are assembled as if each block had streamed alone: the blocks are
  those the chunks of each index assemble to, in the order the indices first appear, or the first
  error among them; a stream cut by its token limit loses its tool calls. The replay entries kept are
  as many as the blocks.
\<close>

theorem assembly_by_block:
  "assembler_blocks (assembler_push_all cs) =
     bind_res (map_res (\<lambda>i. block_alone i (chunks_of i cs)) (first_seen cs)) (\<lambda>all.
       Inr (if assembler_finish (assembler_push_all cs) = FinishMaxTokens
            then filter (\<lambda>b. block_type b \<noteq> ''tool-call'') all else all))
   \<and> (\<forall>bs env es. assembled (assembler_push_all cs) = Inr (bs, Some env) \<longrightarrow> re_blocks env = Some es \<longrightarrow> length es = length bs)"
proof
  have assembled: "assembled (assembler_push_all cs) = Inr (bs, replay) \<Longrightarrow>
      \<exists>all. map_res (\<lambda>i. block_alone i (chunks_of i cs)) (first_seen cs) = Inr all
      \<and> bs = (if assembler_finish (assembler_push_all cs) = FinishMaxTokens
             then filter (\<lambda>b. block_type b \<noteq> ''tool-call'') all else all)" for bs replay
    using assembled_blocks by blast
  show "assembler_blocks (assembler_push_all cs) =
     bind_res (map_res (\<lambda>i. block_alone i (chunks_of i cs)) (first_seen cs)) (\<lambda>all.
       Inr (if assembler_finish (assembler_push_all cs) = FinishMaxTokens
            then filter (\<lambda>b. block_type b \<noteq> ''tool-call'') all else all))"
  proof (cases "assembled (assembler_push_all cs)")
    case (Inr r)
    then obtain bs replay where r: "assembled (assembler_push_all cs) = Inr (bs, replay)" by (cases r) auto
    from assembled [OF this] obtain all where
      "map_res (\<lambda>i. block_alone i (chunks_of i cs)) (first_seen cs) = Inr all"
      "bs = (if assembler_finish (assembler_push_all cs) = FinishMaxTokens
             then filter (\<lambda>b. block_type b \<noteq> ''tool-call'') all else all)" by blast
    with r show ?thesis by (simp add: assembler_blocks_def)
  next
    case (Inl e)
    then have "map_res (\<lambda>index. bind_res (mustGet (assembler_push_all cs) index) (\<lambda>p. assemble p index)) (ba_order (assembler_push_all cs)) = Inl e"
      by (auto simp: assembled_def Let_def bind_res_Inl_iff split: option.splits if_splits)
    with Inl show ?thesis by (simp add: assembler_blocks_def block_from_own_chunks order_first_seen)
  qed
  show "\<forall>bs env es. assembled (assembler_push_all cs) = Inr (bs, Some env) \<longrightarrow> re_blocks env = Some es \<longrightarrow> length es = length bs"
    using assembled_blocks by fastforce
qed

definition interleaved :: "stream_chunk list" where
  "interleaved =
     [TextDelta 1 ''a'', ToolCallDelta 0 ''c'' (Some ''read'') ''{'', TextDelta 1 ''b'', ToolCallDelta 0 ''c'' None ''}'',
      FinishChunk FinishToolCalls (Some \<lparr>re_response = JNull, re_blocks = Some [JNum (JInt 1), JNull]\<rparr>)]"

theorem assembly_by_block_witness:
  "assembler_blocks (assembler_push_all interleaved) = Inr [TextBlock ''ab'', ToolCallBlock ''c'' ''read'' ''{}'']
   \<and> (\<exists>bs env es. assembled (assembler_push_all interleaved) = Inr (bs, Some env) \<and> re_blocks env = Some es
        \<and> length es = length bs)"
proof
  show "assembler_blocks (assembler_push_all interleaved) = Inr [TextBlock ''ab'', ToolCallBlock ''c'' ''read'' ''{}'']"
    by code_simp
  have "assembled (assembler_push_all interleaved) = Inr ([TextBlock ''ab'', ToolCallBlock ''c'' ''read'' ''{}''],
      Some \<lparr>re_response = JNull, re_blocks = Some [JNum (JInt 1), JNull]\<rparr>)" by code_simp
  with assembly_by_block [of interleaved] show "\<exists>bs env es. assembled (assembler_push_all interleaved) = Inr (bs, Some env)
      \<and> re_blocks env = Some es \<and> length es = length bs" by fastforce
qed

text \<open>
  C27. The constant-space projections follow the surface: over an accepted log whose replacements were
  metered, the running totals of the breakdown and of the pressure are the sum of the estimates of the
  messages on the surface, and the envelope of the breakdown is that of the request header in force.
\<close>

theorem running_totals_are_surface_price:
  assumes "foldSurface evs = Inr (st, reps)" and "metered decimal evs reps"
  shows "\<exists>b p. fold_res (breakdown_apply decimal) breakdown_init evs = Inr b
     \<and> fold_res (pressure_apply decimal) pressure_init evs = Inr p
     \<and> bs_messageTokens b = int (surface_price decimal evs (sf_nodes st))
     \<and> ps_surfaceTokens p = int (surface_price decimal evs (sf_nodes st))
     \<and> bs_systemTokens b = estimateSystemTokens (foldRequestHeader evs None)
     \<and> bs_toolsTokens b = estimateToolsTokens decimal (foldRequestHeader evs None)"
  using breakdown.follows_surface [OF assms] pressure.follows_surface [OF assms] breakdown_envelope by blast

theorem running_totals_are_surface_price_witness:
  "\<exists>b. fold_res (breakdown_apply decimal0) breakdown_init (s_log long_session) = Inr b
     \<and> bs_messageTokens b = int (surface_price decimal0 (s_log long_session) [2, 4, 6])"
  using running_totals_are_surface_price [OF long_surface, of decimal0] by (auto simp: metered_def)



text \<open>
  C29. Over a log with a valid trace, each field of the usage totals is the sum, over the steps that
  reported usage, of the last report of the step: repeated reports replace, they do not add.
\<close>

theorem usage_counts_steps_once:
  assumes "seedTrace evs = Inr t" and "field \<in> {ub_uncachedInputTokens, ub_outputTokens, ub_cacheReadTokens, ub_cacheWriteTokens}"
  shows "field (us_totals (foldl usage_apply usage_init evs)) = (\<Sum>k \<in> dom (last_report evs). field (the (last_report evs k)))"
  using usage_sums_steps [OF assms(1)] assms(2) sums_bucket_fields by (auto simp: step_total_def)

theorem usage_counts_steps_once_witness:
  "ub_outputTokens (us_totals (foldl usage_apply usage_init (s_log lr_session))) = 7
   \<and> (\<Sum>k \<in> dom (last_report (s_log lr_session)). ub_outputTokens (the (last_report (s_log lr_session) k))) = 7"
proof -
  from lr_trace obtain t where t: "seedTrace (s_log lr_session) = Inr t" by (auto simp: is_ok_iff)
  have "ub_outputTokens (us_totals (foldl usage_apply usage_init (s_log lr_session))) = 7" by code_simp
  with usage_counts_steps_once [OF t, of ub_outputTokens] show ?thesis by simp
qed

section \<open>Pruning\<close>




section \<open>Pairing and the choice of a range\<close>

text \<open>
  C31. The pairing cache is exact: from a cache built on any prefix of the log, the balance of the
  surface before or after a message is that of a recount from nothing, namely whether the calls so far
  all have their results, and an error exactly when some result precedes its call. The cache left is
  again sound, also when the log grows.
\<close>

theorem pairing_cache_is_exact:
  assumes f: "foldSurface events = Inr (st, reps)" and ok: "pairing_cache_ok events cached"
    and i: "i < length (sf_nodes st)" and offset: "offset \<le> 1"
  shows "(snd (toolPairing offset events st cached (sf_nodes st ! i)) = Inr b \<longleftrightarrow>
        calls_precede events (sf_nodes st) \<and> b = (open_calls events (take (i + offset) (sf_nodes st)) = 0))
     \<and> pairing_cache_ok (events @ xs) (fst (toolPairing offset events st cached (sf_nodes st ! i)))"
  using toolPairing_answer [OF assms] pairing_cache_grows [OF toolPairing_ok(2) [OF f ok]] by blast

theorem pairing_cache_is_exact_witness:
  "snd (toolPairing 0 (s_log lr_session) \<lparr>sf_nodes = [4, 6], sf_replaceGeneration = 0\<rparr> None 6) = Inr False"
proof -
  have "open_calls (s_log lr_session) [4] \<noteq> 0" by code_simp
  with pairing_cache_is_exact [OF lr_surface, of None 1 0 False] lr_calls show ?thesis
    by (simp add: pairing_cache_ok_def)
qed

text \<open>
  C32. The range compaction chooses is the longest head of the surface that leaves something behind, cuts
  no call from its result, and leaves a tail of at least the retained tokens; it chooses none exactly when
  no head is such. The log is left alone.
\<close>

theorem range_is_longest_balanced_head:
  assumes "host_ok decimal h" and "foldSurface (hlog h) = Inr (st, reps)" and "calls_precede (hlog h) (sf_nodes st)"
    and "tm_nodes measurement = priced decimal (hlog h) (sf_nodes st)"
  shows "\<exists>h' choice. selectCompactableRange measurement retain h = (h', Inr choice) \<and> hlog h' = hlog h
     \<and> (case choice of
          None \<Rightarrow> \<forall>k. \<not> good_cut decimal (hlog h) (sf_nodes st) retain k
        | Some (start, end') \<Rightarrow>
            \<exists>k. good_cut decimal (hlog h) (sf_nodes st) retain k
              \<and> (\<forall>k'. good_cut decimal (hlog h) (sf_nodes st) retain k' \<longrightarrow> k' \<le> k)
              \<and> start = sf_nodes st ! 0 \<and> end' = sf_nodes st ! (k - 1))"
  using selectCompactableRange_choice [OF assms(2-4), of retain] assms(1)
  unfolding yields_def range_choice_def by blast

definition long_measurement :: token_measurement where
  "long_measurement = measure_from decimal0 (fst (meter_measure decimal0 (s_log long_session) None None)) None"

theorem range_is_longest_balanced_head_witness:
  "\<exists>h' choice. selectCompactableRange long_measurement 5 long_host = (h', Inr choice)
     \<and> hlog h' = s_log long_session \<and> choice \<noteq> None"
proof -
  have nodes: "tm_nodes long_measurement = priced decimal0 (s_log long_session) [2, 4, 6]" by code_simp
  have cut: "good_cut decimal0 (s_log long_session) [2, 4, 6] 5 1" by code_simp
  have h: "hlog long_host = s_log long_session" by (simp add: hlog_def long_host_def)
  from range_is_longest_balanced_head [OF long_host_ok [of decimal0] long_surface [folded h], of long_measurement 5]
    nodes long_calls obtain h' choice where
    c: "selectCompactableRange long_measurement 5 long_host = (h', Inr choice)" "hlog h' = s_log long_session"
    and "case choice of None \<Rightarrow> \<forall>k. \<not> good_cut decimal0 (s_log long_session) [2, 4, 6] 5 k | Some _ \<Rightarrow> True"
    unfolding h by (auto split: option.splits)
  then show ?thesis using cut by (cases choice) auto
qed

section \<open>The transaction\<close>



text \<open>
  C34. The trace validator accepts every event of such a bracket: from a state that agrees with the log
  before it, and if it accepts what the awaits appended, it ends with no compaction open.
\<close>

theorem transaction_is_accepted:
  assumes "transaction_log decimal render call start end' before sv extra tail sel turn r"
    and "ids_ok call" and "lock_inv before t"
    and "fold_res compaction_event (open_transaction call (ev_seq sv) turn False) extra = Inr t1"
    and "int (surface_price decimal (before @ [sv] @ extra) (ss_shadowedSeqs sel)) \<le> max_safe_integer"
  shows "fold_res compaction_event t (sv # extra @ tail) = Inr \<lparr>cst_openTurn = turn, cst_compaction = None\<rparr>"
  by (rule transaction_accepted [OF assms])

theorem transaction_is_accepted_witness:
  "\<exists>sv tail. fold_res compaction_event \<lparr>cst_openTurn = Some 1, cst_compaction = None\<rparr> (sv # [] @ tail)
       = Inr \<lparr>cst_openTurn = Some 1, cst_compaction = None\<rparr>
     \<and> ev_data sv = CompactionStart ''k0'' None (Some 1) \<and> length tail = 3"
proof -
  let ?call = "automatic_call (stub_engine 100) 0" and ?L = "s_log long_session"
  obtain h' r where run: "compactRegion (stub_engine 100) 0 2 4 long_host = (h', Inr r)" "cr_shadowedSeqs r = [2, 4]"
    and n: "length (hlog h') = 11"
    using automatic_run by (auto split: prod.splits sum.splits)
  have L: "hlog long_host = ?L" "length ?L = 7" by (simp add: hlog_def long_host_def) code_simp
  have "await_ok decimal0 (cl_summarize ?call i)" for i
    using summarize_hook_await [of decimal0 "en_stream (stub_engine 100)"] stub_world [of 100]
    by (simp add: automatic_call_def engine_env_ok_def) (simp add: stub_engine_def)
  moreover have "cl_flush ?call = None" by (simp add: automatic_call_def)
  moreover have "en_decimal (stub_engine 100) = decimal0" by (simp add: stub_engine_def)
  ultimately obtain sv extra tail extra' sel turn where e: "hlog h' = ?L @ [sv] @ extra @ tail @ extra'"
    and log: "transaction_log decimal0 (en_render (stub_engine 100)) ?call 2 4 ?L sv extra tail sel turn (Inr r)"
    using region_spec [OF long_host_ok _ _ run(1) [unfolded compactRegion_def]] n L
    by (auto simp: max_safe_integer_def)
  then have "committed decimal0 ?call sel turn (?L @ [sv] @ extra) tail r"
    by (auto simp: transaction_log_def closed_with_def automatic_call_def)
  then have t3: "length tail = 3" and sh: "ss_shadowedSeqs sel = [2, 4]"
    using run(2) by (auto simp: committed_def)
  with e n L have extra: "extra = []" by simp
  have opened: "es_openTurn (inspectCompactionEntryState ?L) = Some 1" by code_simp
  have ids: "cl_compactionId ?call = ''k0''" "cl_sourceCommandId ?call = None" by code_simp+
  have turn: "turn = Some 1" and sv: "ev_data sv = CompactionStart ''k0'' None turn"
    using log opened ids by (simp_all add: transaction_log_def)
  have "event_price decimal0 (?L ! 2) + event_price decimal0 (?L ! 4) = 253" by code_simp
  then have price: "int (surface_price decimal0 (?L @ [sv] @ []) (ss_shadowedSeqs sel)) \<le> max_safe_integer"
    using L by (simp add: sh surface_price_def nth_append max_safe_integer_def)
  have "lock_inv ?L \<lparr>cst_openTurn = Some 1, cst_compaction = None\<rparr>" by code_simp
  moreover have "ids_ok ?call" by (simp add: ids_ok_def automatic_call_def stub_engine_def)
  ultimately show ?thesis
    using transaction_is_accepted [OF log [unfolded extra] _ _ _ price] t3 sv turn by auto
qed

text \<open>
  C35. The lock has one meaning: after a seed and any live events the validator accepts, the backward
  scan that guards a new compaction finds the lock free exactly when the validator has no compaction
  open, and both see the same turn.
\<close>

theorem lock_views_agree:
  assumes "seedCompaction seed = Inr t0" and "fold_res compaction_event t0 live = Inr t"
    and "\<forall>i < length (seed @ live). ev_seq ((seed @ live) ! i) = i"
  shows "(compaction_inactive (inspectCompactionEntryState (seed @ live)) \<longleftrightarrow> cst_compaction t = None)
     \<and> es_openTurn (inspectCompactionEntryState (seed @ live)) = cst_openTurn t"
proof -
  have "\<forall>i < length seed. ev_seq (seed ! i) = i" using assms(3) by (auto simp: nth_append dest!: spec split: if_splits)
  with seed_lock_inv assms(1) have "lock_inv seed t0" unfolding seedCompaction_def by blast
  from lock_agrees [OF live_lock_inv [OF assms(2) this assms(3)]] show ?thesis by blast
qed

theorem lock_views_agree_witness:
  "\<exists>t. fold_res compaction_event \<lparr>cst_openTurn = None, cst_compaction = None\<rparr>
       [sample_event 0 (TurnStart 1) None, sample_event 1 (CompactionStart ''k'' None (Some 1)) None] = Inr t
     \<and> \<not> compaction_inactive (inspectCompactionEntryState
       [sample_event 0 (TurnStart 1) None, sample_event 1 (CompactionStart ''k'' None (Some 1)) None])
     \<and> cst_compaction t \<noteq> None"
proof -
  have s: "seedCompaction [] = Inr \<lparr>cst_openTurn = None, cst_compaction = None\<rparr>" by code_simp
  have "is_ok (fold_res compaction_event \<lparr>cst_openTurn = None, cst_compaction = None\<rparr>
       [sample_event 0 (TurnStart 1) None, sample_event 1 (CompactionStart ''k'' None (Some 1)) None])" by code_simp
  then obtain t where t: "fold_res compaction_event \<lparr>cst_openTurn = None, cst_compaction = None\<rparr>
       [sample_event 0 (TurnStart 1) None, sample_event 1 (CompactionStart ''k'' None (Some 1)) None] = Inr t"
    by (auto simp: is_ok_iff)
  have "\<not> compaction_inactive (inspectCompactionEntryState
       [sample_event 0 (TurnStart 1) None, sample_event 1 (CompactionStart ''k'' None (Some 1)) None])" by code_simp
  with lock_views_agree [OF s t] t show ?thesis by (auto simp: sample_event_def less_Suc_eq)
qed

section \<open>The policy\<close>

text \<open>
  C36. Whatever configuration is accepted, the policy of every target is consistent, also where the
  override of a target meets the defaults, and on every context window below 2 ^ 53 for which it gives
  budgets, the retained tokens are fewer than the threshold and the threshold fits the window.
\<close>

theorem accepted_config_is_consistent:
  assumes "resolveConfig config = Inr c"
  shows "policy_ok (resolveTargetPolicy c provider model)
     \<and> (\<forall>w s. resolveCompactSpec (resolveTargetPolicy c provider model) (JInt w) = Some s \<longrightarrow> w < 2 ^ 53 \<longrightarrow>
          0 \<le> sp_retainTokens s \<and> sp_retainTokens s < sp_thresholdTokens s \<and> sp_thresholdTokens s \<le> w)"
proof -
  note ok = resolveConfig_ok(2) [OF assms, of provider model]
  have "0 \<le> sp_retainTokens s \<and> sp_retainTokens s < sp_thresholdTokens s \<and> sp_thresholdTokens s \<le> w"
    if "resolveCompactSpec (resolveTargetPolicy c provider model) (JInt w) = Some s" "w < 2 ^ 53" for w s
    using resolveCompactSpec_bounds(2-5) [OF ok that(1)] that(2) by (metis)
  with ok show ?thesis by blast
qed

definition full_config :: json where
  "full_config = JObj [(''thresholdRatio'', JNum (JInt 1)), (''retainTokens'', JNum (JInt 10)), (''maxTokens'', JNum (JInt 50)),
     (''modelPolicies'', JArr [JObj [(''provider'', JStr ''p''), (''model'', JStr ''m''), (''retainTokens'', JNum (JInt 20))]])]"

lemma full_config_ok: "is_ok (resolveConfig full_config)"
proof -
  have keys: "validateKeys TopLevel full_config (POLICY_CONFIG_KEYS @ [''modelPolicies'', ''auto'']) = Inr ()" by code_simp
  have fields: "validatePolicy TopLevel full_config = Inr (no_fields\<lparr>pf_thresholdRatio := Some (JInt 1),
      pf_retainTokens := Some 10, pf_maxTokens := Some 50\<rparr>)" by code_simp
  have policies: "resolveModelPolicies (jget ''modelPolicies'' full_config) = Inr
      [policy_fields.extend (no_fields\<lparr>pf_retainTokens := Some 20\<rparr>) \<lparr>mp_provider = ''p'', mp_model = ''m''\<rparr>]" by code_simp
  have auto: "jget ''auto'' full_config = None" by code_simp
  show ?thesis
    by (simp add: resolveConfig_def keys fields policies auto when_defined_def resolveRetention_def
        validateRatioRetention_def check_policy_retention_def policy_fields.defs)
qed

theorem accepted_config_is_consistent_witness:
  "\<exists>c. resolveConfig full_config = Inr c \<and> policy_ok (resolveTargetPolicy c ''p'' ''m'')"
  using full_config_ok accepted_config_is_consistent unfolding is_ok_iff by blast









end
