(* ===== verification/Loop_State.thy ===== *)
theory Loop_State
  imports Js_String Inbox Session_Trace Block_Assembler Surface_Rewrite
begin

text \<open>
  The state of an agent driver (\<open>ReactLoopAgent\<close>, packages/core/agent-loop/src/agent.ts), the projection of
  its runtime context (runtime-context.ts), and the operations that other code calls on it: sending,
  cancelling, waking, and what they do to the phase.

  The driver suspends at every \<open>await\<close>, and other code runs then. The environment \<open>loop_env\<close> says what: one list
  of outside operations per suspension, counted by \<open>ag_tick\<close>, and the results of the calls the loop makes to
  plugins, tools and model adapters, which are arbitrary functions of the tick and the arguments. Listeners
  of the loop's own synchronous notifications are taken not to call back into the agent.
\<close>

section \<open>Programs\<close>

text \<open>
  A program that may throw, over a state; \<open>None\<close> is a run that has not returned within its fuel. \<open>try_prog\<close>
  returns the outcome as a value, for \<open>catch\<close> and \<open>finally\<close>.
\<close>

type_synonym ('s, 'e, 'a) prog = "'s \<Rightarrow> ('s \<times> ('e + 'a)) option"

definition ret :: "'a \<Rightarrow> ('s, 'e, 'a) prog" where
  "ret a = (\<lambda>s. Some (s, Inr a))"

definition raise :: "'e \<Rightarrow> ('s, 'e, 'a) prog" where
  "raise e = (\<lambda>s. Some (s, Inl e))"

definition unfinished :: "('s, 'e, 'a) prog" where
  "unfinished = (\<lambda>s. None)"

definition then_do :: "('s, 'e, 'a) prog \<Rightarrow> ('a \<Rightarrow> ('s, 'e, 'b) prog) \<Rightarrow> ('s, 'e, 'b) prog" where
  "then_do m k = (\<lambda>s. case m s of
     None \<Rightarrow> None | Some (s', Inl e) \<Rightarrow> Some (s', Inl e) | Some (s', Inr a) \<Rightarrow> k a s')"

definition try_prog :: "('s, 'e, 'a) prog \<Rightarrow> ('s, 'e, 'e + 'a) prog" where
  "try_prog m = (\<lambda>s. case m s of None \<Rightarrow> None | Some (s', r) \<Rightarrow> Some (s', Inr r))"

definition finally_do :: "('s, 'e, 'a) prog \<Rightarrow> ('s, 'e, unit) prog \<Rightarrow> ('s, 'e, 'a) prog" where
  "finally_do m cleanup = then_do (try_prog m) (\<lambda>r. then_do cleanup (\<lambda>_ s. Some (s, r)))"

definition reads :: "('s \<Rightarrow> 'a) \<Rightarrow> ('s, 'e, 'a) prog" where
  "reads f = (\<lambda>s. Some (s, Inr (f s)))"

definition updates :: "('s \<Rightarrow> 's) \<Rightarrow> ('s, 'e, unit) prog" where
  "updates f = (\<lambda>s. Some (f s, Inr ()))"

definition result_of :: "'e + 'a \<Rightarrow> ('s, 'e, 'a) prog" where
  "result_of r = (\<lambda>s. Some (s, r))"

text \<open>\<open>await m()\<close> for a function of this program: its outcome arrives after a suspension.\<close>

definition awaited :: "('s, 'e, unit) prog \<Rightarrow> ('s, 'e, 'a) prog \<Rightarrow> ('s, 'e, 'a) prog" where
  "awaited suspension m = then_do (try_prog m) (\<lambda>r. then_do suspension (\<lambda>_. result_of r))"

section \<open>Vocabulary\<close>

datatype loop_error =
    LoopLlm llm_failure  \<comment> \<open>an \<open>LlmError\<close>, with its failure\<close>
  | LoopAborted cancel_cause  \<comment> \<open>what \<open>signal.throwIfAborted()\<close> throws\<close>
  | LoopSession session_error
  | LoopInbox inbox_error
  | LoopAssembler assembler_error
  | NoProviderModel
  | ActiveWork
  | NoReservation
  | OutsideRunning string
  | Uncommitted
  | HostThrew string  \<comment> \<open>any other value thrown by a plugin, a tool or an adapter\<close>

text \<open>The phases; an abort controller is its reason once aborted. A step is 0 until the turn opens one.\<close>

datatype agent_phase =
    Idle nat  \<comment> \<open>lastTurn\<close>
  | Maintenance "cancel_cause option" nat bool  \<comment> \<open>abort, lastTurn, wakeRequested\<close>
  | Running "cancel_cause option" nat nat bool  \<comment> \<open>abort, turn, step, wakeRequested\<close>

text \<open>\<open>undefined\<close>, \<open>null\<close>, or the retained snapshot.\<close>

datatype retained_context =
    NeverRetained
  | NoneRetained
  | RetainedAt nat "string option"

datatype agent_note =
    StatusNote bool  \<comment> \<open>running\<close>
  | ErrorNote nat nat loop_error  \<comment> \<open>turn, step\<close>

text \<open>\<open>GenerateOptions\<close>; the session id is the agent's and the signal its current one.\<close>

record generate_options =
  go_config :: call_config
  go_messages :: "message list"
  go_system :: "string option"
  go_tools :: "tool_schema list option"

text \<open>
  \<open>ag_requests\<close> records each request handed to a model stream with the length of the log at that moment, for
  the statements about requests; the loop does not read it.
\<close>

record agent =
  ag_inbox :: inbox
  ag_phase :: agent_phase
  ag_headerLogged :: bool
  ag_retained :: retained_context
  ag_notes :: "agent_note list"
  ag_requests :: "(nat \<times> generate_options) list"
  ag_tick :: nat

abbreviation ag_session :: "agent \<Rightarrow> session" where
  "ag_session ag \<equiv> ix_session (ag_inbox ag)"

abbreviation ag_log :: "agent \<Rightarrow> session_event list" where
  "ag_log ag \<equiv> s_log (ag_session ag)"

abbreviation ag_pending :: "agent \<Rightarrow> bool" where
  "ag_pending ag \<equiv> hasPending (ix_state (ag_inbox ag))"

definition set_session :: "session \<Rightarrow> agent \<Rightarrow> agent" where
  "set_session s ag = ag\<lparr>ag_inbox := (ag_inbox ag)\<lparr>ix_session := s\<rparr>\<rparr>"

section \<open>The runtime context\<close>

definition CONTEXT_SOURCE :: string where
  "CONTEXT_SOURCE = ''@deepseek-ai/dsh-system-prompt''"

definition CLEARED :: string where
  "CLEARED = ''Current runtime context: none. Earlier runtime-context snapshots no longer apply.''"

fun plugin_is :: "message_source \<Rightarrow> string \<Rightarrow> bool" where
  "plugin_is (PluginSource plugin _) p = (plugin = p)"
| "plugin_is _ p = False"

definition isOwned :: "message \<Rightarrow> bool" where
  "isOwned m = plugin_is (m_source m) CONTEXT_SOURCE"

definition textOf :: "message \<Rightarrow> string option" where
  "textOf m = (case m_content m of [TextBlock t] \<Rightarrow> Some t | _ \<Rightarrow> None)"

text \<open>\<open>event.sourceEventSeqs?.includes(seq)\<close>.\<close>

definition cites :: "session_event \<Rightarrow> nat \<Rightarrow> bool" where
  "cites ev seq = (case ev_sourceEventSeqs ev of
     Some (JArr vs) \<Rightarrow> JNum (JInt (int seq)) \<in> set vs | _ \<Rightarrow> False)"

fun owned_message :: "event_data \<Rightarrow> message option" where
  "owned_message (UserMessage m) = (if isOwned m then Some m else None)"
| "owned_message _ = None"

text \<open>The listener of \<open>session/event\<close>.\<close>

definition context_observe :: "retained_context \<Rightarrow> session_event \<Rightarrow> retained_context" where
  "context_observe retained ev =
     (case owned_message (ev_data ev) of
        Some m \<Rightarrow> RetainedAt (ev_seq ev) (textOf m)
      | None \<Rightarrow>
          (case retained of
             RetainedAt seq _ \<Rightarrow> if isReplacementSurfaceEvent ev \<and> cites ev seq then NoneRetained else retained
           | _ \<Rightarrow> retained))"

text \<open>The scan of the constructor, over the events from the last one down.\<close>

fun context_scan :: "nat set \<Rightarrow> session_event list \<Rightarrow> retained_context \<Rightarrow> retained_context" where
  "context_scan surface [] retained = retained"
| "context_scan surface (ev # evs) retained =
     (case owned_message (ev_data ev) of
        None \<Rightarrow> context_scan surface evs retained
      | Some m \<Rightarrow>
          if ev_seq ev \<in> surface then RetainedAt (ev_seq ev) (textOf m)
          else context_scan surface evs (if retained = NeverRetained then NoneRetained else retained))"

text \<open>\<open>joinContextSections\<close> of packages/core/system-prompt/src/index.ts, over name and text.\<close>

definition SEPARATOR :: string where
  "SEPARATOR = [CHR 0x0A, CHR 0x0A]"

definition CONTEXT_HEADER :: string where
  "CONTEXT_HEADER = ''Current runtime context. This snapshot supersedes earlier runtime-context snapshots.''"

definition joinContextSections :: "(string \<times> string) list \<Rightarrow> string" where
  "joinContextSections sections =
     (let body = join_with SEPARATOR (map snd sections) in
      if length body = 0 then [] else CONTEXT_HEADER @ SEPARATOR @ body)"

definition snapshot_source :: "(string \<times> string) list \<Rightarrow> message_source" where
  "snapshot_source sections =
     (if sections = [] then PluginSource CONTEXT_SOURCE []
      else PluginSource CONTEXT_SOURCE
        [(''form'', JStr ''snapshot''),
         (''sections'', JArr (map (\<lambda>(n, t). JObj [(''name'', JStr n), (''text'', JStr t)]) sections))])"

definition snapshot_text :: "retained_context \<Rightarrow> string option" where
  "snapshot_text retained = (case retained of RetainedAt _ t \<Rightarrow> t | _ \<Rightarrow> None)"

definition context_project :: "string \<Rightarrow> retained_context \<Rightarrow> string \<Rightarrow> (string \<times> string) list \<Rightarrow> message option" where
  "context_project uuid retained current sections =
     (if retained = NeverRetained \<and> length current = 0 then None
      else let snapshot = (if length current = 0 then CLEARED else current) in
        if snapshot_text retained = Some snapshot then None
        else Some \<lparr>m_id = uuid, m_role = UserRole, m_content = [TextBlock snapshot],
                   m_source = snapshot_source sections\<rparr>)"

section \<open>Phases\<close>

fun phase_running :: "agent_phase \<Rightarrow> bool" where
  "phase_running (Running _ _ _ _) = True"
| "phase_running _ = False"

fun phase_idle :: "agent_phase \<Rightarrow> bool" where
  "phase_idle (Idle _) = True"
| "phase_idle _ = False"

fun phase_abort :: "agent_phase \<Rightarrow> cancel_cause option" where
  "phase_abort (Idle _) = None"
| "phase_abort (Maintenance a _ _) = a"
| "phase_abort (Running a _ _ _) = a"

text \<open>\<open>phase.turn\<close> of a running phase, \<open>phase.lastTurn\<close> of the others; the step of an error report.\<close>

fun phase_turn :: "agent_phase \<Rightarrow> nat" where
  "phase_turn (Idle n) = n"
| "phase_turn (Maintenance _ n _) = n"
| "phase_turn (Running _ n _ _) = n"

fun phase_step :: "agent_phase \<Rightarrow> nat" where
  "phase_step (Running _ _ s _) = s"
| "phase_step _ = 0"

fun phase_wake :: "agent_phase \<Rightarrow> bool" where
  "phase_wake (Idle _) = False"
| "phase_wake (Maintenance _ _ w) = w"
| "phase_wake (Running _ _ _ w) = w"

fun set_wake :: "bool \<Rightarrow> agent_phase \<Rightarrow> agent_phase" where
  "set_wake w (Idle n) = Idle n"
| "set_wake w (Maintenance a n _) = Maintenance a n w"
| "set_wake w (Running a t s _) = Running a t s w"

text \<open>\<open>abort.abort(cause)\<close>: the first reason stays.\<close>

fun set_abort :: "cancel_cause \<Rightarrow> agent_phase \<Rightarrow> agent_phase" where
  "set_abort c (Idle n) = Idle n"
| "set_abort c (Maintenance a n w) = Maintenance (case a of None \<Rightarrow> Some c | Some r \<Rightarrow> Some r) n w"
| "set_abort c (Running a t s w) = Running (case a of None \<Rightarrow> Some c | Some r \<Rightarrow> Some r) t s w"

fun set_turn :: "nat \<Rightarrow> agent_phase \<Rightarrow> agent_phase" where
  "set_turn n (Running a _ s w) = Running a n s w"
| "set_turn n p = p"

fun set_step :: "nat \<Rightarrow> agent_phase \<Rightarrow> agent_phase" where
  "set_step n (Running a t _ w) = Running a t n w"
| "set_step n p = p"

definition setPhase :: "agent_phase \<Rightarrow> agent \<Rightarrow> agent" where
  "setPhase p ag =
     (let ag' = ag\<lparr>ag_phase := p\<rparr> in
      if phase_running p \<noteq> phase_running (ag_phase ag)
      then ag'\<lparr>ag_notes := ag_notes ag @ [StatusNote (phase_running p)]\<rparr> else ag')"

definition over_phase :: "(agent_phase \<Rightarrow> agent_phase) \<Rightarrow> agent \<Rightarrow> agent" where
  "over_phase f ag = ag\<lparr>ag_phase := f (ag_phase ag)\<rparr>"

section \<open>Operations on the agent\<close>

text \<open>
  \<open>wakeDriver\<close>: a non-idle phase latches the wake or drops it, an idle one becomes the running phase of a
  new driver, which the caller then runs; the second component says so.
\<close>

definition wakeDriver :: "bool \<Rightarrow> agent \<Rightarrow> agent \<times> bool" where
  "wakeDriver wakeAfterAbort ag =
     (case ag_phase ag of
        Idle n \<Rightarrow> (setPhase (Running None n 0 False) ag, True)
      | Maintenance a n w \<Rightarrow>
          (if a \<noteq> Some CancelDisposed then over_phase (set_wake True) ag else ag, False)
      | Running a t s w \<Rightarrow>
          (if a \<noteq> Some CancelDisposed \<and> wakeAfterAbort then over_phase (set_wake True) ag else ag, False))"

definition agent_send :: "nat \<Rightarrow> message \<Rightarrow> inbox_target \<Rightarrow> bool \<Rightarrow> agent \<Rightarrow> loop_error + agent \<times> bool" where
  "agent_send now m target wakeup ag =
     (let wakingAfterAbort = (wakeup \<and> \<not> phase_idle (ag_phase ag) \<and> phase_abort (ag_phase ag) \<noteq> None);
          resolvedTarget = (if wakingAfterAbort then NextTurn else target) in
      bind_res (map_error LoopInbox (inbox_splice_op now (ag_inbox ag) resolvedTarget PosInf (js_of_nat 0) [m])) (\<lambda>(ix, _).
        let ag' = ag\<lparr>ag_inbox := ix\<rparr> in
        Inr (if wakeup then wakeDriver wakingAfterAbort ag' else (ag', False))))"

definition agent_followup :: "nat \<Rightarrow> message \<Rightarrow> agent \<Rightarrow> loop_error + agent \<times> bool" where
  "agent_followup now m = agent_send now m NextTurn True"

definition agent_steer :: "nat \<Rightarrow> message \<Rightarrow> agent \<Rightarrow> loop_error + agent \<times> bool" where
  "agent_steer now m = agent_send now m NextStep True"

definition agent_inject :: "nat \<Rightarrow> message \<Rightarrow> agent \<Rightarrow> loop_error + agent \<times> bool" where
  "agent_inject now m = agent_send now m NextStep False"

definition agent_cancel :: "nat \<Rightarrow> cancel_cause \<Rightarrow> bool \<Rightarrow> agent \<Rightarrow> loop_error + agent" where
  "agent_cancel now cause keepInbox ag =
     bind_res (if keepInbox then Inr ag
               else bind_res (map_error LoopInbox (inbox_clear now (ag_inbox ag))) (\<lambda>ix.
                 Inr (over_phase (set_wake False) (ag\<lparr>ag_inbox := ix\<rparr>)))) (\<lambda>ag'.
       Inr (over_phase (set_abort cause) ag'))"

text \<open>An event of the session reaches the projection's listener when it is appended.\<close>

definition agent_append :: "nat \<Rightarrow> event_data \<Rightarrow> surface_intent \<Rightarrow> agent \<Rightarrow> session_error + agent \<times> session_event" where
  "agent_append now d opts ag =
     bind_res (session_append (ag_session ag) now d opts) (\<lambda>(s, ev).
       Inr ((set_session s ag)\<lparr>ag_retained := context_observe (ag_retained ag) ev\<rparr>, ev))"

section \<open>What other code does while the driver is suspended\<close>

datatype outside_op =
    OutSend nat message inbox_target bool
  | OutCancel nat cancel_cause bool
  | OutInbox nat inbox_op
  | OutAppend nat event_data surface_intent
  | OutRead session_op  \<comment> \<open>one of the cached reads\<close>

text \<open>
  A rejected operation throws in its caller and leaves the agent as it was. A send cannot start a driver
  here, as the phase is not idle.
\<close>

fun outside_do :: "agent \<Rightarrow> outside_op \<Rightarrow> agent" where
  "outside_do ag (OutSend now m target wakeup) =
     (case agent_send now m target wakeup ag of Inr (ag', _) \<Rightarrow> ag' | Inl _ \<Rightarrow> ag)"
| "outside_do ag (OutCancel now cause keepInbox) =
     (case agent_cancel now cause keepInbox ag of Inr ag' \<Rightarrow> ag' | Inl _ \<Rightarrow> ag)"
| "outside_do ag (OutInbox now op) = ag\<lparr>ag_inbox := inbox_step (ag_inbox ag) (now, op)\<rparr>"
| "outside_do ag (OutAppend now d opts) =
     (case agent_append now d opts ag of Inr (ag', _) \<Rightarrow> ag' | Inl _ \<Rightarrow> ag)"
| "outside_do ag (OutRead op) =
     (case op of SessionAppend _ _ _ \<Rightarrow> ag | _ \<Rightarrow> set_session (session_step (ag_session ag) op) ag)"

definition outside_all :: "outside_op list \<Rightarrow> agent \<Rightarrow> agent" where
  "outside_all ops ag = foldl outside_do ag ops"

end
