(* ===== verification/Tool_Scheduler.thy ===== *)
theory Tool_Scheduler
  imports Loop_State
begin

text \<open>
  The environment of the agent loop, its suspension points, and the scheduler of one step's tool calls
  (packages/core/agent-loop/src/tool-calls.ts): exclusive calls are barriers, parallel ones share a bounded
  pool, results are committed in the order of the model's calls whatever order they settle in.
\<close>

section \<open>The environment\<close>

record tool_exec_input =
  ti_callId :: string
  ti_name :: string
  ti_arguments :: json

text \<open>\<open>ToolExecutionResult\<close>: the error's message is not read, its \<open>info\<close> is a name and a code.\<close>

record tool_execution_result =
  ter_content :: "content_block list"
  ter_isError :: bool
  ter_info :: "(string \<times> string) option"
  ter_meta :: "json option"
  ter_additionalContexts :: "message list"
  ter_concludesTurn :: bool

datatype tool_preparation =
    DispatchCall
  | PostResult tool_execution_result
  | FinalResult tool_execution_result

text \<open>The sections of an assembly, each rendered or failing to render, its contexts likewise, and its tools.\<close>

record prompt_assembly =
  pa_sections :: "(loop_error + string) list"
  pa_contexts :: "(string \<times> (loop_error + string)) list"
  pa_tools :: "tool_schema list"

datatype pre_step_decision =
    RejectStep
  | EnterStep "message list"

record prepared_call =
  pc_config :: call_config
  pc_adapterDefaults :: adapter_defaults
  pc_contextWindow :: "nat option"

record loop_options =
  lo_provider :: "string option"
  lo_model :: "string option"
  lo_maxTokens :: "nat option"

text \<open>
  Three streams of outside operations: while a turn is open, while a request of the turn is being built, and
  while no turn is open. The other functions are the results of the calls the loop makes, by tick;
  \<open>le_settles\<close> lists the dispatched calls of the running group that settle during a suspension, and
  \<open>le_jsonParse\<close> is \<open>JSON.parse\<close>.
\<close>

record loop_env =
  le_options :: loop_options
  le_maxParallel :: nat
  le_clock :: "nat \<Rightarrow> nat"
  le_uuid :: "nat \<Rightarrow> string"
  le_errorChain :: "loop_error \<Rightarrow> string"
  le_outside :: "nat \<Rightarrow> outside_op list"
  le_building :: "nat \<Rightarrow> outside_op list"
  le_resting :: "nat \<Rightarrow> outside_op list"
  le_assemble :: "nat \<Rightarrow> loop_error + prompt_assembly"
  le_preStep :: "nat \<Rightarrow> message list \<Rightarrow> pre_step_decision \<Rightarrow> loop_error + pre_step_decision"
  le_request :: "nat \<Rightarrow> call_config \<Rightarrow> loop_error + call_config"
  le_prepareCall :: "nat \<Rightarrow> call_config \<Rightarrow> loop_error + prepared_call"
  le_stream :: "nat \<Rightarrow> generate_options \<Rightarrow> loop_error + stream_chunk list \<times> loop_error option"
  le_requestError :: "nat \<Rightarrow> llm_failure \<Rightarrow> loop_error + bool"
  le_turnStopping :: "nat \<Rightarrow> loop_error + unit"
  le_jsonParse :: "string \<Rightarrow> json option"
  le_executionMode :: "nat \<Rightarrow> tool_exec_input \<Rightarrow> bool"
  le_prepareTool :: "nat \<Rightarrow> tool_exec_input \<Rightarrow> loop_error + tool_preparation"
  le_dispatchTool :: "nat \<Rightarrow> tool_exec_input \<Rightarrow> loop_error + tool_execution_result \<times> bool"
  le_settles :: "nat \<Rightarrow> nat list"
  le_finalize :: "nat \<Rightarrow> tool_execution_result \<Rightarrow> loop_error + tool_execution_result"
  le_finish :: "nat \<Rightarrow> tool_execution_result \<Rightarrow> loop_error + tool_execution_result"

type_synonym 'a loop = "(agent, loop_error, 'a) prog"

definition tick :: "(nat \<Rightarrow> outside_op list) \<Rightarrow> agent \<Rightarrow> agent" where
  "tick ops ag = (outside_all (ops (ag_tick ag)) ag)\<lparr>ag_tick := Suc (ag_tick ag)\<rparr>"

text \<open>A suspension, and a call whose result comes with it.\<close>

definition await_host :: "loop_env \<Rightarrow> unit loop" where
  "await_host env = updates (tick (le_outside env))"

definition await_call :: "loop_env \<Rightarrow> (nat \<Rightarrow> loop_error + 'a) \<Rightarrow> 'a loop" where
  "await_call env f = then_do (reads ag_tick) (\<lambda>t. then_do (await_host env) (\<lambda>_. result_of (f t)))"

definition loop_throwIfAborted :: "unit loop" where
  "loop_throwIfAborted = then_do (reads (\<lambda>ag. phase_abort (ag_phase ag))) (\<lambda>a.
     case a of None \<Rightarrow> ret () | Some c \<Rightarrow> raise (LoopAborted c))"

definition append_event :: "loop_env \<Rightarrow> event_data \<Rightarrow> surface_intent \<Rightarrow> session_event loop" where
  "append_event env d opts = (\<lambda>ag.
     case agent_append (le_clock env (length (ag_log ag))) d opts ag of
       Inl e \<Rightarrow> Some (ag, Inl (LoopSession e))
     | Inr (ag', ev) \<Rightarrow> Some (ag', Inr ev))"

definition appending :: "nat list option \<Rightarrow> surface_intent" where
  "appending sources =
     \<lparr>si_surfaceOp = Some (JStr ''append''), si_sourceEventSeqs = map_option seqs_json sources\<rparr>"

section \<open>Tool events\<close>

definition TOOL_ABORTED_BEFORE_DISPATCH :: string where
  "TOOL_ABORTED_BEFORE_DISPATCH = ''ABORTED_BEFORE_DISPATCH''"

definition parseArguments :: "loop_env \<Rightarrow> string \<Rightarrow> json" where
  "parseArguments env raw =
     (if raw = [] then JObj [] else case le_jsonParse env raw of Some v \<Rightarrow> v | None \<Rightarrow> JStr raw)"

text \<open>A tool call block of the message: id, name and raw arguments.\<close>

type_synonym call_block = "string \<times> string \<times> string"

abbreviation call_id :: "call_block \<Rightarrow> string" where
  "call_id \<equiv> fst"

definition planned_input :: "loop_env \<Rightarrow> call_block \<Rightarrow> tool_exec_input" where
  "planned_input env block =
     \<lparr>ti_callId = fst block, ti_name = fst (snd block), ti_arguments = parseArguments env (snd (snd block))\<rparr>"

definition createToolResultMessage :: "string \<Rightarrow> string \<Rightarrow> content_block list \<Rightarrow> bool \<Rightarrow> message" where
  "createToolResultMessage uuid callId content isError =
     \<lparr>m_id = uuid, m_role = UserRole, m_content = [ToolResultBlock callId content (Some isError)],
      m_source = ToolSource callId\<rparr>"

definition appendToolCall :: "loop_env \<Rightarrow> nat \<Rightarrow> nat \<Rightarrow> call_block \<Rightarrow> nat loop" where
  "appendToolCall env turn step block =
     then_do (append_event env (ToolCall turn step (fst block) (fst (snd block)) (snd (snd block))) no_intent)
       (\<lambda>ev. ret (ev_seq ev))"

definition appendToolResult ::
    "loop_env \<Rightarrow> nat \<Rightarrow> nat \<Rightarrow> call_block \<Rightarrow> tool_execution_result \<Rightarrow> nat \<Rightarrow> unit loop" where
  "appendToolResult env turn step block result callSeq =
     then_do (reads (\<lambda>ag. le_uuid env (length (ag_log ag)))) (\<lambda>uuid.
     then_do (append_event env
       (ToolResult \<lparr>tr_turn = turn, tr_step = step,
          tr_message = createToolResultMessage uuid (fst block) (ter_content result) (ter_isError result),
          tr_error = ter_info result, tr_meta = ter_meta result\<rparr>)
       (appending (Some [callSeq]))) (\<lambda>_. ret ()))"

definition skipped_result :: tool_execution_result where
  "skipped_result =
     \<lparr>ter_content = [TextBlock ''Error: tool call aborted before dispatch''], ter_isError = True,
      ter_info = Some (''AbortError'', TOOL_ABORTED_BEFORE_DISPATCH), ter_meta = None,
      ter_additionalContexts = [], ter_concludesTurn = False\<rparr>"

definition appendSkippedToolCall :: "loop_env \<Rightarrow> nat \<Rightarrow> nat \<Rightarrow> call_block \<Rightarrow> unit loop" where
  "appendSkippedToolCall env turn step block =
     then_do (appendToolCall env turn step block) (appendToolResult env turn step block skipped_result)"

text \<open>\<open>for (const x of xs) f(x)\<close>.\<close>

fun for_each :: "('a \<Rightarrow> ('s, 'e, unit) prog) \<Rightarrow> 'a list \<Rightarrow> ('s, 'e, unit) prog" where
  "for_each f [] = ret ()"
| "for_each f (x # xs) = then_do (f x) (\<lambda>_. for_each f xs)"

text \<open>\<open>context => inbox.splice('next-step', inbox.nextStep.length, 0, [context])\<close>.\<close>

definition acceptContext :: "loop_env \<Rightarrow> message \<Rightarrow> unit loop" where
  "acceptContext env m = (\<lambda>ag.
     case inbox_splice_op (le_clock env (length (ag_log ag))) (ag_inbox ag) NextStep
            (js_of_nat (length (ib_nextStep (ix_state (ag_inbox ag))))) (js_of_nat 0) [m] of
       Inl e \<Rightarrow> Some (ag, Inl (LoopInbox e))
     | Inr (ix, _) \<Rightarrow> Some (ag\<lparr>ag_inbox := ix\<rparr>, Inr ()))"

section \<open>One group\<close>

text \<open>
  The variables of \<open>runGroup\<close>. A dispatched call is in flight until the race returns its index; its outcome,
  fixed by the dispatch, reaches its slot (or the failure) when it settles.
\<close>

record group_state =
  gs_slots :: "nat \<rightharpoonup> tool_execution_result \<times> bool"  \<comment> \<open>result, needsPost\<close>
  gs_callSeqs :: "nat \<rightharpoonup> nat"
  gs_nextToStart :: nat
  gs_committed :: nat
  gs_started :: nat
  gs_aborted :: bool
  gs_concluded :: bool
  gs_failure :: "loop_error option"
  gs_inFlight :: "nat list"
  gs_outcomes :: "nat \<rightharpoonup> loop_error + tool_execution_result \<times> bool"
  gs_settled :: "nat list"

definition new_group :: "bool \<Rightarrow> group_state" where
  "new_group aborted =
     \<lparr>gs_slots = Map.empty, gs_callSeqs = Map.empty, gs_nextToStart = 0, gs_committed = 0, gs_started = 0,
      gs_aborted = aborted, gs_concluded = False, gs_failure = None, gs_inFlight = [],
      gs_outcomes = Map.empty, gs_settled = []\<rparr>"

type_synonym 'a group = "(group_state \<times> agent, loop_error, 'a) prog"

definition in_agent :: "'a loop \<Rightarrow> 'a group" where
  "in_agent m = (\<lambda>(g, ag). case m ag of None \<Rightarrow> None | Some (ag', r) \<Rightarrow> Some ((g, ag'), r))"

definition group_get :: "(group_state \<Rightarrow> 'a) \<Rightarrow> 'a group" where
  "group_get f = reads (f \<circ> fst)"

definition group_set :: "(group_state \<Rightarrow> group_state) \<Rightarrow> unit group" where
  "group_set f = updates (\<lambda>(g, ag). (f g, ag))"

text \<open>\<open>schedulerFailure ??= { error }\<close>.\<close>

definition note_failure :: "loop_error \<Rightarrow> group_state \<Rightarrow> group_state" where
  "note_failure e g = g\<lparr>gs_failure := (case gs_failure g of None \<Rightarrow> Some e | Some f \<Rightarrow> Some f)\<rparr>"

text \<open>The continuation of a dispatch that settles.\<close>

definition settle_call :: "group_state \<Rightarrow> nat \<Rightarrow> group_state" where
  "settle_call g i =
     (if i \<notin> set (gs_inFlight g) \<or> i \<in> set (gs_settled g) then g
      else let g' = g\<lparr>gs_settled := gs_settled g @ [i]\<rparr> in
        case gs_outcomes g i of
          Some (Inr slot) \<Rightarrow> g'\<lparr>gs_slots := (gs_slots g)(i \<mapsto> slot)\<rparr>
        | Some (Inl e) \<Rightarrow> note_failure e g'
        | None \<Rightarrow> g')"

definition group_await :: "loop_env \<Rightarrow> unit group" where
  "group_await env = updates (\<lambda>(g, ag).
     (foldl settle_call g (le_settles env (ag_tick ag)), tick (le_outside env) ag))"

definition throwSchedulerFailure :: "unit group" where
  "throwSchedulerFailure = then_do (group_get gs_failure) (\<lambda>f.
     case f of None \<Rightarrow> ret () | Some e \<Rightarrow> raise e)"

text \<open>\<open>commitReady\<close>: the first argument bounds the calls left to commit.\<close>

fun commit_ready :: "loop_env \<Rightarrow> nat \<Rightarrow> nat \<Rightarrow> call_block list \<Rightarrow> nat \<Rightarrow> unit group" where
  "commit_ready env turn step calls 0 = ret ()"
| "commit_ready env turn step calls (Suc k) =
     then_do (group_get gs_committed) (\<lambda>committed.
     then_do (group_get gs_slots) (\<lambda>slots.
     case slots committed of
       None \<Rightarrow> ret ()
     | Some (slot, needsPost) \<Rightarrow>
         then_do (in_agent (reads ag_tick)) (\<lambda>t.
         then_do (if needsPost then then_do (group_await env) (\<lambda>_. result_of (le_finalize env t slot))
                  else result_of (le_finish env t slot)) (\<lambda>result.
         then_do (group_get gs_callSeqs) (\<lambda>callSeqs.
         then_do (in_agent (appendToolResult env turn step (calls ! committed) result (the (callSeqs committed)))) (\<lambda>_.
         then_do (in_agent (for_each (acceptContext env) (ter_additionalContexts result))) (\<lambda>_.
         then_do (group_set (\<lambda>g. g\<lparr>gs_concluded := (gs_concluded g \<or> ter_concludesTurn result),
                                    gs_committed := Suc committed\<rparr>)) (\<lambda>_.
         commit_ready env turn step calls k))))))))"

definition commitReady :: "loop_env \<Rightarrow> nat \<Rightarrow> nat \<Rightarrow> call_block list \<Rightarrow> unit group" where
  "commitReady env turn step calls =
     then_do (group_get gs_committed) (\<lambda>committed. commit_ready env turn step calls (length calls - committed))"

definition startCall :: "loop_env \<Rightarrow> nat \<Rightarrow> nat \<Rightarrow> call_block list \<Rightarrow> nat \<Rightarrow> unit group" where
  "startCall env turn step calls index =
     then_do (in_agent (appendToolCall env turn step (calls ! index))) (\<lambda>seq.
     then_do (group_set (\<lambda>g. g\<lparr>gs_callSeqs := (gs_callSeqs g)(index \<mapsto> seq), gs_started := Suc (gs_started g)\<rparr>)) (\<lambda>_.
     then_do (in_agent (reads ag_tick)) (\<lambda>t.
     then_do (group_await env) (\<lambda>_.
     then_do (result_of (le_prepareTool env t (planned_input env (calls ! index)))) (\<lambda>prepared.
     then_do throwSchedulerFailure (\<lambda>_.
     then_do (in_agent (reads ag_tick)) (\<lambda>t'.
     group_set (\<lambda>g. case prepared of
         DispatchCall \<Rightarrow>
           g\<lparr>gs_inFlight := gs_inFlight g @ [index],
             gs_outcomes := (gs_outcomes g)(index \<mapsto> le_dispatchTool env t' (planned_input env (calls ! index)))\<rparr>
       | PostResult r \<Rightarrow> g\<lparr>gs_slots := (gs_slots g)(index \<mapsto> (r, True))\<rparr>
       | FinalResult r \<Rightarrow> g\<lparr>gs_slots := (gs_slots g)(index \<mapsto> (r, False))\<rparr>))))))))"

definition note_abort :: "unit group" where
  "note_abort =
     then_do (in_agent (reads (\<lambda>ag. phase_abort (ag_phase ag)))) (\<lambda>a.
       if a \<noteq> None then group_set (\<lambda>g. g\<lparr>gs_aborted := True\<rparr>) else ret ())"

text \<open>\<open>fillPool\<close>: the first argument is the number of calls left to start.\<close>

fun fill_pool :: "loop_env \<Rightarrow> nat \<Rightarrow> nat \<Rightarrow> call_block list \<Rightarrow> bool \<Rightarrow> nat \<Rightarrow> unit group" where
  "fill_pool env turn step calls parallel 0 = ret ()"
| "fill_pool env turn step calls parallel (Suc k) =
     then_do (group_get id) (\<lambda>g.
     if gs_aborted g \<or> length (gs_inFlight g) \<ge> le_maxParallel env then ret ()
     else
       then_do (in_agent (reads ag_tick)) (\<lambda>t.
       if gs_nextToStart g > 0 \<and> parallel
          \<and> \<not> le_executionMode env t (planned_input env (calls ! gs_nextToStart g)) then ret ()
       else
         then_do (awaited (group_await env) (startCall env turn step calls (gs_nextToStart g))) (\<lambda>_.
         then_do (group_set (\<lambda>g. g\<lparr>gs_nextToStart := Suc (gs_nextToStart g)\<rparr>)) (\<lambda>_.
         then_do throwSchedulerFailure (\<lambda>_.
         then_do (awaited (group_await env) (commitReady env turn step calls)) (\<lambda>_.
         then_do throwSchedulerFailure (\<lambda>_.
         then_do note_abort (\<lambda>_.
         fill_pool env turn step calls parallel k))))))))"

definition fillPool :: "loop_env \<Rightarrow> nat \<Rightarrow> nat \<Rightarrow> call_block list \<Rightarrow> bool \<Rightarrow> unit group" where
  "fillPool env turn step calls parallel =
     then_do (group_get gs_nextToStart) (\<lambda>n. fill_pool env turn step calls parallel (length calls - n))"

text \<open>
  \<open>Promise.race(inFlight.values())\<close>: a promise settled before the call wins in iteration order, otherwise the
  first to settle afterwards; the race waits until there is one.
\<close>

definition race :: "loop_env \<Rightarrow> nat group" where
  "race env =
     then_do (group_get (\<lambda>g. filter (\<lambda>i. i \<in> set (gs_settled g)) (gs_inFlight g))) (\<lambda>settledEarlier.
     then_do (group_await env) (\<lambda>_.
     then_do (group_set (\<lambda>g. if gs_settled g = [] then settle_call g (hd (gs_inFlight g)) else g)) (\<lambda>_.
     then_do (group_get gs_settled) (\<lambda>settled.
     ret (if settledEarlier \<noteq> [] then hd settledEarlier else hd settled)))))"

definition delete_in_flight :: "nat \<Rightarrow> group_state \<Rightarrow> group_state" where
  "delete_in_flight i g =
     g\<lparr>gs_inFlight := removeAll i (gs_inFlight g), gs_settled := removeAll i (gs_settled g)\<rparr>"

text \<open>The loop over the pool; each round takes one call out of flight, so the number of calls bounds it.\<close>

fun drain_pool :: "loop_env \<Rightarrow> nat \<Rightarrow> nat \<Rightarrow> call_block list \<Rightarrow> bool \<Rightarrow> nat \<Rightarrow> unit group" where
  "drain_pool env turn step calls parallel k =
     then_do (group_get gs_inFlight) (\<lambda>inFlight.
     if inFlight = [] then ret ()
     else case k of 0 \<Rightarrow> unfinished | Suc k' \<Rightarrow>
       then_do (race env) (\<lambda>settledIndex.
       then_do (group_set (delete_in_flight settledIndex)) (\<lambda>_.
       then_do throwSchedulerFailure (\<lambda>_.
       then_do (awaited (group_await env) (commitReady env turn step calls)) (\<lambda>_.
       then_do throwSchedulerFailure (\<lambda>_.
       then_do note_abort (\<lambda>_.
       then_do (awaited (group_await env) (fillPool env turn step calls parallel)) (\<lambda>_.
       drain_pool env turn step calls parallel k'))))))))"

declare drain_pool.simps [simp del]

record group_outcome =
  gr_consumed :: nat
  gr_aborted :: bool
  gr_concluded :: bool

definition run_pool :: "loop_env \<Rightarrow> nat \<Rightarrow> nat \<Rightarrow> call_block list \<Rightarrow> bool \<Rightarrow> unit group" where
  "run_pool env turn step calls parallel =
     then_do (try_prog
       (then_do (awaited (group_await env) (fillPool env turn step calls parallel)) (\<lambda>_.
        drain_pool env turn step calls parallel (length calls)))) (\<lambda>r.
     case r of
       Inr _ \<Rightarrow> ret ()
     | Inl e \<Rightarrow>
         then_do (group_set (note_failure e)) (\<lambda>_.
         then_do (group_await env) (\<lambda>_.
         then_do (group_get gs_failure) (\<lambda>f. raise (the f)))))"

text \<open>What follows the pool: the skipped calls of an aborted group, and its outcome.\<close>

definition close_group :: "loop_env \<Rightarrow> nat \<Rightarrow> nat \<Rightarrow> call_block list \<Rightarrow> group_state \<Rightarrow> group_outcome loop" where
  "close_group env turn step calls g =
     (if gs_aborted g then
        then_do (for_each (appendSkippedToolCall env turn step) (drop (gs_started g) calls)) (\<lambda>_.
          ret \<lparr>gr_consumed = length calls, gr_aborted = True, gr_concluded = gs_concluded g\<rparr>)
      else if gs_committed g \<noteq> gs_started g then raise Uncommitted
      else ret \<lparr>gr_consumed = gs_started g, gr_aborted = False, gr_concluded = gs_concluded g\<rparr>)"

definition runGroup :: "loop_env \<Rightarrow> nat \<Rightarrow> nat \<Rightarrow> call_block list \<Rightarrow> bool \<Rightarrow> group_outcome loop" where
  "runGroup env turn step calls parallel = (\<lambda>ag.
     case run_pool env turn step calls parallel (new_group (phase_abort (ag_phase ag) \<noteq> None), ag) of
       None \<Rightarrow> None
     | Some ((g, ag'), Inl e) \<Rightarrow> Some (ag', Inl e)
     | Some ((g, ag'), Inr _) \<Rightarrow> close_group env turn step calls g ag')"

section \<open>All calls of a step\<close>

text \<open>The loop over the groups; each consumes a call, so the number of calls bounds it.\<close>

fun tool_groups :: "loop_env \<Rightarrow> nat \<Rightarrow> nat \<Rightarrow> call_block list \<Rightarrow> bool \<Rightarrow> nat \<Rightarrow> bool loop" where
  "tool_groups env turn step [] concluded k = ret concluded"
| "tool_groups env turn step (first # rest) concluded 0 = unfinished"
| "tool_groups env turn step (first # rest) concluded (Suc k) =
     then_do (reads ag_tick) (\<lambda>t.
     let parallel = le_executionMode env t (planned_input env first);
         group = (if parallel then first # rest else [first]) in
     then_do (awaited (await_host env) (runGroup env turn step group parallel)) (\<lambda>outcome.
     let remaining = drop (gr_consumed outcome) (first # rest);
         concluded' = (concluded \<or> gr_concluded outcome) in
     if gr_aborted outcome then
       then_do (for_each (appendSkippedToolCall env turn step) remaining) (\<lambda>_. ret concluded')
     else tool_groups env turn step remaining concluded' k))"

definition executeToolCalls :: "loop_env \<Rightarrow> nat \<Rightarrow> nat \<Rightarrow> call_block list \<Rightarrow> bool loop" where
  "executeToolCalls env turn step toolCalls = tool_groups env turn step toolCalls False (length toolCalls)"

end
