(* ===== verification/Agent_Loop.thy ===== *)
theory Agent_Loop
  imports Tool_Scheduler
begin

text \<open>
  The agent driver (packages/core/agent-loop/src/agent.ts): the request of a step, the step with its retries
  and its streamed response, the turn with its loop over steps, the driver over turns, maintenance, and the
  constructor. The loops that need not end take fuel: one unit for each retry, step, turn and driver.
\<close>

section \<open>Reading the session\<close>

definition read_header :: "epoch_header option loop" where
  "read_header = (\<lambda>ag. case requestHeader (ag_session ag) of (s, h) \<Rightarrow> Some (set_session s ag, Inr h))"

definition read_context :: "request_context option loop" where
  "read_context = (\<lambda>ag. case requestContext (ag_session ag) of (s, c) \<Rightarrow> Some (set_session s ag, Inr c))"

definition read_messages :: "message list loop" where
  "read_messages = (\<lambda>ag. case deriveMessages (ag_session ag) of
     Inl e \<Rightarrow> Some (ag, Inl (LoopSession e)) | Inr (s, ms) \<Rightarrow> Some (set_session s ag, Inr ms))"

section \<open>Rendering\<close>

text \<open>\<open>renderPrompt\<close> and \<open>renderContextSections\<close> of packages/core/system-prompt/src/index.ts.\<close>

definition renderPrompt :: "prompt_assembly \<Rightarrow> loop_error + string" where
  "renderPrompt assembly =
     bind_res (map_res id (pa_sections assembly)) (\<lambda>texts.
       Inr (join_with SEPARATOR (filter (\<lambda>t. length t > 0) texts)))"

definition renderContextSections :: "prompt_assembly \<Rightarrow> loop_error + (string \<times> string) list" where
  "renderContextSections assembly =
     bind_res (map_res (\<lambda>(name, r). bind_res r (\<lambda>t. Inr (name, t))) (pa_contexts assembly)) (\<lambda>sections.
       Inr (filter (\<lambda>(name, t). length t > 0) sections))"

section \<open>The request of a step\<close>

definition requestProposal :: "epoch_header \<Rightarrow> call_config" where
  "requestProposal header =
     (case eh_adapterDefaults header of
        None \<Rightarrow> eh_config header
      | Some d \<Rightarrow>
          let proposal = eh_config header;
              proposal = (if ad_reasoningEffort d then proposal\<lparr>cc_reasoningEffort := None\<rparr> else proposal)
          in if ad_maxTokens d then proposal\<lparr>cc_maxTokens := None\<rparr> else proposal)"

text \<open>The configuration of a loop instance that has not logged a header yet.\<close>

definition initialConfig :: "loop_options \<Rightarrow> epoch_header option \<Rightarrow> call_config" where
  "initialConfig options persisted =
     (let provider = case_option [] id (lo_provider options);
          model = case_option [] id (lo_model options);
          reasoningEffort =
            (case persisted of
               None \<Rightarrow> None
             | Some h \<Rightarrow>
                 if cc_provider (eh_config h) = provider \<and> cc_model (eh_config h) = model
                    \<and> \<not> (case eh_adapterDefaults h of None \<Rightarrow> False | Some d \<Rightarrow> ad_reasoningEffort d)
                 then cc_reasoningEffort (eh_config h) else None)
      in \<lparr>cc_provider = provider, cc_model = model, cc_reasoningEffort = reasoningEffort,
          cc_temperature = None, cc_maxTokens = lo_maxTokens options, cc_stop = None\<rparr>)"

definition seedConfig :: "loop_env \<Rightarrow> bool \<Rightarrow> epoch_header option \<Rightarrow> loop_error + call_config" where
  "seedConfig env logged persisted =
     (if logged then
        (case persisted of
           Some h \<Rightarrow> Inr (requestProposal h)
         | None \<Rightarrow> Inl (HostThrew ''TypeError''))
      else Inr (initialConfig (le_options env) persisted))"

definition is_no_adapter :: "loop_error \<Rightarrow> bool" where
  "is_no_adapter e = (case e of LoopLlm f \<Rightarrow> lf_code f = ''NO_ADAPTER'' | _ \<Rightarrow> False)"

definition await_building :: "loop_env \<Rightarrow> unit loop" where
  "await_building env = updates (tick (le_building env))"

definition build_call :: "loop_env \<Rightarrow> (nat \<Rightarrow> loop_error + 'a) \<Rightarrow> 'a loop" where
  "build_call env f = then_do (reads ag_tick) (\<lambda>t. then_do (await_building env) (\<lambda>_. result_of (f t)))"

text \<open>The header of the request, logged when it is the first of the instance or differs from the last.\<close>

definition log_header :: "loop_env \<Rightarrow> epoch_header \<Rightarrow> unit loop" where
  "log_header env header =
     then_do read_header (\<lambda>baseline.
     then_do (reads ag_headerLogged) (\<lambda>logged.
     if \<not> logged then
       then_do (append_event env
         (RequestHeader header (if baseline = None then InitialHeader else ResumeHeader)) no_intent) (\<lambda>_.
       updates (\<lambda>ag. ag\<lparr>ag_headerLogged := True\<rparr>))
     else if (case baseline of None \<Rightarrow> True | Some b \<Rightarrow> \<not> headerEquals b header) then
       then_do (append_event env (RequestHeader header ChangeHeader) no_intent) (\<lambda>_. ret ())
     else ret ()))"

definition log_context :: "loop_env \<Rightarrow> request_context \<Rightarrow> unit loop" where
  "log_context env rc =
     then_do read_context (\<lambda>previous.
     if (case previous of None \<Rightarrow> True
         | Some p \<Rightarrow> rc_provider p \<noteq> rc_provider rc \<or> rc_model p \<noteq> rc_model rc
             \<or> rc_contextWindow p \<noteq> rc_contextWindow rc)
     then then_do (append_event env (RequestContext rc) no_intent) (\<lambda>_. ret ())
     else ret ())"

definition request_of :: "epoch_header \<Rightarrow> message list \<Rightarrow> generate_options" where
  "request_of header messages =
     \<lparr>go_config = eh_config header, go_messages = messages, go_system = eh_system header, go_tools = eh_tools header\<rparr>"

definition buildRequest ::
    "loop_env \<Rightarrow> tool_schema list \<Rightarrow> string \<Rightarrow> message list \<Rightarrow> generate_options loop" where
  "buildRequest env tools system boundaryMessages =
     then_do read_header (\<lambda>persisted.
     then_do (reads ag_headerLogged) (\<lambda>logged.
     then_do (result_of (seedConfig env logged persisted)) (\<lambda>seed.
     then_do (build_call env (\<lambda>t. le_request env t seed)) (\<lambda>proposed.
     then_do loop_throwIfAborted (\<lambda>_.
     if cc_provider proposed = [] \<or> cc_model proposed = [] then raise NoProviderModel
     else
       then_do (try_prog (build_call env (\<lambda>t. le_prepareCall env t proposed))) (\<lambda>r.
       then_do (case r of
           Inr p \<Rightarrow> ret (pc_config p, Some p)
         | Inl e \<Rightarrow> if is_no_adapter e then ret (proposed, None) else raise e) (\<lambda>(config, prepared).
       then_do loop_throwIfAborted (\<lambda>_.
       let header = canonicalHeader
         \<lparr>eh_config = config, eh_adapterDefaults = map_option pc_adapterDefaults prepared,
          eh_system = (if system \<noteq> [] then Some system else None),
          eh_tools = (if length tools > 0 then Some tools else None)\<rparr> in
       then_do (log_header env header) (\<lambda>_.
       then_do (log_context env
         \<lparr>rc_provider = cc_provider config, rc_model = cc_model config,
          rc_contextWindow = (case prepared of None \<Rightarrow> None | Some p \<Rightarrow> pc_contextWindow p)\<rparr>) (\<lambda>_.
       then_do loop_throwIfAborted (\<lambda>_.
       ret (request_of header boundaryMessages))))))))))))"

section \<open>Receiving a response\<close>

text \<open>
  The \<open>for await\<close> over the stream. The result has the assembler, the sequences of the chunks and the error
  that ended the loop, since the handler reads all three; leaving the loop closes the iterator.
\<close>

fun receive_chunks ::
    "loop_env \<Rightarrow> nat \<Rightarrow> nat \<Rightarrow> block_assembler \<Rightarrow> nat list \<Rightarrow> stream_chunk list \<Rightarrow> loop_error option
     \<Rightarrow> (block_assembler \<times> nat list \<times> loop_error option) loop" where
  "receive_chunks env turn step a seqs [] failure = then_do (await_host env) (\<lambda>_. ret (a, seqs, failure))"
| "receive_chunks env turn step a seqs (c # cs) failure =
     then_do (await_host env) (\<lambda>_.
     then_do (try_prog (then_do loop_throwIfAborted (\<lambda>_.
       append_event env (AssistantChunk turn step c) no_intent))) (\<lambda>r.
     case r of
       Inl e \<Rightarrow> then_do (await_host env) (\<lambda>_. ret (a, seqs, Some e))
     | Inr ev \<Rightarrow> receive_chunks env turn step (assembler_push a c) (seqs @ [ev_seq ev]) cs failure))"

text \<open>The request is handed to the model's stream; the record of requests takes note.\<close>

definition note_request :: "generate_options \<Rightarrow> unit loop" where
  "note_request request = updates (\<lambda>ag. ag\<lparr>ag_requests := ag_requests ag @ [(length (ag_log ag), request)]\<rparr>)"

definition receive ::
    "loop_env \<Rightarrow> nat \<Rightarrow> nat \<Rightarrow> generate_options \<Rightarrow> (block_assembler \<times> nat list \<times> loop_error option) loop" where
  "receive env turn step request =
     then_do (note_request request) (\<lambda>_.
     then_do (reads ag_tick) (\<lambda>t.
     case le_stream env t request of
       Inl e \<Rightarrow> ret (newAssembler, [], Some e)
     | Inr (chunks, failure) \<Rightarrow>
         then_do (try_prog loop_throwIfAborted) (\<lambda>r.
         case r of
           Inl e \<Rightarrow> ret (newAssembler, [], Some e)
         | Inr _ \<Rightarrow>
             then_do (receive_chunks env turn step newAssembler [] chunks failure) (\<lambda>(a, seqs, failure').
             case failure' of
               Some e \<Rightarrow> ret (a, seqs, Some e)
             | None \<Rightarrow>
                 then_do (try_prog loop_throwIfAborted) (\<lambda>r'.
                 ret (a, seqs, case r' of Inl e \<Rightarrow> Some e | Inr _ \<Rightarrow> None))))))"

text \<open>The replay state as the message source stores it.\<close>

definition replay_json :: "replay_envelope \<Rightarrow> json" where
  "replay_json e = JObj ([(''response'', re_response e)] @ opt_field ''blocks'' JArr (re_blocks e))"

definition createAssistantMessage ::
    "string \<Rightarrow> content_block list \<Rightarrow> generate_options \<Rightarrow> replay_envelope option \<Rightarrow> message" where
  "createAssistantMessage uuid content request replayState =
     \<lparr>m_id = uuid, m_role = AssistantRole, m_content = content,
      m_source = ModelSource (cc_provider (go_config request)) (cc_model (go_config request))
                   (map_option replay_json replayState)\<rparr>"

definition append_assistant ::
    "loop_env \<Rightarrow> nat \<Rightarrow> nat \<Rightarrow> generate_options \<Rightarrow> content_block list \<Rightarrow> replay_envelope option
     \<Rightarrow> token_usage option \<Rightarrow> bool \<Rightarrow> nat list \<Rightarrow> unit loop" where
  "append_assistant env turn step request content replayState usage interrupted seqs =
     then_do (reads (\<lambda>ag. le_uuid env (length (ag_log ag)))) (\<lambda>uuid.
     then_do (append_event env
       (AssistantMessage turn step (createAssistantMessage uuid content request replayState) usage interrupted)
       (appending (Some seqs))) (\<lambda>_. ret ()))"

text \<open>The \<open>catch\<close> of the stream: what an aborted response has said is kept.\<close>

definition keep_interrupted ::
    "loop_env \<Rightarrow> nat \<Rightarrow> nat \<Rightarrow> generate_options \<Rightarrow> block_assembler \<Rightarrow> nat list \<Rightarrow> unit loop" where
  "keep_interrupted env turn step request a seqs =
     then_do (reads (\<lambda>ag. phase_abort (ag_phase ag))) (\<lambda>aborted.
     if aborted = None then ret ()
     else
       then_do (result_of (map_error LoopAssembler (interruptedBlocks a))) (\<lambda>content.
       if content = [] then ret ()
       else append_assistant env turn step request content None (ba_usage a) True seqs))"

section \<open>A step\<close>

fun call_of :: "content_block \<Rightarrow> call_block option" where
  "call_of (ToolCallBlock i n a) = Some (i, n, a)"
| "call_of _ = None"

fun finish_failure :: "finish_reason \<Rightarrow> llm_failure option" where
  "finish_failure (FinishError f) = Some f"
| "finish_failure (FinishAborted f) = Some f"
| "finish_failure _ = None"

text \<open>
  A response that did not fail becomes a message and its calls are run. A step ends the turn as completed or at
  the token ceiling, or leaves it open (\<open>None\<close>).
\<close>

definition answer_step ::
    "loop_env \<Rightarrow> nat \<Rightarrow> nat \<Rightarrow> generate_options \<Rightarrow> block_assembler \<Rightarrow> nat list \<Rightarrow> turn_end_reason option loop" where
  "answer_step env turn step request a seqs =
     then_do (result_of (map_error LoopAssembler (assembled a))) (\<lambda>(content, replayState).
     then_do (append_assistant env turn step request content replayState (ba_usage a) False seqs) (\<lambda>_.
     if assembler_finish a = FinishMaxTokens then ret (Some MaxTokens)
     else let toolCalls = List.map_filter call_of content in
       if toolCalls = [] then ret (Some Completed)
       else
         then_do (awaited (await_host env) (executeToolCalls env turn step toolCalls)) (\<lambda>concluded.
         ret (if concluded then Some Completed else None))))"

text \<open>The recursion is the loop over failed responses that a listener retries.\<close>

fun step_loop ::
    "loop_env \<Rightarrow> nat \<Rightarrow> nat \<Rightarrow> tool_schema list \<Rightarrow> string \<Rightarrow> nat \<Rightarrow> turn_end_reason option loop" where
  "step_loop env turn step tools system 0 = unfinished"
| "step_loop env turn step tools system (Suc fuel) =
     then_do read_messages (\<lambda>boundaryMessages.
     then_do (awaited (await_building env) (buildRequest env tools system boundaryMessages)) (\<lambda>request.
     then_do (receive env turn step request) (\<lambda>(a, seqs, failure).
     case failure of
       Some e \<Rightarrow> then_do (keep_interrupted env turn step request a seqs) (\<lambda>_. raise e)
     | None \<Rightarrow>
         (case finish_failure (assembler_finish a) of
            Some f \<Rightarrow>
              then_do (await_call env (\<lambda>t. le_requestError env t f)) (\<lambda>retry.
              then_do loop_throwIfAborted (\<lambda>_.
              if \<not> retry then raise (LoopLlm f) else step_loop env turn step tools system fuel))
          | None \<Rightarrow>
              answer_step env turn step request a seqs))))"

definition loop_step :: "loop_env \<Rightarrow> nat \<Rightarrow> prompt_assembly \<Rightarrow> turn_end_reason option loop" where
  "loop_step env fuel assembly =
     then_do (reads ag_phase) (\<lambda>phase.
     case phase of
       Running _ turn step _ \<Rightarrow>
         then_do loop_throwIfAborted (\<lambda>_.
         then_do (result_of (renderPrompt assembly)) (\<lambda>system.
         step_loop env turn step (pa_tools assembly) system fuel))
     | _ \<Rightarrow> raise (OutsideRunning ''step''))"

section \<open>A turn\<close>

definition claim_messages :: "loop_env \<Rightarrow> inbox_target \<Rightarrow> nat \<Rightarrow> message list loop" where
  "claim_messages env target turn = (\<lambda>ag.
     case inbox_claim (le_clock env (length (ag_log ag))) (ag_inbox ag) target turn of
       Inl e \<Rightarrow> Some (ag, Inl (LoopInbox e))
     | Inr (ix, ms) \<Rightarrow> Some (ag\<lparr>ag_inbox := ix\<rparr>, Inr ms))"

definition preStep ::
    "loop_env \<Rightarrow> inbox_target \<Rightarrow> nat \<Rightarrow> (pre_step_decision \<times> prompt_assembly) loop" where
  "preStep env target turn =
     then_do (reads ag_phase) (\<lambda>phase.
     if \<not> phase_running phase then raise (OutsideRunning ''pre-step'')
     else
       then_do (claim_messages env target turn) (\<lambda>claimed.
       then_do (await_call env (le_assemble env)) (\<lambda>assembly.
       then_do loop_throwIfAborted (\<lambda>_.
       then_do (result_of (renderContextSections assembly)) (\<lambda>sections.
       then_do (reads (\<lambda>ag. context_project (le_uuid env (length (ag_log ag))) (ag_retained ag)
                              (joinContextSections sections) sections)) (\<lambda>context_message.
       then_do (await_call env (\<lambda>t. le_preStep env t claimed
           (EnterStep (case context_message of None \<Rightarrow> claimed | Some m \<Rightarrow> claimed @ [m])))) (\<lambda>decision.
       then_do loop_throwIfAborted (\<lambda>_.
       ret (decision, assembly)))))))))"

text \<open>The messages of an entered step, its run, and the end that is appended whatever happens.\<close>

definition run_step ::
    "loop_env \<Rightarrow> nat \<Rightarrow> nat \<Rightarrow> nat \<Rightarrow> message list \<Rightarrow> prompt_assembly \<Rightarrow> turn_end_reason option loop" where
  "run_step env fuel turn step messages assembly =
     then_do (append_event env (StepStart turn step) no_intent) (\<lambda>_.
     then_do (updates (over_phase (set_step step))) (\<lambda>_.
     finally_do
       (then_do (for_each (\<lambda>m. then_do (append_event env (UserMessage m) (appending None)) (\<lambda>_. ret ())) messages) (\<lambda>_.
        awaited (await_host env) (loop_step env fuel assembly)))
       (then_do (append_event env (StepEnd turn step) no_intent) (\<lambda>_. ret ()))))"

text \<open>The next steps of the turn have been asked for: \<open>inbox.nextStep\<close> is not empty.\<close>

abbreviation ag_steered :: "agent \<Rightarrow> bool" where
  "ag_steered ag \<equiv> length (ib_nextStep (ix_state (ag_inbox ag))) \<noteq> 0"

text \<open>
  A pass of the loop over steps, with the end found so far. It stops with how the turn ends and whether the
  driver goes on to look for another (\<open>break\<close>) or not (\<open>return false\<close>), or goes on with the end found so far.
\<close>

definition later_end :: "turn_end_reason option \<Rightarrow> turn_end_reason option \<Rightarrow> turn_end_reason option" where
  "later_end turnEnds stepEnd = (if turnEnds \<noteq> Some MaxTokens then stepEnd else turnEnds)"

definition after_step ::
    "loop_env \<Rightarrow> turn_end_reason option \<Rightarrow> ((turn_end_reason \<times> bool) + turn_end_reason option) loop" where
  "after_step env turnEnds =
     then_do loop_throwIfAborted (\<lambda>_.
     then_do (reads ag_steered) (\<lambda>steered.
     then_do (if turnEnds \<noteq> None \<and> \<not> steered
              then then_do (await_call env (le_turnStopping env)) (\<lambda>_. loop_throwIfAborted) else ret ()) (\<lambda>_.
     then_do (reads ag_steered) (\<lambda>steered'.
     if turnEnds \<noteq> None \<and> \<not> steered' then ret (Inl (the turnEnds, True)) else ret (Inr turnEnds)))))"

definition step_round ::
    "loop_env \<Rightarrow> nat \<Rightarrow> nat \<Rightarrow> turn_end_reason option \<Rightarrow> inbox_target
     \<Rightarrow> ((turn_end_reason \<times> bool) + turn_end_reason option) loop" where
  "step_round env fuel turn turnEnds target =
     then_do loop_throwIfAborted (\<lambda>_.
     then_do (reads (\<lambda>ag. Suc (phase_step (ag_phase ag)))) (\<lambda>step.
     then_do (awaited (await_host env) (preStep env target turn)) (\<lambda>(decision, assembly).
     case decision of
       RejectStep \<Rightarrow> ret (Inl (Blocked, False))
     | EnterStep messages \<Rightarrow>
         if turnEnds \<noteq> None \<and> length messages = 0 then ret (Inl (the turnEnds, True))
         else if step = 1 \<and> length messages = 0 then ret (Inl (Completed, False))
         else
           then_do loop_throwIfAborted (\<lambda>_.
           then_do (run_step env fuel turn step messages assembly) (\<lambda>stepEnd.
           after_step env (later_end turnEnds stepEnd))))))"

fun turn_steps ::
    "loop_env \<Rightarrow> nat \<Rightarrow> nat \<Rightarrow> turn_end_reason option \<Rightarrow> inbox_target \<Rightarrow> nat \<Rightarrow> (turn_end_reason \<times> bool) loop" where
  "turn_steps env fuel turn turnEnds target 0 = unfinished"
| "turn_steps env fuel turn turnEnds target (Suc k) =
     then_do (step_round env fuel turn turnEnds target) (\<lambda>r.
     case r of Inl ended \<Rightarrow> ret ended | Inr turnEnds' \<Rightarrow> turn_steps env fuel turn turnEnds' NextStep k)"

text \<open>\<open>throwError\<close> reports the error; its callers rethrow it.\<close>

definition throwError :: "loop_error \<Rightarrow> 'a loop" where
  "throwError e =
     then_do (updates (\<lambda>ag. ag\<lparr>ag_notes := ag_notes ag @
       [ErrorNote (phase_turn (ag_phase ag)) (phase_step (ag_phase ag)) e]\<rparr>)) (\<lambda>_. raise e)"

definition reporting :: "'a loop \<Rightarrow> 'a loop" where
  "reporting m = then_do (try_prog m) (\<lambda>r. case r of Inl e \<Rightarrow> throwError e | Inr a \<Rightarrow> ret a)"

definition turn_failure :: "loop_env \<Rightarrow> loop_error \<Rightarrow> llm_failure" where
  "turn_failure env e =
     (case e of
        LoopLlm f \<Rightarrow> f
      | _ \<Rightarrow> \<lparr>lf_message = le_errorChain env e, lf_code = ''UNKNOWN'', lf_status = None,
              lf_providerRetryAfterMs = None, lf_requestId = None\<rparr>)"

definition end_turn :: "loop_env \<Rightarrow> nat \<Rightarrow> turn_end_reason \<Rightarrow> unit loop" where
  "end_turn env turn reason =
     then_do (reporting (append_event env (TurnEnd turn reason) no_intent)) (\<lambda>_. ret ())"

text \<open>
  \<open>turn()\<close>. The handler of a failed turn throws again in both its branches, and the \<open>finally\<close> appends the end it
  chose before that error goes on.
\<close>

definition loop_turn :: "loop_env \<Rightarrow> nat \<Rightarrow> bool loop" where
  "loop_turn env fuel =
     then_do (reads ag_phase) (\<lambda>phase.
     if \<not> phase_running phase then throwError NoReservation
     else
       then_do loop_throwIfAborted (\<lambda>_.
       let turn = Suc (phase_turn phase) in
       then_do (reporting (append_event env (TurnStart turn) no_intent)) (\<lambda>_.
       then_do (updates (over_phase (set_turn turn))) (\<lambda>_.
       then_do (try_prog (turn_steps env fuel turn None NextTurn fuel)) (\<lambda>r.
       case r of
         Inl e \<Rightarrow>
           then_do (reads (\<lambda>ag. phase_abort (ag_phase ag))) (\<lambda>aborted.
           case aborted of
             Some c \<Rightarrow> then_do (end_turn env turn (Aborted c)) (\<lambda>_. raise e)
           | None \<Rightarrow>
               finally_do (throwError e) (end_turn env turn (TurnError (turn_failure env e))))
       | Inr (reason, goes_on) \<Rightarrow>
           then_do (end_turn env turn reason) (\<lambda>_.
           if \<not> goes_on then ret False
           else
             then_do (reads ag_pending) (\<lambda>pending.
             if \<not> pending then ret False
             else
               then_do (updates (over_phase (\<lambda>p. Running None (phase_turn p) 0 False))) (\<lambda>_.
               ret True))))))))"

section \<open>The driver\<close>

definition await_resting :: "loop_env \<Rightarrow> unit loop" where
  "await_resting env = updates (tick (le_resting env))"

text \<open>\<open>while (await this.turn()) {}\<close>.\<close>

fun kick_turns :: "loop_env \<Rightarrow> nat \<Rightarrow> nat \<Rightarrow> unit loop" where
  "kick_turns env fuel 0 = unfinished"
| "kick_turns env fuel (Suc k) =
     then_do (awaited (await_resting env) (loop_turn env fuel)) (\<lambda>again.
     if again then kick_turns env fuel k else ret ())"

text \<open>
  \<open>kick()\<close> with the driver it may start in turn: errors are contained, the phase goes idle, and a latched wake
  with something pending starts again.
\<close>

fun kick :: "loop_env \<Rightarrow> nat \<Rightarrow> nat \<Rightarrow> agent \<Rightarrow> agent option" where
  "kick env fuel 0 ag = None"
| "kick env fuel (Suc k) ag =
     (case kick_turns env fuel fuel ag of
        None \<Rightarrow> None
      | Some (ag1, _) \<Rightarrow>
          (case ag_phase ag1 of
             Running _ turn _ wakeRequested \<Rightarrow>
               let ag2 = setPhase (Idle turn) ag1 in
               if wakeRequested \<and> ag_pending ag2
               then (case wakeDriver False ag2 of (ag3, start) \<Rightarrow> if start then kick env fuel k ag3 else Some ag3)
               else Some ag2
           | _ \<Rightarrow> Some ag1))"

text \<open>What a caller's wake leads to.\<close>

definition after_wake :: "loop_env \<Rightarrow> nat \<Rightarrow> agent \<times> bool \<Rightarrow> agent option" where
  "after_wake env fuel started = (if snd started then kick env fuel fuel (fst started) else Some (fst started))"

text \<open>\<open>runMaintenance\<close> of a job that suspends the given number of times.\<close>

fun suspend_resting :: "loop_env \<Rightarrow> nat \<Rightarrow> agent \<Rightarrow> agent" where
  "suspend_resting env 0 ag = ag"
| "suspend_resting env (Suc n) ag = suspend_resting env n (tick (le_resting env) ag)"

definition runMaintenance :: "loop_env \<Rightarrow> nat \<Rightarrow> nat \<Rightarrow> agent \<Rightarrow> loop_error + agent option" where
  "runMaintenance env fuel suspensions ag =
     (case ag_phase ag of
        Idle n \<Rightarrow>
          let ag1 = suspend_resting env suspensions (setPhase (Maintenance None n False) ag);
              wakeRequested = phase_wake (ag_phase ag1);
              ag2 = setPhase (Idle n) ag1
          in Inr (if wakeRequested \<and> ag_pending ag2 then after_wake env fuel (wakeDriver False ag2) else Some ag2)
      | _ \<Rightarrow> Inl ActiveWork)"

section \<open>The constructor and the calls of its owner\<close>

definition lastTurn :: "session_event list \<Rightarrow> nat" where
  "lastTurn evs =
     (case find_last (\<lambda>e. is_turn_start (ev_data e)) evs of
        None \<Rightarrow> 0 | Some e \<Rightarrow> (case ev_data e of TurnStart n \<Rightarrow> n | _ \<Rightarrow> 0))"

definition newAgent :: "session \<Rightarrow> loop_error + agent" where
  "newAgent s =
     bind_res (map_error LoopInbox (newInbox s)) (\<lambda>st.
     bind_res (map_error LoopSession (session_surface s)) (\<lambda>(s', surface).
       Inr \<lparr>ag_inbox = \<lparr>ix_session = s', ix_state = st, ix_notes = []\<rparr>, ag_phase = Idle (lastTurn (s_log s)),
            ag_headerLogged = False,
            ag_retained = context_scan (set (sf_nodes surface)) (rev (s_log s)) NeverRetained,
            ag_notes = [], ag_requests = [], ag_tick = 0\<rparr>))"

datatype agent_command =
    CommandSend message inbox_target bool
  | CommandCancel cancel_cause bool
  | CommandMaintenance nat
  | CommandOutside outside_op  \<comment> \<open>any other code, between activities\<close>

text \<open>
  A command given to an idle agent, run until the agent is idle again; one that throws leaves the agent as it
  was.
\<close>

fun agent_do :: "loop_env \<Rightarrow> nat \<Rightarrow> agent_command \<Rightarrow> agent \<Rightarrow> agent option" where
  "agent_do env fuel (CommandSend m target wakeup) ag =
     (case agent_send (le_clock env (length (ag_log ag))) m target wakeup ag of
        Inl _ \<Rightarrow> Some ag | Inr started \<Rightarrow> after_wake env fuel started)"
| "agent_do env fuel (CommandCancel cause keepInbox) ag =
     (case agent_cancel (le_clock env (length (ag_log ag))) cause keepInbox ag of
        Inl _ \<Rightarrow> Some ag | Inr ag' \<Rightarrow> Some ag')"
| "agent_do env fuel (CommandMaintenance n) ag =
     (case runMaintenance env fuel n ag of Inl _ \<Rightarrow> Some ag | Inr r \<Rightarrow> r)"
| "agent_do env fuel (CommandOutside op) ag =
     (case op of OutSend _ _ _ True \<Rightarrow> Some ag | _ \<Rightarrow> Some (outside_do ag op))"

fun agent_run :: "loop_env \<Rightarrow> nat \<Rightarrow> agent_command list \<Rightarrow> agent \<Rightarrow> agent option" where
  "agent_run env fuel [] ag = Some ag"
| "agent_run env fuel (c # cs) ag =
     (case agent_do env fuel c ag of None \<Rightarrow> None | Some ag' \<Rightarrow> agent_run env fuel cs ag')"

end
