(* ===== verification/Loop_Logic.thy ===== *)
theory Loop_Logic
  imports Agent_Loop
begin

text \<open>
  A program logic for the loop: a triple says what holds after a program returns and after it throws, and, when
  its flag is set, that it finishes. The rules follow the combinators, and the lemmas for the seams (appends,
  inbox operations, suspensions) say where each leaves the session's trace.
\<close>

section \<open>Triples\<close>

text \<open>\<open>wp\<close> is the weakest precondition; with \<open>ends\<close> it includes that the program finishes.\<close>

definition wp ::
    "bool \<Rightarrow> ('s, 'e, 'a) prog \<Rightarrow> ('a \<Rightarrow> 's \<Rightarrow> bool) \<Rightarrow> ('e \<Rightarrow> 's \<Rightarrow> bool) \<Rightarrow> 's \<Rightarrow> bool" where
  "wp ends m Q E s \<longleftrightarrow>
     (case m s of None \<Rightarrow> \<not> ends | Some (s', Inl e) \<Rightarrow> E e s' | Some (s', Inr a) \<Rightarrow> Q a s')"

definition triple ::
    "bool \<Rightarrow> ('s \<Rightarrow> bool) \<Rightarrow> ('s, 'e, 'a) prog \<Rightarrow> ('a \<Rightarrow> 's \<Rightarrow> bool) \<Rightarrow> ('e \<Rightarrow> 's \<Rightarrow> bool) \<Rightarrow> bool" where
  "triple ends P m Q E \<longleftrightarrow> (\<forall>s. P s \<longrightarrow> wp ends m Q E s)"

lemma wp_ret: "wp ends (ret a) Q E = Q a"
  by (rule ext) (simp add: wp_def ret_def)

lemma wp_raise: "wp ends (raise e) Q E = E e"
  by (rule ext) (simp add: wp_def raise_def)

lemma wp_unfinished: "wp ends unfinished Q E = (\<lambda>s. \<not> ends)"
  by (rule ext) (simp add: wp_def unfinished_def)

lemma wp_reads: "wp ends (reads f) Q E = (\<lambda>s. Q (f s) s)"
  by (rule ext) (simp add: wp_def reads_def)

lemma wp_updates: "wp ends (updates g) Q E = (\<lambda>s. Q () (g s))"
  by (rule ext) (simp add: wp_def updates_def)

lemma wp_result: "wp ends (result_of r) Q E = (case r of Inl e \<Rightarrow> E e | Inr a \<Rightarrow> Q a)"
  by (rule ext) (simp add: wp_def result_of_def split: sum.split)

lemmas wp_simps = wp_ret wp_raise wp_unfinished wp_reads wp_updates wp_result

lemma wp_then: "wp ends (then_do m k) Q E = wp ends m (\<lambda>a. wp ends (k a) Q E) E"
  by (rule ext) (simp add: wp_def then_do_def split: option.split sum.split prod.split)

lemma wp_try: "wp ends (try_prog m) Q E = wp ends m (\<lambda>a. Q (Inr a)) (\<lambda>e. Q (Inl e))"
  by (rule ext) (simp add: wp_def try_prog_def split: option.split sum.split prod.split)

lemma wp_mono:
  "wp ends m Q E s \<Longrightarrow> (\<And>a s. Q a s \<Longrightarrow> Q' a s) \<Longrightarrow> (\<And>e s. E e s \<Longrightarrow> E' e s) \<Longrightarrow> wp ends m Q' E' s"
  by (auto simp: wp_def split: option.splits sum.splits)

lemma wp_awaited:
  "wp ends (awaited w m) Q E =
     wp ends m (\<lambda>a. wp ends w (\<lambda>_. Q a) E) (\<lambda>e. wp ends w (\<lambda>_. E e) E)"
  by (simp add: awaited_def wp_then wp_try wp_simps)

lemma wp_finally:
  "wp ends (finally_do m c) Q E =
     wp ends m (\<lambda>a. wp ends c (\<lambda>_. Q a) E) (\<lambda>e. wp ends c (\<lambda>_. E e) E)"
  by (simp add: finally_do_def wp_then wp_try wp_simps result_of_def [symmetric])

lemma tripleI: "(\<And>s. P s \<Longrightarrow> wp ends m Q E s) \<Longrightarrow> triple ends P m Q E"
  by (simp add: triple_def)

lemma triple_wp: "triple ends P m Q E \<Longrightarrow> P s \<Longrightarrow> wp ends m Q E s"
  by (simp add: triple_def)

lemma tripleD:
  assumes "triple ends P m Q E" and "P s" and "m s = Some (s', r)"
  shows "case r of Inl e \<Rightarrow> E e s' | Inr a \<Rightarrow> Q a s'"
  using triple_wp [OF assms(1, 2)] assms(3) by (simp add: wp_def)

lemma triple_returns: "triple True P m Q E \<Longrightarrow> P s \<Longrightarrow> m s \<noteq> None"
  using triple_wp [of True P m Q E s] by (cases "m s") (simp_all add: wp_def)

lemma triple_conseq:
  assumes "triple ends P m Q E" and "\<And>s. P' s \<Longrightarrow> P s"
    and "\<And>a s. Q a s \<Longrightarrow> Q' a s" and "\<And>e s. E e s \<Longrightarrow> E' e s"
  shows "triple ends P' m Q' E'"
  unfolding triple_def using wp_mono [OF triple_wp [OF assms(1) assms(2)]] assms(3, 4) by blast

lemma triple_pre: "triple ends P m Q E \<Longrightarrow> (\<And>s. P' s \<Longrightarrow> P s) \<Longrightarrow> triple ends P' m Q E"
  by (rule triple_conseq)

lemma triple_post:
  "triple ends P m Q E \<Longrightarrow> (\<And>a s. Q a s \<Longrightarrow> Q' a s) \<Longrightarrow> (\<And>e s. E e s \<Longrightarrow> E' e s) \<Longrightarrow> triple ends P m Q' E'"
  by (rule triple_conseq)

text \<open>A fact about the state before, and facts that do not depend on it.\<close>

lemma triple_ex: "(\<And>x. triple ends (P x) m Q E) \<Longrightarrow> triple ends (\<lambda>s. \<exists>x. P x s) m Q E"
  unfolding triple_def by blast

lemma triple_if_pure: "(b \<Longrightarrow> triple ends P m Q E) \<Longrightarrow> triple ends (\<lambda>s. b \<and> P s) m Q E"
  unfolding triple_def by blast

lemma triple_ret: "(\<And>s. P s \<Longrightarrow> Q a s) \<Longrightarrow> triple ends P (ret a) Q E"
  by (simp add: triple_def wp_simps)

lemma triple_raise: "(\<And>s. P s \<Longrightarrow> E e s) \<Longrightarrow> triple ends P (raise e) Q E"
  by (simp add: triple_def wp_simps)

lemma triple_reads: "(\<And>s. P s \<Longrightarrow> Q (f s) s) \<Longrightarrow> triple ends P (reads f) Q E"
  by (simp add: triple_def wp_simps)

lemma triple_updates: "(\<And>s. P s \<Longrightarrow> Q () (f s)) \<Longrightarrow> triple ends P (updates f) Q E"
  by (simp add: triple_def wp_simps)

lemma triple_result:
  "(\<And>s a. P s \<Longrightarrow> r = Inr a \<Longrightarrow> Q a s) \<Longrightarrow> (\<And>s e. P s \<Longrightarrow> r = Inl e \<Longrightarrow> E e s) \<Longrightarrow> triple ends P (result_of r) Q E"
  by (cases r) (simp_all add: triple_def wp_simps)

lemma triple_then:
  assumes "triple ends P m R E" and "\<And>a. triple ends (R a) (k a) Q E"
  shows "triple ends P (then_do m k) Q E"
  using assms by (auto simp: triple_def wp_then elim!: wp_mono)

lemma then_do_assoc: "then_do (then_do m k) l = then_do m (\<lambda>a. then_do (k a) l)"
  by (rule ext) (simp add: then_do_def split: option.split sum.split prod.split)

text \<open>Reading first gives the value its meaning.\<close>

lemma triple_then_reads:
  assumes "\<And>a. triple ends (\<lambda>s. P s \<and> f s = a) (k a) Q E"
  shows "triple ends P (then_do (reads f) k) Q E"
  using assms unfolding triple_def wp_then wp_simps by blast

lemma triple_then_result:
  assumes "\<And>a. r = Inr a \<Longrightarrow> triple ends P (k a) Q E" and "\<And>e s. r = Inl e \<Longrightarrow> P s \<Longrightarrow> E e s"
  shows "triple ends P (then_do (result_of r) k) Q E"
  using assms unfolding triple_def wp_then wp_simps by (cases r) simp_all

lemma triple_try:
  assumes "triple ends P m (\<lambda>a. R (Inr a)) (\<lambda>e. R (Inl e))"
  shows "triple ends P (try_prog m) R E"
  using assms unfolding triple_def wp_try by blast

lemma triple_awaited:
  assumes "triple ends P m R F" and "\<And>a. triple ends (R a) w (\<lambda>_. Q a) E" and "\<And>e. triple ends (F e) w (\<lambda>_. E e) E"
  shows "triple ends P (awaited w m) Q E"
  using assms by (auto simp: triple_def wp_awaited elim!: wp_mono)

lemma triple_finally:
  assumes "triple ends P m R F" and "\<And>a. triple ends (R a) c (\<lambda>_. Q a) E" and "\<And>e. triple ends (F e) c (\<lambda>_. E e) E"
  shows "triple ends P (finally_do m c) Q E"
  using assms by (auto simp: triple_def wp_finally elim!: wp_mono)

lemma triple_for_each:
  assumes "\<And>x ys. triple ends (P (x # ys)) (f x) (\<lambda>_. P ys) E"
  shows "triple ends (P xs) (for_each f xs) (\<lambda>_. P []) E"
proof (induction xs)
  case Nil
  then show ?case by (simp add: triple_ret)
next
  case (Cons x xs)
  then show ?case by (simp add: triple_then [OF assms])
qed

section \<open>Where the log stands\<close>

text \<open>
  The cursor of a log: the open turn and step, the next numbers, the unanswered calls, and the ids of the
  calls and of the results committed in the step, in the order of the log.
\<close>

record cursor =
  cu_turn :: "nat option"
  cu_step :: "nat option"
  cu_nextTurn :: nat
  cu_nextStep :: nat
  cu_pending :: "string set"
  cu_calls :: "string list"
  cu_results :: "string list"

text \<open>The calls and results of the last step of a log.\<close>

definition traffic_event :: "string list \<times> string list \<Rightarrow> session_event \<Rightarrow> string list \<times> string list" where
  "traffic_event tr ev =
     (case ev_data ev of
        StepStart _ _ \<Rightarrow> ([], [])
      | ToolCall _ _ i _ _ \<Rightarrow> (fst tr @ [i], snd tr)
      | ToolResult d \<Rightarrow>
          if ev_surfaceOp ev = Some (JStr ''append'')
          then (fst tr, snd tr @ (case source_callId (m_source (tr_message d)) of None \<Rightarrow> [] | Some c \<Rightarrow> [c]))
          else tr
      | _ \<Rightarrow> tr)"

definition step_traffic :: "session_event list \<Rightarrow> string list \<times> string list" where
  "step_traffic evs = foldl traffic_event ([], []) evs"

definition cursor_of :: "session_trace \<Rightarrow> string list \<times> string list \<Rightarrow> cursor" where
  "cursor_of t tr =
     \<lparr>cu_turn = st_openTurn t, cu_step = st_openStep t, cu_nextTurn = st_nextTurn t, cu_nextStep = st_nextStep t,
      cu_pending = st_pendingCalls t, cu_calls = fst tr, cu_results = snd tr\<rparr>"

definition placed :: "cursor \<Rightarrow> inbox \<Rightarrow> bool" where
  "placed c ix \<longleftrightarrow>
     inbox_synced ix
     \<and> (\<exists>t. seedTrace (s_log (ix_session ix)) = Inr t \<and> st_lastSeq t < int (length (s_log (ix_session ix)))
            \<and> cursor_of t (step_traffic (s_log (ix_session ix))) = c)"

lemma step_traffic_snoc: "step_traffic (evs @ [ev]) = traffic_event (step_traffic evs) ev"
  by (simp add: step_traffic_def)

lemma seedTrace_snoc: "seedTrace (evs @ [ev]) = bind_res (seedTrace evs) (\<lambda>t. trace_event t ev)"
  by (simp add: seedTrace_replay trace.replay_snoc)

text \<open>What an event with given data and surface operation does to a cursor.\<close>

definition moves :: "cursor \<Rightarrow> event_data \<Rightarrow> json option \<Rightarrow> cursor \<Rightarrow> bool" where
  "moves c d op c' \<longleftrightarrow>
     (\<forall>t tr ev. cursor_of t tr = c \<longrightarrow> st_lastSeq t < int (ev_seq ev) \<longrightarrow> ev_data ev = d \<longrightarrow> ev_surfaceOp ev = op \<longrightarrow>
        (\<exists>t'. trace_event t ev = Inr t' \<and> cursor_of t' (traffic_event tr ev) = c'))"

lemma placed_session: "placed c ix \<Longrightarrow> session_ok (ix_session ix)"
  by (simp add: placed_def inbox_synced_iff)

text \<open>An event that is no splice leaves the inbox; a splice moves it to where the replay is.\<close>

lemma placed_append:
  assumes p: "placed c ix" and a: "session_append (ix_session ix) now d opts = Inr (s', ev)"
    and m: "moves c d (si_surfaceOp opts) c'"
    and ev: "\<And>e. ev_data e = d \<Longrightarrow> inbox_event (ix_state ix) e = Inr st'"
  shows "placed c' (ix\<lparr>ix_session := s', ix_state := st'\<rparr>)"
proof -
  from p obtain t where sync: "inbox_synced ix" and t: "seedTrace (s_log (ix_session ix)) = Inr t"
    "st_lastSeq t < int (length (s_log (ix_session ix)))" "cursor_of t (step_traffic (s_log (ix_session ix))) = c"
    by (auto simp: placed_def)
  from session_append_ok [OF placed_session [OF p] a] have s': "session_ok s'"
    "s_log s' = s_log (ix_session ix) @ [ev]" "ev_seq ev = length (s_log (ix_session ix))" "ev_data ev = d" .
  have "ev_surfaceOp ev = si_surfaceOp opts" using a by (auto simp: session_append_def Let_def bind_res_Inr_iff)
  with m t s'(3, 4) obtain t' where t': "trace_event t ev = Inr t'"
    "cursor_of t' (traffic_event (step_traffic (s_log (ix_session ix))) ev) = c'"
    unfolding moves_def by metis
  have "seed_start s' = seed_start (ix_session ix)"
    using session_append_header [OF a] by (simp add: seed_start_def)
  moreover have "seed_start (ix_session ix) \<le> length (s_log (ix_session ix))"
    and "newInbox (ix_session ix) = Inr (ix_state ix)" using sync by (simp_all add: inbox_synced_iff)
  ultimately have "inbox_synced (ix\<lparr>ix_session := s', ix_state := st'\<rparr>)"
    using s'(1, 2) ev [OF s'(4)] by (simp add: inbox_synced_iff newInbox_def fold_res_append)
  moreover have "seedTrace (s_log s') = Inr t'" using t t'(1) s'(2) by (simp add: seedTrace_snoc)
  moreover have "st_lastSeq t' < int (length (s_log s'))"
    using trace_event_seq [OF t'(1)] s'(2, 3) by simp
  ultimately show ?thesis using t'(2) s'(2) by (auto simp: placed_def step_traffic_snoc)
qed

lemma placed_append_other:
  assumes "placed c ix" "session_append (ix_session ix) now d opts = Inr (s', ev)"
    "moves c d (si_surfaceOp opts) c'" "\<And>sp. d \<noteq> InboxSpliced sp"
  shows "placed c' (ix\<lparr>ix_session := s'\<rparr>)"
proof -
  have "inbox_event (ix_state ix) e = Inr (ix_state ix)" if "ev_data e = d" for e
    by (simp add: inbox_event_def that assms(4) split: event_data.split)
  from placed_append [OF assms(1-3) this] show ?thesis by simp
qed

text \<open>Events that are not of the turn's own protocol.\<close>

fun neutral :: "bool \<Rightarrow> event_data \<Rightarrow> json option \<Rightarrow> bool" where
  "neutral in_turn (TurnStart _) op = False"
| "neutral in_turn (TurnEnd _ _) op = False"
| "neutral in_turn (StepStart _ _) op = False"
| "neutral in_turn (StepEnd _ _) op = False"
| "neutral in_turn (AssistantChunk _ _ _) op = False"
| "neutral in_turn (AssistantMessage _ _ _ _ _) op = False"
| "neutral in_turn (ToolCall _ _ _ _ _) op = False"
| "neutral in_turn (ToolResult _) op = (in_turn \<and> op \<noteq> Some (JStr ''append''))"
| "neutral in_turn (TodoWrite _) op = in_turn"
| "neutral in_turn (RequestHeader _ _) op = False"
| "neutral in_turn (RequestContext _) op = False"
| "neutral in_turn (InboxSpliced _) op = False"
| "neutral in_turn EndSeed op = False"
| "neutral in_turn _ op = True"

lemma moves_neutral: "neutral b d op \<Longrightarrow> (b \<Longrightarrow> cu_turn c \<noteq> None) \<Longrightarrow> moves c d op c"
  by (cases d)
    (auto simp: moves_def trace_event_defs cursor_of_def traffic_event_def bind_res_Inr_iff)

lemma moves_splice: "moves c (InboxSpliced sp) op c"
  by (auto simp: moves_def trace_event_defs cursor_of_def traffic_event_def)

end
