(* ===== verification/Loop_Seams.thy ===== *)
theory Loop_Seams
  imports Loop_Logic
begin

text \<open>
  What the primitives of the loop keep: appends, inbox operations, cached reads and suspensions, each as a
  fact about where the log stands, the phase, and the requests recorded so far.
\<close>

section \<open>Inbox operations\<close>

lemma placed_notes [simp]: "placed c (ix\<lparr>ix_notes := ns\<rparr>) = placed c ix"
  by (simp add: placed_def inbox_synced_def)

lemma inbox_mutate_placed:
  assumes p: "placed c ix" and m: "inbox_mutate now ix target start del ins discard = Inr (ix', removed)"
  shows "placed c ix'"
proof -
  let ?p = "inbox_list (ix_state ix) target"
  let ?i = "actual_start (length ?p) start"
  let ?n = "actual_delete (length ?p - ?i) del"
  let ?sp = "\<lparr>is_target = target, is_start = ?i, is_removedCount = (if ?n = 0 then None else Some ?n),
     is_inserted = ins, is_canceled = (discard \<and> ?n > 0)\<rparr>"
  show ?thesis
  proof (cases "?n = 0 \<and> ins = []")
    case True
    with m p show ?thesis by (simp add: inbox_mutate_def Let_def)
  next
    case False
    have cnt: "removed_count ?sp = ?n" by (simp add: removed_count_def)
    from m False obtain s' where v: "inbox_validate (ix_state ix) ?sp = Inr ()"
      and a: "log_append now (ix_session ix) (InboxSpliced ?sp) = Inr s'"
      and ix': "ix' = \<lparr>ix_session = s', ix_state = splice_result (ix_state ix) ?sp,
        ix_notes = ix_notes ix @ (if discard then map NoteDiscarded removed else []) @ map NoteInserted ins\<rparr>"
      by (auto simp: inbox_mutate_def Let_def bind_res_Inr_iff splice_result_def removed_count_def split: if_splits)
    from a obtain ev where a': "session_append (ix_session ix) now (InboxSpliced ?sp) no_intent = Inr (s', ev)"
      by (auto simp: log_append_def bind_res_Inr_iff)
    have "inbox_event (ix_state ix) e = Inr (splice_result (ix_state ix) ?sp)" if "ev_data e = InboxSpliced ?sp" for e
      using that v by (simp add: inbox_event_def inbox_apply_Inr)
    from placed_append [OF p a' moves_splice this] show ?thesis
      by (simp add: ix' placed_def inbox_synced_def)
  qed
qed

lemma inbox_splice_placed:
  "placed c ix \<Longrightarrow> inbox_splice_op now ix target start del ins = Inr (ix', removed) \<Longrightarrow> placed c ix'"
  unfolding inbox_splice_op_def by (rule inbox_mutate_placed)

lemma inbox_claim_placed: "placed c ix \<Longrightarrow> inbox_claim now ix target turn = Inr (ix', ms) \<Longrightarrow> placed c ix'"
  by (auto simp: inbox_claim_def bind_res_Inr_iff Let_def intro: inbox_mutate_placed split: if_splits)
    (blast intro: inbox_mutate_placed)

lemma inbox_clear_placed: "placed c ix \<Longrightarrow> inbox_clear now ix = Inr ix' \<Longrightarrow> placed c ix'"
  by (auto simp: inbox_clear_def bind_res_Inr_iff intro: inbox_splice_placed)

lemma inbox_do_placed: "placed c ix \<Longrightarrow> inbox_do now ix op = Inr ix' \<Longrightarrow> placed c ix'"
  by (cases op)
    (auto simp: bind_res_Inr_iff inbox_append_def inbox_prepend_def inbox_replace_def inbox_remove_def
      dest: inbox_splice_placed inbox_claim_placed inbox_clear_placed split: option.splits)

lemma inbox_step_placed: "placed c ix \<Longrightarrow> placed c (inbox_step ix op)"
  by (auto simp: inbox_step_def dest: inbox_do_placed split: sum.splits)

text \<open>The log of an inbox operation grows by splices.\<close>

definition splices :: "session_event list \<Rightarrow> bool" where
  "splices evs \<longleftrightarrow> (\<forall>ev \<in> set evs. \<exists>sp. ev_data ev = InboxSpliced sp)"

definition spliced_log :: "session_event list \<Rightarrow> session_event list \<Rightarrow> bool" where
  "spliced_log xs ys \<longleftrightarrow> (\<exists>evs. ys = xs @ evs \<and> splices evs)"

lemma spliced_log_refl [simp]: "spliced_log xs xs"
  by (auto simp: spliced_log_def splices_def)

lemma spliced_log_trans: "spliced_log xs ys \<Longrightarrow> spliced_log ys zs \<Longrightarrow> spliced_log xs zs"
  by (fastforce simp: spliced_log_def splices_def)

abbreviation ix_log :: "inbox \<Rightarrow> session_event list" where
  "ix_log ix \<equiv> s_log (ix_session ix)"

lemma inbox_mutate_log:
  assumes "inbox_mutate now ix target start del ins discard = Inr (ix', removed)"
  shows "spliced_log (ix_log ix) (ix_log ix')"
  using assms
  by (auto simp: inbox_mutate_def Let_def bind_res_Inr_iff log_append_def session_append_def spliced_log_def splices_def
      split: if_splits)

lemma inbox_splice_log:
  "inbox_splice_op now ix target start del ins = Inr (ix', removed) \<Longrightarrow> spliced_log (ix_log ix) (ix_log ix')"
  unfolding inbox_splice_op_def by (rule inbox_mutate_log)

lemma inbox_claim_log: "inbox_claim now ix target turn = Inr (ix', ms) \<Longrightarrow> spliced_log (ix_log ix) (ix_log ix')"
  by (auto simp: inbox_claim_def bind_res_Inr_iff Let_def dest!: inbox_mutate_log intro: spliced_log_trans split: if_splits)

lemma inbox_clear_log: "inbox_clear now ix = Inr ix' \<Longrightarrow> spliced_log (ix_log ix) (ix_log ix')"
  by (auto simp: inbox_clear_def bind_res_Inr_iff dest!: inbox_splice_log intro: spliced_log_trans)

lemma inbox_do_log: "inbox_do now ix op = Inr ix' \<Longrightarrow> spliced_log (ix_log ix) (ix_log ix')"
  by (cases op)
    (auto simp: bind_res_Inr_iff inbox_append_def inbox_prepend_def inbox_replace_def inbox_remove_def
      dest: inbox_splice_log inbox_claim_log inbox_clear_log split: option.splits)

lemma inbox_step_log: "spliced_log (ix_log ix) (ix_log (inbox_step ix op))"
  by (auto simp: inbox_step_def dest: inbox_do_log split: sum.splits)

section \<open>Reads\<close>

lemma placed_same_log:
  "placed c ix \<Longrightarrow> session_ok s \<Longrightarrow> s_log s = ix_log ix \<Longrightarrow> s_header s = s_header (ix_session ix)
   \<Longrightarrow> placed c (ix\<lparr>ix_session := s\<rparr>)"
  by (simp add: placed_def inbox_synced_iff newInbox_def seed_start_def)

lemma session_surface_header: "session_surface s = Inr (s', st) \<Longrightarrow> s_header s' = s_header s \<and> s_log s' = s_log s"
  by (auto simp: session_surface_def bind_res_Inr_iff)

lemma deriveMessages_header: "deriveMessages s = Inr (s', ms) \<Longrightarrow> s_header s' = s_header s"
  by (auto simp: deriveMessages_def bind_res_Inr_iff Let_def dest: session_surface_header split: if_splits)

lemma requestHeader_header: "s_header (fst (requestHeader s)) = s_header s"
  by (simp add: requestHeader_def Let_def)

lemma requestContext_header: "s_header (fst (requestContext s)) = s_header s"
  by (simp add: requestContext_def Let_def)

lemma session_read_step:
  assumes "session_ok s" and "\<And>now d opts. op \<noteq> SessionAppend now d opts"
  shows "session_ok (session_step s op)" and "s_log (session_step s op) = s_log s"
    and "s_header (session_step s op) = s_header s"
proof -
  show "session_ok (session_step s op)" using assms(1) by (rule session_step_ok)
  show "s_log (session_step s op) = s_log s"
    using assms(2) requestHeader_ok(3) [OF assms(1) surjective_pairing] requestContext_ok(3) [OF assms(1) surjective_pairing]
      deriveMessages_ok [OF assms(1)]
    by (cases op) (auto dest: session_surface_header split: sum.splits)
  show "s_header (session_step s op) = s_header s"
    using assms(2) by (cases op)
      (auto simp: requestHeader_header requestContext_header dest: session_surface_header deriveMessages_header split: sum.splits)
qed

section \<open>The agent between primitives\<close>

text \<open>A request that the invariant companion of the loop (invariant.ts) accepts when the log is \<open>evs\<close>.\<close>

definition derivedMessages :: "session_event list \<Rightarrow> message list" where
  "derivedMessages evs = (case foldSurface evs of Inr (st, _) \<Rightarrow> derive_nodes evs (sf_nodes st) | Inl _ \<Rightarrow> [])"

fun opens_step :: "event_data \<Rightarrow> bool" where
  "opens_step (StepStart _ _) = True"
| "opens_step _ = False"

definition header_matches :: "generate_options \<Rightarrow> epoch_header \<Rightarrow> bool" where
  "header_matches r h \<longleftrightarrow>
     cc_model (go_config r) = cc_model (eh_config h)
     \<and> go_system r = eh_system h
     \<and> cc_temperature (go_config r) = cc_temperature (eh_config h)
     \<and> cc_maxTokens (go_config r) = cc_maxTokens (eh_config h)
     \<and> cc_stop (go_config r) = cc_stop (eh_config h)
     \<and> case_option [] id (go_tools r) = case_option [] id (eh_tools h)"

definition reconstructs :: "session_event list \<Rightarrow> generate_options \<Rightarrow> bool" where
  "reconstructs evs r \<longleftrightarrow>
     list_ex (\<lambda>e. opens_step (ev_data e)) evs
     \<and> (case foldRequestHeader evs None of
          None \<Rightarrow> False
        | Some h \<Rightarrow> go_messages r = derivedMessages evs \<and> header_matches r h)"

definition requests_ok :: "agent \<Rightarrow> bool" where
  "requests_ok ag \<longleftrightarrow>
     (\<forall>(n, r) \<in> set (ag_requests ag). n \<le> length (ag_log ag) \<and> reconstructs (take n (ag_log ag)) r)"

lemma requests_ok_extends:
  assumes "requests_ok ag" and "ag_requests ag' = ag_requests ag" and "ag_log ag' = ag_log ag @ evs"
  shows "requests_ok ag'"
  using assms by (fastforce simp: requests_ok_def)

text \<open>
  An agent whose log stands at a cursor and whose phase is that of a step (0 between steps) of a turn; when
  \<open>strict\<close>, with reconstructible requests.
\<close>

fun same_activity :: "agent_phase \<Rightarrow> agent_phase \<Rightarrow> bool" where
  "same_activity (Idle n) p = (p = Idle n)"
| "same_activity (Maintenance a n _) p = (\<exists>a' w'. p = Maintenance a' n w' \<and> (a \<noteq> None \<longrightarrow> a' = a))"
| "same_activity (Running a t s _) p = (\<exists>a' w'. p = Running a' t s w' \<and> (a \<noteq> None \<longrightarrow> a' = a))"

lemma same_activity_refl [simp]: "same_activity p p"
  by (cases p) simp_all

lemma same_activity_trans: "same_activity p q \<Longrightarrow> same_activity q r \<Longrightarrow> same_activity p r"
  by (cases p) auto

text \<open>What other code leaves as it is.\<close>

definition drifts :: "agent \<Rightarrow> agent \<Rightarrow> bool" where
  "drifts ag ag' \<longleftrightarrow>
     same_activity (ag_phase ag) (ag_phase ag')
     \<and> ag_headerLogged ag' = ag_headerLogged ag \<and> ag_requests ag' = ag_requests ag
     \<and> (\<exists>evs. ag_log ag' = ag_log ag @ evs \<and> (\<forall>ev \<in> set evs. \<forall>h r. ev_data ev \<noteq> RequestHeader h r))"

lemma drifts_refl [simp]: "drifts ag ag"
  by (simp add: drifts_def)

lemma drifts_trans: "drifts a b \<Longrightarrow> drifts b c \<Longrightarrow> drifts a c"
  unfolding drifts_def by (auto intro: same_activity_trans)

definition outside_ok :: "bool \<Rightarrow> outside_op \<Rightarrow> bool" where
  "outside_ok in_turn op \<longleftrightarrow>
     (case op of OutAppend _ d opts \<Rightarrow> neutral in_turn d (si_surfaceOp opts) | _ \<Rightarrow> True)"

lemma agent_append_drifts:
  assumes ok: "session_ok (ag_session ag)" and a: "agent_append now d opts ag = Inr (ag', ev)"
  shows "ag_log ag' = ag_log ag @ [ev]" "ev_data ev = d" "ev_seq ev = length (ag_log ag)"
    "ag_phase ag' = ag_phase ag" "ag_headerLogged ag' = ag_headerLogged ag" "ag_requests ag' = ag_requests ag"
    "ag_tick ag' = ag_tick ag" "ix_state (ag_inbox ag') = ix_state (ag_inbox ag)" "ag_notes ag' = ag_notes ag"
  using a session_append_ok [OF ok] by (auto simp: agent_append_def bind_res_Inr_iff set_session_def)

lemma agent_append_placed:
  assumes p: "placed c (ag_inbox ag)" and a: "agent_append now d opts ag = Inr (ag', ev)"
    and m: "moves c d (si_surfaceOp opts) c'" and d: "\<And>sp. d \<noteq> InboxSpliced sp"
  shows "placed c' (ag_inbox ag')"
  using a placed_append_other [OF p _ m d] by (auto simp: agent_append_def bind_res_Inr_iff set_session_def)

text \<open>The cases of an outside operation: a drift with its place kept.\<close>

lemma over_phase_simps [simp]:
  "ag_inbox (over_phase f ag) = ag_inbox ag" "ag_phase (over_phase f ag) = f (ag_phase ag)"
  "ag_headerLogged (over_phase f ag) = ag_headerLogged ag" "ag_requests (over_phase f ag) = ag_requests ag"
  "ag_tick (over_phase f ag) = ag_tick ag"
  by (simp_all add: over_phase_def)

lemma same_activity_wake [simp]: "same_activity p (set_wake w p)" "same_activity p (set_abort c p)"
  by (cases p; simp split: option.split)+

lemma same_activity_wake_trans [simp]: "same_activity p (set_abort c (set_wake w p))"
  by (rule same_activity_trans [of _ "set_wake w p"]) simp_all

lemma spliced_log_drift:
  "spliced_log (ag_log ag) (ag_log ag') \<Longrightarrow> same_activity (ag_phase ag) (ag_phase ag')
   \<Longrightarrow> ag_headerLogged ag' = ag_headerLogged ag \<Longrightarrow> ag_requests ag' = ag_requests ag \<Longrightarrow> drifts ag ag'"
  by (fastforce simp: drifts_def spliced_log_def splices_def)

lemma wakeDriver_awake:
  "\<not> phase_idle (ag_phase ag) \<Longrightarrow> wakeDriver b ag = (ag', start) \<Longrightarrow>
   \<not> start \<and> ag_inbox ag' = ag_inbox ag \<and> same_activity (ag_phase ag) (ag_phase ag')
   \<and> ag_headerLogged ag' = ag_headerLogged ag \<and> ag_requests ag' = ag_requests ag \<and> ag_tick ag' = ag_tick ag"
  by (auto simp: wakeDriver_def split: agent_phase.splits if_splits)

lemma agent_send_awake:
  assumes p: "placed c (ag_inbox ag)" and awake: "\<not> phase_idle (ag_phase ag) \<or> \<not> wakeup"
    and s: "agent_send now m target wakeup ag = Inr (ag', start)"
  shows "placed c (ag_inbox ag') \<and> drifts ag ag' \<and> ag_tick ag' = ag_tick ag \<and> \<not> start"
proof -
  from s obtain t b ix r where i: "inbox_splice_op now (ag_inbox ag) t PosInf (js_of_nat 0) [m] = Inr (ix, r)"
    and w: "(if wakeup then wakeDriver b (ag\<lparr>ag_inbox := ix\<rparr>) else (ag\<lparr>ag_inbox := ix\<rparr>, False)) = (ag', start)"
    by (auto simp: agent_send_def Let_def bind_res_Inr_iff)
  have "\<not> start \<and> ag_inbox ag' = ix \<and> same_activity (ag_phase ag) (ag_phase ag')
      \<and> ag_headerLogged ag' = ag_headerLogged ag \<and> ag_requests ag' = ag_requests ag \<and> ag_tick ag' = ag_tick ag"
    using w awake wakeDriver_awake [of "ag\<lparr>ag_inbox := ix\<rparr>" b ag' start] by (auto split: if_splits)
  moreover from this have "drifts ag ag'" using inbox_splice_log [OF i] by (auto intro: spliced_log_drift)
  ultimately show ?thesis using inbox_splice_placed [OF p i] by simp
qed

lemma agent_cancel_drifts:
  assumes p: "placed c (ag_inbox ag)" and s: "agent_cancel now cause keepInbox ag = Inr ag'"
  shows "placed c (ag_inbox ag') \<and> drifts ag ag' \<and> ag_tick ag' = ag_tick ag"
proof (cases keepInbox)
  case True
  with s have "ag' = over_phase (set_abort cause) ag" by (simp add: agent_cancel_def)
  with p show ?thesis by (auto intro: spliced_log_drift)
next
  case False
  with s obtain ix where i: "inbox_clear now (ag_inbox ag) = Inr ix"
    and ag': "ag' = over_phase (set_abort cause) (over_phase (set_wake False) (ag\<lparr>ag_inbox := ix\<rparr>))"
    by (auto simp: agent_cancel_def bind_res_Inr_iff)
  with inbox_clear_placed [OF p i] inbox_clear_log [OF i] show ?thesis
    by (auto intro: spliced_log_drift)
qed

lemma outside_do_kept:
  assumes p: "placed c (ag_inbox ag)" and ok: "outside_ok in_turn op" and t: "in_turn \<longrightarrow> cu_turn c \<noteq> None"
    and awake: "\<not> phase_idle (ag_phase ag) \<or> (\<forall>n m tg. op \<noteq> OutSend n m tg True)"
  shows "placed c (ag_inbox (outside_do ag op)) \<and> drifts ag (outside_do ag op) \<and> ag_tick (outside_do ag op) = ag_tick ag"
proof (cases op)
  case (OutSend now m target wakeup)
  then show ?thesis using p awake agent_send_awake [OF p, of wakeup now m target]
    by (cases wakeup) (auto split: sum.splits)
next
  case (OutCancel now cause keepInbox)
  then show ?thesis using p agent_cancel_drifts [OF p] by (auto split: sum.splits)
next
  case (OutInbox now iop)
  then show ?thesis
    using inbox_step_placed [OF p, of "(now, iop)"] inbox_step_log [of "ag_inbox ag" "(now, iop)"]
    by (auto intro: spliced_log_drift)
next
  case (OutAppend now d opts)
  with ok have n: "neutral in_turn d (si_surfaceOp opts)" by (simp add: outside_ok_def)
  then have d: "\<And>sp. d \<noteq> InboxSpliced sp" "\<And>h r. d \<noteq> RequestHeader h r"
    by auto
  show ?thesis
  proof (cases "agent_append now d opts ag")
    case (Inl e)
    with p OutAppend show ?thesis by simp
  next
    case (Inr r)
    then obtain ag' ev where a: "agent_append now d opts ag = Inr (ag', ev)" by (metis surj_pair)
    from agent_append_placed [OF p a moves_neutral d(1)] n t have "placed c (ag_inbox ag')" by blast
    moreover have "drifts ag ag'" "ag_tick ag' = ag_tick ag"
      using agent_append_drifts [OF placed_session [OF p] a] d(2) by (auto simp: drifts_def)
    ultimately show ?thesis using a OutAppend by simp
  qed
next
  case (OutRead r)
  show ?thesis
  proof (cases r)
    case (SessionAppend now d opts)
    with p OutRead show ?thesis by simp
  next
    case other: ReadHeader
    with session_read_step [OF placed_session [OF p], of r] p OutRead show ?thesis
      by (auto simp: set_session_def drifts_def intro!: placed_same_log)
  next
    case other: ReadContext
    with session_read_step [OF placed_session [OF p], of r] p OutRead show ?thesis
      by (auto simp: set_session_def drifts_def intro!: placed_same_log)
  next
    case other: ReadSurface
    with session_read_step [OF placed_session [OF p], of r] p OutRead show ?thesis
      by (auto simp: set_session_def drifts_def intro!: placed_same_log split: sum.splits)
  next
    case other: ReadMessages
    with session_read_step [OF placed_session [OF p], of r] p OutRead show ?thesis
      by (auto simp: set_session_def drifts_def intro!: placed_same_log split: sum.splits)
  qed
qed

lemma same_activity_idle: "same_activity p q \<Longrightarrow> phase_idle q = phase_idle p"
  by (cases p) auto

lemma outside_all_kept:
  assumes "placed c (ag_inbox ag)" and "\<forall>op \<in> set ops. outside_ok in_turn op" and "in_turn \<longrightarrow> cu_turn c \<noteq> None"
    and "\<not> phase_idle (ag_phase ag)"
  shows "placed c (ag_inbox (outside_all ops ag)) \<and> drifts ag (outside_all ops ag)
     \<and> ag_tick (outside_all ops ag) = ag_tick ag"
  using assms
proof (induction ops arbitrary: ag)
  case Nil
  then show ?case by (simp add: outside_all_def)
next
  case (Cons op ops)
  from outside_do_kept [of c ag in_turn op] Cons.prems have 1: "placed c (ag_inbox (outside_do ag op))"
    "drifts ag (outside_do ag op)" "ag_tick (outside_do ag op) = ag_tick ag" by auto
  from 1(2) Cons.prems(4) have "\<not> phase_idle (ag_phase (outside_do ag op))"
    by (auto simp: drifts_def dest: same_activity_idle)
  from Cons.IH [OF 1(1) _ Cons.prems(3) this] Cons.prems(2) 1(2, 3) show ?case
    by (auto simp: outside_all_def intro: drifts_trans)
qed

end
