(* ===== verification/Loop_Laws.thy ===== *)
theory Loop_Laws
  imports Loop_Seams
begin

text \<open>
  The laws of the loop's primitives as triples, at the cursors of a turn and of its steps, under the conditions on
  the environment.
\<close>

section \<open>The environment\<close>

definition outside_quiet :: "outside_op \<Rightarrow> bool" where
  "outside_quiet op \<longleftrightarrow>
     (case op of OutAppend _ d opts \<Rightarrow> \<not> isSurfaceEligibleType (event_type d) | _ \<Rightarrow> True)"

text \<open>A model does not answer with two tool calls of one id.\<close>

definition distinct_calls :: "loop_env \<Rightarrow> bool" where
  "distinct_calls env \<longleftrightarrow>
     (\<forall>n request chunks failure content replayState.
        le_stream env n request = Inr (chunks, failure)
        \<longrightarrow> assembled (assembler_push_all chunks) = Inr (content, replayState)
        \<longrightarrow> distinct (map call_id (List.map_filter call_of content)))"

text \<open>
  Other code appends none of the loop's own events; when \<open>strict\<close>, it leaves the surface alone while a request
  is being built.
\<close>

definition env_ok :: "bool \<Rightarrow> loop_env \<Rightarrow> bool" where
  "env_ok strict env \<longleftrightarrow>
     (\<forall>n. list_all (outside_ok True) (le_outside env n))
     \<and> (\<forall>n. list_all (outside_ok True) (le_building env n))
     \<and> (\<forall>n. list_all (outside_ok False) (le_resting env n))
     \<and> (strict \<longrightarrow> (\<forall>n. list_all outside_quiet (le_building env n)))
     \<and> distinct_calls env \<and> 1 \<le> le_maxParallel env"

section \<open>Where the driver is\<close>

definition active :: "bool \<Rightarrow> cursor \<Rightarrow> agent \<Rightarrow> bool" where
  "active strict c ag \<longleftrightarrow> placed c (ag_inbox ag) \<and> (strict \<longrightarrow> requests_ok ag)"

definition driving :: "nat \<Rightarrow> nat \<Rightarrow> agent \<Rightarrow> bool" where
  "driving turn step ag \<longleftrightarrow> (\<exists>a w. ag_phase ag = Running a turn step w)"

definition stands :: "bool \<Rightarrow> cursor \<Rightarrow> nat \<Rightarrow> nat \<Rightarrow> agent \<Rightarrow> bool" where
  "stands strict c turn step ag \<longleftrightarrow> active strict c ag \<and> driving turn step ag"

text \<open>The cursors of a turn: before its first step, between steps, and in a step.\<close>

definition rest_cursor :: "nat \<Rightarrow> cursor \<Rightarrow> bool" where
  "rest_cursor turn c \<longleftrightarrow> cu_turn c = None \<and> cu_step c = None \<and> cu_nextTurn c = Suc turn"

definition turn_cursor :: "nat \<Rightarrow> nat \<Rightarrow> cursor \<Rightarrow> bool" where
  "turn_cursor turn step c \<longleftrightarrow>
     cu_turn c = Some turn \<and> cu_step c = None \<and> cu_nextTurn c = turn \<and> cu_nextStep c = Suc step"

definition step_cursor :: "nat \<Rightarrow> nat \<Rightarrow> string set \<Rightarrow> string list \<Rightarrow> string list \<Rightarrow> cursor" where
  "step_cursor turn step pending calls results =
     \<lparr>cu_turn = Some turn, cu_step = Some step, cu_nextTurn = turn, cu_nextStep = step,
      cu_pending = pending, cu_calls = calls, cu_results = results\<rparr>"

lemma step_cursor_simps [simp]:
  "cu_turn (step_cursor t s p cs rs) = Some t" "cu_step (step_cursor t s p cs rs) = Some s"
  "cu_calls (step_cursor t s p cs rs) = cs" "cu_results (step_cursor t s p cs rs) = rs"
  by (simp_all add: step_cursor_def)

lemmas move_defs = moves_def trace_event_defs cursor_of_def traffic_event_def bind_res_Inr_iff

lemma moves_turn_start:
  "rest_cursor n c \<Longrightarrow> moves c (TurnStart (Suc n)) op (c\<lparr>cu_turn := Some (Suc n), cu_nextStep := 1\<rparr>)"
  by (auto simp: move_defs rest_cursor_def)

lemma moves_turn_end:
  "turn_cursor t s c \<Longrightarrow> moves c (TurnEnd t r) op (c\<lparr>cu_turn := None, cu_nextTurn := Suc t\<rparr>)"
  by (auto simp: move_defs turn_cursor_def)

lemma moves_step_start:
  "turn_cursor t s c \<Longrightarrow> moves c (StepStart t (Suc s)) op (step_cursor t (Suc s) (cu_pending c) [] [])"
  by (auto simp: move_defs turn_cursor_def step_cursor_def)

lemma moves_step_end:
  "moves (step_cursor t s p cs rs) (StepEnd t s) op
     ((step_cursor t s p cs rs)\<lparr>cu_step := None, cu_pending := {}, cu_nextStep := Suc s\<rparr>)"
  by (auto simp: move_defs step_cursor_def)

lemma moves_in_step:
  "moves (step_cursor t s p cs rs) (AssistantChunk t s ch) op (step_cursor t s p cs rs)"
  "moves (step_cursor t s p cs rs) (AssistantMessage t s m u b) op (step_cursor t s p cs rs)"
  "moves (step_cursor t s p cs rs) (ToolCall t s i n a) op (step_cursor t s (insert i p) (cs @ [i]) rs)"
  "cu_turn c \<noteq> None \<Longrightarrow> moves c (RequestHeader h hr) op c"
  "cu_turn c \<noteq> None \<Longrightarrow> moves c (RequestContext rc) op c"
  "moves c (UserMessage m) op c"
  by (auto simp: move_defs step_cursor_def)

lemma moves_tool_result:
  assumes "i \<in> p" and "tr_turn d = t" and "tr_step d = s" and "m_source (tr_message d) = ToolSource i"
    and "m_content (tr_message d) \<noteq> []"
  shows "moves (step_cursor t s p cs rs) (ToolResult d) (Some (JStr ''append'')) (step_cursor t s (p - {i}) cs (rs @ [i]))"
  using assms by (auto simp: move_defs step_cursor_def elem_at_def)

section \<open>Suspensions\<close>

lemma stands_drifts:
  assumes "stands strict c t s ag" and "placed c' (ag_inbox ag')" and "drifts ag ag'"
  shows "stands strict c' t s ag'"
  using assms unfolding stands_def active_def driving_def drifts_def
  by (auto intro: requests_ok_extends)

lemma stands_tick_n: "stands strict c t s (ag\<lparr>ag_tick := n\<rparr>) = stands strict c t s ag"
  by (simp add: stands_def active_def driving_def requests_ok_def)

lemma stands_tick:
  assumes s: "stands strict c t s ag" and ok: "\<And>n. list_all (outside_ok in_turn) (ops n)"
    and t: "in_turn \<longrightarrow> cu_turn c \<noteq> None"
  shows "stands strict c t s (tick ops ag)"
proof -
  have "\<not> phase_idle (ag_phase ag)" and p: "placed c (ag_inbox ag)"
    using s by (auto simp: stands_def active_def driving_def)
  from outside_all_kept [OF p _ t this(1), of "ops (ag_tick ag)"] ok [of "ag_tick ag"]
  have "placed c (ag_inbox (outside_all (ops (ag_tick ag)) ag))" "drifts ag (outside_all (ops (ag_tick ag)) ag)"
    by (auto simp: list_all_iff)
  from stands_drifts [OF s this] show ?thesis by (simp add: tick_def stands_tick_n)
qed

lemma tick_phase:
  assumes "stands strict c t s ag" and "\<And>n. list_all (outside_ok in_turn) (ops n)" and "in_turn \<longrightarrow> cu_turn c \<noteq> None"
  shows "drifts ag (tick ops ag)" and "ag_tick (tick ops ag) = Suc (ag_tick ag)"
proof -
  have "\<not> phase_idle (ag_phase ag)" and p: "placed c (ag_inbox ag)"
    using assms(1) by (auto simp: stands_def active_def driving_def)
  from outside_all_kept [OF p _ assms(3) this(1), of "ops (ag_tick ag)"] assms(2) [of "ag_tick ag"]
  have "drifts ag (outside_all (ops (ag_tick ag)) ag)" by (auto simp: list_all_iff)
  then show "drifts ag (tick ops ag)" by (simp add: tick_def drifts_def)
  show "ag_tick (tick ops ag) = Suc (ag_tick ag)" by (simp add: tick_def)
qed

lemma await_host_triple:
  "env_ok strict env \<Longrightarrow> cu_turn c \<noteq> None \<Longrightarrow>
   triple ends (stands strict c t s) (await_host env) (\<lambda>_. stands strict c t s) E"
  unfolding await_host_def
  by (rule triple_updates) (auto simp: env_ok_def intro: stands_tick [where in_turn = True])

lemma await_call_triple:
  assumes "env_ok strict env" and "cu_turn c \<noteq> None"
  shows "triple ends (stands strict c t s) (await_call env f) (\<lambda>_. stands strict c t s) (\<lambda>_. stands strict c t s)"
  unfolding await_call_def
  by (rule triple_then [OF triple_reads [where Q = "\<lambda>_. stands strict c t s"]], assumption,
      rule triple_then [OF await_host_triple [OF assms]], rule triple_result)

lemma loop_throwIfAborted_triple:
  "triple ends P loop_throwIfAborted (\<lambda>_. P) (\<lambda>_. P)"
  unfolding loop_throwIfAborted_def
  by (auto simp: triple_def wp_then wp_simps split: option.split)

section \<open>Appends\<close>

text \<open>What an append leaves of the agent.\<close>

definition appended :: "agent \<Rightarrow> event_data \<Rightarrow> session_event \<Rightarrow> agent \<Rightarrow> bool" where
  "appended ag d ev ag' \<longleftrightarrow>
     ag_log ag' = ag_log ag @ [ev] \<and> ev_data ev = d \<and> ev_seq ev = length (ag_log ag)
     \<and> ag_phase ag' = ag_phase ag \<and> ag_headerLogged ag' = ag_headerLogged ag \<and> ag_requests ag' = ag_requests ag
     \<and> ag_tick ag' = ag_tick ag \<and> ix_state (ag_inbox ag') = ix_state (ag_inbox ag)
     \<and> ag_notes ag' = ag_notes ag"

lemma append_event_wp:
  assumes s: "stands strict c t s ag" and m: "moves c d (si_surfaceOp opts) c'" and d: "\<And>sp. d \<noteq> InboxSpliced sp"
    and Q: "\<And>ev ag'. stands strict c' t s ag' \<Longrightarrow> appended ag d ev ag' \<Longrightarrow> Q ev ag'"
    and E: "\<And>e. E e ag"
  shows "wp ends (append_event env d opts) Q E ag"
proof (cases "agent_append (le_clock env (length (ag_log ag))) d opts ag")
  case (Inl e)
  then show ?thesis using E by (simp add: wp_def append_event_def)
next
  case (Inr r)
  then obtain ag' ev where a: "agent_append (le_clock env (length (ag_log ag))) d opts ag = Inr (ag', ev)"
    by (metis surj_pair)
  have p: "placed c (ag_inbox ag)" using s by (simp add: stands_def active_def)
  have ap: "appended ag d ev ag'"
    using agent_append_drifts [OF placed_session [OF p] a] by (simp add: appended_def)
  have "stands strict c' t s ag'"
    using s agent_append_placed [OF p a m d] ap
    by (auto simp: stands_def active_def driving_def appended_def intro: requests_ok_extends)
  from Q [OF this ap] a show ?thesis by (simp add: wp_def append_event_def)
qed

lemma append_triple:
  assumes "moves c d (si_surfaceOp opts) c'" and "\<And>sp. d \<noteq> InboxSpliced sp"
  shows "triple ends (stands strict c t s) (append_event env d opts) (\<lambda>_. stands strict c' t s) (\<lambda>_. stands strict c t s)"
  using assms by (auto intro!: tripleI append_event_wp)

text \<open>Events outside the surface are never refused.\<close>

lemma append_plain_wp:
  assumes s: "stands strict c t s ag" and m: "moves c d None c'" and d: "\<And>sp. d \<noteq> InboxSpliced sp"
    and plain: "\<not> isSurfaceEligibleType (event_type d)" "event_type d \<noteq> ''request/header-delta''"
    and Q: "\<And>ev ag'. stands strict c' t s ag' \<Longrightarrow> appended ag d ev ag' \<Longrightarrow> Q ev ag'"
  shows "wp ends (append_event env d no_intent) Q E ag"
proof -
  have "session_ok (ag_session ag)" using s by (auto simp: stands_def active_def dest: placed_session)
  from append_plain [OF this _ plain(1), of "le_clock env (length (ag_log ag))"] plain(2)
  obtain s' ev where "session_append (ag_session ag) (le_clock env (length (ag_log ag))) d no_intent = Inr (s', ev)"
    by (auto simp: assertSupportedRequestHeader_def)
  then have ok: "append_event env d no_intent ag \<noteq> None" "\<And>a e. append_event env d no_intent ag \<noteq> Some (a, Inl e)"
    by (auto simp: append_event_def agent_append_def)
  have "wp ends (append_event env d no_intent) Q (\<lambda>e a. a = ag) ag"
    by (rule append_event_wp [OF s _ d]) (use m Q in \<open>simp_all add: no_intent_def\<close>)
  then show ?thesis using ok by (auto simp: wp_def split: option.splits sum.splits)
qed

lemma append_plain_triple:
  assumes "moves c d None c'" and "\<And>sp. d \<noteq> InboxSpliced sp"
    and "\<not> isSurfaceEligibleType (event_type d)" "event_type d \<noteq> ''request/header-delta''"
  shows "triple ends (stands strict c t s) (append_event env d no_intent) (\<lambda>_. stands strict c' t s) E"
  using assms by (auto intro!: tripleI append_plain_wp)

lemmas plain_types = isSurfaceEligibleType_def surface_event_types_def

section \<open>Inbox operations of the loop\<close>

lemma stands_inbox:
  assumes "stands strict c t s ag" and "placed c ix" and "spliced_log (ag_log ag) (ix_log ix)"
  shows "stands strict c t s (ag\<lparr>ag_inbox := ix\<rparr>)"
  using assms unfolding spliced_log_def
  by (auto simp: stands_def active_def driving_def intro: requests_ok_extends)

lemma acceptContext_triple:
  "triple ends (stands strict c t s) (acceptContext env m) (\<lambda>_. stands strict c t s) (\<lambda>_. stands strict c t s)"
proof (rule tripleI)
  fix ag
  assume s: "stands strict c t s ag"
  then have "placed c (ag_inbox ag)" by (simp add: stands_def active_def)
  then show "wp ends (acceptContext env m) (\<lambda>_. stands strict c t s) (\<lambda>_. stands strict c t s) ag"
    using s inbox_splice_placed inbox_splice_log stands_inbox [OF s]
    by (auto simp: wp_def acceptContext_def split: sum.splits option.splits)
qed

lemma claim_messages_triple:
  "triple ends (stands strict c t s) (claim_messages env target turn) (\<lambda>_. stands strict c t s) (\<lambda>_. stands strict c t s)"
proof (rule tripleI)
  fix ag
  assume s: "stands strict c t s ag"
  then have "placed c (ag_inbox ag)" by (simp add: stands_def active_def)
  then show "wp ends (claim_messages env target turn) (\<lambda>_. stands strict c t s) (\<lambda>_. stands strict c t s) ag"
    using s inbox_claim_placed inbox_claim_log stands_inbox [OF s]
    by (auto simp: wp_def claim_messages_def split: sum.splits option.splits)
qed

end
