(* ===== verification/Scheduler_Laws.thy ===== *)
theory Scheduler_Laws
  imports Loop_Laws
begin

text \<open>
  The scheduler of tool calls: whatever order the calls settle in, the results reach the log in the order of the
  model's calls, one for each, unless the step fails; and the scheduler always returns.
\<close>

section \<open>The pool\<close>

text \<open>
  Every started call that is not committed has a slot, is in flight, or is the one being started (\<open>X\<close>); a failure
  is that of a call which settled and is still to be taken out of flight.
\<close>

definition wired :: "nat set \<Rightarrow> group_state \<Rightarrow> bool" where
  "wired X g \<longleftrightarrow>
     (\<forall>i. gs_slots g i \<noteq> None \<longrightarrow> i < gs_started g)
     \<and> (\<forall>i \<in> set (gs_inFlight g). i < gs_started g \<and> gs_outcomes g i \<noteq> None)
     \<and> (\<forall>i. gs_committed g \<le> i \<and> i < gs_started g \<longrightarrow>
          i \<in> X \<or> gs_slots g i \<noteq> None \<or> i \<in> set (gs_inFlight g) \<or> gs_failure g \<noteq> None)
     \<and> set (gs_settled g) \<subseteq> set (gs_inFlight g)
     \<and> (\<forall>i \<in> set (gs_settled g). gs_slots g i \<noteq> None \<or> gs_failure g \<noteq> None)
     \<and> (gs_failure g \<noteq> None \<longrightarrow> gs_settled g \<noteq> [])"

text \<open>After a commit the next slot is filled only by a call still in flight.\<close>

definition pool_drained :: "group_state \<Rightarrow> bool" where
  "pool_drained g \<longleftrightarrow> (gs_slots g (gs_committed g) \<noteq> None \<longrightarrow> gs_committed g \<in> set (gs_inFlight g))"

text \<open>Where the group runs: the step, the ids before the group, and the ids of the group.\<close>

record group_place =
  gp_strict :: bool
  gp_turn :: nat
  gp_step :: nat
  gp_pre :: "string list"
  gp_ids :: "string list"

definition stage :: "group_place \<Rightarrow> nat \<Rightarrow> nat \<Rightarrow> agent \<Rightarrow> bool" where
  "stage P com st ag \<longleftrightarrow>
     com \<le> st \<and> st \<le> length (gp_ids P)
     \<and> stands (gp_strict P)
         (step_cursor (gp_turn P) (gp_step P) (set (drop com (take st (gp_ids P))))
            (gp_pre P @ take st (gp_ids P)) (gp_pre P @ take com (gp_ids P)))
         (gp_turn P) (gp_step P) ag"

text \<open>
  The invariant of the pool: \<open>n\<close> is the next call to start, \<open>d\<close> is 1 while it is being started, and \<open>b\<close> bounds the
  calls in flight or to start.
\<close>

definition pool :: "group_place \<Rightarrow> nat set \<Rightarrow> bool \<Rightarrow> nat \<Rightarrow> nat \<Rightarrow> nat \<Rightarrow> group_state \<times> agent \<Rightarrow> bool" where
  "pool P X r d n b s \<longleftrightarrow>
     wired X (fst s) \<and> (r \<longrightarrow> pool_drained (fst s)) \<and> gs_nextToStart (fst s) = n \<and> gs_started (fst s) = n + d
     \<and> length (gs_inFlight (fst s)) + (length (gp_ids P) - n) \<le> b
     \<and> stage P (gs_committed (fst s)) (n + d) (snd s)"

text \<open>What holds whatever fails.\<close>

definition hurt :: "group_place \<Rightarrow> agent \<Rightarrow> bool" where
  "hurt P ag \<longleftrightarrow>
     (\<exists>com st p. com \<le> st \<and> st \<le> length (gp_ids P)
        \<and> stands (gp_strict P) (step_cursor (gp_turn P) (gp_step P) p
             (gp_pre P @ take st (gp_ids P)) (gp_pre P @ take com (gp_ids P))) (gp_turn P) (gp_step P) ag)"

lemma stage_hurt: "stage P com st ag \<Longrightarrow> hurt P ag"
  by (auto simp: stage_def hurt_def)

lemma pool_hurt: "pool P X r d n b s \<Longrightarrow> hurt P (snd s)"
  by (auto simp: pool_def intro: stage_hurt)

lemma pool_weaken: "pool P X r d n b s \<Longrightarrow> (r' \<longrightarrow> r) \<Longrightarrow> b \<le> b' \<Longrightarrow> pool P X r' d n b' s"
  by (auto simp: pool_def)

section \<open>Settling\<close>

lemma settle_counts [simp]:
  "gs_committed (settle_call g i) = gs_committed g" "gs_started (settle_call g i) = gs_started g"
  "gs_nextToStart (settle_call g i) = gs_nextToStart g" "gs_inFlight (settle_call g i) = gs_inFlight g"
  "gs_outcomes (settle_call g i) = gs_outcomes g" "gs_aborted (settle_call g i) = gs_aborted g"
  by (auto simp: settle_call_def note_failure_def Let_def split: option.split sum.split)

lemma settle_wired: "wired X g \<Longrightarrow> wired X (settle_call g i)"
  by (auto simp: wired_def settle_call_def note_failure_def Let_def split: option.split sum.split)

lemma settle_drained: "pool_drained g \<Longrightarrow> pool_drained (settle_call g i)"
  by (auto simp: pool_drained_def settle_call_def note_failure_def Let_def split: option.split sum.split)

lemma settle_settled: "set (gs_settled g) \<subseteq> set (gs_settled (settle_call g i))"
  by (auto simp: settle_call_def note_failure_def Let_def split: option.split sum.split)

lemma settle_pool: "pool P X r d n b (g, ag) \<Longrightarrow> pool P X r d n b (settle_call g i, ag)"
  by (auto simp: pool_def settle_wired settle_drained)

lemma settles_pool: "pool P X r d n b (g, ag) \<Longrightarrow> pool P X r d n b (foldl settle_call g is, ag)"
  by (induction "is" arbitrary: g) (auto intro: settle_pool)

lemma settles_fact: "(\<And>g i. F g \<Longrightarrow> F (settle_call g i)) \<Longrightarrow> F g \<Longrightarrow> F (foldl settle_call g is)"
  by (induction "is" arbitrary: g) auto

lemma stage_tick: "env_ok (gp_strict P) env \<Longrightarrow> stage P com st ag \<Longrightarrow> stage P com st (tick (le_outside env) ag)"
  by (auto simp: stage_def env_ok_def intro: stands_tick [where in_turn = True])

lemma group_await_triple:
  assumes "env_ok (gp_strict P) env" and "\<And>g i. F g \<Longrightarrow> F (settle_call g i)"
  shows "triple ends (\<lambda>s. pool P X r d n b s \<and> F (fst s)) (group_await env) (\<lambda>_ s. pool P X r d n b s \<and> F (fst s)) E"
proof -
  have "pool P X r d n b (g, tick (le_outside env) ag)" if "pool P X r d n b (g, ag)" for g ag
    using that stage_tick [OF assms(1)] by (auto simp: pool_def)
  then show ?thesis
    unfolding group_await_def
    by (intro triple_updates) (auto intro: settles_pool settles_fact [of F, OF assms(2)])
qed

lemmas group_await_pool = group_await_triple [where F = "\<lambda>_. True", simplified]

lemma throwSchedulerFailure_triple:
  "triple ends (pool P X r d n b) throwSchedulerFailure
     (\<lambda>_ s. pool P X r d n b s \<and> gs_failure (fst s) = None) (\<lambda>_ s. hurt P (snd s))"
  by (auto simp: triple_def throwSchedulerFailure_def wp_then group_get_def wp_simps dest: pool_hurt split: option.split)

section \<open>Programs of the agent in a group\<close>

lemma wp_in_agent: "wp ends (in_agent m) Q E s = wp ends m (\<lambda>a ag. Q a (fst s, ag)) (\<lambda>e ag. E e (fst s, ag)) (snd s)"
  by (cases s) (simp add: wp_def in_agent_def split: option.split sum.split prod.split)

lemma wp_group_get: "wp ends (group_get f) Q E = (\<lambda>s. Q (f (fst s)) s)"
  by (rule ext) (simp add: group_get_def wp_simps)

lemma wp_group_set: "wp ends (group_set f) Q E = (\<lambda>s. Q () (f (fst s), snd s))"
  by (rule ext) (simp add: group_set_def wp_simps split: prod.split)

lemmas wp_group = wp_then wp_in_agent wp_group_get wp_group_set wp_simps

section \<open>Committing\<close>

lemma drop_take_Suc:
  "com < st \<Longrightarrow> st \<le> length ids \<Longrightarrow> drop com (take st ids) = ids ! com # drop (Suc com) (take st ids)"
  by (metis Cons_nth_drop_Suc length_take min.absorb2 nth_take)

lemma stage_result:
  assumes s: "stage P com st ag" and com: "com < st" and dist: "distinct (gp_ids P)"
    and d: "tr_turn d = gp_turn P" "tr_step d = gp_step P" "m_source (tr_message d) = ToolSource (gp_ids P ! com)"
      "m_content (tr_message d) \<noteq> []"
    and Q: "\<And>ev ag'. stage P (Suc com) st ag' \<Longrightarrow> Q ev ag'" and E: "\<And>e. E e ag"
  shows "wp ends (append_event env (ToolResult d) (appending src)) Q E ag"
proof -
  let ?ids = "gp_ids P"
  have st: "st \<le> length ?ids" using s by (simp add: stage_def)
  have split: "drop com (take st ?ids) = ?ids ! com # drop (Suc com) (take st ?ids)"
    using drop_take_Suc [OF com st] .
  have "distinct (drop com (take st ?ids))" using dist by simp
  then have pend: "set (drop com (take st ?ids)) - {?ids ! com} = set (drop (Suc com) (take st ?ids))"
    unfolding split by auto
  have "take (Suc com) ?ids = take com ?ids @ [?ids ! com]"
    using com st by (simp add: take_Suc_conv_app_nth)
  then have m: "moves (step_cursor (gp_turn P) (gp_step P) (set (drop com (take st ?ids)))
        (gp_pre P @ take st ?ids) (gp_pre P @ take com ?ids)) (ToolResult d) (Some (JStr ''append''))
      (step_cursor (gp_turn P) (gp_step P) (set (drop (Suc com) (take st ?ids)))
        (gp_pre P @ take st ?ids) (gp_pre P @ take (Suc com) ?ids))"
    using moves_tool_result [of "?ids ! com" "set (drop com (take st ?ids))" d "gp_turn P" "gp_step P"
        "gp_pre P @ take st ?ids" "gp_pre P @ take com ?ids"] d pend by (simp add: split)
  show ?thesis
  proof (rule append_event_wp)
    show "stands (gp_strict P) (step_cursor (gp_turn P) (gp_step P) (set (drop com (take st ?ids)))
        (gp_pre P @ take st ?ids) (gp_pre P @ take com ?ids)) (gp_turn P) (gp_step P) ag"
      using s by (simp add: stage_def)
  qed (use m Q E com st in \<open>auto simp: appending_def stage_def\<close>)
qed

lemma appendToolResult_triple:
  assumes "com < st" and "distinct (gp_ids P)" and "call_id block = gp_ids P ! com"
  shows "triple ends (stage P com st) (appendToolResult env (gp_turn P) (gp_step P) block result seq)
     (\<lambda>_. stage P (Suc com) st) (\<lambda>_. stage P com st)"
  unfolding triple_def appendToolResult_def wp_then wp_simps
  using assms by (auto intro!: stage_result simp: createToolResultMessage_def)

lemma acceptContext_stage: "triple ends (stage P com st) (acceptContext env m) (\<lambda>_. stage P com st) (\<lambda>_. stage P com st)"
  unfolding stage_def by (intro triple_if_pure) (rule triple_post [OF acceptContext_triple], simp_all)

lemma accept_all_stage:
  "triple ends (stage P com st) (for_each (acceptContext env) ms) (\<lambda>_. stage P com st) (\<lambda>_. stage P com st)"
  using triple_for_each [where P = "\<lambda>_. stage P com st" and f = "acceptContext env", OF acceptContext_stage] .

text \<open>What a commit does to the pool.\<close>

lemma pool_committed:
  assumes "pool P {} r d n b (g, ag)" and "gs_committed g < gs_started g" and "stage P (Suc (gs_committed g)) (gs_started g) ag'"
  shows "pool P {} False d n b (g\<lparr>gs_concluded := c, gs_committed := Suc (gs_committed g)\<rparr>, ag')"
  using assms by (auto simp: pool_def wired_def)

lemma commit_one:
  assumes env: "env_ok (gp_strict P) env" and dist: "distinct (gp_ids P)" and ids: "gp_ids P = map call_id calls"
    and com: "com < length calls"
  shows "triple ends (\<lambda>s. pool P {} r d n b s \<and> gs_committed (fst s) = com \<and> com < gs_started (fst s))
     (then_do (in_agent (appendToolResult env (gp_turn P) (gp_step P) (calls ! com) result seq)) (\<lambda>_.
      then_do (in_agent (for_each (acceptContext env) (ter_additionalContexts result))) (\<lambda>_.
      group_set (\<lambda>g. g\<lparr>gs_concluded := (gs_concluded g \<or> ter_concludesTurn result), gs_committed := Suc com\<rparr>))))
     (\<lambda>_ s. pool P {} False d n b s \<and> gs_committed (fst s) = Suc com) (\<lambda>_ s. hurt P (snd s))"
proof (rule tripleI)
  fix s :: "group_state \<times> agent"
  assume s: "pool P {} r d n b s \<and> gs_committed (fst s) = com \<and> com < gs_started (fst s)"
  then have st: "stage P com (gs_started (fst s)) (snd s)" unfolding pool_def by auto
  have id: "call_id (calls ! com) = gp_ids P ! com" using ids com by simp
  have A: "wp ends (appendToolResult env (gp_turn P) (gp_step P) (calls ! com) result seq)
      (\<lambda>_. stage P (Suc com) (gs_started (fst s))) (\<lambda>_ ag. hurt P ag) (snd s)"
    by (rule wp_mono [OF triple_wp [OF appendToolResult_triple [OF _ dist id] st]])
      (use s in \<open>auto intro: stage_hurt\<close>)
  have B: "wp ends (for_each (acceptContext env) ms) (\<lambda>_. stage P (Suc com) (gs_started (fst s))) (\<lambda>_ ag. hurt P ag) ag"
    if "stage P (Suc com) (gs_started (fst s)) ag" for ag ms
    by (rule wp_mono [OF triple_wp [OF accept_all_stage that]]) (auto intro: stage_hurt)
  have C: "pool P {} False d n b ((fst s)\<lparr>gs_concluded := c, gs_committed := Suc com\<rparr>, ag)"
    if "stage P (Suc com) (gs_started (fst s)) ag" for ag c
    using pool_committed [of P r d n b "fst s" "snd s"] s that by simp
  show "wp ends (then_do (in_agent (appendToolResult env (gp_turn P) (gp_step P) (calls ! com) result seq)) (\<lambda>_.
      then_do (in_agent (for_each (acceptContext env) (ter_additionalContexts result))) (\<lambda>_.
      group_set (\<lambda>g. g\<lparr>gs_concluded := (gs_concluded g \<or> ter_concludesTurn result), gs_committed := Suc com\<rparr>))))
     (\<lambda>_ s. pool P {} False d n b s \<and> gs_committed (fst s) = Suc com) (\<lambda>_ s. hurt P (snd s)) s"
    unfolding wp_group
    by (rule wp_mono [OF A]) (auto intro!: wp_mono [OF B] C)
qed

lemma commit_ready_triple:
  assumes env: "env_ok (gp_strict P) env" and dist: "distinct (gp_ids P)" and ids: "gp_ids P = map call_id calls"
  shows "triple ends (\<lambda>s. pool P {} False d n b s \<and> length calls \<le> gs_committed (fst s) + k)
     (commit_ready env (gp_turn P) (gp_step P) calls k) (\<lambda>_. pool P {} True d n b) (\<lambda>_ s. hurt P (snd s))"
proof (induction k)
  case 0
  have "pool P {} True d n b s" if p: "pool P {} False d n b s" and l: "length calls \<le> gs_committed (fst s)" for s
  proof -
    have "stage P (gs_committed (fst s)) (gs_started (fst s)) (snd s)" "wired {} (fst s)"
      using p unfolding pool_def by auto
    moreover from this(1) have "\<not> gs_committed (fst s) < gs_started (fst s)" using l ids by (simp add: stage_def)
    ultimately have "gs_slots (fst s) (gs_committed (fst s)) = None" unfolding wired_def by blast
    with p show ?thesis by (simp add: pool_def pool_drained_def)
  qed
  then show ?case by (auto intro: triple_ret)
next
  case (Suc k)
  let ?K = "\<lambda>s. pool P {} False d n b s \<and> length calls \<le> gs_committed (fst s) + Suc k"
  have none: "pool P {} True d n b s" if "pool P {} False d n b s" "gs_slots (fst s) (gs_committed (fst s)) = None" for s
    using that by (simp add: pool_def pool_drained_def)
  have some: "gs_committed (fst s) < gs_started (fst s)"
    if "pool P {} False d n b s" "gs_slots (fst s) (gs_committed (fst s)) = Some v" for s v
    using that unfolding pool_def wired_def by blast
  have rest: "triple ends (\<lambda>s. pool P {} False d n b s \<and> gs_committed (fst s) = com \<and> com < gs_started (fst s))
      (then_do (if needsPost then then_do (group_await env) (\<lambda>_. result_of f) else result_of f') (\<lambda>result.
       then_do (group_get gs_callSeqs) (\<lambda>callSeqs.
       then_do (in_agent (appendToolResult env (gp_turn P) (gp_step P) (calls ! com) result (the (callSeqs com)))) (\<lambda>_.
       then_do (in_agent (for_each (acceptContext env) (ter_additionalContexts result))) (\<lambda>_.
       then_do (group_set (\<lambda>g. g\<lparr>gs_concluded := (gs_concluded g \<or> ter_concludesTurn result), gs_committed := Suc com\<rparr>)) (\<lambda>_.
       commit_ready env (gp_turn P) (gp_step P) calls k))))))
      (\<lambda>_. pool P {} True d n b) (\<lambda>_ s. hurt P (snd s))"
    if com: "com < length calls" "length calls \<le> Suc com + k" for com needsPost f f'
  proof (rule triple_then)
    let ?P = "\<lambda>s. pool P {} False d n b s \<and> gs_committed (fst s) = com \<and> com < gs_started (fst s)"
    show "triple ends ?P (if needsPost then then_do (group_await env) (\<lambda>_. result_of f) else result_of f')
        (\<lambda>_. ?P) (\<lambda>_ s. hurt P (snd s))"
      using group_await_triple [OF env, of "\<lambda>g. gs_committed g = com \<and> com < gs_started g" ends "{}" False d n b]
      by (auto intro!: triple_then triple_result intro: pool_hurt split: if_split)
    show "triple ends ?P
      (then_do (group_get gs_callSeqs) (\<lambda>callSeqs.
       then_do (in_agent (appendToolResult env (gp_turn P) (gp_step P) (calls ! com) result (the (callSeqs com)))) (\<lambda>_.
       then_do (in_agent (for_each (acceptContext env) (ter_additionalContexts result))) (\<lambda>_.
       then_do (group_set (\<lambda>g. g\<lparr>gs_concluded := (gs_concluded g \<or> ter_concludesTurn result), gs_committed := Suc com\<rparr>)) (\<lambda>_.
       commit_ready env (gp_turn P) (gp_step P) calls k)))))
      (\<lambda>_. pool P {} True d n b) (\<lambda>_ s. hurt P (snd s))" for result
    proof -
      have onward: "triple ends ?P (then_do
          (then_do (in_agent (appendToolResult env (gp_turn P) (gp_step P) (calls ! com) result seq)) (\<lambda>_.
           then_do (in_agent (for_each (acceptContext env) (ter_additionalContexts result))) (\<lambda>_.
           group_set (\<lambda>g. g\<lparr>gs_concluded := (gs_concluded g \<or> ter_concludesTurn result), gs_committed := Suc com\<rparr>))))
          (\<lambda>_. commit_ready env (gp_turn P) (gp_step P) calls k))
        (\<lambda>_. pool P {} True d n b) (\<lambda>_ s. hurt P (snd s))" for seq
        by (rule triple_then [OF commit_one [OF env dist ids com(1)]])
          (rule triple_pre [OF Suc.IH], use com(2) in simp)
      show ?thesis
        using onward unfolding triple_def then_do_assoc wp_then [of _ "group_get gs_callSeqs"] wp_group_get by blast
    qed
  qed
  show ?case
  proof (rule tripleI)
    fix s
    assume s: "?K s"
    show "wp ends (commit_ready env (gp_turn P) (gp_step P) calls (Suc k)) (\<lambda>_. pool P {} True d n b) (\<lambda>_ s. hurt P (snd s)) s"
    proof (cases "gs_slots (fst s) (gs_committed (fst s))")
      case None
      with s none show ?thesis by (simp add: wp_group)
    next
      case (Some v)
      obtain slot needsPost where v: "v = (slot, needsPost)" by (cases v)
      have c: "gs_committed (fst s) < gs_started (fst s)" using some s Some by blast
      moreover have "gs_started (fst s) \<le> length calls" using s ids by (simp add: pool_def stage_def)
      ultimately have "gs_committed (fst s) < length calls" by linarith
      from triple_wp [OF rest [OF this]] s c Some v show ?thesis
        by (simp add: wp_group)
    qed
  qed
qed

lemma commitReady_triple:
  assumes "env_ok (gp_strict P) env" and "distinct (gp_ids P)" and "gp_ids P = map call_id calls"
  shows "triple ends (pool P {} False d n b) (commitReady env (gp_turn P) (gp_step P) calls)
     (\<lambda>_. pool P {} True d n b) (\<lambda>_ s. hurt P (snd s))"
  unfolding commitReady_def triple_def wp_then wp_group_get
  using triple_wp [OF commit_ready_triple [OF assms]] by simp

section \<open>Starting\<close>

lemma stage_call:
  assumes s: "stage P com st ag" and st: "st < length (gp_ids P)" and i: "i = gp_ids P ! st"
    and Q: "\<And>ev ag'. stage P com (Suc st) ag' \<Longrightarrow> Q ev ag'"
  shows "wp ends (append_event env (ToolCall (gp_turn P) (gp_step P) i n a) no_intent) Q E ag"
proof -
  let ?ids = "gp_ids P"
  have com: "com \<le> st" using s by (simp add: stage_def)
  have app: "take (Suc st) ?ids = take st ?ids @ [i]" using st i by (simp add: take_Suc_conv_app_nth)
  have "drop com (take (Suc st) ?ids) = drop com (take st ?ids) @ [i]" unfolding app using com st by simp
  then have pend: "set (drop com (take (Suc st) ?ids)) = insert i (set (drop com (take st ?ids)))" by simp
  have m: "moves (step_cursor (gp_turn P) (gp_step P) (set (drop com (take st ?ids)))
        (gp_pre P @ take st ?ids) (gp_pre P @ take com ?ids)) (ToolCall (gp_turn P) (gp_step P) i n a) None
      (step_cursor (gp_turn P) (gp_step P) (set (drop com (take (Suc st) ?ids)))
        (gp_pre P @ take (Suc st) ?ids) (gp_pre P @ take com ?ids))"
    unfolding pend unfolding app using moves_in_step(3) [of "gp_turn P" "gp_step P" "set (drop com (take st ?ids))"
        "gp_pre P @ take st ?ids" "gp_pre P @ take com ?ids" i n a None] by simp
  have "stands (gp_strict P) (step_cursor (gp_turn P) (gp_step P) (set (drop com (take st ?ids)))
        (gp_pre P @ take st ?ids) (gp_pre P @ take com ?ids)) (gp_turn P) (gp_step P) ag"
    using s by (simp add: stage_def)
  from append_plain_wp [OF this m] show ?thesis
    using Q com st by (auto simp: stage_def plain_types)
qed

lemma appendToolCall_triple:
  assumes "st < length (gp_ids P)" and "call_id block = gp_ids P ! st"
  shows "triple ends (stage P com st) (appendToolCall env (gp_turn P) (gp_step P) block) (\<lambda>_. stage P com (Suc st)) E"
  unfolding triple_def appendToolCall_def wp_then wp_simps
  using assms by (auto intro!: stage_call)

text \<open>A call appended, and a call prepared.\<close>

lemma pool_calling:
  assumes "pool P {} r 0 n b s" and "stage P (gs_committed (fst s)) (Suc n) ag"
  shows "pool P {n} False (Suc 0) n b ((fst s)\<lparr>gs_callSeqs := q, gs_started := Suc (gs_started (fst s))\<rparr>, ag)"
  using assms by (auto simp: pool_def wired_def less_Suc_eq)

lemma pool_prepared:
  assumes "pool P {n} False (Suc 0) n b (g, ag)" and "gs_failure g = None"
  shows "pool P {} False (Suc 0) n (Suc b) (case prepared of
       DispatchCall \<Rightarrow> g\<lparr>gs_inFlight := gs_inFlight g @ [n], gs_outcomes := (gs_outcomes g)(n \<mapsto> oc)\<rparr>
     | PostResult r \<Rightarrow> g\<lparr>gs_slots := (gs_slots g)(n \<mapsto> (r, True))\<rparr>
     | FinalResult r \<Rightarrow> g\<lparr>gs_slots := (gs_slots g)(n \<mapsto> (r, False))\<rparr>, ag)"
  using assms by (cases prepared) (auto simp: pool_def wired_def)

lemma startCall_triple:
  assumes env: "env_ok (gp_strict P) env" and ids: "gp_ids P = map call_id calls" and n: "n < length calls"
  shows "triple ends (pool P {} r 0 n b) (startCall env (gp_turn P) (gp_step P) calls n)
     (\<lambda>_. pool P {} False (Suc 0) n (Suc b)) (\<lambda>_ s. hurt P (snd s))"
proof -
  have 1: "triple ends (pool P {} r 0 n b) (in_agent (appendToolCall env (gp_turn P) (gp_step P) (calls ! n)))
      (\<lambda>a s. pool P {n} False (Suc 0) n b ((fst s)\<lparr>gs_callSeqs := q a (fst s), gs_started := Suc (gs_started (fst s))\<rparr>, snd s))
      (\<lambda>_ s. hurt P (snd s))" for q
  proof (rule tripleI)
    fix s
    assume s: "pool P {} r 0 n b s"
    then have st: "stage P (gs_committed (fst s)) n (snd s)" by (simp add: pool_def)
    have i: "n < length (gp_ids P)" "call_id (calls ! n) = gp_ids P ! n" using n ids by simp_all
    show "wp ends (in_agent (appendToolCall env (gp_turn P) (gp_step P) (calls ! n)))
      (\<lambda>a s. pool P {n} False (Suc 0) n b ((fst s)\<lparr>gs_callSeqs := q a (fst s), gs_started := Suc (gs_started (fst s))\<rparr>, snd s))
      (\<lambda>_ s. hurt P (snd s)) s"
      unfolding wp_in_agent
      by (rule wp_mono [OF triple_wp [OF appendToolCall_triple [OF i] st]]) (simp_all add: pool_calling [OF s])
  qed
  show ?thesis
    unfolding startCall_def
    by (rule triple_then [OF 1 [where q = "\<lambda>a g. (gs_callSeqs g)(n \<mapsto> a)"]], rule triple_then [where R = "\<lambda>_. pool P {n} False (Suc 0) n b"])
      (auto simp: triple_def wp_group intro!: pool_prepared
        elim!: wp_mono [OF triple_wp [OF group_await_pool [OF env]]] wp_mono [OF triple_wp [OF throwSchedulerFailure_triple]]
        split: sum.split dest: pool_hurt)
qed

section \<open>Filling and draining\<close>

lemma hurt_tick:
  assumes env: "env_ok (gp_strict P) env" and "hurt P ag"
  shows "hurt P (tick (le_outside env) ag)"
proof -
  from assms(2) obtain com st p where "com \<le> st" "st \<le> length (gp_ids P)"
    and s: "stands (gp_strict P) (step_cursor (gp_turn P) (gp_step P) p
             (gp_pre P @ take st (gp_ids P)) (gp_pre P @ take com (gp_ids P))) (gp_turn P) (gp_step P) ag"
    unfolding hurt_def by blast
  moreover from stands_tick [OF s, of True "le_outside env"] env
  have "stands (gp_strict P) (step_cursor (gp_turn P) (gp_step P) p
      (gp_pre P @ take st (gp_ids P)) (gp_pre P @ take com (gp_ids P))) (gp_turn P) (gp_step P) (tick (le_outside env) ag)"
    by (simp add: env_ok_def)
  ultimately show ?thesis unfolding hurt_def by blast
qed

lemma hurt_await: "env_ok (gp_strict P) env \<Longrightarrow> triple ends (\<lambda>s. hurt P (snd s)) (group_await env) (\<lambda>_ s. hurt P (snd s)) E"
  unfolding group_await_def by (rule triple_updates) (auto intro: hurt_tick)

lemma note_abort_triple: "triple ends (pool P X r d n b) note_abort (\<lambda>_. pool P X r d n b) E"
  by (auto simp: triple_def note_abort_def wp_group pool_def wired_def pool_drained_def)

lemma throw_pool: "triple ends (pool P X r d n b) throwSchedulerFailure (\<lambda>_. pool P X r d n b) (\<lambda>_ s. hurt P (snd s))"
  by (rule triple_post [OF throwSchedulerFailure_triple]) simp_all

lemma commitReady_awaited:
  assumes "env_ok (gp_strict P) env" and "distinct (gp_ids P)" and "gp_ids P = map call_id calls"
  shows "triple ends (pool P {} False d n b) (awaited (group_await env) (commitReady env (gp_turn P) (gp_step P) calls))
     (\<lambda>_. pool P {} True d n b) (\<lambda>_ s. hurt P (snd s))"
  by (rule triple_awaited [OF commitReady_triple [OF assms] group_await_pool [OF assms(1)] hurt_await [OF assms(1)]])

lemma pool_begun:
  "pool P {} r (Suc 0) n (Suc b) s \<Longrightarrow> n < length (gp_ids P) \<Longrightarrow>
   pool P {} False 0 (Suc n) b ((fst s)\<lparr>gs_nextToStart := Suc (gs_nextToStart (fst s))\<rparr>, snd s)"
  by (auto simp: pool_def wired_def)

text \<open>One more call begun and whatever is ready committed.\<close>

lemma fill_one:
  assumes env: "env_ok (gp_strict P) env" and dist: "distinct (gp_ids P)" and ids: "gp_ids P = map call_id calls"
    and n: "n < length calls" and k: "triple ends (pool P {} True 0 (Suc n) b) k Q (\<lambda>_ s. hurt P (snd s))"
  shows "triple ends (pool P {} True 0 n b)
     (then_do (awaited (group_await env) (startCall env (gp_turn P) (gp_step P) calls n)) (\<lambda>_.
      then_do (group_set (\<lambda>g. g\<lparr>gs_nextToStart := Suc (gs_nextToStart g)\<rparr>)) (\<lambda>_.
      then_do throwSchedulerFailure (\<lambda>_.
      then_do (awaited (group_await env) (commitReady env (gp_turn P) (gp_step P) calls)) (\<lambda>_.
      then_do throwSchedulerFailure (\<lambda>_.
      then_do note_abort (\<lambda>_. k)))))))
     Q (\<lambda>_ s. hurt P (snd s))"
proof -
  have set: "triple ends (pool P {} False (Suc 0) n (Suc b)) (group_set (\<lambda>g. g\<lparr>gs_nextToStart := Suc (gs_nextToStart g)\<rparr>))
      (\<lambda>_. pool P {} False 0 (Suc n) b) (\<lambda>_ s. hurt P (snd s))"
    using n ids by (auto simp: triple_def wp_group dest: pool_begun)
  show ?thesis
    by (rule triple_then [OF triple_awaited [OF startCall_triple [OF env ids n] group_await_pool [OF env] hurt_await [OF env]]],
        rule triple_then [OF set], rule triple_then [OF throw_pool],
        rule triple_then [OF commitReady_awaited [OF env dist ids]], rule triple_then [OF throw_pool],
        rule triple_then [OF note_abort_triple], rule k)
qed

definition begun :: "call_block list \<Rightarrow> group_state \<Rightarrow> bool" where
  "begun calls g \<longleftrightarrow> gs_aborted g \<or> 0 < gs_started g \<or> calls = []"

lemma fill_pool_triple:
  assumes env: "env_ok (gp_strict P) env" and dist: "distinct (gp_ids P)" and ids: "gp_ids P = map call_id calls"
  shows "length calls = n + k \<Longrightarrow>
     triple ends (pool P {} True 0 n b) (fill_pool env (gp_turn P) (gp_step P) calls parallel k)
       (\<lambda>_ s. (\<exists>n. pool P {} True 0 n b s) \<and> begun calls (fst s)) (\<lambda>_ s. hurt P (snd s))"
proof (induction k arbitrary: n)
  case 0
  then show ?case by (auto intro!: triple_ret simp: begun_def pool_def)
next
  case (Suc k)
  have one: "triple ends (pool P {} True 0 n b)
     (then_do (awaited (group_await env) (startCall env (gp_turn P) (gp_step P) calls n)) (\<lambda>_.
      then_do (group_set (\<lambda>g. g\<lparr>gs_nextToStart := Suc (gs_nextToStart g)\<rparr>)) (\<lambda>_.
      then_do throwSchedulerFailure (\<lambda>_.
      then_do (awaited (group_await env) (commitReady env (gp_turn P) (gp_step P) calls)) (\<lambda>_.
      then_do throwSchedulerFailure (\<lambda>_.
      then_do note_abort (\<lambda>_. fill_pool env (gp_turn P) (gp_step P) calls parallel k)))))))
     (\<lambda>_ s. (\<exists>n. pool P {} True 0 n b s) \<and> begun calls (fst s)) (\<lambda>_ s. hurt P (snd s))"
    using Suc.prems by (intro fill_one [OF env dist ids] Suc.IH) simp_all
  have exit: "begun calls (fst s)" if "pool P {} True 0 n b s"
    "gs_aborted (fst s) \<or> le_maxParallel env \<le> length (gs_inFlight (fst s)) \<or> 0 < n" for s
  proof -
    have "0 < n" if "0 < length (gs_inFlight (fst s))"
    proof -
      have "hd (gs_inFlight (fst s)) \<in> set (gs_inFlight (fst s))" using that by simp
      moreover have "\<forall>i \<in> set (gs_inFlight (fst s)). i < gs_started (fst s)" "gs_started (fst s) = n"
        using \<open>pool P {} True 0 n b s\<close> unfolding pool_def wired_def by auto
      ultimately show ?thesis by fastforce
    qed
    moreover have "1 \<le> le_maxParallel env" using env by (simp add: env_ok_def)
    ultimately show ?thesis using that by (cases "gs_inFlight (fst s)") (auto simp: begun_def pool_def)
  qed
  show ?case
  proof (rule tripleI)
    fix s
    assume s: "pool P {} True 0 n b s"
    then have n: "gs_nextToStart (fst s) = n" by (simp add: pool_def)
    show "wp ends (fill_pool env (gp_turn P) (gp_step P) calls parallel (Suc k))
        (\<lambda>_ s. (\<exists>n. pool P {} True 0 n b s) \<and> begun calls (fst s)) (\<lambda>_ s. hurt P (snd s)) s"
    proof (cases "gs_aborted (fst s) \<or> le_maxParallel env \<le> length (gs_inFlight (fst s))
        \<or> 0 < n \<and> parallel \<and> \<not> le_executionMode env (ag_tick (snd s)) (planned_input env (calls ! n))")
      case True
      then have "begun calls (fst s)" using exit [OF s] by blast
      with True s show ?thesis
        by (auto simp: wp_then [of _ "group_get id"] wp_group_get wp_then [of _ "in_agent (reads ag_tick)"] wp_in_agent
            wp_simps n)
    next
      case False
      with triple_wp [OF one s] show ?thesis
        by (auto simp: wp_then [of _ "group_get id"] wp_group_get wp_then [of _ "in_agent (reads ag_tick)"] wp_in_agent
            wp_simps n not_le)
    qed
  qed
qed

lemma fillPool_triple:
  assumes "env_ok (gp_strict P) env" and "distinct (gp_ids P)" and ids: "gp_ids P = map call_id calls"
  shows "triple ends (pool P {} True 0 n b) (fillPool env (gp_turn P) (gp_step P) calls parallel)
     (\<lambda>_ s. (\<exists>n. pool P {} True 0 n b s) \<and> begun calls (fst s)) (\<lambda>_ s. hurt P (snd s))"
proof (rule tripleI)
  fix s
  assume s: "pool P {} True 0 n b s"
  then have "n \<le> length calls" "gs_nextToStart (fst s) = n" using ids by (simp_all add: pool_def stage_def)
  with triple_wp [OF fill_pool_triple [OF assms] s, of "length calls - n"]
  show "wp ends (fillPool env (gp_turn P) (gp_step P) calls parallel)
      (\<lambda>_ s. (\<exists>n. pool P {} True 0 n b s) \<and> begun calls (fst s)) (\<lambda>_ s. hurt P (snd s)) s"
    unfolding fillPool_def wp_then wp_group_get by simp
qed

lemma race_triple:
  assumes env: "env_ok (gp_strict P) env"
  shows "triple ends (\<lambda>s. pool P {} True 0 n b s \<and> gs_inFlight (fst s) \<noteq> []) (race env)
     (\<lambda>i s. pool P {} True 0 n b s \<and> i \<in> set (gs_settled (fst s))) E"
proof (rule tripleI)
  fix s
  assume s: "pool P {} True 0 n b s \<and> gs_inFlight (fst s) \<noteq> []"
  define earlier where "earlier = filter (\<lambda>i. i \<in> set (gs_settled (fst s))) (gs_inFlight (fst s))"
  let ?F = "\<lambda>g. gs_inFlight g \<noteq> [] \<and> set earlier \<subseteq> set (gs_settled g)"
  have F: "?F (settle_call g i)" if "?F g" for g i using that settle_settled [of g i] by auto
  have end_of: "pool P {} True 0 n b (settle_call (fst u) (hd (gs_inFlight (fst u))), snd u)
      \<and> gs_settled (settle_call (fst u) (hd (gs_inFlight (fst u)))) \<noteq> []"
    if "pool P {} True 0 n b u" "?F (fst u)" "gs_settled (fst u) = []" for u
  proof
    show "pool P {} True 0 n b (settle_call (fst u) (hd (gs_inFlight (fst u))), snd u)"
      using settle_pool [of P "{}" True 0 n b "fst u" "snd u"] that(1) by simp
    show "gs_settled (settle_call (fst u) (hd (gs_inFlight (fst u)))) \<noteq> []"
      using that(2, 3) by (auto simp: settle_call_def note_failure_def Let_def split: option.split sum.split)
  qed
  have "wp ends (group_await env) (\<lambda>_ u. pool P {} True 0 n b u \<and> ?F (fst u)) E s"
    by (rule triple_wp [OF group_await_triple [where F = ?F, OF env F]]) (use s in \<open>auto simp: earlier_def\<close>)
  then show "wp ends (race env) (\<lambda>i s. pool P {} True 0 n b s \<and> i \<in> set (gs_settled (fst s))) E s"
    unfolding race_def wp_then wp_group_get wp_group_set wp_simps earlier_def [symmetric]
    by (rule wp_mono) (use end_of hd_in_set in \<open>auto split: if_splits\<close>)
qed

lemma pool_deleted:
  assumes p: "pool P {} True 0 n (Suc b) (g, ag)" and i: "i \<in> set (gs_settled g)" and f: "gs_failure g = None"
  shows "pool P {} False 0 n b (delete_in_flight i g, ag)"
proof -
  have w: "wired {} g" using p by (simp add: pool_def)
  then have "i \<in> set (gs_inFlight g)" using i by (auto simp: wired_def)
  then have "length (removeAll i (gs_inFlight g)) < length (gs_inFlight g)"
    by (rule length_removeAll_less)
  moreover have "wired {} (delete_in_flight i g)"
    using w i f by (auto simp: wired_def delete_in_flight_def)
  ultimately show ?thesis using p by (auto simp: pool_def delete_in_flight_def)
qed

lemma delete_failure [simp]: "gs_failure (delete_in_flight i g) = gs_failure g"
  by (simp add: delete_in_flight_def)

lemma delete_triple:
  "triple ends (\<lambda>s. pool P {} True 0 n (Suc b) s \<and> i \<in> set (gs_settled (fst s)))
     (then_do (group_set (delete_in_flight i)) (\<lambda>_. throwSchedulerFailure))
     (\<lambda>_. pool P {} False 0 n b) (\<lambda>_ s. hurt P (snd s))"
  by (rule tripleI)
    (auto simp: throwSchedulerFailure_def wp_group intro: pool_deleted dest: pool_hurt split: option.split)

lemma drain_pool_triple:
  assumes env: "env_ok (gp_strict P) env" and dist: "distinct (gp_ids P)" and ids: "gp_ids P = map call_id calls"
  shows "triple ends (\<lambda>s. (\<exists>n. pool P {} True 0 n k s) \<and> begun calls (fst s))
     (drain_pool env (gp_turn P) (gp_step P) calls parallel k)
     (\<lambda>_ s. (\<exists>n b. pool P {} True 0 n b s) \<and> begun calls (fst s) \<and> gs_inFlight (fst s) = []) (\<lambda>_ s. hurt P (snd s))"
proof (induction k)
  case 0
  then show ?case by (auto simp: triple_def drain_pool.simps [of _ _ _ _ _ 0] wp_group pool_def)
next
  case (Suc k)
  let ?Q = "\<lambda>_ s. (\<exists>n b. pool P {} True 0 n b s) \<and> begun calls (fst s) \<and> gs_inFlight (fst s) = []"
  have fill: "triple ends (pool P {} True 0 n k) (awaited (group_await env) (fillPool env (gp_turn P) (gp_step P) calls parallel))
      (\<lambda>_ s. (\<exists>n. pool P {} True 0 n k s) \<and> begun calls (fst s)) (\<lambda>_ s. hurt P (snd s))" for n
  proof (rule triple_awaited [OF fillPool_triple [OF env dist ids] _ hurt_await [OF env]])
    have "begun calls (settle_call g i)" if "begun calls g" for g i using that by (simp add: begun_def)
    from group_await_triple [OF env, of "begun calls", OF this]
    show "triple ends (\<lambda>s. (\<exists>n. pool P {} True 0 n k s) \<and> begun calls (fst s)) (group_await env)
        (\<lambda>_ s. (\<exists>n. pool P {} True 0 n k s) \<and> begun calls (fst s)) (\<lambda>_ s. hurt P (snd s))"
      unfolding triple_def by (blast intro: wp_mono)
  qed
  have body: "triple ends (\<lambda>s. pool P {} True 0 n (Suc k) s \<and> gs_inFlight (fst s) \<noteq> [])
     (then_do (race env) (\<lambda>settledIndex.
       then_do (then_do (group_set (delete_in_flight settledIndex)) (\<lambda>_. throwSchedulerFailure)) (\<lambda>_.
       then_do (awaited (group_await env) (commitReady env (gp_turn P) (gp_step P) calls)) (\<lambda>_.
       then_do throwSchedulerFailure (\<lambda>_.
       then_do note_abort (\<lambda>_.
       then_do (awaited (group_await env) (fillPool env (gp_turn P) (gp_step P) calls parallel)) (\<lambda>_.
       drain_pool env (gp_turn P) (gp_step P) calls parallel k))))))) ?Q (\<lambda>_ s. hurt P (snd s))" for n
    by (rule triple_then [OF race_triple [OF env]], rule triple_then [OF delete_triple],
        rule triple_then [OF commitReady_awaited [OF env dist ids]], rule triple_then [OF throw_pool],
        rule triple_then [OF note_abort_triple], rule triple_then [OF fill], rule Suc.IH)
  show ?case
  proof (rule tripleI)
    fix s
    assume s: "(\<exists>n. pool P {} True 0 n (Suc k) s) \<and> begun calls (fst s)"
    then obtain n where n: "pool P {} True 0 n (Suc k) s" by blast
    show "wp ends (drain_pool env (gp_turn P) (gp_step P) calls parallel (Suc k)) ?Q (\<lambda>_ s. hurt P (snd s)) s"
    proof (cases "gs_inFlight (fst s) = []")
      case True
      with s n show ?thesis
        by (auto simp: drain_pool.simps [of _ _ _ _ _ "Suc k"] wp_then [of _ "group_get gs_inFlight"] wp_group_get wp_simps)
    next
      case False
      with triple_wp [OF body [of n]] n show ?thesis
        by (simp add: drain_pool.simps [of _ _ _ _ _ "Suc k"] wp_then [of _ "group_get gs_inFlight"] wp_group_get then_do_assoc)
    qed
  qed
qed

section \<open>A group\<close>

lemma pool_closed:
  assumes p: "pool P {} True 0 n b s" and "gs_inFlight (fst s) = []"
  shows "gs_committed (fst s) = n" and "gs_started (fst s) = n" and "stage P n n (snd s)"
proof -
  have w: "wired {} (fst s)" "pool_drained (fst s)" "gs_started (fst s) = n" and st: "stage P (gs_committed (fst s)) n (snd s)"
    using p by (simp_all add: pool_def)
  have "gs_failure (fst s) = None" using w(1) assms(2) by (auto simp: wired_def)
  moreover have "gs_slots (fst s) (gs_committed (fst s)) = None"
    using w(2) assms(2) unfolding pool_drained_def by (metis empty_iff list.set(1))
  ultimately have "\<not> gs_committed (fst s) < n" using w(1, 3) assms(2) unfolding wired_def by (metis empty_iff list.set(1) order_refl)
  then show "gs_committed (fst s) = n" using st by (simp add: stage_def)
  with st w(3) show "gs_started (fst s) = n" "stage P n n (snd s)" by simp_all
qed

lemma run_pool_triple:
  assumes env: "env_ok (gp_strict P) env" and dist: "distinct (gp_ids P)" and ids: "gp_ids P = map call_id calls"
  shows "triple ends (\<lambda>s. fst s = new_group a \<and> stage P 0 0 (snd s)) (run_pool env (gp_turn P) (gp_step P) calls parallel)
     (\<lambda>_ s. gs_committed (fst s) = gs_started (fst s) \<and> stage P (gs_started (fst s)) (gs_started (fst s)) (snd s)
        \<and> begun calls (fst s)) (\<lambda>_ s. hurt P (snd s))"
proof -
  have start: "pool P {} True 0 0 (length calls) s" if "fst s = new_group a \<and> stage P 0 0 (snd s)" for s
    using that ids by (simp add: pool_def new_group_def wired_def pool_drained_def)
  have fill: "triple ends (pool P {} True 0 0 (length calls))
      (awaited (group_await env) (fillPool env (gp_turn P) (gp_step P) calls parallel))
      (\<lambda>_ s. (\<exists>n. pool P {} True 0 n (length calls) s) \<and> begun calls (fst s)) (\<lambda>_ s. hurt P (snd s))"
  proof (rule triple_awaited [OF fillPool_triple [OF env dist ids] _ hurt_await [OF env]])
    have "begun calls (settle_call g i)" if "begun calls g" for g i using that by (simp add: begun_def)
    from group_await_triple [OF env, of "begun calls", OF this]
    show "triple ends (\<lambda>s. (\<exists>n. pool P {} True 0 n (length calls) s) \<and> begun calls (fst s)) (group_await env)
        (\<lambda>_ s. (\<exists>n. pool P {} True 0 n (length calls) s) \<and> begun calls (fst s)) (\<lambda>_ s. hurt P (snd s))"
      unfolding triple_def by (blast intro: wp_mono)
  qed
  have all: "triple ends (\<lambda>s. fst s = new_group a \<and> stage P 0 0 (snd s))
      (then_do (awaited (group_await env) (fillPool env (gp_turn P) (gp_step P) calls parallel)) (\<lambda>_.
        drain_pool env (gp_turn P) (gp_step P) calls parallel (length calls)))
      (\<lambda>_ s. gs_committed (fst s) = gs_started (fst s) \<and> stage P (gs_started (fst s)) (gs_started (fst s)) (snd s)
        \<and> begun calls (fst s)) (\<lambda>_ s. hurt P (snd s))"
    by (rule triple_pre [OF triple_then [OF fill triple_post [OF drain_pool_triple [OF env dist ids]]] start])
      (use pool_closed in auto)
  have handler: "triple ends (\<lambda>s. hurt P (snd s))
      (then_do (group_set (note_failure e)) (\<lambda>_. then_do (group_await env) (\<lambda>_.
         then_do (group_get gs_failure) (\<lambda>f. raise (the f))))) Q (\<lambda>_ s. hurt P (snd s))" for e Q
    by (rule triple_then [where R = "\<lambda>_ s. hurt P (snd s)"], simp add: triple_def wp_group,
        rule triple_then [OF hurt_await [OF env]]) (simp add: triple_def wp_group)
  show ?thesis
    unfolding run_pool_def
    by (rule triple_then [OF triple_try [where R = "\<lambda>r s. case r of
          Inl e \<Rightarrow> hurt P (snd s)
        | Inr _ \<Rightarrow> gs_committed (fst s) = gs_started (fst s) \<and> stage P (gs_started (fst s)) (gs_started (fst s)) (snd s)
            \<and> begun calls (fst s)"]])
      (use all handler in \<open>auto split: sum.split intro: triple_ret\<close>)
qed

text \<open>A call skipped after an abort is a pair of events.\<close>

lemma appendSkipped_triple:
  assumes "n < length (gp_ids P)" and "distinct (gp_ids P)" and "call_id block = gp_ids P ! n"
  shows "triple ends (stage P n n) (appendSkippedToolCall env (gp_turn P) (gp_step P) block)
     (\<lambda>_. stage P (Suc n) (Suc n)) (\<lambda>_. hurt P)"
  unfolding appendSkippedToolCall_def
  by (rule triple_then [OF appendToolCall_triple [OF assms(1, 3)]],
      rule triple_post [OF appendToolResult_triple [OF _ assms(2, 3)]]) (auto intro: stage_hurt)

lemma skip_all_triple:
  assumes dist: "distinct (gp_ids P)" and ids: "gp_ids P = map call_id calls"
  shows "triple ends (\<lambda>ag. n \<le> length calls \<and> stage P n n ag)
     (for_each (appendSkippedToolCall env (gp_turn P) (gp_step P)) (drop n calls))
     (\<lambda>_. stage P (length calls) (length calls)) (\<lambda>_. hurt P)"
proof -
  let ?R = "\<lambda>ys ag. \<exists>n. n \<le> length calls \<and> ys = drop n calls \<and> stage P n n ag"
  have "triple ends (?R (x # ys)) (appendSkippedToolCall env (gp_turn P) (gp_step P) x) (\<lambda>_. ?R ys) (\<lambda>_. hurt P)" for x ys
  proof (intro triple_ex triple_if_pure)
    fix n
    assume "n \<le> length calls" and "x # ys = drop n calls"
    then have n: "n < length calls" "x = calls ! n" "ys = drop (Suc n) calls"
      by (metis drop_eq_Nil list.distinct(1) not_le, metis hd_drop_conv_nth list.sel(1) drop_eq_Nil list.distinct(1) not_le,
          metis drop_Suc list.sel(3) tl_drop)
    show "triple ends (stage P n n) (appendSkippedToolCall env (gp_turn P) (gp_step P) x) (\<lambda>_. ?R ys) (\<lambda>_. hurt P)"
      by (rule triple_post [OF appendSkipped_triple [OF _ dist]]) (use n ids in \<open>auto intro!: exI [of _ "Suc n"]\<close>)
  qed
  from triple_for_each [where P = ?R, OF this, of "drop n calls"]
  show ?thesis by (rule triple_conseq) auto
qed

lemma wp_runGroup:
  "wp ends (runGroup env t s calls parallel) Q E ag =
     wp ends (run_pool env t s calls parallel) (\<lambda>_ u. wp ends (close_group env t s calls (fst u)) Q E (snd u))
       (\<lambda>e u. E e (snd u)) (new_group (phase_abort (ag_phase ag) \<noteq> None), ag)"
  by (simp add: wp_def runGroup_def split: option.split sum.split prod.split)

lemma runGroup_triple:
  assumes env: "env_ok (gp_strict P) env" and dist: "distinct (gp_ids P)" and ids: "gp_ids P = map call_id calls"
  shows "triple ends (stage P 0 0) (runGroup env (gp_turn P) (gp_step P) calls parallel)
     (\<lambda>out ag. stage P (gr_consumed out) (gr_consumed out) ag
        \<and> (gr_aborted out \<longrightarrow> gr_consumed out = length calls)
        \<and> (0 < gr_consumed out \<or> calls = [])) (\<lambda>_. hurt P)"
proof (rule tripleI)
  fix ag
  assume s: "stage P 0 0 ag"
  let ?Q = "\<lambda>out ag. stage P (gr_consumed out) (gr_consumed out) ag
        \<and> (gr_aborted out \<longrightarrow> gr_consumed out = length calls) \<and> (0 < gr_consumed out \<or> calls = [])"
  let ?g = "new_group (phase_abort (ag_phase ag) \<noteq> None)"
  have "wp ends (run_pool env (gp_turn P) (gp_step P) calls parallel)
      (\<lambda>_ s. gs_committed (fst s) = gs_started (fst s) \<and> stage P (gs_started (fst s)) (gs_started (fst s)) (snd s)
        \<and> begun calls (fst s)) (\<lambda>_ s. hurt P (snd s)) (?g, ag)"
    by (rule triple_wp [OF run_pool_triple [OF env dist ids]]) (simp add: s)
  moreover have "wp ends (close_group env (gp_turn P) (gp_step P) calls g) ?Q (\<lambda>_. hurt P) ag'"
    if g: "gs_committed g = gs_started g" "stage P (gs_started g) (gs_started g) ag'" "begun calls g" for g ag'
  proof (cases "gs_aborted g")
    case True
    have "gs_started g \<le> length calls" using g(2) ids by (simp add: stage_def)
    with g(2) have "wp ends (for_each (appendSkippedToolCall env (gp_turn P) (gp_step P)) (drop (gs_started g) calls))
        (\<lambda>_. stage P (length calls) (length calls)) (\<lambda>_. hurt P) ag'"
      by (intro triple_wp [OF skip_all_triple [OF dist ids]]) simp
    with True show ?thesis by (auto simp: close_group_def wp_then wp_simps elim!: wp_mono)
  next
    case False
    with g show ?thesis by (auto simp: close_group_def wp_simps begun_def)
  qed
  ultimately show "wp ends (runGroup env (gp_turn P) (gp_step P) calls parallel) ?Q (\<lambda>_. hurt P) ag"
    unfolding wp_runGroup by (auto elim!: wp_mono)
qed

section \<open>All the calls of a step\<close>

definition place :: "bool \<Rightarrow> nat \<Rightarrow> nat \<Rightarrow> string list \<Rightarrow> string list \<Rightarrow> group_place" where
  "place strict turn step pre ids = \<lparr>gp_strict = strict, gp_turn = turn, gp_step = step, gp_pre = pre, gp_ids = ids\<rparr>"

lemma place_simps [simp]:
  "gp_strict (place b t s pre ids) = b" "gp_turn (place b t s pre ids) = t" "gp_step (place b t s pre ids) = s"
  "gp_pre (place b t s pre ids) = pre" "gp_ids (place b t s pre ids) = ids"
  by (simp_all add: place_def)

lemma stage_place: "stage (place b t s pre ids) n n ag \<longleftrightarrow>
   n \<le> length ids \<and> stands b (step_cursor t s {} (pre @ take n ids) (pre @ take n ids)) t s ag"
  by (simp add: stage_def)

lemma hurt_later:
  assumes "hurt (place b t s (pre @ take c ids) ids') ag" and "ids' = take n (drop c ids)"
  shows "hurt (place b t s pre ids) ag"
proof -
  from assms obtain com st p where "com \<le> st" "st \<le> length ids'"
    and s: "stands b (step_cursor t s p ((pre @ take c ids) @ take st ids') ((pre @ take c ids) @ take com ids')) t s ag"
    unfolding hurt_def by auto
  have "take c ids @ take m ids' = take (length (take c ids) + m) ids" if "m \<le> length ids'" for m
    using that assms(2) by (cases "c \<le> length ids") (auto simp: take_add min_def split: if_splits)
  with s \<open>com \<le> st\<close> \<open>st \<le> length ids'\<close> have
    "stands b (step_cursor t s p (pre @ take (length (take c ids) + st) ids) (pre @ take (length (take c ids) + com) ids)) t s ag"
    by simp
  moreover have "length (take c ids) + st \<le> length ids" using \<open>st \<le> length ids'\<close> assms(2) by auto
  ultimately show ?thesis unfolding hurt_def using \<open>com \<le> st\<close> 
    by (intro exI [of _ "length (take c ids) + com"] exI [of _ "length (take c ids) + st"] exI [of _ p]) auto
qed

lemma tool_groups_triple:
  assumes env: "env_ok strict env"
  shows "length planned \<le> k \<Longrightarrow> distinct (map call_id planned) \<Longrightarrow>
    triple ends (stands strict (step_cursor t s {} pre pre) t s) (tool_groups env t s planned concluded k)
      (\<lambda>_. stands strict (step_cursor t s {} (pre @ map call_id planned) (pre @ map call_id planned)) t s)
      (\<lambda>_. hurt (place strict t s pre (map call_id planned)))"
proof (induction k arbitrary: planned pre concluded)
  case 0
  then show ?case by (auto intro: triple_ret)
next
  case (Suc k)
  show ?case
  proof (cases planned)
    case Nil
    then show ?thesis by (auto intro: triple_ret)
  next
    case (Cons first rest)
    then have some: "planned \<noteq> []" by simp
    let ?ids = "map call_id planned"
    let ?Q = "\<lambda>_. stands strict (step_cursor t s {} (pre @ ?ids) (pre @ ?ids)) t s"
    let ?E = "\<lambda>_. hurt (place strict t s pre ?ids)"
    have whole: "hurt (place strict t s pre ?ids) ag" if "hurt (place strict t s (pre @ take c ?ids) (drop c ?ids)) ag" for c ag
      using hurt_later [OF that, of "length ?ids"] by simp
    have group: "triple ends (stands strict (step_cursor t s {} pre pre) t s)
        (then_do (awaited (await_host env) (runGroup env t s (take m planned) parallel)) (\<lambda>outcome.
         if gr_aborted outcome then
           then_do (for_each (appendSkippedToolCall env t s) (drop (gr_consumed outcome) planned)) (\<lambda>_. ret (c' outcome))
         else tool_groups env t s (drop (gr_consumed outcome) planned) (c' outcome) k)) ?Q ?E"
      if m: "0 < m" for m parallel c'
    proof -
      let ?P = "place strict t s pre (map call_id (take m planned))"
      have dist: "distinct (gp_ids ?P)" using Suc.prems(2) by (simp add: take_map [symmetric])
      have sub: "stands strict (step_cursor t s {} (pre @ take n ?ids) (pre @ take n ?ids)) t s ag"
        and le: "n \<le> length planned" if "stage ?P n n ag" for n ag
        using that by (auto simp: stage_place take_map)
      have outer: "stage (place strict t s pre ?ids) n n ag" if "stage ?P n n ag" for n ag
        using sub [OF that] le [OF that] by (simp add: stage_place)
      have bad: "hurt (place strict t s pre ?ids) ag" if "hurt ?P ag" for ag
        by (rule hurt_later [of strict t s pre 0 ?ids "map call_id (take m planned)" ag m]) (use that in \<open>simp_all add: take_map\<close>)
      have run: "triple ends (stands strict (step_cursor t s {} pre pre) t s) (runGroup env t s (take m planned) parallel)
          (\<lambda>out ag. stage (place strict t s pre ?ids) (gr_consumed out) (gr_consumed out) ag \<and> 0 < gr_consumed out)
          (\<lambda>_. hurt (place strict t s pre ?ids))"
      proof (rule triple_conseq)
        show "triple ends (stage ?P 0 0) (runGroup env t s (take m planned) parallel)
          (\<lambda>out ag. stage ?P (gr_consumed out) (gr_consumed out) ag
             \<and> (gr_aborted out \<longrightarrow> gr_consumed out = length (take m planned)) \<and> (0 < gr_consumed out \<or> take m planned = []))
          (\<lambda>_. hurt ?P)"
          using runGroup_triple [OF _ dist, of env "take m planned" ends parallel, unfolded place_simps, OF env refl] .
      qed (use m some in \<open>auto simp: stage_place [of _ _ _ _ _ 0] intro: outer bad\<close>)
      have wait: "triple ends (\<lambda>ag. stage (place strict t s pre ?ids) n n ag \<and> 0 < n) (await_host env)
          (\<lambda>_ ag. stage (place strict t s pre ?ids) n n ag \<and> 0 < n) E" for n E
        unfolding await_host_def by (rule triple_updates) (use env in \<open>auto intro: stage_tick\<close>)
      have wait': "triple ends (hurt (place strict t s pre ?ids)) (await_host env) (\<lambda>_. hurt (place strict t s pre ?ids)) E" for E
        unfolding await_host_def by (rule triple_updates) (use env in \<open>auto intro: hurt_tick\<close>)
      show ?thesis
      proof (rule triple_then [OF triple_awaited [OF run wait wait']])
        fix out :: group_outcome
        have skip: "triple ends (\<lambda>ag. stage (place strict t s pre ?ids) (gr_consumed out) (gr_consumed out) ag \<and> 0 < gr_consumed out)
            (for_each (appendSkippedToolCall env t s) (drop (gr_consumed out) planned)) ?Q ?E"
          by (rule triple_conseq [OF skip_all_triple
                [of "place strict t s pre ?ids" planned ends "gr_consumed out" env, unfolded place_simps, OF Suc.prems(2) refl]])
            (auto simp: stage_place)
        have onward: "triple ends (\<lambda>ag. stage (place strict t s pre ?ids) (gr_consumed out) (gr_consumed out) ag \<and> 0 < gr_consumed out)
            (tool_groups env t s (drop (gr_consumed out) planned) (c' out) k) ?Q ?E"
        proof (cases "0 < gr_consumed out")
          case True
          have "triple ends (stands strict (step_cursor t s {} (pre @ take (gr_consumed out) ?ids) (pre @ take (gr_consumed out) ?ids)) t s)
              (tool_groups env t s (drop (gr_consumed out) planned) (c' out) k)
              (\<lambda>_. stands strict (step_cursor t s {} ((pre @ take (gr_consumed out) ?ids) @ map call_id (drop (gr_consumed out) planned))
                  ((pre @ take (gr_consumed out) ?ids) @ map call_id (drop (gr_consumed out) planned))) t s)
              (\<lambda>_. hurt (place strict t s (pre @ take (gr_consumed out) ?ids) (map call_id (drop (gr_consumed out) planned))))"
            by (rule Suc.IH) (use Suc.prems True in \<open>auto simp: drop_map [symmetric] simp del: distinct_map\<close>)
          then show ?thesis
            by (rule triple_conseq) (auto simp: stage_place drop_map [symmetric] intro: whole)
        next
          case False
          then show ?thesis by (simp add: triple_def)
        qed
        show "triple ends (\<lambda>ag. stage (place strict t s pre ?ids) (gr_consumed out) (gr_consumed out) ag \<and> 0 < gr_consumed out)
            (if gr_aborted out then
               then_do (for_each (appendSkippedToolCall env t s) (drop (gr_consumed out) planned)) (\<lambda>_. ret (c' out))
             else tool_groups env t s (drop (gr_consumed out) planned) (c' out) k) ?Q ?E"
          using onward triple_then [OF skip, of "\<lambda>_. ret (c' out)" ?Q] by (auto intro: triple_ret)
      qed
    qed
    have "take 1 planned = [first]" "take (length planned) planned = first # rest" using Cons by simp_all
    note g1 = group [of 1, unfolded this(1)] and g2 = group [of "length planned", unfolded this(2)]
    show ?thesis
      unfolding Cons tool_groups.simps Let_def
      by (rule triple_then_reads, rule triple_pre [where P = "stands strict (step_cursor t s {} pre pre) t s"])
        (use g1 g2 Cons in \<open>auto split: if_splits\<close>)
  qed
qed

lemma executeToolCalls_triple:
  assumes "env_ok strict env" and "distinct (map call_id calls)"
  shows "triple ends (stands strict (step_cursor t s {} [] []) t s) (executeToolCalls env t s calls)
      (\<lambda>_. stands strict (step_cursor t s {} (map call_id calls) (map call_id calls)) t s)
      (\<lambda>_. hurt (place strict t s [] (map call_id calls)))"
  unfolding executeToolCalls_def
  using tool_groups_triple [OF assms(1) order_refl assms(2), of ends t s "[]" False] by simp

end
