(* ===== verification/Request_Laws.thy ===== *)
theory Request_Laws
  imports Scheduler_Laws Metering_Laws
begin

text \<open>
  The request of a step: building it leaves the surface alone, so what is handed to the model is the derivation of
  the log at that moment under the header the log folds to.
\<close>

section \<open>Logs that leave the surface alone\<close>

definition quiet_log :: "session_event list \<Rightarrow> session_event list \<Rightarrow> bool" where
  "quiet_log xs ys \<longleftrightarrow> (\<exists>evs. ys = xs @ evs \<and> (\<forall>ev \<in> set evs. \<not> isSurfaceEvent ev))"

lemma quiet_log_refl [simp]: "quiet_log xs xs"
  by (simp add: quiet_log_def)

lemma quiet_log_trans: "quiet_log xs ys \<Longrightarrow> quiet_log ys zs \<Longrightarrow> quiet_log xs zs"
  unfolding quiet_log_def by (metis UnE append.assoc set_append)

lemma quiet_log_spliced: "spliced_log xs ys \<Longrightarrow> quiet_log xs ys"
  by (fastforce simp: spliced_log_def splices_def quiet_log_def isSurfaceEvent_def plain_types)

lemma foldSurface_quiet:
  assumes "foldSurface xs = Inr (st, reps)" and "foldSurface (xs @ evs) = Inr r" and "\<forall>ev \<in> set evs. \<not> isSurfaceEvent ev"
  shows "foldSurface (xs @ evs) = Inr (st, reps)"
  using assms
proof (induction evs arbitrary: r rule: rev_induct)
  case Nil
  then show ?case by simp
next
  case (snoc ev evs)
  have s: "foldSurface ((xs @ evs) @ [ev]) = Inr (fst r, snd r)" using snoc.prems(2) by simp
  then show ?case
  proof (rule foldSurface_snoc_cases)
    fix st0 reps0 q
    assume f: "foldSurface (xs @ evs) = Inr (st0, reps0)"
      and a: "applySurfaceEvent st0 ev (length (xs @ evs)) (xs @ evs) 0 = Inr (fst r, q)"
      and reps: "snd r = reps0 @ (case q of None \<Rightarrow> [] | Some x \<Rightarrow> [x])"
    from snoc.IH [OF snoc.prems(1) f] snoc.prems(3) f have "st0 = st" "reps0 = reps" by simp_all
    moreover have "fst r = st0 \<and> q = None"
      using surface_only_grows_on_surface [OF a] snoc.prems(3) by simp
    ultimately show ?thesis using s reps by simp
  qed
qed

lemma derivedMessages_quiet:
  assumes "session_ok s" and "session_ok s'" and "quiet_log (s_log s) (s_log s')"
  shows "derivedMessages (s_log s') = derivedMessages (s_log s)"
proof -
  from assms(3) obtain evs where evs: "s_log s' = s_log s @ evs" "\<forall>ev \<in> set evs. \<not> isSurfaceEvent ev"
    by (auto simp: quiet_log_def)
  from deriveMessages_ok [OF assms(1)] obtain st reps where f: "foldSurface (s_log s) = Inr (st, reps)" by blast
  from deriveMessages_ok [OF assms(2)] obtain r where "foldSurface (s_log s @ evs) = Inr r" using evs(1) by auto
  from foldSurface_quiet [OF f this evs(2)] have f': "foldSurface (s_log s @ evs) = Inr (st, reps)" .
  have "derive_nodes (s_log s @ evs) (sf_nodes st) = derive_nodes (s_log s) (sf_nodes st)"
    using foldSurface_nodes_bound [OF f]
    by (auto simp: derive_nodes_def List.map_filter_def nth_append intro!: map_cong filter_cong)
  then show ?thesis using f f' evs(1) by (simp add: derivedMessages_def)
qed

lemma deriveMessages_derived:
  assumes "session_ok s" and "deriveMessages s = Inr (s', ms)"
  shows "ms = derivedMessages (s_log s)" and "session_ok s'" and "s_log s' = s_log s"
  using deriveMessages_ok [OF assms(1)] assms(2) by (auto simp: derivedMessages_def)

section \<open>Other code while a request is built\<close>

lemma outside_do_quiet:
  assumes "session_ok (ag_session ag)" and "outside_quiet op"
  shows "quiet_log (ag_log ag) (ag_log (outside_do ag op))"
proof (cases op)
  case (OutSend now m target wakeup)
  show ?thesis
  proof (cases "agent_send now m target wakeup ag")
    case (Inr r)
    then obtain ag' st where r: "agent_send now m target wakeup ag = Inr (ag', st)" by (metis surj_pair)
    have "ag_inbox (fst (wakeDriver b a)) = ag_inbox a" for b a
      by (simp add: wakeDriver_def setPhase_def Let_def split: agent_phase.split)
    then have "ag_inbox ag' = ag_inbox a" if "wakeDriver b a = (ag', st)" for b a
      using that by (metis fst_conv)
    with r have "spliced_log (ag_log ag) (ag_log ag')"
      by (fastforce simp: agent_send_def Let_def bind_res_Inr_iff dest: inbox_splice_log split: if_splits)
    with r OutSend show ?thesis by (simp add: quiet_log_spliced)
  qed (simp add: OutSend)
next
  case (OutCancel now cause keepInbox)
  show ?thesis
  proof (cases "agent_cancel now cause keepInbox ag")
    case (Inr ag')
    then have "spliced_log (ag_log ag) (ag_log ag')"
      by (auto simp: agent_cancel_def bind_res_Inr_iff dest!: inbox_clear_log split: if_splits)
    with Inr OutCancel show ?thesis by (simp add: quiet_log_spliced)
  qed (simp add: OutCancel)
next
  case (OutInbox now iop)
  then show ?thesis using inbox_step_log [of "ag_inbox ag" "(now, iop)"] by (simp add: quiet_log_spliced)
next
  case (OutAppend now d opts)
  then show ?thesis using assms agent_append_drifts(1, 2) [OF assms(1)]
    by (fastforce simp: outside_quiet_def quiet_log_def isSurfaceEvent_def split: sum.splits)
next
  case (OutRead r)
  then show ?thesis using session_read_step(2) [OF assms(1), of r]
    by (cases r) (auto simp: set_session_def)
qed

lemma outside_all_quiet:
  assumes "placed c (ag_inbox ag)" and "\<forall>op \<in> set ops. outside_ok in_turn op \<and> outside_quiet op"
    and "in_turn \<longrightarrow> cu_turn c \<noteq> None" and "\<not> phase_idle (ag_phase ag)"
  shows "quiet_log (ag_log ag) (ag_log (outside_all ops ag))"
  using assms
proof (induction ops arbitrary: ag)
  case Nil
  then show ?case by (simp add: outside_all_def)
next
  case (Cons op ops)
  have 1: "placed c (ag_inbox (outside_do ag op))" "drifts ag (outside_do ag op)"
    using outside_do_kept [of c ag in_turn op] Cons.prems by auto
  then have "\<not> phase_idle (ag_phase (outside_do ag op))"
    using Cons.prems(4) by (auto simp: drifts_def dest: same_activity_idle)
  from Cons.IH [OF 1(1) _ Cons.prems(3) this] Cons.prems(2)
  have "quiet_log (ag_log (outside_do ag op)) (ag_log (outside_all ops (outside_do ag op)))" by simp
  moreover have "quiet_log (ag_log ag) (ag_log (outside_do ag op))"
    using Cons.prems(1, 2) by (auto intro!: outside_do_quiet dest: placed_session)
  ultimately show ?case by (auto simp: outside_all_def intro: quiet_log_trans)
qed

section \<open>A request being built\<close>

text \<open>The step has no call yet, and when \<open>strict\<close> the log still derives the messages read at its start.\<close>

definition building :: "bool \<Rightarrow> nat \<Rightarrow> nat \<Rightarrow> string set \<Rightarrow> message list \<Rightarrow> agent \<Rightarrow> bool" where
  "building strict t s p ms ag \<longleftrightarrow>
     stands strict (step_cursor t s p [] []) t s ag \<and> (strict \<longrightarrow> derivedMessages (ag_log ag) = ms)"

definition headed :: "bool \<Rightarrow> nat \<Rightarrow> nat \<Rightarrow> string set \<Rightarrow> message list \<Rightarrow> epoch_header \<Rightarrow> agent \<Rightarrow> bool" where
  "headed strict t s p ms h ag \<longleftrightarrow> building strict t s p ms ag \<and> foldRequestHeader (ag_log ag) None = Some h"

lemma stands_session: "stands strict c t s ag \<Longrightarrow> session_ok (ag_session ag)"
  by (auto simp: stands_def active_def dest: placed_session)

lemma building_later:
  assumes "building strict t s p ms ag" and "stands strict (step_cursor t s p [] []) t s ag'"
    and "strict \<longrightarrow> quiet_log (ag_log ag) (ag_log ag')"
  shows "building strict t s p ms ag'"
  using assms derivedMessages_quiet stands_session unfolding building_def by blast

lemma foldRequestHeader_none:
  "\<forall>ev \<in> set evs. \<forall>h r. ev_data ev \<noteq> RequestHeader h r \<Longrightarrow> foldRequestHeader evs x = x"
  by (induction evs) (auto split: event_data.split)

lemma foldRequestHeader_kept:
  "\<forall>ev \<in> set evs. \<forall>h r. ev_data ev \<noteq> RequestHeader h r \<Longrightarrow> foldRequestHeader (xs @ evs) x = foldRequestHeader xs x"
  by (simp add: foldRequestHeader_append foldRequestHeader_none)

lemma drifts_header: "drifts ag ag' \<Longrightarrow> foldRequestHeader (ag_log ag') None = foldRequestHeader (ag_log ag) None"
  by (auto simp: drifts_def foldRequestHeader_kept)

lemma building_tick:
  assumes env: "env_ok strict env" and b: "building strict t s p ms ag"
  shows "building strict t s p ms (tick (le_building env) ag)"
    and "foldRequestHeader (ag_log (tick (le_building env) ag)) None = foldRequestHeader (ag_log ag) None"
proof -
  have s: "stands strict (step_cursor t s p [] []) t s ag" using b by (simp add: building_def)
  have ok: "\<And>n. list_all (outside_ok True) (le_building env n)" using env by (simp add: env_ok_def)
  have "stands strict (step_cursor t s p [] []) t s (tick (le_building env) ag)"
    by (rule stands_tick [OF s ok]) simp
  moreover have "quiet_log (ag_log ag) (ag_log (tick (le_building env) ag))" if strict
    using outside_all_quiet [of "step_cursor t s p [] []" ag "le_building env (ag_tick ag)" True] s that ok env
    by (auto simp: tick_def env_ok_def list_all_iff stands_def active_def driving_def)
  ultimately show "building strict t s p ms (tick (le_building env) ag)"
    using building_later [OF b] by blast
  show "foldRequestHeader (ag_log (tick (le_building env) ag)) None = foldRequestHeader (ag_log ag) None"
    by (rule drifts_header, rule tick_phase(1) [OF s ok]) simp
qed

lemma await_building_triple:
  assumes "env_ok strict env"
  shows "triple ends (building strict t s p ms) (await_building env) (\<lambda>_. building strict t s p ms) E"
    and "triple ends (headed strict t s p ms h) (await_building env) (\<lambda>_. headed strict t s p ms h) E"
  unfolding await_building_def
  by (auto intro!: triple_updates simp: headed_def building_tick [OF assms])

lemma build_call_triple:
  assumes "env_ok strict env"
  shows "triple ends (building strict t s p ms) (build_call env f) (\<lambda>_. building strict t s p ms) (\<lambda>_. building strict t s p ms)"
  unfolding build_call_def
  by (rule triple_then [OF triple_reads [where Q = "\<lambda>_. building strict t s p ms"]], assumption,
      rule triple_then [OF await_building_triple(1) [OF assms]], rule triple_result)

lemma stands_set_session:
  assumes "stands strict c t s ag" and "session_ok q" and "s_log q = ag_log ag" and "s_header q = s_header (ag_session ag)"
  shows "stands strict c t s (set_session q ag)"
proof -
  have "placed c (ag_inbox ag)" using assms(1) by (simp add: stands_def active_def)
  from placed_same_log [OF this assms(2-4)] assms(1, 3) show ?thesis
    by (simp add: stands_def active_def driving_def set_session_def requests_ok_def)
qed

lemma building_set_session:
  "building strict t s p ms ag \<Longrightarrow> session_ok q \<Longrightarrow> s_log q = ag_log ag \<Longrightarrow> s_header q = s_header (ag_session ag)
   \<Longrightarrow> building strict t s p ms (set_session q ag)"
  by (auto simp: building_def intro: stands_set_session) (simp add: set_session_def)

lemma read_header_triple:
  "triple ends (building strict t s p ms) read_header
     (\<lambda>h ag. building strict t s p ms ag \<and> foldRequestHeader (ag_log ag) None = h) E"
proof (rule tripleI)
  fix ag
  assume b: "building strict t s p ms ag"
  then have ok: "session_ok (ag_session ag)" by (auto simp: building_def dest: stands_session)
  obtain q h where r: "requestHeader (ag_session ag) = (q, h)" by (metis surj_pair)
  from requestHeader_ok [OF ok r] requestHeader_header [of "ag_session ag"] r
  have "building strict t s p ms (set_session q ag)" "foldRequestHeader (ag_log (set_session q ag)) None = h"
    by (auto intro: building_set_session [OF b]) (simp add: set_session_def)
  with r show "wp ends read_header (\<lambda>h ag. building strict t s p ms ag \<and> foldRequestHeader (ag_log ag) None = h) E ag"
    by (simp add: wp_def read_header_def)
qed

lemma read_context_triple:
  "triple ends (headed strict t s p ms h) read_context (\<lambda>_. headed strict t s p ms h) E"
proof (rule tripleI)
  fix ag
  assume b: "headed strict t s p ms h ag"
  then have ok: "session_ok (ag_session ag)" by (auto simp: building_def headed_def dest: stands_session)
  obtain q c where r: "requestContext (ag_session ag) = (q, c)" by (metis surj_pair)
  from requestContext_ok [OF ok r] requestContext_header [of "ag_session ag"] r b
  have "headed strict t s p ms h (set_session q ag)"
    by (auto simp: headed_def intro: building_set_session) (simp add: set_session_def)
  with r show "wp ends read_context (\<lambda>_. headed strict t s p ms h) E ag"
    by (simp add: wp_def read_context_def)
qed

section \<open>The header and the context\<close>

lemma building_append:
  assumes b: "building strict t s p ms ag" and m: "moves (step_cursor t s p [] []) d None (step_cursor t s p [] [])"
    and d: "\<And>sp. d \<noteq> InboxSpliced sp" "\<not> isSurfaceEligibleType (event_type d)" "event_type d \<noteq> ''request/header-delta''"
    and Q: "\<And>ev ag'. building strict t s p ms ag' \<Longrightarrow> foldRequestHeader (ag_log ag') None
        = (case d of RequestHeader h _ \<Rightarrow> Some (canonicalHeader h) | _ \<Rightarrow> foldRequestHeader (ag_log ag) None) \<Longrightarrow> Q ev ag'"
  shows "wp ends (append_event env d no_intent) Q E ag"
proof (rule append_plain_wp [OF _ m d])
  show "stands strict (step_cursor t s p [] []) t s ag" using b by (simp add: building_def)
  fix ev ag'
  assume s: "stands strict (step_cursor t s p [] []) t s ag'" and a: "appended ag d ev ag'"
  have "quiet_log (ag_log ag) (ag_log ag')"
    using a d(2) by (auto simp: appended_def quiet_log_def isSurfaceEvent_def)
  moreover have "foldRequestHeader (ag_log ag') None
      = (case d of RequestHeader h _ \<Rightarrow> Some (canonicalHeader h) | _ \<Rightarrow> foldRequestHeader (ag_log ag) None)"
    using a by (simp add: appended_def foldRequestHeader_append split: event_data.split)
  ultimately show "Q ev ag'" using Q building_later [OF b s] by blast
qed

lemma log_header_triple:
  assumes "canonicalHeader header = header"
  shows "triple ends (building strict t s p ms) (log_header env header) (\<lambda>_. headed strict t s p ms header) E"
  unfolding log_header_def
proof (rule triple_then [OF read_header_triple], rule tripleI)
  fix baseline ag
  assume b: "building strict t s p ms ag \<and> foldRequestHeader (ag_log ag) None = baseline"
  have add: "wp ends (append_event env (RequestHeader header r) no_intent) (\<lambda>_. headed strict t s p ms header) E ag" for r
    using b assms by (intro building_append) (auto intro!: moves_in_step simp: headed_def plain_types)
  have same: "headed strict t s p ms header ag" if "baseline = Some h" "headerEquals h header" for h
    using that b headerEquals_canonical [OF foldRequestHeader_canonical assms, of "ag_log ag" None h]
    by (simp add: headed_def)
  have flag: "headed strict t s p ms header (x\<lparr>ag_headerLogged := True\<rparr>) = headed strict t s p ms header x" for x
    by (simp add: headed_def building_def stands_def active_def driving_def requests_ok_def)
  show "wp ends
     (then_do (reads ag_headerLogged) (\<lambda>logged.
     if \<not> logged then
       then_do (append_event env
         (RequestHeader header (if baseline = None then InitialHeader else ResumeHeader)) no_intent) (\<lambda>_.
       updates (\<lambda>ag. ag\<lparr>ag_headerLogged := True\<rparr>))
     else if (case baseline of None \<Rightarrow> True | Some b \<Rightarrow> \<not> headerEquals b header) then
       then_do (append_event env (RequestHeader header ChangeHeader) no_intent) (\<lambda>_. ret ())
     else ret ())) (\<lambda>_. headed strict t s p ms header) E ag"
    using add same by (auto simp: wp_then wp_simps flag split: option.splits elim!: wp_mono)
qed

lemma log_context_triple:
  "triple ends (headed strict t s p ms h) (log_context env rc) (\<lambda>_. headed strict t s p ms h) E"
  unfolding log_context_def
proof (rule triple_then [OF read_context_triple], rule tripleI)
  fix previous ag
  assume b: "headed strict t s p ms h ag"
  have "wp ends (append_event env (RequestContext rc) no_intent) (\<lambda>_. headed strict t s p ms h) E ag"
    using b by (intro building_append) (auto intro!: moves_in_step simp: headed_def plain_types)
  then show "wp ends
     (if (case previous of None \<Rightarrow> True
         | Some p \<Rightarrow> rc_provider p \<noteq> rc_provider rc \<or> rc_model p \<noteq> rc_model rc
             \<or> rc_contextWindow p \<noteq> rc_contextWindow rc)
      then then_do (append_event env (RequestContext rc) no_intent) (\<lambda>_. ret ())
      else ret ()) (\<lambda>_. headed strict t s p ms h) E ag"
    using b by (auto simp: wp_then wp_simps elim!: wp_mono)
qed

section \<open>The request\<close>

lemma triple_cond:
  "(b \<Longrightarrow> triple ends P m Q E) \<Longrightarrow> (\<not> b \<Longrightarrow> triple ends P n Q E) \<Longrightarrow> triple ends P (if b then m else n) Q E"
  by simp

lemma triple_pair: "(\<And>x y. triple ends P (k x y) Q E) \<Longrightarrow> triple ends P (case p of (x, y) \<Rightarrow> k x y) Q E"
  by (cases p) simp

text \<open>What \<open>buildRequest\<close> returns fits the log it leaves.\<close>

definition requesting :: "bool \<Rightarrow> nat \<Rightarrow> nat \<Rightarrow> string set \<Rightarrow> generate_options \<Rightarrow> agent \<Rightarrow> bool" where
  "requesting strict t s p r ag \<longleftrightarrow>
     (\<exists>h ms. headed strict t s p ms h ag \<and> r = request_of h ms)"

lemma building_stands: "building strict t s p ms ag \<Longrightarrow> stands strict (step_cursor t s p [] []) t s ag"
  by (simp add: building_def)

lemma requestingI: "headed strict t s p ms h ag \<Longrightarrow> requesting strict t s p (request_of h ms) ag"
  unfolding requesting_def by blast

lemma requesting_stands: "requesting strict t s p r ag \<Longrightarrow> stands strict (step_cursor t s p [] []) t s ag"
  by (auto simp: requesting_def headed_def building_def)

lemma buildRequest_triple:
  assumes env: "env_ok strict env"
  shows "triple ends (building strict t s p ms) (buildRequest env tools system ms)
     (requesting strict t s p) (\<lambda>_. building strict t s p ms)"
proof -
  let ?B = "building strict t s p ms"
  have call: "triple ends ?B (build_call env f) (\<lambda>_. ?B) (\<lambda>_. ?B)" for f :: "nat \<Rightarrow> loop_error + 'b"
    by (rule build_call_triple [OF env])
  have abort: "triple ends ?B loop_throwIfAborted (\<lambda>_. ?B) (\<lambda>_. ?B)" by (rule loop_throwIfAborted_triple)
  have prep: "triple ends ?B (try_prog (build_call env f)) (\<lambda>_. ?B) (\<lambda>_. ?B)" for f :: "nat \<Rightarrow> loop_error + prepared_call"
    by (rule triple_try) (rule build_call_triple [OF env])
  have choice: "triple ends ?B
      (case r of Inr q \<Rightarrow> ret (pc_config q, Some q)
       | Inl e \<Rightarrow> if is_no_adapter e then ret (proposed, None) else raise e) (\<lambda>_. ?B) (\<lambda>_. ?B)"
    for r :: "loop_error + prepared_call" and proposed
    by (cases r) (auto intro: triple_ret triple_raise)
  have rest: "triple ends ?B (then_do (log_header env (canonicalHeader header)) (\<lambda>_.
       then_do (log_context env rc) (\<lambda>_. then_do loop_throwIfAborted (\<lambda>_. ret (request_of (canonicalHeader header) ms)))))
       (requesting strict t s p) (\<lambda>_. ?B)" for header rc
  proof -
    have h: "headed strict t s p ms h ag \<Longrightarrow> ?B ag" for h ag by (simp add: headed_def)
    show ?thesis
      by (rule triple_then [OF log_header_triple [OF canonicalHeader_idem]],
          rule triple_then [OF log_context_triple],
          rule triple_then [OF triple_post [OF loop_throwIfAborted_triple,
            where Q' = "\<lambda>_. headed strict t s p ms (canonicalHeader header)"]])
        (auto intro!: triple_ret intro: requestingI simp: h)
  qed
  show ?thesis
    unfolding buildRequest_def Let_def
    apply (rule triple_then [OF triple_post [OF read_header_triple, where Q' = "\<lambda>_. ?B" and E' = "\<lambda>_. ?B"]], blast, blast)
    apply (rule triple_then [OF triple_reads [where Q = "\<lambda>_. ?B"]], assumption)
    apply (rule triple_then_result)
     apply (rule triple_then [OF call], rule triple_then [OF abort], rule triple_cond, rule triple_raise, assumption)
     apply (rule triple_then [OF prep], rule triple_then [OF choice], rule triple_pair)
     apply (rule triple_then [OF abort], rule rest)
    apply assumption
    done
qed

end
