(* ===== verification/Turn_Laws.thy ===== *)
theory Turn_Laws
  imports Request_Laws
begin

text \<open>
  Triples for a response, a step, a turn and the driver: whatever the plugins, the model and the tools answer, and
  whatever other code does meanwhile, the log is left between turns.
\<close>

section \<open>The response\<close>

lemma open_step_started:
  "seedTrace evs = Inr t \<Longrightarrow> st_openStep t \<noteq> None \<Longrightarrow> list_ex (\<lambda>e. opens_step (ev_data e)) evs"
proof (induction evs arbitrary: t rule: rev_induct)
  case Nil
  then show ?case by (auto simp: seedTrace_def freshTrace_def)
next
  case (snoc ev evs)
  from snoc.prems(1) obtain t0 where t0: "seedTrace evs = Inr t0" "trace_event t0 ev = Inr t"
    by (auto simp: seedTrace_snoc bind_res_Inr_iff)
  have "opens_step (ev_data ev) \<or> st_openStep t0 \<noteq> None"
    using t0(2) snoc.prems(2) by (cases "ev_data ev") (auto simp: trace_event_defs bind_res_Inr_iff split: if_splits option.splits)
  with snoc.IH [OF t0(1)] show ?case by auto
qed

lemma placed_step_started:
  "placed c ix \<Longrightarrow> cu_step c \<noteq> None \<Longrightarrow> list_ex (\<lambda>e. opens_step (ev_data e)) (ix_log ix)"
  by (auto simp: placed_def cursor_of_def intro: open_step_started)

lemma placed_no_pending:
  assumes "placed c ix" and "cu_step c = None"
  shows "cu_pending c = {}"
proof -
  from assms(1) obtain t where "seedTrace (ix_log ix) = Inr t" "cursor_of t (step_traffic (ix_log ix)) = c"
    by (auto simp: placed_def)
  with turn_numbers [of "ix_log ix" t] assms(2) show ?thesis
    by (auto simp: cursor_of_def trace_inv_def)
qed

abbreviation fresh_step :: "bool \<Rightarrow> nat \<Rightarrow> nat \<Rightarrow> agent \<Rightarrow> bool" where
  "fresh_step strict t s \<equiv> stands strict (step_cursor t s {} [] []) t s"

lemma note_request_triple:
  "triple ends (requesting strict t s {} r) (note_request r) (\<lambda>_. fresh_step strict t s) E"
  unfolding note_request_def
proof (rule triple_updates)
  fix ag
  assume "requesting strict t s {} r ag"
  then obtain h ms where h: "headed strict t s {} ms h ag" and r: "r = request_of h ms" by (auto simp: requesting_def)
  have s: "fresh_step strict t s ag" using h by (simp add: headed_def building_def)
  have "list_ex (\<lambda>e. opens_step (ev_data e)) (ag_log ag)"
    using s by (auto simp: stands_def active_def intro: placed_step_started)
  then have "reconstructs (ag_log ag) r" if strict
    using h that by (simp add: reconstructs_def headed_def building_def r request_of_def header_matches_def)
  with s show "fresh_step strict t s (ag\<lparr>ag_requests := ag_requests ag @ [(length (ag_log ag), r)]\<rparr>)"
    by (auto simp: stands_def active_def driving_def requests_ok_def)
qed

lemma triple_case_sum:
  "(\<And>e. r = Inl e \<Longrightarrow> triple ends P (f e) Q E) \<Longrightarrow> (\<And>a. r = Inr a \<Longrightarrow> triple ends P (g a) Q E)
   \<Longrightarrow> triple ends P (case r of Inl e \<Rightarrow> f e | Inr a \<Rightarrow> g a) Q E"
  by (cases r) simp_all

lemma triple_case_option:
  "(r = None \<Longrightarrow> triple ends P m Q E) \<Longrightarrow> (\<And>a. r = Some a \<Longrightarrow> triple ends P (g a) Q E)
   \<Longrightarrow> triple ends P (case r of None \<Rightarrow> m | Some a \<Rightarrow> g a) Q E"
  by (cases r) simp_all

lemma triple_case_pair:
  "(\<And>x y. r = (x, y) \<Longrightarrow> triple ends P (g x y) Q E) \<Longrightarrow> triple ends P (case r of (x, y) \<Rightarrow> g x y) Q E"
  by (cases r) simp

text \<open>A response that did not fail is the assembly of all its chunks.\<close>

definition received ::
    "bool \<Rightarrow> nat \<Rightarrow> nat \<Rightarrow> (block_assembler \<Rightarrow> bool) \<Rightarrow> block_assembler \<times> nat list \<times> loop_error option \<Rightarrow> agent \<Rightarrow> bool" where
  "received strict t s A r ag \<longleftrightarrow> fresh_step strict t s ag \<and> (snd (snd r) = None \<longrightarrow> A (fst r))"

lemma receive_chunks_triple:
  assumes env: "env_ok strict env"
  shows "triple ends (fresh_step strict t s) (receive_chunks env t s a seqs cs failure)
     (received strict t s (\<lambda>a'. failure = None \<and> a' = foldl assembler_push a cs)) E"
proof (induction cs arbitrary: a seqs)
  case Nil
  have w: "triple ends (fresh_step strict t s) (await_host env) (\<lambda>_. fresh_step strict t s) E"
    by (rule await_host_triple [OF env]) simp
  show ?case by simp (rule triple_then [OF w], rule triple_ret, simp add: received_def)
next
  case (Cons c cs)
  have w: "triple ends (fresh_step strict t s) (await_host env) (\<lambda>_. fresh_step strict t s) E"
    by (rule await_host_triple [OF env]) simp
  have chunk: "triple ends (fresh_step strict t s)
      (try_prog (then_do loop_throwIfAborted (\<lambda>_. append_event env (AssistantChunk t s c) no_intent)))
      (\<lambda>_. fresh_step strict t s) E"
    by (rule triple_try, rule triple_then [OF loop_throwIfAborted_triple], rule append_plain_triple)
      (auto intro: moves_in_step simp: plain_types)
  show ?case
    unfolding receive_chunks.simps
  proof (rule triple_then [OF w], rule triple_then [OF chunk], rule triple_case_sum)
    fix e :: loop_error
    show "triple ends (fresh_step strict t s) (then_do (await_host env) (\<lambda>_. ret (a, seqs, Some e)))
        (received strict t s (\<lambda>a'. failure = None \<and> a' = foldl assembler_push a (c # cs))) E"
      by (rule triple_then [OF w], rule triple_ret, simp add: received_def)
  qed (use Cons.IH in simp)
qed

lemma receive_triple:
  assumes env: "env_ok strict env"
  shows "triple ends (requesting strict t s {} r) (receive env t s r)
     (received strict t s (\<lambda>a. \<exists>n chunks. le_stream env n r = Inr (chunks, None) \<and> a = assembler_push_all chunks)) E"
    (is "triple ends _ _ ?Q E")
proof -
  let ?F = "fresh_step strict t s"
  have abort: "triple ends P (try_prog loop_throwIfAborted) (\<lambda>_. P) E" for P
    by (rule triple_try [where R = "\<lambda>_. P"]) (rule loop_throwIfAborted_triple)
  have fail: "triple ends ?F (ret (a, seqs, Some e)) ?Q E" for a seqs e
    by (rule triple_ret) (simp add: received_def)
  have stream: "triple ends ?F
      (then_do (receive_chunks env t s newAssembler [] chunks failure) (\<lambda>(a, seqs, failure').
             case failure' of
               Some e \<Rightarrow> ret (a, seqs, Some e)
             | None \<Rightarrow>
                 then_do (try_prog loop_throwIfAborted) (\<lambda>r'.
                 ret (a, seqs, case r' of Inl e \<Rightarrow> Some e | Inr _ \<Rightarrow> None)))) ?Q E"
    if str: "le_stream env n r = Inr (chunks, failure)" for n chunks failure
  proof (rule triple_then [OF receive_chunks_triple [OF env]], rule triple_case_pair, rule triple_case_pair, rule triple_case_option)
    fix r' a p seqs f
    let ?R = "received strict t s (\<lambda>a'. failure = None \<and> a' = foldl assembler_push newAssembler chunks) r'"
    assume r': "r' = (a, p)" "p = (seqs, f)"
    show "triple ends ?R (ret (a, seqs, Some e)) ?Q E" for e
      by (rule triple_pre [OF fail]) (simp add: received_def)
    show "triple ends ?R (then_do (try_prog loop_throwIfAborted) (\<lambda>r'.
        ret (a, seqs, case r' of Inl e \<Rightarrow> Some e | Inr _ \<Rightarrow> None))) ?Q E" if "f = None"
      by (rule triple_then [OF abort], rule triple_ret)
        (use str that r' in \<open>auto simp: assembler_push_all_def received_def\<close>)
  qed
  show ?thesis
    unfolding receive_def
    by (rule triple_then [OF note_request_triple], rule triple_then_reads, rule triple_case_sum)
      (auto intro: triple_pre [OF fail] triple_pre [OF triple_then [OF abort]] stream triple_case_sum)
qed

section \<open>A step\<close>

text \<open>Somewhere in an open step, and between two steps.\<close>

definition in_step :: "bool \<Rightarrow> nat \<Rightarrow> nat \<Rightarrow> agent \<Rightarrow> bool" where
  "in_step strict t s ag \<longleftrightarrow> (\<exists>p cs rs. stands strict (step_cursor t s p cs rs) t s ag)"

definition between :: "bool \<Rightarrow> nat \<Rightarrow> nat \<Rightarrow> agent \<Rightarrow> bool" where
  "between strict t s ag \<longleftrightarrow> (\<exists>c. turn_cursor t s c \<and> stands strict c t s ag)"

lemma in_stepI: "stands strict (step_cursor t s p cs rs) t s ag \<Longrightarrow> in_step strict t s ag"
  unfolding in_step_def by blast

lemma hurt_in_step: "hurt (place strict t s pre ids) ag \<Longrightarrow> in_step strict t s ag"
  unfolding hurt_def in_step_def by auto

lemma triple_in_step:
  "(\<And>p cs rs. triple ends (stands strict (step_cursor t s p cs rs) t s) m Q E) \<Longrightarrow> triple ends (in_step strict t s) m Q E"
  unfolding in_step_def by (intro triple_ex)

lemma in_step_await:
  assumes "env_ok strict env"
  shows "triple ends (in_step strict t s) (await_host env) (\<lambda>_. in_step strict t s) E"
  by (rule triple_in_step, rule triple_post [OF await_host_triple [OF assms]]) (auto intro: in_stepI)

lemma read_messages_triple:
  "triple ends (fresh_step strict t s) read_messages (building strict t s {}) (\<lambda>_. in_step strict t s)"
proof (rule tripleI)
  fix ag
  assume s: "fresh_step strict t s ag"
  from deriveMessages_ok [OF stands_session [OF s]] obtain q ms where r: "deriveMessages (ag_session ag) = Inr (q, ms)"
    by blast
  note q = deriveMessages_derived [OF stands_session [OF s] r] deriveMessages_header [OF r]
  have "fresh_step strict t s (set_session q ag)" by (rule stands_set_session [OF s]) (use q in simp_all)
  then have "building strict t s {} ms (set_session q ag)"
    using q by (simp add: building_def set_session_def)
  with r show "wp ends read_messages (building strict t s {}) (\<lambda>_. in_step strict t s) ag"
    by (simp add: wp_def read_messages_def)
qed

lemma append_assistant_triple:
  "triple ends (fresh_step strict t s) (append_assistant env t s r content replay usage b seqs)
     (\<lambda>_. fresh_step strict t s) (\<lambda>_. fresh_step strict t s)"
  unfolding append_assistant_def
  by (rule triple_then [OF triple_reads [where Q = "\<lambda>_. fresh_step strict t s"]], assumption,
      rule triple_then [OF append_triple]) (auto intro: moves_in_step triple_ret)

lemma keep_interrupted_triple:
  "triple ends (fresh_step strict t s) (keep_interrupted env t s r a seqs)
     (\<lambda>_. fresh_step strict t s) (\<lambda>_. fresh_step strict t s)"
  unfolding keep_interrupted_def
  by (rule triple_then [OF triple_reads [where Q = "\<lambda>_. fresh_step strict t s"]], assumption)
    (auto intro!: triple_cond triple_ret triple_then_result append_assistant_triple)

lemma request_triple:
  assumes env: "env_ok strict env"
  shows "triple ends (building strict t s {} ms) (awaited (await_building env) (buildRequest env tools system ms))
     (requesting strict t s {}) (\<lambda>_. in_step strict t s)"
proof (rule triple_awaited [OF buildRequest_triple [OF env]])
  fix r
  show "triple ends (requesting strict t s {} r) (await_building env) (\<lambda>_. requesting strict t s {} r) (\<lambda>_. in_step strict t s)"
  proof (rule tripleI)
    fix ag
    assume "requesting strict t s {} r ag"
    then obtain h ms where h: "headed strict t s {} ms h ag" and r: "r = request_of h ms" by (auto simp: requesting_def)
    show "wp ends (await_building env) (\<lambda>_. requesting strict t s {} r) (\<lambda>_. in_step strict t s) ag"
      unfolding r
      by (rule wp_mono [OF triple_wp [OF await_building_triple(2) [OF env, where E = "\<lambda>_. in_step strict t s"] h]])
        (rule requestingI)
  qed
  show "triple ends (building strict t s {} ms) (await_building env) (\<lambda>_. in_step strict t s) (\<lambda>_. in_step strict t s)" 
    by (rule triple_post [OF await_building_triple(1) [OF env]]) (auto simp: building_def intro: in_stepI)
qed

lemma tools_triple:
  assumes env: "env_ok strict env" and d: "distinct (map call_id calls)"
  shows "triple ends (fresh_step strict t s) (awaited (await_host env) (executeToolCalls env t s calls))
     (\<lambda>_. in_step strict t s) (\<lambda>_. in_step strict t s)"
proof (rule triple_awaited [where R = "\<lambda>_. in_step strict t s" and F = "\<lambda>_. in_step strict t s"])
  show "triple ends (fresh_step strict t s) (executeToolCalls env t s calls) (\<lambda>_. in_step strict t s) (\<lambda>_. in_step strict t s)"
    by (rule triple_post [OF executeToolCalls_triple [OF env d]]) (auto intro: in_stepI hurt_in_step)
qed (rule in_step_await [OF env])+

lemma answer_step_triple:
  assumes env: "env_ok strict env" and str: "le_stream env n r = Inr (chunks, None)"
  shows "triple ends (fresh_step strict t s) (answer_step env t s r (assembler_push_all chunks) seqs)
     (\<lambda>_. in_step strict t s) (\<lambda>_. in_step strict t s)"
  unfolding answer_step_def
proof (rule triple_then_result, rule triple_case_pair)
  fix p content replayState
  let ?a = "assembler_push_all chunks" and ?F = "fresh_step strict t s" and ?S = "in_step strict t s"
  assume "map_error LoopAssembler (assembled ?a) = Inr p" "p = (content, replayState)"
  then have "assembled ?a = Inr (content, replayState)" by (cases "assembled ?a") simp_all
  then have d: "distinct (map call_id (List.map_filter call_of content))"
    using env str unfolding env_ok_def distinct_calls_def by blast
  show "triple ends ?F (then_do (append_assistant env t s r content replayState (ba_usage ?a) False seqs) (\<lambda>_.
       if assembler_finish ?a = FinishMaxTokens then ret (Some MaxTokens)
       else let toolCalls = List.map_filter call_of content in
         if toolCalls = [] then ret (Some Completed)
         else
           then_do (awaited (await_host env) (executeToolCalls env t s toolCalls)) (\<lambda>concluded.
           ret (if concluded then Some Completed else None)))) (\<lambda>_. ?S) (\<lambda>_. ?S)"
    unfolding Let_def
    by (rule triple_then [OF triple_post [OF append_assistant_triple, where Q' = "\<lambda>_. ?F"]])
      (auto intro!: triple_cond triple_ret triple_then [OF tools_triple [OF env d]] intro: in_stepI)
qed (rule in_stepI)

lemma step_loop_triple:
  assumes env: "env_ok strict env"
  shows "triple False (fresh_step strict t s) (step_loop env t s tools system fuel)
     (\<lambda>_. in_step strict t s) (\<lambda>_. in_step strict t s)"
proof (induction fuel)
  case 0
  show ?case by (simp add: triple_def wp_simps)
next
  case (Suc fuel)
  let ?F = "fresh_step strict t s" and ?S = "in_step strict t s"
  have fresh: "?F ag \<Longrightarrow> ?S ag" for ag by (rule in_stepI)
  have failed: "triple False ?F (then_do (keep_interrupted env t s r a seqs) (\<lambda>_. raise e)) (\<lambda>_. ?S) (\<lambda>_. ?S)" for r a seqs e
    by (rule triple_then [OF triple_post [OF keep_interrupted_triple, where Q' = "\<lambda>_. ?F"]]) (auto intro: triple_raise fresh)
  have again: "triple False ?F (then_do (await_call env (\<lambda>n. le_requestError env n f)) (\<lambda>retry.
       then_do loop_throwIfAborted (\<lambda>_.
       if \<not> retry then raise (LoopLlm f) else step_loop env t s tools system fuel))) (\<lambda>_. ?S) (\<lambda>_. ?S)" for f
    by (rule triple_then [OF triple_post [OF await_call_triple [OF env], where Q' = "\<lambda>_. ?F" and E' = "\<lambda>_. ?S"]])
      (auto intro!: triple_then [OF triple_post [OF loop_throwIfAborted_triple, where Q' = "\<lambda>_. ?F" and E' = "\<lambda>_. ?S"]]
        triple_cond triple_raise Suc.IH intro: fresh)
  show ?case
    unfolding step_loop.simps
  proof (rule triple_then [OF read_messages_triple], rule triple_then [OF request_triple [OF env]],
      rule triple_then [OF receive_triple [OF env]], rule triple_case_pair, rule triple_case_pair, rule triple_case_option)
    fix r q a p seqs failure
    let ?R = "received strict t s (\<lambda>a. \<exists>n chunks. le_stream env n r = Inr (chunks, None) \<and> a = assembler_push_all chunks) q"
    assume q: "q = (a, p)" "p = (seqs, failure)"
    show "triple False ?R (then_do (keep_interrupted env t s r a seqs) (\<lambda>_. raise e)) (\<lambda>_. ?S) (\<lambda>_. ?S)" for e
      by (rule triple_pre [OF failed]) (simp add: received_def)
    assume "failure = None"
    with q have R: "?R ag \<longleftrightarrow> ?F ag \<and> (\<exists>n chunks. le_stream env n r = Inr (chunks, None) \<and> a = assembler_push_all chunks)" for ag
      by (simp add: received_def)
    have "triple False ?R (answer_step env t s r a seqs) (\<lambda>_. ?S) (\<lambda>_. ?S)"
      unfolding triple_def R using triple_wp [OF answer_step_triple [OF env]] by blast
    moreover have "triple False ?R (then_do (await_call env (\<lambda>n. le_requestError env n f)) (\<lambda>retry.
        then_do loop_throwIfAborted (\<lambda>_.
        if \<not> retry then raise (LoopLlm f) else step_loop env t s tools system fuel))) (\<lambda>_. ?S) (\<lambda>_. ?S)" for f
      by (rule triple_pre [OF again]) (simp add: R)
    ultimately show "triple False ?R
      (case finish_failure (assembler_finish a) of
            Some f \<Rightarrow>
              then_do (await_call env (\<lambda>n. le_requestError env n f)) (\<lambda>retry.
              then_do loop_throwIfAborted (\<lambda>_.
              if \<not> retry then raise (LoopLlm f) else step_loop env t s tools system fuel))
          | None \<Rightarrow> answer_step env t s r a seqs) (\<lambda>_. ?S) (\<lambda>_. ?S)"
      by (intro triple_case_option)
  qed
qed

lemma loop_step_triple:
  assumes "env_ok strict env"
  shows "triple False (fresh_step strict t s) (loop_step env fuel assembly) (\<lambda>_. in_step strict t s) (\<lambda>_. in_step strict t s)"
  unfolding loop_step_def
proof (rule triple_then_reads)
  fix phase
  have body: "triple False (fresh_step strict t s)
     (then_do loop_throwIfAborted (\<lambda>_.
      then_do (result_of (renderPrompt assembly)) (\<lambda>system.
      step_loop env t s (pa_tools assembly) system fuel))) (\<lambda>_. in_step strict t s) (\<lambda>_. in_step strict t s)"
    by (rule triple_then [OF triple_post [OF loop_throwIfAborted_triple, where Q' = "\<lambda>_. fresh_step strict t s"]])
      (auto intro!: triple_then_result step_loop_triple [OF assms] intro: in_stepI)
  show "triple False (\<lambda>ag. fresh_step strict t s ag \<and> ag_phase ag = phase)
     (case phase of
       Running _ turn step _ \<Rightarrow>
         then_do loop_throwIfAborted (\<lambda>_.
         then_do (result_of (renderPrompt assembly)) (\<lambda>system.
         step_loop env turn step (pa_tools assembly) system fuel))
     | _ \<Rightarrow> raise (OutsideRunning ''step'')) (\<lambda>_. in_step strict t s) (\<lambda>_. in_step strict t s)"
    unfolding triple_def using triple_wp [OF body] by (auto simp: stands_def driving_def)
qed

section \<open>A turn\<close>

lemma preStep_triple:
  assumes env: "env_ok strict env" and c: "cu_turn c \<noteq> None"
  shows "triple ends (stands strict c t s) (preStep env target n) (\<lambda>_. stands strict c t s) (\<lambda>_. stands strict c t s)"
proof -
  let ?S = "stands strict c t s"
  have call: "triple ends ?S (await_call env f) (\<lambda>_. ?S) (\<lambda>_. ?S)" for f :: "nat \<Rightarrow> loop_error + 'b"
    by (rule await_call_triple [OF env c])
  have abort: "triple ends ?S loop_throwIfAborted (\<lambda>_. ?S) (\<lambda>_. ?S)" by (rule loop_throwIfAborted_triple)
  show ?thesis
    unfolding preStep_def
    by (rule triple_then [OF triple_reads [where Q = "\<lambda>_. ?S"]], assumption, rule triple_cond, rule triple_raise, assumption,
        rule triple_then [OF claim_messages_triple], rule triple_then [OF await_call_triple [OF env c]], rule triple_then [OF abort],
        rule triple_then_result, rule triple_then [OF triple_reads [where Q = "\<lambda>_. ?S"]], assumption,
        rule triple_then [OF await_call_triple [OF env c]], rule triple_then [OF abort], rule triple_ret)
qed

lemma between_awaited:
  assumes "env_ok strict env" and "triple ends P m (\<lambda>_. between strict t s) (\<lambda>_. between strict t s)"
  shows "triple ends P (awaited (await_host env) m) (\<lambda>_. between strict t s) (\<lambda>_. between strict t s)"
proof -
  have "triple ends (between strict t s) (await_host env) (\<lambda>_. between strict t s) E" for E
    unfolding between_def
    by (rule triple_ex, rule triple_if_pure, rule triple_post [OF await_host_triple [OF assms(1)]]) (auto simp: turn_cursor_def)
  then show ?thesis using assms(2) by (intro triple_awaited)
qed

lemma between_preStep:
  assumes "env_ok strict env"
  shows "triple ends (between strict t s) (preStep env target n) (\<lambda>_. between strict t s) (\<lambda>_. between strict t s)"
  unfolding between_def
  by (rule triple_ex, rule triple_if_pure, rule triple_post [OF preStep_triple [OF assms]]) (auto simp: turn_cursor_def)

lemma stands_set_step:
  "stands strict c t s ag \<Longrightarrow> stands strict c t n (over_phase (set_step n) ag)"
  by (auto simp: stands_def active_def driving_def requests_ok_def)

lemma stands_set_turn:
  "stands strict c t s ag \<Longrightarrow> stands strict c n s (over_phase (set_turn n) ag)"
  by (auto simp: stands_def active_def driving_def requests_ok_def)

lemma step_end_triple:
  "triple ends (in_step strict t s) (then_do (append_event env (StepEnd t s) no_intent) (\<lambda>_. ret ())) (\<lambda>_. between strict t s) E"
proof (rule triple_in_step)
  fix p cs rs
  let ?c = "(step_cursor t s p cs rs)\<lparr>cu_step := None, cu_pending := {}, cu_nextStep := Suc s\<rparr>"
  have "turn_cursor t s ?c" by (simp add: turn_cursor_def step_cursor_def)
  then show "triple ends (stands strict (step_cursor t s p cs rs) t s) (then_do (append_event env (StepEnd t s) no_intent) (\<lambda>_. ret ()))
      (\<lambda>_. between strict t s) E"
    by (intro triple_then [OF append_plain_triple [OF moves_step_end]] triple_ret) (auto simp: plain_types between_def)
qed

lemma run_step_triple:
  assumes env: "env_ok strict env"
  shows "triple False (between strict t s) (run_step env fuel t (Suc s) messages assembly)
     (\<lambda>_. between strict t (Suc s)) (\<lambda>_. between strict t (Suc s))"
proof -
  let ?F = "fresh_step strict t (Suc s)" and ?S = "in_step strict t (Suc s)"
  have say: "triple False ?F (for_each (\<lambda>m. then_do (append_event env (UserMessage m) (appending None)) (\<lambda>_. ret ())) messages)
      (\<lambda>_. ?F) (\<lambda>_. ?F)"
    by (rule triple_for_each [where P = "\<lambda>_. ?F"], rule triple_then [OF append_triple])
      (auto intro: moves_in_step triple_ret)
  have step: "triple False ?F (awaited (await_host env) (loop_step env fuel assembly)) (\<lambda>_. ?S) (\<lambda>_. ?S)"
    by (rule triple_awaited [OF loop_step_triple [OF env]]) (rule in_step_await [OF env])+
  have body: "triple False ?F (finally_do
       (then_do (for_each (\<lambda>m. then_do (append_event env (UserMessage m) (appending None)) (\<lambda>_. ret ())) messages) (\<lambda>_.
        awaited (await_host env) (loop_step env fuel assembly)))
       (then_do (append_event env (StepEnd t (Suc s)) no_intent) (\<lambda>_. ret ())))
       (\<lambda>_. between strict t (Suc s)) (\<lambda>_. between strict t (Suc s))"
    by (rule triple_finally [OF triple_then [OF triple_post [OF say, where Q' = "\<lambda>_. ?F" and E' = "\<lambda>_. ?S"] step]])
      (auto intro: step_end_triple in_stepI)
  show ?thesis
    unfolding run_step_def between_def [of strict t s]
  proof (rule triple_ex, rule triple_if_pure)
    fix c
    assume c: "turn_cursor t s c"
    have start: "triple False (stands strict c t s) (append_event env (StepStart t (Suc s)) no_intent)
        (\<lambda>_ ag. stands strict (step_cursor t (Suc s) {} [] []) t s ag) (\<lambda>_. between strict t (Suc s))"
    proof (rule tripleI, rule append_plain_wp [OF _ moves_step_start [OF c]])
      fix ag ev ag'
      assume s: "stands strict c t s ag" and s': "stands strict (step_cursor t (Suc s) (cu_pending c) [] []) t s ag'"
      have "cu_pending c = {}"
        using s c placed_no_pending by (auto simp: stands_def active_def turn_cursor_def)
      with s' show "stands strict (step_cursor t (Suc s) {} [] []) t s ag'" by simp
    qed (simp_all add: plain_types)
    show "triple False (stands strict c t s)
        (then_do (append_event env (StepStart t (Suc s)) no_intent) (\<lambda>_.
         then_do (updates (over_phase (set_step (Suc s)))) (\<lambda>_. finally_do
           (then_do (for_each (\<lambda>m. then_do (append_event env (UserMessage m) (appending None)) (\<lambda>_. ret ())) messages) (\<lambda>_.
            awaited (await_host env) (loop_step env fuel assembly)))
           (then_do (append_event env (StepEnd t (Suc s)) no_intent) (\<lambda>_. ret ())))))
        (\<lambda>_. between strict t (Suc s)) (\<lambda>_. between strict t (Suc s))"
      by (rule triple_then [OF start], rule triple_then [OF triple_updates [where Q = "\<lambda>_. ?F"]])
        (rule stands_set_step, assumption, rule body)
  qed
qed

definition in_turn :: "bool \<Rightarrow> nat \<Rightarrow> agent \<Rightarrow> bool" where
  "in_turn strict t ag \<longleftrightarrow> (\<exists>s. between strict t s ag)"

lemma in_turnI: "between strict t s ag \<Longrightarrow> in_turn strict t ag"
  unfolding in_turn_def by blast

lemma stopping_triple:
  assumes "env_ok strict env"
  shows "triple ends (between strict t s) (if b then then_do (await_call env (le_turnStopping env)) (\<lambda>_. loop_throwIfAborted) else ret ())
     (\<lambda>_. between strict t s) (\<lambda>_. between strict t s)"
proof -
  have "triple ends (between strict t s) (await_call env (le_turnStopping env)) (\<lambda>_. between strict t s) (\<lambda>_. between strict t s)"
    unfolding between_def
    by (rule triple_ex, rule triple_if_pure, rule triple_post [OF await_call_triple [OF assms]]) (auto simp: turn_cursor_def)
  then show ?thesis by (auto intro!: triple_ret triple_then loop_throwIfAborted_triple)
qed

lemma between_throwIfAborted:
  "triple ends (between strict t s) loop_throwIfAborted (\<lambda>_. between strict t s) (\<lambda>_. in_turn strict t)"
  by (rule triple_post [OF loop_throwIfAborted_triple]) (auto intro: in_turnI)

lemma after_step_triple:
  assumes "env_ok strict env"
  shows "triple ends (between strict t s) (after_step env turnEnds) (\<lambda>_. in_turn strict t) (\<lambda>_. in_turn strict t)"
  unfolding after_step_def
  by (rule triple_then [OF between_throwIfAborted], rule triple_then [OF triple_reads [where Q = "\<lambda>_. between strict t s"]],
      assumption, rule triple_then [OF triple_post [OF stopping_triple [OF assms], where Q' = "\<lambda>_. between strict t s"
        and E' = "\<lambda>_. in_turn strict t"]], assumption, rule in_turnI, assumption,
      rule triple_then [OF triple_reads [where Q = "\<lambda>_. between strict t s"]], assumption)
    (auto intro!: triple_cond triple_ret intro: in_turnI)

lemma step_round_triple:
  assumes env: "env_ok strict env"
  shows "triple False (in_turn strict t) (step_round env fuel t turnEnds target) (\<lambda>_. in_turn strict t) (\<lambda>_. in_turn strict t)"
  unfolding in_turn_def [of strict t, abs_def]
proof (rule triple_ex, fold in_turn_def [of strict t, abs_def])
  fix s
  let ?B = "between strict t s" and ?T = "in_turn strict t"
  have prepare: "triple False ?B (awaited (await_host env) (preStep env target t)) (\<lambda>_. ?B) (\<lambda>_. ?T)"
    by (rule triple_post [OF between_awaited [OF env between_preStep [OF env]]]) (auto intro: in_turnI)
  have run: "triple False ?B (run_step env fuel t (Suc s) messages assembly) (\<lambda>_. between strict t (Suc s)) (\<lambda>_. ?T)"
    for messages assembly by (rule triple_post [OF run_step_triple [OF env]]) (auto intro: in_turnI)
  let ?k = "\<lambda>step (decision, assembly). case decision of
       RejectStep \<Rightarrow> ret (Inl (Blocked, False))
     | EnterStep messages \<Rightarrow>
         if turnEnds \<noteq> None \<and> length messages = 0 then ret (Inl (the turnEnds, True))
         else if step = 1 \<and> length messages = 0 then ret (Inl (Completed, False))
         else
           then_do loop_throwIfAborted (\<lambda>_.
           then_do (run_step env fuel t step messages assembly) (\<lambda>stepEnd.
           after_step env (later_end turnEnds stepEnd)))"
  have step: "triple False ?B (?k (Suc s) p) (\<lambda>_. ?T) (\<lambda>_. ?T)" for p
    by (cases p; cases "fst p")
      (auto intro!: triple_ret triple_then [OF between_throwIfAborted] triple_then [OF run] after_step_triple [OF env]
        intro: in_turnI)
  have pos: "phase_step (ag_phase ag) = s" if "?B ag" for ag
    using that by (auto simp: between_def stands_def driving_def)
  have go: "triple False ?B (then_do (awaited (await_host env) (preStep env target t)) (?k (Suc s))) (\<lambda>_. ?T) (\<lambda>_. ?T)"
    by (rule triple_then [OF prepare], rule step)
  have "wp False (then_do (awaited (await_host env) (preStep env target t)) (?k (Suc (phase_step (ag_phase ag)))))
      (\<lambda>_. ?T) (\<lambda>_. ?T) ag" if "?B ag" for ag
    unfolding pos [OF that] by (rule triple_wp [OF go that])
  then have "triple False ?B (then_do (reads (\<lambda>ag. Suc (phase_step (ag_phase ag)))) (\<lambda>n.
      then_do (awaited (await_host env) (preStep env target t)) (?k n))) (\<lambda>_. ?T) (\<lambda>_. ?T)"
    unfolding triple_def wp_then [of _ "reads _"] wp_reads by blast
  then show "triple False ?B (step_round env fuel t turnEnds target) (\<lambda>_. ?T) (\<lambda>_. ?T)"
    unfolding step_round_def by (rule triple_then [OF between_throwIfAborted])
qed

lemma turn_steps_triple:
  assumes env: "env_ok strict env"
  shows "triple False (in_turn strict t) (turn_steps env fuel t turnEnds target k) (\<lambda>_. in_turn strict t) (\<lambda>_. in_turn strict t)"
proof (induction k arbitrary: turnEnds target)
  case 0
  show ?case by (simp add: triple_def wp_simps)
next
  case (Suc k)
  show ?case
    unfolding turn_steps.simps
    by (rule triple_then [OF step_round_triple [OF env]], rule triple_case_sum, rule triple_ret, assumption, rule Suc.IH)
qed

section \<open>The ends a turn can come to\<close>

lemma triple_any: "triple False P m (\<lambda>_ _. True) (\<lambda>_ _. True)"
  by (auto simp: triple_def wp_def split: option.split sum.split)

abbreviation returns_in :: "('s, 'e, 'a) prog \<Rightarrow> 'a set \<Rightarrow> bool" where
  "returns_in m A \<equiv> triple False (\<lambda>_. True) m (\<lambda>a _. a \<in> A) (\<lambda>_ _. True)"

lemma returns_then: "(\<And>a. returns_in (k a) A) \<Longrightarrow> returns_in (then_do m k) A"
  by (rule triple_then [OF triple_any])

lemma returns_ret: "a \<in> A \<Longrightarrow> returns_in (ret a) A"
  by (rule triple_ret)

lemma returns_raise: "returns_in (raise e) A"
  by (rule triple_raise) simp

lemma triple_const: "triple False (\<lambda>_. b) m (\<lambda>_ _. b) (\<lambda>_ _. True)"
  by (auto simp: triple_def wp_def split: option.split sum.split)

lemma returns_awaited: "returns_in m A \<Longrightarrow> returns_in (awaited w m) A"
  by (rule triple_awaited [where R = "\<lambda>a _. a \<in> A" and F = "\<lambda>_ _. True"]) (rule triple_const triple_any | assumption)+

lemma returns_finally: "returns_in m A \<Longrightarrow> returns_in (finally_do m c) A"
  by (rule triple_finally [where R = "\<lambda>a _. a \<in> A" and F = "\<lambda>_ _. True"]) (rule triple_const triple_any | assumption)+

lemmas returns_intros = returns_then returns_ret returns_raise returns_awaited returns_finally triple_cond triple_case_pair
  triple_case_option triple_case_sum

definition step_ends :: "turn_end_reason option set" where
  "step_ends = {None, Some Completed, Some MaxTokens}"

lemma step_ends_simps [simp]: "None \<in> step_ends" "Some Completed \<in> step_ends" "Some MaxTokens \<in> step_ends"
  by (simp_all add: step_ends_def)

lemma step_loop_ends: "returns_in (step_loop env t s tools system fuel) step_ends"
proof (induction fuel)
  case 0
  show ?case by (simp add: triple_def wp_simps)
next
  case (Suc fuel)
  have "returns_in (answer_step env t s r a seqs) step_ends" for r a seqs
    unfolding answer_step_def Let_def by (intro returns_intros) simp_all
  with Suc show ?case unfolding step_loop.simps by (intro returns_intros)
qed

lemma run_step_ends: "returns_in (run_step env fuel t s messages assembly) step_ends"
proof -
  have "returns_in (loop_step env fuel assembly) step_ends"
    unfolding loop_step_def
    by (rule returns_then, rule tripleI)
      (auto split: agent_phase.split intro!: triple_wp [OF returns_raise] triple_wp [OF returns_then] returns_then step_loop_ends)
  then show ?thesis unfolding run_step_def by (intro returns_intros)
qed

definition turn_ends_in :: "(turn_end_reason \<times> bool) set" where
  "turn_ends_in = {Blocked, Completed, MaxTokens} \<times> UNIV"

lemma triple_case_decision:
  "triple ends P m Q E \<Longrightarrow> (\<And>ms. triple ends P (g ms) Q E)
   \<Longrightarrow> triple ends P (case d of RejectStep \<Rightarrow> m | EnterStep ms \<Rightarrow> g ms) Q E"
  by (cases d) simp_all

lemma step_round_ends:
  assumes "turnEnds \<in> step_ends"
  shows "returns_in (step_round env fuel t turnEnds target) (turn_ends_in <+> step_ends)"
proof -
  have later: "later_end turnEnds e \<in> step_ends" if "e \<in> step_ends" for e
    using that assms by (simp add: later_end_def)
  have after: "returns_in (after_step env e) (turn_ends_in <+> step_ends)" if "e \<in> step_ends" for e
    unfolding after_step_def
    by (intro returns_intros) (use that in \<open>auto simp: turn_ends_in_def step_ends_def\<close>)
  have run: "returns_in (then_do (run_step env fuel t s messages assembly) (\<lambda>e. after_step env (later_end turnEnds e)))
      (turn_ends_in <+> step_ends)" for s messages assembly
    by (rule triple_then [OF run_step_ends]) (auto simp: triple_def intro!: triple_wp [OF after] later)
  have stop: "Inl (Blocked, b) \<in> turn_ends_in <+> step_ends" "Inl (Completed, b) \<in> turn_ends_in <+> step_ends"
    "turnEnds \<noteq> None \<and> length messages = 0 \<Longrightarrow> Inl (the turnEnds, b) \<in> turn_ends_in <+> step_ends"
    for b :: bool and messages :: "message list"
    using assms by (auto simp: turn_ends_in_def step_ends_def)
  show ?thesis
    unfolding step_round_def
    by (intro returns_then triple_case_pair, rule triple_case_decision, rule returns_ret, rule stop(1), rule triple_cond,
        rule returns_ret, erule stop(3), rule triple_cond, rule returns_ret, rule stop(2), rule returns_then, rule run)
qed

lemma turn_steps_ends:
  "turnEnds \<in> step_ends \<Longrightarrow> returns_in (turn_steps env fuel t turnEnds target k) turn_ends_in"
proof (induction k arbitrary: turnEnds target)
  case 0
  show ?case by (simp add: triple_def wp_simps)
next
  case (Suc k)
  show ?case
    unfolding turn_steps.simps
    by (rule triple_then [OF step_round_ends [OF Suc.prems]])
      (auto simp: triple_def split: sum.split intro!: triple_wp [OF Suc.IH] wp_ret [THEN fun_cong, THEN iffD2])
qed

end
