(* ===== verification/Driver_Laws.thy ===== *)
theory Driver_Laws
  imports Turn_Laws
begin

text \<open>
  The turn with its end, the driver over turns, and the agent between activities: every activity leaves the
  log between turns and the agent idle.
\<close>

section \<open>The end of a turn\<close>

text \<open>Between turns, wherever the phase's step is, and where a driver may open a turn.\<close>

definition turn_closed :: "bool \<Rightarrow> nat \<Rightarrow> agent \<Rightarrow> bool" where
  "turn_closed strict n ag \<longleftrightarrow> (\<exists>c s. rest_cursor n c \<and> stands strict c n s ag)"

definition ready :: "bool \<Rightarrow> nat \<Rightarrow> agent \<Rightarrow> bool" where
  "ready strict n ag \<longleftrightarrow> (\<exists>c. rest_cursor n c \<and> stands strict c n 0 ag)"

lemma ready_turn_closed: "ready strict n ag \<Longrightarrow> turn_closed strict n ag"
  unfolding ready_def turn_closed_def by blast

text \<open>The end event a turn leaves, for the outcome of \<open>turn()\<close>.\<close>

definition recorded :: "loop_env \<Rightarrow> nat \<Rightarrow> loop_error + bool \<Rightarrow> agent \<Rightarrow> bool" where
  "recorded env turn r ag \<longleftrightarrow>
     ag_log ag \<noteq> []
     \<and> (case r of
          Inl e \<Rightarrow>
            (case phase_abort (ag_phase ag) of
               Some c \<Rightarrow> ev_data (last (ag_log ag)) = TurnEnd turn (Aborted c)
             | None \<Rightarrow> ev_data (last (ag_log ag)) = TurnEnd turn (TurnError (turn_failure env e))
                 \<and> ag_notes ag \<noteq> [] \<and> (\<exists>s. last (ag_notes ag) = ErrorNote turn s e))
        | Inr again \<Rightarrow>
            (\<exists>reason \<in> {Blocked, Completed, MaxTokens}. ev_data (last (ag_log ag)) = TurnEnd turn reason)
            \<and> (again \<longrightarrow> ag_pending ag))"

lemma reporting_wp: "wp ends m Q (\<lambda>_ _. False) ag \<Longrightarrow> wp ends (reporting m) Q E ag"
  by (auto simp: reporting_def wp_then wp_try wp_simps elim!: wp_mono)

lemma end_turn_wp:
  assumes "in_turn strict t ag"
    and Q: "\<And>ag'. turn_closed strict t ag' \<Longrightarrow> ag_log ag' \<noteq> [] \<Longrightarrow> ev_data (last (ag_log ag')) = TurnEnd t reason
        \<Longrightarrow> ag_phase ag' = ag_phase ag \<Longrightarrow> ag_notes ag' = ag_notes ag
        \<Longrightarrow> ix_state (ag_inbox ag') = ix_state (ag_inbox ag) \<Longrightarrow> Q () ag'"
  shows "wp ends (end_turn env t reason) Q E ag"
proof -
  from assms(1) obtain s c where c: "turn_cursor t s c" and s: "stands strict c t s ag"
    by (auto simp: in_turn_def between_def)
  let ?c = "c\<lparr>cu_turn := None, cu_nextTurn := Suc t\<rparr>"
  have "rest_cursor t ?c" using c by (simp add: turn_cursor_def rest_cursor_def)
  then have cl: "turn_closed strict t ag'" if "stands strict ?c t s ag'" for ag' using that unfolding turn_closed_def by blast
  have "wp ends (append_event env (TurnEnd t reason) no_intent) (\<lambda>_. Q ()) (\<lambda>_ _. False) ag"
    by (rule append_plain_wp [OF s moves_turn_end [OF c]]) (auto simp: plain_types appended_def intro!: Q cl)
  from reporting_wp [OF this] show ?thesis
    unfolding end_turn_def wp_then by (rule wp_mono) (simp_all add: wp_simps)
qed

lemma wp_both:
  "wp False m Q E s \<Longrightarrow> wp False m Q' E' s \<Longrightarrow> wp False m (\<lambda>a s. Q a s \<and> Q' a s) (\<lambda>e s. E e s \<and> E' e s) s"
  by (auto simp: wp_def split: option.splits sum.splits)

lemma in_turn_notes: "in_turn strict t (ag\<lparr>ag_notes := ns\<rparr>) = in_turn strict t ag"
  by (simp add: in_turn_def between_def stands_def active_def driving_def requests_ok_def)

lemma in_turn_phase: "in_turn strict t ag \<Longrightarrow> phase_turn (ag_phase ag) = t \<and> (\<exists>a s w. ag_phase ag = Running a t s w)"
  by (auto simp: in_turn_def between_def stands_def driving_def)

lemma turn_closed_next:
  assumes "turn_closed strict t ag"
  shows "ready strict t (over_phase (\<lambda>p. Running None (phase_turn p) 0 False) ag)"
  using assms by (auto simp: turn_closed_def ready_def stands_def active_def driving_def requests_ok_def)

text \<open>What \<open>turn()\<close> leaves when it opened a turn.\<close>

definition turned :: "bool \<Rightarrow> loop_env \<Rightarrow> nat \<Rightarrow> loop_error + bool \<Rightarrow> agent \<Rightarrow> bool" where
  "turned strict env turn r ag \<longleftrightarrow>
     (if r = Inr True then ready strict turn ag else turn_closed strict turn ag) \<and> recorded env turn r ag"

lemma turn_failed_wp:
  assumes "in_turn strict t ag"
  shows "wp ends (then_do (reads (\<lambda>ag. phase_abort (ag_phase ag))) (\<lambda>aborted.
           case aborted of
             Some c \<Rightarrow> then_do (end_turn env t (Aborted c)) (\<lambda>_. raise e)
           | None \<Rightarrow> finally_do (throwError e) (end_turn env t (TurnError (turn_failure env e)))))
     Q (\<lambda>e. turned strict env t (Inl e)) ag"
proof (cases "phase_abort (ag_phase ag)")
  case None
  let ?ag = "ag\<lparr>ag_notes := ag_notes ag @ [ErrorNote (phase_turn (ag_phase ag)) (phase_step (ag_phase ag)) e]\<rparr>"
  have "wp ends (end_turn env t (TurnError (turn_failure env e))) (\<lambda>_. turned strict env t (Inl e)) E ?ag" for E
    by (rule end_turn_wp) (use assms in_turn_phase [OF assms] None in \<open>auto simp: in_turn_notes turned_def recorded_def\<close>)
  with None show ?thesis by (simp add: wp_then wp_simps wp_finally throwError_def)
next
  case (Some c)
  have "wp ends (end_turn env t (Aborted c)) (\<lambda>_. turned strict env t (Inl e)) E ag" for E
    by (rule end_turn_wp [OF assms]) (use Some in \<open>auto simp: turned_def recorded_def\<close>)
  with Some show ?thesis by (simp add: wp_then wp_simps)
qed

lemma turn_over_wp:
  assumes "in_turn strict t ag" and "(reason, goes_on) \<in> turn_ends_in"
  shows "wp ends (then_do (end_turn env t reason) (\<lambda>_.
           if \<not> goes_on then ret False
           else
             then_do (reads ag_pending) (\<lambda>pending.
             if \<not> pending then ret False
             else
               then_do (updates (over_phase (\<lambda>p. Running None (phase_turn p) 0 False))) (\<lambda>_.
               ret True)))) (\<lambda>again. turned strict env t (Inr again)) E ag"
  unfolding wp_then
  by (rule end_turn_wp [OF assms(1)])
    (use assms(2) in \<open>auto simp: wp_simps wp_then turned_def recorded_def turn_ends_in_def intro: turn_closed_next\<close>)

lemma wp_not_aborted:
  "phase_abort (ag_phase ag) = None \<Longrightarrow> wp ends (k ()) Q E ag \<Longrightarrow> wp ends (then_do loop_throwIfAborted k) Q E ag"
  by (simp add: loop_throwIfAborted_def wp_then wp_reads wp_ret)

lemma loop_turn_wp:
  assumes env: "env_ok strict env" and r: "ready strict n ag" and a: "phase_abort (ag_phase ag) = None"
  shows "wp False (loop_turn env fuel) (\<lambda>again. turned strict env (Suc n) (Inr again)) (\<lambda>e. turned strict env (Suc n) (Inl e)) ag"
proof -
  from r obtain c where c: "rest_cursor n c" and s: "stands strict c n 0 ag" by (auto simp: ready_def)
  then obtain w where ph: "ag_phase ag = Running None n 0 w" using a by (auto simp: stands_def driving_def)
  let ?Q = "\<lambda>again. turned strict env (Suc n) (Inr again)" and ?E = "\<lambda>e. turned strict env (Suc n) (Inl e)"
  let ?c = "c\<lparr>cu_turn := Some (Suc n), cu_nextStep := 1\<rparr>"
  let ?finish = "\<lambda>r. case r of
         Inl e \<Rightarrow>
           then_do (reads (\<lambda>ag. phase_abort (ag_phase ag))) (\<lambda>aborted.
           case aborted of
             Some c \<Rightarrow> then_do (end_turn env (Suc n) (Aborted c)) (\<lambda>_. raise e)
           | None \<Rightarrow>
               finally_do (throwError e) (end_turn env (Suc n) (TurnError (turn_failure env e))))
       | Inr (reason, goes_on) \<Rightarrow>
           then_do (end_turn env (Suc n) reason) (\<lambda>_.
           if \<not> goes_on then ret False
           else
             then_do (reads ag_pending) (\<lambda>pending.
             if \<not> pending then ret False
             else
               then_do (updates (over_phase (\<lambda>p. Running None (phase_turn p) 0 False))) (\<lambda>_.
               ret True)))"
  have finish: "wp False (?finish r) ?Q ?E x"
    if x: "in_turn strict (Suc n) x" and r: "\<And>a. r = Inr a \<Longrightarrow> a \<in> turn_ends_in" for r x
  proof (cases r)
    case (Inl e)
    then show ?thesis using turn_failed_wp [OF x] by (simp only: sum.case)
  next
    case (Inr p)
    obtain reason goes_on where p: "p = (reason, goes_on)" by (cases p)
    with r Inr have "(reason, goes_on) \<in> turn_ends_in" by simp
    from turn_over_wp [OF x this] show ?thesis unfolding Inr p by (simp only: sum.case prod.case)
  qed
  have body: "wp False (then_do (try_prog (turn_steps env fuel (Suc n) None NextTurn fuel)) ?finish) ?Q ?E x"
    if x: "in_turn strict (Suc n) x" for x
    unfolding wp_then [of _ "try_prog _"] wp_try
    by (rule wp_mono [OF wp_both [OF triple_wp [OF turn_steps_triple [OF env] x]
          triple_wp [OF turn_steps_ends [OF step_ends_simps(1)] TrueI]]]; rule finish; simp)
  have start: "wp False (append_event env (TurnStart (Suc n)) no_intent) (\<lambda>_. stands strict ?c n 0) (\<lambda>_ _. False) ag"
    by (rule append_plain_wp [OF s moves_turn_start [OF c]]) (auto simp: plain_types)
  have "turn_cursor (Suc n) 0 ?c" using c by (simp add: turn_cursor_def rest_cursor_def)
  then have turn: "in_turn strict (Suc n) (over_phase (set_turn (Suc n)) x)" if "stands strict ?c n 0 x" for x
    unfolding in_turn_def between_def using stands_set_turn [OF that, of "Suc n"] by blast
  have "wp False (then_do (reporting (append_event env (TurnStart (Suc n)) no_intent)) (\<lambda>_.
       then_do (updates (over_phase (set_turn (Suc n)))) (\<lambda>_.
       then_do (try_prog (turn_steps env fuel (Suc n) None NextTurn fuel)) ?finish))) ?Q ?E ag"
    unfolding wp_then [of _ "reporting _"] wp_then [of _ "updates _"] wp_updates
    by (rule wp_mono [OF reporting_wp [OF start]]) (use body turn in auto)
  then have "wp False (then_do loop_throwIfAborted (\<lambda>_. then_do (reporting (append_event env (TurnStart (Suc n)) no_intent)) (\<lambda>_.
       then_do (updates (over_phase (set_turn (Suc n)))) (\<lambda>_.
       then_do (try_prog (turn_steps env fuel (Suc n) None NextTurn fuel)) ?finish)))) ?Q ?E ag"
    by (rule wp_not_aborted [OF a])
  then show ?thesis
    unfolding loop_turn_def Let_def wp_then [of _ "reads ag_phase"] wp_reads ph phase_running.simps phase_turn.simps
    by (simp only: not_True_eq_False if_False)
qed

section \<open>The driver\<close>

lemma turn_closed_tick:
  assumes env: "env_ok strict env"
  shows "turn_closed strict n ag \<Longrightarrow> turn_closed strict n (tick (le_resting env) ag)"
    and "ready strict n ag \<Longrightarrow> ready strict n (tick (le_resting env) ag)"
proof -
  have t: "stands strict c n s ag \<Longrightarrow> stands strict c n s (tick (le_resting env) ag)" for c s
    by (rule stands_tick [where in_turn = False]) (use env in \<open>simp_all add: env_ok_def\<close>)
  show "turn_closed strict n ag \<Longrightarrow> turn_closed strict n (tick (le_resting env) ag)"
    "ready strict n ag \<Longrightarrow> ready strict n (tick (le_resting env) ag)"
    unfolding turn_closed_def ready_def using t by blast+
qed

text \<open>With at least \<open>lo\<close> turns behind it.\<close>

definition between_turns :: "bool \<Rightarrow> nat \<Rightarrow> agent \<Rightarrow> bool" where
  "between_turns strict lo ag \<longleftrightarrow> (\<exists>n \<ge> lo. turn_closed strict n ag)"

definition may_open :: "bool \<Rightarrow> nat \<Rightarrow> agent \<Rightarrow> bool" where
  "may_open strict lo ag \<longleftrightarrow> (\<exists>n \<ge> lo. ready strict n ag)"

lemma between_turns_tick:
  assumes "env_ok strict env"
  shows "between_turns strict lo ag \<Longrightarrow> between_turns strict lo (tick (le_resting env) ag)"
    and "may_open strict lo ag \<Longrightarrow> may_open strict lo (tick (le_resting env) ag)"
  using turn_closed_tick [OF assms] unfolding between_turns_def may_open_def by blast+

lemma turned_between:
  assumes "turned strict env (Suc n) r ag"
  shows "lo \<le> Suc n \<Longrightarrow> between_turns strict lo ag \<and> (r = Inr True \<longrightarrow> may_open strict lo ag)"
  using assms ready_turn_closed by (auto simp: turned_def between_turns_def may_open_def split: if_splits)

lemma loop_turn_triple:
  assumes env: "env_ok strict env"
  shows "triple False (may_open strict lo) (loop_turn env fuel)
     (\<lambda>again ag. between_turns strict lo ag \<and> (again \<longrightarrow> may_open strict lo ag)) (\<lambda>_. between_turns strict lo)"
proof (rule tripleI)
  fix ag
  assume "may_open strict lo ag"
  then obtain n where r: "ready strict n ag" and n: "lo \<le> n" by (auto simp: may_open_def)
  show "wp False (loop_turn env fuel)
     (\<lambda>again ag. between_turns strict lo ag \<and> (again \<longrightarrow> may_open strict lo ag)) (\<lambda>_. between_turns strict lo) ag"
  proof (cases "phase_abort (ag_phase ag)")
    case None
    show ?thesis by (rule wp_mono [OF loop_turn_wp [OF env r None]]) (use n in \<open>auto dest!: turned_between [where lo = lo]\<close>)
  next
    case (Some c)
    have "phase_running (ag_phase ag)" using r by (auto simp: ready_def stands_def driving_def)
    then show ?thesis using Some ready_turn_closed [OF r]
      by (auto simp: loop_turn_def wp_then wp_simps loop_throwIfAborted_def between_turns_def intro: n)
  qed
qed

lemma kick_turns_triple:
  assumes env: "env_ok strict env"
  shows "triple False (may_open strict lo) (kick_turns env fuel k) (\<lambda>_. between_turns strict lo) (\<lambda>_. between_turns strict lo)"
proof (induction k)
  case 0
  show ?case by (simp add: triple_def wp_simps)
next
  case (Suc k)
  have turn: "triple False (may_open strict lo) (awaited (await_resting env) (loop_turn env fuel))
      (\<lambda>again ag. between_turns strict lo ag \<and> (again \<longrightarrow> may_open strict lo ag)) (\<lambda>_. between_turns strict lo)"
    by (rule triple_awaited [OF loop_turn_triple [OF env]]; unfold await_resting_def; rule triple_updates)
      (auto intro: between_turns_tick [OF env])
  show ?case
    unfolding kick_turns.simps
    by (rule triple_then [OF turn], rule triple_cond)
      (auto intro: triple_pre [OF Suc.IH] triple_ret)
qed

text \<open>An idle agent between turns.\<close>

definition parked :: "bool \<Rightarrow> nat \<Rightarrow> agent \<Rightarrow> bool" where
  "parked strict lo ag \<longleftrightarrow> (\<exists>n c. lo \<le> n \<and> rest_cursor n c \<and> active strict c ag \<and> ag_phase ag = Idle n)"

lemma parkedI:
  "lo \<le> n \<Longrightarrow> rest_cursor n c \<Longrightarrow> active strict c ag \<Longrightarrow> ag_phase ag = Idle n \<Longrightarrow> parked strict lo ag"
  unfolding parked_def by blast

lemma parkedE:
  assumes "parked strict lo ag"
  obtains n c where "lo \<le> n" "rest_cursor n c" "active strict c ag" "ag_phase ag = Idle n"
  using assms unfolding parked_def by blast

lemma active_setPhase [simp]: "active strict c (setPhase p ag) = active strict c ag"
  by (simp add: active_def setPhase_def Let_def requests_ok_def)

lemma setPhase_phase [simp]: "ag_phase (setPhase p ag) = p"
  by (simp add: setPhase_def Let_def)

lemma park:
  assumes "between_turns strict lo ag"
  obtains a n s w where "ag_phase ag = Running a n s w" "parked strict lo (setPhase (Idle n) ag)"
proof -
  from assms obtain n c s a w where c: "lo \<le> n" "rest_cursor n c" "active strict c ag" "ag_phase ag = Running a n s w"
    by (auto simp: between_turns_def turn_closed_def stands_def driving_def)
  then have "parked strict lo (setPhase (Idle n) ag)" by (auto intro: parkedI)
  with c(4) that show thesis by blast
qed

lemma wake_ready:
  assumes "parked strict lo ag" and "wakeDriver b ag = (ag', start)"
  obtains n where "start" "lo \<le> n" "ready strict n ag'" "phase_abort (ag_phase ag') = None"
proof -
  from assms(1) obtain n c where c: "lo \<le> n" "rest_cursor n c" "active strict c ag" "ag_phase ag = Idle n"
    by (rule parkedE)
  then have "stands strict c n 0 (setPhase (Running None n 0 False) ag)"
    by (auto simp: stands_def driving_def intro: exI [of _ False])
  with c have "ready strict n (setPhase (Running None n 0 False) ag)" unfolding ready_def by blast
  with c assms(2) that show thesis by (auto simp: wakeDriver_def)
qed

lemma wake_parked:
  "parked strict lo ag \<Longrightarrow> wakeDriver b ag = (ag', start) \<Longrightarrow> start \<and> may_open strict lo ag'"
  by (erule (1) wake_ready) (auto simp: may_open_def)

lemma kick_parks:
  assumes env: "env_ok strict env"
  shows "may_open strict lo ag \<Longrightarrow> kick env fuel k ag = Some ag' \<Longrightarrow> parked strict lo ag'"
proof (induction k arbitrary: ag)
  case 0
  then show ?case by simp
next
  case (Suc k)
  then obtain ag1 r where run: "kick_turns env fuel fuel ag = Some (ag1, r)" by (auto split: option.splits)
  have "between_turns strict lo ag1"
    using tripleD [OF kick_turns_triple [OF env] Suc.prems(1) run] by (cases r) simp_all
  then obtain a n s w where p: "ag_phase ag1 = Running a n s w" "parked strict lo (setPhase (Idle n) ag1)" by (rule park)
  show ?case
  proof (cases "w \<and> ag_pending (setPhase (Idle n) ag1)")
    case True
    obtain ag3 start where w: "wakeDriver False (setPhase (Idle n) ag1) = (ag3, start)" by (metis surj_pair)
    from wake_parked [OF p(2) w] Suc.IH [of ag3] Suc.prems(2) run p(1) True w show ?thesis by (simp add: Let_def)
  next
    case False
    with Suc.prems(2) run p show ?thesis by (auto simp: Let_def)
  qed
qed

text \<open>A driver that starts opens its turn.\<close>

lemma kick_opens:
  assumes env: "env_ok strict env" and r: "ready strict n ag" "phase_abort (ag_phase ag) = None"
    and k: "kick env fuel k ag = Some ag'"
  shows "parked strict (Suc n) ag'"
proof -
  obtain k' where k': "k = Suc k'" using k by (cases k) auto
  have turn: "wp False (awaited (await_resting env) (loop_turn env fuel))
      (\<lambda>again ag. between_turns strict (Suc n) ag \<and> (again \<longrightarrow> may_open strict (Suc n) ag)) (\<lambda>_. between_turns strict (Suc n)) ag"
    unfolding wp_awaited await_resting_def wp_updates
    by (rule wp_mono [OF loop_turn_wp [OF env r]])
      (auto dest!: turned_between [where lo = "Suc n"] intro: between_turns_tick [OF env])
  have "wp False (kick_turns env fuel m) (\<lambda>_. between_turns strict (Suc n)) (\<lambda>_. between_turns strict (Suc n)) ag" for m
  proof (cases m)
    case 0
    then show ?thesis by (simp add: wp_simps)
  next
    case (Suc j)
    show ?thesis
      unfolding Suc kick_turns.simps wp_then
      by (rule wp_mono [OF turn]) (auto simp: wp_simps intro: triple_wp [OF kick_turns_triple [OF env]])
  qed
  moreover obtain ag1 q where run: "kick_turns env fuel fuel ag = Some (ag1, q)" using k k' by (auto split: option.splits)
  ultimately have "between_turns strict (Suc n) ag1" by (cases q) (auto simp: wp_def dest: meta_spec [of _ fuel])
  then obtain a m s w where p: "ag_phase ag1 = Running a m s w" "parked strict (Suc n) (setPhase (Idle m) ag1)" by (rule park)
  show ?thesis
  proof (cases "w \<and> ag_pending (setPhase (Idle m) ag1)")
    case True
    obtain ag3 start where w: "wakeDriver False (setPhase (Idle m) ag1) = (ag3, start)" by (metis surj_pair)
    from wake_parked [OF p(2) w] kick_parks [OF env, of "Suc n" ag3 fuel k' ag'] k run p(1) True w show ?thesis
      by (simp add: k' Let_def)
  next
    case False
    with k run p show ?thesis by (auto simp: k' Let_def)
  qed
qed

lemma after_wake_parks:
  assumes "env_ok strict env" and "if snd q then may_open strict lo (fst q) else parked strict lo (fst q)"
    and "after_wake env fuel q = Some ag'"
  shows "parked strict lo ag'"
  using assms kick_parks [OF assms(1)] by (auto simp: after_wake_def split: if_splits)

section \<open>A new agent\<close>

lemma lastTurn_starts: "lastTurn evs = (if turn_starts evs = [] then 0 else last (turn_starts evs))"
proof (induction evs rule: rev_induct)
  case Nil
  show ?case by (simp add: lastTurn_def turn_starts_def)
next
  case (snoc ev evs)
  have "turn_starts (evs @ [ev]) = turn_starts evs @ (case ev_data ev of TurnStart n \<Rightarrow> [n] | _ \<Rightarrow> [])"
    by (simp add: turn_starts_def)
  with snoc show ?case by (cases "ev_data ev") (simp_all add: lastTurn_def)
qed

lemma lastTurn_trace:
  assumes "seedTrace evs = Inr t" and "st_openTurn t = None"
  shows "st_nextTurn t = Suc (lastTurn evs)"
proof -
  from turn_numbers [OF assms(1)] assms(2) have s: "turn_starts evs = [1..<st_nextTurn t]" and "1 \<le> st_nextTurn t"
    by (auto simp: trace_inv_def)
  then show ?thesis by (cases "st_nextTurn t") (auto simp: lastTurn_starts)
qed

lemma contiguous_lastSeq:
  "foldSurface evs = Inr r \<Longrightarrow> seedTrace evs = Inr t \<Longrightarrow> st_lastSeq t < int (length evs)"
proof (induction evs arbitrary: r t rule: rev_induct)
  case Nil
  then show ?case by (auto simp: seedTrace_def freshTrace_def)
next
  case (snoc ev evs)
  have "foldSurface (evs @ [ev]) = Inr (fst r, snd r)" using snoc.prems(1) by simp
  then obtain st0 q where "applySurfaceEvent st0 ev (length evs) evs 0 = Inr (fst r, q)"
    by (rule foldSurface_snoc_cases)
  then have "ev_seq ev = length evs" by (auto simp: applySurfaceEvent_def bind_res_Inr_iff dest: plan_seq)
  moreover from snoc.prems(2) obtain t0 where "trace_event t0 ev = Inr t" by (auto simp: seedTrace_snoc bind_res_Inr_iff)
  ultimately show ?case by (auto dest: trace_event_seq)
qed

lemma newAgent_parked:
  assumes ok: "session_ok s" and start: "seed_start s \<le> length (s_log s)"
    and t: "seedTrace (s_log s) = Inr t" "st_openTurn t = None" and n: "newAgent s = Inr ag"
  shows "parked strict (lastTurn (s_log s)) ag" and "ag_requests ag = []"
proof -
  from n obtain st q sf where i: "newInbox s = Inr st" and q: "session_surface s = Inr (q, sf)"
    and ag: "ag_inbox ag = \<lparr>ix_session = q, ix_state = st, ix_notes = []\<rparr>" "ag_phase ag = Idle (lastTurn (s_log s))"
      "ag_requests ag = []"
    by (auto simp: newAgent_def bind_res_Inr_iff)
  from session_surface_ok [OF ok] q obtain m where m: "q = s\<lparr>s_surfaceManager := m\<rparr>" "session_ok q" by auto
  have sync: "inbox_synced (ag_inbox ag)"
    using start i m by (simp add: inbox_synced_iff ag newInbox_def seed_start_def)
  from deriveMessages_ok [OF ok] obtain r where f: "foldSurface (s_log s) = Inr r" by blast
  let ?c = "cursor_of t (step_traffic (s_log s))"
  have "placed ?c (ag_inbox ag)"
    using sync t(1) contiguous_lastSeq [OF f t(1)] by (auto simp: placed_def ag m(1))
  moreover have "rest_cursor (lastTurn (s_log s)) ?c"
    using lastTurn_trace [OF t] t(2) turn_numbers [OF t(1)] by (auto simp: rest_cursor_def cursor_of_def trace_inv_def)
  ultimately show "parked strict (lastTurn (s_log s)) ag" using ag by (auto simp: active_def requests_ok_def intro!: parkedI)
  show "ag_requests ag = []" by (rule ag)
qed

section \<open>Commands\<close>

text \<open>Other code between activities appends none of the loop's events either.\<close>

fun command_ok :: "agent_command \<Rightarrow> bool" where
  "command_ok (CommandOutside op) = outside_ok False op"
| "command_ok _ = True"

lemma parked_drifts:
  assumes "parked strict lo ag" and "\<And>c. placed c (ag_inbox ag) \<Longrightarrow> placed c (ag_inbox ag') \<and> drifts ag ag'"
  shows "parked strict lo ag'"
proof -
  from assms(1) obtain n c where n: "lo \<le> n" and c: "rest_cursor n c" "active strict c ag" "ag_phase ag = Idle n" by (rule parkedE)
  with assms(2) [of c] have "placed c (ag_inbox ag')" "drifts ag ag'" by (auto simp: active_def)
  with c have "active strict c ag'" "ag_phase ag' = Idle n"
    by (auto simp: active_def drifts_def intro: requests_ok_extends)
  with c(1) n show ?thesis by (auto intro: parkedI)
qed

lemma agent_send_parked:
  assumes p: "parked strict lo ag" and s: "agent_send now m target wakeup ag = Inr (ag', start)"
  shows "if start then may_open strict lo ag' else parked strict lo ag'"
proof (cases wakeup)
  case False
  have kept: "placed c (ag_inbox ag') \<and> drifts ag ag' \<and> \<not> start" if "placed c (ag_inbox ag)" for c
    using agent_send_awake [OF that _ s] False by simp
  from p obtain c where "placed c (ag_inbox ag)" by (auto simp: parked_def active_def)
  with kept have "\<not> start" by blast
  moreover have "parked strict lo ag'" by (rule parked_drifts [OF p]) (use kept in blast)
  ultimately show ?thesis by simp
next
  case True
  from s True obtain b ix r where i: "inbox_splice_op now (ag_inbox ag) target PosInf (js_of_nat 0) [m] = Inr (ix, r)"
    and w: "wakeDriver b (ag\<lparr>ag_inbox := ix\<rparr>) = (ag', start)"
    using p by (auto simp: agent_send_def Let_def bind_res_Inr_iff parked_def)
  have "parked strict lo (ag\<lparr>ag_inbox := ix\<rparr>)"
    by (rule parked_drifts [OF p]) (use inbox_splice_placed [OF _ i] inbox_splice_log [OF i] in \<open>auto intro: spliced_log_drift\<close>)
  from wake_parked [OF this w] show ?thesis by simp
qed

text \<open>Maintenance keeps the log where it is.\<close>

lemma active_drifts:
  "active strict c ag \<Longrightarrow> placed c' (ag_inbox ag') \<Longrightarrow> drifts ag ag' \<Longrightarrow> active strict c' ag'"
  unfolding active_def drifts_def by (auto intro: requests_ok_extends)

lemma active_tick_n: "active strict c (ag\<lparr>ag_tick := n\<rparr>) = active strict c ag"
  by (simp add: active_def requests_ok_def)

lemma suspend_kept:
  assumes env: "env_ok strict env"
  shows "active strict c ag \<Longrightarrow> \<not> phase_idle (ag_phase ag) \<Longrightarrow> active strict c (suspend_resting env k ag)"
proof (induction k arbitrary: ag)
  case 0
  then show ?case by simp
next
  case (Suc k)
  let ?o = "outside_all (le_resting env (ag_tick ag)) ag"
  have "placed c (ag_inbox ?o)" "drifts ag ?o"
    using outside_all_kept [of c ag "le_resting env (ag_tick ag)" False] Suc.prems env
    by (auto simp: active_def env_ok_def list_all_iff)
  then have "active strict c ?o" "\<not> phase_idle (ag_phase ?o)"
    using Suc.prems active_drifts by (auto simp: drifts_def dest: same_activity_idle)
  then have "active strict c (tick (le_resting env) ag)" "\<not> phase_idle (ag_phase (tick (le_resting env) ag))"
    by (simp_all add: tick_def active_tick_n)
  from Suc.IH [OF this] show ?case by simp
qed

lemma runMaintenance_parked:
  assumes env: "env_ok strict env" and p: "parked strict lo ag" and r: "runMaintenance env fuel k ag = Inr (Some ag')"
  shows "parked strict lo ag'"
proof -
  from p obtain n c where n: "lo \<le> n" and c: "rest_cursor n c" "active strict c ag" "ag_phase ag = Idle n" by (rule parkedE)
  let ?ag1 = "suspend_resting env k (setPhase (Maintenance None n False) ag)"
  have "active strict c ?ag1" by (rule suspend_kept [OF env]) (use c in simp_all)
  then have p2: "parked strict lo (setPhase (Idle n) ?ag1)" using c(1) n by (auto intro: parkedI)
  show ?thesis
  proof (cases "phase_wake (ag_phase ?ag1) \<and> ag_pending (setPhase (Idle n) ?ag1)")
    case True
    obtain q where q: "wakeDriver False (setPhase (Idle n) ?ag1) = q" by blast
    have "may_open strict lo (fst q) \<and> snd q" using wake_parked [OF p2] q by (metis prod.collapse)
    then show ?thesis using after_wake_parks [OF env, where q = q and fuel = fuel and ag' = ag' and lo = lo] r c(3) True q by (simp add: runMaintenance_def Let_def)
  next
    case False
    with r c(3) p2 show ?thesis by (auto simp: runMaintenance_def Let_def)
  qed
qed

lemma agent_do_parked:
  assumes env: "env_ok strict env" and p: "parked strict lo ag" and ok: "command_ok cmd" and d: "agent_do env fuel cmd ag = Some ag'"
  shows "parked strict lo ag'"
proof (cases cmd)
  case (CommandSend m target wakeup)
  show ?thesis
  proof (cases "agent_send (le_clock env (length (ag_log ag))) m target wakeup ag")
    case (Inl e)
    with d p CommandSend show ?thesis by simp
  next
    case (Inr q)
    then have "if snd q then may_open strict lo (fst q) else parked strict lo (fst q)"
      using agent_send_parked [OF p, where ag' = "fst q" and start = "snd q"] by simp
    with d Inr CommandSend show ?thesis by (auto intro: after_wake_parks [OF env])
  qed
next
  case (CommandCancel cause keepInbox)
  then show ?thesis using d p parked_drifts [OF p] agent_cancel_drifts by (fastforce split: sum.splits)
next
  case (CommandMaintenance k)
  then show ?thesis using d p runMaintenance_parked [OF env p] by (auto split: sum.splits)
next
  case (CommandOutside op)
  have "parked strict lo (outside_do ag op)" if "\<forall>n m tg. op \<noteq> OutSend n m tg True"
    by (rule parked_drifts [OF p]) (use outside_do_kept [of _ ag False op] ok CommandOutside that in auto)
  then show ?thesis using d p CommandOutside by (cases op) (auto split: bool.splits)
qed

lemma agent_run_parked:
  assumes "env_ok strict env"
  shows "parked strict lo ag \<Longrightarrow> list_all command_ok cmds \<Longrightarrow> agent_run env fuel cmds ag = Some ag' \<Longrightarrow> parked strict lo ag'"
  by (induction cmds arbitrary: ag) (auto split: option.splits dest: agent_do_parked [OF assms])

section \<open>Waking messages\<close>

lemma agent_send_wakes:
  assumes p: "parked strict lo ag" and s: "agent_send now m target True ag = Inr (ag', start)"
  shows "start \<and> ready strict (phase_turn (ag_phase ag)) ag' \<and> phase_abort (ag_phase ag') = None"
proof -
  from p obtain n c where c: "rest_cursor n c" "active strict c ag" "ag_phase ag = Idle n" by (rule parkedE)
  from s c(3) obtain b ix r where i: "inbox_splice_op now (ag_inbox ag) target PosInf (js_of_nat 0) [m] = Inr (ix, r)"
    and w: "wakeDriver b (ag\<lparr>ag_inbox := ix\<rparr>) = (ag', start)"
    by (auto simp: agent_send_def Let_def bind_res_Inr_iff)
  have "parked strict n (ag\<lparr>ag_inbox := ix\<rparr>)"
    by (rule parked_drifts [OF parkedI [OF order_refl c]])
      (use inbox_splice_placed [OF _ i] inbox_splice_log [OF i] in \<open>auto intro: spliced_log_drift\<close>)
  from wake_ready [OF this w] obtain k where "start" "n \<le> k" "ready strict k ag'" "phase_abort (ag_phase ag') = None" .
  moreover have "phase_turn (ag_phase ag') = n" using w c(3) by (auto simp: wakeDriver_def)
  moreover have "phase_turn (ag_phase ag') = k" using \<open>ready strict k ag'\<close> by (auto simp: ready_def stands_def driving_def)
  ultimately show ?thesis using c(3) by simp
qed

lemma turn_closed_numbers:
  assumes "turn_closed strict n ag"
  shows "turn_starts (ag_log ag) = [1..<Suc n]" and "turn_ends (ag_log ag) = [1..<Suc n]"
proof -
  from assms obtain c s where c: "rest_cursor n c" "stands strict c n s ag" by (auto simp: turn_closed_def)
  then obtain t where t: "seedTrace (ag_log ag) = Inr t" "cursor_of t (step_traffic (ag_log ag)) = c"
    by (auto simp: stands_def active_def placed_def)
  from t(2) c(1) have "st_openTurn t = None" "st_nextTurn t = Suc n" by (auto simp: cursor_of_def rest_cursor_def)
  with turn_numbers [OF t(1)] show "turn_starts (ag_log ag) = [1..<Suc n]" "turn_ends (ag_log ag) = [1..<Suc n]" by simp_all
qed

end
