(* ===== verification/Sample_Loop.thy ===== *)
theory Sample_Loop
  imports Sample_Log Driver_Laws
begin

text \<open>
  An agent whose model first answers with two parallel tool calls, of which the second settles first, and then
  with text, while a user steers it and asks for a second turn: the concrete input of the properties of the loop.
\<close>

definition sample_call_chunks :: "stream_chunk list" where
  "sample_call_chunks =
     [BlockStart 0 ''tool-call'', ToolCallDelta 0 ''c1'' (Some ''read'') ''{}'', BlockEnd 0 (ToolCallBlock ''c1'' ''read'' ''{}''),
      BlockStart 1 ''tool-call'', ToolCallDelta 1 ''c2'' (Some ''list'') ''{}'', BlockEnd 1 (ToolCallBlock ''c2'' ''list'' ''{}''),
      FinishChunk FinishToolCalls None]"

definition sample_text_chunks :: "stream_chunk list" where
  "sample_text_chunks = [TextDelta 0 ''done'', FinishChunk FinishStop None]"

definition sample_result :: tool_execution_result where
  "sample_result =
     \<lparr>ter_content = [TextBlock ''ok''], ter_isError = False, ter_info = None, ter_meta = None,
      ter_additionalContexts = [], ter_concludesTurn = False\<rparr>"

definition sample_loop_env :: loop_env where
  "sample_loop_env =
     \<lparr>le_options = \<lparr>lo_provider = Some ''deepseek'', lo_model = Some ''chat'', lo_maxTokens = None\<rparr>,
      le_maxParallel = 2, le_clock = (\<lambda>n. 100 + n), le_uuid = (\<lambda>n. replicate (Suc n) (CHR ''x'')),
      le_errorChain = (\<lambda>_. ''failed''),
      le_outside = (\<lambda>n. if n = 9 then [OutSend 7 (user_text ''u2'') NextStep True] else []),
      le_building = (\<lambda>_. [OutRead ReadSurface]), le_resting = (\<lambda>_. []),
      le_assemble = (\<lambda>_. Inr \<lparr>pa_sections = [Inr ''You help.''], pa_contexts = [(''date'', Inr ''today'')], pa_tools = []\<rparr>),
      le_preStep = (\<lambda>_ _ d. Inr d), le_request = (\<lambda>_ c. Inr c),
      le_prepareCall = (\<lambda>_ c. Inr \<lparr>pc_config = c, pc_adapterDefaults = \<lparr>ad_reasoningEffort = False, ad_maxTokens = False\<rparr>,
                                    pc_contextWindow = None\<rparr>),
      le_stream = (\<lambda>_ r. Inr (if length (go_messages r) = 2 then sample_call_chunks else sample_text_chunks, None)),
      le_requestError = (\<lambda>_ _. Inr False), le_turnStopping = (\<lambda>_. Inr ()), le_jsonParse = (\<lambda>_. None),
      le_executionMode = (\<lambda>_ _. True), le_prepareTool = (\<lambda>_ _. Inr DispatchCall),
      le_dispatchTool = (\<lambda>_ _. Inr (sample_result, False)), le_settles = (\<lambda>_. [1]),
      le_finalize = (\<lambda>_ r. Inr r), le_finish = (\<lambda>_ r. Inr r)\<rparr>"

lemma sample_distinct_calls: "distinct_calls sample_loop_env"
proof -
  have calls: "map_error (\<lambda>_. ()) (assembled (assembler_push_all sample_call_chunks))
      = Inr ([ToolCallBlock ''c1'' ''read'' ''{}'', ToolCallBlock ''c2'' ''list'' ''{}''], None)" by code_simp
  have plain: "map_error (\<lambda>_. ()) (assembled (assembler_push_all sample_text_chunks)) = Inr ([TextBlock ''done''], None)" by code_simp
  have "distinct (map call_id (List.map_filter call_of content))"
    if "assembled (assembler_push_all chunks) = Inr (content, replayState)"
      and "chunks = sample_call_chunks \<or> chunks = sample_text_chunks" for chunks content replayState
    using that(2)
  proof
    assume "chunks = sample_call_chunks"
    with that(1) calls show ?thesis by (simp add: List.map_filter_simps)
  next
    assume "chunks = sample_text_chunks"
    with that(1) plain show ?thesis by (simp add: List.map_filter_simps)
  qed
  then show ?thesis by (auto simp: distinct_calls_def sample_loop_env_def split: if_splits)
qed

lemma sample_env_ok: "env_ok True sample_loop_env" "env_ok False sample_loop_env"
  using sample_distinct_calls
  by (auto simp: env_ok_def sample_loop_env_def outside_ok_def outside_quiet_def list_all_iff split: if_splits)

definition sample_commands :: "agent_command list" where
  "sample_commands =
     [CommandSend (user_text ''u1'') NextTurn True, CommandMaintenance 1,
      CommandSend (user_text ''u3'') NextStep False, CommandCancel CancelDisposed False]"

lemma sample_commands_ok: "list_all command_ok sample_commands"
  by (simp add: sample_commands_def)

definition sample_agent :: agent where
  "sample_agent = (case newAgent sample_session of Inr ag \<Rightarrow> ag | Inl _ \<Rightarrow> undefined)"

lemma sample_agent_new: "newAgent sample_session = Inr sample_agent"
proof -
  have "is_ok (newAgent sample_session)" by code_simp
  then show ?thesis by (auto simp: is_ok_iff sample_agent_def)
qed

lemma sample_run_ends: "agent_run sample_loop_env 6 sample_commands sample_agent \<noteq> None"
  by code_simp

end
