(* ===== verification/Spec2Isabelle.thy ===== *)
theory Spec2Isabelle
  imports Consumed_Work Sample_Platform Chunk_Rows Output_Retention Schedule_Tools Compaction_Results Sample_Loop
begin

text \<open>
  A verification development for the agent harness in this repository: the durable session log and the
  folds over it (packages/core/session, packages/core/agent), token metering and context compaction
  (packages/llm/token-meter, packages/compaction), the goal and reminder extensions that live
  in that log (packages/goal/goal, packages/schedule/schedule), the storage and output codecs around it,
  and the multi-user platform in front of it (services/platform-bff, services/model-gateway).

  \<^bold>\<open>How the parts interact.\<close> A session is an append-only list of events. Every state the program
  shows is a fold of that list: the message surface, the request header, the agent's inbox, the goal, the
  reminders. Live code keeps such states incrementally and checks an event before it enters the log; a
  restart, a fork or a crash recovery computes them again from the log. Most of the development says that
  the two agree. The token meter prices the surface; when the price passes a threshold, the compaction
  engine replaces a head of the surface by a summary, in a bracket of events that is also its lock. The platform keeps accounts, sessions and runtime slots in a database, proxies a signed-in
  user to the runtime of the user's slot, and the gateway bills the model calls of a slot to its user.

  \<^bold>\<open>Theories.\<close>
  \<^item> Dsh_Prelude: results of code that throws, folds of such code, array operations, and the locale of an
    event-sourced projection (a fold that can also be run incrementally), interpreted by Surface,
    Session_Trace, Inbox, Goal_Fold and Schedule_Laws. Json_Value and Js_String: JSON values, their equality, and the
    string functions the code uses. Session_Types: messages, stream chunks and events.
  \<^item> Surface (session/src/surface.ts): planning and applying one surface operation, replacement with
    provenance, the full fold and the incremental manager; \<open>foldSurface\<close>, \<open>planSurfaceEvent\<close>, \<open>validateNext\<close>
    keep their names. Session_Log (session/src/index.ts, request-header.ts, llm/src/call-config.ts):
    creation, append, cached reads, derived messages and forking; its locales
    \<open>event_log\<close> and \<open>log_client\<close> are the log as Inbox and Goal_Service use it. Session_Trace (session/src/invariant.ts):
    the turn, step and call discipline. Repair (session/src/repair.ts): the synthetic events that close an
    interrupted log. Chunk_Rows (session/src/chunk-rows.ts): packing of streamed chunks.
  \<^item> Block_Assembler (llm/llm/src/assembler.ts): from stream chunks to message blocks. Token_Meter
    (llm/token-meter/src): the estimator, the priced surface, the running totals and the measuring service;
    Metering_Laws and Usage_Laws: their lemmas, with the locale \<open>running_total\<close> of a total kept in constant
    space, interpreted by the breakdown and the pressure.
  \<^item> Surface_Rewrite: appending on and off the surface, for what rewrites it. Tool_Pruner and Pruner_Laws
    (compaction-tool-result-pruner/src): shortening of long tool results. Tool_Pairing
    (compaction/src/tool-pairing.ts): which cuts of the surface separate no result from its call.
  \<^item> Compaction_Trace (compaction/src/invariant.ts, checkpoint.ts and the lock of compaction-basic/src/region.ts),
    Compaction_Region (region.ts: the range, the transaction), Js_Double and Compaction_Config (config.ts: budgets
    in double arithmetic, policies), Compaction_Engine (index.ts, summarizer.ts, command-compact/src/index.ts:
    summarizer, triggers, listeners, manual compaction and its command). Compaction_Laws, Compaction_Safety,
    Compaction_Bracket and Engine_Laws: a small calculus of operations that keep the log (\<open>yields\<close>), the
    choice of the range, the transaction, its acceptance by the validator, and the bounds of the engine.
  \<^item> Inbox and Consumed_Work (agent/src/inbox.ts, consumed-work.ts): the two pending queues with their
    durable splices, and the account of consumed work.
  \<^item> Goal_Fold (goal/src/fold.ts, domain.ts, types.ts) decodes and folds goal changes; Goal_Service
    (goal/src/index.ts) is the service with its compare-and-set, its cache and its specification.
  \<^item> Js_Date: the UTC calendar of JavaScript dates. Schedule_Domain (schedule/src/domain.ts, types.ts):
    decoding, rules, fixed-rate arithmetic, identities, framing. Schedule_Runtime (runtime.ts, tools.ts,
    invariant.ts): the drive of due reminders and the three tools. Schedule_Laws and Schedule_Tools: their
    lemmas.
  \<^item> Output_Retention (util/output-retention/src/index.ts): bounded prefix and suffix retention of byte
    streams, cut at UTF-8 boundaries.
  \<^item> Platform (services/platform-bff/src/index.ts): the database with its constraints and the handlers as
    functions on it; Platform_Inv proves its invariant over all reachable states and Platform_Laws what
    each request does. Model_Gateway (services/model-gateway/src): slot of a host, binding, capture and
    usage.
  \<^item> Loop_State, Tool_Scheduler and Agent_Loop (core/agent-loop/src/agent.ts, tool-calls.ts, runtime-context.ts): the
    driver of an agent as programs over its state, which suspend at every \<open>await\<close> of the code: requests,
    responses, steps, turns, the scheduler of tool calls, and the operations of the Agent interface. Loop_Logic: a
    calculus of weakest preconditions for these programs and the cursor of a log in the trace; Loop_Seams,
    Loop_Laws and Scheduler_Laws: what each primitive, and the scheduler, does to that cursor.
  \<^item> Sample_Log, Sample_Compaction and Sample_Platform: concrete states the witnesses run on.
    Compaction_Results: the properties of metering and compaction. This theory: the other properties.

  \<^bold>\<open>How the model reads.\<close> Types and functions keep the names of the code; a class is a record with one
  function per method that returns the changed record; a throwing function returns a sum whose left side is
  the error, usually a constructor that stands for the code's message. A step that awaits something outside
  takes its outcome as input (the fields of \<open>drive_input\<close> and \<open>tool_input\<close>, the clock, random identities).
  JavaScript numbers are \<open>JInt\<close>, an integer, or \<open>JFrac\<close>, any other finite number; the code refuses the
  second kind wherever it computes, and checks that results are safe integers, inside which double and
  exact arithmetic agree. Strings are lists of Latin-1 characters. Bytes are 8-bit words.

  \<^bold>\<open>What is shown.\<close> C1 to C7 concern sessions: cached reads are folds, append and replay accept the
  same events, the surface partitions the surface events, recovery closes any valid interrupted log and
  only that, forks are closed prefixes. C8 and C9: the inbox. C10 to C12: goals. C13 to C17: accounts, slots and
  sign-in of the platform. C18 to C20: storage rows and bounded output. C21 to C25: reminders. C26 to C29:
  assembly and metering. C30 to C32: pruning, pairing and the range. C33 to C40: the compaction transaction, its
  lock, its configuration, its bounds and its failures. Each states what it says next to its theorem. Lemmas of this theory
  without a number state further facts of the same components, also behaviour their checks do not prevent.

  \<^bold>\<open>Bounds and loops.\<close> Recursion is structural or has a measure, except the search for a free reminder
  identity, a partial function shown to end within as many steps as identities are used (C23). The drain
  loop of the reminder runtime takes the inputs its drives meet; C24 gives the number of drives after which
  it stops.

  \<^bold>\<open>Parameters.\<close> Password hashing and token digests (\<open>crypto\<close> of Platform), the UTF-8 decoder (\<open>text_finish\<close>),
  the time-zone tables of \<open>Intl\<close> (\<open>intl\<close>), the printer of fractional numbers (\<open>decimal\<close>), and what the
  network returns to the gateway are arguments. Compaction awaits the model stream, the model catalogue and the
  durability flush: each is a transformer of the host that may append anything but the events of another
  compaction (\<open>await_ok\<close>), as the lock and the metering protocol of the other producers promise.

  The agent loop takes an environment (\<open>loop_env\<close>): what other code does to the agent at each suspension, and the
  results of the plugins, tools and model streams it calls, as functions of the number of the suspension.

  \<^bold>\<open>Not modelled.\<close> The tool registry behind the scheduler, the life cycle of agents (agent-loop/src/index.ts) and
  listeners that call back into an agent from one of its synchronous notifications, which
  belong to the plugin framework; provider adapters, subprocesses, sandboxes, file, database and network access; the user
  interface, the remote procedure bindings and generated code. In modelled
  files, glue is left out: event emission to other plugins, JSON schemas of tools, service life cycles, the
  coalescing of triggers of the reminder runtime, the parsing of JSON text, and the read-only reports of the platform.
\<close>

section \<open>Sessions\<close>

text \<open>
  C1. Whatever operations a live session has served, in any order, every read through a cache
  returns the fold of the whole log: the surface, the request header, the request context, and the
  derived messages, which are the messages of the surface nodes.
\<close>

theorem session_reads_are_folds:
  assumes "session_create h now seed = Inr s0" and "s = session_run s0 ops"
  shows "\<exists>st reps. foldSurface (s_log s) = Inr (st, reps)
     \<and> (\<exists>s'. session_surface s = Inr (s', st))
     \<and> (\<exists>s'. deriveMessages s = Inr (s', derive_nodes (s_log s) (sf_nodes st)))
     \<and> snd (requestHeader s) = foldRequestHeader (s_log s) None
     \<and> snd (requestContext s) = foldRequestContext (s_log s) None"
proof -
  have ok: "session_ok s" using session_run_ok [OF session_create_ok(1) [OF assms(1)]] assms(2) by simp
  from session_surface_ok [OF ok] obtain m st reps where s: "session_surface s = Inr (s\<lparr>s_surfaceManager := m\<rparr>, st)"
    and f: "foldSurface (s_log s) = Inr (st, reps)" by blast
  from deriveMessages_ok [OF ok] f have "\<exists>s'. deriveMessages s = Inr (s', derive_nodes (s_log s) (sf_nodes st))"
    by auto
  with s f requestHeader_ok(2) [OF ok] requestContext_ok(2) [OF ok] show ?thesis
    by (metis prod.collapse)
qed

definition sample_ops :: "session_op list" where
  "sample_ops =
     [SessionAppend 5 (TurnStart 1) no_intent, ReadMessages,
      SessionAppend 6 (UserMessage (user_text ''u1'')) \<lparr>si_surfaceOp = Some append_op, si_sourceEventSeqs = None\<rparr>,
      ReadHeader, ReadMessages]"

theorem session_reads_are_folds_witness:
  "session_create sample_header 4 None = Inr sample_session
   \<and> (\<exists>st reps s'. foldSurface (s_log (session_run sample_session sample_ops)) = Inr (st, reps)
        \<and> deriveMessages (session_run sample_session sample_ops)
            = Inr (s', derive_nodes (s_log (session_run sample_session sample_ops)) (sf_nodes st)))"
proof -
  have c: "session_create sample_header 4 None = Inr sample_session"
    by (simp add: session_create_def sample_session_def emptySession_def Let_def)
  from session_reads_are_folds [OF c refl, of sample_ops] c show ?thesis by blast
qed



text \<open>
  C3. The invariant of the surface over an accepted log: sequence numbers are positions; every
  surface event is on the surface or was shadowed by exactly one replacement; a replacement cites
  every event it shadows, all of them earlier, and a rewritten tool result differs from the one it
  replaces in its content only.
\<close>

theorem surface_partition:
  assumes "foldSurface evs = Inr (st, reps)"
  shows "(\<forall>i < length evs. ev_seq (evs ! i) = i)
     \<and> distinct (sf_nodes st @ concat (map sr_shadowedSeqs reps))
     \<and> set (sf_nodes st @ concat (map sr_shadowedSeqs reps)) = {i. i < length evs \<and> isSurfaceEvent (evs ! i)}
     \<and> sf_replaceGeneration st = length reps
     \<and> (\<forall>r \<in> set reps. replacement_ok evs r)"
proof -
  have inv: "surface_inv (evs, st, reps)" using foldSurface_inv [OF assms] .
  then have m: "mset (sf_nodes st @ concat (map sr_shadowedSeqs reps)) = mset (surface_seqs evs)" by simp
  have "distinct (sf_nodes st @ concat (map sr_shadowedSeqs reps))"
    using mset_eq_imp_distinct_iff [OF m] by simp
  moreover have "set (sf_nodes st @ concat (map sr_shadowedSeqs reps)) = set (surface_seqs evs)"
    using mset_eq_setD [OF m] .
  ultimately show ?thesis using inv by (auto simp: surface_seqs_def)
qed

theorem surface_partition_witness:
  "\<exists>st reps. foldSurface interrupted_log = Inr (st, reps) \<and> distinct (sf_nodes st @ concat (map sr_shadowedSeqs reps))"
  using surface_partition [OF sample_surface] sample_surface by blast



text \<open>
  C5. Recovery is idempotent, and it leaves a log with no open turn alone.
\<close>

theorem repair_idempotent:
  assumes "seedTrace evs = Inr t"
  shows "interruptedTurnClosers (evs @ interruptedTurnClosers evs) = []
     \<and> (interruptedTurnClosers evs = [] \<longleftrightarrow> st_openTurn t = None)"
proof
  show "interruptedTurnClosers (evs @ interruptedTurnClosers evs) = []"
    by (rule repaired_balanced [OF assms])
  have same: "rs_openTurn (repair_scan_of evs) = st_openTurn t"
    using scan_sync_log [OF assms] by (simp add: scan_sync_def)
  show "interruptedTurnClosers evs = [] \<longleftrightarrow> st_openTurn t = None"
  proof (cases "st_openTurn t")
    case None
    with same show ?thesis by (simp add: closers_none)
  next
    case (Some turn)
    with same have r: "rs_openTurn (repair_scan_of evs) = Some turn" by simp
    show ?thesis
      unfolding closers_unfold [OF r open_turn_nonempty [OF r] refl refl refl] using Some
      by (auto split: option.splits)
  qed
qed

theorem repair_idempotent_witness:
  "interruptedTurnClosers (interrupted_log @ interruptedTurnClosers interrupted_log) = []"
  using sample_trace repair_idempotent by blast





text \<open>
  In a log the session trace accepts, turns are numbered 1, 2, 3, \<dots> in order, each ended before
  the next starts; only the last may be open, and calls are pending only inside an open step.
\<close>

lemma turns_numbered:
  assumes "seedTrace evs = Inr t"
  shows "turn_starts evs = [1..<st_nextTurn t] @ (case st_openTurn t of None \<Rightarrow> [] | Some n \<Rightarrow> [n])
     \<and> turn_ends evs = [1..<st_nextTurn t]
     \<and> (\<forall>n. st_openTurn t = Some n \<longrightarrow> n = st_nextTurn t)
     \<and> (st_pendingCalls t \<noteq> {} \<longrightarrow> st_openStep t \<noteq> None) \<and> (st_openStep t \<noteq> None \<longrightarrow> st_openTurn t \<noteq> None)"
  using turn_numbers [OF assms] by (simp add: trace_inv_def)

section \<open>The inbox\<close>

definition sample_inbox :: inbox where
  "sample_inbox = \<lparr>ix_session = sample_session, ix_state = emptyInbox, ix_notes = []\<rparr>"

lemma sample_inbox_synced: "inbox_synced sample_inbox"
proof -
  have "newInbox sample_session = Inr emptyInbox" by code_simp
  moreover have "seed_start sample_session \<le> length (s_log sample_session)" by code_simp
  ultimately show ?thesis by (simp add: inbox_synced_iff sample_inbox_def sample_session_ok)
qed

definition inbox_ops :: "(nat \<times> inbox_op) list" where
  "inbox_ops =
     [(1, IxAppend NextTurn (user_text ''m1'')), (2, IxAppend NextStep (user_text ''m2'')),
      (3, IxAppend NextTurn (user_text ''m1'')), (4, IxReplace ''m1'' (user_text ''m3'')),
      (5, IxClaim NextTurn 1), (6, IxRemove ''m2''), (7, IxClear)]"

text \<open>
  C8. After any run of inbox operations the pending lists are what a new inbox would compute from
  the session's log, and no message identity is pending twice.
\<close>

theorem inbox_live_is_replay:
  assumes "session_ok s" and "seed_start s \<le> length (s_log s)" and "newInbox s = Inr st"
    and "ix = inbox_run \<lparr>ix_session = s, ix_state = st, ix_notes = []\<rparr> ops"
  shows "newInbox (ix_session ix) = Inr (ix_state ix)
     \<and> distinct (map m_id (pending_messages (ix_state ix)))"
proof -
  have "inbox_synced \<lparr>ix_session = s, ix_state = st, ix_notes = []\<rparr>"
    using assms(1, 2, 3) by (simp add: inbox_synced_iff)
  from inbox_run_balance [OF this, of "mset (pending_messages st)" ops] assms(4)
  have "inbox_synced ix" by (simp add: inbox_balance_def)
  moreover from this have "inbox_inv (ix_state ix)" using ilog.synced_inv by (simp add: inbox_synced_def)
  ultimately show ?thesis by (simp add: inbox_synced_iff inbox_inv_def)
qed

theorem inbox_live_is_replay_witness:
  "newInbox (ix_session (inbox_run sample_inbox inbox_ops)) = Inr (ix_state (inbox_run sample_inbox inbox_ops))"
proof -
  have "newInbox sample_session = Inr emptyInbox" by code_simp
  moreover have "seed_start sample_session \<le> length (s_log sample_session)" by code_simp
  ultimately show ?thesis
    using inbox_live_is_replay [OF sample_session_ok _ _ refl, of emptyInbox inbox_ops] by (simp add: sample_inbox_def)
qed

text \<open>
  C9. No message is lost or duplicated: at any time the messages pending, together with those the
  notifications report as claimed or discarded, are those pending at the start and those reported
  as inserted, each as often.
\<close>

theorem inbox_conserves_messages:
  assumes "inbox_synced ix" and "ix_notes ix = []"
  shows "mset (pending_messages (ix_state (inbox_run ix ops))) + notes_out (ix_notes (inbox_run ix ops))
       = mset (pending_messages (ix_state ix)) + notes_in (ix_notes (inbox_run ix ops))"
proof -
  have "inbox_balance (mset (pending_messages (ix_state ix))) ix" using assms(2) by (simp add: inbox_balance_def)
  from inbox_run_balance [OF assms(1) this] show ?thesis by (simp add: inbox_balance_def)
qed

theorem inbox_conserves_messages_witness:
  "mset (pending_messages (ix_state (inbox_run sample_inbox inbox_ops))) + notes_out (ix_notes (inbox_run sample_inbox inbox_ops))
     = notes_in (ix_notes (inbox_run sample_inbox inbox_ops))"
proof -
  have "ix_notes sample_inbox = []" "pending_messages (ix_state sample_inbox) = []"
    by (simp_all add: sample_inbox_def emptyInbox_def pending_messages_def)
  with inbox_conserves_messages [OF sample_inbox_synced, of inbox_ops] show ?thesis by simp
qed

text \<open>
  A claim at a step boundary never fails: it takes every next-step message, in order, then at a
  turn start the first next-turn message, and it leaves the others pending.
\<close>

lemma inbox_claim_takes:
  assumes "inbox_synced ix" and "int (length (ib_nextTurn (ix_state ix))) \<le> max_safe_integer"
    and "int (length (ib_nextStep (ix_state ix))) \<le> max_safe_integer"
  shows "\<exists>ix'. inbox_claim now ix target turn
      = Inr (ix', ib_nextStep (ix_state ix) @ (if target = NextTurn then take 1 (ib_nextTurn (ix_state ix)) else []))
    \<and> ix_state ix' = \<lparr>ib_nextTurn = (if target = NextTurn then drop 1 (ib_nextTurn (ix_state ix))
                                    else ib_nextTurn (ix_state ix)), ib_nextStep = []\<rparr>"
  by (rule inbox_claim_total [OF assms])

text \<open>
  The account of consumed work: over an accepted log the fold returns the last turn end that
  accounts for work (a step ran in its turn, or input was claimed in it and it did not complete),
  and whether pending input was dropped after it.
\<close>

lemma consumed_work_is_latest_account:
  assumes "seedTrace evs = Inr t"
  shows "work_account evs (cw_end (foldConsumedWork evs)) (cw_droppedUnrun (foldConsumedWork evs))"
  by (rule foldConsumedWork_account [OF assms])

section \<open>Goals\<close>







text \<open>
  C11. In a log the goal fold accepts, no goal identity is created twice, the revisions recorded of
  each goal are 1, 2, 3, \<dots> in order, its admitted rounds too, and the state holds the last of each.
\<close>

theorem goal_log_history:
  assumes "foldGoal evs = Inr f"
  shows "distinct (created_goals evs)
     \<and> (\<forall>i. \<exists>k. goal_revisions evs i = [1..<Suc k]) \<and> (\<forall>i. \<exists>k. goal_rounds evs i = [1..<Suc k])
     \<and> (\<forall>g. fg_goal f = Some g \<longrightarrow> goal_revisions evs (gs_id g) = [1..<Suc (gs_revision g)]
           \<and> goal_rounds evs (gs_id g) = [1..<Suc (fg_roundsStarted f)])"
proof -
  from assms obtain st where "gol.replay evs = Inr st" "fg_goal f = gf_goal st" "fg_roundsStarted f = gf_roundsStarted st"
    by (auto simp: foldGoal_def gol.replay_def bind_res_Inr_iff)
  with goal_history_log [of evs st] show ?thesis by (simp add: goal_history_def)
qed

definition goal_log :: "session_event list" where
  "goal_log =
     [sample_event 0 (GoalChange (goal_change_json
        (SnapshotChange OpCreate \<lparr>gs_id = ''goal-u1'', gs_revision = 1, gs_objective = ''ship it'', gs_phase = GActive,
           gs_blockedReason = None, gs_maxGoalRounds = 2\<rparr> 0 5 5))) None,
      sample_event 1 (UserMessage ((user_text ''u2'')\<lparr>m_source := GoalSource ''goal-u1'' (JInt 1) (JInt 1)\<rparr>)) (Some append_op)]"

theorem goal_log_history_witness:
  "\<exists>f. foldGoal goal_log = Inr f \<and> goal_rounds goal_log ''goal-u1'' = [1..<Suc (fg_roundsStarted f)]"
proof -
  have "is_ok (foldGoal goal_log)" by code_simp
  then obtain f where f: "foldGoal goal_log = Inr f" by (auto simp: is_ok_iff)
  have "(case foldGoal goal_log of Inr f \<Rightarrow> map_option gs_id (fg_goal f) | Inl _ \<Rightarrow> None) = Some ''goal-u1''" by code_simp
  with f obtain g where "fg_goal f = Some g" "gs_id g = ''goal-u1''" by auto
  with goal_log_history [OF f] f show ?thesis by auto
qed

text \<open>C12. A well-formed goal change decodes to itself from the payload the service appends.\<close>

theorem goal_change_roundtrip:
  assumes "change_wf c"
  shows "decodeGoalChange (goal_change_json c) = Inr (Some c)"
  by (rule decode_change [OF assms])

theorem goal_change_roundtrip_witness:
  "decodeGoalChange (goal_change_json (ClearChange \<lparr>gr_id = ''g'', gr_revision = 2\<rparr> 9))
     = Inr (Some (ClearChange \<lparr>gr_id = ''g'', gr_revision = 2\<rparr> 9))"
  by (rule goal_change_roundtrip) (simp add: safe_nat_def max_safe_integer_def)

text \<open>
  Whatever payload the decoder accepts is a well-formed change, which it returns from its own encoding.\<close>

lemma goal_decoder_sound:
  assumes "decodeGoalChange v = Inr (Some c)"
  shows "change_wf c \<and> decodeGoalChange (goal_change_json c) = Inr (Some c)"
  using decode_change decode_change_wf [OF assms] by blast

text \<open>
  A goal is never armed by loading it: a service that has just started on a log shows the goal
  of that log disarmed, whatever the log holds.
\<close>

lemma goal_restart_disarms:
  assumes "service_ok sv" and "goal_state_of sv st armed"
  shows "goal_state_of (sv\<lparr>gv_cache := None\<rparr>) st False
     \<and> (\<forall>st' armed'. goal_state_of (sv\<lparr>gv_cache := None\<rparr>) st' armed' \<longrightarrow> st' = st \<and> \<not> armed')"
proof -
  have f: "gol.replay (s_log (gv_session sv)) = Inr st" "glog.synced (gv_session sv) st"
    using assms(2) by (simp_all add: goal_state_of_def goal_synced_iff)
  have p: "prepareMutation True (sv\<lparr>gv_cache := None\<rparr>) = Inr (sv\<lparr>gv_cache := Some c\<rparr>, c)"
    if "c = \<lparr>gc_state = st, gc_armed = False, gc_observedSeq = length (s_log (gv_session sv)), gc_pendingActivation = None\<rparr>"
    for c using f(1) that by (simp add: prepareMutation_def goal_cache_of_def goal_sync_def gol.replay_def)
  show ?thesis using p [OF refl] f(2) by (auto simp: goal_state_of_def)
qed

section \<open>The platform\<close>



text \<open>
  C14. Slot isolation: two requests the runtime proxy forwards to the same slot carry tokens of the
  same user, who is active and has changed the initial password; the model gateway bills every call
  from that slot to that user.
\<close>

theorem slot_isolation:
  assumes "platform_reachable cr (now, d)"
    and "runtime_route cr now token m p b d = (d1, ProxyTo s)"
    and "runtime_route cr now token' m' p' b' d = (d2, ProxyTo s)"
    and "gateway_handle decode parse d rq outcome = (rows, reply)" and "row \<in> set rows" and "ue_slot row = s"
  shows "\<exists>u x x'. sessionForToken cr now token d = (d1, Some (u, x)) \<and> sessionForToken cr now token' d = (d2, Some (u, x'))
     \<and> us_active u \<and> \<not> us_mustChange u \<and> ue_user row = us_id u"
proof -
  have inv: "users_inv d" "runtimes_inv d" using platform_reachable_inv [OF assms(1)] by (simp_all add: platform_inv_def)
  from runtime_route_proxy [OF assms(2)] obtain u x where u: "sessionForToken cr now token d = (d1, Some (u, x))"
    "us_active u" "\<not> us_mustChange u" "runtime_slot d (us_id u) = Some s" by blast
  from runtime_route_proxy [OF assms(3)] obtain v y where v: "sessionForToken cr now token' d = (d2, Some (v, y))"
    "runtime_slot d (us_id v) = Some s" by blast
  have same: "us_id v = us_id u" using runtime_slot_unique [OF inv(2) v(2) u(4)] .
  have "find_user d (us_id u) = Some u" "find_user d (us_id v) = Some v"
    using u(1) v(1) find_user_Some by (metis sessionForToken_user)+
  with same have "v = u" by simp
  moreover have "ue_user row = us_id u"
    using gateway_handle_row [OF assms(4, 5)] assms(6) binding_owner [OF inv(2) u(4)] by simp
  ultimately show ?thesis using u v(1) by blast
qed

theorem slot_isolation_witness:
  "\<exists>u x row. sessionForToken sample_crypto 5 (Some ''tok'') logged_in_db
        = (fst (runtime_route sample_crypto 5 (Some ''tok'') ''GET'' ''/'' None logged_in_db), Some (u, x))
     \<and> fst (gateway_handle (\<lambda>_. []) (\<lambda>_. None) logged_in_db gateway_call FetchFailed) = [row] \<and> ue_user row = us_id u"
proof -
  from logged_in_route obtain d1 where
    r: "runtime_route sample_crypto 5 (Some ''tok'') ''GET'' ''/'' None logged_in_db = (d1, ProxyTo 1)"
    by (metis prod.collapse)
  let ?row = "recordUsage gateway_call ''a'' 1 502 no_usage"
  note g = logged_in_gateway [of "\<lambda>_. []" "\<lambda>_. None"]
  have "ue_slot ?row = 1" by (simp add: recordUsage_def)
  from slot_isolation [OF logged_in_reachable r r g _ this] r g show ?thesis by auto
qed

text \<open>C15. The accounts that exist, their roles and whether they are active change only by a request with an administrator's session.\<close>

theorem standing_changes_by_admin:
  assumes "platform_handle cr now rq d = (d1, r)" and "standing d1 \<noteq> standing d"
  shows "admin_session cr now (request_token rq) d"
  by (rule standing_by_admin [OF assms])

theorem standing_changes_by_admin_witness:
  "admin_session sample_crypto 200 (Some ''t-a'') sample_db"
proof -
  let ?rq = "RqPatchUser ''ip'' (Some ''t-a'') ''c'' promote_body"
  obtain d1 r where h: "platform_handle sample_crypto 200 ?rq sample_db = (d1, r)"
    by (cases "platform_handle sample_crypto 200 ?rq sample_db")
  with promote_c have "standing d1 \<noteq> standing sample_db" by (auto simp: map_prod_def split: prod.splits)
  from standing_changes_by_admin [OF h this] show ?thesis by simp
qed

text \<open>
  C16. Disabling an account takes effect at once: no session of the user is left, no token leads to
  the user at any later time, and no login succeeds.
\<close>

theorem disabled_user_locked_out:
  assumes "users_inv d" and "patch_user cr now ip token i body d = (d1, Ok200)" and "body_active body = Some False"
  shows "no_sessions d1 i
     \<and> \<not> (\<exists>n tok d2 u x. sessionForToken cr n tok d1 = (d2, Some (u, x)) \<and> us_id u = i)
     \<and> (\<forall>n ip sid tok b. snd (login cr n ip sid tok b d1) \<noteq> OkUser i)"
proof -
  from patch_disables [OF assms] obtain u where n: "no_sessions d1 i" and u: "find_user d1 i = Some u" "\<not> us_active u"
    and inv: "users_inv d1" by blast
  have "\<not> (\<exists>n tok d2 u x. sessionForToken cr n tok d1 = (d2, Some (u, x)) \<and> us_id u = i)"
    using no_session_no_login n unfolding no_sessions_def by blast
  with n disabled_no_login [OF inv u] show ?thesis by blast
qed

theorem disabled_user_locked_out_witness:
  "\<exists>d1. patch_user sample_crypto 200 ''ip'' (Some ''t-a'') ''c'' off_body sample_db = (d1, Ok200) \<and> no_sessions d1 ''c''
     \<and> snd (login sample_crypto 300 ''ip'' ''s9'' ''t9'' password_body d1) = Unauthorized"
proof -
  let ?r = "patch_user sample_crypto 200 ''ip'' (Some ''t-a'') ''c'' off_body sample_db"
  from patch_off obtain d1 where r: "?r = (d1, Ok200)" by (metis prod.collapse)
  have "users_inv sample_db" using sample_db_inv by (simp add: platform_inv_def)
  moreover have "body_active off_body = Some False" by code_simp
  ultimately have "no_sessions d1 ''c''" using disabled_user_locked_out [OF _ r] by blast
  moreover have "snd (login sample_crypto 300 ''ip'' ''s9'' ''t9'' password_body d1) = Unauthorized"
    using locked_out_c r by (simp only: fst_conv)
  ultimately show ?thesis using r by blast
qed

text \<open>
  A password reset ends every session of the user and requires the new password to be changed.\<close>

lemma reset_ends_sessions:
  assumes "users_inv d" and "reset_password cr now ip token i body d = (d1, Ok200)"
  shows "no_sessions d1 i
     \<and> (\<exists>u. find_user d1 i = Some u \<and> us_mustChange u \<and> us_hash u = cr_hash cr (bodyValue body ''password''))"
  by (rule reset_effect [OF assms])



section \<open>The model gateway\<close>

text \<open>
  The capture holds the longest run of the last chunks that fits its limit, and at least the
  last chunk, whatever the sizes of the chunks; its byte counter is exact.
\<close>

lemma capture_keeps_tail:
  "kept_suffix chunks (fst (capture_all chunks)) \<and> snd (capture_all chunks) = total_bytes (fst (capture_all chunks))"
  using capture_all_kept by blast

text \<open>
  The usage read from a captured stream is that of its last frame that carries one, whatever
  earlier frames say and whether or not later frames parse.
\<close>

lemma usage_from_last_frame:
  assumes "candidates text = xs @ c # ys" and "usage_of parse c = Some u" and "\<forall>y \<in> set ys. usage_of parse y = None"
  shows "usageFromText parse text = u"
proof -
  have "first_usage parse (rev (candidates text)) = Some u" using assms first_usage_rev by blast
  then show ?thesis by (simp add: usageFromText_def)
qed

section \<open>Request headers\<close>

text \<open>
  The comparison that decides whether a request header is logged again is exact: against the
  header a live session holds, a canonical header compares equal only when it is that header.
\<close>

lemma header_comparison_exact:
  assumes "session_create h t seed = Inr s0" and "s = session_run s0 ops" and "snd (requestHeader s) = Some held"
  shows "headerEquals held (canonicalHeader proposed) \<longleftrightarrow> held = canonicalHeader proposed"
proof -
  have ok: "session_ok s" using session_run_ok [OF session_create_ok(1) [OF assms(1)]] assms(2) by simp
  then have "foldRequestHeader (s_log s) None = Some held"
    using requestHeader_ok(2) [OF ok prod.collapse [symmetric]] assms(3) by simp
  from foldRequestHeader_canonical [OF this] have "canonicalHeader held = held" by simp
  then show ?thesis using headerEquals_canonical canonicalHeader_idem by blast
qed

section \<open>What the checks do not cover\<close>

text \<open>
  A slot that was released is not assignable: it is offered as free, but the row of its former
  user keeps it, so creating a user fails, with the error of a taken address, and assigning it does nothing.
\<close>

lemma released_slot_unusable:
  assumes "free_slots d = s # ss" and "r \<in> set (db_runtimes d)" and "ur_slot r = s"
  shows "create_transaction u d = Inl (Conflict ''email'') \<and> assignFirstSlot i d = (d, None)"
  by (rule released_slot_blocked [OF assms])

text \<open>
  The login throttle limits what is recorded and not what is tried: however many failures are
  recorded for the address and the client, a request with the right password opens a session.
\<close>

lemma throttle_admits_right_password:
  assumes "5 \<le> failed_logins d ip em now"
    and "email (bodyValue b ''email'') = Some em" and "bodyValue b ''password'' \<noteq> []"
    and "user_by_email d em = Some u" and "us_active u" and "cr_verify cr (us_hash u) (bodyValue b ''password'')"
    and "createSession cr now sid tok (us_id u) d = Some d1"
  shows "snd (login cr now ip sid tok b d) = OkUser (us_id u)"
  using assms(2-7) by (rule login_unthrottled)

text \<open>
  The check that an administrator remains holds only for requests one after the other: with two
  active administrators, both requests that disable the other pass it when both check before either
  updates, and then none is left.
\<close>

lemma concurrent_disable_loses_admins:
  assumes "users_inv d" and "active_admins d = 2" and "i \<noteq> j" and "body_active body = Some False"
    and "find_user d i = Some u" and "us_role u = PlatformAdmin" and "us_active u"
    and "find_user d j = Some v" and "us_role v = PlatformAdmin" and "us_active v"
  shows "patch_check u j body d = None \<and> patch_check v i body d = None
    \<and> active_admins (patch_apply now ip v i body (patch_apply now ip' u j body d)) = 0"
  by (rule patch_race [OF assms])

section \<open>Stored logs and bounded output\<close>

text \<open>
  C18. A batch of events packed for storage and decoded again is the batch, event by event, whatever
  its events are, as long as none of them has the type of a row.
\<close>

theorem chunk_rows_roundtrip:
  assumes "\<forall>ev \<in> set evs. json_wf ev \<and> row_kind ev = None"
  shows "\<exists>ds. decode_all (packChunkRuns evs) = Inr ds \<and> list_all2 isDeepEqualJson ds evs"
  using pack_stands_for [OF assms] by (simp add: stands_for_def)

definition sample_delta :: "int \<Rightarrow> string \<Rightarrow> json" where
  "sample_delta i tok =
     JObj [(''seq'', int_json i), (''type'', JStr ''assistant/chunk''), (''time'', int_json (50 - i)),
           (''data'', JObj [(''turn'', int_json 1), (''step'', int_json 1),
              (''chunk'', JObj [(''type'', JStr ''text-delta''), (''index'', int_json 0), (''text'', JStr tok)])])]"

definition sample_batch :: "json list" where
  "sample_batch = [sample_delta 4 ''a'', sample_delta 5 ''b'', sample_delta 6 ''c'', JObj [(''type'', JStr ''turn/end'')]]"

theorem chunk_rows_roundtrip_witness:
  "length (packChunkRuns sample_batch) = 2
   \<and> (\<exists>ds. decode_all (packChunkRuns sample_batch) = Inr ds \<and> list_all2 isDeepEqualJson ds sample_batch)"
proof -
  have "\<forall>ev \<in> set sample_batch. json_wf ev \<and> row_kind ev = None" by code_simp
  moreover have "length (packChunkRuns sample_batch) = 2" by code_simp
  ultimately show ?thesis using chunk_rows_roundtrip by blast
qed

text \<open>
  Whatever row is read, the decoder either refuses it or returns events the packer could have
  packed: at least one, each of the delta kind the row names, with consecutive sequence numbers from
  its anchor.
\<close>

lemma chunk_row_image:
  assumes "decodeStorageRecord v = Inr evs" and "row_kind v = Some k"
  shows "evs \<noteq> [] \<and> (\<forall>ev \<in> set evs. classify ev = Some k)
     \<and> map seq_at evs = map (\<lambda>i. json_int (field ''seq0'' v) + int i) [0..<length evs]"
  by (rule decode_row_image [OF assms])

text \<open>
  C19. However a stream of whole UTF-8 code points is cut into chunks, the retained text is the text
  when it fits, and otherwise the decoded longest run of whole code points that fits the prefix,
  followed by the longest one that fits the suffix, with the number of bytes between them.
\<close>

theorem retained_text_whole_characters:
  assumes "newTextRetainer strategy = Inr r0" and "list_all utf8_char cps" and "concat chunks = concat cps"
    and "r = push_all r0 chunks" and "P = xr_prefixCap r0" and "S = xr_suffixCap r0"
    and "i = cut_points cps P" and "j = cut_start cps (length (concat cps) - S)"
    and "n = length (concat cps)"
  shows "text_finish decode r =
      (if n \<le> P + S then \<lparr>rt_text = decode (concat cps), rt_truncated = False, rt_omittedBytes = OmittedNone\<rparr>
       else \<lparr>rt_text = decode (concat (take i cps)) @ decode (concat (drop j cps)), rt_truncated = True,
              rt_omittedBytes = OmittedExact (n - length (concat (take i cps)) - length (concat (drop j cps)))\<rparr>)
    \<and> length (concat (take i cps)) \<le> P \<and> (i < length cps \<longrightarrow> P < length (concat (take (Suc i) cps)))
    \<and> n - S \<le> length (concat (take j cps)) \<and> (0 < j \<longrightarrow> length (concat (take (j - 1) cps)) < n - S)"
proof -
  have inv: "retainer_inv r (concat cps)" and caps: "xr_prefixCap r = P" "xr_suffixCap r = S"
    using push_all_inv [OF newTextRetainer_inv [OF assms(1)], of chunks] assms(3-6) by simp_all
  have fin: "text_finish decode r =
      (if n \<le> P + S then \<lparr>rt_text = decode (concat cps), rt_truncated = False, rt_omittedBytes = OmittedNone\<rparr>
       else \<lparr>rt_text = decode (concat (take i cps)) @ decode (concat (drop j cps)), rt_truncated = True,
              rt_omittedBytes = OmittedExact (n - length (concat (take i cps)) - length (concat (drop j cps)))\<rparr>)"
  proof (cases "n \<le> P + S")
    case True
    then show ?thesis using text_finish_whole [OF inv, of decode] assms(9) caps by simp
  next
    case False
    then show ?thesis using text_finish_cut [OF inv assms(2), of decode] assms(7-9) caps by simp
  qed
  have "min (n - S) n \<le> length (concat (take j cps)) \<and> (0 < j \<longrightarrow> length (concat (take (j - 1) cps)) < n - S)"
    using cut_start_spec [of "n - S" cps] unfolding assms(8, 9) .
  then show ?thesis using fin cut_points_spec [of cps P] assms(7) by simp
qed

text \<open>Three characters of two bytes, cut in the middle of the first and the last.\<close>

definition two_byte_chars :: "bytes list" where
  "two_byte_chars = [[0xC3, 0xA9], [0xC3, 0xA8], [0xC3, 0xA0]]"

theorem retained_text_whole_characters_witness:
  "text_finish (\<lambda>bs. replicate (length bs) CHR ''x'')
     (push_all (fresh_retainer 3 2) [[0xC3], [0xA9, 0xC3, 0xA8], [0xC3, 0xA0]]) =
   \<lparr>rt_text = ''xxxx'', rt_truncated = True, rt_omittedBytes = OmittedExact 2\<rparr>"
proof -
  have new: "newTextRetainer (HeadTail (JInt 3) (JInt 2)) = Inr (fresh_retainer 3 2)"
    by (simp add: newTextRetainer_def assertBudget_def)
  have cps: "list_all utf8_char two_byte_chars" by code_simp
  have whole: "concat [[0xC3], [0xA9, 0xC3, 0xA8], [0xC3, 0xA0]] = concat two_byte_chars" by (simp add: two_byte_chars_def)
  have caps: "(3::nat) = xr_prefixCap (fresh_retainer 3 2)" "(2::nat) = xr_suffixCap (fresh_retainer 3 2)"
    by (simp_all add: fresh_retainer_def)
  have cuts: "cut_points two_byte_chars 3 = 1" "cut_start two_byte_chars (length (concat two_byte_chars) - 2) = 2"
    by code_simp+
  from retained_text_whole_characters [OF new cps whole refl caps cuts [symmetric] refl,
      of "\<lambda>bs. replicate (length bs) CHR ''x''"]
  show ?thesis by (simp add: two_byte_chars_def)
qed

text \<open>
  C20. For any bytes in any chunks: the retainer never holds more than its two budgets, the decision
  of a push says whether the result after it would be truncated and whether the chunk lost bytes to the
  budget, and the reported omission is exactly the bytes that were seen and are not returned.
\<close>

theorem retention_accounts_exactly:
  assumes "newTextRetainer strategy = Inr r0" and "r = push_all r0 chunks" and "text_push r chunk = (r', decision)"
  shows "length (concat (xr_prefixChunks r')) \<le> xr_prefixCap r0 \<and> length (concat (xr_suffixChunks r')) \<le> xr_suffixCap r0
    \<and> pd_truncated decision = rt_truncated (text_finish decode r')
    \<and> pd_kept decision = (chunk = [] \<or> \<not> rt_truncated (text_finish decode r'))
    \<and> length (fst (kept_sides r')) + length (snd (kept_sides r'))
        + (case rt_omittedBytes (text_finish decode r') of OmittedExact n \<Rightarrow> n | _ \<Rightarrow> 0) = length (concat chunks @ chunk)"
proof -
  have inv: "retainer_inv r (concat chunks)" and caps: "xr_prefixCap r = xr_prefixCap r0" "xr_suffixCap r = xr_suffixCap r0"
    using push_all_inv [OF newTextRetainer_inv [OF assms(1)], of chunks] assms(2) by simp_all
  have inv': "retainer_inv r' (concat chunks @ chunk)" and caps': "xr_prefixCap r' = xr_prefixCap r0" "xr_suffixCap r' = xr_suffixCap r0"
    using text_push_inv [OF inv, of chunk] assms(3) caps by simp_all
  have acc: "rt_truncated (text_finish decode r') = (xr_prefixCap r0 + xr_suffixCap r0 < length (concat chunks @ chunk))"
    "length (fst (kept_sides r')) + length (snd (kept_sides r'))
        + (case rt_omittedBytes (text_finish decode r') of OmittedExact n \<Rightarrow> n | _ \<Rightarrow> 0) = length (concat chunks @ chunk)"
    using text_finish_account [OF inv', of decode] kept_sides_lengths [OF inv'] caps' by simp_all
  have dec: "pd_truncated decision = (xr_prefixCap r0 + xr_suffixCap r0 < length (concat chunks @ chunk))"
    "pd_kept decision = (chunk = [] \<or> length (concat chunks @ chunk) \<le> xr_prefixCap r0 + xr_suffixCap r0)"
    using text_push_decision [OF inv, of chunk] assms(3) caps by simp_all
  show ?thesis using retainer_memory [OF inv'] caps' acc dec by (simp add: not_less)
qed

theorem retention_accounts_exactly_witness:
  "pd_truncated (snd (text_push (push_all (fresh_retainer 1 1) [[0x61]]) [0x62, 0x63]))"
proof -
  have new: "newTextRetainer (HeadTail (JInt 1) (JInt 1)) = Inr (fresh_retainer 1 1)"
    by (simp add: newTextRetainer_def assertBudget_def)
  obtain r' d where p: "text_push (push_all (fresh_retainer 1 1) [[0x61]]) [0x62, 0x63] = (r', d)" by fastforce
  have "rt_truncated (text_finish (\<lambda>_. []) (fst (text_push (push_all (fresh_retainer 1 1) [[0x61]]) [0x62, 0x63])))"
    by code_simp
  with retention_accounts_exactly [OF new refl p, of "\<lambda>_. []"] p show ?thesis by simp
qed

section \<open>Reminders\<close>




text \<open>
  C22. The occurrence a fixed-rate dispatch records is the one that stepping from the target by the
  interval, as long as the next occurrence is due, ends at; the reminder then moves to the next one, or
  is finished when that is beyond the year 9999.
\<close>

theorem every_dispatch_is_last_due:
  assumes "decodeScheduleRecord (Some v) = Inr (EveryRecord i p n t)" and "four_digit now"
    and "target = target_ms (EveryRecord i p n t)" and "target \<le> now" and "occ = last_due target (n * 1000) now"
  shows "resolveEveryOccurrence (EveryRecord i p n t) (Some now) =
      Inr (toISOString occ, if MAX_FOUR_DIGIT_YEAR_MS < occ + n * 1000 then None else Some (toISOString (occ + n * 1000)))
    \<and> occ \<le> now \<and> now < occ + n * 1000"
proof -
  have ok: "record_ok (EveryRecord i p n t)" by (rule decode_record_ok [OF assms(1)])
  have due: "is_due now (EveryRecord i p n t)" using is_due_ok [OF ok] assms(3, 4) by simp
  have "0 < n * 1000" using ok by (simp add: MIN_EVERY_INTERVAL_SECONDS_def)
  from last_due_spec [OF this assms(4)] have "occ \<le> now \<and> now < occ + n * 1000" unfolding assms(5) by blast
  then show ?thesis using resolve_due [OF ok _ due assms(2)] assms(3, 5) by (simp add: Let_def)
qed

theorem every_dispatch_is_last_due_witness:
  "\<exists>nxt. resolveEveryOccurrence (EveryRecord ''b'' ''walk'' 300 ''1970-01-01T00:00:10.000Z'') (Some 1000000)
     = Inr (toISOString 910000, nxt)"
proof -
  have d: "decodeScheduleRecord (Some (record_json (EveryRecord ''b'' ''walk'' 300 ''1970-01-01T00:00:10.000Z'')))
      = Inr (EveryRecord ''b'' ''walk'' 300 ''1970-01-01T00:00:10.000Z'')" by code_simp
  have t: "10000 = target_ms (EveryRecord ''b'' ''walk'' 300 ''1970-01-01T00:00:10.000Z'')" by code_simp
  have now: "four_digit 1000000" by (simp add: four_digit_def MIN_FOUR_DIGIT_YEAR_MS_def MAX_FOUR_DIGIT_YEAR_MS_def)
  have occ: "910000 = last_due 10000 (300 * 1000) 1000000" by (simp add: last_due.simps)
  from every_dispatch_is_last_due [OF d now t _ occ] show ?thesis by simp
qed

text \<open>
  C23. The search for the identity of a new reminder ends, after at most as many steps as there are
  identities in use, with one that was never used.
\<close>

theorem schedule_identity_search_ends:
  "\<exists>j \<le> length (fs_seenIds f). allocateScheduleId f = Some (schedule_name (card (set (fs_seenIds f)) + 1 + j))
     \<and> schedule_name (card (set (fs_seenIds f)) + 1 + j) \<notin> set (fs_seenIds f)"
  unfolding allocateScheduleId_def by (rule next_free_total)

text \<open>
  C24. A runtime driven at one instant hands every due one-shot reminder to the agent, in the order of
  their targets, then all due fixed-rate reminders in one batch, each once and each recorded in the log;
  then nothing is due, it stops, and the timer waits for the earliest remaining target.
\<close>

theorem due_reminders_delivered:
  assumes "fold_log (dv_log s) = Inr f" and "four_digit now" and "dv_requested s" and "\<not> dv_faulted s"
    and "one = due_one_shots now (fs_active f)" and "ev = due_everys now (fs_active f)"
    and "s' = runRequested (replicate (length one + (if ev = [] then 1 else 2)) (steady_input now tm)) s"
  shows "dv_followups s' = dv_followups s @ map renderReminderFraming one
        @ (if ev = [] then [] else [renderEveryReminderBatchFraming (map (every_entry now) ev)])
    \<and> (\<exists>f'. fold_log (dv_log s') = Inr f' \<and> fs_active f' = settle now (fs_active f)
          \<and> (\<forall>r \<in> set (fs_active f'). \<not> is_due now r)
          \<and> dv_timer s' = (if fs_active f' = [] then None
                           else Some (min (Min (target_ms ` set (fs_active f')) - now) MAX_TIMER_DELAY_MS)))
    \<and> \<not> dv_requested s' \<and> \<not> dv_faulted s'"
proof -
  have "\<forall>r \<in> set (fs_active f). record_ok r" using fold_log_ok [OF assms(1)] by (simp add: fold_ok_def)
  note rest = settle_rest [OF this, of now]
  have "drained now f s s'" using drain_all [OF assms(1-4), of tm] assms(5-7) by simp
  then show ?thesis using rest next_target_Min [OF rest] assms(5, 6) by (simp add: drained_def)
qed

definition sample_records :: "schedule_record list" where
  "sample_records =
     [AtRecord ''a'' ''tea'' ''1970-01-01T00:00:05.000Z'', EveryRecord ''b'' ''walk'' 300 ''1970-01-01T00:00:10.000Z'',
      AtRecord ''c'' ''rest'' ''1970-01-01T00:33:20.000Z'']"

definition sample_runtime :: schedule_runtime where
  "sample_runtime =
     \<lparr>dv_log = \<lparr>sl_events = map (\<lambda>r. change_event 0 (CreateChange r) []) sample_records, sl_seed = 0\<rparr>,
      dv_followups = [], dv_timer = None, dv_requested = True, dv_faulted = False, dv_idleWait = False\<rparr>"

theorem due_reminders_delivered_witness:
  "\<exists>s'. s' = runRequested (replicate 3 (steady_input 1000000 7)) sample_runtime
     \<and> length (dv_followups s') = 2 \<and> \<not> dv_requested s'
     \<and> (\<exists>f'. fold_log (dv_log s') = Inr f' \<and> length (fs_active f') = 2)"
proof -
  have l: "fold_log (dv_log sample_runtime) = Inr \<lparr>fs_active = sample_records, fs_seenIds = [''a'', ''b'', ''c'']\<rparr>"
    by code_simp
  have now: "four_digit 1000000" by (simp add: four_digit_def MIN_FOUR_DIGIT_YEAR_MS_def MAX_FOUR_DIGIT_YEAR_MS_def)
  have st: "dv_requested sample_runtime" "\<not> dv_faulted sample_runtime" "dv_followups sample_runtime = []"
    by (simp_all add: sample_runtime_def)
  have n: "length (due_one_shots 1000000 sample_records) = 1" "length (due_everys 1000000 sample_records) = 1"
    "length (settle 1000000 sample_records) = 2" by code_simp+
  then have "due_everys 1000000 sample_records \<noteq> []" by auto
  with due_reminders_delivered [OF l now st(1, 2) refl refl refl, of 7] n st(3) show ?thesis
    by (auto simp: eval_nat_numeral)
qed

text \<open>
  C25. With the log intact and the barriers passed, creating a reminder gives it an unused identity and
  either refuses the rule, leaving the log as it is, or returns a reminder in the future that the log then
  folds to, behind the others, and that the list shows last; deleting it removes it and only it.
\<close>

theorem created_reminder_listed:
  assumes "fold_log l = Inr f" and "steady_tool ti" and "four_digit (ti_now ti)" and "validateCreateArgs a = None"
  shows "\<exists>i. i \<notin> set (fs_seenIds f) \<and>
    (case create_record ti a i of
       Inl e \<Rightarrow> schedule_create ti a l = (Inl (InputError e), l)
     | Inr r \<Rightarrow> ti_now ti < target_ms r \<and>
         (\<exists>l1. schedule_create ti a l = (Inr (scheduleView r (ti_viewNow ti)), l1)
           \<and> schedule_list ti l1 = Inr (map (\<lambda>r. scheduleView r (ti_now ti)) (fs_active f @ [r]))
           \<and> (\<exists>l2. schedule_delete ti i l1 = (Inr True, l2)
                \<and> schedule_list ti l2 = Inr (map (\<lambda>r. scheduleView r (ti_now ti)) (fs_active f)))))"
proof -
  obtain i where i: "allocateScheduleId f = Some i" "i \<notin> set (fs_seenIds f)" "id_ok i" using allocate_fresh by blast
  note spec = schedule_create_spec [OF assms i(1)]
  show ?thesis
  proof (cases "create_record ti a i")
    case (Inl e)
    with spec i(2) show ?thesis by auto
  next
    case (Inr r)
    let ?f1 = "f\<lparr>fs_seenIds := fs_seenIds f @ [i], fs_active := fs_active f @ [r]\<rparr>"
    from spec Inr obtain l1 where c: "ti_now ti < target_ms r" "schedule_create ti a l = (Inr (scheduleView r (ti_viewNow ti)), l1)"
      and f1: "fold_log l1 = Inr ?f1" by auto
    have r: "sr_id r = i" using create_record_ok [OF Inr i(3) assms(3)] by blast
    have "i \<notin> sr_id ` set (fs_active f)" using fold_log_ok [OF assms(1)] i(2) by (auto simp: fold_ok_def)
    then have keep: "filter (\<lambda>r. sr_id r \<noteq> i) (fs_active f @ [r]) = fs_active f" using r by (auto simp: filter_id_conv image_iff)
    from schedule_delete_spec [OF f1 assms(2) i(3)] obtain l2 where "schedule_delete ti i l1 = (Inr True, l2)"
      "fold_log l2 = Inr (?f1\<lparr>fs_active := fs_active f\<rparr>)" using r keep by auto
    with schedule_list_spec [OF f1 assms(2)] schedule_list_spec [of l2 _ ti] assms(2) c Inr i(2) show ?thesis by auto
  qed
qed

definition sample_tool :: tool_input where
  "sample_tool =
     \<lparr>ti_sameAgent = True, ti_cancelled = False, ti_flush = True, ti_cancelledLater = False, ti_barrier = True,
      ti_now = 1000, ti_viewNow = 1000, ti_time = 1, ti_intl = \<lparr>in_canonical = \<lambda>z. Some z, in_offset = \<lambda>z t. 0\<rparr>\<rparr>"

definition sample_args :: create_args where
  "sample_args =
     \<lparr>ca_prompt = '' tea '', ca_after = Some (JInt 60), ca_at = None, ca_every = None, ca_otherKeys = False\<rparr>"

theorem created_reminder_listed_witness:
  "\<exists>r l1. schedule_create sample_tool sample_args \<lparr>sl_events = [], sl_seed = 0\<rparr> = (Inr (scheduleView r 1000), l1)
     \<and> schedule_list sample_tool l1 = Inr [scheduleView r 1000]"
proof -
  have l: "fold_log \<lparr>sl_events = [], sl_seed = 0\<rparr> = Inr \<lparr>fs_active = [], fs_seenIds = []\<rparr>" by code_simp
  have s: "steady_tool sample_tool" by (simp add: steady_tool_def sample_tool_def)
  have now: "four_digit (ti_now sample_tool)"
    by (simp add: four_digit_def MIN_FOUR_DIGIT_YEAR_MS_def MAX_FOUR_DIGIT_YEAR_MS_def sample_tool_def)
  have v: "validateCreateArgs sample_args = None" by code_simp
  have t: "ti_now sample_tool = 1000" "ti_viewNow sample_tool = 1000" by (simp_all add: sample_tool_def)
  have f: "futureInstant 61000 1000 = Inr (toISOString 61000)" by code_simp
  have tr: "js_trim '' tea '' = ''tea''" by code_simp
  have "create_record sample_tool sample_args i = Inr (AfterRecord i ''tea'' 60 (toISOString 61000))" for i
    using f tr by (simp add: create_record_def createAfterScheduleRecord_def sample_args_def t max_safe_integer_def)
  with created_reminder_listed [OF l s now v] t show ?thesis by auto
qed

text \<open>
  The text of a reminder has the lines of its template, whatever the prompt and the identity
  contain: neither can start a line of its own.
\<close>

lemma reminder_lines_fixed:
  assumes "fold_log l = Inr f" and "r \<in> set (fs_active f)"
  shows "line_breaks (renderReminderFraming r) = 4 \<and> line_breaks (renderEveryReminderBatchFraming ds) = 2"
  using fold_log_ok [OF assms(1)] assms(2) reminder_breaks batch_breaks by (auto simp: fold_ok_def)

end
